(* ===== verification/Prelude.thy ===== *)
theory Prelude
  imports Main "HOL-Library.Sublist"
begin

section \<open>Prelude: generic facts shared by the components\<close>

text \<open>
  Facts about lists that several components need: deques emptied from the back by a loop,
  runs of elements numbered by consecutive indexes (the raft log is one), and lists kept
  sorted by a key (the model of \<^verbatim>\<open>std::set\<close> and \<^verbatim>\<open>std::map\<close>).
  The collections \<open>quorum_simps\<close>, \<open>log_simps\<close> and \<open>node_simps\<close> gather the
  rewrite rules the component theories declare for the components above them.
\<close>

named_theorems quorum_simps
named_theorems log_simps
named_theorems node_simps

subsection \<open>Loops that pop a deque\<close>

text \<open>
  \<open>while (!q.empty() && P(q.front())) q.pop_front();\<close> is \<open>dropWhile\<close>; the loop
  over \<open>back()\<close> and \<open>pop_back()\<close> is \<open>pop_back_while\<close>.
\<close>

definition pop_back_while :: "('a \<Rightarrow> bool) \<Rightarrow> 'a list \<Rightarrow> 'a list" where
  "pop_back_while P xs = rev (dropWhile P (rev xs))"

lemma pop_back_while_Nil [simp]: "pop_back_while P [] = []"
  by (simp add: pop_back_while_def)

lemma pop_back_while_snoc [simp]:
  "pop_back_while P (xs @ [x]) = (if P x then pop_back_while P xs else xs @ [x])"
  by (simp add: pop_back_while_def)

lemma pop_back_while_prefix: "\<exists>ys. xs = pop_back_while P xs @ ys \<and> (\<forall>y \<in> set ys. P y)"
proof (induction xs rule: rev_induct)
  case Nil
  then show ?case by simp
next
  case (snoc x xs)
  then obtain ys where ys: "xs = pop_back_while P xs @ ys" "\<forall>y \<in> set ys. P y"
    by blast
  show ?case
  proof (cases "P x")
    case True
    with ys have "xs @ [x] = pop_back_while P (xs @ [x]) @ (ys @ [x])"
      by simp
    moreover from True ys have "\<forall>y \<in> set (ys @ [x]). P y"
      by simp
    ultimately show ?thesis by blast
  next
    case False
    then show ?thesis by simp
  qed
qed

lemma pop_back_while_last:
  "pop_back_while P xs \<noteq> [] \<Longrightarrow> \<not> P (last (pop_back_while P xs))"
  by (induction xs rule: rev_induct) auto

lemma set_pop_back_while: "x \<in> set (pop_back_while P xs) \<Longrightarrow> x \<in> set xs"
  using set_dropWhileD [of x P "rev xs"] by (simp add: pop_back_while_def)

subsection \<open>Runs of consecutive indexes\<close>

text \<open>\<open>contig f i xs\<close>: the elements of \<open>xs\<close> carry the indexes \<open>i\<close>, \<open>i + 1\<close>, and so on.\<close>

fun contig :: "('a \<Rightarrow> int) \<Rightarrow> int \<Rightarrow> 'a list \<Rightarrow> bool" where
  "contig f i [] = True"
| "contig f i (x # xs) = (f x = i \<and> contig f (i + 1) xs)"

lemma contig_append:
  "contig f i (xs @ ys) \<longleftrightarrow> contig f i xs \<and> contig f (i + int (length xs)) ys"
  by (induction xs arbitrary: i) (auto simp: algebra_simps)

lemma contig_nth: "contig f i xs \<Longrightarrow> k < length xs \<Longrightarrow> f (xs ! k) = i + int k"
proof (induction xs arbitrary: i k)
  case Nil
  then show ?case by simp
next
  case (Cons x xs)
  then show ?case by (cases k) auto
qed

lemma contig_ge: "contig f i xs \<Longrightarrow> x \<in> set xs \<Longrightarrow> i \<le> f x"
  using contig_nth by (fastforce simp: in_set_conv_nth)

lemma contig_less: "contig f i xs \<Longrightarrow> x \<in> set xs \<Longrightarrow> f x < i + int (length xs)"
  using contig_nth by (fastforce simp: in_set_conv_nth)

lemma contig_hd: "contig f i xs \<Longrightarrow> xs \<noteq> [] \<Longrightarrow> f (hd xs) = i"
  by (cases xs) auto

lemma contig_last: "contig f i xs \<Longrightarrow> xs \<noteq> [] \<Longrightarrow> f (last xs) = i + int (length xs) - 1"
  by (cases xs rule: rev_cases) (auto simp: contig_append)

lemma contig_dropWhile:
  "contig f i xs \<Longrightarrow> dropWhile (\<lambda>x. f x < k) xs = drop (nat (k - i)) xs"
proof (induction xs arbitrary: i)
  case Nil
  then show ?case by simp
next
  case (Cons x xs)
  show ?case
  proof (cases "i < k")
    case True
    then have "nat (k - i) = Suc (nat (k - (i + 1)))"
      by simp
    with Cons True show ?thesis by simp
  next
    case False
    with Cons.prems show ?thesis by simp
  qed
qed

lemma contig_drop: "contig f i xs \<Longrightarrow> n \<le> length xs \<Longrightarrow> contig f (i + int n) (drop n xs)"
  by (metis append_take_drop_id contig_append length_take min_absorb2)

lemma contig_take: "contig f i xs \<Longrightarrow> contig f i (take n xs)"
  by (metis append_take_drop_id contig_append)

lemma contig_pop_back_while:
  "contig f i xs \<Longrightarrow> pop_back_while (\<lambda>x. f x > k) xs = take (nat (k + 1 - i)) xs"
proof (induction xs rule: rev_induct)
  case Nil
  then show ?case by simp
next
  case (snoc x xs)
  then have x: "f x = i + int (length xs)" and c: "contig f i xs"
    by (auto simp: contig_append)
  show ?case
  proof (cases "f x > k")
    case True
    with x have "nat (k + 1 - i) \<le> length xs" by simp
    with True snoc.IH [OF c] show ?thesis by simp
  next
    case False
    with x have "Suc (length xs) \<le> nat (k + 1 - i)" by simp
    with False show ?thesis by simp
  qed
qed

lemma contig_inj: "contig f i xs \<Longrightarrow> distinct (map f xs)"
proof (induction xs arbitrary: i)
  case Nil
  then show ?case by simp
next
  case (Cons x xs)
  then have "contig f (i + 1) xs" and "f x = i" by simp_all
  then show ?case
    using Cons.IH contig_ge [of f "i + 1" xs] by fastforce
qed

text \<open>\<open>runs_to f l xs\<close>: a run of consecutive indexes that ends at \<open>l\<close>.\<close>

definition runs_to :: "('a \<Rightarrow> int) \<Rightarrow> int \<Rightarrow> 'a list \<Rightarrow> bool" where
  "runs_to f l xs \<longleftrightarrow> contig f (l + 1 - int (length xs)) xs"

lemma runs_to_Nil [simp]: "runs_to f l []"
  by (simp add: runs_to_def)

lemma runs_to_drop:
  assumes "runs_to f l xs"
  shows "runs_to f l (drop n xs)"
proof (cases "n \<le> length xs")
  case True
  then have "l + 1 - int (length (drop n xs)) = l + 1 - int (length xs) + int n"
    by (simp add: of_nat_diff)
  with True assms contig_drop [of f _ xs n] show ?thesis
    unfolding runs_to_def by metis
qed simp

lemma runs_to_dropWhile: "runs_to f l xs \<Longrightarrow> runs_to f l (dropWhile P xs)"
  by (simp add: dropWhile_eq_drop runs_to_drop)

lemma runs_to_append:
  assumes "runs_to f l xs" and "contig f (l + 1) ys"
  shows "runs_to f (l + int (length ys)) (xs @ ys)"
proof -
  let ?s = "l + 1 - int (length xs)"
  have "l + int (length ys) + 1 - int (length (xs @ ys)) = ?s" by simp
  moreover have "contig f ?s (xs @ ys)"
    using assms by (simp add: contig_append runs_to_def)
  ultimately show ?thesis by (simp only: runs_to_def)
qed

lemma runs_to_pop_back:
  assumes "runs_to f l xs" and "k \<le> l"
  shows "runs_to f k (pop_back_while (\<lambda>x. f x > k) xs)"
proof -
  let ?s = "l + 1 - int (length xs)"
  have pb: "pop_back_while (\<lambda>x. f x > k) xs = take (nat (k + 1 - ?s)) xs"
    using assms(1) by (intro contig_pop_back_while) (simp add: runs_to_def)
  show ?thesis
  proof (cases "k + 1 \<le> ?s")
    case True
    then show ?thesis by (simp add: pb)
  next
    case False
    then have "k + 1 - int (length (take (nat (k + 1 - ?s)) xs)) = ?s"
      using assms(2) by auto
    moreover have "contig f ?s (take (nat (k + 1 - ?s)) xs)"
      using assms(1) by (simp add: contig_take runs_to_def)
    ultimately show ?thesis
      unfolding pb runs_to_def by (simp only:)
  qed
qed

lemma runs_to_last: "runs_to f l xs \<Longrightarrow> xs \<noteq> [] \<Longrightarrow> f (last xs) = l"
  using contig_last by (fastforce simp: runs_to_def)

lemma runs_to_hd: "runs_to f l xs \<Longrightarrow> xs \<noteq> [] \<Longrightarrow> f (hd xs) = l + 1 - int (length xs)"
  using contig_hd by (fastforce simp: runs_to_def)

subsection \<open>Lists sorted by a key\<close>

definition ksorted :: "('a \<Rightarrow> 'k::linorder) \<Rightarrow> 'a list \<Rightarrow> bool" where
  "ksorted f xs \<longleftrightarrow> sorted_wrt (<) (map f xs)"

lemma ksorted_Nil [simp]: "ksorted f []"
  by (simp add: ksorted_def)

lemma ksorted_Cons [simp]:
  "ksorted f (x # xs) \<longleftrightarrow> (\<forall>y \<in> set xs. f x < f y) \<and> ksorted f xs"
  by (auto simp: ksorted_def)

lemma ksorted_append:
  "ksorted f (xs @ ys) \<longleftrightarrow>
     ksorted f xs \<and> ksorted f ys \<and> (\<forall>x \<in> set xs. \<forall>y \<in> set ys. f x < f y)"
  by (auto simp: ksorted_def sorted_wrt_append)

lemma ksorted_filter: "ksorted f xs \<Longrightarrow> ksorted f (filter P xs)"
  by (induction xs) auto

lemma ksorted_inj:
  "ksorted f xs \<Longrightarrow> x \<in> set xs \<Longrightarrow> y \<in> set xs \<Longrightarrow> f x = f y \<Longrightarrow> x = y"
proof (induction xs)
  case Nil
  then show ?case by simp
next
  case (Cons z zs)
  then show ?case
    by (metis ksorted_Cons less_irrefl set_ConsD)
qed

lemma ksorted_distinct: "ksorted f xs \<Longrightarrow> distinct (map f xs)"
  by (induction xs) (fastforce simp: image_iff)+

lemma ksorted_dropWhile:
  "ksorted f xs \<Longrightarrow> dropWhile (\<lambda>x. f x < k) xs = filter (\<lambda>x. k \<le> f x) xs"
proof (induction xs)
  case Nil
  then show ?case by simp
next
  case (Cons x xs)
  then show ?case
    by (force simp: not_less intro: filter_True [symmetric])
qed

lemma ksorted_pop_back_while:
  "ksorted f xs \<Longrightarrow> pop_back_while (\<lambda>x. f x > k) xs = filter (\<lambda>x. f x \<le> k) xs"
proof (induction xs rule: rev_induct)
  case Nil
  then show ?case by simp
next
  case (snoc x xs)
  then show ?case
    by (force simp: ksorted_append not_less intro: filter_True [symmetric])
qed

end
