(* ===== verification/PeerConf.thy ===== *)
theory PeerConf
  imports Prelude "HOL-Library.Word" "HOL-Library.Product_Lexorder"
begin

section \<open>Peers and configurations (configuration.h, configuration.cpp)\<close>

text \<open>
  \<open>PeerId\<close> is an endpoint, an index and a role; its comparisons ignore the role, so they
  are the functions \<open>peer_lt\<close> and \<open>peer_eq\<close>, not HOL equality. A \<open>Configuration\<close>
  is a \<^verbatim>\<open>std::set<PeerId>\<close>: a list kept strictly sorted by \<open>peer_lt\<close> (so the
  iteration order of the code is the order of the list), whose insertion keeps the element that is
  already there. \<open>butil::str2ip\<close>, \<open>butil::endpoint2str\<close> and
  \<open>butil::StringSplitter\<close> are not part of the repository and are parameters. The order of
  \<open>butil::EndPoint\<close> is that of a struct of an address and a port; no proof uses more than
  that it is a strict linear order.
\<close>

subsection \<open>Endpoints and peers\<close>

datatype endpoint = EndPoint (ep_ip: "32 word") (ep_port: int)

instantiation endpoint :: linorder
begin

definition less_endpoint :: "endpoint \<Rightarrow> endpoint \<Rightarrow> bool" where
  "less_endpoint a b \<longleftrightarrow> ep_ip a < ep_ip b \<or> ep_ip a = ep_ip b \<and> ep_port a < ep_port b"

definition less_eq_endpoint :: "endpoint \<Rightarrow> endpoint \<Rightarrow> bool" where
  "less_eq_endpoint a b \<longleftrightarrow> a < b \<or> a = b"

instance
proof
  fix x y z :: endpoint
  show "(x < y) = (x \<le> y \<and> \<not> y \<le> x)"
    by (cases x; cases y) (auto simp: less_endpoint_def less_eq_endpoint_def)
  show "x \<le> x" by (simp add: less_eq_endpoint_def)
  show "x \<le> y \<Longrightarrow> y \<le> z \<Longrightarrow> x \<le> z"
    by (cases x; cases y; cases z) (auto simp: less_endpoint_def less_eq_endpoint_def)
  show "x \<le> y \<Longrightarrow> y \<le> x \<Longrightarrow> x = y"
    by (cases x; cases y) (auto simp: less_endpoint_def less_eq_endpoint_def)
  show "x \<le> y \<or> y \<le> x"
    by (cases x; cases y) (auto simp: less_endpoint_def less_eq_endpoint_def)
qed

end

datatype role = REPLICA | WITNESS

record peer_id =
  addr :: endpoint
  idx :: int
  role :: role

definition empty_peer :: peer_id where
  "empty_peer = \<lparr>addr = EndPoint 0 0, idx = 0, role = REPLICA\<rparr>"

definition peer_is_empty :: "peer_id \<Rightarrow> bool" where
  "peer_is_empty p \<longleftrightarrow> ep_ip (addr p) = 0 \<and> ep_port (addr p) = 0 \<and> idx p = 0"

definition peer_is_witness :: "peer_id \<Rightarrow> bool" where
  "peer_is_witness p \<longleftrightarrow> role p = WITNESS"

definition peer_lt :: "peer_id \<Rightarrow> peer_id \<Rightarrow> bool" where
  "peer_lt a b \<longleftrightarrow> (if addr a < addr b then True else addr a = addr b \<and> idx a < idx b)"

definition peer_eq :: "peer_id \<Rightarrow> peer_id \<Rightarrow> bool" where
  "peer_eq a b \<longleftrightarrow> addr a = addr b \<and> idx a = idx b"

text \<open>The part of a peer its comparisons read.\<close>

type_synonym peer_key = "endpoint \<times> int"

definition pkey :: "peer_id \<Rightarrow> peer_key" where
  "pkey p = (addr p, idx p)"

lemma peer_lt_key: "peer_lt a b \<longleftrightarrow> pkey a < pkey b"
  by (auto simp: peer_lt_def pkey_def less_prod_def less_eq_prod_def)

lemma peer_eq_key: "peer_eq a b \<longleftrightarrow> pkey a = pkey b"
  by (simp add: peer_eq_def pkey_def)

lemma peer_eq_refl [simp]: "peer_eq p p"
  by (simp add: peer_eq_key)

lemma peer_is_empty_key: "peer_is_empty p \<longleftrightarrow> pkey p = pkey empty_peer"
  by (cases "addr p") (auto simp: peer_is_empty_def empty_peer_def pkey_def)

lemma empty_peer_is_empty [simp]: "peer_is_empty empty_peer"
  by (simp add: peer_is_empty_key)

subsection \<open>Decimal numbers, as printf and scanf write and read them\<close>

definition is_digit :: "char \<Rightarrow> bool" where
  "is_digit c \<longleftrightarrow> 48 \<le> (of_char c :: nat) \<and> (of_char c :: nat) \<le> 57"

definition is_space :: "char \<Rightarrow> bool" where
  "is_space c \<longleftrightarrow> (of_char c :: nat) = 32 \<or> 9 \<le> (of_char c :: nat) \<and> (of_char c :: nat) \<le> 13"

fun show_nat :: "nat \<Rightarrow> string" where
  "show_nat n = (if n < 10 then [char_of (48 + n)]
                 else show_nat (n div 10) @ [char_of (48 + n mod 10)])"

declare show_nat.simps [simp del]

definition show_int :: "int \<Rightarrow> string" where
  "show_int i = (if i < 0 then CHR ''-'' # show_nat (nat (- i)) else show_nat (nat i))"

definition digits_val :: "string \<Rightarrow> nat" where
  "digits_val ds = foldl (\<lambda>v c. 10 * v + (of_char c - 48)) 0 ds"

definition scan_int :: "string \<Rightarrow> (int \<times> string) option" where
  "scan_int s =
     (let s1 = dropWhile is_space s;
          neg = (s1 \<noteq> [] \<and> hd s1 = CHR ''-'');
          s2 = (if s1 \<noteq> [] \<and> (hd s1 = CHR ''-'' \<or> hd s1 = CHR ''+'') then tl s1 else s1);
          ds = takeWhile is_digit s2
      in if ds = [] then None
         else Some (if neg then - int (digits_val ds) else int (digits_val ds),
                    dropWhile is_digit s2))"

lemma is_digit_char_of: "d < (10::nat) \<Longrightarrow> is_digit (char_of (48 + d))"
  by (simp add: is_digit_def)

lemma of_char_digit: "d < (10::nat) \<Longrightarrow> (of_char (char_of (48 + d) :: char) :: nat) = 48 + d"
  by simp

lemma show_nat_digits: "\<forall>c \<in> set (show_nat n). is_digit c"
proof (induction n rule: show_nat.induct)
  case (1 n)
  then show ?case
    by (subst show_nat.simps) (auto simp: is_digit_char_of)
qed

lemma show_nat_nonempty: "show_nat n \<noteq> []"
  by (subst show_nat.simps) simp

lemma digits_val_show_nat: "digits_val (show_nat n) = n"
proof (induction n rule: show_nat.induct)
  case (1 n)
  show ?case
  proof (cases "n < 10")
    case True
    then show ?thesis
      by (subst show_nat.simps) (simp add: digits_val_def of_char_digit)
  next
    case False
    with 1 have "foldl (\<lambda>v c. 10 * v + (of_char c - 48)) 0 (show_nat (n div 10)) = n div 10"
      by (simp add: digits_val_def)
    moreover have "(of_char (char_of (48 + n mod 10) :: char) :: nat) = 48 + n mod 10"
      by (rule of_char_digit) simp
    ultimately show ?thesis
      using False by (subst show_nat.simps) (simp add: digits_val_def)
  qed
qed

lemma digit_not_space: "is_digit c \<Longrightarrow> \<not> is_space c"
  by (auto simp: is_digit_def is_space_def)

lemma digit_not_sign: "is_digit c \<Longrightarrow> c \<noteq> CHR ''-'' \<and> c \<noteq> CHR ''+'' \<and> c \<noteq> CHR '':'' \<and> c \<noteq> CHR 0x00"
  by (auto simp: is_digit_def)

lemma scan_show_nat:
  assumes "r = [] \<or> \<not> is_digit (hd r)"
  shows "scan_int (show_nat n @ r) = Some (int n, r)"
proof -
  obtain c cs where cs: "show_nat n = c # cs"
    using show_nat_nonempty by (cases "show_nat n") auto
  then have c: "is_digit c"
    using show_nat_digits [of n] by simp
  have tw: "takeWhile is_digit (show_nat n @ r) = show_nat n"
    and dw: "dropWhile is_digit (show_nat n @ r) = r"
    using assms show_nat_digits [of n]
    by (cases r; simp add: takeWhile_append2 dropWhile_append2)+
  have sp: "dropWhile is_space (show_nat n @ r) = show_nat n @ r"
    using cs c digit_not_space by simp
  show ?thesis
    using cs c digit_not_space [OF c] digit_not_sign [OF c] tw dw digits_val_show_nat [of n]
    by (simp add: scan_int_def sp show_nat_nonempty)
qed

lemma scan_show_int:
  assumes "r = [] \<or> \<not> is_digit (hd r)"
  shows "scan_int (show_int i @ r) = Some (i, r)"
proof (cases "i < 0")
  case False
  then show ?thesis using scan_show_nat [OF assms, of "nat i"] by (simp add: show_int_def)
next
  case True
  let ?s = "show_nat (nat (- i))"
  have tw: "takeWhile is_digit (?s @ r) = ?s" and dw: "dropWhile is_digit (?s @ r) = r"
    using assms show_nat_digits [of "nat (- i)"]
    by (cases r; simp add: takeWhile_append2 dropWhile_append2)+
  have "\<not> is_space (CHR ''-'')" by (simp add: is_space_def)
  with True tw dw show ?thesis
    by (simp add: scan_int_def show_int_def show_nat_nonempty digits_val_show_nat)
qed

subsection \<open>PeerId::parse and PeerId::to_string\<close>

text \<open>
  \<open>parse\<close> runs \<open>sscanf\<close> with the format \<^verbatim>\<open>%[^:]%*[:]%d%*[:]%d%*[:]%d\<close>: a
  non-empty field without colons, then up to three times a run of colons and a number. At least
  the field and one number (the port) must be there. \<open>None\<close> is the return value -1, after
  which the object is the reset one. A role outside the enumeration is rejected; numbers are
  read without the overflow of \<open>int\<close>, which \<open>sscanf\<close> leaves undefined. The field is copied
  into a buffer of 64 bytes with no bound: \<open>parse_in_buffer\<close> says when it fits.
\<close>

definition c_str :: "string \<Rightarrow> string" where
  "c_str s = takeWhile (\<lambda>c. c \<noteq> CHR 0x00) s"

definition scan_colons :: "string \<Rightarrow> string option" where
  "scan_colons s = (if s \<noteq> [] \<and> hd s = CHR '':'' then Some (dropWhile (\<lambda>c. c = CHR '':'') s) else None)"

definition scan_colons_int :: "string \<Rightarrow> (int \<times> string) option" where
  "scan_colons_int s = Option.bind (scan_colons s) scan_int"

definition role_of_int :: "int \<Rightarrow> role option" where
  "role_of_int v = (if v = 0 then Some REPLICA else if v = 1 then Some WITNESS else None)"

definition int_of_role :: "role \<Rightarrow> int" where
  "int_of_role r = (case r of REPLICA \<Rightarrow> 0 | WITNESS \<Rightarrow> 1)"

definition parse_in_buffer :: "string \<Rightarrow> bool" where
  "parse_in_buffer str \<longleftrightarrow> length (takeWhile (\<lambda>c. c \<noteq> CHR '':'') (c_str str)) < 64"

definition peer_parse :: "(string \<Rightarrow> 32 word option) \<Rightarrow> string \<Rightarrow> peer_id option" where
  "peer_parse str2ip str =
     (let s = c_str str;
          ip_str = takeWhile (\<lambda>c. c \<noteq> CHR '':'') s
      in if ip_str = [] then None
         else case scan_colons_int (dropWhile (\<lambda>c. c \<noteq> CHR '':'') s) of
           None \<Rightarrow> None
         | Some (port, r1) \<Rightarrow>
             (let (i, v) = (case scan_colons_int r1 of
                              None \<Rightarrow> (0, 0)
                            | Some (i, r2) \<Rightarrow>
                                (case scan_colons_int r2 of None \<Rightarrow> (i, 0) | Some (v, _) \<Rightarrow> (i, v)))
              in case role_of_int v of
                   None \<Rightarrow> None
                 | Some ro \<Rightarrow>
                     (case str2ip ip_str of
                        None \<Rightarrow> None
                      | Some a \<Rightarrow> Some \<lparr>addr = EndPoint a port, idx = i, role = ro\<rparr>)))"

definition peer_to_string :: "(endpoint \<Rightarrow> string) \<Rightarrow> peer_id \<Rightarrow> string" where
  "peer_to_string endpoint2str p =
     take 127 (endpoint2str (addr p) @ CHR '':'' # show_int (idx p) @
               CHR '':'' # show_int (int_of_role (role p)))"

lemma role_of_int_of_role [simp]: "role_of_int (int_of_role r) = Some r"
  by (cases r) (simp_all add: role_of_int_def int_of_role_def)

lemma show_int_head: "\<exists>c cs. show_int i = c # cs \<and> c \<noteq> CHR '':'' \<and> c \<noteq> CHR 0x00"
proof -
  obtain c cs where "show_nat (nat i) = c # cs"
    using show_nat_nonempty by (cases "show_nat (nat i)") auto
  moreover from this have "is_digit c"
    using show_nat_digits [of "nat i"] by simp
  ultimately show ?thesis
    using digit_not_sign [of c] by (auto simp: show_int_def)
qed

lemma show_int_no_nul: "c \<in> set (show_int i) \<Longrightarrow> c \<noteq> CHR 0x00"
  using show_nat_digits digit_not_sign by (fastforce simp: show_int_def split: if_splits)

lemma scan_colons_show:
  assumes "r = [] \<or> \<not> is_digit (hd r)"
  shows "scan_colons_int (CHR '':'' # show_int i @ r) = Some (i, r)"
proof -
  obtain c cs where c: "show_int i = c # cs" "c \<noteq> CHR '':''"
    using show_int_head by blast
  then have "scan_colons (CHR '':'' # show_int i @ r) = Some (show_int i @ r)"
    by (simp add: scan_colons_def)
  then show ?thesis
    using scan_show_int [OF assms, of i] by (simp add: scan_colons_int_def)
qed

lemma colon_not_digit: "\<not> is_digit (CHR '':'')"
  by (simp add: is_digit_def)

text \<open>
  The text a peer prints is read back as that peer, whenever the two address routines agree on its
  address and the text fits the 128 byte buffer.
\<close>

lemma peer_parse_to_string_lemma:
  assumes e2s: "endpoint2str (addr p) = host @ CHR '':'' # show_int (ep_port (addr p))"
    and host: "host \<noteq> []" "CHR '':'' \<notin> set host" "CHR 0x00 \<notin> set host"
    and s2i: "str2ip host = Some (ep_ip (addr p))"
    and len: "length (endpoint2str (addr p)) + length (show_int (idx p)) < 124"
  shows "peer_parse str2ip (peer_to_string endpoint2str p) = Some p"
proof -
  let ?r3 = "CHR '':'' # show_int (int_of_role (role p))"
  let ?r2 = "CHR '':'' # show_int (idx p) @ ?r3"
  let ?r1 = "CHR '':'' # show_int (ep_port (addr p)) @ ?r2"
  have role1: "length (show_int (int_of_role (role p))) = 1"
    by (cases "role p") (simp_all add: int_of_role_def show_int_def show_nat.simps)
  have str: "peer_to_string endpoint2str p = host @ ?r1"
    using len role1 by (simp add: peer_to_string_def e2s)
  have cs: "c_str (host @ ?r1) = host @ ?r1"
    unfolding c_str_def
    using host(3) show_int_no_nul by (auto simp: takeWhile_eq_all_conv)
  have tw: "takeWhile (\<lambda>c. c \<noteq> CHR '':'') (host @ ?r1) = host"
    and dw: "dropWhile (\<lambda>c. c \<noteq> CHR '':'') (host @ ?r1) = ?r1"
    using host(2) by (auto simp: takeWhile_append dropWhile_append)
  have n1: "scan_colons_int ?r1 = Some (ep_port (addr p), ?r2)"
    and n2: "scan_colons_int ?r2 = Some (idx p, ?r3)"
    and n3: "scan_colons_int ?r3 = Some (int_of_role (role p), [])"
    using scan_colons_show [of ?r2] scan_colons_show [of ?r3]
      scan_colons_show [of "[]" "int_of_role (role p)"] by (simp_all add: colon_not_digit)
  show ?thesis
    unfolding str peer_parse_def Let_def cs tw dw n1
    by (simp add: host(1) n2 n3 s2i)
qed

text \<open>
  The implicit conversion from a string only checks (and so only logs) that parsing succeeded; a
  string that does not parse gives the reset peer.
\<close>

definition peer_of_string :: "(string \<Rightarrow> 32 word option) \<Rightarrow> string \<Rightarrow> peer_id" where
  "peer_of_string str2ip s = (case peer_parse str2ip s of None \<Rightarrow> empty_peer | Some p \<Rightarrow> p)"

subsection \<open>Properties\<close>

text \<open>
  C40 (round trip): the text \<open>to_string\<close> prints for a peer is read back by \<open>parse\<close> as that
  peer, role included, when the two address routines of the library agree on its address and the text
  fits the 128-byte buffer.
\<close>

theorem peer_round_trip:
  assumes "endpoint2str (addr p) = host @ CHR '':'' # show_int (ep_port (addr p))"
    and "host \<noteq> []" and "CHR '':'' \<notin> set host" and "CHR 0x00 \<notin> set host"
    and "str2ip host = Some (ep_ip (addr p))"
    and "length (endpoint2str (addr p)) + length (show_int (idx p)) < 124"
  shows "peer_parse str2ip (peer_to_string endpoint2str p) = Some p"
  using assms by (rule peer_parse_to_string_lemma)

definition sample_peer :: "int \<Rightarrow> peer_id" where
  "sample_peer k = \<lparr>addr = EndPoint 1 k, idx = 0, role = REPLICA\<rparr>"

definition sample_endpoint2str :: "endpoint \<Rightarrow> string" where
  "sample_endpoint2str e = ''h'' @ CHR '':'' # show_int (ep_port e)"

definition sample_str2ip :: "string \<Rightarrow> 32 word option" where
  "sample_str2ip s = (if s = ''h'' then Some 1 else None)"

lemma show_sample: "show_int 8001 = ''8001''" "show_int (- 7) = ''-7''"
  by (simp_all add: show_int_def show_nat.simps char_of_def bit_0)

theorem peer_round_trip_witness:
  "peer_parse sample_str2ip (peer_to_string sample_endpoint2str
      \<lparr>addr = EndPoint 1 8001, idx = -7, role = WITNESS\<rparr>)
   = Some \<lparr>addr = EndPoint 1 8001, idx = -7, role = WITNESS\<rparr>"
  by (rule peer_round_trip [where host = "''h''"])
    (simp_all add: sample_endpoint2str_def sample_str2ip_def show_sample)

end
