(* ===== verification/ConfSet.thy ===== *)
theory ConfSet
  imports PeerConf
begin

section \<open>Configuration: the set of peers of a group (configuration.h, configuration.cpp)\<close>

text \<open>
  The class wraps a \<^verbatim>\<open>std::set<PeerId>\<close>. The list model keeps the set's iteration
  order; \<open>conf_keys\<close> is what the set denotes (the role is not part of a key), and
  \<open>conf_wf\<close> is the representation invariant that every operation preserves.
\<close>

type_synonym conf = "peer_id list"

definition conf_wf :: "conf \<Rightarrow> bool" where
  "conf_wf c \<longleftrightarrow> ksorted pkey c"

definition conf_keys :: "conf \<Rightarrow> peer_key set" where
  "conf_keys c = pkey ` set c"

subsection \<open>Operations\<close>

fun set_insert :: "peer_id \<Rightarrow> conf \<Rightarrow> conf" where
  "set_insert p [] = [p]"
| "set_insert p (x # xs) =
     (if peer_lt p x then p # x # xs
      else if peer_lt x p then x # set_insert p xs
      else x # xs)"

definition set_erase :: "peer_id \<Rightarrow> conf \<Rightarrow> conf" where
  "set_erase p c = filter (\<lambda>x. \<not> peer_eq x p) c"

definition conf_contains :: "conf \<Rightarrow> peer_id \<Rightarrow> bool" where
  "conf_contains c p \<longleftrightarrow> list_ex (\<lambda>x. peer_eq x p) c"

definition conf_of_list :: "peer_id list \<Rightarrow> conf" where
  "conf_of_list ps = fold set_insert ps []"

definition append_peers :: "conf \<Rightarrow> conf \<Rightarrow> conf" where
  "append_peers c peers = fold set_insert c peers"

definition conf_add_peer :: "peer_id \<Rightarrow> conf \<Rightarrow> bool \<times> conf" where
  "conf_add_peer p c = (\<not> conf_contains c p, set_insert p c)"

definition conf_remove_peer :: "peer_id \<Rightarrow> conf \<Rightarrow> bool \<times> conf" where
  "conf_remove_peer p c = (conf_contains c p, set_erase p c)"

fun conf_contains_all :: "conf \<Rightarrow> peer_id list \<Rightarrow> bool" where
  "conf_contains_all c [] = True"
| "conf_contains_all c (p # ps) = (if \<not> conf_contains c p then False else conf_contains_all c ps)"

fun equals_list_loop :: "conf \<Rightarrow> peer_id list \<Rightarrow> conf \<Rightarrow> bool" where
  "equals_list_loop c [] peer_set = (length peer_set = length c)"
| "equals_list_loop c (p # ps) peer_set =
     (if \<not> conf_contains c p then False else equals_list_loop c ps (set_insert p peer_set))"

definition conf_equals_list :: "conf \<Rightarrow> peer_id list \<Rightarrow> bool" where
  "conf_equals_list c ps = equals_list_loop c ps []"

definition conf_equals :: "conf \<Rightarrow> conf \<Rightarrow> bool" where
  "conf_equals c rhs = (if length c \<noteq> length rhs then False else list_all (conf_contains rhs) c)"

text \<open>\<open>diffs\<close> returns the pair of \<open>included\<close> and \<open>excluded\<close>.\<close>

definition conf_diffs :: "conf \<Rightarrow> conf \<Rightarrow> conf \<times> conf" where
  "conf_diffs c rhs = (fold set_erase rhs c, fold set_erase c rhs)"

text \<open>
  \<open>parse_from\<close> returns whether it succeeded and the configuration it leaves, which on failure
  holds the peers parsed before the bad field. \<open>split\<close> is \<open>butil::StringSplitter\<close> at
  commas.
\<close>

fun parse_fields :: "(string \<Rightarrow> 32 word option) \<Rightarrow> string list \<Rightarrow> conf \<Rightarrow> bool \<times> conf" where
  "parse_fields str2ip [] c = (True, c)"
| "parse_fields str2ip (f # fs) c =
     (case peer_parse str2ip f of
        None \<Rightarrow> (False, c)
      | Some p \<Rightarrow> parse_fields str2ip fs (set_insert p c))"

definition conf_parse_from ::
  "(string \<Rightarrow> string list) \<Rightarrow> (string \<Rightarrow> 32 word option) \<Rightarrow> string \<Rightarrow> bool \<times> conf" where
  "conf_parse_from split str2ip s = parse_fields str2ip (split s) []"

fun join_comma :: "string list \<Rightarrow> string" where
  "join_comma [] = []"
| "join_comma [x] = x"
| "join_comma (x # xs) = x @ CHR '','' # join_comma xs"

definition conf_to_string :: "(peer_id \<Rightarrow> string) \<Rightarrow> conf \<Rightarrow> string" where
  "conf_to_string show_peer c = join_comma (map show_peer c)"

subsection \<open>The set the list denotes\<close>

lemma conf_keys_simps [simp]:
  "conf_keys [] = {}"
  "conf_keys (p # c) = insert (pkey p) (conf_keys c)"
  "conf_keys (c @ d) = conf_keys c \<union> conf_keys d"
  by (auto simp: conf_keys_def)

lemma finite_conf_keys [simp]: "finite (conf_keys c)"
  by (simp add: conf_keys_def)

lemma conf_wf_Nil [simp]: "conf_wf []"
  by (simp add: conf_wf_def)

lemma card_conf_keys: "conf_wf c \<Longrightarrow> card (conf_keys c) = length c"
  unfolding conf_wf_def conf_keys_def
  by (metis distinct_card ksorted_distinct length_map set_map)

lemma conf_contains_keys: "conf_contains c p \<longleftrightarrow> pkey p \<in> conf_keys c"
  by (induction c) (auto simp: conf_contains_def peer_eq_key)

lemma keys_set_insert [simp]: "conf_keys (set_insert p c) = insert (pkey p) (conf_keys c)"
proof (induction c)
  case Nil
  then show ?case by simp
next
  case (Cons x xs)
  have "\<not> pkey p < pkey x \<Longrightarrow> \<not> pkey x < pkey p \<Longrightarrow> pkey p = pkey x"
    by (meson less_linear)
  with Cons show ?case by (auto simp: peer_lt_key)
qed

lemma wf_set_insert [simp]: "conf_wf c \<Longrightarrow> conf_wf (set_insert p c)"
proof (induction c)
  case Nil
  then show ?case by (simp add: conf_wf_def)
next
  case (Cons x xs)
  then have x: "\<forall>k \<in> conf_keys xs. pkey x < k" and IH: "conf_wf (set_insert p xs)"
    by (simp_all add: conf_wf_def conf_keys_def)
  have "pkey x < pkey p \<Longrightarrow> \<forall>k \<in> conf_keys (set_insert p xs). pkey x < k"
    using x by simp
  then have "pkey x < pkey p \<Longrightarrow> \<forall>y \<in> set (set_insert p xs). pkey x < pkey y"
    by (simp add: conf_keys_def del: keys_set_insert)
  with Cons.prems IH show ?case
    by (auto simp: conf_wf_def peer_lt_key intro: order.strict_trans)
qed

lemma keys_set_erase [simp]: "conf_keys (set_erase p c) = conf_keys c - {pkey p}"
  by (auto simp: set_erase_def conf_keys_def peer_eq_key)

lemma wf_set_erase [simp]: "conf_wf c \<Longrightarrow> conf_wf (set_erase p c)"
  by (simp add: conf_wf_def set_erase_def ksorted_filter)

lemma fold_insert_keys: "conf_keys (fold set_insert ps c) = conf_keys ps \<union> conf_keys c"
  by (induction ps arbitrary: c) auto

lemma fold_insert_wf: "conf_wf c \<Longrightarrow> conf_wf (fold set_insert ps c)"
  by (induction ps arbitrary: c) auto

lemma fold_erase_keys: "conf_keys (fold set_erase ps c) = conf_keys c - conf_keys ps"
  by (induction ps arbitrary: c) auto

lemma fold_erase_wf: "conf_wf c \<Longrightarrow> conf_wf (fold set_erase ps c)"
  by (induction ps arbitrary: c) auto

lemma set_insert_new_last:
  "conf_wf (c @ [p]) \<Longrightarrow> set_insert p c = c @ [p]"
proof (induction c)
  case Nil
  then show ?case by simp
next
  case (Cons x xs)
  then have "pkey x < pkey p" and "conf_wf (xs @ [p])"
    by (auto simp: conf_wf_def)
  with Cons.IH show ?case
    by (auto simp: peer_lt_key dest: order.asym)
qed

text \<open>Building a set from its own elements in order gives it back, roles included.\<close>

lemma conf_of_list_id: "conf_wf c \<Longrightarrow> conf_of_list c = c"
proof (induction c rule: rev_induct)
  case Nil
  then show ?case by (simp add: conf_of_list_def)
next
  case (snoc p c)
  then have "conf_wf c" by (simp add: conf_wf_def ksorted_append)
  with snoc.IH have "fold set_insert c [] = c" by (simp add: conf_of_list_def)
  then show ?case
    using set_insert_new_last [OF snoc.prems] by (simp add: conf_of_list_def)
qed

lemmas conf_simps = conf_contains_keys fold_insert_keys fold_erase_keys fold_insert_wf fold_erase_wf

subsection \<open>What the operations compute\<close>

lemma conf_of_list_keys [simp]: "conf_keys (conf_of_list ps) = conf_keys ps"
  by (simp add: conf_of_list_def fold_insert_keys)

lemma conf_of_list_wf [simp]: "conf_wf (conf_of_list ps)"
  by (simp add: conf_of_list_def fold_insert_wf)

lemma append_peers_keys [simp]: "conf_keys (append_peers c d) = conf_keys c \<union> conf_keys d"
  by (simp add: append_peers_def fold_insert_keys)

lemma append_peers_wf [simp]: "conf_wf d \<Longrightarrow> conf_wf (append_peers c d)"
  by (simp add: append_peers_def fold_insert_wf)

lemma conf_contains_all_keys: "conf_contains_all c ps \<longleftrightarrow> conf_keys ps \<subseteq> conf_keys c"
  by (induction ps) (auto simp: conf_contains_keys)

lemma equals_list_loop_keys:
  assumes "conf_wf c" and "conf_wf acc" and "conf_keys acc \<subseteq> conf_keys c"
  shows "equals_list_loop c ps acc \<longleftrightarrow> conf_keys ps \<union> conf_keys acc = conf_keys c"
  using assms(2,3)
proof (induction ps arbitrary: acc)
  case Nil
  then show ?case
    using card_conf_keys [OF assms(1)] card_conf_keys [OF Nil.prems(1)]
      card_subset_eq [OF finite_conf_keys Nil.prems(2)] by auto
next
  case (Cons p ps)
  show ?case
  proof (cases "conf_contains c p")
    case True
    then have "conf_keys (set_insert p acc) \<subseteq> conf_keys c"
      using Cons.prems by (simp add: conf_contains_keys)
    then show ?thesis
      using Cons.IH [of "set_insert p acc"] Cons.prems True by simp
  next
    case False
    then show ?thesis by (auto simp: conf_contains_keys)
  qed
qed

lemma conf_equals_list_keys:
  "conf_wf c \<Longrightarrow> conf_equals_list c ps \<longleftrightarrow> conf_keys ps = conf_keys c"
  by (simp add: conf_equals_list_def equals_list_loop_keys)

lemma conf_equals_keys:
  assumes "conf_wf a" and "conf_wf b"
  shows "conf_equals a b \<longleftrightarrow> conf_keys a = conf_keys b"
proof -
  have sub: "list_all (conf_contains b) a \<longleftrightarrow> conf_keys a \<subseteq> conf_keys b"
    by (auto simp: list_all_iff conf_contains_keys conf_keys_def)
  show ?thesis
    unfolding conf_equals_def sub card_conf_keys [OF assms(1), symmetric]
      card_conf_keys [OF assms(2), symmetric]
    using card_subset_eq [OF finite_conf_keys] by auto
qed

subsection \<open>Node identifiers\<close>

record node_id =
  group_id :: string
  node_peer :: peer_id

definition node_id_eq :: "node_id \<Rightarrow> node_id \<Rightarrow> bool" where
  "node_id_eq a b \<longleftrightarrow> group_id a = group_id b \<and> peer_eq (node_peer a) (node_peer b)"

subsection \<open>Properties\<close>

text \<open>
  \<open>diffs\<close> splits two configurations exactly: what it includes are the peers only the
  first has, what it excludes those only the second has, both are sets again, and both are empty exactly
  when \<open>equals\<close> holds.
\<close>

theorem conf_diffs_exact:
  assumes "conf_wf a" and "conf_wf b" and "conf_diffs a b = (inc, exc)"
  shows "conf_keys inc = conf_keys a - conf_keys b \<and> conf_keys exc = conf_keys b - conf_keys a
     \<and> conf_wf inc \<and> conf_wf exc \<and> (conf_equals a b \<longleftrightarrow> inc = [] \<and> exc = [])"
proof -
  have keys: "conf_keys inc = conf_keys a - conf_keys b" "conf_keys exc = conf_keys b - conf_keys a"
    and wf: "conf_wf inc" "conf_wf exc"
    using assms by (auto simp: conf_diffs_def fold_erase_keys fold_erase_wf)
  have "c = [] \<longleftrightarrow> conf_keys c = {}" for c
    by (cases c) simp_all
  then have "inc = [] \<and> exc = [] \<longleftrightarrow> conf_keys a = conf_keys b"
    using keys by auto
  with keys wf show ?thesis
    by (simp add: conf_equals_keys [OF assms(1,2)])
qed

lemma pkey_sample [simp]: "pkey (sample_peer k) = (EndPoint 1 k, 0)"
  by (simp add: pkey_def sample_peer_def)

lemma endpoint_less_sample [simp]: "EndPoint a i < EndPoint a j \<longleftrightarrow> i < j"
  by (simp add: less_endpoint_def)

lemma conf_wf_sample: "i < j \<Longrightarrow> conf_wf [sample_peer i, sample_peer j]"
  by (simp add: conf_wf_def)

theorem conf_diffs_exact_witness:
  "conf_keys (fst (conf_diffs [sample_peer 1, sample_peer 2] [sample_peer 2, sample_peer 3]))
     = {(EndPoint 1 1, 0)}"
proof -
  obtain inc exc where d: "conf_diffs [sample_peer 1, sample_peer 2] [sample_peer 2, sample_peer 3] = (inc, exc)"
    by fastforce
  have wf: "conf_wf [sample_peer 1, sample_peer 2]" "conf_wf [sample_peer 2, sample_peer 3]"
    by (simp_all add: conf_wf_sample)
  show ?thesis
    unfolding d fst_conv conjunct1 [OF conf_diffs_exact [OF wf d]] by auto
qed

end
