(* ===== verification/RaftTypes.thy ===== *)
theory RaftTypes
  imports ConfSet
begin

section \<open>Basic types: log ids, log entries, node states, statuses\<close>

text \<open>
  \<open>LogId\<close> and \<open>LogEntry\<close> (log_entry.h), the node states (raft.h), the entry
  types and error codes (enum.proto, errno.proto). Terms and indexes are \<^verbatim>\<open>int64_t\<close> in
  the code and unbounded integers here; the code never brings them near the limit, and where a result
  rests on it \<open>int64\<close> says so. A
  \<open>butil::Status\<close> is its error code; the message texts, which only feed logs and callers'
  diagnostics, are not modelled. A \<open>CHECK\<close> that fails only logs (the library's
  \<^verbatim>\<open>crash_on_fatal_log\<close> is off by default, and the code has returns behind its failing
  checks), so a check is no guard in the model; the theorems show when the checks hold.
\<close>

definition int64 :: "int \<Rightarrow> bool" where
  "int64 t \<longleftrightarrow> - (2 ^ 63) \<le> t \<and> t < 2 ^ 63"

subsection \<open>Log ids: ordered by term first\<close>

datatype log_id = LogId (lid_index: int) (lid_term: int)

definition lid_lt :: "log_id \<Rightarrow> log_id \<Rightarrow> bool" where
  "lid_lt a b \<longleftrightarrow>
     (if lid_term a = lid_term b then lid_index a < lid_index b else lid_term a < lid_term b)"

definition lid_le :: "log_id \<Rightarrow> log_id \<Rightarrow> bool" where
  "lid_le a b \<longleftrightarrow>
     \<not> (if lid_term a = lid_term b then lid_index a > lid_index b else lid_term a > lid_term b)"

instantiation log_id :: linorder
begin

definition less_log_id :: "log_id \<Rightarrow> log_id \<Rightarrow> bool" where
  "less_log_id a b \<longleftrightarrow> lid_lt a b"

definition less_eq_log_id :: "log_id \<Rightarrow> log_id \<Rightarrow> bool" where
  "less_eq_log_id a b \<longleftrightarrow> lid_le a b"

instance
proof
  fix x y z :: log_id
  show "(x < y) = (x \<le> y \<and> \<not> y \<le> x)"
    by (auto simp: less_log_id_def less_eq_log_id_def lid_lt_def lid_le_def split: if_splits)
  show "x \<le> x" by (simp add: less_eq_log_id_def lid_le_def)
  show "x \<le> y \<Longrightarrow> y \<le> z \<Longrightarrow> x \<le> z"
    by (auto simp: less_eq_log_id_def lid_le_def split: if_splits)
  show "x \<le> y \<Longrightarrow> y \<le> x \<Longrightarrow> x = y"
    by (cases x; cases y) (auto simp: less_eq_log_id_def lid_le_def split: if_splits)
  show "x \<le> y \<or> y \<le> x"
    by (auto simp: less_eq_log_id_def lid_le_def split: if_splits)
qed

end

lemma log_id_le: "a \<le> b \<longleftrightarrow> lid_term a < lid_term b \<or> lid_term a = lid_term b \<and> lid_index a \<le> lid_index b"
  by (auto simp: less_eq_log_id_def lid_le_def)

lemma log_id_less: "a < b \<longleftrightarrow> lid_term a < lid_term b \<or> lid_term a = lid_term b \<and> lid_index a < lid_index b"
  by (auto simp: less_log_id_def lid_lt_def)

subsection \<open>Log entries\<close>

datatype entry_type = ENTRY_TYPE_UNKNOWN | ENTRY_TYPE_NO_OP | ENTRY_TYPE_DATA | ENTRY_TYPE_CONFIGURATION

text \<open>\<open>peers\<close> and \<open>old_peers\<close> are null pointers or vectors, hence options.\<close>

record log_entry =
  e_type :: entry_type
  e_id :: log_id
  e_peers :: "peer_id list option"
  e_old_peers :: "peer_id list option"
  e_data :: string

abbreviation e_index :: "log_entry \<Rightarrow> int" where
  "e_index e \<equiv> lid_index (e_id e)"

abbreviation e_term :: "log_entry \<Rightarrow> int" where
  "e_term e \<equiv> lid_term (e_id e)"

subsection \<open>Node states\<close>

datatype node_state =
  STATE_LEADER | STATE_TRANSFERRING | STATE_CANDIDATE | STATE_FOLLOWER | STATE_ERROR
  | STATE_UNINITIALIZED | STATE_SHUTTING | STATE_SHUTDOWN | STATE_END

definition state_num :: "node_state \<Rightarrow> nat" where
  "state_num s = (case s of
     STATE_LEADER \<Rightarrow> 1 | STATE_TRANSFERRING \<Rightarrow> 2 | STATE_CANDIDATE \<Rightarrow> 3 | STATE_FOLLOWER \<Rightarrow> 4
   | STATE_ERROR \<Rightarrow> 5 | STATE_UNINITIALIZED \<Rightarrow> 6 | STATE_SHUTTING \<Rightarrow> 7 | STATE_SHUTDOWN \<Rightarrow> 8
   | STATE_END \<Rightarrow> 9)"

definition is_active_state :: "node_state \<Rightarrow> bool" where
  "is_active_state s \<longleftrightarrow> state_num s < state_num STATE_ERROR"

lemma state_num_inj [simp]: "state_num a = state_num b \<longleftrightarrow> a = b"
  by (cases a; cases b) (simp_all add: state_num_def)

lemma is_active_state_cases:
  "is_active_state s \<longleftrightarrow> s \<in> {STATE_LEADER, STATE_TRANSFERRING, STATE_CANDIDATE, STATE_FOLLOWER}"
  by (cases s) (simp_all add: is_active_state_def state_num_def)

subsection \<open>Error codes, statuses, return codes\<close>

datatype errno =
  EINVAL | EPERM | EBUSY | EINTR | ERANGE | EIO | ENOENT | ENOMEM | ESTOP | ETIMEDOUT | EHOSTUNREACH
  | EREQUEST | ESHUTDOWN | ESTALE | EHOSTDOWN | EINTERNAL | EEXIST | ECANCELED | EAGAIN
  | ERAFTTIMEDOUT | ESTATEMACHINE | ECATCHUP | ELEADERREMOVED | ESETPEER | ENODESHUTDOWN
  | EHIGHERTERMREQUEST | EHIGHERTERMRESPONSE | EBADNODE | EVOTEFORCANDIDATE | ENEWLEADER
  | ELEADERCONFLICT | ETRANSFERLEADERSHIP | ELOGDELETED | ENOMOREUSERLOG | EREADONLY

datatype status = StatusOK | StatusErr errno

text \<open>What a function with an \<^verbatim>\<open>int\<close> result returns: 0, -1 or an errno.\<close>

datatype rc = RcOk | RcFail | RcErr errno

end
