(* ===== verification/ConfigManager.thy ===== *)
theory ConfigManager
  imports RaftTypes
begin

section \<open>Configuration entries and their history (configuration_manager.h, configuration_manager.cpp)\<close>

text \<open>
  A \<open>ConfigurationEntry\<close> is a configuration, the old one while a change is joint, and the id
  of the log entry that carried it. The manager keeps the entries still in the log, by
  increasing index, and the one of the last snapshot. \<open>conf_entry_of\<close> is the constructor from
  a log entry, which dereferences \<open>peers\<close>: it is only called on configuration entries, which
  carry them.
\<close>

record conf_entry =
  ce_id :: log_id
  ce_conf :: conf
  ce_old_conf :: conf

definition empty_conf_entry :: conf_entry where
  "empty_conf_entry = \<lparr>ce_id = LogId 0 0, ce_conf = [], ce_old_conf = []\<rparr>"

definition conf_entry_of :: "log_entry \<Rightarrow> conf_entry" where
  "conf_entry_of e =
     \<lparr>ce_id = e_id e,
      ce_conf = (case e_peers e of None \<Rightarrow> [] | Some ps \<Rightarrow> conf_of_list ps),
      ce_old_conf = (case e_old_peers e of None \<Rightarrow> [] | Some ps \<Rightarrow> conf_of_list ps)\<rparr>"

definition ce_stable :: "conf_entry \<Rightarrow> bool" where
  "ce_stable c \<longleftrightarrow> ce_old_conf c = []"

definition ce_empty :: "conf_entry \<Rightarrow> bool" where
  "ce_empty c \<longleftrightarrow> ce_conf c = []"

definition ce_list_peers :: "conf_entry \<Rightarrow> conf" where
  "ce_list_peers c = append_peers (ce_old_conf c) (append_peers (ce_conf c) [])"

definition ce_contains :: "conf_entry \<Rightarrow> peer_id \<Rightarrow> bool" where
  "ce_contains c p \<longleftrightarrow> conf_contains (ce_conf c) p \<or> conf_contains (ce_old_conf c) p"

abbreviation ce_index :: "conf_entry \<Rightarrow> int" where
  "ce_index c \<equiv> lid_index (ce_id c)"

definition ce_wf :: "conf_entry \<Rightarrow> bool" where
  "ce_wf c \<longleftrightarrow> conf_wf (ce_conf c) \<and> conf_wf (ce_old_conf c)"

lemma ce_contains_keys:
  "ce_contains c p \<longleftrightarrow> pkey p \<in> conf_keys (ce_conf c) \<union> conf_keys (ce_old_conf c)"
  by (simp add: ce_contains_def conf_contains_keys)

lemma ce_list_peers_keys [simp]:
  "conf_keys (ce_list_peers c) = conf_keys (ce_conf c) \<union> conf_keys (ce_old_conf c)"
  by (auto simp: ce_list_peers_def)

lemma ce_list_peers_wf [simp]: "conf_wf (ce_list_peers c)"
  by (simp add: ce_list_peers_def)

lemma ce_wf_conf_entry_of [simp]: "ce_wf (conf_entry_of e)"
  by (auto simp: ce_wf_def conf_entry_of_def split: option.splits)

subsection \<open>The manager\<close>

record config_manager =
  cm_configurations :: "conf_entry list"
  cm_snapshot :: conf_entry

definition config_manager_new :: config_manager where
  "config_manager_new = \<lparr>cm_configurations = [], cm_snapshot = empty_conf_entry\<rparr>"

definition cm_add :: "conf_entry \<Rightarrow> config_manager \<Rightarrow> rc \<times> config_manager" where
  "cm_add entry cm =
     (if cm_configurations cm \<noteq> [] \<and> ce_index (last (cm_configurations cm)) \<ge> ce_index entry
      then (RcFail, cm)
      else (RcOk, cm\<lparr>cm_configurations := cm_configurations cm @ [entry]\<rparr>))"

definition cm_truncate_prefix :: "int \<Rightarrow> config_manager \<Rightarrow> config_manager" where
  "cm_truncate_prefix first_index_kept cm =
     cm\<lparr>cm_configurations := dropWhile (\<lambda>c. ce_index c < first_index_kept) (cm_configurations cm)\<rparr>"

definition cm_truncate_suffix :: "int \<Rightarrow> config_manager \<Rightarrow> config_manager" where
  "cm_truncate_suffix last_index_kept cm =
     cm\<lparr>cm_configurations := pop_back_while (\<lambda>c. ce_index c > last_index_kept) (cm_configurations cm)\<rparr>"

definition cm_set_snapshot :: "conf_entry \<Rightarrow> config_manager \<Rightarrow> config_manager" where
  "cm_set_snapshot entry cm = cm\<lparr>cm_snapshot := entry\<rparr>"

text \<open>
  \<open>get\<close> walks to the first entry above the index and steps back; \<open>get_loop\<close> carries the
  entry before the iterator (\<open>None\<close> at \<open>begin()\<close>).
\<close>

fun get_loop :: "int \<Rightarrow> conf_entry list \<Rightarrow> conf_entry option \<Rightarrow> conf_entry option" where
  "get_loop i [] prior = prior"
| "get_loop i (c # cs) prior = (if ce_index c > i then prior else get_loop i cs (Some c))"

definition cm_get :: "int \<Rightarrow> config_manager \<Rightarrow> conf_entry" where
  "cm_get last_included_index cm =
     (if cm_configurations cm = [] then cm_snapshot cm
      else case get_loop last_included_index (cm_configurations cm) None of
             None \<Rightarrow> cm_snapshot cm
           | Some c \<Rightarrow> c)"

definition cm_last_configuration :: "config_manager \<Rightarrow> conf_entry" where
  "cm_last_configuration cm =
     (if cm_configurations cm \<noteq> [] then last (cm_configurations cm) else cm_snapshot cm)"

subsection \<open>Invariant and behaviour\<close>

definition cm_wf :: "config_manager \<Rightarrow> bool" where
  "cm_wf cm \<longleftrightarrow> ksorted ce_index (cm_configurations cm)
     \<and> (\<forall>c \<in> set (cm_configurations cm). ce_wf c) \<and> ce_wf (cm_snapshot cm)"

lemma cm_wf_new: "cm_wf config_manager_new"
  by (simp add: cm_wf_def config_manager_new_def empty_conf_entry_def ce_wf_def)

lemma cm_wf_add:
  assumes wf: "cm_wf cm" and e: "ce_wf e" and add: "cm_add e cm = (r, cm')"
  shows "cm_wf cm'"
proof (cases "cm_configurations cm" rule: rev_cases)
  case Nil
  with assms show ?thesis by (auto simp: cm_wf_def cm_add_def)
next
  case (snoc cs c)
  with assms show ?thesis
    by (force simp: cm_wf_def cm_add_def ksorted_append split: if_splits)
qed

lemma cm_truncate_prefix_filter:
  "cm_wf cm \<Longrightarrow> cm_configurations (cm_truncate_prefix k cm)
     = filter (\<lambda>c. k \<le> ce_index c) (cm_configurations cm)"
  by (simp add: cm_wf_def cm_truncate_prefix_def ksorted_dropWhile)

lemma cm_truncate_suffix_filter:
  "cm_wf cm \<Longrightarrow> cm_configurations (cm_truncate_suffix k cm)
     = filter (\<lambda>c. ce_index c \<le> k) (cm_configurations cm)"
  by (simp add: cm_wf_def cm_truncate_suffix_def ksorted_pop_back_while)

lemma cm_wf_truncate_prefix: "cm_wf cm \<Longrightarrow> cm_wf (cm_truncate_prefix k cm)"
  using cm_truncate_prefix_filter [of cm k]
  by (simp add: cm_wf_def ksorted_filter) (simp add: cm_truncate_prefix_def)

lemma cm_wf_truncate_suffix: "cm_wf cm \<Longrightarrow> cm_wf (cm_truncate_suffix k cm)"
  using cm_truncate_suffix_filter [of cm k]
  by (simp add: cm_wf_def ksorted_filter) (simp add: cm_truncate_suffix_def)

lemma cm_wf_set_snapshot: "cm_wf cm \<Longrightarrow> ce_wf e \<Longrightarrow> cm_wf (cm_set_snapshot e cm)"
  by (simp add: cm_wf_def cm_set_snapshot_def)

lemma ce_wf_last: "cm_wf cm \<Longrightarrow> ce_wf (cm_last_configuration cm)"
  by (simp add: cm_wf_def cm_last_configuration_def)

lemma get_loop_spec:
  "ksorted ce_index cs \<Longrightarrow>
   get_loop i cs prior = (case filter (\<lambda>c. ce_index c \<le> i) cs of [] \<Rightarrow> prior | ds \<Rightarrow> Some (last ds))"
proof (induction cs arbitrary: prior)
  case Nil
  then show ?case by simp
next
  case (Cons c cs)
  show ?case
  proof (cases "ce_index c > i")
    case True
    with Cons.prems have "filter (\<lambda>c. ce_index c \<le> i) (c # cs) = []"
      by (force simp: filter_empty_conv)
    with True show ?thesis by simp
  next
    case False
    with Cons show ?thesis by (auto split: list.splits)
  qed
qed

text \<open>The latest configuration at or below an index is what \<open>get\<close> returns.\<close>

lemma cm_get_spec:
  assumes "cm_wf cm"
  shows "cm_get i cm = (case filter (\<lambda>c. ce_index c \<le> i) (cm_configurations cm) of
           [] \<Rightarrow> cm_snapshot cm | ds \<Rightarrow> last ds)"
  using assms by (auto simp: cm_get_def cm_wf_def get_loop_spec split: list.splits)

lemma cm_get_last:
  assumes "cm_wf cm" and "\<forall>c \<in> set (cm_configurations cm). ce_index c \<le> i"
  shows "cm_get i cm = cm_last_configuration cm"
  using assms by (auto simp: cm_get_spec cm_last_configuration_def filter_id_conv split: list.splits)

subsection \<open>Properties\<close>

text \<open>
  On a well-formed manager, \<open>get\<close> returns the entry with the greatest index that
  is at most the one asked for, and the snapshot's when the log holds none.
\<close>

theorem cm_get_latest:
  assumes "cm_wf cm"
  shows "if \<exists>c \<in> set (cm_configurations cm). ce_index c \<le> i
         then cm_get i cm \<in> set (cm_configurations cm) \<and> ce_index (cm_get i cm) \<le> i
              \<and> (\<forall>c \<in> set (cm_configurations cm). ce_index c \<le> i \<longrightarrow> ce_index c \<le> ce_index (cm_get i cm))
         else cm_get i cm = cm_snapshot cm"
proof -
  let ?ds = "filter (\<lambda>c. ce_index c \<le> i) (cm_configurations cm)"
  have ks: "ksorted ce_index ?ds"
    using assms by (simp add: cm_wf_def ksorted_filter)
  show ?thesis
  proof (cases ?ds rule: rev_cases)
    case Nil
    then have "\<not> (\<exists>c \<in> set (cm_configurations cm). ce_index c \<le> i)"
      by (simp add: filter_empty_conv)
    with Nil show ?thesis by (simp add: cm_get_spec [OF assms])
  next
    case (snoc ds d)
    then have "cm_get i cm = d"
      by (cases ds) (simp_all add: cm_get_spec [OF assms])
    moreover have mem: "set ?ds = set ds \<union> {d}"
      using snoc by simp
    moreover have "\<forall>c \<in> set ds. ce_index c < ce_index d"
      using ks unfolding snoc by (simp add: ksorted_append)
    ultimately show ?thesis
      by (fastforce dest: equalityD1 equalityD2)
  qed
qed

definition sample_conf_entry :: "int \<Rightarrow> conf_entry" where
  "sample_conf_entry i = \<lparr>ce_id = LogId i 1, ce_conf = [sample_peer i], ce_old_conf = []\<rparr>"

lemma ce_wf_sample [simp]: "ce_wf (sample_conf_entry i)"
  by (simp add: sample_conf_entry_def ce_wf_def conf_wf_def)

lemma cm_wf_sample:
  "cm_wf \<lparr>cm_configurations = [sample_conf_entry 3, sample_conf_entry 8], cm_snapshot = sample_conf_entry 1\<rparr>"
  unfolding cm_wf_def by simp (simp add: sample_conf_entry_def)

theorem cm_get_latest_witness:
  "cm_get 5 \<lparr>cm_configurations = [sample_conf_entry 3, sample_conf_entry 8], cm_snapshot = sample_conf_entry 1\<rparr>
   = sample_conf_entry 3"
  using cm_get_latest [OF cm_wf_sample, of 5] by (auto simp: sample_conf_entry_def)

end
