(* ===== verification/MemoryLog.thy ===== *)
theory MemoryLog
  imports ConfigManager
begin

section \<open>Log storage: the interface and the in-memory storage (storage.h, memory_log.h, memory_log.cpp)\<close>

text \<open>
  \<open>LogStorage\<close> is an abstract class: a record of operations over an arbitrary state, which
  the log manager is parameterised with. The locale \<open>log_storage\<close> states the contract of
  the header: a storage holds the consecutive entries \<open>[first, last]\<close>. The in-memory storage
  is an instance.
\<close>

record 's log_storage_ops =
  ls_init :: "config_manager \<Rightarrow> 's \<Rightarrow> rc \<times> 's \<times> config_manager"
  ls_first :: "'s \<Rightarrow> int"
  ls_last :: "'s \<Rightarrow> int"
  ls_get_entry :: "int \<Rightarrow> 's \<Rightarrow> log_entry option"
  ls_get_term :: "int \<Rightarrow> 's \<Rightarrow> int"
  ls_append_entries :: "log_entry list \<Rightarrow> 's \<Rightarrow> int \<times> 's"
  ls_truncate_prefix :: "int \<Rightarrow> 's \<Rightarrow> rc \<times> 's"
  ls_truncate_suffix :: "int \<Rightarrow> 's \<Rightarrow> rc \<times> 's"
  ls_reset :: "int \<Rightarrow> 's \<Rightarrow> rc \<times> 's"

locale log_storage =
  fixes S :: "'s log_storage_ops"
    and entry_ok :: "log_entry \<Rightarrow> bool"
    and valid :: "'s \<Rightarrow> bool"
    and entries :: "'s \<Rightarrow> log_entry list"
  assumes ls_contig: "valid s \<Longrightarrow> contig e_index (ls_first S s) (entries s)"
    and ls_last_eq: "valid s \<Longrightarrow> ls_last S s = ls_first S s + int (length (entries s)) - 1"
    and ls_entry: "valid s \<Longrightarrow> ls_get_entry S i s =
          (if ls_first S s \<le> i \<and> i \<le> ls_last S s then Some (entries s ! nat (i - ls_first S s)) else None)"
    and ls_term: "valid s \<Longrightarrow> ls_get_term S i s =
          (case ls_get_entry S i s of None \<Rightarrow> 0 | Some e \<Rightarrow> e_term e)"
    and ls_append: "valid s \<Longrightarrow> contig e_index (ls_last S s + 1) es \<Longrightarrow> \<forall>e \<in> set es. entry_ok e \<Longrightarrow>
          \<exists>s'. ls_append_entries S es s = (int (length es), s') \<and> valid s'
             \<and> entries s' = entries s @ es \<and> ls_first S s' = ls_first S s"
    and ls_prefix: "valid s \<Longrightarrow> ls_first S s \<le> k \<Longrightarrow>
          \<exists>s'. ls_truncate_prefix S k s = (RcOk, s') \<and> valid s'
             \<and> entries s' = dropWhile (\<lambda>e. e_index e < k) (entries s) \<and> ls_first S s' = k"
    and ls_suffix: "valid s \<Longrightarrow> ls_first S s \<le> k + 1 \<Longrightarrow> k < ls_last S s \<Longrightarrow>
          \<exists>s'. ls_truncate_suffix S k s = (RcOk, s') \<and> valid s'
             \<and> entries s' = pop_back_while (\<lambda>e. e_index e > k) (entries s)
             \<and> ls_first S s' = ls_first S s"
    and ls_reset: "valid s \<Longrightarrow> 0 < k \<Longrightarrow>
          \<exists>s'. ls_reset S k s = (RcOk, s') \<and> valid s' \<and> entries s' = [] \<and> ls_first S s' = k"
begin

lemma ls_get_in_range:
  assumes "valid s" and "ls_first S s \<le> i" and "i \<le> ls_last S s"
  shows "\<exists>e. ls_get_entry S i s = Some e \<and> e_index e = i \<and> e \<in> set (entries s)"
proof -
  have n: "nat (i - ls_first S s) < length (entries s)"
    using assms ls_last_eq by force
  have "e_index (entries s ! nat (i - ls_first S s)) = i"
    using contig_nth [OF ls_contig [OF assms(1)] n] assms(2) by simp
  with assms n show ?thesis by (simp add: ls_entry)
qed

lemma ls_append_last:
  assumes "valid s" and "contig e_index (ls_last S s + 1) es" "\<forall>e \<in> set es. entry_ok e" and "ls_append_entries S es s = (n, s')"
  shows "valid s'" and "ls_last S s' = ls_last S s + int (length es)" and "n = int (length es)"
    and "ls_first S s' = ls_first S s" and "entries s' = entries s @ es"
  using ls_append [OF assms(1-3)] assms ls_last_eq by force+

text \<open>Entries that are not truncated keep what they hold.\<close>

lemma ls_append_get:
  assumes v: "valid s" and c: "contig e_index (ls_last S s + 1) es"
    and e: "\<forall>e \<in> set es. entry_ok e" and a: "ls_append_entries S es s = (n, s')" and i: "i \<le> ls_last S s"
  shows "ls_get_entry S i s' = ls_get_entry S i s"
proof -
  note post = ls_append_last [OF v c e a]
  have "ls_first S s \<le> i \<Longrightarrow> nat (i - ls_first S s) < length (entries s)"
    using i ls_last_eq [OF v] by linarith
  then show ?thesis
    using i post ls_last_eq [OF v] by (auto simp: ls_entry v nth_append)
qed

end

subsection \<open>The in-memory storage\<close>

record mem_log =
  ml_first :: int
  ml_last :: int
  ml_data :: "log_entry list"

definition mem_log_new :: mem_log where
  "mem_log_new = \<lparr>ml_first = 1, ml_last = 0, ml_data = []\<rparr>"

definition ml_init :: "config_manager \<Rightarrow> mem_log \<Rightarrow> rc \<times> mem_log \<times> config_manager" where
  "ml_init cm m = (RcOk, m\<lparr>ml_first := 1, ml_last := 0\<rparr>, cm)"

definition ml_get_entry :: "int \<Rightarrow> mem_log \<Rightarrow> log_entry option" where
  "ml_get_entry index m =
     (if index < ml_first m \<or> index > ml_last m then None
      else Some (ml_data m ! nat (index - ml_first m)))"

definition ml_get_term :: "int \<Rightarrow> mem_log \<Rightarrow> int" where
  "ml_get_term index m =
     (if index < ml_first m \<or> index > ml_last m then 0
      else e_term (ml_data m ! nat (index - ml_first m)))"

definition ml_append_entry :: "log_entry \<Rightarrow> mem_log \<Rightarrow> rc \<times> mem_log" where
  "ml_append_entry e m =
     (if e_index e \<noteq> ml_last m + 1 then (RcErr ERANGE, m)
      else (RcOk, m\<lparr>ml_data := ml_data m @ [e], ml_last := ml_last m + 1\<rparr>))"

text \<open>\<open>append_entries\<close> ignores the result of \<open>append_entry\<close> and returns the number of entries given.\<close>

definition ml_append_entries :: "log_entry list \<Rightarrow> mem_log \<Rightarrow> int \<times> mem_log" where
  "ml_append_entries es m =
     (if es = [] then (0, m) else (int (length es), fold (\<lambda>e m. snd (ml_append_entry e m)) es m))"

definition ml_truncate_prefix :: "int \<Rightarrow> mem_log \<Rightarrow> rc \<times> mem_log" where
  "ml_truncate_prefix first_index_kept m =
     (let m1 = m\<lparr>ml_data := dropWhile (\<lambda>e. e_index e < first_index_kept) (ml_data m),
                 ml_first := first_index_kept\<rparr>
      in (RcOk, if ml_first m1 > ml_last m1 then m1\<lparr>ml_last := first_index_kept - 1\<rparr> else m1))"

definition ml_truncate_suffix :: "int \<Rightarrow> mem_log \<Rightarrow> rc \<times> mem_log" where
  "ml_truncate_suffix last_index_kept m =
     (let m1 = m\<lparr>ml_data := pop_back_while (\<lambda>e. e_index e > last_index_kept) (ml_data m),
                 ml_last := last_index_kept\<rparr>
      in (RcOk, if ml_first m1 > ml_last m1 then m1\<lparr>ml_first := last_index_kept + 1\<rparr> else m1))"

definition ml_reset :: "int \<Rightarrow> mem_log \<Rightarrow> rc \<times> mem_log" where
  "ml_reset next_log_index m =
     (if next_log_index \<le> 0 then (RcErr EINVAL, m)
      else (RcOk, \<lparr>ml_first = next_log_index, ml_last = next_log_index - 1, ml_data = []\<rparr>))"

definition mem_ops :: "mem_log log_storage_ops" where
  "mem_ops = \<lparr>ls_init = ml_init, ls_first = ml_first, ls_last = ml_last,
              ls_get_entry = ml_get_entry, ls_get_term = ml_get_term,
              ls_append_entries = ml_append_entries, ls_truncate_prefix = ml_truncate_prefix,
              ls_truncate_suffix = ml_truncate_suffix, ls_reset = ml_reset\<rparr>"

definition ml_valid :: "mem_log \<Rightarrow> bool" where
  "ml_valid m \<longleftrightarrow> contig e_index (ml_first m) (ml_data m)
     \<and> ml_last m = ml_first m + int (length (ml_data m)) - 1"

lemma mem_ops_simps [simp]:
  "ls_init mem_ops = ml_init" "ls_first mem_ops = ml_first" "ls_last mem_ops = ml_last"
  "ls_get_entry mem_ops = ml_get_entry" "ls_get_term mem_ops = ml_get_term"
  "ls_append_entries mem_ops = ml_append_entries"
  "ls_truncate_prefix mem_ops = ml_truncate_prefix"
  "ls_truncate_suffix mem_ops = ml_truncate_suffix" "ls_reset mem_ops = ml_reset"
  by (simp_all add: mem_ops_def)

lemma ml_valid_new: "ml_valid mem_log_new"
  by (simp add: ml_valid_def mem_log_new_def)

lemma ml_append_fold:
  "ml_valid m \<Longrightarrow> contig e_index (ml_last m + 1) es \<Longrightarrow>
   fold (\<lambda>e m. snd (ml_append_entry e m)) es m
     = m\<lparr>ml_data := ml_data m @ es, ml_last := ml_last m + int (length es)\<rparr>"
proof (induction es arbitrary: m)
  case Nil
  then show ?case by simp
next
  case (Cons e es)
  let ?m = "m\<lparr>ml_data := ml_data m @ [e], ml_last := ml_last m + 1\<rparr>"
  have "snd (ml_append_entry e m) = ?m"
    using Cons.prems by (simp add: ml_append_entry_def)
  moreover have "ml_valid ?m"
    using Cons.prems by (simp add: ml_valid_def contig_append)
  ultimately show ?case
    using Cons.IH [of ?m] Cons.prems by (simp add: add.commute add.left_commute)
qed

lemma ml_append_spec:
  "ml_valid m \<Longrightarrow> contig e_index (ml_last m + 1) es \<Longrightarrow>
   ml_append_entries es m
     = (int (length es), m\<lparr>ml_data := ml_data m @ es, ml_last := ml_last m + int (length es)\<rparr>)"
  by (auto simp: ml_append_entries_def ml_append_fold)

lemma ml_prefix_valid:
  assumes "ml_valid m" and "ml_first m \<le> k"
  shows "ml_valid (snd (ml_truncate_prefix k m))"
proof -
  let ?d = "drop (nat (k - ml_first m)) (ml_data m)"
  have dw: "dropWhile (\<lambda>e. e_index e < k) (ml_data m) = ?d"
    using assms(1) by (simp add: ml_valid_def contig_dropWhile)
  show ?thesis
  proof (cases "nat (k - ml_first m) \<le> length (ml_data m)")
    case True
    then have "contig e_index (ml_first m + int (nat (k - ml_first m))) ?d"
      using assms(1) by (intro contig_drop) (auto simp: ml_valid_def)
    with True assms show ?thesis
      by (auto simp: ml_truncate_prefix_def Let_def dw ml_valid_def)
  next
    case False
    with assms show ?thesis
      by (auto simp: ml_truncate_prefix_def Let_def dw ml_valid_def)
  qed
qed

lemma ml_suffix_valid:
  assumes "ml_valid m" and "k \<le> ml_last m"
  shows "ml_valid (snd (ml_truncate_suffix k m))"
proof -
  have pb: "pop_back_while (\<lambda>e. e_index e > k) (ml_data m) = take (nat (k + 1 - ml_first m)) (ml_data m)"
    using assms(1) by (simp add: ml_valid_def contig_pop_back_while)
  have "contig e_index (ml_first m) (take (nat (k + 1 - ml_first m)) (ml_data m))"
    using assms(1) by (simp add: ml_valid_def contig_take)
  with assms show ?thesis
    by (auto simp: ml_truncate_suffix_def Let_def pb ml_valid_def)
qed

interpretation mem: log_storage mem_ops "\<lambda>e. True" ml_valid ml_data
proof
  fix s :: mem_log and es k i
  show "ml_valid s \<Longrightarrow> contig e_index (ls_first mem_ops s) (ml_data s)"
    and "ml_valid s \<Longrightarrow> ls_last mem_ops s = ls_first mem_ops s + int (length (ml_data s)) - 1"
    by (simp_all add: ml_valid_def)
  show "ml_valid s \<Longrightarrow> ls_get_entry mem_ops i s =
          (if ls_first mem_ops s \<le> i \<and> i \<le> ls_last mem_ops s
           then Some (ml_data s ! nat (i - ls_first mem_ops s)) else None)"
    and "ml_valid s \<Longrightarrow> ls_get_term mem_ops i s =
          (case ls_get_entry mem_ops i s of None \<Rightarrow> 0 | Some e \<Rightarrow> e_term e)"
    by (auto simp: ml_get_entry_def ml_get_term_def)
  show "ml_valid s \<Longrightarrow> contig e_index (ls_last mem_ops s + 1) es \<Longrightarrow>
          \<exists>s'. ls_append_entries mem_ops es s = (int (length es), s') \<and> ml_valid s'
             \<and> ml_data s' = ml_data s @ es \<and> ls_first mem_ops s' = ls_first mem_ops s"
    by (simp add: ml_append_spec) (simp add: ml_valid_def contig_append algebra_simps)
  show "ml_valid s \<Longrightarrow> ls_first mem_ops s \<le> k \<Longrightarrow>
          \<exists>s'. ls_truncate_prefix mem_ops k s = (RcOk, s') \<and> ml_valid s'
             \<and> ml_data s' = dropWhile (\<lambda>e. e_index e < k) (ml_data s) \<and> ls_first mem_ops s' = k"
    using ml_prefix_valid [of s k]
    by (auto simp: ml_truncate_prefix_def Let_def)
  show "ml_valid s \<Longrightarrow> ls_first mem_ops s \<le> k + 1 \<Longrightarrow> k < ls_last mem_ops s \<Longrightarrow>
          \<exists>s'. ls_truncate_suffix mem_ops k s = (RcOk, s') \<and> ml_valid s'
             \<and> ml_data s' = pop_back_while (\<lambda>e. e_index e > k) (ml_data s)
             \<and> ls_first mem_ops s' = ls_first mem_ops s"
    using ml_suffix_valid [of s k]
    by (auto simp: ml_truncate_suffix_def Let_def)
  show "ml_valid s \<Longrightarrow> 0 < k \<Longrightarrow>
          \<exists>s'. ls_reset mem_ops k s = (RcOk, s') \<and> ml_valid s' \<and> ml_data s' = [] \<and> ls_first mem_ops s' = k"
    by (simp add: ml_reset_def ml_valid_def)
qed

end
