(* ===== verification/LogManager.thy ===== *)
theory LogManager
  imports MemoryLog "HOL-Library.AList"
begin

section \<open>Log manager (log_manager.h, log_manager.cpp)\<close>

text \<open>
  The manager keeps the tail of the log in memory, hands entries to a disk thread through a queue
  and answers reads from memory first and the storage second. The model is parameterised by the
  storage (\<open>'s\<close> with its operations \<open>S\<close>), by the client's stable closures (\<open>'d\<close>) and by
  the waiters of \<open>wait\<close> (\<open>'w\<close>). What an operation makes others do is returned as a list of
  events: stable closures that run (with the \<open>_first_log_index\<close> they carry), the answer to a
  flushing \<open>last_log_id\<close>, waiters that wake, and errors reported to the FSM caller. Each
  operation is atomic, as under its mutex; the disk thread's work is the separate step
  \<open>lm_disk_thread\<close> on the tasks it dequeues. Reference counts and metrics are not modelled.
\<close>

datatype 'd disk_task =
  DiskEntries 'd int "log_entry list"
| DiskLastLogId nat
| DiskTruncatePrefix int
| DiskTruncateSuffix int int
| DiskReset int

datatype ('d, 'w) lm_event =
  LmRun 'd int status
| LmLastLogId nat log_id
| LmWake 'w status
| LmError rc

record ('s, 'd, 'w) log_manager =
  lm_storage :: 's
  lm_config :: config_manager
  lm_wait_map :: "(int \<times> 'w) list"
  lm_stopped :: bool
  lm_has_error :: bool
  lm_next_wait_id :: int
  lm_disk_id :: log_id
  lm_applied_id :: log_id
  lm_memory :: "log_entry list"
  lm_first :: int
  lm_last :: int
  lm_last_snapshot_id :: log_id
  lm_virtual_first :: log_id
  lm_disk_queue :: "'d disk_task list"

definition log_manager_new :: "'s \<Rightarrow> config_manager \<Rightarrow> ('s, 'd, 'w) log_manager" where
  "log_manager_new st cm =
     \<lparr>lm_storage = st, lm_config = cm, lm_wait_map = [], lm_stopped = False, lm_has_error = False,
      lm_next_wait_id = 0, lm_disk_id = LogId 0 0, lm_applied_id = LogId 0 0, lm_memory = [],
      lm_first = 0, lm_last = 0, lm_last_snapshot_id = LogId 0 0, lm_virtual_first = LogId 0 0,
      lm_disk_queue = []\<rparr>"

definition lm_init ::
  "'s log_storage_ops \<Rightarrow> ('s, 'd, 'w) log_manager \<Rightarrow> rc \<times> ('s, 'd, 'w) log_manager" where
  "lm_init S lm =
     (case ls_init S (lm_config lm) (lm_storage lm) of
        (r, st, cm) \<Rightarrow>
          (let lm1 = lm\<lparr>lm_storage := st, lm_config := cm\<rparr>
           in if r \<noteq> RcOk then (r, lm1)
              else (RcOk, lm1\<lparr>lm_first := ls_first S st, lm_last := ls_last S st,
                              lm_disk_id := LogId (ls_last S st) (ls_get_term S (ls_last S st) st)\<rparr>)))"

subsection \<open>Reads\<close>

definition lm_get_entry_from_memory :: "int \<Rightarrow> ('s, 'd, 'w) log_manager \<Rightarrow> log_entry option" where
  "lm_get_entry_from_memory index lm =
     (if lm_memory lm = [] then None
      else if index \<ge> e_index (hd (lm_memory lm)) \<and> index \<le> e_index (last (lm_memory lm))
           then Some (lm_memory lm ! nat (index - e_index (hd (lm_memory lm))))
      else None)"

definition lm_unsafe_get_term :: "'s log_storage_ops \<Rightarrow> int \<Rightarrow> ('s, 'd, 'w) log_manager \<Rightarrow> int" where
  "lm_unsafe_get_term S index lm =
     (if index = 0 then 0
      else if index = lid_index (lm_virtual_first lm) then lid_term (lm_virtual_first lm)
      else if index = lid_index (lm_last_snapshot_id lm) then lid_term (lm_last_snapshot_id lm)
      else if index > lm_last lm \<or> index < lm_first lm then 0
      else (case lm_get_entry_from_memory index lm of
              Some e \<Rightarrow> e_term e
            | None \<Rightarrow> ls_get_term S index (lm_storage lm)))"

text \<open>\<open>get_term\<close> is the same reading, taken outside the caller's critical section.\<close>

definition lm_get_term :: "'s log_storage_ops \<Rightarrow> int \<Rightarrow> ('s, 'd, 'w) log_manager \<Rightarrow> int" where
  "lm_get_term S index lm =
     (if index = 0 then 0
      else if index = lid_index (lm_virtual_first lm) then lid_term (lm_virtual_first lm)
      else if index = lid_index (lm_last_snapshot_id lm) then lid_term (lm_last_snapshot_id lm)
      else if index > lm_last lm \<or> index < lm_first lm then 0
      else (case lm_get_entry_from_memory index lm of
              Some e \<Rightarrow> e_term e
            | None \<Rightarrow> ls_get_term S index (lm_storage lm)))"

definition lm_report_error ::
  "rc \<Rightarrow> ('s, 'd, 'w) log_manager \<Rightarrow> ('s, 'd, 'w) log_manager \<times> ('d, 'w) lm_event list" where
  "lm_report_error e lm = (lm\<lparr>lm_has_error := True\<rparr>, [LmError e])"

definition lm_get_entry ::
  "'s log_storage_ops \<Rightarrow> int \<Rightarrow> ('s, 'd, 'w) log_manager
   \<Rightarrow> log_entry option \<times> ('s, 'd, 'w) log_manager \<times> ('d, 'w) lm_event list" where
  "lm_get_entry S index lm =
     (if index > lm_last lm \<or> index < lm_first lm then (None, lm, [])
      else case lm_get_entry_from_memory index lm of
             Some e \<Rightarrow> (Some e, lm, [])
           | None \<Rightarrow>
               (case ls_get_entry S index (lm_storage lm) of
                  Some e \<Rightarrow> (Some e, lm, [])
                | None \<Rightarrow> (case lm_report_error (RcErr EIO) lm of (lm', ev) \<Rightarrow> (None, lm', ev))))"

definition lm_last_log_id :: "'s log_storage_ops \<Rightarrow> ('s, 'd, 'w) log_manager \<Rightarrow> log_id" where
  "lm_last_log_id S lm =
     (if lm_last lm \<ge> lm_first lm then LogId (lm_last lm) (lm_unsafe_get_term S (lm_last lm) lm)
      else lm_last_snapshot_id lm)"

text \<open>
  The flushing variant answers at once when the log ends at the snapshot; otherwise it queues a
  task, numbered by the caller, whose answer the disk thread gives.
\<close>

definition lm_last_log_id_flush ::
  "nat \<Rightarrow> ('s, 'd, 'w) log_manager \<Rightarrow> log_id option \<times> ('s, 'd, 'w) log_manager" where
  "lm_last_log_id_flush c lm =
     (if lm_last lm = lid_index (lm_last_snapshot_id lm) then (Some (lm_last_snapshot_id lm), lm)
      else (None, lm\<lparr>lm_disk_queue := lm_disk_queue lm @ [DiskLastLogId c]\<rparr>))"

definition lm_get_configuration :: "int \<Rightarrow> ('s, 'd, 'w) log_manager \<Rightarrow> conf_entry" where
  "lm_get_configuration index lm = cm_get index (lm_config lm)"

definition lm_check_and_set_configuration ::
  "conf_entry \<Rightarrow> ('s, 'd, 'w) log_manager \<Rightarrow> bool \<times> conf_entry" where
  "lm_check_and_set_configuration current lm =
     (let last_conf = cm_last_configuration (lm_config lm)
      in if ce_id current \<noteq> ce_id last_conf then (True, last_conf) else (False, current))"

definition lm_check_consistency :: "('s, 'd, 'w) log_manager \<Rightarrow> status" where
  "lm_check_consistency lm =
     (if lm_last_snapshot_id lm = LogId 0 0
      then if lm_first lm = 1 then StatusOK else StatusErr EIO
      else if lid_index (lm_last_snapshot_id lm) \<ge> lm_first lm - 1
              \<and> lid_index (lm_last_snapshot_id lm) \<le> lm_last lm
           then StatusOK else StatusErr EIO)"

record lm_status =
  lms_first_index :: int
  lms_last_index :: int
  lms_disk_index :: int
  lms_known_applied_index :: int

definition lm_get_status :: "'s log_storage_ops \<Rightarrow> ('s, 'd, 'w) log_manager \<Rightarrow> lm_status" where
  "lm_get_status S lm =
     \<lparr>lms_first_index = ls_first S (lm_storage lm), lms_last_index = ls_last S (lm_storage lm),
      lms_disk_index = lid_index (lm_disk_id lm), lms_known_applied_index = lid_index (lm_applied_id lm)\<rparr>"

subsection \<open>Memory and waiters\<close>

text \<open>\<open>clear_memory_logs\<close> pops at most 256 entries per critical section until fewer were popped.\<close>

fun pop_upto :: "nat \<Rightarrow> log_id \<Rightarrow> log_entry list \<Rightarrow> nat \<times> log_entry list" where
  "pop_upto 0 lid es = (0, es)"
| "pop_upto (Suc n) lid [] = (0, [])"
| "pop_upto (Suc n) lid (e # es) =
     (if e_id e > lid then (0, e # es) else (case pop_upto n lid es of (k, r) \<Rightarrow> (Suc k, r)))"

lemma pop_upto_length: "pop_upto n lid es = (k, r) \<Longrightarrow> length es = k + length r"
  by (induction n lid es arbitrary: k r rule: pop_upto.induct) (auto split: if_splits prod.splits)

function clear_memory_loop :: "log_id \<Rightarrow> log_entry list \<Rightarrow> log_entry list" where
  "clear_memory_loop lid es =
     (case pop_upto 256 lid es of (k, r) \<Rightarrow> if k = 256 then clear_memory_loop lid r else r)"
  by pat_completeness auto
termination
proof (relation "measure (\<lambda>(lid, es). length es)")
  fix lid es k r
  assume "(k, r) = pop_upto 256 lid es" and "k = 256"
  then show "((lid, r), (lid, es)) \<in> measure (\<lambda>(lid, es). length es)"
    using pop_upto_length [of 256 lid es k r] by simp
qed simp

declare clear_memory_loop.simps [simp del]

definition lm_clear_memory_logs :: "log_id \<Rightarrow> ('s, 'd, 'w) log_manager \<Rightarrow> ('s, 'd, 'w) log_manager" where
  "lm_clear_memory_logs lid lm = lm\<lparr>lm_memory := clear_memory_loop lid (lm_memory lm)\<rparr>"

definition lm_set_disk_id :: "log_id \<Rightarrow> ('s, 'd, 'w) log_manager \<Rightarrow> ('s, 'd, 'w) log_manager" where
  "lm_set_disk_id disk_id lm =
     (if disk_id < lm_disk_id lm then lm
      else (let lm1 = lm\<lparr>lm_disk_id := disk_id\<rparr>
            in lm_clear_memory_logs (min (lm_disk_id lm1) (lm_applied_id lm1)) lm1))"

definition lm_set_applied_id :: "log_id \<Rightarrow> ('s, 'd, 'w) log_manager \<Rightarrow> ('s, 'd, 'w) log_manager" where
  "lm_set_applied_id applied_id lm =
     (if applied_id < lm_applied_id lm then lm
      else (let lm1 = lm\<lparr>lm_applied_id := applied_id\<rparr>
            in lm_clear_memory_logs (min (lm_disk_id lm1) (lm_applied_id lm1)) lm1))"

definition lm_wakeup_all_waiter ::
  "('s, 'd, 'w) log_manager \<Rightarrow> ('s, 'd, 'w) log_manager \<times> ('d, 'w) lm_event list" where
  "lm_wakeup_all_waiter lm =
     (if lm_wait_map lm = [] then (lm, [])
      else (lm\<lparr>lm_wait_map := []\<rparr>,
            map (\<lambda>(i, w). LmWake w (if lm_stopped lm then StatusErr ESTOP else StatusOK)) (lm_wait_map lm)))"

definition lm_shutdown ::
  "('s, 'd, 'w) log_manager \<Rightarrow> ('s, 'd, 'w) log_manager \<times> ('d, 'w) lm_event list" where
  "lm_shutdown lm = lm_wakeup_all_waiter (lm\<lparr>lm_stopped := True\<rparr>)"

text \<open>The wait id passes through an \<^verbatim>\<open>int\<close>.\<close>

definition to_int32 :: "int \<Rightarrow> int" where
  "to_int32 x = (x + 2 ^ 31) mod 2 ^ 32 - 2 ^ 31"

definition lm_wait ::
  "int \<Rightarrow> 'w \<Rightarrow> ('s, 'd, 'w) log_manager
   \<Rightarrow> int \<times> ('s, 'd, 'w) log_manager \<times> ('d, 'w) lm_event list" where
  "lm_wait expected_last_log_index wm lm =
     (if expected_last_log_index \<noteq> lm_last lm \<or> lm_stopped lm
      then (0, lm, [LmWake wm (if lm_stopped lm then StatusErr ESTOP else StatusOK)])
      else (let next_id = (if lm_next_wait_id lm = 0 then 1 else lm_next_wait_id lm);
                wait_id = to_int32 next_id
            in (wait_id, lm\<lparr>lm_next_wait_id := next_id + 1,
                            lm_wait_map := AList.update wait_id wm (lm_wait_map lm)\<rparr>, [])))"

definition lm_remove_waiter :: "int \<Rightarrow> ('s, 'd, 'w) log_manager \<Rightarrow> rc \<times> ('s, 'd, 'w) log_manager" where
  "lm_remove_waiter lid lm =
     (case map_of (lm_wait_map lm) lid of
        None \<Rightarrow> (RcFail, lm)
      | Some w \<Rightarrow> (RcOk, lm\<lparr>lm_wait_map := AList.delete lid (lm_wait_map lm)\<rparr>))"

subsection \<open>Truncation and reset\<close>

definition lm_truncate_prefix :: "int \<Rightarrow> ('s, 'd, 'w) log_manager \<Rightarrow> ('s, 'd, 'w) log_manager" where
  "lm_truncate_prefix first_index_kept lm =
     lm\<lparr>lm_memory := dropWhile (\<lambda>e. e_index e < first_index_kept) (lm_memory lm),
        lm_first := first_index_kept,
        lm_last := (if first_index_kept > lm_last lm then first_index_kept - 1 else lm_last lm),
        lm_config := cm_truncate_prefix first_index_kept (lm_config lm),
        lm_disk_queue := lm_disk_queue lm @ [DiskTruncatePrefix first_index_kept]\<rparr>"

definition lm_reset :: "int \<Rightarrow> ('s, 'd, 'w) log_manager \<Rightarrow> ('s, 'd, 'w) log_manager" where
  "lm_reset next_log_index lm =
     lm\<lparr>lm_memory := [], lm_first := next_log_index, lm_last := next_log_index - 1,
        lm_config := cm_truncate_suffix (next_log_index - 1)
                       (cm_truncate_prefix next_log_index (lm_config lm)),
        lm_disk_queue := lm_disk_queue lm @ [DiskReset next_log_index]\<rparr>"

text \<open>Truncating below the applied index is fatal in the code: it logs and returns.\<close>

definition lm_unsafe_truncate_suffix ::
  "'s log_storage_ops \<Rightarrow> int \<Rightarrow> ('s, 'd, 'w) log_manager \<Rightarrow> ('s, 'd, 'w) log_manager" where
  "lm_unsafe_truncate_suffix S last_index_kept lm =
     (if last_index_kept < lid_index (lm_applied_id lm) then lm
      else (let lm1 = lm\<lparr>lm_memory := pop_back_while (\<lambda>e. e_index e > last_index_kept) (lm_memory lm),
                         lm_last := last_index_kept\<rparr>;
                last_term_kept = lm_unsafe_get_term S last_index_kept lm1
            in lm1\<lparr>lm_config := cm_truncate_suffix last_index_kept (lm_config lm1),
                   lm_disk_queue := lm_disk_queue lm1 @ [DiskTruncateSuffix last_index_kept last_term_kept]\<rparr>))"

subsection \<open>Appending\<close>

fun assign_indexes :: "int \<Rightarrow> log_entry list \<Rightarrow> log_entry list" where
  "assign_indexes l [] = []"
| "assign_indexes l (e # es) = e\<lparr>e_id := LogId (l + 1) (e_term e)\<rparr> # assign_indexes (l + 1) es"

fun conflicting_index :: "(int \<Rightarrow> int) \<Rightarrow> log_entry list \<Rightarrow> nat" where
  "conflicting_index term_of [] = 0"
| "conflicting_index term_of (e # es) =
     (if term_of (e_index e) \<noteq> e_term e then 0 else Suc (conflicting_index term_of es))"

text \<open>
  \<open>check_and_resolve_conflict\<close> returns its code (0, 1 or -1), the entries left to append and
  whether the guard ran the closure (with which status).
\<close>

definition lm_check_and_resolve_conflict ::
  "'s log_storage_ops \<Rightarrow> log_entry list \<Rightarrow> ('s, 'd, 'w) log_manager
   \<Rightarrow> int \<times> log_entry list \<times> ('s, 'd, 'w) log_manager \<times> status option" where
  "lm_check_and_resolve_conflict S es lm =
     (if e_index (hd es) = 0
      then (0, assign_indexes (lm_last lm) es, lm\<lparr>lm_last := lm_last lm + int (length es)\<rparr>, None)
      else if e_index (hd es) > lm_last lm + 1 then (-1, es, lm, Some (StatusErr EINVAL))
      else if e_index (last es) \<le> lid_index (lm_applied_id lm) then (1, es, lm, Some StatusOK)
      else if e_index (hd es) = lm_last lm + 1
           then (0, es, lm\<lparr>lm_last := e_index (last es)\<rparr>, None)
      else (let ci = conflicting_index (\<lambda>i. lm_unsafe_get_term S i lm) es
            in if ci \<noteq> length es
               then (let lm1 = (if e_index (es ! ci) \<le> lm_last lm
                                then lm_unsafe_truncate_suffix S (e_index (es ! ci) - 1) lm else lm)
                     in (0, drop ci es, lm1\<lparr>lm_last := e_index (last es)\<rparr>, None))
               else (0, drop ci es, lm, None)))"

fun add_configurations :: "log_entry list \<Rightarrow> config_manager \<Rightarrow> config_manager" where
  "add_configurations [] cm = cm"
| "add_configurations (e # es) cm =
     add_configurations es
       (if e_type e = ENTRY_TYPE_CONFIGURATION then snd (cm_add (conf_entry_of e) cm) else cm)"

definition lm_append_entries ::
  "'s log_storage_ops \<Rightarrow> log_entry list \<Rightarrow> 'd \<Rightarrow> ('s, 'd, 'w) log_manager
   \<Rightarrow> ('s, 'd, 'w) log_manager \<times> ('d, 'w) lm_event list" where
  "lm_append_entries S es done lm =
     (if lm_has_error lm then (lm, [LmRun done 0 (StatusErr EIO)])
      else (case (if es = [] then (0, es, lm, None) else lm_check_and_resolve_conflict S es lm) of
              (code, es1, lm1, res) \<Rightarrow>
                if code \<noteq> 0
                then (lm1, (case res of None \<Rightarrow> [] | Some st \<Rightarrow> [LmRun done 0 st]))
                else (let lm2 = lm1\<lparr>lm_config := add_configurations es1 (lm_config lm1),
                                    lm_memory := lm_memory lm1 @ es1,
                                    lm_disk_queue := lm_disk_queue lm1 @
                                      [DiskEntries done (if es1 = [] then 0 else e_index (hd es1)) es1]\<rparr>
                      in lm_wakeup_all_waiter lm2)))"

subsection \<open>The disk thread\<close>

definition lm_append_to_storage ::
  "'s log_storage_ops \<Rightarrow> log_entry list \<Rightarrow> log_id \<Rightarrow> ('s, 'd, 'w) log_manager
   \<Rightarrow> log_id \<times> ('s, 'd, 'w) log_manager \<times> ('d, 'w) lm_event list" where
  "lm_append_to_storage S to_append last_id lm =
     (if lm_has_error lm then (last_id, lm, [])
      else (case ls_append_entries S to_append (lm_storage lm) of
              (n, st) \<Rightarrow>
                (let lm1 = lm\<lparr>lm_storage := st\<rparr>;
                     (lm2, ev) = (if n \<noteq> int (length to_append) then lm_report_error (RcErr EIO) lm1 else (lm1, []));
                     last_id' = (if n > 0 then e_id (to_append ! nat (n - 1)) else last_id)
                 in (last_id', lm2, ev))))"

text \<open>The batcher: the closures waiting for one write (at most 256) and their entries.\<close>

record 'd append_batcher =
  ab_storage :: "('d \<times> int) list"
  ab_buffer_size :: nat
  ab_to_append :: "log_entry list"

definition ab_new :: "'d append_batcher" where
  "ab_new = \<lparr>ab_storage = [], ab_buffer_size = 0, ab_to_append = []\<rparr>"

definition ab_flush ::
  "'s log_storage_ops \<Rightarrow> 'd append_batcher \<Rightarrow> log_id \<Rightarrow> ('s, 'd, 'w) log_manager
   \<Rightarrow> 'd append_batcher \<times> log_id \<times> ('s, 'd, 'w) log_manager \<times> ('d, 'w) lm_event list" where
  "ab_flush S ab last_id lm =
     (if ab_storage ab = [] then (ab\<lparr>ab_buffer_size := 0\<rparr>, last_id, lm, [])
      else (case lm_append_to_storage S (ab_to_append ab) last_id lm of
              (last_id', lm', ev) \<Rightarrow>
                (ab_new, last_id', lm',
                 ev @ map (\<lambda>(d, first). LmRun d first
                             (if lm_has_error lm' then StatusErr EIO else StatusOK)) (ab_storage ab))))"

definition ab_append ::
  "'s log_storage_ops \<Rightarrow> nat \<Rightarrow> 'd \<Rightarrow> int \<Rightarrow> log_entry list \<Rightarrow> 'd append_batcher \<Rightarrow> log_id
   \<Rightarrow> ('s, 'd, 'w) log_manager
   \<Rightarrow> 'd append_batcher \<times> log_id \<times> ('s, 'd, 'w) log_manager \<times> ('d, 'w) lm_event list" where
  "ab_append S max_buffer d first es ab last_id lm =
     (let (ab1, last_id1, lm1, ev) =
            (if length (ab_storage ab) = 256 \<or> ab_buffer_size ab \<ge> max_buffer
             then ab_flush S ab last_id lm else (ab, last_id, lm, []))
      in (ab1\<lparr>ab_storage := ab_storage ab1 @ [(d, first)],
              ab_to_append := ab_to_append ab1 @ es,
              ab_buffer_size := ab_buffer_size ab1 + sum_list (map (length \<circ> e_data) es)\<rparr>,
          last_id1, lm1, ev))"

text \<open>A task that is not a write: its effect on the storage, the error it reports, what it runs.\<close>

definition lm_storage_op ::
  "rc \<times> 's \<Rightarrow> log_id \<Rightarrow> log_id \<Rightarrow> ('s, 'd, 'w) log_manager
   \<Rightarrow> log_id \<times> ('s, 'd, 'w) log_manager \<times> ('d, 'w) lm_event list" where
  "lm_storage_op res new_id last_id lm =
     (case res of
        (r, st) \<Rightarrow>
          (if r = RcOk then (new_id, lm\<lparr>lm_storage := st\<rparr>, [])
           else (case lm_report_error r (lm\<lparr>lm_storage := st\<rparr>) of (lm', ev) \<Rightarrow> (last_id, lm', ev))))"

fun lm_other_task ::
  "'s log_storage_ops \<Rightarrow> 'd disk_task \<Rightarrow> log_id \<Rightarrow> ('s, 'd, 'w) log_manager
   \<Rightarrow> log_id \<times> ('s, 'd, 'w) log_manager \<times> ('d, 'w) lm_event list" where
  "lm_other_task S (DiskEntries d first es) last_id lm = (last_id, lm, [LmRun d first StatusOK])"
| "lm_other_task S (DiskLastLogId c) last_id lm = (last_id, lm, [LmLastLogId c last_id])"
| "lm_other_task S (DiskTruncatePrefix k) last_id lm =
     lm_storage_op (ls_truncate_prefix S k (lm_storage lm)) last_id last_id lm"
| "lm_other_task S (DiskTruncateSuffix k t) last_id lm =
     lm_storage_op (ls_truncate_suffix S k (lm_storage lm)) (LogId k t) last_id lm"
| "lm_other_task S (DiskReset k) last_id lm =
     lm_storage_op (ls_reset S k (lm_storage lm)) last_id last_id lm"

definition lm_disk_task ::
  "'s log_storage_ops \<Rightarrow> nat \<Rightarrow> 'd disk_task \<Rightarrow> 'd append_batcher \<Rightarrow> log_id \<Rightarrow> ('s, 'd, 'w) log_manager
   \<Rightarrow> 'd append_batcher \<times> log_id \<times> ('s, 'd, 'w) log_manager \<times> ('d, 'w) lm_event list" where
  "lm_disk_task S max_buffer task ab last_id lm =
     (case task of
        DiskEntries d first (e # es) \<Rightarrow> ab_append S max_buffer d first (e # es) ab last_id lm
      | _ \<Rightarrow>
          (let (ab1, last_id1, lm1, ev1) = ab_flush S ab last_id lm;
               (last_id2, lm2, ev2) = lm_other_task S task last_id1 lm1
           in (ab1, last_id2, lm2, ev1 @ ev2)))"

fun lm_disk_loop ::
  "'s log_storage_ops \<Rightarrow> nat \<Rightarrow> 'd disk_task list \<Rightarrow> 'd append_batcher \<Rightarrow> log_id \<Rightarrow> ('s, 'd, 'w) log_manager
   \<Rightarrow> log_id \<times> ('s, 'd, 'w) log_manager \<times> ('d, 'w) lm_event list" where
  "lm_disk_loop S max_buffer [] ab last_id lm =
     (let (ab1, last_id1, lm1, ev) = ab_flush S ab last_id lm in (last_id1, lm1, ev))"
| "lm_disk_loop S max_buffer (t # ts) ab last_id lm =
     (let (ab1, last_id1, lm1, ev1) = lm_disk_task S max_buffer t ab last_id lm;
          (last_id2, lm2, ev2) = lm_disk_loop S max_buffer ts ab1 last_id1 lm1
      in (last_id2, lm2, ev1 @ ev2))"

text \<open>One run of the disk thread on the first \<open>n\<close> tasks of the queue.\<close>

definition lm_disk_thread ::
  "'s log_storage_ops \<Rightarrow> nat \<Rightarrow> nat \<Rightarrow> ('s, 'd, 'w) log_manager
   \<Rightarrow> ('s, 'd, 'w) log_manager \<times> ('d, 'w) lm_event list" where
  "lm_disk_thread S max_buffer n lm =
     (let (last_id, lm1, ev) =
            lm_disk_loop S max_buffer (take n (lm_disk_queue lm)) ab_new (lm_disk_id lm)
              (lm\<lparr>lm_disk_queue := drop n (lm_disk_queue lm)\<rparr>)
      in (lm_set_disk_id last_id lm1, ev))"

subsection \<open>Snapshots\<close>

record snapshot_meta =
  sm_last_included_index :: int
  sm_last_included_term :: int
  sm_peers :: "string list"
  sm_old_peers :: "string list"

definition conf_of_strings :: "(string \<Rightarrow> 32 word option) \<Rightarrow> string list \<Rightarrow> conf" where
  "conf_of_strings str2ip ss = fold (\<lambda>s c. set_insert (peer_of_string str2ip s) c) ss []"

definition lm_set_snapshot ::
  "'s log_storage_ops \<Rightarrow> (string \<Rightarrow> 32 word option) \<Rightarrow> snapshot_meta \<Rightarrow> ('s, 'd, 'w) log_manager
   \<Rightarrow> ('s, 'd, 'w) log_manager" where
  "lm_set_snapshot S str2ip meta lm =
     (if sm_last_included_index meta \<le> lid_index (lm_last_snapshot_id lm) then lm
      else
        (let lid = LogId (sm_last_included_index meta) (sm_last_included_term meta);
             entry = \<lparr>ce_id = lid, ce_conf = conf_of_strings str2ip (sm_peers meta),
                      ce_old_conf = conf_of_strings str2ip (sm_old_peers meta)\<rparr>;
             lm1 = lm\<lparr>lm_config := cm_set_snapshot entry (lm_config lm)\<rparr>;
             term = lm_unsafe_get_term S (sm_last_included_index meta) lm1;
             last_but_one = lm_last_snapshot_id lm1;
             lm2 = lm1\<lparr>lm_last_snapshot_id := lid,
                       lm_applied_id := (if lid > lm_applied_id lm1 then lid else lm_applied_id lm1)\<rparr>
         in if term = 0
            then lm_truncate_prefix (lid_index lid + 1) (lm2\<lparr>lm_virtual_first := lid\<rparr>)
            else if term = sm_last_included_term meta
            then if lid_index last_but_one > 0
                 then lm_truncate_prefix (lid_index last_but_one + 1) (lm2\<lparr>lm_virtual_first := last_but_one\<rparr>)
                 else lm2
            else lm_reset (lid_index lid + 1) (lm2\<lparr>lm_virtual_first := lid\<rparr>)))"

definition lm_clear_bufferred_logs :: "('s, 'd, 'w) log_manager \<Rightarrow> ('s, 'd, 'w) log_manager" where
  "lm_clear_bufferred_logs lm =
     (if lid_index (lm_last_snapshot_id lm) \<noteq> 0
      then lm_truncate_prefix (lid_index (lm_last_snapshot_id lm) + 1)
             (lm\<lparr>lm_virtual_first := lm_last_snapshot_id lm\<rparr>)
      else lm)"

end
