(* ===== verification/Ballot.thy ===== *)
theory Ballot
  imports ConfSet
begin

section \<open>Ballot: counting votes of one or two configurations (ballot.h, ballot.cpp)\<close>

text \<open>
  A \<open>Ballot\<close> lists the voters of the configuration (and of the old one during a joint
  change) with a flag each, and counts down the votes still missing. \<open>grant\<close> takes a
  position hint that the caller threads through consecutive ballots; the proofs show that the
  hint never changes the outcome. The interface the other components rely on is the locale
  \<open>quorum_system\<close>: two quorums have a common voter.
\<close>

record unfound_peer =
  up_peer :: peer_id
  up_found :: bool

record pos_hint =
  pos0 :: int
  pos1 :: int

record ballot =
  b_peers :: "unfound_peer list"
  b_quorum :: int
  b_old_peers :: "unfound_peer list"
  b_old_quorum :: int

definition no_hint :: pos_hint where
  "no_hint = \<lparr>pos0 = -1, pos1 = -1\<rparr>"

definition empty_ballot :: ballot where
  "empty_ballot = \<lparr>b_peers = [], b_quorum = 0, b_old_peers = [], b_old_quorum = 0\<rparr>"

definition unfound :: "peer_id \<Rightarrow> unfound_peer" where
  "unfound p = \<lparr>up_peer = p, up_found = False\<rparr>"

definition ballot_init :: "conf \<Rightarrow> conf option \<Rightarrow> ballot" where
  "ballot_init c old_conf =
     (let b = \<lparr>b_peers = map unfound c, b_quorum = int (length c) div 2 + 1,
               b_old_peers = [], b_old_quorum = 0\<rparr>
      in case old_conf of
           None \<Rightarrow> b
         | Some oc \<Rightarrow> b\<lparr>b_old_peers := map unfound oc,
                         b_old_quorum := int (length oc) div 2 + 1\<rparr>)"

text \<open>\<open>find_peer\<close> returns an iterator; here its offset, the length standing for \<open>end()\<close>.\<close>

fun find_index :: "peer_id \<Rightarrow> unfound_peer list \<Rightarrow> nat" where
  "find_index p [] = 0"
| "find_index p (u # us) = (if peer_eq (up_peer u) p then 0 else Suc (find_index p us))"

definition find_peer :: "peer_id \<Rightarrow> unfound_peer list \<Rightarrow> int \<Rightarrow> nat" where
  "find_peer p us pos_hint =
     (if pos_hint < 0 \<or> int (length us) \<le> pos_hint
          \<or> \<not> peer_eq (up_peer (us ! nat pos_hint)) p
      then find_index p us else nat pos_hint)"

text \<open>One half of \<open>grant\<close>: the new position, the voters and the votes still missing.\<close>

definition grant_in ::
  "peer_id \<Rightarrow> int \<Rightarrow> unfound_peer list \<Rightarrow> int \<Rightarrow> int \<times> unfound_peer list \<times> int" where
  "grant_in p hint us quorum =
     (let i = find_peer p us hint
      in if i \<noteq> length us
         then if \<not> up_found (us ! i)
              then (int i, us[i := (us ! i)\<lparr>up_found := True\<rparr>], quorum - 1)
              else (int i, us, quorum)
         else (-1, us, quorum))"

definition ballot_grant_hint :: "peer_id \<Rightarrow> pos_hint \<Rightarrow> ballot \<Rightarrow> pos_hint \<times> ballot" where
  "ballot_grant_hint p hint b =
     (let (h0, us, q) = grant_in p (pos0 hint) (b_peers b) (b_quorum b);
          b1 = b\<lparr>b_peers := us, b_quorum := q\<rparr>
      in if b_old_peers b1 = [] then (\<lparr>pos0 = h0, pos1 = -1\<rparr>, b1)
         else (let (h1, ous, oq) = grant_in p (pos1 hint) (b_old_peers b1) (b_old_quorum b1)
               in (\<lparr>pos0 = h0, pos1 = h1\<rparr>, b1\<lparr>b_old_peers := ous, b_old_quorum := oq\<rparr>)))"

definition ballot_grant :: "peer_id \<Rightarrow> ballot \<Rightarrow> ballot" where
  "ballot_grant p b = snd (ballot_grant_hint p no_hint b)"

definition ballot_granted :: "ballot \<Rightarrow> bool" where
  "ballot_granted b \<longleftrightarrow> b_quorum b \<le> 0 \<and> b_old_quorum b \<le> 0"

text \<open>A sequence of grants, each with the hint the caller passes.\<close>

fun grant_all :: "(peer_id \<times> pos_hint) list \<Rightarrow> ballot \<Rightarrow> ballot" where
  "grant_all [] b = b"
| "grant_all ((p, h) # ps) b = grant_all ps (snd (ballot_grant_hint p h b))"

subsection \<open>Quorums\<close>

locale quorum_system =
  fixes is_quorum :: "'a set \<Rightarrow> bool"
  assumes quorum_meet: "is_quorum A \<Longrightarrow> is_quorum B \<Longrightarrow> A \<inter> B \<noteq> {}"
    and quorum_mono: "is_quorum A \<Longrightarrow> A \<subseteq> B \<Longrightarrow> is_quorum B"
begin

lemma quorum_nonempty: "is_quorum A \<Longrightarrow> A \<noteq> {}"
  using quorum_meet by blast

lemma common_voter:
  assumes "is_quorum A" and "is_quorum B"
  obtains v where "v \<in> A" and "v \<in> B"
  using quorum_meet [OF assms] by blast

text \<open>If every voter of a quorum chose one value, no quorum chose only another.\<close>

lemma quorum_choice:
  assumes "is_quorum A" and "is_quorum B"
    and "\<And>v. v \<in> A \<Longrightarrow> chose v = x" and "\<And>v. v \<in> B \<Longrightarrow> chose v = y"
  shows "x = y"
  using common_voter [OF assms(1,2)] assms(3,4) by metis

end

definition conf_majority :: "conf \<Rightarrow> peer_key set \<Rightarrow> bool" where
  "conf_majority c A \<longleftrightarrow> card (conf_keys c) < 2 * card (A \<inter> conf_keys c)"

definition joint_quorum :: "conf \<Rightarrow> conf option \<Rightarrow> peer_key set \<Rightarrow> bool" where
  "joint_quorum c old_conf A \<longleftrightarrow>
     conf_majority c A \<and> (case old_conf of None \<Rightarrow> True | Some oc \<Rightarrow> conf_majority oc A)"

lemma overlap_by_count:
  assumes "finite U" and "A \<subseteq> U" and "B \<subseteq> U" and "card U < card A + card B"
  shows "A \<inter> B \<noteq> {}"
proof
  assume "A \<inter> B = {}"
  with assms(1-3) have "card (A \<union> B) = card A + card B"
    by (meson card_Un_disjoint finite_subset)
  moreover have "card (A \<union> B) \<le> card U"
    using assms(1-3) by (simp add: card_mono)
  ultimately show False using assms(4) by simp
qed

lemma majorities_meet:
  assumes "conf_majority c A" and "conf_majority c B"
  shows "A \<inter> B \<noteq> {}"
proof -
  have "(A \<inter> conf_keys c) \<inter> (B \<inter> conf_keys c) \<noteq> {}"
    by (rule overlap_by_count [of "conf_keys c"])
      (use assms in \<open>auto simp: conf_majority_def\<close>)
  then show ?thesis by blast
qed

lemma majority_mono: "conf_majority c A \<Longrightarrow> A \<subseteq> B \<Longrightarrow> conf_majority c B"
proof -
  assume A: "conf_majority c A" "A \<subseteq> B"
  then have "card (A \<inter> conf_keys c) \<le> card (B \<inter> conf_keys c)"
    by (intro card_mono) auto
  with A(1) show ?thesis by (simp add: conf_majority_def)
qed

interpretation maj: quorum_system "conf_majority c" for c
  by unfold_locales (rule majorities_meet, assumption+, erule majority_mono, assumption)

interpretation jq: quorum_system "joint_quorum c old_conf" for c old_conf
proof unfold_locales
  fix A B
  assume "joint_quorum c old_conf A" "joint_quorum c old_conf B"
  then show "A \<inter> B \<noteq> {}" by (auto simp: joint_quorum_def dest: majorities_meet)
next
  fix A B
  assume "joint_quorum c old_conf A" "A \<subseteq> B"
  then show "joint_quorum c old_conf B"
    by (auto simp: joint_quorum_def split: option.splits intro: majority_mono)
qed

subsection \<open>What a ballot counts\<close>

lemma find_index_le: "find_index p us \<le> length us"
  by (induction us) auto

lemma find_index_found:
  "find_index p us < length us \<Longrightarrow> peer_eq (up_peer (us ! find_index p us)) p"
  by (induction us) auto

lemma find_index_end: "find_index p us = length us \<longleftrightarrow> (\<forall>u \<in> set us. \<not> peer_eq (up_peer u) p)"
  using find_index_le by (induction us) (auto simp: le_Suc_eq)

text \<open>Whatever the hint, \<open>find_peer\<close> returns a position of that peer, or the end if there is none.\<close>

lemma find_peer_spec:
  "find_peer p us h = length us \<and> (\<forall>u \<in> set us. \<not> peer_eq (up_peer u) p)
   \<or> find_peer p us h < length us \<and> peer_eq (up_peer (us ! find_peer p us h)) p"
proof (cases "h < 0 \<or> int (length us) \<le> h \<or> \<not> peer_eq (up_peer (us ! nat h)) p")
  case True
  then have "find_peer p us h = find_index p us" by (simp add: find_peer_def)
  then show ?thesis
    using find_index_le [of p us] find_index_found [of p us] find_index_end [of p us]
    by (metis le_neq_implies_less)
next
  case False
  then show ?thesis by (auto simp: find_peer_def)
qed

text \<open>The state of one half of a ballot after the voters in \<open>S\<close> granted it.\<close>

definition voted :: "conf \<Rightarrow> peer_key set \<Rightarrow> unfound_peer list" where
  "voted c S = map (\<lambda>p. \<lparr>up_peer = p, up_found = (pkey p \<in> S)\<rparr>) c"

definition missing :: "conf \<Rightarrow> peer_key set \<Rightarrow> int" where
  "missing c S = int (length c) div 2 + 1 - int (card (S \<inter> conf_keys c))"

lemma voted_length [simp]: "length (voted c S) = length c"
  by (simp add: voted_def)

lemma voted_insert_other: "pkey p \<notin> conf_keys c \<Longrightarrow> voted c (insert (pkey p) S) = voted c S"
  by (auto simp: voted_def conf_keys_def) (metis image_eqI)

lemma grant_in_voted:
  assumes wf: "conf_wf c"
  shows "\<exists>h'. grant_in p h (voted c S) (missing c S)
              = (h', voted c (insert (pkey p) S), missing c (insert (pkey p) S))"
proof -
  let ?i = "find_peer p (voted c S) h"
  from find_peer_spec [of p "voted c S" h] consider
    (none) "?i = length c" "\<forall>q \<in> set c. pkey q \<noteq> pkey p"
    | (some) "?i < length c" "pkey (c ! ?i) = pkey p"
    by (auto simp: voted_def peer_eq_key)
  then show ?thesis
  proof cases
    case none
    then have "pkey p \<notin> conf_keys c" by (auto simp: conf_keys_def)
    with none show ?thesis
      by (auto simp: grant_in_def missing_def voted_insert_other)
  next
    case some
    then have mem: "pkey p \<in> conf_keys c"
      by (metis conf_keys_def image_eqI nth_mem)
    show ?thesis
    proof (cases "pkey p \<in> S")
      case True
      with some have "up_found (voted c S ! ?i)" by (simp add: voted_def)
      with some True show ?thesis
        by (simp add: grant_in_def insert_absorb)
    next
      case False
      with some have nf: "\<not> up_found (voted c S ! ?i)" by (simp add: voted_def)
      have "(voted c S)[?i := (voted c S ! ?i)\<lparr>up_found := True\<rparr>] = voted c (insert (pkey p) S)"
      proof (rule nth_equalityI)
        fix j assume j: "j < length ((voted c S)[?i := (voted c S ! ?i)\<lparr>up_found := True\<rparr>])"
        have "pkey (c ! j) = pkey p \<longleftrightarrow> j = ?i"
          using wf some j ksorted_distinct [of pkey c]
          by (metis conf_wf_def length_list_update length_map nth_eq_iff_index_eq nth_map voted_length)
        with j some show "(voted c S)[?i := (voted c S ! ?i)\<lparr>up_found := True\<rparr>] ! j
                          = voted c (insert (pkey p) S) ! j"
          by (cases "j = ?i") (simp_all add: voted_def)
      qed simp
      moreover have "missing c (insert (pkey p) S) = missing c S - 1"
        using mem False by (simp add: missing_def Int_insert_left)
      ultimately show ?thesis
        using some nf by (simp add: grant_in_def)
    qed
  qed
qed

definition ballot_after :: "conf \<Rightarrow> conf option \<Rightarrow> peer_key set \<Rightarrow> ballot" where
  "ballot_after c old_conf S =
     \<lparr>b_peers = voted c S, b_quorum = missing c S,
      b_old_peers = (case old_conf of None \<Rightarrow> [] | Some oc \<Rightarrow> voted oc S),
      b_old_quorum = (case old_conf of None \<Rightarrow> 0 | Some oc \<Rightarrow> missing oc S)\<rparr>"

lemma ballot_init_after: "ballot_init c old_conf = ballot_after c old_conf {}"
  by (auto simp: ballot_init_def ballot_after_def voted_def missing_def unfound_def
      split: option.splits)

definition confs_wf :: "conf \<Rightarrow> conf option \<Rightarrow> bool" where
  "confs_wf c old_conf \<longleftrightarrow>
     conf_wf c \<and> (case old_conf of None \<Rightarrow> True | Some oc \<Rightarrow> conf_wf oc)"

lemma ballot_grant_after:
  assumes "confs_wf c old_conf"
  shows "snd (ballot_grant_hint p h (ballot_after c old_conf S))
         = ballot_after c old_conf (insert (pkey p) S)"
proof -
  from assms have wf: "conf_wf c" and owf: "\<And>oc. old_conf = Some oc \<Longrightarrow> conf_wf oc"
    by (auto simp: confs_wf_def)
  obtain h0 where g0: "grant_in p (pos0 h) (voted c S) (missing c S)
      = (h0, voted c (insert (pkey p) S), missing c (insert (pkey p) S))"
    using grant_in_voted [OF wf] by blast
  show ?thesis
  proof (cases old_conf)
    case None
    then show ?thesis by (simp add: ballot_grant_hint_def ballot_after_def g0)
  next
    case (Some oc)
    obtain h1 where "grant_in p (pos1 h) (voted oc S) (missing oc S)
      = (h1, voted oc (insert (pkey p) S), missing oc (insert (pkey p) S))"
      using grant_in_voted [OF owf [OF Some]] by blast
    moreover have "voted oc S = [] \<longleftrightarrow> oc = []"
      by (simp add: voted_def)
    moreover have "oc = [] \<Longrightarrow> voted oc (insert (pkey p) S) = []
        \<and> missing oc (insert (pkey p) S) = missing oc S"
      by (simp add: voted_def missing_def)
    ultimately show ?thesis
      using Some by (cases "oc = []") (auto simp: ballot_grant_hint_def ballot_after_def g0)
  qed
qed

lemma grant_all_after:
  "confs_wf c old_conf \<Longrightarrow>
   grant_all ps (ballot_after c old_conf S) = ballot_after c old_conf (S \<union> pkey ` fst ` set ps)"
  by (induction ps arbitrary: S) (auto simp: ballot_grant_after insert_commute)

lemma missing_majority: "conf_wf c \<Longrightarrow> missing c S \<le> 0 \<longleftrightarrow> conf_majority c S"
  by (simp add: missing_def conf_majority_def card_conf_keys) arith

lemma ballot_after_granted [quorum_simps]:
  "confs_wf c old_conf \<Longrightarrow>
   ballot_granted (ballot_after c old_conf S) \<longleftrightarrow> joint_quorum c old_conf S"
  by (auto simp: ballot_granted_def ballot_after_def joint_quorum_def confs_wf_def missing_majority
      split: option.splits)

lemma ballot_grants:
  "confs_wf c old_conf \<Longrightarrow>
   ballot_granted (grant_all ps (ballot_init c old_conf)) \<longleftrightarrow> joint_quorum c old_conf (pkey ` fst ` set ps)"
  by (simp add: ballot_init_after grant_all_after ballot_after_granted)

subsection \<open>Overlap across a configuration change\<close>

text \<open>
  Adding or removing a single peer may skip the joint stage: any majority before meets any
  majority after.
\<close>

lemma single_change_meet:
  assumes k: "conf_keys d = insert k (conf_keys c)" "k \<notin> conf_keys c"
    and A: "conf_majority c A" and B: "conf_majority d B"
  shows "A \<inter> B \<noteq> {}"
proof -
  have "card (conf_keys d) = Suc (card (conf_keys c))"
    using k by simp
  then have "card (conf_keys d) < card (A \<inter> conf_keys c) + card (B \<inter> conf_keys d)"
    using A B unfolding conf_majority_def by linarith
  then have "(A \<inter> conf_keys c) \<inter> (B \<inter> conf_keys d) \<noteq> {}"
    using k by (intro overlap_by_count [of "conf_keys d"]) auto
  then show ?thesis by blast
qed

lemma joint_meets_both:
  assumes "joint_quorum c (Some oc) A"
  shows "conf_majority c B \<Longrightarrow> A \<inter> B \<noteq> {}" and "conf_majority oc B \<Longrightarrow> A \<inter> B \<noteq> {}"
  using assms by (auto simp: joint_quorum_def dest: majorities_meet)

subsection \<open>Properties\<close>

lemma confs_wf_sample:
  "confs_wf [sample_peer 1, sample_peer 2] (Some [sample_peer 2, sample_peer 3])"
  by (simp add: confs_wf_def conf_wf_sample)

text \<open>
  C25 (functional): whatever position hints the callers pass, and whatever order, repetition or strangers
  the grants have, a ballot is granted exactly when the peers that granted it are a majority of the
  configuration and, while it is joint, of the old one too.
\<close>

theorem ballot_counts_quorums:
  assumes "confs_wf c old_conf"
  shows "ballot_granted (grant_all ps (ballot_init c old_conf))
           \<longleftrightarrow> joint_quorum c old_conf (pkey ` fst ` set ps)"
  using assms by (rule ballot_grants)

theorem ballot_counts_quorums_witness:
  "\<not> ballot_granted (grant_all [(sample_peer 2, no_hint), (sample_peer 1, \<lparr>pos0 = 7, pos1 = 1\<rparr>)]
       (ballot_init [sample_peer 1, sample_peer 2] (Some [sample_peer 2, sample_peer 3])))"
  by (simp add: ballot_counts_quorums [OF confs_wf_sample] joint_quorum_def conf_majority_def
      del: grant_all.simps)

text \<open>
  C26 (safety): two granted ballots share a voter: two ballots of one configuration, stable or joint, a
  ballot of the joint configuration and one of the old configuration alone or of the new one alone, and
  ballots of two stable configurations that differ by one added peer. Stable configurations that differ
  by more may have disjoint majorities; the joint stage lies between those.
\<close>

theorem granted_ballots_meet:
  assumes "confs_wf c old_conf" and "confs_wf d old_conf'"
    and "d = c \<and> old_conf' = old_conf
       \<or> old_conf = Some oc \<and> old_conf' = None \<and> (d = c \<or> d = oc)
       \<or> old_conf = None \<and> old_conf' = None \<and> k \<notin> conf_keys c \<and> conf_keys d = insert k (conf_keys c)"
    and "ballot_granted (grant_all ps (ballot_init c old_conf))"
    and "ballot_granted (grant_all qs (ballot_init d old_conf'))"
  shows "\<exists>v. v \<in> pkey ` fst ` set ps \<and> v \<in> pkey ` fst ` set qs"
proof -
  have A: "joint_quorum c old_conf (pkey ` fst ` set ps)"
    and B: "joint_quorum d old_conf' (pkey ` fst ` set qs)"
    using assms(4,5) ballot_grants [OF assms(1)] ballot_grants [OF assms(2)] by blast+
  from assms(3) have "pkey ` fst ` set ps \<inter> pkey ` fst ` set qs \<noteq> {}"
  proof (elim disjE conjE)
    assume "d = c" "old_conf' = old_conf"
    with A B show ?thesis by (auto dest: jq.quorum_meet)
  next
    assume "old_conf = Some oc" "old_conf' = None" "d = c"
    with A B show ?thesis by (intro joint_meets_both(1)) (auto simp: joint_quorum_def)
  next
    assume "old_conf = Some oc" "old_conf' = None" "d = oc"
    with A B show ?thesis by (intro joint_meets_both(2)) (auto simp: joint_quorum_def)
  next
    assume "old_conf = None" "old_conf' = None" "k \<notin> conf_keys c" "conf_keys d = insert k (conf_keys c)"
    with A B show ?thesis by (intro single_change_meet) (auto simp: joint_quorum_def)
  qed
  then show ?thesis by blast
qed

theorem granted_ballots_meet_witness:
  "(\<exists>v. v \<in> pkey ` fst ` set [(sample_peer 1, no_hint), (sample_peer 2, no_hint)]
      \<and> v \<in> pkey ` fst ` set [(sample_peer 2, no_hint), (sample_peer 1, no_hint)])
   \<and> (\<exists>v. v \<in> pkey ` fst ` set [(sample_peer 1, no_hint), (sample_peer 2, no_hint), (sample_peer 3, no_hint)]
      \<and> v \<in> pkey ` fst ` set [(sample_peer 1, no_hint), (sample_peer 2, no_hint)])"
proof (rule conjI)
  have wf: "confs_wf [sample_peer 1, sample_peer 2] None"
    by (simp add: confs_wf_def conf_wf_sample)
  show "\<exists>v. v \<in> pkey ` fst ` set [(sample_peer 1, no_hint), (sample_peer 2, no_hint)]
      \<and> v \<in> pkey ` fst ` set [(sample_peer 2, no_hint), (sample_peer 1, no_hint)]"
    by (rule granted_ballots_meet [OF wf wf])
      (simp_all add: ballot_grants wf joint_quorum_def conf_majority_def del: grant_all.simps)
  show "\<exists>v. v \<in> pkey ` fst ` set [(sample_peer 1, no_hint), (sample_peer 2, no_hint), (sample_peer 3, no_hint)]
      \<and> v \<in> pkey ` fst ` set [(sample_peer 1, no_hint), (sample_peer 2, no_hint)]"
    by (rule granted_ballots_meet [OF confs_wf_sample wf])
      (simp_all add: ballot_grants wf confs_wf_sample joint_quorum_def conf_majority_def del: grant_all.simps)
qed

end
