(* ===== verification/ClosureQueue.thy ===== *)
theory ClosureQueue
  imports RaftTypes
begin

section \<open>Closure queue (closure_queue.h, closure_queue.cpp)\<close>

text \<open>
  The closures of the tasks a leader has appended and not yet applied, in log order; the closure
  at position \<open>k\<close> belongs to the log index \<open>cq_first_index + k\<close>. A task without a
  closure is \<open>None\<close> (the null pointer). Running a closure is not done here: an operation
  returns the closures it hands to a new thread, with the status it set.
\<close>

record 'c closure_queue =
  cq_first_index :: int
  cq_queue :: "'c option list"

definition closure_queue_new :: "'c closure_queue" where
  "closure_queue_new = \<lparr>cq_first_index = 0, cq_queue = []\<rparr>"

fun run_all_with :: "status \<Rightarrow> 'c option list \<Rightarrow> ('c \<times> status) list" where
  "run_all_with st [] = []"
| "run_all_with st (None # cs) = run_all_with st cs"
| "run_all_with st (Some c # cs) = (c, st) # run_all_with st cs"

definition cq_clear :: "'c closure_queue \<Rightarrow> ('c \<times> status) list \<times> 'c closure_queue" where
  "cq_clear q = (run_all_with (StatusErr EPERM) (cq_queue q),
                 q\<lparr>cq_queue := [], cq_first_index := 0\<rparr>)"

definition cq_reset_first_index :: "int \<Rightarrow> 'c closure_queue \<Rightarrow> 'c closure_queue" where
  "cq_reset_first_index first_index q = q\<lparr>cq_first_index := first_index\<rparr>"

definition cq_append_pending_closure :: "'c option \<Rightarrow> 'c closure_queue \<Rightarrow> 'c closure_queue" where
  "cq_append_pending_closure c q = q\<lparr>cq_queue := cq_queue q @ [c]\<rparr>"

text \<open>
  \<open>pop_closure_until\<close> returns its code, the popped closures, what it stored through
  \<open>out_first_index\<close> (\<open>None\<close> when it returns before storing) and the queue.
\<close>

fun pop_front_n :: "nat \<Rightarrow> 'a list \<Rightarrow> 'a list \<times> 'a list" where
  "pop_front_n 0 xs = ([], xs)"
| "pop_front_n (Suc n) [] = ([], [])"
| "pop_front_n (Suc n) (x # xs) = (case pop_front_n n xs of (out, r) \<Rightarrow> (x # out, r))"

definition cq_pop_closure_until ::
  "int \<Rightarrow> 'c closure_queue \<Rightarrow> rc \<times> 'c option list \<times> int option \<times> 'c closure_queue" where
  "cq_pop_closure_until index q =
     (if cq_queue q = [] \<or> index < cq_first_index q then (RcOk, [], Some (index + 1), q)
      else if index > cq_first_index q + int (length (cq_queue q)) - 1 then (RcFail, [], None, q)
      else (case pop_front_n (nat (index - cq_first_index q + 1)) (cq_queue q) of
              (out, r) \<Rightarrow>
                (RcOk, out, Some (cq_first_index q), q\<lparr>cq_queue := r, cq_first_index := index + 1\<rparr>)))"

lemma pop_front_n_take: "pop_front_n n xs = (take n xs, drop n xs)"
  by (induction n xs rule: pop_front_n.induct) auto

lemma run_all_with_map: "run_all_with st cs = map (\<lambda>c. (the c, st)) (filter (\<lambda>c. c \<noteq> None) cs)"
  by (induction st cs rule: run_all_with.induct) auto

text \<open>The closure of a log index, if the queue still holds it.\<close>

definition cq_closure_at :: "'c closure_queue \<Rightarrow> int \<Rightarrow> 'c option option" where
  "cq_closure_at q i =
     (if cq_first_index q \<le> i \<and> i < cq_first_index q + int (length (cq_queue q))
      then Some (cq_queue q ! nat (i - cq_first_index q)) else None)"

lemma cq_pop_in_range:
  assumes "cq_first_index q \<le> index" and "index < cq_first_index q + int (length (cq_queue q))"
  shows "\<exists>out q'. cq_pop_closure_until index q = (RcOk, out, Some (cq_first_index q), q')
      \<and> cq_first_index q' = index + 1
      \<and> int (length out) = index + 1 - cq_first_index q
      \<and> cq_queue q = out @ cq_queue q'"
proof -
  let ?n = "nat (index - cq_first_index q + 1)"
  from assms have "cq_queue q \<noteq> []" by auto
  with assms have "cq_pop_closure_until index q =
      (RcOk, take ?n (cq_queue q), Some (cq_first_index q),
       q\<lparr>cq_queue := drop ?n (cq_queue q), cq_first_index := index + 1\<rparr>)"
    by (simp add: cq_pop_closure_until_def pop_front_n_take)
  moreover have "int (length (take ?n (cq_queue q))) = index + 1 - cq_first_index q"
    using assms by (auto simp: min_def)
  ultimately show ?thesis by auto
qed

lemma cq_closure_at_pop:
  assumes pop: "cq_pop_closure_until index q = (RcOk, out, Some f, q')" and i: "index < i"
  shows "cq_closure_at q' i = cq_closure_at q i"
proof (cases "cq_queue q = [] \<or> index < cq_first_index q")
  case True
  with pop show ?thesis by (auto simp: cq_pop_closure_until_def)
next
  case False
  with pop have r: "index < cq_first_index q + int (length (cq_queue q))"
    by (auto simp: cq_pop_closure_until_def split: if_splits)
  from False have "cq_first_index q \<le> index" by simp
  then obtain out' q'' where *: "cq_pop_closure_until index q = (RcOk, out', Some (cq_first_index q), q'')"
    "cq_first_index q'' = index + 1" "int (length out') = index + 1 - cq_first_index q"
    "cq_queue q = out' @ cq_queue q''"
    using cq_pop_in_range [OF _ r] by blast
  with pop have q': "q'' = q'" by simp
  have "nat (i - cq_first_index q) = length out' + nat (i - (index + 1))"
    using * i by linarith
  then have "cq_queue q ! nat (i - cq_first_index q) = cq_queue q' ! nat (i - (index + 1))"
    using * q' by (simp add: nth_append)
  moreover have "int (length (cq_queue q)) = int (length out') + int (length (cq_queue q'))"
    using * q' by simp
  ultimately show ?thesis
    using * q' i \<open>cq_first_index q \<le> index\<close> by (auto simp: cq_closure_at_def)
qed

end
