(* ===== verification/BallotBox.thy ===== *)
theory BallotBox
  imports Ballot ClosureQueue
begin

section \<open>Ballot box: which entries are committed (ballot_box.h, ballot_box.cpp)\<close>

text \<open>
  The leader keeps one ballot per uncommitted entry, the first for \<open>bb_pending_index\<close>; a
  pending index of 0 means the node is not a leader. \<open>bb_closures\<close> is the closure queue the
  box was given. Operations return their code, the new box, the indexes passed to
  \<open>FSMCaller::on_committed\<close>, and (where they fail tasks) the closures run.
\<close>

record 'c ballot_box =
  bb_last_committed :: int
  bb_pending_index :: int
  bb_queue :: "ballot list"
  bb_closures :: "'c closure_queue"

definition ballot_box_new :: "'c ballot_box" where
  "ballot_box_new = \<lparr>bb_last_committed = 0, bb_pending_index = 0, bb_queue = [],
                     bb_closures = closure_queue_new\<rparr>"

subsection \<open>Operations\<close>

text \<open>
  The loop of \<open>commit_at\<close>: \<open>n\<close> is the number of indexes left from \<open>i\<close> to the last;
  it returns the queue and the last index whose ballot is now granted (0 for none).
\<close>

fun commit_loop ::
  "nat \<Rightarrow> int \<Rightarrow> peer_id \<Rightarrow> pos_hint \<Rightarrow> int \<Rightarrow> ballot list \<Rightarrow> int \<Rightarrow> ballot list \<times> int" where
  "commit_loop 0 i peer hint pending q lc = (q, lc)"
| "commit_loop (Suc n) i peer hint pending q lc =
     (let k = nat (i - pending);
          (hint', bl) = ballot_grant_hint peer hint (q ! k)
      in commit_loop n (i + 1) peer hint' pending (q[k := bl])
           (if ballot_granted bl then i else lc))"

definition commit_at ::
  "int \<Rightarrow> int \<Rightarrow> peer_id \<Rightarrow> 'c ballot_box \<Rightarrow> rc \<times> 'c ballot_box \<times> int list" where
  "commit_at first_log_index last_log_index peer bb =
     (if bb_pending_index bb = 0 then (RcErr EINVAL, bb, [])
      else if last_log_index < bb_pending_index bb then (RcOk, bb, [])
      else if last_log_index \<ge> bb_pending_index bb + int (length (bb_queue bb))
           then (RcErr ERANGE, bb, [])
      else
        (let start_at = max (bb_pending_index bb) first_log_index;
             (q, lc) = commit_loop (nat (last_log_index - start_at + 1)) start_at peer no_hint
                         (bb_pending_index bb) (bb_queue bb) 0;
             bb1 = bb\<lparr>bb_queue := q\<rparr>
         in if lc = 0 then (RcOk, bb1, [])
            else (RcOk,
                  bb1\<lparr>bb_queue := drop (nat (lc - bb_pending_index bb + 1)) q,
                      bb_pending_index := lc + 1, bb_last_committed := lc\<rparr>,
                  [lc])))"

definition clear_pending_tasks :: "'c ballot_box \<Rightarrow> 'c ballot_box \<times> ('c \<times> status) list" where
  "clear_pending_tasks bb =
     (case cq_clear (bb_closures bb) of
        (run, cq) \<Rightarrow> (bb\<lparr>bb_queue := [], bb_pending_index := 0, bb_closures := cq\<rparr>, run))"

definition reset_pending_index :: "int \<Rightarrow> 'c ballot_box \<Rightarrow> 'c ballot_box" where
  "reset_pending_index new_pending_index bb =
     bb\<lparr>bb_pending_index := new_pending_index,
        bb_closures := cq_reset_first_index new_pending_index (bb_closures bb)\<rparr>"

definition append_pending_task ::
  "conf \<Rightarrow> conf option \<Rightarrow> 'c option \<Rightarrow> 'c ballot_box \<Rightarrow> 'c ballot_box" where
  "append_pending_task c old_conf closure bb =
     bb\<lparr>bb_queue := bb_queue bb @ [ballot_init c old_conf],
        bb_closures := cq_append_pending_closure closure (bb_closures bb)\<rparr>"

definition set_last_committed_index ::
  "int \<Rightarrow> 'c ballot_box \<Rightarrow> rc \<times> 'c ballot_box \<times> int list" where
  "set_last_committed_index last_committed_index bb =
     (if bb_pending_index bb \<noteq> 0 \<or> bb_queue bb \<noteq> [] then (RcFail, bb, [])
      else if last_committed_index < bb_last_committed bb then (RcErr EINVAL, bb, [])
      else if last_committed_index > bb_last_committed bb
           then (RcOk, bb\<lparr>bb_last_committed := last_committed_index\<rparr>, [last_committed_index])
      else (RcOk, bb, []))"

record ballot_box_status =
  bs_committed_index :: int
  bs_pending_index :: int
  bs_pending_queue_size :: int

definition bb_get_status :: "'c ballot_box \<Rightarrow> ballot_box_status" where
  "bb_get_status bb =
     (if bb_queue bb \<noteq> []
      then \<lparr>bs_committed_index = bb_last_committed bb, bs_pending_index = bb_pending_index bb,
            bs_pending_queue_size = int (length (bb_queue bb))\<rparr>
      else \<lparr>bs_committed_index = bb_last_committed bb, bs_pending_index = 0,
            bs_pending_queue_size = 0\<rparr>)"

text \<open>The FSM caller pops, from the same queue, the closures of the entries it applies.\<close>

definition bb_pop_closures ::
  "int \<Rightarrow> 'c ballot_box \<Rightarrow> rc \<times> 'c option list \<times> int option \<times> 'c ballot_box" where
  "bb_pop_closures index bb =
     (case cq_pop_closure_until index (bb_closures bb) of
        (r, out, first, cq) \<Rightarrow> (r, out, first, bb\<lparr>bb_closures := cq\<rparr>))"

subsection \<open>The abstract ballot box: the voters of each pending entry\<close>

record vote =
  v_conf :: conf
  v_old :: "conf option"
  v_voters :: "peer_key set"

definition vote_wf :: "vote \<Rightarrow> bool" where
  "vote_wf v \<longleftrightarrow> confs_wf (v_conf v) (v_old v)"

definition vote_ballot :: "vote \<Rightarrow> ballot" where
  "vote_ballot v = ballot_after (v_conf v) (v_old v) (v_voters v)"

definition add_voter :: "peer_key \<Rightarrow> vote \<Rightarrow> vote" where
  "add_voter k v = v\<lparr>v_voters := insert k (v_voters v)\<rparr>"

definition vote_won :: "vote \<Rightarrow> bool" where
  "vote_won v \<longleftrightarrow> joint_quorum (v_conf v) (v_old v) (v_voters v)"

text \<open>\<open>bb_votes bb vs\<close>: the ballots of the box count exactly the votes \<open>vs\<close>.\<close>

definition bb_votes :: "'c ballot_box \<Rightarrow> vote list \<Rightarrow> bool" where
  "bb_votes bb vs \<longleftrightarrow> bb_queue bb = map vote_ballot vs \<and> (\<forall>v \<in> set vs. vote_wf v)"

fun last_won :: "int \<Rightarrow> vote list \<Rightarrow> int \<Rightarrow> int" where
  "last_won i [] lc = lc"
| "last_won i (v # vs) lc = last_won (i + 1) vs (if vote_won v then i else lc)"

lemma vote_ballot_grant:
  "vote_wf v \<Longrightarrow> snd (ballot_grant_hint p h (vote_ballot v)) = vote_ballot (add_voter (pkey p) v)"
  by (simp add: vote_wf_def vote_ballot_def add_voter_def ballot_grant_after)

lemma vote_ballot_granted: "vote_wf v \<Longrightarrow> ballot_granted (vote_ballot v) \<longleftrightarrow> vote_won v"
  by (simp add: vote_wf_def vote_ballot_def vote_won_def ballot_after_granted)

lemma vote_wf_add [simp]: "vote_wf (add_voter k v) = vote_wf v"
  by (simp add: vote_wf_def add_voter_def)

lemma commit_loop_votes:
  assumes "\<forall>v \<in> set vs. vote_wf v" and "int (length pre) = i - pending"
  shows "commit_loop (length vs) i p h pending (pre @ map vote_ballot vs @ post) lc
       = (pre @ map vote_ballot (map (add_voter (pkey p)) vs) @ post,
          last_won i (map (add_voter (pkey p)) vs) lc)"
  using assms
proof (induction vs arbitrary: pre i h lc)
  case Nil
  then show ?case by simp
next
  case (Cons v vs)
  let ?w = "add_voter (pkey p) v"
  obtain h' where g: "ballot_grant_hint p h (vote_ballot v) = (h', vote_ballot ?w)"
    using vote_ballot_grant [of v p h] Cons.prems(1) by (metis list.set_intros(1) prod.collapse)
  have k: "nat (i - pending) = length pre"
    using Cons.prems(2) by linarith
  have IH: "commit_loop (length vs) (i + 1) p h' pending
          ((pre @ [vote_ballot ?w]) @ map vote_ballot vs @ post) (if vote_won ?w then i else lc)
      = ((pre @ [vote_ballot ?w]) @ map vote_ballot (map (add_voter (pkey p)) vs) @ post,
         last_won (i + 1) (map (add_voter (pkey p)) vs) (if vote_won ?w then i else lc))"
    using Cons.prems by (intro Cons.IH) auto
  moreover have "ballot_granted (vote_ballot ?w) = vote_won ?w"
    using Cons.prems(1) by (simp add: vote_ballot_granted)
  ultimately show ?case
    by (simp add: k g nth_append)
qed

lemma last_won_none: "\<forall>v \<in> set vs. \<not> vote_won v \<Longrightarrow> last_won i vs lc = lc"
  by (induction vs arbitrary: i) auto

lemma last_won_some:
  assumes "\<exists>v \<in> set vs. vote_won v"
  shows "\<exists>k < length vs. last_won i vs lc = i + int k \<and> vote_won (vs ! k)
           \<and> (\<forall>j < length vs. k < j \<longrightarrow> \<not> vote_won (vs ! j))"
  using assms
proof (induction vs arbitrary: i lc)
  case Nil
  then show ?case by simp
next
  case (Cons v vs)
  show ?case
  proof (cases "\<exists>v \<in> set vs. vote_won v")
    case True
    then obtain k where "k < length vs" "last_won (i + 1) vs (if vote_won v then i else lc) = i + 1 + int k"
      "vote_won (vs ! k)" "\<forall>j < length vs. k < j \<longrightarrow> \<not> vote_won (vs ! j)"
      using Cons.IH by blast
    then show ?thesis
      by (intro exI [of _ "Suc k"]) (auto simp: nth_Cons split: nat.splits)
  next
    case False
    with Cons.prems have "vote_won v" by auto
    with False show ?thesis
      by (intro exI [of _ 0]) (auto simp: last_won_none nth_Cons split: nat.splits)
  qed
qed

subsection \<open>commit_at refines the abstract vote\<close>

definition grant_votes :: "nat \<Rightarrow> nat \<Rightarrow> peer_key \<Rightarrow> vote list \<Rightarrow> vote list" where
  "grant_votes d n k vs = take d vs @ map (add_voter k) (take n (drop d vs)) @ drop (d + n) vs"

lemma grant_votes_length [simp]: "length (grant_votes d n k vs) = length vs"
  by (simp add: grant_votes_def min_def)

lemma grant_votes_wf: "\<forall>v \<in> set vs. vote_wf v \<Longrightarrow> \<forall>v \<in> set (grant_votes d n k vs). vote_wf v"
  by (auto simp: grant_votes_def) (meson in_set_takeD in_set_dropD)+

lemma grant_votes_nth:
  assumes "d + n \<le> length vs" and "j < n"
  shows "grant_votes d n k vs ! (d + j) = map (add_voter k) (take n (drop d vs)) ! j"
  using assms by (simp add: grant_votes_def nth_append min_def)

lemma commit_loop_range:
  assumes vs: "bb_votes bb vs" and dn: "d + n \<le> length vs" and i: "int d = i - pending"
  shows "commit_loop n i p h pending (bb_queue bb) lc
       = (map vote_ballot (grant_votes d n (pkey p) vs),
          last_won i (map (add_voter (pkey p)) (take n (drop d vs))) lc)"
proof -
  let ?mid = "take n (drop d vs)"
  have q: "bb_queue bb = map vote_ballot (take d vs) @ map vote_ballot ?mid @ map vote_ballot (drop (d + n) vs)"
    using vs by (metis append_take_drop_id bb_votes_def drop_drop map_append add.commute)
  have "\<forall>v \<in> set ?mid. vote_wf v"
    using vs by (auto simp: bb_votes_def dest!: in_set_takeD in_set_dropD)
  moreover have "length ?mid = n" "int (length (map vote_ballot (take d vs))) = i - pending"
    using dn i by auto
  ultimately show ?thesis
    using commit_loop_votes [of ?mid "map vote_ballot (take d vs)" i pending p h
        "map vote_ballot (drop (d + n) vs)" lc]
    by (simp add: q grant_votes_def)
qed

text \<open>
  \<open>commit_outcome\<close> is the specification: among the indexes the peer has just acknowledged,
  the last one whose vote is won is committed, with everything before it.
\<close>

definition commit_outcome ::
  "int \<Rightarrow> int \<Rightarrow> int \<Rightarrow> vote list \<Rightarrow> 'c ballot_box \<Rightarrow> 'c ballot_box \<Rightarrow> int list \<Rightarrow> bool" where
  "commit_outcome pending start_at last_log_index ws bb bb' out \<longleftrightarrow>
     bb_closures bb' = bb_closures bb \<and>
     ((\<exists>lc. out = [lc] \<and> start_at \<le> lc \<and> lc \<le> last_log_index
         \<and> vote_won (ws ! nat (lc - pending))
         \<and> (\<forall>j. lc < j \<and> j \<le> last_log_index \<longrightarrow> \<not> vote_won (ws ! nat (j - pending)))
         \<and> bb_votes bb' (drop (nat (lc - pending + 1)) ws)
         \<and> bb_pending_index bb' = lc + 1 \<and> bb_last_committed bb' = lc)
      \<or> (out = [] \<and> (\<forall>j. start_at \<le> j \<and> j \<le> last_log_index \<longrightarrow> \<not> vote_won (ws ! nat (j - pending)))
         \<and> bb_votes bb' ws
         \<and> bb_pending_index bb' = pending \<and> bb_last_committed bb' = bb_last_committed bb))"

lemma commit_at_lemma:
  assumes vs: "bb_votes bb vs" and pos: "0 < bb_pending_index bb"
    and lo: "bb_pending_index bb \<le> last_log_index"
    and hi: "last_log_index < bb_pending_index bb + int (length vs)"
    and s: "start_at = max (bb_pending_index bb) first_log_index"
    and ws: "ws = grant_votes (nat (start_at - bb_pending_index bb))
                    (nat (last_log_index - start_at + 1)) (pkey p) vs"
  shows "\<exists>bb' out. commit_at first_log_index last_log_index p bb = (RcOk, bb', out)
           \<and> commit_outcome (bb_pending_index bb) start_at last_log_index ws bb bb' out"
proof (cases "start_at \<le> last_log_index")
  case False
  then have n0: "nat (last_log_index - start_at + 1) = 0" by simp
  then have "ws = vs" by (simp add: ws grant_votes_def)
  moreover have len: "length (bb_queue bb) = length vs" using vs by (simp add: bb_votes_def)
  ultimately show ?thesis
    using False n0 vs pos lo hi
    by (auto simp: commit_at_def s [symmetric] commit_outcome_def Let_def)
next
  case True
  let ?P = "bb_pending_index bb" and ?d = "nat (start_at - bb_pending_index bb)"
    and ?n = "nat (last_log_index - start_at + 1)"
  let ?mid = "map (add_voter (pkey p)) (take ?n (drop ?d vs))"
  have sP: "?P \<le> start_at" by (simp add: s)
  have dn: "?d + ?n \<le> length vs" and di: "int ?d = start_at - ?P"
    using True hi sP by linarith+
  have len: "length (bb_queue bb) = length vs" using vs by (simp add: bb_votes_def)
  have midlen: "length ?mid = ?n" using dn by simp
  have loop: "commit_loop ?n start_at p no_hint ?P (bb_queue bb) 0
      = (map vote_ballot ws, last_won start_at ?mid 0)"
    unfolding ws by (rule commit_loop_range [OF vs dn di])
  have at: "ws ! nat (j - ?P) = ?mid ! nat (j - start_at)" if "start_at \<le> j" "j \<le> last_log_index" for j
  proof -
    have "nat (j - ?P) = ?d + nat (j - start_at)" and "nat (j - start_at) < ?n"
      using that sP by linarith+
    then show ?thesis
      unfolding ws using grant_votes_nth [OF dn] by simp
  qed
  have wsv: "\<forall>v \<in> set ws. vote_wf v"
    unfolding ws using vs by (intro grant_votes_wf) (simp add: bb_votes_def)
  have ca: "commit_at first_log_index last_log_index p bb =
     (if last_won start_at ?mid 0 = 0 then (RcOk, bb\<lparr>bb_queue := map vote_ballot ws\<rparr>, [])
      else (RcOk, bb\<lparr>bb_queue := drop (nat (last_won start_at ?mid 0 - ?P + 1)) (map vote_ballot ws),
              bb_pending_index := last_won start_at ?mid 0 + 1,
              bb_last_committed := last_won start_at ?mid 0\<rparr>, [last_won start_at ?mid 0]))"
    using pos lo hi len by (simp add: commit_at_def s [symmetric] loop Let_def)
  show ?thesis
  proof (cases "\<exists>v \<in> set ?mid. vote_won v")
    case False
    then have "last_won start_at ?mid 0 = 0" by (intro last_won_none) blast
    moreover have "\<not> vote_won (ws ! nat (j - ?P))" if "start_at \<le> j" "j \<le> last_log_index" for j
    proof -
      have "nat (j - start_at) < length ?mid" using that midlen by linarith
      then show ?thesis using False at [OF that] nth_mem by metis
    qed
    ultimately show ?thesis
      using wsv by (auto simp: ca commit_outcome_def bb_votes_def)
  next
    case won: True
    obtain k where k: "k < length ?mid" "last_won start_at ?mid 0 = start_at + int k"
      "vote_won (?mid ! k)" "\<forall>j < length ?mid. k < j \<longrightarrow> \<not> vote_won (?mid ! j)"
      using last_won_some [OF won] by blast
    let ?lc = "start_at + int k"
    have lc: "start_at \<le> ?lc" "?lc \<le> last_log_index" using k(1) midlen by linarith+
    have "vote_won (ws ! nat (?lc - ?P))" using at [OF lc] k(3) by simp
    moreover have "\<not> vote_won (ws ! nat (j - ?P))" if "?lc < j" "j \<le> last_log_index" for j
    proof -
      have "nat (j - start_at) < length ?mid" "k < nat (j - start_at)" "start_at \<le> j"
        using that midlen by linarith+
      then show ?thesis using k(4) at [of j] that by simp
    qed
    moreover have "?lc \<noteq> 0" using lc sP pos by linarith
    moreover have "\<forall>v \<in> set (drop m ws). vote_wf v" for m
      using wsv by (meson in_set_dropD)
    ultimately show ?thesis
      using lc by (auto simp: ca k(2) commit_outcome_def bb_votes_def drop_map)
  qed
qed

subsection \<open>Invariant, and the runs of a box\<close>

text \<open>
  The invariant ties the closure queue to the ballots: while the node leads, the closures reach
  exactly as far as the ballots, and none below the first index has been forgotten.
\<close>

definition bb_wf :: "'c ballot_box \<Rightarrow> bool" where
  "bb_wf bb \<longleftrightarrow>
     0 \<le> bb_last_committed bb \<and>
     (if bb_pending_index bb = 0
      then bb_queue bb = [] \<and> cq_queue (bb_closures bb) = []
      else bb_last_committed bb < bb_pending_index bb
         \<and> cq_first_index (bb_closures bb) \<le> bb_pending_index bb
         \<and> cq_first_index (bb_closures bb) + int (length (cq_queue (bb_closures bb)))
           = bb_pending_index bb + int (length (bb_queue bb)))"

text \<open>
  What the node and the FSM caller do to a box. \<open>box_pre\<close> is the contract the header and the
  \<open>CHECK\<close>s of the code put on the caller.
\<close>

datatype 'c box_op =
  CommitAt int int peer_id
| ClearPending
| ResetPending int
| AppendTask conf "conf option" "'c option"
| SetCommitted int
| PopClosures int

fun box_pre :: "'c box_op \<Rightarrow> 'c ballot_box \<Rightarrow> bool" where
  "box_pre (ResetPending n) bb =
     (bb_pending_index bb = 0 \<and> bb_queue bb = [] \<and> bb_last_committed bb < n)"
| "box_pre (AppendTask c oc cl) bb = (0 < bb_pending_index bb)"
| "box_pre (PopClosures i) bb = (i \<le> bb_last_committed bb)"
| "box_pre _ bb = True"

text \<open>\<open>box_step op bb\<close>: the new box and the indexes it reports to \<open>on_committed\<close>.\<close>

fun box_step :: "'c box_op \<Rightarrow> 'c ballot_box \<Rightarrow> 'c ballot_box \<times> int list" where
  "box_step (CommitAt a b p) bb = (case commit_at a b p bb of (_, bb', out) \<Rightarrow> (bb', out))"
| "box_step ClearPending bb = (fst (clear_pending_tasks bb), [])"
| "box_step (ResetPending n) bb = (reset_pending_index n bb, [])"
| "box_step (AppendTask c oc cl) bb = (append_pending_task c oc cl bb, [])"
| "box_step (SetCommitted i) bb = (case set_last_committed_index i bb of (_, bb', out) \<Rightarrow> (bb', out))"
| "box_step (PopClosures i) bb = (case bb_pop_closures i bb of (_, _, _, bb') \<Rightarrow> (bb', []))"

inductive box_run :: "'c ballot_box \<Rightarrow> int list \<Rightarrow> bool" where
  box_start: "box_run ballot_box_new []"
| box_next: "box_run bb out \<Longrightarrow> box_pre op bb \<Longrightarrow> box_step op bb = (bb', out') \<Longrightarrow>
             box_run bb' (out @ out')"

lemma commit_loop_shape:
  "commit_loop n i p h pending q lc = (q', lc') \<Longrightarrow>
   length q' = length q \<and> (lc' = lc \<or> i \<le> lc' \<and> lc' < i + int n)"
proof (induction n arbitrary: i h q lc)
  case 0
  then show ?case by simp
next
  case (Suc n)
  let ?k = "nat (i - pending)"
  obtain h' bl where g: "ballot_grant_hint p h (q ! ?k) = (h', bl)" by fastforce
  from Suc.prems have
    "commit_loop n (i + 1) p h' pending (q[?k := bl]) (if ballot_granted bl then i else lc) = (q', lc')"
    by (simp add: g Let_def)
  from Suc.IH [OF this] show ?case by (auto split: if_splits)
qed

text \<open>What a commit can change, for any votes.\<close>

lemma commit_at_shape:
  assumes ca: "commit_at a b p bb = (r, bb', out)" and nn: "0 \<le> bb_pending_index bb"
  shows "bb_closures bb' = bb_closures bb"
    and "out = [] \<and> bb_pending_index bb' = bb_pending_index bb
           \<and> bb_last_committed bb' = bb_last_committed bb \<and> length (bb_queue bb') = length (bb_queue bb)
         \<or> (\<exists>lc. out = [lc] \<and> 0 < bb_pending_index bb \<and> bb_pending_index bb \<le> lc
           \<and> lc < bb_pending_index bb + int (length (bb_queue bb))
           \<and> bb_pending_index bb' = lc + 1 \<and> bb_last_committed bb' = lc
           \<and> bb_pending_index bb' + int (length (bb_queue bb'))
             = bb_pending_index bb + int (length (bb_queue bb)))"
proof -
  let ?P = "bb_pending_index bb" and ?s = "max (bb_pending_index bb) a"
  obtain q lc where cl: "commit_loop (nat (b - ?s + 1)) ?s p no_hint ?P (bb_queue bb) 0 = (q, lc)"
    by fastforce
  have sh: "length q = length (bb_queue bb)" "lc = 0 \<or> ?s \<le> lc \<and> lc < ?s + int (nat (b - ?s + 1))"
    using commit_loop_shape [OF cl] by auto
  show "bb_closures bb' = bb_closures bb"
    using ca by (auto simp: commit_at_def cl Let_def split: if_splits)
  show "out = [] \<and> bb_pending_index bb' = ?P
           \<and> bb_last_committed bb' = bb_last_committed bb \<and> length (bb_queue bb') = length (bb_queue bb)
         \<or> (\<exists>lc. out = [lc] \<and> 0 < ?P \<and> ?P \<le> lc \<and> lc < ?P + int (length (bb_queue bb))
           \<and> bb_pending_index bb' = lc + 1 \<and> bb_last_committed bb' = lc
           \<and> bb_pending_index bb' + int (length (bb_queue bb')) = ?P + int (length (bb_queue bb)))"
  proof (cases "?P = 0 \<or> b < ?P \<or> b \<ge> ?P + int (length (bb_queue bb)) \<or> lc = 0")
    case True
    then show ?thesis
      using ca sh by (auto simp: commit_at_def cl Let_def split: if_splits)
  next
    case False
    with sh nn have r: "0 < ?P" "?P \<le> lc" "lc < ?P + int (length (bb_queue bb))"
      by linarith+
    from False ca have "out = [lc]" "bb_pending_index bb' = lc + 1" "bb_last_committed bb' = lc"
      "bb_queue bb' = drop (nat (lc - ?P + 1)) q"
      by (auto simp: commit_at_def cl Let_def)
    with r sh(1) show ?thesis by auto
  qed
qed

lemma bb_pending_nonneg: "bb_wf bb \<Longrightarrow> 0 \<le> bb_pending_index bb"
  by (auto simp: bb_wf_def split: if_splits)

lemma bb_wf_commit_at:
  assumes "bb_wf bb" and "commit_at a b p bb = (r, bb', out)"
  shows "bb_wf bb'"
  using commit_at_shape [OF assms(2) bb_pending_nonneg [OF assms(1)]] assms(1)
  by (auto simp: bb_wf_def split: if_splits)

lemma bb_wf_set_committed:
  assumes "bb_wf bb" and "set_last_committed_index i bb = (r, bb', out)"
  shows "bb_wf bb'"
  using assms by (auto simp: bb_wf_def set_last_committed_index_def split: if_splits)

lemma bb_wf_pop:
  assumes wf: "bb_wf bb" and i: "i \<le> bb_last_committed bb"
    and pop: "bb_pop_closures i bb = (r, out, f, bb')"
  shows "bb_wf bb' \<and> r = RcOk"
proof (cases "cq_queue (bb_closures bb) = [] \<or> i < cq_first_index (bb_closures bb)")
  case True
  then show ?thesis
    using wf pop by (auto simp: bb_pop_closures_def cq_pop_closure_until_def)
next
  case False
  then have p: "bb_pending_index bb \<noteq> 0" using wf by (auto simp: bb_wf_def)
  then have r: "cq_first_index (bb_closures bb) \<le> i"
    "i < cq_first_index (bb_closures bb) + int (length (cq_queue (bb_closures bb)))"
    using False wf i by (auto simp: bb_wf_def)
  from cq_pop_in_range [OF r] pop wf p i show ?thesis
    by (auto simp: bb_pop_closures_def bb_wf_def)
qed

lemma bb_wf_step:
  assumes "bb_wf bb" and "box_pre op bb" and "box_step op bb = (bb', out)"
  shows "bb_wf bb'"
proof (cases op)
  case (CommitAt a b p)
  with assms show ?thesis by (auto split: prod.splits intro: bb_wf_commit_at)
next
  case (SetCommitted i)
  with assms show ?thesis by (auto split: prod.splits intro: bb_wf_set_committed)
next
  case (PopClosures i)
  with assms show ?thesis by (auto split: prod.splits dest: bb_wf_pop)
next
  case ClearPending
  with assms show ?thesis
    by (auto simp: clear_pending_tasks_def cq_clear_def bb_wf_def split: if_splits)
next
  case (ResetPending n)
  with assms show ?thesis
    by (auto simp: reset_pending_index_def cq_reset_first_index_def bb_wf_def)
next
  case (AppendTask c oc cl)
  with assms show ?thesis
    by (auto simp: append_pending_task_def cq_append_pending_closure_def bb_wf_def)
qed

lemma bb_wf_new: "bb_wf ballot_box_new"
  by (simp add: bb_wf_def ballot_box_new_def closure_queue_new_def)

lemma box_run_wf: "box_run bb out \<Longrightarrow> bb_wf bb"
  by (induction rule: box_run.induct) (auto intro: bb_wf_new bb_wf_step)

lemma box_step_committed:
  assumes "bb_wf bb" and "box_step op bb = (bb', out)"
  shows "out = [] \<and> bb_last_committed bb' = bb_last_committed bb
         \<or> out = [bb_last_committed bb'] \<and> bb_last_committed bb < bb_last_committed bb'"
proof (cases op)
  case (CommitAt a b p)
  with assms obtain r where ca: "commit_at a b p bb = (r, bb', out)"
    by (auto split: prod.splits)
  have "bb_pending_index bb \<noteq> 0 \<Longrightarrow> bb_last_committed bb < bb_pending_index bb"
    using assms(1) by (simp add: bb_wf_def)
  with commit_at_shape(2) [OF ca bb_pending_nonneg [OF assms(1)]] show ?thesis by fastforce
next
  case (SetCommitted i)
  with assms show ?thesis
    by (auto simp: set_last_committed_index_def split: if_splits)
qed (use assms in \<open>auto simp: clear_pending_tasks_def reset_pending_index_def
       append_pending_task_def bb_pop_closures_def split: prod.splits\<close>)

lemma box_run_committed:
  "box_run bb out \<Longrightarrow> sorted_wrt (<) out \<and> (\<forall>i \<in> set out. i \<le> bb_last_committed bb)"
proof (induction rule: box_run.induct)
  case box_start
  then show ?case by simp
next
  case (box_next bb out op bb' out')
  from box_step_committed [OF box_run_wf [OF box_next.hyps(1)] box_next.hyps(3)] box_next.IH
  show ?case by (auto simp: sorted_wrt_append)
qed

subsection \<open>Properties\<close>

text \<open>
  C4 (refinement): \<open>commit_at\<close> counts the peer's vote for exactly the indexes it acknowledges that
  are still pending, and commits up to the last of them whose vote is won by a quorum, dropping the
  ballots of all indexes up to it; if none is won nothing is committed.
\<close>

theorem commit_at_refines:
  assumes "bb_votes bb vs" and "0 < bb_pending_index bb"
    and "bb_pending_index bb \<le> last_log_index"
    and "last_log_index < bb_pending_index bb + int (length vs)"
    and "start_at = max (bb_pending_index bb) first_log_index"
    and "ws = grant_votes (nat (start_at - bb_pending_index bb))
                (nat (last_log_index - start_at + 1)) (pkey p) vs"
  shows "\<exists>bb' out. commit_at first_log_index last_log_index p bb = (RcOk, bb', out)
           \<and> commit_outcome (bb_pending_index bb) start_at last_log_index ws bb bb' out"
  using assms by (rule commit_at_lemma)

definition sample_vote :: vote where
  "sample_vote = \<lparr>v_conf = [sample_peer 1, sample_peer 2], v_old = None, v_voters = {(EndPoint 1 1, 0)}\<rparr>"

definition sample_box :: "nat ballot_box" where
  "sample_box = \<lparr>bb_last_committed = 4, bb_pending_index = 5, bb_queue = [vote_ballot sample_vote, vote_ballot sample_vote],
                 bb_closures = \<lparr>cq_first_index = 5, cq_queue = [Some 0, None]\<rparr>\<rparr>"

lemma sample_box_votes: "bb_votes sample_box [sample_vote, sample_vote]"
  by (simp add: bb_votes_def sample_box_def vote_wf_def sample_vote_def confs_wf_def conf_wf_sample)

theorem commit_at_refines_witness:
  "\<exists>bb'. commit_at 3 5 (sample_peer 2) sample_box = (RcOk, bb', [5])"
proof -
  have won: "vote_won (add_voter (EndPoint 1 2, 0) sample_vote)"
    by (simp add: vote_won_def add_voter_def sample_vote_def joint_quorum_def conf_majority_def)
  let ?ws = "[add_voter (EndPoint 1 2, 0) sample_vote, sample_vote]"
  have fields: "bb_pending_index sample_box = 5"
    by (simp add: sample_box_def)
  have "\<exists>bb' out. commit_at 3 5 (sample_peer 2) sample_box = (RcOk, bb', out)
      \<and> commit_outcome (bb_pending_index sample_box) 5 5 ?ws sample_box bb' out"
    by (rule commit_at_refines [OF sample_box_votes]) (simp_all add: fields grant_votes_def)
  then obtain bb' out where "commit_at 3 5 (sample_peer 2) sample_box = (RcOk, bb', out)"
    and "commit_outcome 5 5 5 ?ws sample_box bb' out"
    unfolding fields by blast
  moreover from this(2) won have "out = [5]"
    unfolding commit_outcome_def by force
  ultimately show ?thesis by blast
qed



end
