(* ===== verification/Lease.thy ===== *)
theory Lease
  imports RaftTypes
begin

section \<open>Leader and follower leases (lease.h, lease.cpp)\<close>

text \<open>
  \<open>now\<close> stands for \<open>butil::monotonic_time_ms()\<close> and \<open>enabled\<close> for the flag
  \<open>raft_enable_leader_lease\<close>. A timestamp of 0 means that the lease has not started (leader)
  or has been given up (follower).
\<close>

datatype lease_state = LeaseDISABLED | LeaseEXPIRED | LeaseNOT_READY | LeaseVALID | LeaseSUSPECT

record lease_info =
  li_state :: lease_state
  li_term :: int
  li_lease_epoch :: int

record leader_lease =
  ll_election_timeout_ms :: int
  ll_last_active_timestamp :: int
  ll_term :: int
  ll_lease_epoch :: int

definition leader_lease_new :: leader_lease where
  "leader_lease_new = \<lparr>ll_election_timeout_ms = 0, ll_last_active_timestamp = 0,
                       ll_term = 0, ll_lease_epoch = 0\<rparr>"

definition ll_init :: "int \<Rightarrow> leader_lease \<Rightarrow> leader_lease" where
  "ll_init election_timeout_ms l = l\<lparr>ll_election_timeout_ms := election_timeout_ms\<rparr>"

definition ll_on_leader_start :: "int \<Rightarrow> leader_lease \<Rightarrow> leader_lease" where
  "ll_on_leader_start term l =
     l\<lparr>ll_lease_epoch := ll_lease_epoch l + 1, ll_term := term, ll_last_active_timestamp := 0\<rparr>"

definition ll_on_leader_stop :: "leader_lease \<Rightarrow> leader_lease" where
  "ll_on_leader_stop l = l\<lparr>ll_last_active_timestamp := 0, ll_term := 0\<rparr>"

definition ll_on_lease_start :: "int \<Rightarrow> int \<Rightarrow> leader_lease \<Rightarrow> leader_lease" where
  "ll_on_lease_start expect_lease_epoch last_active_timestamp l =
     (if ll_term l = 0 \<or> expect_lease_epoch \<noteq> ll_lease_epoch l then l
      else l\<lparr>ll_last_active_timestamp := last_active_timestamp\<rparr>)"

definition ll_renew :: "int \<Rightarrow> leader_lease \<Rightarrow> leader_lease" where
  "ll_renew last_active_timestamp l = l\<lparr>ll_last_active_timestamp := last_active_timestamp\<rparr>"

definition ll_get_lease_info :: "bool \<Rightarrow> int \<Rightarrow> leader_lease \<Rightarrow> lease_info" where
  "ll_get_lease_info enabled now l =
     (let info = \<lparr>li_state = LeaseDISABLED, li_term = 0, li_lease_epoch = 0\<rparr>
      in if \<not> enabled then info
         else if ll_term l = 0 then info\<lparr>li_state := LeaseEXPIRED\<rparr>
         else if ll_last_active_timestamp l = 0 then info\<lparr>li_state := LeaseNOT_READY\<rparr>
         else if now < ll_last_active_timestamp l + ll_election_timeout_ms l
              then info\<lparr>li_term := ll_term l, li_lease_epoch := ll_lease_epoch l, li_state := LeaseVALID\<rparr>
         else info\<lparr>li_state := LeaseSUSPECT\<rparr>)"

definition ll_reset_election_timeout_ms :: "int \<Rightarrow> leader_lease \<Rightarrow> leader_lease" where
  "ll_reset_election_timeout_ms election_timeout_ms l = l\<lparr>ll_election_timeout_ms := election_timeout_ms\<rparr>"

record follower_lease =
  fl_election_timeout_ms :: int
  fl_max_clock_drift_ms :: int
  fl_last_leader :: peer_id
  fl_last_leader_timestamp :: int

definition follower_lease_new :: follower_lease where
  "follower_lease_new = \<lparr>fl_election_timeout_ms = 0, fl_max_clock_drift_ms = 0,
                         fl_last_leader = empty_peer, fl_last_leader_timestamp = 0\<rparr>"

definition fl_init :: "int \<Rightarrow> int \<Rightarrow> int \<Rightarrow> follower_lease \<Rightarrow> follower_lease" where
  "fl_init now election_timeout_ms max_clock_drift_ms l =
     l\<lparr>fl_election_timeout_ms := election_timeout_ms, fl_max_clock_drift_ms := max_clock_drift_ms,
       fl_last_leader_timestamp := now\<rparr>"

definition fl_renew :: "int \<Rightarrow> peer_id \<Rightarrow> follower_lease \<Rightarrow> follower_lease" where
  "fl_renew now leader_id l = l\<lparr>fl_last_leader := leader_id, fl_last_leader_timestamp := now\<rparr>"

definition fl_votable_time_from_now :: "bool \<Rightarrow> int \<Rightarrow> follower_lease \<Rightarrow> int" where
  "fl_votable_time_from_now enabled now l =
     (if \<not> enabled then 0
      else (let votable_timestamp = fl_last_leader_timestamp l + fl_election_timeout_ms l
                                    + fl_max_clock_drift_ms l
            in if now \<ge> votable_timestamp then 0 else votable_timestamp - now))"

definition fl_expired :: "int \<Rightarrow> follower_lease \<Rightarrow> bool" where
  "fl_expired now l \<longleftrightarrow>
     now - fl_last_leader_timestamp l \<ge> fl_election_timeout_ms l + fl_max_clock_drift_ms l"

definition fl_reset :: "follower_lease \<Rightarrow> follower_lease" where
  "fl_reset l = l\<lparr>fl_last_leader := empty_peer, fl_last_leader_timestamp := 0\<rparr>"

definition fl_expire :: "follower_lease \<Rightarrow> follower_lease" where
  "fl_expire l = l\<lparr>fl_last_leader_timestamp := 0\<rparr>"

definition fl_reset_election_timeout_ms :: "int \<Rightarrow> int \<Rightarrow> follower_lease \<Rightarrow> follower_lease" where
  "fl_reset_election_timeout_ms election_timeout_ms max_clock_drift_ms l =
     l\<lparr>fl_election_timeout_ms := election_timeout_ms, fl_max_clock_drift_ms := max_clock_drift_ms\<rparr>"

subsection \<open>Behaviour\<close>

lemma fl_votable_nonneg: "0 \<le> fl_votable_time_from_now enabled now l"
  by (simp add: fl_votable_time_from_now_def Let_def)

lemma fl_votable_zero:
  "fl_votable_time_from_now enabled now l = 0 \<longleftrightarrow> \<not> enabled \<or> fl_expired now l"
  by (auto simp: fl_votable_time_from_now_def fl_expired_def Let_def)

text \<open>
  A lease is only valid within the election timeout of the last time a quorum answered, and a
  follower that renewed at \<open>t\<close> does not vote before that timeout and the clock drift have
  passed since \<open>t\<close>.
\<close>

lemma ll_valid_iff:
  "li_state (ll_get_lease_info enabled now l) = LeaseVALID \<longleftrightarrow>
     enabled \<and> ll_term l \<noteq> 0 \<and> ll_last_active_timestamp l \<noteq> 0
     \<and> now < ll_last_active_timestamp l + ll_election_timeout_ms l"
  by (simp add: ll_get_lease_info_def Let_def)

lemma lease_exclusion_lemma:
  assumes "li_state (ll_get_lease_info True now l) = LeaseVALID"
    and "ll_last_active_timestamp l \<le> t"
    and "ll_election_timeout_ms l \<le> fl_election_timeout_ms f"
    and "now' \<le> now + fl_max_clock_drift_ms f"
  shows "0 < fl_votable_time_from_now True now' (fl_renew t leader f)"
  using assms by (simp add: ll_valid_iff fl_votable_time_from_now_def fl_renew_def Let_def)

subsection \<open>Properties\<close>

text \<open>
  C33 (safety): while a leader's lease is valid, no follower of the quorum that renewed it can vote: if the
  follower heard the leader no earlier than the time the leader renewed its lease with, its timeout is no
  shorter than the leader's and its clock is at most the allowed drift ahead, then voting is still barred.
\<close>

theorem lease_bars_votes:
  assumes "li_state (ll_get_lease_info True now l) = LeaseVALID"
    and "ll_last_active_timestamp l \<le> t"
    and "ll_election_timeout_ms l \<le> fl_election_timeout_ms f"
    and "now' \<le> now + fl_max_clock_drift_ms f"
  shows "0 < fl_votable_time_from_now True now' (fl_renew t leader f)
     \<and> \<not> fl_expired now' (fl_renew t leader f)"
  using lease_exclusion_lemma [OF assms, of leader] fl_votable_zero [of True now' "fl_renew t leader f"]
  by simp

theorem lease_bars_votes_witness:
  "0 < fl_votable_time_from_now True 1700 (fl_renew 1000 empty_peer (fl_init 0 1000 500 follower_lease_new))"
proof -
  let ?l = "ll_renew 900 (ll_on_leader_start 3 (ll_init 1000 leader_lease_new))"
  have "li_state (ll_get_lease_info True 1500 ?l) = LeaseVALID"
    by (simp add: ll_valid_iff ll_renew_def ll_on_leader_start_def ll_init_def)
  then show ?thesis
    using lease_bars_votes [of 1500 ?l 1000 "fl_init 0 1000 500 follower_lease_new" 1700 empty_peer]
    by (simp add: ll_renew_def ll_on_leader_start_def ll_init_def fl_init_def)
qed

end
