(* ===== verification/RaftMessages.thy ===== *)
theory RaftMessages
  imports LogManager BallotBox Lease
begin

section \<open>Messages, callbacks and effects (raft.proto, and the closures of node.cpp)\<close>

text \<open>
  The messages of the raft service, field by field; an optional field the code reads through its
  default is that default. A log entry travels as an \<open>entry_meta\<close>, its data in the request's
  attachment. What an operation makes the rest of the program do (RPCs it starts, timers, closures it
  runs in another thread, calls into the FSM caller) is a list of effects, in the order the code
  issues them.
\<close>

record entry_meta =
  em_term :: int
  em_type :: entry_type
  em_peers :: "string list"
  em_old_peers :: "string list"
  em_data_len :: "nat option"

record append_entries_request =
  aq_group_id :: string
  aq_server_id :: string
  aq_peer_id :: string
  aq_term :: int
  aq_prev_log_term :: int
  aq_prev_log_index :: int
  aq_entries :: "entry_meta list"
  aq_committed_index :: int
  aq_attachment :: string

record append_entries_response =
  ar_term :: int
  ar_success :: bool
  ar_last_log_index :: int
  ar_readonly :: bool

record request_vote_request =
  vq_group_id :: string
  vq_server_id :: string
  vq_peer_id :: string
  vq_term :: int
  vq_last_log_term :: int
  vq_last_log_index :: int
  vq_disrupted_leader :: "(string \<times> int) option"

record request_vote_response =
  vr_term :: int
  vr_granted :: bool
  vr_disrupted :: bool
  vr_previous_term :: int
  vr_rejected_by_lease :: bool

record install_snapshot_request =
  iq_group_id :: string
  iq_server_id :: string
  iq_peer_id :: string
  iq_term :: int
  iq_meta :: snapshot_meta
  iq_uri :: string

record install_snapshot_response =
  ir_term :: int
  ir_success :: bool

record timeout_now_request =
  tq_group_id :: string
  tq_server_id :: string
  tq_peer_id :: string
  tq_term :: int
  tq_old_leader_stepped_down :: bool

record timeout_now_response =
  tr_term :: int
  tr_success :: bool

subsection \<open>Closures\<close>

text \<open>
  \<open>LeaderStableClosure\<close> and \<open>FollowerStableClosure\<close> run when entries are on disk; an
  RPC being served is identified by a number. \<open>BootstrapStableClosure\<close> wakes the thread that
  bootstraps a node. The closures of the ballot box are the user's or
  \<open>ConfigurationChangeDone\<close>. \<open>OnCaughtUp\<close> runs when a new peer caught up.
\<close>

datatype stable_done =
  LeaderStable nat
| FollowerStable nat append_entries_request int
| BootstrapStable

datatype 'c task_done =
  UserDone 'c
| ConfigurationChangeDone int bool int

datatype on_caught_up = OnCaughtUp int peer_id int

datatype timer = ElectionTimer | VoteTimer | StepdownTimer | SnapshotTimer

datatype vote_ctx_kind = PreVoteCtx | VoteCtx

text \<open>An append-entries RPC kept for later: the RPC, its request, when it was received.\<close>

record append_entries_rpc =
  arpc_call :: nat
  arpc_request :: append_entries_request
  arpc_receive_time_ms :: int

datatype 'c fx =
  FxLm "(stable_done, nat) lm_event"
| FxCommitted int
| FxTaskDone "'c task_done" status
| FxRun 'c status
| FxAppendEntries nat nat append_entries_request int
| FxHeartbeat nat nat append_entries_request int int
| FxInstallSnapshot nat nat install_snapshot_request
| FxTimeoutNow nat nat timeout_now_request int
| FxPreVote peer_id int int request_vote_request
| FxRequestVote peer_id int int request_vote_request
| FxCancel nat
| FxHeartbeatTimer nat int
| FxHeartbeatTimerDel nat
| FxBlockTimer nat int
| FxCatchupTimer nat int
| FxCatchupTimerDel nat
| FxCaughtUp on_caught_up status
| FxIncreaseTerm int errno
| FxNodeError
| FxChangeReadonly int peer_id bool
| FxThrottleFinish
| FxReaderClose
| FxTimerStart timer
| FxTimerStop timer
| FxTimerReset timer int
| FxTimerDestroy timer
| FxGrantSelfTimer vote_ctx_kind int int
| FxGrantSelfTimerDel vote_ctx_kind
| FxTransferTimer int peer_id int
| FxTransferTimerDel
| FxCacheTimer int int int int
| FxCacheTimerDel
| FxHandleFromCache "append_entries_rpc list"
| FxLeaderStart int int
| FxLeaderStop status
| FxStartFollowing peer_id int status
| FxStopFollowing peer_id int status
| FxFsmError
| FxFsmLeaderStart int
| FxFsmShutdown
| FxSnapshotInterrupt int
| FxSnapshotInstall nat install_snapshot_request
| FxSnapshotShutdown
| FxDoSnapshot "'c option"
| FxManagerRemove
| FxAppendReply nat append_entries_response
| FxAppendFailed nat errno
| FxTimeoutNowReply nat timeout_now_response

end
