(* ===== verification/Replicator.thy ===== *)
theory Replicator
  imports RaftMessages
begin

section \<open>Replicators (replicator.h, replicator.cpp)\<close>

text \<open>
  A replicator sends the leader's log to one follower. Its operations run with its id locked and are
  atomic here; they share the log manager, the ballot box, the table of running replicators and the
  replicator group with the node, which are the fields of \<open>world\<close>. An operation that destroys
  its replicator returns \<open>None\<close> for it. Calls that the code makes after it unlocked its id
  (to the node, or RPCs in flight) are effects. \<open>repl_env\<close> holds what an operation reads from
  outside: the clock, the flags, whether a snapshot can be opened, how many timers fail to start.
  \<open>stop\<close> unlocks between its two halves; the model runs them together.
\<close>

datatype repl_st = IDLE | BLOCKING | APPENDING_ENTRIES | INSTALLING_SNAPSHOT

record flying_rpc =
  fy_log_index :: int
  fy_entries_size :: int
  fy_call_id :: nat

record catchup_closure =
  cc_done :: on_caught_up
  cc_max_margin :: int
  cc_has_timer :: bool
  cc_error_was_set :: bool
  cc_status :: status

record replicator =
  r_id :: nat
  r_peer_id :: peer_id
  r_server_id :: peer_id
  r_group_id :: string
  r_term :: int
  r_next_index :: int
  r_flying_append_entries_size :: int
  r_consecutive_error_times :: int
  r_has_succeeded :: bool
  r_timeout_now_index :: int
  r_heartbeat_counter :: int
  r_append_entries_counter :: int
  r_install_snapshot_counter :: int
  r_readonly_index :: int
  r_st :: repl_st
  r_st_first :: int
  r_st_last :: int
  r_append_entries_in_fly :: "flying_rpc list"
  r_install_snapshot_in_fly :: nat
  r_heartbeat_in_fly :: nat
  r_timeout_now_in_fly :: nat
  r_wait_id :: int
  r_is_waiter_canceled :: bool
  r_reader :: bool
  r_catchup_closure :: "catchup_closure option"

record ('s, 'c) world =
  w_lm :: "('s, stable_done, nat) log_manager"
  w_bb :: "'c task_done ballot_box"
  w_store :: "(nat \<times> replicator) list"
  w_status :: "(nat \<times> int) list"
  w_next_rid :: nat
  w_next_call :: nat
  w_rmap :: "(peer_id \<times> nat) list"
  w_common_term :: int
  w_common_group_id :: string
  w_common_server_id :: peer_id
  w_dynamic_timeout_ms :: int
  w_election_timeout_ms :: int
  w_out :: "'c fx list"

record 's repl_env =
  re_storage :: "'s log_storage_ops"
  re_endpoint2str :: "endpoint \<Rightarrow> string"
  re_now_us :: int
  re_now_ms :: int
  re_max_entries_size :: int
  re_max_parallel_rpc_num :: nat
  re_max_body_size :: nat
  re_retry_interval_ms :: int
  re_enable_witness_to_leader :: bool
  re_node_is_witness :: bool
  re_throttle :: "bool option"
  re_snapshot :: "(string \<times> snapshot_meta option) option"
  re_channel_ok :: "peer_id \<Rightarrow> bool"
  re_block_timer_failures :: nat
  re_timer_ok :: bool
  re_catchup_timer_running :: bool
  re_shuffle :: "(peer_id \<times> nat) list \<Rightarrow> (peer_id \<times> nat) list"

definition emit :: "'c fx list \<Rightarrow> ('s, 'c) world \<Rightarrow> ('s, 'c) world" where
  "emit fxs w = w\<lparr>w_out := w_out w @ fxs\<rparr>"

definition status_of :: "nat \<Rightarrow> ('s, 'c) world \<Rightarrow> int" where
  "status_of rid w = (case map_of (w_status w) rid of None \<Rightarrow> 0 | Some t \<Rightarrow> t)"

definition update_last_rpc_send_timestamp :: "int \<Rightarrow> nat \<Rightarrow> ('s, 'c) world \<Rightarrow> ('s, 'c) world" where
  "update_last_rpc_send_timestamp new_timestamp rid w =
     (if new_timestamp > status_of rid w then w\<lparr>w_status := AList.update rid new_timestamp (w_status w)\<rparr> else w)"

definition replicator_new :: "nat \<Rightarrow> peer_id \<Rightarrow> ('s, 'c) world \<Rightarrow> replicator" where
  "replicator_new rid peer w =
     \<lparr>r_id = rid, r_peer_id = peer, r_server_id = w_common_server_id w, r_group_id = w_common_group_id w,
      r_term = w_common_term w, r_next_index = 0, r_flying_append_entries_size = 0,
      r_consecutive_error_times = 0, r_has_succeeded = False, r_timeout_now_index = 0,
      r_heartbeat_counter = 0, r_append_entries_counter = 0, r_install_snapshot_counter = 0,
      r_readonly_index = 0, r_st = IDLE, r_st_first = 0, r_st_last = 0, r_append_entries_in_fly = [],
      r_install_snapshot_in_fly = 0, r_heartbeat_in_fly = 0, r_timeout_now_in_fly = 0, r_wait_id = 0,
      r_is_waiter_canceled = False, r_reader = False, r_catchup_closure = None\<rparr>"

definition min_flying_index :: "replicator \<Rightarrow> int" where
  "min_flying_index r = r_next_index r - r_flying_append_entries_size r"

definition is_catchup :: "int \<Rightarrow> replicator \<Rightarrow> ('s, 'c) world \<Rightarrow> bool" where
  "is_catchup max_margin r w =
     (if r_next_index r < lm_first (w_lm w) then False
      else if min_flying_index r - 1 + max_margin < lm_last (w_lm w) then False
      else True)"

definition new_call :: "('s, 'c) world \<Rightarrow> nat \<times> ('s, 'c) world" where
  "new_call w = (w_next_call w, w\<lparr>w_next_call := w_next_call w + 1\<rparr>)"

subsection \<open>Catching up\<close>

text \<open>The error code 0 is \<open>None\<close>.\<close>

definition notify_on_caught_up ::
  "'s repl_env \<Rightarrow> errno option \<Rightarrow> bool \<Rightarrow> replicator \<Rightarrow> ('s, 'c) world \<Rightarrow> replicator \<times> ('s, 'c) world" where
  "notify_on_caught_up E error_code before_destroy r w =
     (case r_catchup_closure r of
        None \<Rightarrow> (r, w)
      | Some cc \<Rightarrow>
          let st = (case error_code of None \<Rightarrow> cc_status cc | Some e \<Rightarrow> StatusErr e) in
          if error_code \<noteq> Some ETIMEDOUT \<and> error_code \<noteq> Some EPERM
          then if \<not> is_catchup (cc_max_margin cc) r w then (r, w)
               else if cc_error_was_set cc then (r, w)
               else if cc_has_timer cc \<and> \<not> before_destroy \<and> re_catchup_timer_running E
               then (r\<lparr>r_catchup_closure := Some (cc\<lparr>cc_error_was_set := True, cc_status := st\<rparr>)\<rparr>, w)
               else (r\<lparr>r_catchup_closure := None\<rparr>,
                     emit ((if cc_has_timer cc \<and> \<not> before_destroy then [FxCatchupTimerDel (r_id r)] else [])
                           @ [FxCaughtUp (cc_done cc) st]) w)
          else (r\<lparr>r_catchup_closure := None\<rparr>,
                emit [FxCaughtUp (cc_done cc) (if cc_error_was_set cc then cc_status cc else st)] w))"

definition repl_close_reader :: "'s repl_env \<Rightarrow> replicator \<Rightarrow> ('s, 'c) world \<Rightarrow> replicator \<times> ('s, 'c) world" where
  "repl_close_reader E r w =
     (if r_reader r
      then (r\<lparr>r_reader := False\<rparr>,
            emit (FxReaderClose # (if re_throttle E \<noteq> None then [FxThrottleFinish] else [])) w)
      else (r, w))"

text \<open>\<open>_destroy\<close> deletes the replicator, whose destructor closes the reader.\<close>

definition repl_destroy :: "'s repl_env \<Rightarrow> replicator \<Rightarrow> ('s, 'c) world \<Rightarrow> replicator option \<times> ('s, 'c) world" where
  "repl_destroy E r w = (None, snd (repl_close_reader E r w))"

definition start_heartbeat_timer :: "'s repl_env \<Rightarrow> replicator \<Rightarrow> ('s, 'c) world \<Rightarrow> ('s, 'c) world" where
  "start_heartbeat_timer E r w = emit [FxHeartbeatTimer (r_id r) (w_dynamic_timeout_ms w)] w"

subsection \<open>Requests\<close>

definition fill_common_fields ::
  "'s repl_env \<Rightarrow> replicator \<Rightarrow> ('s, 'c) world \<Rightarrow> int \<Rightarrow> bool \<Rightarrow> append_entries_request option" where
  "fill_common_fields E r w prev_log_index is_heartbeat =
     (let prev_log_term = lm_get_term (re_storage E) prev_log_index (w_lm w);
          compacted = (prev_log_term = 0 \<and> prev_log_index \<noteq> 0)
      in if compacted \<and> \<not> is_heartbeat then None
         else Some \<lparr>aq_group_id = r_group_id r,
                    aq_server_id = peer_to_string (re_endpoint2str E) (r_server_id r),
                    aq_peer_id = peer_to_string (re_endpoint2str E) (r_peer_id r),
                    aq_term = r_term r, aq_prev_log_term = prev_log_term,
                    aq_prev_log_index = (if compacted then 0 else prev_log_index),
                    aq_entries = [], aq_committed_index = bb_last_committed (w_bb w),
                    aq_attachment = []\<rparr>)"

definition cancel_append_entries_rpcs :: "replicator \<Rightarrow> ('s, 'c) world \<Rightarrow> replicator \<times> ('s, 'c) world" where
  "cancel_append_entries_rpcs r w =
     (r\<lparr>r_append_entries_in_fly := []\<rparr>,
      emit (map (\<lambda>f. FxCancel (fy_call_id f)) (r_append_entries_in_fly r)) w)"

definition reset_next_index :: "replicator \<Rightarrow> ('s, 'c) world \<Rightarrow> replicator \<times> ('s, 'c) world" where
  "reset_next_index r w =
     (let r1 = r\<lparr>r_next_index := r_next_index r - r_flying_append_entries_size r,
                r_flying_append_entries_size := 0\<rparr>;
          (r2, w2) = cancel_append_entries_rpcs r1 w;
          r3 = r2\<lparr>r_is_waiter_canceled := True\<rparr>
      in if r_wait_id r3 \<noteq> 0
         then (r3\<lparr>r_wait_id := 0\<rparr>, w2\<lparr>w_lm := snd (lm_remove_waiter (r_wait_id r3) (w_lm w2))\<rparr>)
         else (r3, w2))"

text \<open>
  \<open>_send_empty_entries\<close>, \<open>_install_snapshot\<close> and \<open>_block\<close> call each other when
  the log is compacted, the snapshot throttled and the timer of \<open>_block\<close> cannot start; the
  first two take the third as an argument, which recurs once per timer that fails.
\<close>

type_synonym ('s, 'c) repl_step = "replicator \<Rightarrow> ('s, 'c) world \<Rightarrow> replicator \<times> ('s, 'c) world"

definition install_snapshot_with ::
  "(errno option \<Rightarrow> ('s, 'c) repl_step) \<Rightarrow> 's repl_env \<Rightarrow> ('s, 'c) repl_step" where
  "install_snapshot_with block E r w =
     (if re_node_is_witness E then block (Some EBUSY) r w
      else if r_reader r then (r, w)
      else if re_throttle E = Some False then block (Some EBUSY) r w
      else
        (let r1 = r\<lparr>r_st := INSTALLING_SNAPSHOT\<rparr>
         in case re_snapshot E of
              None \<Rightarrow> (r1, emit ((if re_throttle E \<noteq> None then [FxThrottleFinish] else []) @ [FxNodeError]) w)
            | Some (uri, meta) \<Rightarrow>
                (let r2 = r1\<lparr>r_reader := True\<rparr>
                 in if uri = [] then (case repl_close_reader E r2 w of (r3, w3) \<Rightarrow> block (Some EBUSY) r3 w3)
                    else case meta of
                           None \<Rightarrow> (r2, emit [FxNodeError] w)
                         | Some m \<Rightarrow>
                             (case new_call w of
                                (call, w1) \<Rightarrow>
                                  (r2\<lparr>r_install_snapshot_in_fly := call,
                                      r_install_snapshot_counter := r_install_snapshot_counter r2 + 1,
                                      r_st_first := sm_last_included_index m,
                                      r_st_last := sm_last_included_term m\<rparr>,
                                   emit [FxInstallSnapshot (r_id r2) call
                                           \<lparr>iq_group_id = r_group_id r2,
                                            iq_server_id = peer_to_string (re_endpoint2str E) (r_server_id r2),
                                            iq_peer_id = peer_to_string (re_endpoint2str E) (r_peer_id r2),
                                            iq_term = r_term r2, iq_meta = m, iq_uri = uri\<rparr>] w1)))))"

definition send_empty_entries_with ::
  "(errno option \<Rightarrow> ('s, 'c) repl_step) \<Rightarrow> 's repl_env \<Rightarrow> bool \<Rightarrow> ('s, 'c) repl_step" where
  "send_empty_entries_with block E is_heartbeat r w =
     (case fill_common_fields E r w (r_next_index r - 1) is_heartbeat of
        None \<Rightarrow> install_snapshot_with block E r w
      | Some req \<Rightarrow>
          (case new_call w of
             (call, w1) \<Rightarrow>
               if is_heartbeat
               then (r\<lparr>r_heartbeat_in_fly := call, r_heartbeat_counter := r_heartbeat_counter r + 1\<rparr>,
                     emit [FxHeartbeat (r_id r) call req (re_now_ms E) (w_election_timeout_ms w div 2)] w1)
               else (r\<lparr>r_st := APPENDING_ENTRIES, r_st_first := r_next_index r, r_st_last := r_next_index r - 1,
                       r_append_entries_in_fly := r_append_entries_in_fly r @
                         [\<lparr>fy_log_index = r_next_index r, fy_entries_size = 0, fy_call_id = call\<rparr>],
                       r_append_entries_counter := r_append_entries_counter r + 1\<rparr>,
                     emit [FxAppendEntries (r_id r) call req (re_now_ms E)] w1)))"

primrec block_n :: "nat \<Rightarrow> 's repl_env \<Rightarrow> errno option \<Rightarrow> ('s, 'c) repl_step" where
  "block_n 0 E error_code r w =
     (if r_st r = BLOCKING then (r, w)
      else (r\<lparr>r_st := BLOCKING\<rparr>,
            emit [FxBlockTimer (r_id r)
                    (if error_code = Some EBUSY \<or> error_code = Some EINTR then re_retry_interval_ms E
                     else w_dynamic_timeout_ms w)] w))"
| "block_n (Suc n) E error_code r w =
     (if r_st r = BLOCKING then (r, w) else send_empty_entries_with (block_n n E) E False r w)"

definition repl_block :: "'s repl_env \<Rightarrow> errno option \<Rightarrow> ('s, 'c) repl_step" where
  "repl_block E = block_n (re_block_timer_failures E) E"

definition install_snapshot :: "'s repl_env \<Rightarrow> ('s, 'c) repl_step" where
  "install_snapshot E = install_snapshot_with (repl_block E) E"

definition send_empty_entries :: "'s repl_env \<Rightarrow> bool \<Rightarrow> ('s, 'c) repl_step" where
  "send_empty_entries E = send_empty_entries_with (repl_block E) E"

subsection \<open>Sending entries\<close>

definition wait_more_entries :: "'s repl_env \<Rightarrow> ('s, 'c) repl_step" where
  "wait_more_entries E r w =
     (let (r1, w1) =
            (if r_wait_id r = 0 \<and> re_max_entries_size E > r_flying_append_entries_size r
                \<and> re_max_parallel_rpc_num E > length (r_append_entries_in_fly r)
             then (case lm_wait (r_next_index r - 1) (r_id r) (w_lm w) of
                     (wid, lm, ev) \<Rightarrow>
                       (r\<lparr>r_wait_id := wid, r_is_waiter_canceled := False\<rparr>,
                        emit (map FxLm ev) (w\<lparr>w_lm := lm\<rparr>)))
             else (r, w))
      in (if r_flying_append_entries_size r1 = 0 then r1\<lparr>r_st := IDLE\<rparr> else r1, w1))"

text \<open>\<open>_prepare_entry\<close>: an error code, or the entry's meta and its data.\<close>

definition entry_meta_of :: "'s repl_env \<Rightarrow> bool \<Rightarrow> log_entry \<Rightarrow> entry_meta" where
  "entry_meta_of E with_data e =
     \<lparr>em_term = e_term e, em_type = e_type e,
      em_peers = (case e_peers e of None \<Rightarrow> [] | Some ps \<Rightarrow> map (peer_to_string (re_endpoint2str E)) ps),
      em_old_peers = (case e_peers e of None \<Rightarrow> []
                      | Some _ \<Rightarrow> (case e_old_peers e of None \<Rightarrow> []
                                   | Some ps \<Rightarrow> map (peer_to_string (re_endpoint2str E)) ps)),
      em_data_len = (if with_data then Some (length (e_data e)) else None)\<rparr>"

definition prepare_entry ::
  "'s repl_env \<Rightarrow> nat \<Rightarrow> string \<Rightarrow> replicator \<Rightarrow> ('s, 'c) world
   \<Rightarrow> (errno + entry_meta \<times> string) \<times> replicator \<times> ('s, 'c) world" where
  "prepare_entry E offset data r w =
     (if length data \<ge> re_max_body_size E then (Inl ERANGE, r, w)
      else
        (let log_index = r_next_index r + int offset;
             (entry, lm, ev) = lm_get_entry (re_storage E) log_index (w_lm w);
             w1 = emit (map FxLm ev) (w\<lparr>w_lm := lm\<rparr>)
         in case entry of
              None \<Rightarrow> (Inl ENOENT, r, w1)
            | Some e \<Rightarrow>
                if r_readonly_index r \<noteq> 0 \<and> log_index \<ge> r_readonly_index r \<and> e_type e \<noteq> ENTRY_TYPE_CONFIGURATION
                then (Inl EREADONLY, r, w1)
                else
                  (let r1 = (if r_readonly_index r \<noteq> 0 \<and> log_index \<ge> r_readonly_index r
                             then r\<lparr>r_readonly_index := log_index + 1\<rparr> else r);
                       with_data = (\<not> peer_is_witness (r_peer_id r) \<or> re_enable_witness_to_leader E)
                   in (Inr (entry_meta_of E with_data e, if with_data then data @ e_data e else data), r1, w1))))"

text \<open>The loop over at most \<open>n\<close> entries: the code that ended it, the metas, the data.\<close>

fun prepare_entries ::
  "'s repl_env \<Rightarrow> nat \<Rightarrow> nat \<Rightarrow> string \<Rightarrow> replicator \<Rightarrow> ('s, 'c) world
   \<Rightarrow> errno option \<times> entry_meta list \<times> string \<times> replicator \<times> ('s, 'c) world" where
  "prepare_entries E 0 i data r w = (None, [], data, r, w)"
| "prepare_entries E (Suc n) i data r w =
     (case prepare_entry E i data r w of
        (Inl e, r1, w1) \<Rightarrow> (Some e, [], data, r1, w1)
      | (Inr (em, data1), r1, w1) \<Rightarrow>
          (case prepare_entries E n (Suc i) data1 r1 w1 of
             (rc, ems, data2, r2, w2) \<Rightarrow> (rc, em # ems, data2, r2, w2)))"

definition send_entries :: "'s repl_env \<Rightarrow> ('s, 'c) repl_step" where
  "send_entries E r w =
     (if r_flying_append_entries_size r \<ge> re_max_entries_size E
         \<or> length (r_append_entries_in_fly r) \<ge> re_max_parallel_rpc_num E
         \<or> r_st r = BLOCKING
      then (r, w)
      else
        (case fill_common_fields E r w (r_next_index r - 1) False of
           None \<Rightarrow> (case reset_next_index r w of (r1, w1) \<Rightarrow> install_snapshot E r1 w1)
         | Some req \<Rightarrow>
             (case prepare_entries E (nat (re_max_entries_size E - r_flying_append_entries_size r)) 0 [] r w of
                (rc, ems, data, r1, w1) \<Rightarrow>
                  if ems = []
                  then if r_next_index r1 < lm_first (w_lm w1)
                       then (case reset_next_index r1 w1 of (r2, w2) \<Rightarrow> install_snapshot E r2 w2)
                       else if rc = Some EREADONLY
                       then (if r_flying_append_entries_size r1 = 0 then r1\<lparr>r_st := IDLE\<rparr> else r1, w1)
                       else wait_more_entries E r1 w1
                  else
                    (case new_call w1 of
                       (call, w2) \<Rightarrow>
                         (let n = int (length ems);
                              r2 = r1\<lparr>r_append_entries_in_fly := r_append_entries_in_fly r1 @
                                        [\<lparr>fy_log_index = r_next_index r1, fy_entries_size = n, fy_call_id = call\<rparr>],
                                      r_append_entries_counter := r_append_entries_counter r1 + 1,
                                      r_next_index := r_next_index r1 + n,
                                      r_flying_append_entries_size := r_flying_append_entries_size r1 + n,
                                      r_st := APPENDING_ENTRIES\<rparr>;
                              r3 = r2\<lparr>r_st_first := min_flying_index r2, r_st_last := r_next_index r2 - 1\<rparr>
                          in wait_more_entries E r3
                               (emit [FxAppendEntries (r_id r3) call
                                        (req\<lparr>aq_entries := ems, aq_attachment := data\<rparr>) (re_now_ms E)] w2))))))"

subsection \<open>Replies\<close>

definition send_timeout_now :: "'s repl_env \<Rightarrow> bool \<Rightarrow> int \<Rightarrow> ('s, 'c) repl_step" where
  "send_timeout_now E old_leader_stepped_down timeout_ms r w =
     (case new_call w of
        (call, w1) \<Rightarrow>
          (if \<not> old_leader_stepped_down then r\<lparr>r_timeout_now_in_fly := call, r_timeout_now_index := 0\<rparr> else r,
           emit [FxTimeoutNow (r_id r) call
                   \<lparr>tq_group_id = r_group_id r,
                    tq_server_id = peer_to_string (re_endpoint2str E) (r_server_id r),
                    tq_peer_id = peer_to_string (re_endpoint2str E) (r_peer_id r),
                    tq_term = r_term r, tq_old_leader_stepped_down = old_leader_stepped_down\<rparr> timeout_ms] w1))"

definition check_timeout_now :: "'s repl_env \<Rightarrow> ('s, 'c) repl_step" where
  "check_timeout_now E r w =
     (if r_timeout_now_index r > 0 \<and> r_timeout_now_index r < min_flying_index r
      then send_timeout_now E False (-1) r w else (r, w))"

text \<open>An RPC is \<open>valid\<close> when it is in flight and not behind the first index it answers.\<close>

fun valid_rpc :: "int \<Rightarrow> nat \<Rightarrow> flying_rpc list \<Rightarrow> bool" where
  "valid_rpc rpc_first_index call [] = False"
| "valid_rpc rpc_first_index call (f # fs) =
     (if fy_log_index f > rpc_first_index then False
      else fy_call_id f = call \<or> valid_rpc rpc_first_index call fs)"

fun pop_flying :: "int \<Rightarrow> flying_rpc list \<Rightarrow> int \<Rightarrow> flying_rpc list \<times> int" where
  "pop_flying rpc_first_index [] sz = ([], sz)"
| "pop_flying rpc_first_index (f # fs) sz =
     (if fy_log_index f \<le> rpc_first_index then pop_flying rpc_first_index fs (sz - fy_entries_size f)
      else (f # fs, sz))"

definition higher_term ::
  "'s repl_env \<Rightarrow> int \<Rightarrow> replicator \<Rightarrow> ('s, 'c) world \<Rightarrow> replicator option \<times> ('s, 'c) world" where
  "higher_term E term r w =
     (case notify_on_caught_up E (Some EPERM) True r w of
        (r1, w1) \<Rightarrow> (case repl_destroy E r1 w1 of
                       (r2, w2) \<Rightarrow> (r2, emit [FxIncreaseTerm term EHIGHERTERMRESPONSE] w2)))"

definition find_next_index :: "append_entries_response \<Rightarrow> replicator \<Rightarrow> replicator" where
  "find_next_index resp r =
     (if ar_last_log_index resp + 1 < r_next_index r then r\<lparr>r_next_index := ar_last_log_index resp + 1\<rparr>
      else if r_next_index r > 1 then r\<lparr>r_next_index := r_next_index r - 1\<rparr> else r)"

definition keep :: "replicator \<times> ('s, 'c) world \<Rightarrow> replicator option \<times> ('s, 'c) world" where
  "keep x = (Some (fst x), snd x)"

text \<open>\<open>commit_at\<close> on the shared ballot box.\<close>

definition w_commit_at :: "int \<Rightarrow> int \<Rightarrow> peer_id \<Rightarrow> ('s, 'c) world \<Rightarrow> ('s, 'c) world" where
  "w_commit_at first_log_index last_log_index peer w =
     (case commit_at first_log_index last_log_index peer (w_bb w) of
        (rc, bb, committed) \<Rightarrow> emit (map FxCommitted committed) (w\<lparr>w_bb := bb\<rparr>))"

definition rpc_success ::
  "'s repl_env \<Rightarrow> append_entries_request \<Rightarrow> int \<Rightarrow> ('s, 'c) repl_step" where
  "rpc_success E request rpc_send_time r w =
     (let rpc_first_index = aq_prev_log_index request + 1;
          entries_size = int (length (aq_entries request));
          w1 = update_last_rpc_send_timestamp rpc_send_time (r_id r) w;
          w2 = (if entries_size > 0
                then w_commit_at (min_flying_index r) (aq_prev_log_index request + entries_size) (r_peer_id r) w1
                else w1);
          (fly, sz) = pop_flying rpc_first_index (r_append_entries_in_fly r) (r_flying_append_entries_size r);
          r1 = r\<lparr>r_append_entries_in_fly := fly, r_flying_append_entries_size := sz, r_has_succeeded := True\<rparr>;
          (r2, w3) = notify_on_caught_up E None False r1 w2;
          (r3, w4) = check_timeout_now E r2 w3
      in send_entries E r3 w4)"

definition on_rpc_returned ::
  "'s repl_env \<Rightarrow> nat \<Rightarrow> errno option \<Rightarrow> append_entries_request \<Rightarrow> append_entries_response \<Rightarrow> int
   \<Rightarrow> replicator \<Rightarrow> ('s, 'c) world \<Rightarrow> replicator option \<times> ('s, 'c) world" where
  "on_rpc_returned E call failed request response rpc_send_time r w =
     (if \<not> valid_rpc (aq_prev_log_index request + 1) call (r_append_entries_in_fly r) then (Some r, w)
      else case failed of
        Some e \<Rightarrow>
          (case reset_next_index (r\<lparr>r_consecutive_error_times := r_consecutive_error_times r + 1\<rparr>) w of
             (r1, w1) \<Rightarrow> keep (repl_block E (Some e) r1 w1))
      | None \<Rightarrow>
          (let r0 = r\<lparr>r_consecutive_error_times := 0\<rparr> in
           if \<not> ar_success response
           then if ar_term response > r_term r0
                then (case reset_next_index r0 w of (r1, w1) \<Rightarrow> higher_term E (ar_term response) r1 w1)
                else (case reset_next_index r0 (update_last_rpc_send_timestamp rpc_send_time (r_id r0) w) of
                        (r1, w1) \<Rightarrow> keep (send_empty_entries E False (find_next_index response r1) w1))
           else if ar_term response \<noteq> r_term r0 then keep (reset_next_index r0 w)
           else keep (rpc_success E request rpc_send_time r0 w)))"

definition on_heartbeat_returned ::
  "'s repl_env \<Rightarrow> errno option \<Rightarrow> append_entries_response \<Rightarrow> int
   \<Rightarrow> replicator \<Rightarrow> ('s, 'c) world \<Rightarrow> replicator option \<times> ('s, 'c) world" where
  "on_heartbeat_returned E failed response rpc_send_time r w =
     (case failed of
        Some e \<Rightarrow> (Some (r\<lparr>r_consecutive_error_times := r_consecutive_error_times r + 1\<rparr>),
                   start_heartbeat_timer E r w)
      | None \<Rightarrow>
          (let r0 = r\<lparr>r_consecutive_error_times := 0\<rparr> in
           if ar_term response > r_term r0 then higher_term E (ar_term response) r0 w
           else
             (let readonly = ar_readonly response;
                  w1 = start_heartbeat_timer E r0 (update_last_rpc_send_timestamp rpc_send_time (r_id r0) w)
              in if readonly \<and> r_readonly_index r0 = 0 \<or> \<not> readonly \<and> r_readonly_index r0 \<noteq> 0
                 then (Some r0, emit [FxChangeReadonly (r_term r0) (r_peer_id r0) readonly] w1)
                 else (Some r0, w1))))"

definition on_install_snapshot_returned ::
  "'s repl_env \<Rightarrow> errno option \<Rightarrow> install_snapshot_request \<Rightarrow> install_snapshot_response
   \<Rightarrow> replicator \<Rightarrow> ('s, 'c) world \<Rightarrow> replicator option \<times> ('s, 'c) world" where
  "on_install_snapshot_returned E failed request response r w =
     (case repl_close_reader E r w of
        (r0, w0) \<Rightarrow>
          (case failed of
             Some e \<Rightarrow> keep (repl_block E (Some e) (r0\<lparr>r_consecutive_error_times := r_consecutive_error_times r0 + 1\<rparr>) w0)
           | None \<Rightarrow>
               if \<not> ir_success response then keep (repl_block E None r0 w0)
               else
                 (let r1 = r0\<lparr>r_next_index := sm_last_included_index (iq_meta request) + 1, r_has_succeeded := True\<rparr>;
                      (r2, w2) = notify_on_caught_up E None False r1 w0;
                      (r3, w3) = check_timeout_now E r2 w2
                  in keep (send_entries E r3 w3))))"

definition on_timeout_now_returned ::
  "'s repl_env \<Rightarrow> errno option \<Rightarrow> timeout_now_response \<Rightarrow> bool
   \<Rightarrow> replicator \<Rightarrow> ('s, 'c) world \<Rightarrow> replicator option \<times> ('s, 'c) world" where
  "on_timeout_now_returned E failed response old_leader_stepped_down r w =
     (let quit = (\<lambda>r w. case notify_on_caught_up E (Some ESTOP) True r w of (r1, w1) \<Rightarrow> repl_destroy E r1 w1)
      in if failed \<noteq> None
         then if old_leader_stepped_down then quit r w else (Some r, w)
         else if tr_term response > r_term r then higher_term E (tr_term response) r w
         else if old_leader_stepped_down then quit r w
         else (Some r, w))"

text \<open>\<open>_on_error\<close> with \<open>ESTOP\<close>: the replicator quits.\<close>

definition on_error_stop :: "'s repl_env \<Rightarrow> replicator \<Rightarrow> ('s, 'c) world \<Rightarrow> replicator option \<times> ('s, 'c) world" where
  "on_error_stop E r w =
     (let w1 = emit [FxCancel (r_install_snapshot_in_fly r), FxCancel (r_heartbeat_in_fly r),
                     FxCancel (r_timeout_now_in_fly r)] w;
          (r2, w2) = cancel_append_entries_rpcs r w1;
          w3 = emit [FxHeartbeatTimerDel (r_id r2)] w2;
          w4 = w3\<lparr>w_lm := snd (lm_remove_waiter (r_wait_id r2) (w_lm w3))\<rparr>;
          (r5, w5) = notify_on_caught_up E (Some ESTOP) True r2 w4
      in repl_destroy E (r5\<lparr>r_wait_id := 0\<rparr>) w5)"

definition continue_sending ::
  "'s repl_env \<Rightarrow> status \<Rightarrow> replicator \<Rightarrow> ('s, 'c) world \<Rightarrow> replicator option \<times> ('s, 'c) world" where
  "continue_sending E error_code r w =
     (if error_code = StatusErr ETIMEDOUT
      then if r_wait_id r \<noteq> 0 then (Some r, w) else keep (send_empty_entries E False r w)
      else if error_code \<noteq> StatusErr ESTOP \<and> \<not> r_is_waiter_canceled r
      then keep (send_entries E (r\<lparr>r_wait_id := 0\<rparr>) w)
      else (Some r, w))"

definition on_block_timedout :: "'s repl_env \<Rightarrow> replicator \<Rightarrow> ('s, 'c) world \<Rightarrow> replicator option \<times> ('s, 'c) world" where
  "on_block_timedout E r w = continue_sending E (StatusErr ETIMEDOUT) (r\<lparr>r_st := IDLE\<rparr>) w"

definition on_catch_up_timedout :: "'s repl_env \<Rightarrow> replicator \<Rightarrow> ('s, 'c) world \<Rightarrow> replicator option \<times> ('s, 'c) world" where
  "on_catch_up_timedout E r w = keep (notify_on_caught_up E (Some ETIMEDOUT) False r w)"

definition transfer_leadership ::
  "'s repl_env \<Rightarrow> int \<Rightarrow> ('s, 'c) repl_step" where
  "transfer_leadership E log_index r w =
     (if r_has_succeeded r \<and> min_flying_index r > log_index then send_timeout_now E False (-1) r w
      else (r\<lparr>r_timeout_now_index := log_index\<rparr>, w))"

definition change_readonly :: "'s repl_env \<Rightarrow> bool \<Rightarrow> ('s, 'c) repl_step" where
  "change_readonly E readonly r w =
     (if readonly \<and> r_readonly_index r \<noteq> 0 \<or> \<not> readonly \<and> r_readonly_index r = 0 then (r, w)
      else if readonly then (r\<lparr>r_readonly_index := lm_last (w_lm w) + 1\<rparr>, w)
      else wait_more_entries E (r\<lparr>r_readonly_index := 0\<rparr>) w)"

definition wait_for_caught_up ::
  "'s repl_env \<Rightarrow> int \<Rightarrow> int option \<Rightarrow> on_caught_up \<Rightarrow> ('s, 'c) repl_step" where
  "wait_for_caught_up E max_margin due_time done r w =
     (if r_catchup_closure r \<noteq> None then (r, emit [FxCaughtUp done (StatusErr EINVAL)] w)
      else if r_has_succeeded r \<and> is_catchup max_margin r w then (r, emit [FxCaughtUp done StatusOK] w)
      else if due_time \<noteq> None \<and> \<not> re_timer_ok E then (r, emit [FxCaughtUp done (StatusErr EINVAL)] w)
      else (r\<lparr>r_catchup_closure := Some \<lparr>cc_done = done, cc_max_margin = max_margin,
                 cc_has_timer = (due_time \<noteq> None), cc_error_was_set = False, cc_status = StatusOK\<rparr>\<rparr>,
            (case due_time of None \<Rightarrow> w | Some t \<Rightarrow> emit [FxCatchupTimer (r_id r) t] w)))"

subsection \<open>The table of running replicators\<close>

text \<open>Locking the id of a replicator that quit fails.\<close>

definition with_replicator ::
  "nat \<Rightarrow> (replicator \<Rightarrow> ('s, 'c) world \<Rightarrow> replicator option \<times> ('s, 'c) world) \<Rightarrow> ('s, 'c) world \<Rightarrow> ('s, 'c) world" where
  "with_replicator rid f w =
     (case map_of (w_store w) rid of
        None \<Rightarrow> w
      | Some r \<Rightarrow>
          (case f r w of
             (None, w1) \<Rightarrow> w1\<lparr>w_store := AList.delete rid (w_store w1)\<rparr>
           | (Some r1, w1) \<Rightarrow> w1\<lparr>w_store := AList.update rid r1 (w_store w1)\<rparr>))"

definition repl_alive :: "nat \<Rightarrow> ('s, 'c) world \<Rightarrow> bool" where
  "repl_alive rid w \<longleftrightarrow> map_of (w_store w) rid \<noteq> None"

definition repl_start :: "'s repl_env \<Rightarrow> peer_id \<Rightarrow> ('s, 'c) world \<Rightarrow> nat option \<times> ('s, 'c) world" where
  "repl_start E peer w =
     (if \<not> re_channel_ok E peer then (None, w)
      else
        (let rid = w_next_rid w;
             r = (replicator_new rid peer w)\<lparr>r_next_index := lm_last (w_lm w) + 1\<rparr>;
             w1 = w\<lparr>w_next_rid := rid + 1, w_store := AList.update rid r (w_store w)\<rparr>;
             w2 = start_heartbeat_timer E r (update_last_rpc_send_timestamp (re_now_ms E) rid w1)
         in (Some rid, with_replicator rid (\<lambda>r w. keep (send_empty_entries E False r w)) w2)))"

definition repl_stop :: "'s repl_env \<Rightarrow> nat \<Rightarrow> ('s, 'c) world \<Rightarrow> ('s, 'c) world" where
  "repl_stop E rid = with_replicator rid (\<lambda>r w.
     case notify_on_caught_up E (Some EPERM) True r w of (r1, w1) \<Rightarrow> on_error_stop E r1 w1)"

definition get_next_index :: "nat \<Rightarrow> ('s, 'c) world \<Rightarrow> int" where
  "get_next_index rid w =
     (case map_of (w_store w) rid of
        None \<Rightarrow> 0
      | Some r \<Rightarrow> if r_has_succeeded r then r_next_index r - r_flying_append_entries_size r else 0)"

definition get_consecutive_error_times :: "nat \<Rightarrow> ('s, 'c) world \<Rightarrow> int" where
  "get_consecutive_error_times rid w =
     (case map_of (w_store w) rid of None \<Rightarrow> -1 | Some r \<Rightarrow> r_consecutive_error_times r)"

definition repl_readonly :: "nat \<Rightarrow> ('s, 'c) world \<Rightarrow> bool" where
  "repl_readonly rid w =
     (case map_of (w_store w) rid of None \<Rightarrow> False | Some r \<Rightarrow> r_readonly_index r \<noteq> 0)"

definition send_timeout_now_and_stop ::
  "'s repl_env \<Rightarrow> nat \<Rightarrow> int \<Rightarrow> ('s, 'c) world \<Rightarrow> ('s, 'c) world" where
  "send_timeout_now_and_stop E rid timeout_ms =
     with_replicator rid (\<lambda>r w. keep (send_timeout_now E True timeout_ms r w))"

record peer_status =
  ps_valid :: bool
  ps_installing_snapshot :: bool
  ps_blocking :: bool
  ps_next_index :: int
  ps_flying_append_entries_size :: int
  ps_last_rpc_send_timestamp :: int
  ps_consecutive_error_times :: int
  ps_readonly_index :: int

definition repl_get_status :: "nat \<Rightarrow> ('s, 'c) world \<Rightarrow> peer_status option" where
  "repl_get_status rid w =
     (case map_of (w_store w) rid of
        None \<Rightarrow> None
      | Some r \<Rightarrow> Some \<lparr>ps_valid = True, ps_installing_snapshot = (r_st r = INSTALLING_SNAPSHOT),
                       ps_blocking = (r_st r = BLOCKING), ps_next_index = r_next_index r,
                       ps_flying_append_entries_size = r_flying_append_entries_size r,
                       ps_last_rpc_send_timestamp = status_of rid w,
                       ps_consecutive_error_times = r_consecutive_error_times r,
                       ps_readonly_index = r_readonly_index r\<rparr>)"

subsection \<open>The replicator group\<close>

text \<open>\<open>_rmap\<close> is a \<^verbatim>\<open>std::map\<close>: its entries by increasing peer.\<close>

definition rmap_find :: "peer_id \<Rightarrow> ('s, 'c) world \<Rightarrow> nat option" where
  "rmap_find p w = map_option snd (find (\<lambda>(q, rid). peer_eq q p) (w_rmap w))"

fun rmap_insert :: "peer_id \<Rightarrow> 'v \<Rightarrow> (peer_id \<times> 'v) list \<Rightarrow> (peer_id \<times> 'v) list" where
  "rmap_insert p rid [] = [(p, rid)]"
| "rmap_insert p rid ((q, v) # m) =
     (if peer_lt p q then (p, rid) # (q, v) # m
      else if peer_lt q p then (q, v) # rmap_insert p rid m
      else (q, rid) # m)"

definition rmap_erase :: "peer_id \<Rightarrow> (peer_id \<times> nat) list \<Rightarrow> (peer_id \<times> nat) list" where
  "rmap_erase p m = filter (\<lambda>(q, rid). \<not> peer_eq q p) m"

definition rg_init ::
  "string \<Rightarrow> peer_id \<Rightarrow> int \<Rightarrow> int \<Rightarrow> ('s, 'c) world \<Rightarrow> ('s, 'c) world" where
  "rg_init grp server heartbeat_timeout_ms election_timeout_ms w =
     w\<lparr>w_dynamic_timeout_ms := heartbeat_timeout_ms, w_election_timeout_ms := election_timeout_ms,
       w_common_term := 0, w_common_group_id := grp, w_common_server_id := server\<rparr>"

definition add_replicator :: "'s repl_env \<Rightarrow> peer_id \<Rightarrow> ('s, 'c) world \<Rightarrow> rc \<times> ('s, 'c) world" where
  "add_replicator E peer w =
     (if rmap_find peer w \<noteq> None then (RcOk, w)
      else case repl_start E peer w of
             (None, w1) \<Rightarrow> (RcFail, w1)
           | (Some rid, w1) \<Rightarrow> (RcOk, w1\<lparr>w_rmap := rmap_insert peer rid (w_rmap w1)\<rparr>))"

definition wait_caughtup ::
  "'s repl_env \<Rightarrow> peer_id \<Rightarrow> int \<Rightarrow> int option \<Rightarrow> on_caught_up \<Rightarrow> ('s, 'c) world \<Rightarrow> rc \<times> ('s, 'c) world" where
  "wait_caughtup E peer max_margin due_time done w =
     (case rmap_find peer w of
        None \<Rightarrow> (RcFail, w)
      | Some rid \<Rightarrow>
          (RcOk, if repl_alive rid w
                 then with_replicator rid (\<lambda>r w. keep (wait_for_caught_up E max_margin due_time done r w)) w
                 else emit [FxCaughtUp done (StatusErr EINVAL)] w))"

definition last_rpc_send_timestamp :: "peer_id \<Rightarrow> ('s, 'c) world \<Rightarrow> int" where
  "last_rpc_send_timestamp peer w =
     (case rmap_find peer w of None \<Rightarrow> 0 | Some rid \<Rightarrow> status_of rid w)"

definition stop_replicator :: "'s repl_env \<Rightarrow> peer_id \<Rightarrow> ('s, 'c) world \<Rightarrow> rc \<times> ('s, 'c) world" where
  "stop_replicator E peer w =
     (case rmap_find peer w of
        None \<Rightarrow> (RcFail, w)
      | Some rid \<Rightarrow> (RcOk, repl_stop E rid (w\<lparr>w_rmap := rmap_erase peer (w_rmap w)\<rparr>)))"

definition stop_all :: "'s repl_env \<Rightarrow> ('s, 'c) world \<Rightarrow> ('s, 'c) world" where
  "stop_all E w = fold (repl_stop E) (map snd (w_rmap w)) (w\<lparr>w_rmap := []\<rparr>)"

definition rg_contains :: "peer_id \<Rightarrow> ('s, 'c) world \<Rightarrow> bool" where
  "rg_contains peer w \<longleftrightarrow> rmap_find peer w \<noteq> None"

definition reset_term :: "int \<Rightarrow> ('s, 'c) world \<Rightarrow> rc \<times> ('s, 'c) world" where
  "reset_term new_term w =
     (if new_term \<le> w_common_term w then (RcFail, w) else (RcOk, w\<lparr>w_common_term := new_term\<rparr>))"

definition reset_heartbeat_interval :: "int \<Rightarrow> ('s, 'c) world \<Rightarrow> ('s, 'c) world" where
  "reset_heartbeat_interval new_interval_ms w = w\<lparr>w_dynamic_timeout_ms := new_interval_ms\<rparr>"

definition reset_election_timeout_interval :: "int \<Rightarrow> ('s, 'c) world \<Rightarrow> ('s, 'c) world" where
  "reset_election_timeout_interval new_interval_ms w = w\<lparr>w_election_timeout_ms := new_interval_ms\<rparr>"

definition rg_transfer_leadership_to ::
  "'s repl_env \<Rightarrow> peer_id \<Rightarrow> int \<Rightarrow> ('s, 'c) world \<Rightarrow> rc \<times> ('s, 'c) world" where
  "rg_transfer_leadership_to E peer log_index w =
     (case rmap_find peer w of
        None \<Rightarrow> (RcErr EINVAL, w)
      | Some rid \<Rightarrow>
          if get_consecutive_error_times rid w > 0 then (RcErr EHOSTUNREACH, w)
          else if \<not> repl_alive rid w then (RcErr EINVAL, w)
          else (RcOk, with_replicator rid (\<lambda>r w. keep (transfer_leadership E log_index r w)) w))"

definition rg_stop_transfer_leadership :: "peer_id \<Rightarrow> ('s, 'c) world \<Rightarrow> rc \<times> ('s, 'c) world" where
  "rg_stop_transfer_leadership peer w =
     (case rmap_find peer w of
        None \<Rightarrow> (RcFail, w)
      | Some rid \<Rightarrow>
          if \<not> repl_alive rid w then (RcErr EINVAL, w)
          else (RcOk, with_replicator rid (\<lambda>r w. (Some (r\<lparr>r_timeout_now_index := 0\<rparr>), w)) w))"

fun next_candidate_loop ::
  "conf_entry \<Rightarrow> ('s, 'c) world \<Rightarrow> (peer_id \<times> nat) list \<Rightarrow> int \<Rightarrow> peer_id \<Rightarrow> int \<times> peer_id" where
  "next_candidate_loop c w [] max_index best = (max_index, best)"
| "next_candidate_loop c w ((p, rid) # ps) max_index best =
     (if ce_contains c p \<and> get_consecutive_error_times rid w = 0 \<and> get_next_index rid w > max_index
         \<and> \<not> peer_is_witness p
      then next_candidate_loop c w ps (get_next_index rid w) p
      else next_candidate_loop c w ps max_index best)"

definition find_the_next_candidate :: "'s repl_env \<Rightarrow> conf_entry \<Rightarrow> ('s, 'c) world \<Rightarrow> peer_id option" where
  "find_the_next_candidate E c w =
     (case next_candidate_loop c w (re_shuffle E (w_rmap w)) 0 empty_peer of
        (max_index, best) \<Rightarrow> if max_index = 0 then None else Some best)"

text \<open>The id of no replicator is 0; \<open>w_next_rid\<close> starts above it.\<close>

definition stop_all_and_find_the_next_candidate ::
  "'s repl_env \<Rightarrow> conf_entry \<Rightarrow> ('s, 'c) world \<Rightarrow> nat \<times> ('s, 'c) world" where
  "stop_all_and_find_the_next_candidate E c w =
     (let candidate = (case find_the_next_candidate E c w of
                         None \<Rightarrow> 0
                       | Some p \<Rightarrow> (case rmap_find p w of None \<Rightarrow> 0 | Some rid \<Rightarrow> rid));
          w1 = fold (repl_stop E) (filter (\<lambda>rid. rid \<noteq> candidate) (map snd (w_rmap w))) w
      in (candidate, w1\<lparr>w_rmap := []\<rparr>))"

definition rg_change_readonly_config ::
  "'s repl_env \<Rightarrow> peer_id \<Rightarrow> bool \<Rightarrow> ('s, 'c) world \<Rightarrow> rc \<times> ('s, 'c) world" where
  "rg_change_readonly_config E peer readonly w =
     (case rmap_find peer w of
        None \<Rightarrow> (RcFail, w)
      | Some rid \<Rightarrow> (RcOk, with_replicator rid (\<lambda>r w. keep (change_readonly E readonly r w)) w))"

definition rg_readonly :: "peer_id \<Rightarrow> ('s, 'c) world \<Rightarrow> bool" where
  "rg_readonly peer w = (case rmap_find peer w of None \<Rightarrow> False | Some rid \<Rightarrow> repl_readonly rid w)"

end
