(* ===== verification/AppendCache.thy ===== *)
theory AppendCache
  imports RaftMessages "HOL-Library.Multiset"
begin

section \<open>The cache of out-of-order append-entries requests (node.h, node.cpp: AppendEntriesCache)\<close>

text \<open>
  Requests are in a queue by arrival and in a map by \<open>prev_log_index\<close>. Operations return the
  cache and the effects: requests handed to a new thread, timers, failed replies. \<open>cache_env\<close>
  says whether a timer and a thread can start, whether deleting a timer succeeds, and gives the
  election timeout and the size limit.
\<close>

record append_cache =
  ac_queue :: "append_entries_rpc list"
  ac_map :: "(int \<times> append_entries_rpc) list"
  ac_timer :: bool
  ac_cache_version :: int
  ac_timer_version :: int

record cache_env =
  ae_timer_ok :: bool
  ae_timer_del_ok :: bool
  ae_thread_ok :: bool
  ae_election_timeout_ms :: int
  ae_max_size :: nat

abbreviation arpc_prev :: "append_entries_rpc \<Rightarrow> int" where
  "arpc_prev p \<equiv> aq_prev_log_index (arpc_request p)"

abbreviation arpc_size :: "append_entries_rpc \<Rightarrow> int" where
  "arpc_size p \<equiv> int (length (aq_entries (arpc_request p)))"

text \<open>The constructor takes a version and sets \<open>_cache_version\<close> to 0.\<close>

definition append_cache_new :: "int \<Rightarrow> append_cache" where
  "append_cache_new version =
     \<lparr>ac_queue = [], ac_map = [], ac_timer = False, ac_cache_version = 0, ac_timer_version = 0\<rparr>"

definition ac_first_index :: "append_cache \<Rightarrow> int" where
  "ac_first_index c = arpc_prev (snd (hd (ac_map c))) + 1"

definition ac_empty :: "append_cache \<Rightarrow> bool" where
  "ac_empty c \<longleftrightarrow> ac_map c = []"

text \<open>\<open>std::map\<close>: \<open>insert\<close> leaves an existing key alone.\<close>

fun map_insert :: "int \<Rightarrow> 'a \<Rightarrow> (int \<times> 'a) list \<Rightarrow> (int \<times> 'a) list" where
  "map_insert k v [] = [(k, v)]"
| "map_insert k v ((k', v') # m) =
     (if k < k' then (k, v) # (k', v') # m
      else if k' < k then (k', v') # map_insert k v m
      else (k', v') # m)"

definition ac_start_to_handle :: "cache_env \<Rightarrow> append_entries_rpc list \<Rightarrow> 'c fx list" where
  "ac_start_to_handle E rpcs =
     (if ae_thread_ok E then [FxHandleFromCache rpcs]
      else map (\<lambda>p. FxAppendFailed (arpc_call p) EINVAL) rpcs)"

definition ac_start_timer :: "cache_env \<Rightarrow> append_cache \<Rightarrow> bool \<times> append_cache \<times> 'c fx list" where
  "ac_start_timer E c =
     (let c1 = c\<lparr>ac_timer_version := ac_timer_version c + 1\<rparr>;
          start_ms = arpc_receive_time_ms (hd (ac_queue c1))
      in if ae_timer_ok E
         then (True, c1\<lparr>ac_timer := True\<rparr>,
               [FxCacheTimer (ac_cache_version c1) (ac_timer_version c1) start_ms
                  (start_ms + max (ae_election_timeout_ms E div 4) 1)])
         else (False, c1, []))"

definition ac_stop_timer :: "cache_env \<Rightarrow> append_cache \<Rightarrow> append_cache \<times> 'c fx list" where
  "ac_stop_timer E c =
     (if \<not> ac_timer c then (c, [])
      else (let c1 = c\<lparr>ac_timer_version := ac_timer_version c + 1\<rparr>
            in if ae_timer_del_ok E then (c1\<lparr>ac_timer := False\<rparr>, [FxCacheTimerDel]) else (c1, [])))"

definition ac_clear :: "cache_env \<Rightarrow> append_cache \<Rightarrow> append_cache \<times> 'c fx list" where
  "ac_clear E c =
     (case ac_stop_timer E c of
        (c1, fx) \<Rightarrow> (c1\<lparr>ac_queue := [], ac_map := []\<rparr>, fx @ ac_start_to_handle E (ac_queue c1)))"

text \<open>Does the request overlap its neighbours in the map?\<close>

definition ac_overlaps :: "append_entries_rpc \<Rightarrow> append_cache \<Rightarrow> bool" where
  "ac_overlaps rpc c =
     (let rpc_prev_index = arpc_prev rpc;
          rpc_last_index = rpc_prev_index + arpc_size rpc;
          prior = takeWhile (\<lambda>(k, p). k < rpc_prev_index) (ac_map c);
          after = dropWhile (\<lambda>(k, p). k < rpc_prev_index) (ac_map c)
      in prior \<noteq> [] \<and> arpc_prev (snd (last prior)) + arpc_size (snd (last prior)) > rpc_prev_index
         \<or> after \<noteq> [] \<and> arpc_prev (snd (hd after)) < rpc_last_index)"

text \<open>The loop that releases the last requests beyond the size limit.\<close>

fun ac_release :: "nat \<Rightarrow> append_cache \<Rightarrow> append_entries_rpc list \<Rightarrow> append_cache \<times> append_entries_rpc list" where
  "ac_release 0 c out = (c, out)"
| "ac_release (Suc n) c out =
     (let rpc = snd (last (ac_map c))
      in ac_release n (c\<lparr>ac_queue := remove1 rpc (ac_queue c), ac_map := butlast (ac_map c)\<rparr>) (out @ [rpc]))"

definition ac_store :: "cache_env \<Rightarrow> append_entries_rpc \<Rightarrow> append_cache \<Rightarrow> bool \<times> append_cache \<times> 'c fx list" where
  "ac_store E rpc c =
     (let (c1, fx1) = (if ac_map c \<noteq> [] \<and> ac_overlaps rpc c then ac_clear E c else (c, []));
          c2 = c1\<lparr>ac_queue := ac_queue c1 @ [rpc], ac_map := map_insert (arpc_prev rpc) rpc (ac_map c1)\<rparr>;
          (ok, c3, fx3) = (if length (ac_map c2) = 1 then ac_start_timer E c2 else (True, c2, []))
      in if \<not> ok then (case ac_clear E c3 of (c4, fx4) \<Rightarrow> (True, c4, fx1 @ fx3 @ fx4))
         else (case ac_release (length (ac_map c3) - ae_max_size E) c3 [] of
                 (c4, out) \<Rightarrow> (True, c4, fx1 @ fx3 @ (if out = [] then [] else ac_start_to_handle E out))))"

text \<open>The requests that follow on the local log, each from where the one before it ends.\<close>

fun runable :: "int \<Rightarrow> (int \<times> append_entries_rpc) list \<Rightarrow> append_entries_rpc list" where
  "runable l [] = []"
| "runable l ((k, p) # m) =
     (if arpc_prev p > l then [] else p # runable (arpc_prev p + arpc_size p) m)"

definition ac_process_runable_rpcs :: "cache_env \<Rightarrow> int \<Rightarrow> append_cache \<Rightarrow> append_cache \<times> 'c fx list" where
  "ac_process_runable_rpcs E local_last_index c =
     (let out = runable local_last_index (ac_map c);
          c1 = c\<lparr>ac_map := drop (length out) (ac_map c), ac_queue := fold remove1 out (ac_queue c)\<rparr>;
          fx = (if out = [] then [] else ac_start_to_handle E out)
      in if ac_map c1 = [] then (case ac_stop_timer E c1 of (c2, fx2) \<Rightarrow> (c2, fx @ fx2)) else (c1, fx))"

definition ac_timedout :: "cache_env \<Rightarrow> int \<Rightarrow> int \<Rightarrow> append_cache \<Rightarrow> append_cache \<times> 'c fx list" where
  "ac_timedout E timer_version timer_start_ms c =
     (if timer_version \<noteq> ac_timer_version c then (c, [])
      else if arpc_receive_time_ms (hd (ac_queue c)) \<le> timer_start_ms then ac_clear E c
      else (case ac_start_timer E c of
              (ok, c1, fx) \<Rightarrow> if ok then (c1, fx) else (case ac_clear E c1 of (c2, fx2) \<Rightarrow> (c2, fx @ fx2))))"

subsection \<open>No request is lost or handled twice\<close>

text \<open>\<open>handed fx\<close>: the requests the effects give to a thread or answer.\<close>

fun fx_handed :: "'c fx \<Rightarrow> nat list" where
  "fx_handed (FxHandleFromCache ps) = map arpc_call ps"
| "fx_handed (FxAppendFailed call e) = [call]"
| "fx_handed _ = []"

definition handed :: "'c fx list \<Rightarrow> nat multiset" where
  "handed fx = mset (concat (map fx_handed fx))"

definition cached :: "append_cache \<Rightarrow> nat multiset" where
  "cached c = mset (map arpc_call (ac_queue c))"

lemma handed_simps [simp]:
  "handed [] = {#}" "handed (a @ b) = handed a + handed b"
  by (simp_all add: handed_def)

lemma handed_start_to_handle [simp]: "handed (ac_start_to_handle E ps) = mset (map arpc_call ps)"
proof (cases "ae_thread_ok E")
  case True
  then show ?thesis by (simp add: ac_start_to_handle_def handed_def)
next
  case False
  have "concat (map (\<lambda>p. [arpc_call p]) ps) = map arpc_call ps"
    by (induction ps) auto
  with False show ?thesis by (simp add: ac_start_to_handle_def handed_def comp_def)
qed

text \<open>The invariant: the map lists the queue by \<open>prev_log_index\<close>, without overlaps.\<close>

fun disjoint_from :: "int \<Rightarrow> (int \<times> append_entries_rpc) list \<Rightarrow> bool" where
  "disjoint_from i [] \<longleftrightarrow> True"
| "disjoint_from i ((k, p) # m) \<longleftrightarrow>
     k = arpc_prev p \<and> i \<le> k \<and> 0 < arpc_size p \<and> disjoint_from (k + arpc_size p) m"

definition ac_wf :: "append_cache \<Rightarrow> bool" where
  "ac_wf c \<longleftrightarrow> mset (ac_queue c) = mset (map snd (ac_map c))
     \<and> (ac_map c \<noteq> [] \<longrightarrow> disjoint_from (fst (hd (ac_map c))) (ac_map c))"

lemma handed_timers [simp]:
  "handed (fx # fxs) = mset (fx_handed fx) + handed fxs"
  by (simp add: handed_def)

lemma disjoint_from_mono: "disjoint_from i m \<Longrightarrow> j \<le> i \<Longrightarrow> disjoint_from j m"
  by (cases m) auto

lemma disjoint_from_append:
  "disjoint_from i (m @ m') \<longleftrightarrow>
     disjoint_from i m \<and> disjoint_from (if m = [] then i else fst (last m) + arpc_size (snd (last m))) m'"
  by (induction i m rule: disjoint_from.induct) auto

lemma disjoint_from_key: "disjoint_from i m \<Longrightarrow> (k, p) \<in> set m \<Longrightarrow> k = arpc_prev p \<and> i \<le> k \<and> 0 < arpc_size p"
  by (induction i m rule: disjoint_from.induct) force+

text \<open>A request that does not overlap is inserted between its neighbours.\<close>

lemma map_insert_split:
  "\<forall>(k', p) \<in> set m. k' \<noteq> k \<Longrightarrow>
   map_insert k v m = takeWhile (\<lambda>(k', p). k' < k) m @ (k, v) # dropWhile (\<lambda>(k', p). k' < k) m"
  by (induction k v m rule: map_insert.induct) auto

lemma overlap_insert:
  assumes d: "disjoint_from i (ac_map c)" and no: "\<not> ac_overlaps rpc c" and sz: "0 < arpc_size rpc"
  shows "disjoint_from (min i (arpc_prev rpc)) (map_insert (arpc_prev rpc) rpc (ac_map c))"
    and "mset (map snd (map_insert (arpc_prev rpc) rpc (ac_map c))) = add_mset rpc (mset (map snd (ac_map c)))"
    and "length (map_insert (arpc_prev rpc) rpc (ac_map c)) = Suc (length (ac_map c))"
proof -
  let ?k = "arpc_prev rpc" and ?m = "ac_map c"
  let ?b = "takeWhile (\<lambda>(k', p). k' < ?k) ?m" and ?a = "dropWhile (\<lambda>(k', p). k' < ?k) ?m"
  have split: "?b @ ?a = ?m" by simp
  then have db: "disjoint_from i ?b"
    and da: "disjoint_from (if ?b = [] then i else fst (last ?b) + arpc_size (snd (last ?b))) ?a"
    using d disjoint_from_append [of i ?b ?a] by simp_all
  have lastb: "fst (last ?b) + arpc_size (snd (last ?b)) \<le> ?k" if "?b \<noteq> []"
    using that no disjoint_from_key [OF db, of "fst (last ?b)" "snd (last ?b)"]
    by (simp add: ac_overlaps_def Let_def)
  have hda: "?k + arpc_size rpc \<le> fst (hd ?a)" if "?a \<noteq> []"
    using that no disjoint_from_key [OF da, of "fst (hd ?a)" "snd (hd ?a)"]
    by (simp add: ac_overlaps_def Let_def)
  have da': "disjoint_from (?k + arpc_size rpc) ?a"
  proof (cases ?a)
    case (Cons x xs)
    obtain k p where x: "x = (k, p)" by fastforce
    show ?thesis
      using da hda unfolding Cons x by auto
  next
    case Nil
    then show ?thesis by (simp only: disjoint_from.simps)
  qed
  have ne: "\<forall>(k', p) \<in> set ?m. k' \<noteq> ?k"
  proof clarify
    fix p
    assume "(?k, p) \<in> set ?m"
    then have "(?k, p) \<in> set ?b \<or> (?k, p) \<in> set ?a"
      using split by (metis Un_iff set_append)
    then show False
    proof
      assume "(?k, p) \<in> set ?b"
      then show False by (auto dest: set_takeWhileD)
    next
      assume "(?k, p) \<in> set ?a"
      from disjoint_from_key [OF da' this] sz show False by linarith
    qed
  qed
  note ins = map_insert_split [OF ne, of rpc]
  show "disjoint_from (min i ?k) (map_insert ?k rpc ?m)"
    unfolding ins disjoint_from_append
    using disjoint_from_mono [OF db, of "min i ?k"] da' sz lastb by auto
  show "mset (map snd (map_insert ?k rpc ?m)) = add_mset rpc (mset (map snd ?m))"
  proof -
    have "mset (map snd ?m) = mset (map snd ?b) + mset (map snd ?a)"
      using split by (metis map_append mset_append)
    then show ?thesis
      unfolding ins by (simp only: map_append list.map mset_append mset.simps snd_conv union_mset_add_mset_right)
  qed
  show "length (map_insert ?k rpc ?m) = Suc (length ?m)"
  proof -
    have "length ?m = length ?b + length ?a"
      using split by (metis length_append)
    then show ?thesis unfolding ins by simp
  qed
qed

lemma ac_clear_spec:
  assumes "ac_clear E c = (c', fx)"
  shows "cached c' = {#}" and "handed fx = cached c" and "ac_wf c'" and "ac_map c' = []"
  using assms by (auto simp: ac_clear_def ac_stop_timer_def cached_def ac_wf_def Let_def split: if_splits)

lemma ac_start_timer_spec:
  "ac_start_timer E c = (ok, c', fx) \<Longrightarrow>
   handed fx = {#} \<and> ac_queue c' = ac_queue c \<and> ac_map c' = ac_map c"
  by (auto simp: ac_start_timer_def Let_def split: if_splits)

lemma mset_remove1_map:
  "x \<in># mset xs \<Longrightarrow> mset (map f (remove1 x xs)) + {#f x#} = mset (map f xs)"
  by (induction xs) auto

lemma ac_release_spec:
  assumes "ac_wf c" and "n \<le> length (ac_map c)" and "ac_release n c out = (c', out')"
  shows "ac_wf c' \<and> length (ac_map c') = length (ac_map c) - n
     \<and> cached c' + mset (map arpc_call out') = cached c + mset (map arpc_call out)"
  using assms
proof (induction n arbitrary: c out)
  case 0
  then show ?case by simp
next
  case (Suc n)
  let ?m = "ac_map c"
  let ?rpc = "snd (last ?m)"
  let ?c = "c\<lparr>ac_queue := remove1 ?rpc (ac_queue c), ac_map := butlast ?m\<rparr>"
  have ne: "?m \<noteq> []" using Suc.prems(2) by auto
  then have bl: "butlast ?m @ [last ?m] = ?m" by simp
  have q: "mset (ac_queue c) = add_mset ?rpc (mset (map snd (butlast ?m)))"
    using Suc.prems(1) arg_cong [OF bl, of "\<lambda>m. mset (map snd m)"] by (simp add: ac_wf_def)
  have "disjoint_from (fst (hd ?m)) (butlast ?m)"
    using Suc.prems(1) ne disjoint_from_append [of _ "butlast ?m" "[last ?m]"] bl by (simp add: ac_wf_def)
  moreover have "butlast ?m \<noteq> [] \<Longrightarrow> hd (butlast ?m) = hd ?m"
    using bl by (metis hd_append2)
  ultimately have wf: "ac_wf ?c"
    using q by (simp add: ac_wf_def)
  have "cached ?c + {#arpc_call ?rpc#} = cached c"
    using q mset_remove1_map [of ?rpc "ac_queue c" arpc_call] by (simp add: cached_def)
  moreover have "ac_wf c' \<and> length (ac_map c') = length (ac_map ?c) - n
     \<and> cached c' + mset (map arpc_call out') = cached ?c + mset (map arpc_call (out @ [?rpc]))"
    using Suc.prems wf by (intro Suc.IH) (simp_all add: Let_def)
  ultimately show ?case
    by (simp add: add.commute add.left_commute)
qed

lemma ac_wf_disjoint: "ac_wf c \<Longrightarrow> \<exists>i. disjoint_from i (ac_map c)"
  by (cases "ac_map c = []") (auto simp: ac_wf_def)

lemma ac_wfI:
  assumes "mset (ac_queue c) = mset (map snd (ac_map c))" and "disjoint_from i (ac_map c)"
  shows "ac_wf c"
proof (cases "ac_map c")
  case (Cons x m)
  obtain k p where "x = (k, p)" by fastforce
  with Cons assms show ?thesis by (auto simp: ac_wf_def)
qed (use assms in \<open>simp add: ac_wf_def\<close>)

lemma ac_store_lemma:
  fixes fx :: "'c fx list"
  assumes wf: "ac_wf c" and sz: "0 < arpc_size rpc" and st: "ac_store E rpc c = (ok, c', fx)"
  shows "ok" and "ac_wf c'" and "handed fx + cached c' = add_mset (arpc_call rpc) (cached c)"
    and "length (ac_map c') \<le> ae_max_size E"
proof -
  obtain c1 and fx1 :: "'c fx list" where 1: "(if ac_map c \<noteq> [] \<and> ac_overlaps rpc c then ac_clear E c else (c, [])) = (c1, fx1)"
    by fastforce
  have c1: "ac_wf c1" "handed fx1 + cached c1 = cached c" "\<not> ac_overlaps rpc c1"
  proof (atomize (full), cases "ac_map c \<noteq> [] \<and> ac_overlaps rpc c")
    case True
    with 1 have "ac_clear E c = (c1, fx1)" by simp
    from ac_clear_spec [OF this] show "ac_wf c1 \<and> handed fx1 + cached c1 = cached c \<and> \<not> ac_overlaps rpc c1"
      by (simp add: ac_overlaps_def)
  next
    case False
    with 1 wf show "ac_wf c1 \<and> handed fx1 + cached c1 = cached c \<and> \<not> ac_overlaps rpc c1"
      by (auto simp: ac_overlaps_def)
  qed
  let ?c2 = "c1\<lparr>ac_queue := ac_queue c1 @ [rpc], ac_map := map_insert (arpc_prev rpc) rpc (ac_map c1)\<rparr>"
  obtain i where i: "disjoint_from i (ac_map c1)"
    using ac_wf_disjoint [OF c1(1)] by blast
  note ins = overlap_insert [OF i c1(3) sz]
  have wf2: "ac_wf ?c2"
    using c1(1) ins by (intro ac_wfI [where i = "min i (arpc_prev rpc)"]) (simp_all add: ac_wf_def)
  have cached2: "cached ?c2 = add_mset (arpc_call rpc) (cached c1)"
    by (simp add: cached_def)
  obtain ok3 c3 and fx3 :: "'c fx list" where 3: "(if length (ac_map ?c2) = 1 then ac_start_timer E ?c2 else (True, ?c2, [])) = (ok3, c3, fx3)"
    by (metis prod_cases3)
  have c3: "handed fx3 = {#}" "ac_queue c3 = ac_queue ?c2" "ac_map c3 = ac_map ?c2"
    using 3 ac_start_timer_spec [of E ?c2 ok3 c3 fx3] by (auto split: if_splits)
  have wf3: "ac_wf c3" "cached c3 = add_mset (arpc_call rpc) (cached c1)"
    using wf2 cached2 c3 by (simp_all add: ac_wf_def cached_def)
  have st': "ac_store E rpc c = (if \<not> ok3 then (case ac_clear E c3 of (c4, fx4) \<Rightarrow> (True, c4, fx1 @ fx3 @ fx4))
         else (case ac_release (length (ac_map c3) - ae_max_size E) c3 [] of
                 (c4, out) \<Rightarrow> (True, c4, fx1 @ fx3 @ (if out = [] then [] else ac_start_to_handle E out))))"
    unfolding ac_store_def 1 Let_def prod.case 3 by simp
  have "ok \<and> ac_wf c' \<and> handed fx + cached c' = add_mset (arpc_call rpc) (cached c)
      \<and> length (ac_map c') \<le> ae_max_size E"
  proof (cases ok3)
    case False
    obtain c4 and fx4 :: "'c fx list" where 4: "ac_clear E c3 = (c4, fx4)" by fastforce
    from st st' False 4 have "ok" "c' = c4" "fx = fx1 @ fx3 @ fx4" by auto
    then show ?thesis
      using ac_clear_spec [OF 4] c1(2) c3(1) wf3(2) by auto
  next
    case True
    obtain c4 out where 4: "ac_release (length (ac_map c3) - ae_max_size E) c3 [] = (c4, out)" by fastforce
    from st st' True 4 have r: "ok" "c' = c4" "fx = fx1 @ fx3 @ (if out = [] then [] else ac_start_to_handle E out)"
      by auto
    then have "handed fx = handed fx1 + mset (map arpc_call out)"
      using c3(1) by simp
    then have "handed fx + cached c4 = handed fx1 + (cached c4 + mset (map arpc_call out))"
      by (simp add: ac_simps)
    also have "cached c4 + mset (map arpc_call out) = add_mset (arpc_call rpc) (cached c1)"
      using ac_release_spec [OF wf3(1) _ 4] wf3(2) by simp
    also have "handed fx1 + add_mset (arpc_call rpc) (cached c1) = add_mset (arpc_call rpc) (cached c)"
      using c1(2) by simp
    finally show ?thesis
      using r ac_release_spec [OF wf3(1) _ 4] by simp
  qed
  then show "ok" and "ac_wf c'" and "handed fx + cached c' = add_mset (arpc_call rpc) (cached c)"
    and "length (ac_map c') \<le> ae_max_size E" by auto
qed

text \<open>The requests that can run are a prefix of the map.\<close>

lemma runable_prefix: "runable l m = map snd (take (length (runable l m)) m)"
  by (induction l m rule: runable.induct) auto

lemma runable_stops:
  "length (runable l m) < length m \<Longrightarrow>
   arpc_prev (snd (m ! length (runable l m))) >
     (if runable l m = [] then l else arpc_prev (last (runable l m)) + arpc_size (last (runable l m)))"
proof (induction l m rule: runable.induct)
  case (2 l k p m)
  then show ?case by (auto split: if_splits)
qed simp

lemma runable_chain:
  "runable l m \<noteq> [] \<Longrightarrow> arpc_prev (hd (runable l m)) \<le> l"
  by (cases m) (auto split: if_splits)

lemma mset_fold_remove1: "mset (fold remove1 xs ys) = mset ys - mset xs"
  by (induction xs arbitrary: ys) (simp_all add: diff_diff_add_mset)

lemma ac_process_lemma:
  assumes wf: "ac_wf c" and pr: "ac_process_runable_rpcs E l c = (c', fx)"
  shows "ac_wf c'" and "handed fx = mset (map arpc_call (runable l (ac_map c)))"
    and "handed fx + cached c' = cached c" and "ac_map c' = drop (length (runable l (ac_map c))) (ac_map c)"
proof -
  let ?out = "runable l (ac_map c)" and ?m = "ac_map c"
  let ?c1 = "c\<lparr>ac_map := drop (length ?out) ?m, ac_queue := fold remove1 ?out (ac_queue c)\<rparr>"
  have split: "map snd ?m = ?out @ map snd (drop (length ?out) ?m)"
    using runable_prefix [of l ?m] by (metis append_take_drop_id map_append)
  have q: "mset (ac_queue c) = mset ?out + mset (map snd (drop (length ?out) ?m))"
    using wf arg_cong [OF split, of mset] by (simp add: ac_wf_def)
  have q1: "mset (fold remove1 ?out (ac_queue c)) = mset (map snd (drop (length ?out) ?m))"
    by (simp add: mset_fold_remove1 q)
  obtain i where i: "disjoint_from i ?m"
    using ac_wf_disjoint [OF wf] by blast
  obtain j where "disjoint_from j (drop (length ?out) ?m)"
    using i disjoint_from_append [of i "take (length ?out) ?m" "drop (length ?out) ?m"] by auto
  then have wf1: "ac_wf ?c1"
    using q1 by (intro ac_wfI [of ?c1 j]) simp_all
  have cons: "mset (map arpc_call ?out) + cached ?c1 = cached c"
    using arg_cong [OF q, of "image_mset arpc_call"] arg_cong [OF q1, of "image_mset arpc_call"]
    by (simp add: cached_def)
  have fx: "c' = (if ac_map ?c1 = [] then fst (ac_stop_timer E ?c1) else ?c1)
      \<and> handed fx = mset (map arpc_call ?out)"
    using pr by (auto simp: ac_process_runable_rpcs_def ac_stop_timer_def Let_def split: prod.splits if_splits)
  have c': "ac_queue c' = ac_queue ?c1 \<and> ac_map c' = ac_map ?c1"
    using fx by (auto simp: ac_stop_timer_def Let_def)
  show "ac_wf c'" and "handed fx = mset (map arpc_call ?out)" and "handed fx + cached c' = cached c"
    and "ac_map c' = drop (length ?out) ?m"
    using wf1 conjunct2 [OF fx] c' cons by (simp_all add: ac_wf_def cached_def)
qed

lemma ac_timedout_lemma:
  fixes fx :: "'c fx list"
  assumes wf: "ac_wf c" and t: "ac_timedout E v ms c = (c', fx)"
  shows "ac_wf c'" and "handed fx + cached c' = cached c"
proof -
  obtain ok c1 and fx1 :: "'c fx list" where 1: "ac_start_timer E c = (ok, c1, fx1)" by (metis prod_cases3)
  obtain c2 and fx2 :: "'c fx list" where 2: "ac_clear E c1 = (c2, fx2)" by fastforce
  obtain c3 and fx3 :: "'c fx list" where 3: "ac_clear E c = (c3, fx3)" by fastforce
  note s1 = ac_start_timer_spec [OF 1] and s2 = ac_clear_spec [OF 2] and s3 = ac_clear_spec [OF 3]
  have "cached c1 = cached c" "ac_wf c1"
    using s1 wf by (simp_all add: cached_def ac_wf_def)
  with t wf 1 2 3 s1 s2 s3 show "ac_wf c'" and "handed fx + cached c' = cached c"
    unfolding ac_timedout_def by (auto split: if_splits prod.splits)
qed

subsection \<open>Properties\<close>

definition sample_rpc :: "nat \<Rightarrow> int \<Rightarrow> append_entries_rpc" where
  "sample_rpc call prev =
     \<lparr>arpc_call = call,
      arpc_request = \<lparr>aq_group_id = [], aq_server_id = [], aq_peer_id = [], aq_term = 1, aq_prev_log_term = 1,
        aq_prev_log_index = prev,
        aq_entries = [\<lparr>em_term = 1, em_type = ENTRY_TYPE_DATA, em_peers = [], em_old_peers = [], em_data_len = Some 0\<rparr>],
        aq_committed_index = 0, aq_attachment = []\<rparr>,
      arpc_receive_time_ms = 5\<rparr>"

definition sample_cache :: append_cache where
  "sample_cache = \<lparr>ac_queue = [sample_rpc 1 8, sample_rpc 2 6, sample_rpc 3 7],
     ac_map = [(6, sample_rpc 2 6), (7, sample_rpc 3 7), (8, sample_rpc 1 8)],
     ac_timer = True, ac_cache_version = 0, ac_timer_version = 1\<rparr>"

definition sample_cache_env :: cache_env where
  "sample_cache_env = \<lparr>ae_timer_ok = True, ae_timer_del_ok = True, ae_thread_ok = False,
                       ae_election_timeout_ms = 1000, ae_max_size = 3\<rparr>"

lemma ac_wf_sample: "ac_wf sample_cache"
  by (simp add: ac_wf_def sample_cache_def sample_rpc_def)

text \<open>
  C31 (invariant): storing an out-of-order request loses none and answers none twice: whether it overlaps
  (and clears the cache), a timer or thread cannot start, or the cache is full, the requests handed on
  together with those still cached are the ones cached before and the new one; the cache stays sorted and
  free of overlaps, and within its size limit.
\<close>

theorem store_loses_no_request:
  fixes fx :: "'c fx list"
  assumes "ac_wf c" and "0 < arpc_size rpc" and "ac_store E rpc c = (ok, c', fx)"
  shows "ok \<and> ac_wf c' \<and> handed fx + cached c' = add_mset (arpc_call rpc) (cached c)
     \<and> length (ac_map c') \<le> ae_max_size E"
  using ac_store_lemma [OF assms] by blast

theorem store_loses_no_request_witness:
  "length (ac_map (fst (snd (ac_store sample_cache_env (sample_rpc 4 5) sample_cache :: bool \<times> append_cache \<times> nat fx list)))) \<le> 3"
proof -
  obtain ok c' and fx :: "nat fx list" where st: "ac_store sample_cache_env (sample_rpc 4 5) sample_cache = (ok, c', fx)"
    by (metis prod_cases3)
  have "0 < arpc_size (sample_rpc 4 5)" by (simp add: sample_rpc_def)
  from store_loses_no_request [OF ac_wf_sample this st] show ?thesis
    by (simp add: st) (simp add: sample_cache_env_def)
qed

text \<open>
  When the local log reaches an index, the cache hands on the longest prefix of requests
  that each start within what the log and the ones before them cover, keeps exactly the others, and loses
  none.
\<close>

theorem process_hands_on_runable_prefix:
  fixes fx :: "'c fx list"
  assumes "ac_wf c" and "ac_process_runable_rpcs E l c = (c', fx)"
  shows "\<exists>out. map snd (ac_map c) = out @ map snd (ac_map c') \<and> handed fx = mset (map arpc_call out)
     \<and> handed fx + cached c' = cached c \<and> ac_wf c'
     \<and> (out \<noteq> [] \<longrightarrow> arpc_prev (hd out) \<le> l)
     \<and> (ac_map c' \<noteq> [] \<longrightarrow>
          arpc_prev (snd (hd (ac_map c'))) > (if out = [] then l else arpc_prev (last out) + arpc_size (last out)))"
proof -
  let ?out = "runable l (ac_map c)"
  note post = ac_process_lemma [OF assms]
  have "map snd (ac_map c) = ?out @ map snd (ac_map c')"
    unfolding post(4) using runable_prefix [of l "ac_map c"]
    by (metis append_take_drop_id map_append)
  moreover have "ac_map c' \<noteq> [] \<longrightarrow> length ?out < length (ac_map c) \<and> hd (ac_map c') = ac_map c ! length ?out"
    unfolding post(4) by (auto simp: hd_drop_conv_nth)
  ultimately show ?thesis
    using post runable_stops [of l "ac_map c"] runable_chain [of l "ac_map c"]
    by (intro exI [of _ ?out]) auto
qed

theorem process_hands_on_runable_prefix_witness:
  "\<exists>out. map snd (ac_map sample_cache)
     = out @ map snd (ac_map (fst (ac_process_runable_rpcs sample_cache_env 7 sample_cache :: append_cache \<times> nat fx list)))"
proof -
  obtain c' and fx :: "nat fx list" where pr: "ac_process_runable_rpcs sample_cache_env 7 sample_cache = (c', fx)"
    by fastforce
  from process_hands_on_runable_prefix [OF ac_wf_sample pr] show ?thesis
    by (auto simp: pr)
qed

end
