(* ===== verification/NodeState.thy ===== *)
theory NodeState
  imports Replicator AppendCache
begin

section \<open>The node: state, vote contexts, stepping down (node.h, node.cpp)\<close>

text \<open>
  \<open>node\<close> holds the fields of \<open>NodeImpl\<close>; the log manager, the ballot box and the
  replicators are in its \<open>world\<close>. A handler runs under the node's mutex. Where the code releases
  the mutex to ask the log manager for the flushed last log id, the model calls \<open>ne_flush\<close>, an
  arbitrary function that stands for all that other threads do to the node meanwhile and for the
  answer. The meta storage, the clock, the flags and the results of starting timers and threads are
  in \<open>node_env\<close>. Logging, metrics and reference counts are not modelled. \<open>nd_votes\<close> is a history
  of the votes the node has sent that no operation of the node reads or writes; only the events of NodeRun
  extend it.
\<close>

record vote_ctx =
  vc_ballot :: ballot
  vc_version :: int
  vc_timer :: bool
  vc_triggered :: bool
  vc_reserved_peers :: conf
  vc_disrupted_leader :: peer_id
  vc_disrupted_term :: int
  vc_last_log_id :: log_id

datatype stage = STAGE_NONE | STAGE_CATCHING_UP | STAGE_JOINT | STAGE_STABLE

record 'c conf_ctx =
  cx_stage :: stage
  cx_nchanges :: int
  cx_version :: int
  cx_new_peers :: conf
  cx_old_peers :: conf
  cx_adding_peers :: conf
  cx_done :: "'c option"

record ('s, 'm, 'c) node =
  nd_state :: node_state
  nd_current_term :: int
  nd_leader_id :: peer_id
  nd_voted_id :: peer_id
  nd_vote_ctx :: vote_ctx
  nd_pre_vote_ctx :: vote_ctx
  nd_conf :: conf_entry
  nd_group_id :: string
  nd_server_id :: peer_id
  nd_conf_ctx :: "'c conf_ctx"
  nd_meta :: 'm
  nd_w :: "('s, 'c) world"
  nd_shutdown_continuations :: "'c list"
  nd_stop_transfer_arg :: "(int \<times> peer_id) option"
  nd_vote_triggered :: bool
  nd_waking_candidate :: nat
  nd_append_entries_cache :: "append_cache option"
  nd_append_entries_cache_version :: int
  nd_node_readonly :: bool
  nd_majority_nodes_readonly :: bool
  nd_leader_lease :: leader_lease
  nd_follower_lease :: follower_lease
  nd_election_timeout_ms :: int
  nd_max_clock_drift_ms :: int
  nd_votes :: "(int \<times> peer_key) list"

record ('s, 'm, 'c) node_env =
  ne_repl :: "'s repl_env"
  ne_str2ip :: "string \<Rightarrow> 32 word option"
  ne_meta_set :: "int \<Rightarrow> peer_id \<Rightarrow> 'm \<Rightarrow> bool \<times> 'm"
  ne_meta_init :: "'m \<Rightarrow> status \<times> 'm"
  ne_meta_get :: "'m \<Rightarrow> status \<times> int \<times> peer_id"
  ne_flush :: "('s, 'm, 'c) node \<Rightarrow> log_id \<times> ('s, 'm, 'c) node"
  ne_enable_leader_lease :: bool
  ne_enable_witness_to_leader :: bool
  ne_step_down_when_vote_timedout :: bool
  ne_enable_append_entries_cache :: bool
  ne_heartbeat_factor :: int
  ne_cache :: cache_env
  ne_has_snapshot_executor :: bool
  ne_installing_snapshot :: bool
  ne_witness :: bool
  ne_catchup_timeout_ms :: int
  ne_catchup_margin :: int
  ne_wall_ms :: int
  ne_grant_timer_del_ok :: bool
  ne_transfer_timer_ok :: bool
  ne_last_applied_index :: int

abbreviation ne_now_ms :: "('s, 'm, 'c) node_env \<Rightarrow> int" where
  "ne_now_ms E \<equiv> re_now_ms (ne_repl E)"

abbreviation ne_storage :: "('s, 'm, 'c) node_env \<Rightarrow> 's log_storage_ops" where
  "ne_storage E \<equiv> re_storage (ne_repl E)"

definition on_w :: "(('s, 'c) world \<Rightarrow> ('s, 'c) world) \<Rightarrow> ('s, 'm, 'c) node \<Rightarrow> ('s, 'm, 'c) node" where
  "on_w f n = n\<lparr>nd_w := f (nd_w n)\<rparr>"

definition nd_emit :: "'c fx list \<Rightarrow> ('s, 'm, 'c) node \<Rightarrow> ('s, 'm, 'c) node" where
  "nd_emit fxs = on_w (emit fxs)"

definition is_self :: "('s, 'm, 'c) node \<Rightarrow> peer_id \<Rightarrow> bool" where
  "is_self n p \<longleftrightarrow> peer_eq p (nd_server_id n)"

subsection \<open>Vote contexts\<close>

definition get_ctx :: "vote_ctx_kind \<Rightarrow> ('s, 'm, 'c) node \<Rightarrow> vote_ctx" where
  "get_ctx k n = (case k of PreVoteCtx \<Rightarrow> nd_pre_vote_ctx n | VoteCtx \<Rightarrow> nd_vote_ctx n)"

definition set_ctx :: "vote_ctx_kind \<Rightarrow> vote_ctx \<Rightarrow> ('s, 'm, 'c) node \<Rightarrow> ('s, 'm, 'c) node" where
  "set_ctx k c n = (case k of PreVoteCtx \<Rightarrow> n\<lparr>nd_pre_vote_ctx := c\<rparr> | VoteCtx \<Rightarrow> n\<lparr>nd_vote_ctx := c\<rparr>)"

definition stop_grant_self_timer ::
  "('s, 'm, 'c) node_env \<Rightarrow> vote_ctx_kind \<Rightarrow> ('s, 'm, 'c) node \<Rightarrow> ('s, 'm, 'c) node" where
  "stop_grant_self_timer E k n =
     (let c = get_ctx k n
      in if \<not> vc_timer c then n
         else if ne_grant_timer_del_ok E
         then nd_emit [FxGrantSelfTimerDel k] (set_ctx k (c\<lparr>vc_timer := False\<rparr>) n)
         else n)"

definition start_grant_self_timer ::
  "vote_ctx_kind \<Rightarrow> int \<Rightarrow> ('s, 'm, 'c) node \<Rightarrow> ('s, 'm, 'c) node" where
  "start_grant_self_timer k wait_ms n =
     (let c = get_ctx k n
      in nd_emit [FxGrantSelfTimer k (vc_version c) wait_ms] (set_ctx k (c\<lparr>vc_timer := True\<rparr>) n))"

definition vote_ctx_reset ::
  "('s, 'm, 'c) node_env \<Rightarrow> vote_ctx_kind \<Rightarrow> ('s, 'm, 'c) node \<Rightarrow> ('s, 'm, 'c) node" where
  "vote_ctx_reset E k n =
     (let n1 = stop_grant_self_timer E k n; c = get_ctx k n1
      in set_ctx k (c\<lparr>vc_version := vc_version c + 1, vc_triggered := False, vc_last_log_id := LogId 0 0,
                      vc_disrupted_leader := empty_peer, vc_disrupted_term := -1,
                      vc_reserved_peers := []\<rparr>) n1)"

definition conf_ballot :: "conf_entry \<Rightarrow> ballot" where
  "conf_ballot c = ballot_init (ce_conf c) (if ce_stable c then None else Some (ce_old_conf c))"

definition vote_ctx_init ::
  "('s, 'm, 'c) node_env \<Rightarrow> vote_ctx_kind \<Rightarrow> bool \<Rightarrow> ('s, 'm, 'c) node \<Rightarrow> ('s, 'm, 'c) node" where
  "vote_ctx_init E k triggered n =
     (let n1 = vote_ctx_reset E k n; c = get_ctx k n1
      in set_ctx k (c\<lparr>vc_ballot := conf_ballot (nd_conf n1), vc_triggered := triggered\<rparr>) n1)"

definition vote_ctx_grant :: "peer_id \<Rightarrow> vote_ctx \<Rightarrow> vote_ctx" where
  "vote_ctx_grant p c = c\<lparr>vc_ballot := ballot_grant p (vc_ballot c)\<rparr>"

definition vote_ctx_reserve :: "peer_id \<Rightarrow> vote_ctx \<Rightarrow> vote_ctx" where
  "vote_ctx_reserve p c = c\<lparr>vc_reserved_peers := set_insert p (vc_reserved_peers c)\<rparr>"

definition pop_grantable_peers :: "vote_ctx \<Rightarrow> conf \<times> vote_ctx" where
  "pop_grantable_peers c =
     (if vc_disrupted_term c = -1 then ([], c) else (vc_reserved_peers c, c\<lparr>vc_reserved_peers := []\<rparr>))"

subsection \<open>Read-only majority, the cache, replicators to drop\<close>

definition check_majority_nodes_readonly_of :: "conf \<Rightarrow> ('s, 'm, 'c) node \<Rightarrow> ('s, 'm, 'c) node" where
  "check_majority_nodes_readonly_of c n =
     (let readonly_nodes = length (filter (\<lambda>p. if is_self n p then nd_node_readonly n else rg_readonly p (nd_w n)) c);
          writable_nodes = length c - readonly_nodes
      in n\<lparr>nd_majority_nodes_readonly := \<not> (writable_nodes \<ge> length c div 2 + 1)\<rparr>)"

definition check_majority_nodes_readonly :: "('s, 'm, 'c) node \<Rightarrow> ('s, 'm, 'c) node" where
  "check_majority_nodes_readonly n =
     (let n1 = check_majority_nodes_readonly_of (ce_conf (nd_conf n)) n
      in if ce_old_conf (nd_conf n1) \<noteq> [] then check_majority_nodes_readonly_of (ce_old_conf (nd_conf n1)) n1 else n1)"

definition node_cache_env :: "('s, 'm, 'c) node_env \<Rightarrow> ('s, 'm, 'c) node \<Rightarrow> cache_env" where
  "node_cache_env E n = (ne_cache E)\<lparr>ae_election_timeout_ms := nd_election_timeout_ms n\<rparr>"

definition clear_append_entries_cache ::
  "('s, 'm, 'c) node_env \<Rightarrow> ('s, 'm, 'c) node \<Rightarrow> ('s, 'm, 'c) node" where
  "clear_append_entries_cache E n =
     (case nd_append_entries_cache n of
        None \<Rightarrow> n
      | Some c \<Rightarrow> nd_emit (snd (ac_clear (node_cache_env E n) c)) (n\<lparr>nd_append_entries_cache := None\<rparr>))"

definition node_stop_replicator ::
  "('s, 'm, 'c) node_env \<Rightarrow> conf \<Rightarrow> conf \<Rightarrow> ('s, 'm, 'c) node \<Rightarrow> ('s, 'm, 'c) node" where
  "node_stop_replicator E keep_peers drop_peers n =
     fold (\<lambda>p n. if \<not> conf_contains keep_peers p \<and> \<not> is_self n p
                 then on_w (\<lambda>w. snd (stop_replicator (ne_repl E) p w)) n else n) drop_peers n"

subsection \<open>Stepping down\<close>

definition reset_leader_id ::
  "('s, 'm, 'c) node_env \<Rightarrow> peer_id \<Rightarrow> status \<Rightarrow> ('s, 'm, 'c) node \<Rightarrow> ('s, 'm, 'c) node" where
  "reset_leader_id E new_leader_id status n =
     (if peer_is_empty new_leader_id
      then (let n1 = (if \<not> peer_is_empty (nd_leader_id n) \<and> state_num (nd_state n) > state_num STATE_TRANSFERRING
                      then nd_emit [FxStopFollowing (nd_leader_id n) (nd_current_term n) status] n else n)
            in n1\<lparr>nd_leader_id := empty_peer\<rparr>)
      else (let n1 = (if peer_is_empty (nd_leader_id n)
                      then nd_emit [FxStartFollowing new_leader_id (nd_current_term n) status]
                             (vote_ctx_reset E PreVoteCtx n) else n)
            in n1\<lparr>nd_leader_id := new_leader_id\<rparr>))"

text \<open>\<open>ConfigurationCtx::reset\<close>; \<open>None\<close> is the null status of a leader that steps down.\<close>

definition conf_ctx_reset ::
  "('s, 'm, 'c) node_env \<Rightarrow> status option \<Rightarrow> ('s, 'm, 'c) node \<Rightarrow> ('s, 'm, 'c) node" where
  "conf_ctx_reset E st n =
     (let cx = nd_conf_ctx n in
      if cx_stage cx = STAGE_NONE then n
      else
        (let n1 = (if st = Some StatusOK then node_stop_replicator E (cx_new_peers cx) (cx_old_peers cx) n
                   else node_stop_replicator E (cx_old_peers cx) (cx_new_peers cx) n);
             n2 = n1\<lparr>nd_conf_ctx := cx\<lparr>cx_new_peers := [], cx_old_peers := [], cx_adding_peers := [],
                       cx_version := cx_version cx + 1, cx_stage := STAGE_NONE, cx_nchanges := 0,
                       cx_done := None\<rparr>\<rparr>;
             n3 = check_majority_nodes_readonly n2
         in case cx_done cx of
              None \<Rightarrow> n3
            | Some d \<Rightarrow> nd_emit [FxRun d (case st of None \<Rightarrow> StatusErr EPERM | Some s \<Rightarrow> s)] n3))"

definition node_clear_pending_tasks :: "('s, 'm, 'c) node \<Rightarrow> ('s, 'm, 'c) node" where
  "node_clear_pending_tasks n =
     (case clear_pending_tasks (w_bb (nd_w n)) of
        (bb, run) \<Rightarrow> nd_emit (map (\<lambda>(c, st). FxTaskDone c st) run) (on_w (\<lambda>w. w\<lparr>w_bb := bb\<rparr>) n))"

text \<open>\<open>set_term_and_votedfor\<close> on the meta storage: whether it succeeded.\<close>

definition save_meta ::
  "('s, 'm, 'c) node_env \<Rightarrow> int \<Rightarrow> peer_id \<Rightarrow> ('s, 'm, 'c) node \<Rightarrow> bool \<times> ('s, 'm, 'c) node" where
  "save_meta E term vote_for n =
     (case ne_meta_set E term vote_for (nd_meta n) of (ok, m) \<Rightarrow> (ok, n\<lparr>nd_meta := m\<rparr>))"

definition leave_role ::
  "('s, 'm, 'c) node_env \<Rightarrow> status \<Rightarrow> ('s, 'm, 'c) node \<Rightarrow> ('s, 'm, 'c) node" where
  "leave_role E status n =
     (if nd_state n = STATE_CANDIDATE then vote_ctx_reset E VoteCtx (nd_emit [FxTimerStop VoteTimer] n)
      else if nd_state n = STATE_FOLLOWER then vote_ctx_reset E PreVoteCtx n
      else if state_num (nd_state n) \<le> state_num STATE_TRANSFERRING
      then (let n1 = node_clear_pending_tasks (nd_emit [FxTimerStop StepdownTimer] n)
            in if nd_state n1 = STATE_LEADER
               then nd_emit [FxLeaderStop status] (n1\<lparr>nd_leader_lease := ll_on_leader_stop (nd_leader_lease n1)\<rparr>)
               else n1)
      else n)"

definition raise_term ::
  "('s, 'm, 'c) node_env \<Rightarrow> int \<Rightarrow> ('s, 'm, 'c) node \<Rightarrow> ('s, 'm, 'c) node" where
  "raise_term E term n =
     (if term > nd_current_term n
      then snd (save_meta E term empty_peer (n\<lparr>nd_current_term := term, nd_voted_id := empty_peer\<rparr>))
      else n)"

definition release_replicators ::
  "('s, 'm, 'c) node_env \<Rightarrow> bool \<Rightarrow> ('s, 'm, 'c) node \<Rightarrow> ('s, 'm, 'c) node" where
  "release_replicators E wakeup_a_candidate n =
     (if wakeup_a_candidate
      then (case stop_all_and_find_the_next_candidate (ne_repl E) (nd_conf n) (nd_w n) of
              (candidate, w) \<Rightarrow>
                n\<lparr>nd_waking_candidate := candidate,
                  nd_w := send_timeout_now_and_stop (ne_repl E) candidate (nd_election_timeout_ms n) w\<rparr>)
      else on_w (stop_all (ne_repl E)) n)"

definition step_down ::
  "('s, 'm, 'c) node_env \<Rightarrow> int \<Rightarrow> bool \<Rightarrow> status \<Rightarrow> ('s, 'm, 'c) node \<Rightarrow> ('s, 'm, 'c) node" where
  "step_down E term wakeup_a_candidate status n =
     (if \<not> is_active_state (nd_state n) then n
      else
        (let n1 = reset_leader_id E empty_peer status (leave_role E status n);
             n2 = conf_ctx_reset E None (n1\<lparr>nd_state := STATE_FOLLOWER\<rparr>);
             n3 = clear_append_entries_cache E (n2\<lparr>nd_majority_nodes_readonly := False\<rparr>);
             n4 = (if ne_has_snapshot_executor E then nd_emit [FxSnapshotInterrupt term] n3 else n3);
             n5 = release_replicators E wakeup_a_candidate (raise_term E term n4);
             n6 = (if nd_stop_transfer_arg n5 \<noteq> None
                   then nd_emit [FxTransferTimerDel] (n5\<lparr>nd_stop_transfer_arg := None\<rparr>) else n5)
         in nd_emit [FxTimerStart ElectionTimer] n6))"

definition check_step_down ::
  "('s, 'm, 'c) node_env \<Rightarrow> int \<Rightarrow> peer_id \<Rightarrow> ('s, 'm, 'c) node \<Rightarrow> ('s, 'm, 'c) node" where
  "check_step_down E request_term server_id n =
     (let st = StatusErr ENEWLEADER;
          down = (request_term > nd_current_term n \<or> nd_state n \<noteq> STATE_FOLLOWER \<or> peer_is_empty (nd_leader_id n));
          n1 = (if down then step_down E request_term False st n else n)
      in if peer_is_empty (nd_leader_id n1)
         then reset_leader_id E server_id (if down then st else StatusOK) n1 else n1)"

end
