(* ===== verification/NodeConf.thy ===== *)
theory NodeConf
  imports NodeState
begin

section \<open>Configuration changes (node.cpp: ConfigurationCtx and its callers)\<close>

text \<open>
  A change goes through the stages of \<open>ConfigurationCtx\<close>: new peers catch up, then the joint
  configuration is logged (unless at most one peer changed), then the new one. Every step runs when the
  log entry of the step before it is committed.
\<close>

definition check_and_set_configuration :: "('s, 'm, 'c) node \<Rightarrow> ('s, 'm, 'c) node" where
  "check_and_set_configuration n =
     n\<lparr>nd_conf := snd (lm_check_and_set_configuration (nd_conf n) (w_lm (nd_w n)))\<rparr>"

definition node_append_entries ::
  "('s, 'm, 'c) node_env \<Rightarrow> log_entry list \<Rightarrow> stable_done \<Rightarrow> ('s, 'm, 'c) node \<Rightarrow> ('s, 'm, 'c) node" where
  "node_append_entries E es done n =
     (case lm_append_entries (ne_storage E) es done (w_lm (nd_w n)) of
        (lm, ev) \<Rightarrow> nd_emit (map FxLm ev) (on_w (\<lambda>w. w\<lparr>w_lm := lm\<rparr>) n))"

definition node_append_pending_task ::
  "conf \<Rightarrow> conf option \<Rightarrow> 'c task_done option \<Rightarrow> ('s, 'm, 'c) node \<Rightarrow> ('s, 'm, 'c) node" where
  "node_append_pending_task c old_conf done = on_w (\<lambda>w. w\<lparr>w_bb := append_pending_task c old_conf done (w_bb w)\<rparr>)"

definition configuration_entry :: "int \<Rightarrow> conf \<Rightarrow> conf option \<Rightarrow> log_entry" where
  "configuration_entry term new_conf old_conf =
     \<lparr>e_type = ENTRY_TYPE_CONFIGURATION, e_id = LogId 0 term, e_peers = Some new_conf,
      e_old_peers = old_conf, e_data = []\<rparr>"

definition unsafe_apply_configuration ::
  "('s, 'm, 'c) node_env \<Rightarrow> conf \<Rightarrow> conf option \<Rightarrow> bool \<Rightarrow> ('s, 'm, 'c) node \<Rightarrow> ('s, 'm, 'c) node" where
  "unsafe_apply_configuration E new_conf old_conf leader_start n =
     (let done = ConfigurationChangeDone (nd_current_term n) leader_start (ll_lease_epoch (nd_leader_lease n));
          n1 = node_append_pending_task new_conf old_conf (Some done) n;
          n2 = node_append_entries E [configuration_entry (nd_current_term n) new_conf old_conf] (LeaderStable 1) n1
      in check_and_set_configuration n2)"

abbreviation on_cx :: "('c conf_ctx \<Rightarrow> 'c conf_ctx) \<Rightarrow> ('s, 'm, 'c) node \<Rightarrow> ('s, 'm, 'c) node" where
  "on_cx f n \<equiv> n\<lparr>nd_conf_ctx := f (nd_conf_ctx n)\<rparr>"

definition cx_is_busy :: "('s, 'm, 'c) node \<Rightarrow> bool" where
  "cx_is_busy n \<longleftrightarrow> cx_stage (nd_conf_ctx n) \<noteq> STAGE_NONE"

definition next_stage :: "('s, 'm, 'c) node_env \<Rightarrow> ('s, 'm, 'c) node \<Rightarrow> ('s, 'm, 'c) node" where
  "next_stage E n =
     (let cx = nd_conf_ctx n;
          to_stable = (\<lambda>n. unsafe_apply_configuration E (cx_new_peers cx) None False
                             (on_cx (\<lambda>cx. cx\<lparr>cx_stage := STAGE_STABLE\<rparr>) n))
      in case cx_stage cx of
           STAGE_CATCHING_UP \<Rightarrow>
             if cx_nchanges cx > 1
             then unsafe_apply_configuration E (cx_new_peers cx) (Some (cx_old_peers cx)) False
                    (on_cx (\<lambda>cx. cx\<lparr>cx_stage := STAGE_JOINT\<rparr>) n)
             else to_stable n
         | STAGE_JOINT \<Rightarrow> to_stable n
         | STAGE_STABLE \<Rightarrow>
             (let n1 = conf_ctx_reset E (Some StatusOK) n
              in if \<not> conf_contains (cx_new_peers cx) (nd_server_id n)
                 then step_down E (nd_current_term n1) True (StatusErr ELEADERREMOVED) n1 else n1)
         | STAGE_NONE \<Rightarrow> n)"

definition cx_on_caughtup ::
  "('s, 'm, 'c) node_env \<Rightarrow> int \<Rightarrow> peer_id \<Rightarrow> bool \<Rightarrow> ('s, 'm, 'c) node \<Rightarrow> ('s, 'm, 'c) node" where
  "cx_on_caughtup E version peer succ n =
     (if version \<noteq> cx_version (nd_conf_ctx n) then n
      else if succ
      then (let n1 = on_cx (\<lambda>cx. cx\<lparr>cx_adding_peers := set_erase peer (cx_adding_peers cx)\<rparr>) n
            in if cx_adding_peers (nd_conf_ctx n1) = [] then next_stage E n1 else n1)
      else conf_ctx_reset E (Some (StatusErr ECATCHUP)) n)"

text \<open>Start a replicator for each peer to add and wait for it; the first failure ends the change.\<close>

fun start_adding ::
  "('s, 'm, 'c) node_env \<Rightarrow> peer_id list \<Rightarrow> ('s, 'm, 'c) node \<Rightarrow> ('s, 'm, 'c) node" where
  "start_adding E [] n = n"
| "start_adding E (p # ps) n =
     (let version = cx_version (nd_conf_ctx n);
          (rc1, w1) = add_replicator (ne_repl E) p (nd_w n);
          n1 = n\<lparr>nd_w := w1\<rparr>
      in if rc1 \<noteq> RcOk then cx_on_caughtup E version p False n1
         else
           (let (rc2, w2) = wait_caughtup (ne_repl E) p (ne_catchup_margin E)
                              (Some (ne_wall_ms E + ne_catchup_timeout_ms E))
                              (OnCaughtUp (nd_current_term n1) p version) (nd_w n1);
                n2 = n1\<lparr>nd_w := w2\<rparr>
            in if rc2 \<noteq> RcOk then cx_on_caughtup E version p False n2 else start_adding E ps n2))"

definition conf_ctx_start ::
  "('s, 'm, 'c) node_env \<Rightarrow> conf \<Rightarrow> conf \<Rightarrow> 'c option \<Rightarrow> ('s, 'm, 'c) node \<Rightarrow> ('s, 'm, 'c) node" where
  "conf_ctx_start E old_conf new_conf done n =
     (let (adding, removing) = conf_diffs new_conf old_conf;
          n1 = on_cx (\<lambda>cx. cx\<lparr>cx_done := done, cx_stage := STAGE_CATCHING_UP,
                             cx_old_peers := old_conf,
                             cx_new_peers := new_conf,
                             cx_nchanges := int (length adding) + int (length removing)\<rparr>) n
      in if adding = [] then next_stage E n1
         else (let n2 = on_cx (\<lambda>cx. cx\<lparr>cx_adding_peers := adding\<rparr>) n1
               in start_adding E (cx_adding_peers (nd_conf_ctx n2)) n2))"

definition conf_ctx_flush ::
  "('s, 'm, 'c) node_env \<Rightarrow> conf \<Rightarrow> conf \<Rightarrow> ('s, 'm, 'c) node \<Rightarrow> ('s, 'm, 'c) node" where
  "conf_ctx_flush E c old_conf n =
     (let n1 = on_cx (\<lambda>cx. cx\<lparr>cx_new_peers := c,
                             cx_stage := (if old_conf = [] then STAGE_STABLE else STAGE_JOINT),
                             cx_old_peers := (if old_conf = [] then c
                                              else old_conf)\<rparr>) n
      in unsafe_apply_configuration E c (if old_conf = [] then None else Some old_conf) True n1)"

subsection \<open>The node's operations on configurations\<close>

text \<open>A null \<open>done\<close> is dereferenced when the configuration is the current one; the model runs nothing.\<close>

definition run_opt :: "'c option \<Rightarrow> status \<Rightarrow> ('s, 'm, 'c) node \<Rightarrow> ('s, 'm, 'c) node" where
  "run_opt done st n = (case done of None \<Rightarrow> n | Some d \<Rightarrow> nd_emit [FxRun d st] n)"

definition unsafe_register_conf_change ::
  "('s, 'm, 'c) node_env \<Rightarrow> conf \<Rightarrow> conf \<Rightarrow> 'c option \<Rightarrow> ('s, 'm, 'c) node \<Rightarrow> ('s, 'm, 'c) node" where
  "unsafe_register_conf_change E old_conf new_conf done n =
     (if nd_state n \<noteq> STATE_LEADER
      then run_opt done (StatusErr (if nd_state n = STATE_TRANSFERRING then EBUSY else EPERM)) n
      else if cx_is_busy n then run_opt done (StatusErr EBUSY) n
      else if conf_equals (ce_conf (nd_conf n)) new_conf then run_opt done StatusOK n
      else conf_ctx_start E old_conf new_conf done n)"

definition list_peers :: "('s, 'm, 'c) node \<Rightarrow> status \<times> conf" where
  "list_peers n = (if nd_state n \<noteq> STATE_LEADER then (StatusErr EPERM, []) else (StatusOK, ce_conf (nd_conf n)))"

definition add_peer ::
  "('s, 'm, 'c) node_env \<Rightarrow> peer_id \<Rightarrow> 'c option \<Rightarrow> ('s, 'm, 'c) node \<Rightarrow> ('s, 'm, 'c) node" where
  "add_peer E peer done n =
     unsafe_register_conf_change E (ce_conf (nd_conf n)) (snd (conf_add_peer peer (ce_conf (nd_conf n)))) done n"

definition remove_peer ::
  "('s, 'm, 'c) node_env \<Rightarrow> peer_id \<Rightarrow> 'c option \<Rightarrow> ('s, 'm, 'c) node \<Rightarrow> ('s, 'm, 'c) node" where
  "remove_peer E peer done n =
     unsafe_register_conf_change E (ce_conf (nd_conf n)) (snd (conf_remove_peer peer (ce_conf (nd_conf n)))) done n"

definition change_peers ::
  "('s, 'm, 'c) node_env \<Rightarrow> conf \<Rightarrow> 'c option \<Rightarrow> ('s, 'm, 'c) node \<Rightarrow> ('s, 'm, 'c) node" where
  "change_peers E new_peers done n = unsafe_register_conf_change E (ce_conf (nd_conf n)) new_peers done n"

definition reset_peers ::
  "('s, 'm, 'c) node_env \<Rightarrow> conf \<Rightarrow> ('s, 'm, 'c) node \<Rightarrow> status \<times> ('s, 'm, 'c) node" where
  "reset_peers E new_peers n =
     (if new_peers = [] then (StatusErr EINVAL, n)
      else if \<not> is_active_state (nd_state n) then (StatusErr EPERM, n)
      else if ce_conf (nd_conf n) = []
      then (StatusOK, step_down E (nd_current_term n + 1) False (StatusErr ESETPEER)
                        (n\<lparr>nd_conf := (nd_conf n)\<lparr>ce_conf := new_peers\<rparr>\<rparr>))
      else if nd_state n = STATE_LEADER \<and> cx_is_busy n then (StatusErr EBUSY, n)
      else if conf_equals (ce_conf (nd_conf n)) new_peers then (StatusOK, n)
      else (StatusOK, step_down E (nd_current_term n + 1) False (StatusErr ESETPEER)
                        (n\<lparr>nd_conf := (nd_conf n)\<lparr>ce_conf := new_peers, ce_old_conf := []\<rparr>\<rparr>)))"

text \<open>Callbacks: a configuration entry was committed; a peer caught up, or failed to.\<close>

definition on_configuration_change_done ::
  "('s, 'm, 'c) node_env \<Rightarrow> int \<Rightarrow> ('s, 'm, 'c) node \<Rightarrow> ('s, 'm, 'c) node" where
  "on_configuration_change_done E term n =
     (if state_num (nd_state n) > state_num STATE_TRANSFERRING \<or> term \<noteq> nd_current_term n then n
      else next_stage E n)"

definition on_caughtup ::
  "('s, 'm, 'c) node_env \<Rightarrow> peer_id \<Rightarrow> int \<Rightarrow> int \<Rightarrow> status \<Rightarrow> ('s, 'm, 'c) node \<Rightarrow> ('s, 'm, 'c) node" where
  "on_caughtup E peer term version st n =
     (if nd_state n \<noteq> STATE_LEADER \<or> term \<noteq> nd_current_term n then n
      else if st = StatusOK then cx_on_caughtup E version peer True n
      else
        (let retry = (st = StatusErr ETIMEDOUT \<and>
                      ne_now_ms E - last_rpc_send_timestamp peer (nd_w n) \<le> nd_election_timeout_ms n);
             (rc, w) = (if retry
                        then wait_caughtup (ne_repl E) peer (ne_catchup_margin E)
                               (Some (ne_wall_ms E + ne_catchup_timeout_ms E))
                               (OnCaughtUp (nd_current_term n) peer version) (nd_w n)
                        else (RcFail, nd_w n))
         in if rc = RcOk then n\<lparr>nd_w := w\<rparr> else cx_on_caughtup E version peer False (n\<lparr>nd_w := w\<rparr>)))"

subsection \<open>Read-only mode\<close>

definition enter_readonly_mode :: "('s, 'm, 'c) node \<Rightarrow> ('s, 'm, 'c) node" where
  "enter_readonly_mode n = (if \<not> nd_node_readonly n then n\<lparr>nd_node_readonly := True\<rparr> else n)"

definition leave_readonly_mode :: "('s, 'm, 'c) node \<Rightarrow> ('s, 'm, 'c) node" where
  "leave_readonly_mode n = (if nd_node_readonly n then n\<lparr>nd_node_readonly := False\<rparr> else n)"

definition node_readonly :: "('s, 'm, 'c) node \<Rightarrow> bool" where
  "node_readonly n \<longleftrightarrow> nd_node_readonly n \<or> nd_majority_nodes_readonly n"

definition change_readonly_config ::
  "('s, 'm, 'c) node_env \<Rightarrow> int \<Rightarrow> peer_id \<Rightarrow> bool \<Rightarrow> ('s, 'm, 'c) node \<Rightarrow> rc \<times> ('s, 'm, 'c) node" where
  "change_readonly_config E term peer readonly n =
     (if term \<noteq> nd_current_term n \<and> nd_state n \<noteq> STATE_LEADER then (RcErr EINVAL, n)
      else (RcOk, check_majority_nodes_readonly
                    (on_w (\<lambda>w. snd (rg_change_readonly_config (ne_repl E) peer readonly w)) n)))"

end
