(* ===== verification/NodeElection.thy ===== *)
theory NodeElection
  imports NodeConf
begin

section \<open>Elections (node.cpp)\<close>

text \<open>
  Pre-vote, vote, becoming leader, transferring leadership, and the handlers of vote requests and
  responses. A node grants itself at once, or when the lease it gave the last leader has run out, or
  together with that leader's vote.
\<close>

definition ctx_granted :: "vote_ctx_kind \<Rightarrow> ('s, 'm, 'c) node \<Rightarrow> bool" where
  "ctx_granted k n \<longleftrightarrow> ballot_granted (vc_ballot (get_ctx k n))"

definition ctx_grant :: "vote_ctx_kind \<Rightarrow> peer_id \<Rightarrow> ('s, 'm, 'c) node \<Rightarrow> ('s, 'm, 'c) node" where
  "ctx_grant k p n = set_ctx k (vote_ctx_grant p (get_ctx k n)) n"

definition votable_time :: "('s, 'm, 'c) node_env \<Rightarrow> ('s, 'm, 'c) node \<Rightarrow> int" where
  "votable_time E n = fl_votable_time_from_now (ne_enable_leader_lease E) (ne_now_ms E) (nd_follower_lease n)"

subsection \<open>Becoming leader\<close>

definition become_leader :: "('s, 'm, 'c) node_env \<Rightarrow> ('s, 'm, 'c) node \<Rightarrow> ('s, 'm, 'c) node" where
  "become_leader E n =
     (let n1 = vote_ctx_reset E VoteCtx (nd_emit [FxTimerStop VoteTimer] n);
          n2 = n1\<lparr>nd_state := STATE_LEADER, nd_leader_id := nd_server_id n1,
                  nd_w := snd (reset_term (nd_current_term n1) (nd_w n1)),
                  nd_follower_lease := fl_reset (nd_follower_lease n1),
                  nd_leader_lease := ll_on_leader_start (nd_current_term n1) (nd_leader_lease n1)\<rparr>;
          n3 = fold (\<lambda>p n. if is_self n p then n else on_w (\<lambda>w. snd (add_replicator (ne_repl E) p w)) n)
                 (ce_list_peers (nd_conf n2)) n2;
          n4 = on_w (\<lambda>w. w\<lparr>w_bb := reset_pending_index (lm_last (w_lm w) + 1) (w_bb w)\<rparr>) n3;
          n5 = conf_ctx_flush E (ce_conf (nd_conf n4)) (ce_old_conf (nd_conf n4)) n4
      in nd_emit [FxTimerStart StepdownTimer] n5)"

definition request_peers_to_vote ::
  "('s, 'm, 'c) node_env \<Rightarrow> conf \<Rightarrow> peer_id \<Rightarrow> int \<Rightarrow> ('s, 'm, 'c) node \<Rightarrow> ('s, 'm, 'c) node" where
  "request_peers_to_vote E peers disrupted_id disrupted_term n =
     (let to_str = peer_to_string (re_endpoint2str (ne_repl E)); vc = nd_vote_ctx n
      in nd_emit (map (\<lambda>p. FxRequestVote p (nd_current_term n) (vc_version vc)
                     \<lparr>vq_group_id = nd_group_id n, vq_server_id = to_str (nd_server_id n), vq_peer_id = to_str p,
                      vq_term = nd_current_term n, vq_last_log_term = lid_term (vc_last_log_id vc),
                      vq_last_log_index = lid_index (vc_last_log_id vc),
                      vq_disrupted_leader = (if \<not> peer_is_empty disrupted_id
                                             then Some (to_str disrupted_id, disrupted_term) else None)\<rparr>)
                   (filter (\<lambda>p. \<not> is_self n p \<and> re_channel_ok (ne_repl E) p) peers)) n)"

text \<open>\<open>grant_self\<close>, for a context and what it does when the context is granted.\<close>

definition grant_self_with ::
  "(('s, 'm, 'c) node \<Rightarrow> ('s, 'm, 'c) node) \<Rightarrow> vote_ctx_kind \<Rightarrow> ('s, 'm, 'c) node_env
   \<Rightarrow> ('s, 'm, 'c) node \<Rightarrow> ('s, 'm, 'c) node" where
  "grant_self_with win k E n =
     (let wait_ms = votable_time E n
      in if wait_ms = 0
         then (let n1 = ctx_grant k (nd_server_id n) n in if ctx_granted k n1 then win n1 else n1)
         else start_grant_self_timer k wait_ms n)"

definition elect_self ::
  "('s, 'm, 'c) node_env \<Rightarrow> bool \<Rightarrow> ('s, 'm, 'c) node \<Rightarrow> ('s, 'm, 'c) node" where
  "elect_self E old_leader_stepped_down n =
     (if \<not> ce_contains (nd_conf n) (nd_server_id n) then n
      else
        (let n1 = (if nd_state n = STATE_FOLLOWER then nd_emit [FxTimerStop ElectionTimer] n else n);
             old_leader = nd_leader_id n1; leader_term = nd_current_term n1;
             n2 = reset_leader_id E empty_peer (StatusErr ERAFTTIMEDOUT) n1;
             n3 = n2\<lparr>nd_state := STATE_CANDIDATE, nd_current_term := nd_current_term n2 + 1,
                     nd_voted_id := nd_server_id n2\<rparr>;
             n4 = vote_ctx_init E VoteCtx False
                    (vote_ctx_reset E PreVoteCtx (nd_emit [FxTimerStart VoteTimer] n3));
             n5 = (if old_leader_stepped_down
                   then n4\<lparr>nd_vote_ctx := (nd_vote_ctx n4)\<lparr>vc_disrupted_leader := old_leader,
                                                          vc_disrupted_term := leader_term\<rparr>,
                           nd_follower_lease := fl_expire (nd_follower_lease n4)\<rparr> else n4);
             old_term = nd_current_term n5;
             (last_log_id, n6) = ne_flush E n5
         in if nd_current_term n6 \<noteq> old_term then n6
            else
              (let n7 = n6\<lparr>nd_vote_ctx := (nd_vote_ctx n6)\<lparr>vc_last_log_id := last_log_id\<rparr>\<rparr>;
                   n8 = request_peers_to_vote E (ce_list_peers (nd_conf n7))
                          (vc_disrupted_leader (nd_vote_ctx n7)) (vc_disrupted_term (nd_vote_ctx n7)) n7;
                   (ok, n9) = save_meta E (nd_current_term n8) (nd_server_id n8) n8
               in if \<not> ok then n9\<lparr>nd_voted_id := empty_peer\<rparr>
                  else grant_self_with (become_leader E) VoteCtx E n9)))"

definition grant_self ::
  "vote_ctx_kind \<Rightarrow> ('s, 'm, 'c) node_env \<Rightarrow> ('s, 'm, 'c) node \<Rightarrow> ('s, 'm, 'c) node" where
  "grant_self k E = grant_self_with (case k of PreVoteCtx \<Rightarrow> elect_self E False | VoteCtx \<Rightarrow> become_leader E) k E"

definition handle_grant_self_timedout ::
  "vote_ctx_kind \<Rightarrow> int \<Rightarrow> ('s, 'm, 'c) node_env \<Rightarrow> ('s, 'm, 'c) node \<Rightarrow> ('s, 'm, 'c) node" where
  "handle_grant_self_timedout k version E n =
     (if \<not> is_active_state (nd_state n) \<or> vc_version (get_ctx k n) \<noteq> version then n
      else grant_self k E n)"

definition pre_vote ::
  "('s, 'm, 'c) node_env \<Rightarrow> bool \<Rightarrow> ('s, 'm, 'c) node \<Rightarrow> ('s, 'm, 'c) node" where
  "pre_vote E triggered n =
     (if ne_has_snapshot_executor E \<and> ne_installing_snapshot E then n
      else if \<not> ce_contains (nd_conf n) (nd_server_id n) then n
      else
        (let old_term = nd_current_term n; (last_log_id, n1) = ne_flush E n
         in if old_term \<noteq> nd_current_term n1 then n1
            else
              (let n2 = vote_ctx_init E PreVoteCtx triggered n1;
                   to_str = peer_to_string (re_endpoint2str (ne_repl E));
                   n3 = nd_emit (map (\<lambda>p. FxPreVote p (nd_current_term n2) (vc_version (nd_pre_vote_ctx n2))
                          \<lparr>vq_group_id = nd_group_id n2, vq_server_id = to_str (nd_server_id n2),
                           vq_peer_id = to_str p, vq_term = nd_current_term n2 + 1,
                           vq_last_log_term = lid_term last_log_id, vq_last_log_index = lid_index last_log_id,
                           vq_disrupted_leader = None\<rparr>)
                        (filter (\<lambda>p. \<not> is_self n2 p \<and> re_channel_ok (ne_repl E) p) (ce_list_peers (nd_conf n2)))) n2
               in grant_self PreVoteCtx E n3)))"

subsection \<open>Timeouts\<close>

definition handle_election_timeout :: "('s, 'm, 'c) node_env \<Rightarrow> ('s, 'm, 'c) node \<Rightarrow> ('s, 'm, 'c) node" where
  "handle_election_timeout E n =
     (if nd_state n \<noteq> STATE_FOLLOWER then n
      else if \<not> nd_vote_triggered n \<and> \<not> fl_expired (ne_now_ms E) (nd_follower_lease n) then n
      else pre_vote E (nd_vote_triggered n)
             (reset_leader_id E empty_peer (StatusErr ERAFTTIMEDOUT) (n\<lparr>nd_vote_triggered := False\<rparr>)))"

definition handle_vote_timeout :: "('s, 'm, 'c) node_env \<Rightarrow> ('s, 'm, 'c) node \<Rightarrow> ('s, 'm, 'c) node" where
  "handle_vote_timeout E n =
     (if nd_state n \<noteq> STATE_CANDIDATE then n
      else if ne_step_down_when_vote_timedout E
      then pre_vote E False (step_down E (nd_current_term n) False (StatusErr ERAFTTIMEDOUT) n)
      else elect_self E False n)"

definition handle_timeout_now_request ::
  "('s, 'm, 'c) node_env \<Rightarrow> nat \<Rightarrow> timeout_now_request \<Rightarrow> ('s, 'm, 'c) node \<Rightarrow> ('s, 'm, 'c) node" where
  "handle_timeout_now_request E call request n =
     (if tq_term request \<noteq> nd_current_term n
      then (let n1 = (if tq_term request > nd_current_term n
                      then step_down E (tq_term request) False (StatusErr EHIGHERTERMREQUEST) n else n)
            in nd_emit [FxTimeoutNowReply call \<lparr>tr_term = nd_current_term n1, tr_success = False\<rparr>] n1)
      else if nd_state n \<noteq> STATE_FOLLOWER
      then nd_emit [FxTimeoutNowReply call \<lparr>tr_term = nd_current_term n, tr_success = False\<rparr>] n
      else elect_self E (tq_old_leader_stepped_down request)
             (nd_emit [FxTimeoutNowReply call
                         \<lparr>tr_term = (if ne_enable_leader_lease E then nd_current_term n else nd_current_term n + 1),
                          tr_success = True\<rparr>] n))"

subsection \<open>Requests of candidates\<close>

definition handle_pre_vote_request ::
  "('s, 'm, 'c) node_env \<Rightarrow> request_vote_request \<Rightarrow> ('s, 'm, 'c) node
   \<Rightarrow> (errno + request_vote_response) \<times> ('s, 'm, 'c) node" where
  "handle_pre_vote_request E request n =
     (if \<not> is_active_state (nd_state n) then (Inl EINVAL, n)
      else case peer_parse (ne_str2ip E) (vq_server_id request) of
             None \<Rightarrow> (Inl EINVAL, n)
           | Some candidate_id \<Rightarrow>
               (let (granted, rejected_by_lease, n1) =
                      (if vq_term request < nd_current_term n then (False, False, n)
                       else
                         (let (last_log_id, n1) = ne_flush E n;
                              votable = votable_time E n1;
                              grantable = (LogId (vq_last_log_index request) (vq_last_log_term request) \<ge> last_log_id)
                          in if grantable then (votable = 0, votable > 0, n1) else (False, False, n1)))
                in (Inr \<lparr>vr_term = nd_current_term n1, vr_granted = granted,
                         vr_disrupted = (nd_state n1 = STATE_LEADER), vr_previous_term = nd_current_term n1,
                         vr_rejected_by_lease = rejected_by_lease\<rparr>, n1)))"

text \<open>The candidate may tell that it made the follower's leader step down.\<close>

definition disrupted_expire ::
  "('s, 'm, 'c) node_env \<Rightarrow> request_vote_request \<Rightarrow> ('s, 'm, 'c) node \<Rightarrow> ('s, 'm, 'c) node" where
  "disrupted_expire E request n =
     (case vq_disrupted_leader request of
        None \<Rightarrow> n
      | Some (leader, term) \<Rightarrow>
          if nd_state n = STATE_FOLLOWER \<and> nd_current_term n = term
             \<and> (case peer_parse (ne_str2ip E) leader of None \<Rightarrow> False | Some p \<Rightarrow> peer_eq (nd_leader_id n) p)
          then n\<lparr>nd_follower_lease := fl_expire (nd_follower_lease n)\<rparr> else n)"

text \<open>Voting, once the log is flushed: whether a leader was disrupted, whether the lease refused.\<close>

definition save_vote ::
  "('s, 'm, 'c) node_env \<Rightarrow> int \<Rightarrow> peer_id \<Rightarrow> ('s, 'm, 'c) node \<Rightarrow> ('s, 'm, 'c) node" where
  "save_vote E term candidate_id n =
     (let n1 = step_down E term False (StatusErr EVOTEFORCANDIDATE) n;
          n2 = n1\<lparr>nd_voted_id := candidate_id\<rparr>;
          (ok, n3) = save_meta E (nd_current_term n2) candidate_id n2
      in if ok then n3 else n3\<lparr>nd_voted_id := empty_peer\<rparr>)"

definition cast_vote ::
  "('s, 'm, 'c) node_env \<Rightarrow> request_vote_request \<Rightarrow> peer_id \<Rightarrow> log_id \<Rightarrow> ('s, 'm, 'c) node
   \<Rightarrow> bool \<times> bool \<times> ('s, 'm, 'c) node" where
  "cast_vote E request candidate_id last_log_id n =
     (let log_is_ok = (LogId (vq_last_log_index request) (vq_last_log_term request) \<ge> last_log_id)
      in if votable_time E n > 0 then (False, log_is_ok, n)
         else
           (let higher = (vq_term request > nd_current_term n);
                disrupted = (higher \<and> state_num (nd_state n) \<le> state_num STATE_TRANSFERRING);
                n1 = (if higher then step_down E (vq_term request) False (StatusErr EHIGHERTERMREQUEST) n else n);
                n2 = (if log_is_ok \<and> peer_is_empty (nd_voted_id n1)
                      then save_vote E (vq_term request) candidate_id n1 else n1)
            in (disrupted, False, n2)))"

definition handle_request_vote_request ::
  "('s, 'm, 'c) node_env \<Rightarrow> request_vote_request \<Rightarrow> ('s, 'm, 'c) node
   \<Rightarrow> (errno + request_vote_response) \<times> ('s, 'm, 'c) node" where
  "handle_request_vote_request E request n =
     (if \<not> is_active_state (nd_state n) then (Inl EINVAL, n)
      else case peer_parse (ne_str2ip E) (vq_server_id request) of
             None \<Rightarrow> (Inl EINVAL, n)
           | Some candidate_id \<Rightarrow>
               (let n1 = disrupted_expire E request n;
                    previous_term = nd_current_term n1;
                    (disrupted, rejected_by_lease, n2) =
                      (if vq_term request < nd_current_term n1 then (False, False, n1)
                       else (let (last_log_id, n2) = ne_flush E n1
                             in if previous_term \<noteq> nd_current_term n2 then (False, False, n2)
                                else cast_vote E request candidate_id last_log_id n2))
                in (Inr \<lparr>vr_term = nd_current_term n2,
                         vr_granted = (vq_term request = nd_current_term n2 \<and> peer_eq (nd_voted_id n2) candidate_id),
                         vr_disrupted = disrupted, vr_previous_term = previous_term,
                         vr_rejected_by_lease = rejected_by_lease\<rparr>, n2)))"

subsection \<open>Responses of voters\<close>

definition retry_vote_on_reserved_peers ::
  "('s, 'm, 'c) node_env \<Rightarrow> ('s, 'm, 'c) node \<Rightarrow> ('s, 'm, 'c) node" where
  "retry_vote_on_reserved_peers E n =
     (case pop_grantable_peers (nd_vote_ctx n) of
        (peers, vc) \<Rightarrow>
          (let n1 = n\<lparr>nd_vote_ctx := vc\<rparr>
           in if peers = [] then n1
              else request_peers_to_vote E peers (vc_disrupted_leader vc) (vc_disrupted_term vc) n1))"

definition note_disrupted ::
  "vote_ctx_kind \<Rightarrow> peer_id \<Rightarrow> request_vote_response \<Rightarrow> ('s, 'm, 'c) node \<Rightarrow> ('s, 'm, 'c) node" where
  "note_disrupted k peer response n =
     (if vr_disrupted response
      then set_ctx k ((get_ctx k n)\<lparr>vc_disrupted_leader := peer, vc_disrupted_term := vr_previous_term response\<rparr>) n
      else n)"

text \<open>A vote; the last leader's one brings the node's own.\<close>

definition grant_vote ::
  "('s, 'm, 'c) node_env \<Rightarrow> vote_ctx_kind \<Rightarrow> peer_id \<Rightarrow> ('s, 'm, 'c) node \<Rightarrow> ('s, 'm, 'c) node" where
  "grant_vote E k peer n =
     (let n1 = ctx_grant k peer n
      in if peer_eq peer (fl_last_leader (nd_follower_lease n1))
         then stop_grant_self_timer E k (ctx_grant k (nd_server_id n1) n1) else n1)"

definition handle_request_vote_response ::
  "('s, 'm, 'c) node_env \<Rightarrow> peer_id \<Rightarrow> int \<Rightarrow> int \<Rightarrow> request_vote_response
   \<Rightarrow> ('s, 'm, 'c) node \<Rightarrow> ('s, 'm, 'c) node" where
  "handle_request_vote_response E peer term ctx_version response n =
     (if ctx_version \<noteq> vc_version (nd_vote_ctx n) then n
      else if nd_state n \<noteq> STATE_CANDIDATE then n
      else if term \<noteq> nd_current_term n then n
      else if vr_term response > nd_current_term n
      then step_down E (vr_term response) False (StatusErr EHIGHERTERMRESPONSE) n
      else if \<not> vr_granted response \<and> \<not> vr_rejected_by_lease response then n
      else
        (let n1 = note_disrupted VoteCtx peer response n
         in if vr_granted response
            then (let n2 = grant_vote E VoteCtx peer n1
                  in if ctx_granted VoteCtx n2 then become_leader E n2 else retry_vote_on_reserved_peers E n2)
            else retry_vote_on_reserved_peers E (n1\<lparr>nd_vote_ctx := vote_ctx_reserve peer (nd_vote_ctx n1)\<rparr>)))"

definition handle_pre_vote_response ::
  "('s, 'm, 'c) node_env \<Rightarrow> peer_id \<Rightarrow> int \<Rightarrow> int \<Rightarrow> request_vote_response
   \<Rightarrow> ('s, 'm, 'c) node \<Rightarrow> ('s, 'm, 'c) node" where
  "handle_pre_vote_response E peer term ctx_version response n =
     (if ctx_version \<noteq> vc_version (nd_pre_vote_ctx n) then n
      else if nd_state n \<noteq> STATE_FOLLOWER then n
      else if term \<noteq> nd_current_term n then n
      else if vr_term response > nd_current_term n
      then step_down E (vr_term response) False (StatusErr EHIGHERTERMRESPONSE) n
      else if \<not> vr_granted response \<and> \<not> vr_rejected_by_lease response then n
      else if vr_rejected_by_lease response \<and> \<not> vc_triggered (nd_pre_vote_ctx n) then n
      else
        (let n1 = note_disrupted PreVoteCtx peer response n;
             c1 = (if vr_rejected_by_lease response then vote_ctx_reserve peer (nd_pre_vote_ctx n1)
                   else nd_pre_vote_ctx n1);
             (popped, c2) = pop_grantable_peers c1;
             peers = (if vr_rejected_by_lease response then popped else set_insert peer popped);
             n2 = fold (grant_vote E PreVoteCtx) peers (n1\<lparr>nd_pre_vote_ctx := c2\<rparr>)
         in if ctx_granted PreVoteCtx n2 then elect_self E False n2 else n2))"

definition increase_term_to ::
  "('s, 'm, 'c) node_env \<Rightarrow> int \<Rightarrow> status \<Rightarrow> ('s, 'm, 'c) node \<Rightarrow> rc \<times> ('s, 'm, 'c) node" where
  "increase_term_to E new_term status n =
     (if new_term \<le> nd_current_term n then (RcErr EINVAL, n)
      else (RcOk, step_down E new_term False status n))"

end
