(* ===== verification/NodeAppend.thy ===== *)
theory NodeAppend
  imports NodeElection
begin

section \<open>Replication on the node: applying tasks, appending entries (node.cpp)\<close>

text \<open>
  The leader's side is \<open>apply\<close> and \<open>LeaderStableClosure\<close>; the follower's is
  \<open>handle_append_entries_request\<close>, with the cache of out-of-order requests, and
  \<open>FollowerStableClosure\<close>. A reply is an effect that carries the number of the RPC.
\<close>

record 'c task =
  tk_data :: string
  tk_done :: "'c option"
  tk_expected_term :: int

definition run_all :: "('c option \<times> status) list \<Rightarrow> ('s, 'm, 'c) node \<Rightarrow> ('s, 'm, 'c) node" where
  "run_all xs n = fold (\<lambda>(d, st) n. run_opt d st n) xs n"

text \<open>The loop over the tasks: those of another term fail, the others get a ballot.\<close>

fun apply_tasks :: "'c task list \<Rightarrow> ('s, 'm, 'c) node \<Rightarrow> log_entry list \<times> ('s, 'm, 'c) node" where
  "apply_tasks [] n = ([], n)"
| "apply_tasks (t # ts) n =
     (if tk_expected_term t \<noteq> -1 \<and> tk_expected_term t \<noteq> nd_current_term n
      then apply_tasks ts (run_opt (tk_done t) (StatusErr EPERM) n)
      else
        (let e = \<lparr>e_type = ENTRY_TYPE_DATA, e_id = LogId 0 (nd_current_term n), e_peers = None,
                  e_old_peers = None, e_data = tk_data t\<rparr>;
             c = nd_conf n;
             n1 = node_append_pending_task (ce_conf c) (if ce_stable c then None else Some (ce_old_conf c))
                    (map_option UserDone (tk_done t)) n;
             (es, n2) = apply_tasks ts n1
         in (e # es, n2)))"

definition node_apply ::
  "('s, 'm, 'c) node_env \<Rightarrow> 'c task list \<Rightarrow> ('s, 'm, 'c) node \<Rightarrow> ('s, 'm, 'c) node" where
  "node_apply E tasks n =
     (let reject_new_user_logs = (nd_node_readonly n \<or> nd_majority_nodes_readonly n)
      in if nd_state n \<noteq> STATE_LEADER \<or> reject_new_user_logs
         then (let st = (if nd_state n = STATE_LEADER \<and> reject_new_user_logs then StatusErr EREADONLY
                         else if nd_state n \<noteq> STATE_TRANSFERRING then StatusErr EPERM
                         else StatusErr EBUSY)
               in run_all (map (\<lambda>t. (tk_done t, st)) tasks) n)
         else
           (let (es, n1) = apply_tasks tasks n
            in check_and_set_configuration (node_append_entries E es (LeaderStable (length es)) n1)))"

text \<open>\<open>execute_applying_tasks\<close> hands the queue over in batches.\<close>

function execute_applying_tasks ::
  "nat \<Rightarrow> ('s, 'm, 'c) node_env \<Rightarrow> 'c task list \<Rightarrow> ('s, 'm, 'c) node \<Rightarrow> ('s, 'm, 'c) node" where
  "execute_applying_tasks batch_size E ts n =
     (if ts = [] \<or> batch_size = 0 then n
      else execute_applying_tasks batch_size E (drop batch_size ts) (node_apply E (take batch_size ts) n))"
  by pat_completeness auto
termination
  by (relation "measure (\<lambda>(b, E, ts, n). length ts)") auto

declare execute_applying_tasks.simps [simp del]

definition leader_stable_run ::
  "nat \<Rightarrow> int \<Rightarrow> status \<Rightarrow> ('s, 'm, 'c) node \<Rightarrow> ('s, 'm, 'c) node" where
  "leader_stable_run nentries first_log_index st n =
     (if st = StatusOK
      then on_w (w_commit_at first_log_index (first_log_index + int nentries - 1) (nd_server_id n)) n
      else n)"

subsection \<open>Follower: when entries are on disk\<close>

definition node_set_last_committed_index :: "int \<Rightarrow> ('s, 'm, 'c) node \<Rightarrow> ('s, 'm, 'c) node" where
  "node_set_last_committed_index i n =
     (case set_last_committed_index i (w_bb (nd_w n)) of
        (rc, bb, committed) \<Rightarrow> nd_emit (map FxCommitted committed) (on_w (\<lambda>w. w\<lparr>w_bb := bb\<rparr>) n))"

definition follower_stable_run ::
  "nat \<Rightarrow> append_entries_request \<Rightarrow> int \<Rightarrow> status \<Rightarrow> ('s, 'm, 'c) node \<Rightarrow> ('s, 'm, 'c) node" where
  "follower_stable_run call request term st n =
     (case st of
        StatusErr e \<Rightarrow> nd_emit [FxAppendFailed call e] n
      | StatusOK \<Rightarrow>
          if term \<noteq> nd_current_term n
          then nd_emit [FxAppendReply call \<lparr>ar_term = nd_current_term n, ar_success = False,
                                            ar_last_log_index = 0, ar_readonly = False\<rparr>] n
          else nd_emit [FxAppendReply call \<lparr>ar_term = term, ar_success = True,
                                            ar_last_log_index = 0, ar_readonly = False\<rparr>]
                 (node_set_last_committed_index
                    (min (aq_committed_index request)
                         (aq_prev_log_index request + int (length (aq_entries request)))) n))"

text \<open>A stable closure the log manager runs.\<close>

definition run_stable_done ::
  "stable_done \<Rightarrow> int \<Rightarrow> status \<Rightarrow> ('s, 'm, 'c) node \<Rightarrow> ('s, 'm, 'c) node" where
  "run_stable_done d first_log_index st n =
     (case d of
        LeaderStable k \<Rightarrow> leader_stable_run k first_log_index st n
      | FollowerStable call request term \<Rightarrow> follower_stable_run call request term st n
      | BootstrapStable \<Rightarrow> n)"

subsection \<open>Follower: the cache of out-of-order requests\<close>

definition handle_out_of_order_append_entries ::
  "('s, 'm, 'c) node_env \<Rightarrow> nat \<Rightarrow> append_entries_request \<Rightarrow> int \<Rightarrow> ('s, 'm, 'c) node
   \<Rightarrow> bool \<times> ('s, 'm, 'c) node" where
  "handle_out_of_order_append_entries E call request local_last_index n =
     (if \<not> ne_enable_append_entries_cache E \<or> local_last_index \<ge> aq_prev_log_index request
         \<or> aq_entries request = []
      then (False, n)
      else
        (let (c, n1) = (case nd_append_entries_cache n of
                          Some c \<Rightarrow> (c, n)
                        | None \<Rightarrow> (append_cache_new (nd_append_entries_cache_version n + 1),
                                   n\<lparr>nd_append_entries_cache_version := nd_append_entries_cache_version n + 1\<rparr>));
             (rc, c1, fx) = ac_store (node_cache_env E n1)
                              \<lparr>arpc_call = call, arpc_request = request, arpc_receive_time_ms = ne_wall_ms E\<rparr> c
         in (rc, nd_emit fx (n1\<lparr>nd_append_entries_cache := (if \<not> rc \<and> ac_empty c1 then None else Some c1)\<rparr>))))"

definition check_append_entries_cache ::
  "('s, 'm, 'c) node_env \<Rightarrow> int \<Rightarrow> ('s, 'm, 'c) node \<Rightarrow> ('s, 'm, 'c) node" where
  "check_append_entries_cache E local_last_index n =
     (case nd_append_entries_cache n of
        None \<Rightarrow> n
      | Some c \<Rightarrow>
          (case ac_process_runable_rpcs (node_cache_env E n) local_last_index c of
             (c1, fx) \<Rightarrow> nd_emit fx (n\<lparr>nd_append_entries_cache := (if ac_empty c1 then None else Some c1)\<rparr>)))"

definition handle_append_entries_cache_timedout ::
  "('s, 'm, 'c) node_env \<Rightarrow> int \<Rightarrow> int \<Rightarrow> int \<Rightarrow> ('s, 'm, 'c) node \<Rightarrow> ('s, 'm, 'c) node" where
  "handle_append_entries_cache_timedout E cache_version timer_version timer_start_ms n =
     (case nd_append_entries_cache n of
        None \<Rightarrow> n
      | Some c \<Rightarrow>
          if cache_version \<noteq> ac_cache_version c then n
          else (case ac_timedout (node_cache_env E n) timer_version timer_start_ms c of
                  (c1, fx) \<Rightarrow> nd_emit fx (n\<lparr>nd_append_entries_cache := (if ac_empty c1 then None else Some c1)\<rparr>)))"

subsection \<open>Follower: append-entries requests\<close>

text \<open>The entries of a request: numbered from \<open>index + 1\<close>, data cut from the attachment.\<close>

fun parse_entries ::
  "(string \<Rightarrow> 32 word option) \<Rightarrow> int \<Rightarrow> string \<Rightarrow> entry_meta list \<Rightarrow> log_entry list" where
  "parse_entries str2ip index data [] = []"
| "parse_entries str2ip index data (em # ems) =
     (if em_type em = ENTRY_TYPE_UNKNOWN then parse_entries str2ip (index + 1) data ems
      else
        (let len = (case em_data_len em of None \<Rightarrow> 0 | Some k \<Rightarrow> k);
             e = \<lparr>e_type = em_type em, e_id = LogId (index + 1) (em_term em),
                  e_peers = (if em_peers em = [] then None else Some (map (peer_of_string str2ip) (em_peers em))),
                  e_old_peers = (if em_peers em = [] \<or> em_old_peers em = [] then None
                                 else Some (map (peer_of_string str2ip) (em_old_peers em))),
                  e_data = take len data\<rparr>
         in e # parse_entries str2ip (index + 1) (drop len data) ems))"

definition reply_append ::
  "nat \<Rightarrow> int \<Rightarrow> bool \<Rightarrow> int \<Rightarrow> bool \<Rightarrow> ('s, 'm, 'c) node \<Rightarrow> ('s, 'm, 'c) node" where
  "reply_append call term success last_log_index readonly =
     nd_emit [FxAppendReply call \<lparr>ar_term = term, ar_success = success,
                                   ar_last_log_index = last_log_index, ar_readonly = readonly\<rparr>]"

text \<open>What happens once the sender is known to be the leader.\<close>

definition append_from_leader ::
  "('s, 'm, 'c) node_env \<Rightarrow> nat \<Rightarrow> append_entries_request \<Rightarrow> bool \<Rightarrow> ('s, 'm, 'c) node \<Rightarrow> ('s, 'm, 'c) node" where
  "append_from_leader E call request from_append_entries_cache n =
     (if aq_entries request \<noteq> [] \<and> ne_has_snapshot_executor E \<and> ne_installing_snapshot E
      then nd_emit [FxAppendFailed call EBUSY] n
      else
        (let prev_log_index = aq_prev_log_index request;
             last_index = lm_last (w_lm (nd_w n))
         in if lm_get_term (ne_storage E) prev_log_index (w_lm (nd_w n)) \<noteq> aq_prev_log_term request
            then (let (cached, n1) = (if from_append_entries_cache then (False, n)
                                      else handle_out_of_order_append_entries E call request last_index n)
                  in if cached then n1
                     else reply_append call (nd_current_term n1) False last_index False n1)
            else if aq_entries request = []
            then reply_append call (nd_current_term n) True last_index (nd_node_readonly n)
                   (node_set_last_committed_index (min (aq_committed_index request) prev_log_index) n)
            else
              (let es = parse_entries (ne_str2ip E) prev_log_index (aq_attachment request) (aq_entries request);
                   n1 = check_append_entries_cache E (prev_log_index + int (length (aq_entries request))) n;
                   n2 = node_append_entries E es (FollowerStable call request (nd_current_term n1)) n1
               in check_and_set_configuration n2)))"

definition handle_append_entries_request ::
  "('s, 'm, 'c) node_env \<Rightarrow> nat \<Rightarrow> append_entries_request \<Rightarrow> bool \<Rightarrow> ('s, 'm, 'c) node \<Rightarrow> ('s, 'm, 'c) node" where
  "handle_append_entries_request E call request from_append_entries_cache n =
     (if \<not> is_active_state (nd_state n) then nd_emit [FxAppendFailed call EINVAL] n
      else case peer_parse (ne_str2ip E) (aq_server_id request) of
             None \<Rightarrow> nd_emit [FxAppendFailed call EREQUEST] n
           | Some server_id \<Rightarrow>
               if aq_term request < nd_current_term n
               then reply_append call (nd_current_term n) False 0 False n
               else
                 (let n1 = check_step_down E (aq_term request) server_id n
                  in if \<not> peer_eq server_id (nd_leader_id n1)
                     then reply_append call (aq_term request + 1) False 0 False
                            (step_down E (aq_term request + 1) False (StatusErr ELEADERCONFLICT) n1)
                     else append_from_leader E call request from_append_entries_cache
                            (if from_append_entries_cache then n1
                             else n1\<lparr>nd_follower_lease :=
                                       fl_renew (ne_now_ms E) (nd_leader_id n1) (nd_follower_lease n1)\<rparr>)))"

definition handle_append_entries_from_cache ::
  "('s, 'm, 'c) node_env \<Rightarrow> append_entries_rpc list \<Rightarrow> ('s, 'm, 'c) node \<Rightarrow> ('s, 'm, 'c) node" where
  "handle_append_entries_from_cache E rpcs n =
     fold (\<lambda>p n. handle_append_entries_request E (arpc_call p) (arpc_request p) True n) rpcs n"

subsection \<open>Snapshots\<close>

definition handle_install_snapshot_request ::
  "('s, 'm, 'c) node_env \<Rightarrow> nat \<Rightarrow> install_snapshot_request \<Rightarrow> ('s, 'm, 'c) node
   \<Rightarrow> (errno + install_snapshot_response option) \<times> ('s, 'm, 'c) node" where
  "handle_install_snapshot_request E call request n =
     (if \<not> ne_has_snapshot_executor E then (Inl EINVAL, n)
      else case peer_parse (ne_str2ip E) (iq_server_id request) of
             None \<Rightarrow> (Inl EREQUEST, n)
           | Some server_id \<Rightarrow>
               if \<not> is_active_state (nd_state n) then (Inl EINVAL, n)
               else if iq_term request < nd_current_term n
               then (Inr (Some \<lparr>ir_term = nd_current_term n, ir_success = False\<rparr>), n)
               else
                 (let n1 = check_step_down E (iq_term request) server_id n
                  in if \<not> peer_eq server_id (nd_leader_id n1)
                     then (Inr (Some \<lparr>ir_term = iq_term request + 1, ir_success = False\<rparr>),
                           step_down E (iq_term request + 1) False (StatusErr ELEADERCONFLICT) n1)
                     else (Inr None, nd_emit [FxSnapshotInstall call request] (clear_append_entries_cache E n1))))"

end
