(* ===== verification/RaftMeta.thy ===== *)
theory RaftMeta
  imports RaftTypes
begin

section \<open>Stable meta data: term and vote on disk (protobuf_file.cpp, raft_meta.cpp)\<close>

text \<open>
  \<open>ProtoBufFile\<close> writes a message, behind its length in network order, to a temporary file and
  renames that over the real one; every step can fail. \<open>FileBasedSingleMetaStorage\<close> keeps the
  term and the vote of one raft node in such a file. The serialised form of the message is generated
  code: \<open>me_ser\<close> and \<open>me_deser\<close> are parameters. The merged (leveldb) and mixed storages
  are in MergedMeta.
\<close>

subsection \<open>ProtoBufFile\<close>

text \<open>Which calls to the file system succeed; a write fails when it writes too little.\<close>

record file_env =
  fe_open_ok :: bool
  fe_write_len_ok :: bool
  fe_write_ok :: bool
  fe_sync :: bool
  fe_sync_ok :: bool
  fe_rename_ok :: bool

text \<open>The contents of the file and of the temporary one, \<open>None\<close> when it does not exist.\<close>

record pb_file =
  pb_path :: "string option"
  pb_tmp :: "string option"

definition net32 :: "nat \<Rightarrow> string" where
  "net32 n = [char_of (n div 2 ^ 24), char_of (n div 2 ^ 16), char_of (n div 2 ^ 8), char_of n]"

definition host32 :: "string \<Rightarrow> nat" where
  "host32 s = foldl (\<lambda>v c. 256 * v + of_char c) 0 s"

definition pb_save :: "file_env \<Rightarrow> string \<Rightarrow> pb_file \<Rightarrow> bool \<times> pb_file" where
  "pb_save E msg f =
     (if \<not> fe_open_ok E then (False, f)
      else
        (let f1 = f\<lparr>pb_tmp := Some []\<rparr>
         in if \<not> fe_write_len_ok E then (False, f1)
            else
              (let f2 = f1\<lparr>pb_tmp := Some (net32 (length msg))\<rparr>
               in if \<not> fe_write_ok E then (False, f2)
                  else
                    (let f3 = f2\<lparr>pb_tmp := Some (net32 (length msg) @ msg)\<rparr>
                     in if fe_sync E \<and> \<not> fe_sync_ok E then (False, f3)
                        else if \<not> fe_rename_ok E then (False, f3)
                        else (True, f3\<lparr>pb_path := pb_tmp f3, pb_tmp := None\<rparr>)))))"

text \<open>The errno of a failed open is ENOENT for a file that does not exist; EIO stands for any other one, for
  the caller only compares it with ENOENT. The length is read
  into an \<^verbatim>\<open>int32_t\<close>; a read never returns a negative one.\<close>

definition pb_load :: "file_env \<Rightarrow> pb_file \<Rightarrow> errno option + string" where
  "pb_load E f =
     (case pb_path f of
        None \<Rightarrow> Inl (Some ENOENT)
      | Some s \<Rightarrow>
          if \<not> fe_open_ok E then Inl (Some EIO)
          else if length s < 4 then Inl None
          else if host32 (take 4 s) \<ge> 2 ^ 31 then Inl None
          else if length (drop 4 s) < host32 (take 4 s) then Inl None
          else Inr (take (host32 (take 4 s)) (drop 4 s)))"

lemma host32_net32:
  assumes "n < 2 ^ 32"
  shows "host32 (net32 n) = n"
proof -
  let ?a = "n div 256" let ?b = "?a div 256" let ?c = "?b div 256"
  have q: "n div 2 ^ 8 = ?a" "n div 2 ^ 16 = ?b" "n div 2 ^ 24 = ?c"
    by (simp_all add: div_mult2_eq [symmetric])
  have "?c < 256"
    using assms by (simp add: div_mult2_eq [symmetric] less_mult_imp_div_less)
  then have "256 * (256 * (256 * (?c mod 256) + ?b mod 256) + ?a mod 256) + n mod 256 = n"
    by (simp only: mod_less mult_div_mod_eq)
  then show ?thesis
    by (simp only: host32_def net32_def q foldl.simps of_char_of mult_0_right add_0)
qed

lemma pb_load_saved:
  "length msg < 2 ^ 31 \<Longrightarrow> fe_open_ok E \<Longrightarrow> pb_load E \<lparr>pb_path = Some (net32 (length msg) @ msg), pb_tmp = t\<rparr> = Inr msg"
  using host32_net32 [of "length msg"] by (simp add: pb_load_def net32_def)

text \<open>A save replaces the file as a whole or leaves it alone.\<close>

lemma pb_save_spec:
  assumes "pb_save E msg f = (ok, f')"
  shows "pb_path f' = (if ok then Some (net32 (length msg) @ msg) else pb_path f)"
  using assms by (auto simp: pb_save_def Let_def split: if_splits)

subsection \<open>FileBasedSingleMetaStorage\<close>

record stable_pb_meta =
  pm_term :: int
  pm_votedfor :: string

record meta_env =
  me_str2ip :: "string \<Rightarrow> 32 word option"
  me_endpoint2str :: "endpoint \<Rightarrow> string"
  me_ser :: "stable_pb_meta \<Rightarrow> string"
  me_deser :: "string \<Rightarrow> stable_pb_meta"
  me_file :: file_env
  me_dir_error :: "errno option"

record single_meta =
  fm_is_inited :: bool
  fm_term :: int
  fm_votedfor :: peer_id
  fm_file :: pb_file

definition single_meta_new :: "pb_file \<Rightarrow> single_meta" where
  "single_meta_new f = \<lparr>fm_is_inited = False, fm_term = 1, fm_votedfor = empty_peer, fm_file = f\<rparr>"

definition fm_load :: "meta_env \<Rightarrow> single_meta \<Rightarrow> rc \<times> single_meta" where
  "fm_load E m =
     (case pb_load (me_file E) (fm_file m) of
        Inr s \<Rightarrow>
          (let meta = me_deser E s; m1 = m\<lparr>fm_term := pm_term meta\<rparr>
           in case peer_parse (me_str2ip E) (pm_votedfor meta) of
                None \<Rightarrow> (RcFail, m1\<lparr>fm_votedfor := empty_peer\<rparr>)
              | Some p \<Rightarrow> (RcOk, m1\<lparr>fm_votedfor := p\<rparr>))
      | Inl e \<Rightarrow> (if e = Some ENOENT then RcOk else RcFail, m))"

definition meta_message :: "meta_env \<Rightarrow> int \<Rightarrow> peer_id \<Rightarrow> stable_pb_meta" where
  "meta_message E term p = \<lparr>pm_term = term, pm_votedfor = peer_to_string (me_endpoint2str E) p\<rparr>"

definition fm_save :: "meta_env \<Rightarrow> single_meta \<Rightarrow> bool \<times> single_meta" where
  "fm_save E m =
     (case pb_save (me_file E) (me_ser E (meta_message E (fm_term m) (fm_votedfor m))) (fm_file m) of
        (ok, f) \<Rightarrow> (ok, m\<lparr>fm_file := f\<rparr>))"

definition fm_init :: "meta_env \<Rightarrow> single_meta \<Rightarrow> status \<times> single_meta" where
  "fm_init E m =
     (if fm_is_inited m then (StatusOK, m)
      else case me_dir_error E of
             Some e \<Rightarrow> (StatusErr e, m)
           | None \<Rightarrow> (case fm_load E m of
                        (ret, m1) \<Rightarrow> if ret \<noteq> RcOk then (StatusErr EIO, m1)
                                     else (StatusOK, m1\<lparr>fm_is_inited := True\<rparr>)))"

definition fm_set_term_and_votedfor ::
  "meta_env \<Rightarrow> int \<Rightarrow> peer_id \<Rightarrow> single_meta \<Rightarrow> status \<times> single_meta" where
  "fm_set_term_and_votedfor E term p m =
     (if \<not> fm_is_inited m then (StatusErr EINVAL, m)
      else case fm_save E (m\<lparr>fm_term := term, fm_votedfor := p\<rparr>) of
             (ok, m1) \<Rightarrow> (if ok then StatusOK else StatusErr EIO, m1))"

definition fm_get_term_and_votedfor :: "single_meta \<Rightarrow> status \<times> int \<times> peer_id" where
  "fm_get_term_and_votedfor m =
     (if \<not> fm_is_inited m then (StatusErr EINVAL, 0, empty_peer) else (StatusOK, fm_term m, fm_votedfor m))"

subsection \<open>What a restart finds\<close>

text \<open>
  The contract of a meta storage towards the node: what is \<open>stored\<close> (the term and vote a restarted
  process reads) changes only by a set that succeeds, to what was set. It is promised for votes that can be
  \<open>saved\<close> at all. \<open>durable_meta\<close> adds that a new process, which reopens the storage, reads
  what is stored.
\<close>

locale meta_storage =
  fixes mset :: "int \<Rightarrow> peer_id \<Rightarrow> 'm \<Rightarrow> bool \<times> 'm"
    and stored :: "'m \<Rightarrow> int \<times> peer_id"
    and savable :: "int \<Rightarrow> peer_id \<Rightarrow> bool"
  assumes mset_stored: "savable t p \<Longrightarrow> mset t p m = (ok, m') \<Longrightarrow>
            stored m' = (if ok then (t, p) else stored m)"

locale durable_meta = meta_storage mset stored savable
  for mset :: "int \<Rightarrow> peer_id \<Rightarrow> 'm \<Rightarrow> bool \<times> 'm"
    and stored :: "'m \<Rightarrow> int \<times> peer_id"
    and savable :: "int \<Rightarrow> peer_id \<Rightarrow> bool" +
  fixes reopen :: "'m \<Rightarrow> 'm"
    and minit :: "'m \<Rightarrow> status \<times> 'm"
    and mget :: "'m \<Rightarrow> status \<times> int \<times> peer_id"
  assumes reopen_stored: "stored (reopen m) = stored m"
    and init_stored: "minit (reopen m) = (st, m') \<Longrightarrow> stored m' = stored m"
    and init_get: "minit (reopen m) = (StatusOK, m') \<Longrightarrow> mget m' = (StatusOK, stored m)"

definition fm_mset :: "meta_env \<Rightarrow> int \<Rightarrow> peer_id \<Rightarrow> single_meta \<Rightarrow> bool \<times> single_meta" where
  "fm_mset E t p m = (case fm_set_term_and_votedfor E t p m of (st, m') \<Rightarrow> (st = StatusOK, m'))"

text \<open>Reading back, by a new instance on the same file, when the file can be opened.\<close>

definition readable :: "meta_env \<Rightarrow> meta_env" where
  "readable E = E\<lparr>me_file := (me_file E)\<lparr>fe_open_ok := True\<rparr>\<rparr>"

definition fm_stored :: "meta_env \<Rightarrow> single_meta \<Rightarrow> int \<times> peer_id" where
  "fm_stored E m = (case fm_load (readable E) (single_meta_new (fm_file m)) of
                      (r, m') \<Rightarrow> (fm_term m', fm_votedfor m'))"

definition fm_savable :: "meta_env \<Rightarrow> int \<Rightarrow> peer_id \<Rightarrow> bool" where
  "fm_savable E t p \<longleftrightarrow>
     peer_parse (me_str2ip E) (peer_to_string (me_endpoint2str E) p) = Some p
     \<and> me_deser E (me_ser E (meta_message E t p)) = meta_message E t p
     \<and> length (me_ser E (meta_message E t p)) < 2 ^ 31"

lemma fm_stored_cong:
  assumes "pb_path (fm_file m) = pb_path (fm_file m')"
  shows "fm_stored E m = fm_stored E m'"
proof -
  have "pb_load F (fm_file m) = pb_load F (fm_file m')" for F
    using assms by (simp add: pb_load_def)
  then show ?thesis
    by (simp add: fm_stored_def fm_load_def single_meta_new_def Let_def split: sum.split option.split)
qed

lemma fm_stored_saved:
  assumes "fm_savable E t p" and "pb_path (fm_file m) = Some (net32 (length s) @ s)"
    and "s = me_ser E (meta_message E t p)"
  shows "fm_stored E m = (t, p)"
proof -
  have "pb_load (me_file (readable E)) (fm_file m) = Inr s"
    using assms pb_load_saved [of s "me_file (readable E)" "pb_tmp (fm_file m)"]
    by (simp add: fm_savable_def readable_def pb_load_def)
  then show ?thesis
    using assms(1,3)
    by (simp add: fm_stored_def fm_load_def single_meta_new_def readable_def fm_savable_def meta_message_def)
qed

definition fm_reopen :: "single_meta \<Rightarrow> single_meta" where
  "fm_reopen m = single_meta_new (fm_file m)"

lemma fm_init_reopened:
  assumes "fm_init E (fm_reopen m) = (st, m')"
  shows "fm_file m' = fm_file m"
    and "st = StatusOK \<Longrightarrow> fm_get_term_and_votedfor m' = (StatusOK, fm_stored E m)"
proof -
  show "fm_file m' = fm_file m"
    using assms by (auto simp: fm_init_def fm_reopen_def single_meta_new_def fm_load_def Let_def
        split: option.splits sum.splits if_splits)
  show "fm_get_term_and_votedfor m' = (StatusOK, fm_stored E m)" if "st = StatusOK"
    using assms that
    by (auto simp: fm_init_def fm_reopen_def single_meta_new_def fm_load_def Let_def fm_stored_def
        fm_get_term_and_votedfor_def readable_def pb_load_def split: option.splits sum.splits if_splits)
qed

interpretation fm: durable_meta "fm_mset E" "fm_stored E" "fm_savable E" fm_reopen "fm_init E"
  fm_get_term_and_votedfor for E
proof unfold_locales
  fix p t m ok m'
  assume sv: "fm_savable E t p" and set: "fm_mset E t p m = (ok, m')"
  show "fm_stored E m' = (if ok then (t, p) else fm_stored E m)"
  proof (cases "fm_is_inited m")
    case False
    with set show ?thesis by (auto simp: fm_mset_def fm_set_term_and_votedfor_def)
  next
    case True
    let ?s = "me_ser E (meta_message E t p)"
    obtain ok1 f where save: "pb_save (me_file E) ?s (fm_file m) = (ok1, f)"
      by fastforce
    with set True have ok: "ok = ok1" and m': "fm_file m' = f"
      by (auto simp: fm_mset_def fm_set_term_and_votedfor_def fm_save_def split: if_splits)
    note path = pb_save_spec [OF save]
    show ?thesis
      using fm_stored_saved [OF sv _ refl, of m'] fm_stored_cong [of m' m E] path m' ok by simp
  qed
next
  fix m
  show "fm_stored E (fm_reopen m) = fm_stored E m"
    by (rule fm_stored_cong) (simp add: fm_reopen_def single_meta_new_def)
next
  fix m st m'
  assume "fm_init E (fm_reopen m) = (st, m')"
  then show "fm_stored E m' = fm_stored E m"
    by (intro fm_stored_cong) (simp add: fm_init_reopened(1))
next
  fix m m'
  assume "fm_init E (fm_reopen m) = (StatusOK, m')"
  then show "fm_get_term_and_votedfor m' = (StatusOK, fm_stored E m)"
    by (simp add: fm_init_reopened(2))
qed

subsection \<open>Properties\<close>

text \<open>
  C35 (roundtrip): saving a message is atomic: wherever the save fails (opening or writing the temporary
  file, syncing, renaming), loading still gives what it gave before, and after a save that succeeds
  loading gives the message saved.
\<close>

theorem pb_save_atomic:
  assumes "length msg < 2 ^ 31" and "pb_save E msg f = (ok, f')" and "fe_open_ok E'"
  shows "pb_load E' f' = (if ok then Inr msg else pb_load E' f)"
proof (cases ok)
  case True
  then have "pb_path f' = Some (net32 (length msg) @ msg)"
    using pb_save_spec [OF assms(2)] by simp
  then show ?thesis
    using True pb_load_saved [OF assms(1,3), of "pb_tmp f'"] by (simp add: pb_load_def)
next
  case False
  then show ?thesis
    using pb_save_spec [OF assms(2)] by (simp add: pb_load_def)
qed

definition sample_file_env :: file_env where
  "sample_file_env = \<lparr>fe_open_ok = True, fe_write_len_ok = True, fe_write_ok = True, fe_sync = True,
                      fe_sync_ok = True, fe_rename_ok = True\<rparr>"

theorem pb_save_atomic_witness:
  "pb_load sample_file_env (snd (pb_save sample_file_env ''vote'' \<lparr>pb_path = None, pb_tmp = None\<rparr>)) = Inr ''vote''"
proof -
  obtain ok f' where save: "pb_save sample_file_env ''vote'' \<lparr>pb_path = None, pb_tmp = None\<rparr> = (ok, f')"
    by fastforce
  then have "ok"
    by (auto simp: pb_save_def sample_file_env_def Let_def)
  with pb_save_atomic [OF _ save, of sample_file_env] show ?thesis
    unfolding save by (simp add: sample_file_env_def)
qed

end
