(* ===== verification/NodeMisc.thy ===== *)
theory NodeMisc
  imports NodeAppend RaftMeta
begin

section \<open>Starting and stopping the node, its other timers and requests (node.cpp)\<close>

subsection \<open>When the leader last heard from a majority\<close>

text \<open>
  \<open>last_leader_active_timestamp\<close> keeps the largest timestamps in a binary heap whose root is
  the smallest one. Only the multiset of the heap and its root matter, so the heap is a sorted list.
\<close>

fun keep_largest :: "nat \<Rightarrow> int list \<Rightarrow> int list \<Rightarrow> int list" where
  "keep_largest k heap [] = heap"
| "keep_largest k heap (x # xs) =
     (let h = insort x heap in keep_largest k (if length h > k then tl h else h) xs)"

definition last_leader_active_timestamp_of ::
  "('s, 'm, 'c) node_env \<Rightarrow> conf \<Rightarrow> ('s, 'm, 'c) node \<Rightarrow> int" where
  "last_leader_active_timestamp_of E c n =
     (let heap = keep_largest (length c div 2) []
                   (map (\<lambda>p. last_rpc_send_timestamp p (nd_w n)) (filter (\<lambda>p. \<not> is_self n p) c))
      in if heap = [] then ne_now_ms E else hd heap)"

definition last_leader_active_timestamp :: "('s, 'm, 'c) node_env \<Rightarrow> ('s, 'm, 'c) node \<Rightarrow> int" where
  "last_leader_active_timestamp E n =
     (let t = last_leader_active_timestamp_of E (ce_conf (nd_conf n)) n
      in if ce_old_conf (nd_conf n) \<noteq> []
         then min t (last_leader_active_timestamp_of E (ce_old_conf (nd_conf n)) n) else t)"

definition leader_lease_start :: "('s, 'm, 'c) node_env \<Rightarrow> int \<Rightarrow> ('s, 'm, 'c) node \<Rightarrow> ('s, 'm, 'c) node" where
  "leader_lease_start E lease_epoch n =
     (if nd_state n = STATE_LEADER
      then n\<lparr>nd_leader_lease := ll_on_lease_start lease_epoch (last_leader_active_timestamp E n) (nd_leader_lease n)\<rparr>
      else n)"

datatype lease_status = LEASE_DISABLED | LEASE_EXPIRED | LEASE_NOT_READY | LEASE_VALID

record leader_lease_status =
  ls_state :: lease_status
  ls_term :: int
  ls_lease_epoch :: int

definition lease_status_of :: "lease_status \<Rightarrow> leader_lease_status" where
  "lease_status_of s = \<lparr>ls_state = s, ls_term = 0, ls_lease_epoch = 0\<rparr>"

definition lease_valid_status :: "lease_info \<Rightarrow> leader_lease_status" where
  "lease_valid_status i = \<lparr>ls_state = LEASE_VALID, ls_term = li_term i, ls_lease_epoch = li_lease_epoch i\<rparr>"

definition node_lease_info :: "('s, 'm, 'c) node_env \<Rightarrow> ('s, 'm, 'c) node \<Rightarrow> lease_info" where
  "node_lease_info E n = ll_get_lease_info (ne_enable_leader_lease E) (ne_now_ms E) (nd_leader_lease n)"

definition get_leader_lease_status ::
  "('s, 'm, 'c) node_env \<Rightarrow> ('s, 'm, 'c) node \<Rightarrow> leader_lease_status \<times> ('s, 'm, 'c) node" where
  "get_leader_lease_status E n =
     (let info = node_lease_info E n in
      case li_state info of
        LeaseDISABLED \<Rightarrow> (lease_status_of LEASE_DISABLED, n)
      | LeaseEXPIRED \<Rightarrow> (lease_status_of LEASE_EXPIRED, n)
      | LeaseNOT_READY \<Rightarrow> (lease_status_of LEASE_NOT_READY, n)
      | LeaseVALID \<Rightarrow> (lease_valid_status info, n)
      | LeaseSUSPECT \<Rightarrow>
          if nd_state n \<noteq> STATE_LEADER then (lease_status_of LEASE_EXPIRED, n)
          else
            (let n1 = n\<lparr>nd_leader_lease := ll_renew (last_leader_active_timestamp E n) (nd_leader_lease n)\<rparr>;
                 info1 = node_lease_info E n1
             in if li_state info1 = LeaseVALID then (lease_valid_status info1, n1)
                else if li_state info1 = LeaseDISABLED then (lease_status_of LEASE_DISABLED, n1)
                else (lease_status_of LEASE_EXPIRED,
                      step_down E (nd_current_term n1) False (StatusErr ERAFTTIMEDOUT) n1)))"

definition is_leader_lease_valid ::
  "('s, 'm, 'c) node_env \<Rightarrow> ('s, 'm, 'c) node \<Rightarrow> bool \<times> ('s, 'm, 'c) node" where
  "is_leader_lease_valid E n =
     (case get_leader_lease_status E n of (st, n1) \<Rightarrow> (ls_state st = LEASE_VALID, n1))"

subsection \<open>Step-down timeout\<close>

definition peer_alive :: "('s, 'm, 'c) node_env \<Rightarrow> ('s, 'm, 'c) node \<Rightarrow> peer_id \<Rightarrow> bool" where
  "peer_alive E n p \<longleftrightarrow>
     is_self n p \<or> ne_now_ms E - last_rpc_send_timestamp p (nd_w n) \<le> nd_election_timeout_ms n"

definition check_dead_nodes ::
  "('s, 'm, 'c) node_env \<Rightarrow> conf \<Rightarrow> ('s, 'm, 'c) node \<Rightarrow> ('s, 'm, 'c) node" where
  "check_dead_nodes E c n =
     (if length (filter (peer_alive E n) c) \<ge> length c div 2 + 1 then n
      else step_down E (nd_current_term n) False (StatusErr ERAFTTIMEDOUT) n)"

definition check_witness :: "('s, 'm, 'c) node_env \<Rightarrow> ('s, 'm, 'c) node \<Rightarrow> ('s, 'm, 'c) node" where
  "check_witness E n =
     (if ne_witness E then step_down E (nd_current_term n) True (StatusErr ETRANSFERLEADERSHIP) n else n)"

definition handle_stepdown_timeout :: "('s, 'm, 'c) node_env \<Rightarrow> ('s, 'm, 'c) node \<Rightarrow> ('s, 'm, 'c) node" where
  "handle_stepdown_timeout E n =
     (if state_num (nd_state n) > state_num STATE_TRANSFERRING then n
      else
        (let n1 = check_witness E n;
             n2 = check_dead_nodes E (ce_conf (nd_conf n1)) n1
         in if ce_old_conf (nd_conf n2) \<noteq> [] then check_dead_nodes E (ce_old_conf (nd_conf n2)) n2 else n2))"

subsection \<open>Closures of configuration entries\<close>

text \<open>\<open>ConfigurationChangeDone::Run\<close>, and a user's closure, run by the FSM caller.\<close>

definition run_task_done ::
  "('s, 'm, 'c) node_env \<Rightarrow> 'c task_done \<Rightarrow> status \<Rightarrow> ('s, 'm, 'c) node \<Rightarrow> ('s, 'm, 'c) node" where
  "run_task_done E d st n =
     (case d of
        UserDone c \<Rightarrow> nd_emit [FxRun c st] n
      | ConfigurationChangeDone term leader_start lease_epoch \<Rightarrow>
          if st \<noteq> StatusOK then n
          else
            (let n1 = on_configuration_change_done E term n
             in if leader_start then nd_emit [FxFsmLeaderStart term] (leader_lease_start E lease_epoch n1) else n1))"

subsection \<open>Transferring leadership\<close>

definition handle_transfer_timeout ::
  "int \<Rightarrow> peer_id \<Rightarrow> ('s, 'm, 'c) node \<Rightarrow> ('s, 'm, 'c) node" where
  "handle_transfer_timeout term peer n =
     (if term \<noteq> nd_current_term n then n
      else
        (let n1 = on_w (\<lambda>w. snd (rg_stop_transfer_leadership peer w)) n
         in if nd_state n1 = STATE_TRANSFERRING
            then (let lease = ll_on_leader_start term (nd_leader_lease n1)
                  in nd_emit [FxLeaderStart term (ll_lease_epoch lease)]
                       (n1\<lparr>nd_leader_lease := lease, nd_state := STATE_LEADER, nd_stop_transfer_arg := None\<rparr>))
            else n1))"

definition start_transfer ::
  "('s, 'm, 'c) node_env \<Rightarrow> peer_id \<Rightarrow> ('s, 'm, 'c) node \<Rightarrow> rc \<times> ('s, 'm, 'c) node" where
  "start_transfer E peer n =
     (case rg_transfer_leadership_to (ne_repl E) peer (lm_last (w_lm (nd_w n))) (nd_w n) of
        (rc, w) \<Rightarrow>
          (let n1 = n\<lparr>nd_w := w\<rparr>
           in if rc \<noteq> RcOk then (rc, n1)
              else
                (let n2 = nd_emit [FxLeaderStop (StatusErr ETRANSFERLEADERSHIP)]
                            (n1\<lparr>nd_state := STATE_TRANSFERRING,
                                nd_leader_lease := ll_on_leader_stop (nd_leader_lease n1)\<rparr>);
                     n3 = n2\<lparr>nd_stop_transfer_arg := Some (nd_current_term n2, peer)\<rparr>
                 in if ne_transfer_timer_ok E
                    then (RcOk, nd_emit [FxTransferTimer (nd_current_term n3) peer (nd_election_timeout_ms n3)] n3)
                    else (RcFail, handle_transfer_timeout (nd_current_term n3) peer n3))))"

definition transfer_leadership_to ::
  "('s, 'm, 'c) node_env \<Rightarrow> peer_id \<Rightarrow> ('s, 'm, 'c) node \<Rightarrow> rc \<times> ('s, 'm, 'c) node" where
  "transfer_leadership_to E peer n =
     (if nd_state n \<noteq> STATE_LEADER
      then (RcErr (if nd_state n = STATE_TRANSFERRING then EBUSY else EPERM), n)
      else if cx_is_busy n then (RcErr EBUSY, n)
      else case (if peer_eq peer empty_peer then find_the_next_candidate (ne_repl E) (nd_conf n) (nd_w n)
                 else Some peer) of
             None \<Rightarrow> (RcFail, n)
           | Some p \<Rightarrow>
               if is_self n p then (RcOk, n)
               else if \<not> ce_contains (nd_conf n) p then (RcErr EINVAL, n)
               else start_transfer E p n)"

subsection \<open>Election timeouts set by the user\<close>

definition heartbeat_timeout :: "('s, 'm, 'c) node_env \<Rightarrow> int \<Rightarrow> int" where
  "heartbeat_timeout E election_timeout =
     (let factor = (if ne_heartbeat_factor E \<le> 0 then 10 else ne_heartbeat_factor E)
      in max (election_timeout div factor) 10)"

definition unsafe_reset_election_timeout_ms ::
  "('s, 'm, 'c) node_env \<Rightarrow> int \<Rightarrow> int \<Rightarrow> ('s, 'm, 'c) node \<Rightarrow> ('s, 'm, 'c) node" where
  "unsafe_reset_election_timeout_ms E election_timeout_ms max_clock_drift_ms n =
     (let n1 = on_w (\<lambda>w. reset_election_timeout_interval election_timeout_ms
                           (reset_heartbeat_interval (heartbeat_timeout E election_timeout_ms) w))
                 (n\<lparr>nd_election_timeout_ms := election_timeout_ms, nd_max_clock_drift_ms := max_clock_drift_ms\<rparr>)
      in if ne_witness E \<and> ne_enable_witness_to_leader E
         then nd_emit [FxTimerReset ElectionTimer (election_timeout_ms * 2)]
                (n1\<lparr>nd_follower_lease := fl_reset_election_timeout_ms (election_timeout_ms * 2) max_clock_drift_ms
                                           (nd_follower_lease n1)\<rparr>)
         else nd_emit [FxTimerReset ElectionTimer election_timeout_ms]
                (n1\<lparr>nd_leader_lease := ll_reset_election_timeout_ms election_timeout_ms (nd_leader_lease n1),
                    nd_follower_lease := fl_reset_election_timeout_ms election_timeout_ms max_clock_drift_ms
                                           (nd_follower_lease n1)\<rparr>))"

definition reset_election_timeout_ms ::
  "('s, 'm, 'c) node_env \<Rightarrow> int \<Rightarrow> ('s, 'm, 'c) node \<Rightarrow> status \<times> ('s, 'm, 'c) node" where
  "reset_election_timeout_ms E election_timeout_ms n =
     (let max_election_timeout_ms = nd_max_clock_drift_ms n + nd_election_timeout_ms n
      in if election_timeout_ms > max_election_timeout_ms then (StatusErr EINVAL, n)
         else (StatusOK, unsafe_reset_election_timeout_ms E election_timeout_ms
                           (max_election_timeout_ms - election_timeout_ms) n))"

definition node_vote ::
  "('s, 'm, 'c) node_env \<Rightarrow> int \<Rightarrow> ('s, 'm, 'c) node \<Rightarrow> status \<times> ('s, 'm, 'c) node" where
  "node_vote E election_timeout_ms n =
     (if nd_state n \<noteq> STATE_FOLLOWER then (StatusErr EPERM, n)
      else case reset_election_timeout_ms E election_timeout_ms n of
             (StatusErr e, n1) \<Rightarrow> (StatusErr e, n1)
           | (StatusOK, n1) \<Rightarrow> (StatusOK, n1\<lparr>nd_vote_triggered := True\<rparr>))"

subsection \<open>Errors, snapshots, shutting down\<close>

definition node_on_error :: "('s, 'm, 'c) node_env \<Rightarrow> ('s, 'm, 'c) node \<Rightarrow> ('s, 'm, 'c) node" where
  "node_on_error E n =
     (let n1 = nd_emit [FxFsmError] n;
          n2 = (if state_num (nd_state n1) \<le> state_num STATE_FOLLOWER
                then step_down E (nd_current_term n1) (nd_state n1 = STATE_LEADER) (StatusErr EBADNODE) n1 else n1)
      in if state_num (nd_state n2) < state_num STATE_ERROR then n2\<lparr>nd_state := STATE_ERROR\<rparr> else n2)"

definition do_snapshot :: "('s, 'm, 'c) node_env \<Rightarrow> 'c option \<Rightarrow> ('s, 'm, 'c) node \<Rightarrow> ('s, 'm, 'c) node" where
  "do_snapshot E done n =
     (if ne_has_snapshot_executor E then nd_emit [FxDoSnapshot done] n
      else run_opt done (StatusErr EINVAL) n)"

definition handle_snapshot_timeout :: "('s, 'm, 'c) node_env \<Rightarrow> ('s, 'm, 'c) node \<Rightarrow> ('s, 'm, 'c) node" where
  "handle_snapshot_timeout E n = (if \<not> is_active_state (nd_state n) then n else do_snapshot E None n)"

definition update_configuration_after_installing_snapshot :: "('s, 'm, 'c) node \<Rightarrow> ('s, 'm, 'c) node" where
  "update_configuration_after_installing_snapshot n = check_and_set_configuration n"

definition node_shutdown ::
  "('s, 'm, 'c) node_env \<Rightarrow> 'c option \<Rightarrow> ('s, 'm, 'c) node \<Rightarrow> ('s, 'm, 'c) node" where
  "node_shutdown E done n =
     (let n1 = (if state_num (nd_state n) < state_num STATE_SHUTTING
                then
                  (let m1 = nd_emit [FxManagerRemove] n;
                       m2 = (if state_num (nd_state m1) \<le> state_num STATE_FOLLOWER
                             then step_down E (nd_current_term m1) (nd_state m1 = STATE_LEADER) (StatusErr ESHUTDOWN) m1
                             else m1);
                       m3 = nd_emit [FxTimerDestroy ElectionTimer, FxTimerDestroy VoteTimer,
                                     FxTimerDestroy StepdownTimer, FxTimerDestroy SnapshotTimer]
                              (m2\<lparr>nd_state := STATE_SHUTTING\<rparr>);
                       (lm, ev) = lm_shutdown (w_lm (nd_w m3));
                       m4 = nd_emit (map FxLm ev) (on_w (\<lambda>w. w\<lparr>w_lm := lm\<rparr>) m3);
                       m5 = (if ne_has_snapshot_executor E then nd_emit [FxSnapshotShutdown] m4 else m4)
                   in nd_emit [FxFsmShutdown] m5)
                else n)
      in if nd_state n1 \<noteq> STATE_SHUTDOWN
         then (case done of
                 None \<Rightarrow> n1
               | Some d \<Rightarrow> n1\<lparr>nd_shutdown_continuations := nd_shutdown_continuations n1 @ [d]\<rparr>)
         else run_opt done StatusOK n1)"

definition after_shutdown :: "('s, 'm, 'c) node \<Rightarrow> ('s, 'm, 'c) node" where
  "after_shutdown n =
     nd_emit (map (\<lambda>d. FxRun d StatusOK) (nd_shutdown_continuations n))
       (n\<lparr>nd_state := STATE_SHUTDOWN, nd_shutdown_continuations := []\<rparr>)"

subsection \<open>Starting\<close>

text \<open>The constructors: of the contexts, the replicator group, the node.\<close>

definition vote_ctx_new :: vote_ctx where
  "vote_ctx_new = \<lparr>vc_ballot = \<lparr>b_peers = [], b_quorum = 0, b_old_peers = [], b_old_quorum = 0\<rparr>, vc_version = 0,
                   vc_timer = False, vc_triggered = False, vc_reserved_peers = [],
                   vc_disrupted_leader = empty_peer, vc_disrupted_term = -1, vc_last_log_id = LogId 0 0\<rparr>"

definition conf_ctx_new :: "'c conf_ctx" where
  "conf_ctx_new = \<lparr>cx_stage = STAGE_NONE, cx_nchanges = 0, cx_version = 0, cx_new_peers = [], cx_old_peers = [],
                   cx_adding_peers = [], cx_done = None\<rparr>"

definition world_new :: "'s \<Rightarrow> ('s, 'c) world" where
  "world_new st = \<lparr>w_lm = log_manager_new st config_manager_new, w_bb = ballot_box_new, w_store = [],
                   w_status = [], w_next_rid = 1, w_next_call = 1, w_rmap = [], w_common_term = 0,
                   w_common_group_id = [], w_common_server_id = empty_peer, w_dynamic_timeout_ms = -1,
                   w_election_timeout_ms = -1, w_out = []\<rparr>"

definition node_new :: "string \<Rightarrow> peer_id \<Rightarrow> 's \<Rightarrow> 'm \<Rightarrow> ('s, 'm, 'c) node" where
  "node_new grp server st m =
     \<lparr>nd_state = STATE_UNINITIALIZED, nd_current_term = 0, nd_leader_id = empty_peer, nd_voted_id = empty_peer,
      nd_vote_ctx = vote_ctx_new, nd_pre_vote_ctx = vote_ctx_new, nd_conf = empty_conf_entry,
      nd_group_id = grp, nd_server_id = server, nd_conf_ctx = conf_ctx_new, nd_meta = m,
      nd_w = world_new st, nd_shutdown_continuations = [], nd_stop_transfer_arg = None,
      nd_vote_triggered = False, nd_waking_candidate = 0, nd_append_entries_cache = None,
      nd_append_entries_cache_version = 0, nd_node_readonly = False, nd_majority_nodes_readonly = False,
      nd_leader_lease = leader_lease_new, nd_follower_lease = follower_lease_new,
      nd_election_timeout_ms = 1000, nd_max_clock_drift_ms = 1000, nd_votes = []\<rparr>"

text \<open>
  \<open>init_options\<close> holds the options only \<open>init\<close> reads and the outcome of what it starts
  outside the model: the server registry, the task queue, the FSM caller, the node manager, and the
  snapshot executor, which may load a snapshot into the log manager.
\<close>

record ('s, 'c) init_options =
  io_server_exists :: bool
  io_queue_ok :: bool
  io_fsm_ok :: bool
  io_init_snapshot :: "('s, 'c) world \<Rightarrow> bool \<times> ('s, 'c) world"
  io_manager_ok :: bool
  io_initial_conf :: conf
  io_election_timeout_ms :: int
  io_max_clock_drift_ms :: int
  io_snapshot_interval_s :: int

definition init_meta_storage :: "('s, 'm, 'c) node_env \<Rightarrow> ('s, 'm, 'c) node \<Rightarrow> rc \<times> ('s, 'm, 'c) node" where
  "init_meta_storage E n =
     (case ne_meta_init E (nd_meta n) of
        (StatusErr e, m) \<Rightarrow> (RcErr e, n\<lparr>nd_meta := m\<rparr>)
      | (StatusOK, m) \<Rightarrow>
          (case ne_meta_get E m of
             (StatusErr e, _, _) \<Rightarrow> (RcErr e, n\<lparr>nd_meta := m\<rparr>)
           | (StatusOK, term, voted_id) \<Rightarrow>
               (let n1 = n\<lparr>nd_meta := m, nd_current_term := term, nd_voted_id := voted_id\<rparr>;
                    last_log_id = lm_last_log_id (ne_storage E) (w_lm (nd_w n1))
                in if nd_current_term n1 < lid_term last_log_id
                   then (let n2 = n1\<lparr>nd_current_term := lid_term last_log_id + 1, nd_voted_id := empty_peer\<rparr>;
                             (ok, n3) = save_meta E (nd_current_term n2) empty_peer n2
                         in if ok then (RcOk, n3) else (RcErr EIO, n3))
                   else (RcOk, n1))))"

text \<open>Leases, log storage, FSM caller, ballot box, snapshot storage, configuration.\<close>

definition init_stores ::
  "('s, 'm, 'c) node_env \<Rightarrow> ('s, 'c) init_options \<Rightarrow> ('s, 'm, 'c) node \<Rightarrow> bool \<times> ('s, 'm, 'c) node" where
  "init_stores E opts n =
     (let timeout = io_election_timeout_ms opts; drift = io_max_clock_drift_ms opts;
          n1 = n\<lparr>nd_leader_lease := ll_init timeout (nd_leader_lease n),
                 nd_follower_lease := fl_init (ne_now_ms E) (if ne_witness E then timeout * 2 else timeout) drift
                                        (nd_follower_lease n)\<rparr>;
          (rc, lm) = lm_init (ne_storage E) (log_manager_new (lm_storage (w_lm (nd_w n1))) config_manager_new);
          n2 = on_w (\<lambda>w. w\<lparr>w_lm := lm\<rparr>) n1
      in if rc \<noteq> RcOk then (False, n2)
         else if \<not> io_fsm_ok opts then (False, n2)
         else
           (case io_init_snapshot opts ((nd_w n2)\<lparr>w_bb := ballot_box_new\<rparr>) of
              (ok, w) \<Rightarrow>
                (let n3 = n2\<lparr>nd_w := w\<rparr>
                 in if \<not> ok then (False, n3)
                    else if lm_check_consistency (w_lm (nd_w n3)) \<noteq> StatusOK then (False, n3)
                    else
                      (let n4 = n3\<lparr>nd_conf := (nd_conf n3)\<lparr>ce_id := LogId 0 0\<rparr>\<rparr>
                       in (True, if lm_last (w_lm (nd_w n4)) > 0 then check_and_set_configuration n4
                                 else n4\<lparr>nd_conf := (nd_conf n4)\<lparr>ce_conf := io_initial_conf opts\<rparr>\<rparr>)))))"

definition init_start ::
  "('s, 'm, 'c) node_env \<Rightarrow> ('s, 'c) init_options \<Rightarrow> ('s, 'm, 'c) node \<Rightarrow> rc \<times> ('s, 'm, 'c) node" where
  "init_start E opts n =
     (let timeout = io_election_timeout_ms opts;
          n1 = (if nd_current_term n = 1 \<and> peer_is_empty (nd_voted_id n)
                then n\<lparr>nd_follower_lease := fl_reset (nd_follower_lease n)\<rparr> else n);
          n2 = (on_w (rg_init (nd_group_id n1) (nd_server_id n1) (heartbeat_timeout E timeout) timeout) n1)
                 \<lparr>nd_state := STATE_FOLLOWER\<rparr>;
          n3 = (if ne_has_snapshot_executor E \<and> io_snapshot_interval_s opts > 0
                then nd_emit [FxTimerStart SnapshotTimer] n2 else n2);
          n4 = (if \<not> ce_empty (nd_conf n3) then step_down E (nd_current_term n3) False StatusOK n3 else n3)
      in if \<not> io_manager_ok opts then (RcFail, n4)
         else (RcOk, if ce_stable (nd_conf n4) \<and> length (ce_conf (nd_conf n4)) = 1
                        \<and> conf_contains (ce_conf (nd_conf n4)) (nd_server_id n4)
                     then elect_self E False n4 else n4))"

definition node_init ::
  "('s, 'm, 'c) node_env \<Rightarrow> ('s, 'c) init_options \<Rightarrow> ('s, 'm, 'c) node \<Rightarrow> rc \<times> ('s, 'm, 'c) node" where
  "node_init E opts n =
     (let n1 = n\<lparr>nd_election_timeout_ms := io_election_timeout_ms opts,
                 nd_max_clock_drift_ms := io_max_clock_drift_ms opts\<rparr>
      in if ep_ip (addr (nd_server_id n1)) = 0 then (RcFail, n1)
         else if \<not> io_server_exists opts then (RcFail, n1)
         else if \<not> io_queue_ok opts then (RcFail, n1)
         else
           (case init_stores E opts n1 of
              (ok, n2) \<Rightarrow>
                if \<not> ok then (RcFail, n2)
                else (case init_meta_storage E n2 of
                        (rc, n3) \<Rightarrow> if rc \<noteq> RcOk then (RcFail, n3) else init_start E opts n3)))"

subsection \<open>Reading the log and the status\<close>

text \<open>
  The loop of \<open>read_committed_user_log\<close>: the first data entry from \<open>cur\<close> on that is
  applied. The index and the data found, or the error.
\<close>

function read_log_loop ::
  "('s, 'm, 'c) node_env \<Rightarrow> int \<Rightarrow> ('s, 'm, 'c) node \<Rightarrow> (errno + int \<times> string) \<times> ('s, 'm, 'c) node" where
  "read_log_loop E cur n =
     (if cur > ne_last_applied_index E then (Inl ENOMOREUSERLOG, n)
      else case lm_get_entry (ne_storage E) cur (w_lm (nd_w n)) of
             (e, lm, ev) \<Rightarrow>
               (let n1 = nd_emit (map FxLm ev) (on_w (\<lambda>w. w\<lparr>w_lm := lm\<rparr>) n)
                in case e of
                     None \<Rightarrow> (Inl ELOGDELETED, n1)
                   | Some x \<Rightarrow> if e_type x = ENTRY_TYPE_DATA then (Inr (cur, e_data x), n1)
                               else read_log_loop E (cur + 1) n1))"
  by pat_completeness auto
termination
  by (relation "measure (\<lambda>(E, cur, n). nat (ne_last_applied_index E + 1 - cur))") auto

declare read_log_loop.simps [simp del]

definition read_committed_user_log ::
  "('s, 'm, 'c) node_env \<Rightarrow> int \<Rightarrow> ('s, 'm, 'c) node \<Rightarrow> (errno + int \<times> string) \<times> ('s, 'm, 'c) node" where
  "read_committed_user_log E index n =
     (if index \<le> 0 then (Inl EINVAL, n) else read_log_loop E index n)"

record node_status =
  ns_state :: node_state
  ns_peer_id :: peer_id
  ns_leader_id :: peer_id
  ns_readonly :: bool
  ns_term :: int
  ns_committed_index :: int
  ns_known_applied_index :: int
  ns_pending_index :: int
  ns_pending_queue_size :: int
  ns_applying_index :: int
  ns_first_index :: int
  ns_last_index :: int
  ns_disk_index :: int
  ns_stable_followers :: "(peer_id \<times> peer_status) list"
  ns_unstable_followers :: "(peer_id \<times> peer_status) list"

definition peer_status_new :: peer_status where
  "peer_status_new = \<lparr>ps_valid = False, ps_installing_snapshot = False, ps_blocking = False, ps_next_index = 0,
                      ps_flying_append_entries_size = 0, ps_last_rpc_send_timestamp = 0,
                      ps_consecutive_error_times = 0, ps_readonly_index = 0\<rparr>"

definition has_peer :: "peer_id \<Rightarrow> (peer_id \<times> peer_status) list \<Rightarrow> bool" where
  "has_peer p m \<longleftrightarrow> (\<exists>(q, s) \<in> set m. peer_eq q p)"

definition follower_status ::
  "('s, 'c) world \<Rightarrow> peer_id \<times> nat \<Rightarrow> node_status \<Rightarrow> node_status" where
  "follower_status w pr st =
     (let (p, rid) = pr in
      if has_peer p (ns_stable_followers st)
      then (case repl_get_status rid w of
              None \<Rightarrow> st
            | Some s \<Rightarrow> st\<lparr>ns_stable_followers := rmap_insert p s (ns_stable_followers st)\<rparr>)
      else (case repl_get_status rid w of
              None \<Rightarrow> if has_peer p (ns_unstable_followers st) then st
                      else st\<lparr>ns_unstable_followers := rmap_insert p peer_status_new (ns_unstable_followers st)\<rparr>
            | Some s \<Rightarrow> st\<lparr>ns_unstable_followers := rmap_insert p s (ns_unstable_followers st)\<rparr>))"

definition node_get_status :: "('s, 'm, 'c) node_env \<Rightarrow> int \<Rightarrow> ('s, 'm, 'c) node \<Rightarrow> node_status" where
  "node_get_status E applying_index n =
     (let w = nd_w n; lms = lm_get_status (ne_storage E) (w_lm w); bs = bb_get_status (w_bb w);
          st = \<lparr>ns_state = nd_state n, ns_peer_id = nd_server_id n,
                ns_leader_id = (if nd_state n = STATE_LEADER \<or> nd_state n = STATE_TRANSFERRING then nd_server_id n
                                else if nd_state n = STATE_FOLLOWER then nd_leader_id n else empty_peer),
                ns_readonly = (nd_node_readonly n \<or> nd_majority_nodes_readonly n), ns_term = nd_current_term n,
                ns_committed_index = bs_committed_index bs, ns_known_applied_index = lms_known_applied_index lms,
                ns_pending_index = bs_pending_index bs, ns_pending_queue_size = bs_pending_queue_size bs,
                ns_applying_index = applying_index, ns_first_index = lms_first_index lms,
                ns_last_index = lms_last_index lms, ns_disk_index = lms_disk_index lms,
                ns_stable_followers = [], ns_unstable_followers = []\<rparr>
      in if w_rmap w = [] then st
         else fold (follower_status w) (w_rmap w)
                (st\<lparr>ns_stable_followers :=
                      fold (\<lambda>p m. if is_self n p then m else rmap_insert p peer_status_new m)
                        (ce_conf (nd_conf n)) []\<rparr>))"

end
