(* ===== verification/NodeVotes.thy ===== *)
theory NodeVotes
  imports NodeMisc
begin

section \<open>The vote of a node: one per term, across restarts\<close>

text \<open>
  What a node remembers of a vote is its term, \<open>_voted_id\<close> and the meta storage. The first part shows
  which operations leave it alone. The second states, against the contract of the meta storage, how every
  handler may change it (\<open>vote_rel\<close>), and proves it handler by handler. The third runs the node: any
  events in any order, nested in the window where a handler releases the mutex to wait for the log, crashes
  and restarts between events.
\<close>

definition vote_part :: "('s, 'm, 'c) node \<Rightarrow> int \<times> peer_id \<times> 'm \<times> peer_id \<times> (int \<times> peer_key) list" where
  "vote_part n = (nd_current_term n, nd_voted_id n, nd_meta n, nd_server_id n, nd_votes n)"

lemma vote_part_eqs:
  assumes "vote_part n' = vote_part n"
  shows "nd_current_term n' = nd_current_term n" "nd_voted_id n' = nd_voted_id n" "nd_meta n' = nd_meta n"
    "nd_server_id n' = nd_server_id n" "nd_votes n' = nd_votes n"
  using assms by (simp_all add: vote_part_def)

lemma vote_part_updates [simp]:
  "vote_part (n\<lparr>nd_state := a1\<rparr>) = vote_part n"
  "vote_part (n\<lparr>nd_leader_id := a2\<rparr>) = vote_part n"
  "vote_part (n\<lparr>nd_vote_ctx := a3\<rparr>) = vote_part n"
  "vote_part (n\<lparr>nd_pre_vote_ctx := a4\<rparr>) = vote_part n"
  "vote_part (n\<lparr>nd_conf := a5\<rparr>) = vote_part n"
  "vote_part (n\<lparr>nd_conf_ctx := a6\<rparr>) = vote_part n"
  "vote_part (n\<lparr>nd_w := a7\<rparr>) = vote_part n"
  "vote_part (n\<lparr>nd_shutdown_continuations := a8\<rparr>) = vote_part n"
  "vote_part (n\<lparr>nd_stop_transfer_arg := a9\<rparr>) = vote_part n"
  "vote_part (n\<lparr>nd_vote_triggered := b1\<rparr>) = vote_part n"
  "vote_part (n\<lparr>nd_waking_candidate := b2\<rparr>) = vote_part n"
  "vote_part (n\<lparr>nd_append_entries_cache := b3\<rparr>) = vote_part n"
  "vote_part (n\<lparr>nd_append_entries_cache_version := b4\<rparr>) = vote_part n"
  "vote_part (n\<lparr>nd_node_readonly := b5\<rparr>) = vote_part n"
  "vote_part (n\<lparr>nd_majority_nodes_readonly := b6\<rparr>) = vote_part n"
  "vote_part (n\<lparr>nd_leader_lease := b7\<rparr>) = vote_part n"
  "vote_part (n\<lparr>nd_follower_lease := b8\<rparr>) = vote_part n"
  "vote_part (n\<lparr>nd_election_timeout_ms := b9\<rparr>) = vote_part n"
  "vote_part (n\<lparr>nd_max_clock_drift_ms := c1\<rparr>) = vote_part n"
  by (simp_all add: vote_part_def)

lemma vote_part_on_w [simp]: "vote_part (on_w f n) = vote_part n"
  by (simp add: on_w_def)

lemma vote_part_emit [simp]: "vote_part (nd_emit fx n) = vote_part n"
  by (simp add: nd_emit_def)

lemma vote_part_set_ctx [simp]: "vote_part (set_ctx k c n) = vote_part n"
  by (simp add: set_ctx_def split: vote_ctx_kind.split)

lemma vote_part_fold [intro]:
  "(\<And>x n. vote_part (f x n) = vote_part n) \<Longrightarrow> vote_part (fold f xs n) = vote_part n"
  by (induction xs arbitrary: n) simp_all

subsection \<open>Operations that leave the vote alone\<close>

lemma vote_part_ctx [simp]:
  "vote_part (stop_grant_self_timer E k n) = vote_part n"
  "vote_part (start_grant_self_timer k ms n) = vote_part n"
  "vote_part (vote_ctx_reset E k n) = vote_part n"
  "vote_part (vote_ctx_init E k triggered n) = vote_part n"
  "vote_part (ctx_grant k p n) = vote_part n"
  by (simp_all add: stop_grant_self_timer_def start_grant_self_timer_def vote_ctx_reset_def vote_ctx_init_def
      ctx_grant_def Let_def)

lemma vote_part_state [simp]:
  "vote_part (check_majority_nodes_readonly_of c n) = vote_part n"
  "vote_part (check_majority_nodes_readonly n) = vote_part n"
  "vote_part (clear_append_entries_cache E n) = vote_part n"
  "vote_part (reset_leader_id E p st n) = vote_part n"
  "vote_part (node_clear_pending_tasks n) = vote_part n"
  "vote_part (leave_role E st n) = vote_part n"
  "vote_part (release_replicators E b n) = vote_part n"
  "vote_part (run_opt done st n) = vote_part n"
  by (auto simp: check_majority_nodes_readonly_def check_majority_nodes_readonly_of_def
      clear_append_entries_cache_def reset_leader_id_def node_clear_pending_tasks_def leave_role_def
      release_replicators_def run_opt_def Let_def split: option.split prod.split)

lemma vote_part_stop_replicator [simp]: "vote_part (node_stop_replicator E ks ds n) = vote_part n"
  by (auto simp: node_stop_replicator_def)

lemma vote_part_conf_ctx_reset [simp]: "vote_part (conf_ctx_reset E st n) = vote_part n"
  by (simp add: conf_ctx_reset_def Let_def split: option.split)

lemma vote_part_conf [simp]:
  "vote_part (check_and_set_configuration n) = vote_part n"
  "vote_part (node_append_entries E es done n) = vote_part n"
  "vote_part (node_append_pending_task c oc d n) = vote_part n"
  "vote_part (unsafe_apply_configuration E c oc b n) = vote_part n"
  "vote_part (conf_ctx_flush E c oc' n) = vote_part n"
  by (simp_all add: check_and_set_configuration_def node_append_entries_def node_append_pending_task_def
      unsafe_apply_configuration_def conf_ctx_flush_def Let_def split: prod.split)

lemma vote_part_leader [simp]: "vote_part (become_leader E n) = vote_part n"
  by (auto simp: become_leader_def Let_def intro!: vote_part_fold trans [OF vote_part_fold])

lemma vote_part_election [simp]:
  "vote_part (request_peers_to_vote E ps d t n) = vote_part n"
  "vote_part (disrupted_expire E request n) = vote_part n"
  "vote_part (retry_vote_on_reserved_peers E n) = vote_part n"
  "vote_part (note_disrupted k p response n) = vote_part n"
  "vote_part (grant_vote E k p n) = vote_part n"
  "vote_part (grant_self_with (become_leader E) k E n) = vote_part n"
  by (simp_all add: request_peers_to_vote_def disrupted_expire_def retry_vote_on_reserved_peers_def
      note_disrupted_def grant_vote_def grant_self_with_def Let_def split: option.split prod.split)

lemma vote_part_append [simp]:
  "vote_part (run_all xs n) = vote_part n"
  "vote_part (snd (apply_tasks ts n)) = vote_part n"
  "vote_part (node_apply E ts n) = vote_part n"
  "vote_part (leader_stable_run k i st n) = vote_part n"
  "vote_part (node_set_last_committed_index i n) = vote_part n"
  "vote_part (follower_stable_run call req t st n) = vote_part n"
  "vote_part (run_stable_done d i st n) = vote_part n"
  "vote_part (check_append_entries_cache E i n) = vote_part n"
  "vote_part (handle_append_entries_cache_timedout E v tv ms n) = vote_part n"
  "vote_part (reply_append call t success i readonly n) = vote_part n"
proof -
  show 1: "vote_part (run_all xs n) = vote_part n" for xs :: "('c option \<times> status) list" and n :: "('s, 'm, 'c) node"
    by (auto simp: run_all_def split: prod.split)
  show 2: "vote_part (snd (apply_tasks ts n)) = vote_part n" for ts and n :: "('s, 'm, 'c) node"
    by (induction ts arbitrary: n) (simp_all add: Let_def case_prod_beta)
  show "vote_part (node_apply E ts n) = vote_part n"
    by (simp add: node_apply_def 1 2 Let_def case_prod_beta)
  show 3: "vote_part (leader_stable_run k i st n) = vote_part n"
    by (simp add: leader_stable_run_def)
  show 4: "vote_part (node_set_last_committed_index i n) = vote_part n" for i and n :: "('s, 'm, 'c) node"
    by (simp add: node_set_last_committed_index_def split: prod.split)
  show 5: "vote_part (follower_stable_run call req t st n) = vote_part n" for call req t
    by (simp add: follower_stable_run_def 4 split: status.split)
  show "vote_part (run_stable_done d i st n) = vote_part n"
    by (simp add: run_stable_done_def 3 5 leader_stable_run_def split: stable_done.split)
  show "vote_part (check_append_entries_cache E i n) = vote_part n"
    by (simp add: check_append_entries_cache_def split: option.split prod.split)
  show "vote_part (handle_append_entries_cache_timedout E v tv ms n) = vote_part n"
    by (simp add: handle_append_entries_cache_timedout_def split: option.split prod.split)
  show "vote_part (reply_append call t success i readonly n) = vote_part n"
    by (simp add: reply_append_def)
qed

lemma vote_part_out_of_order [simp]:
  "vote_part (snd (handle_out_of_order_append_entries E call req i n)) = vote_part n"
  by (simp add: handle_out_of_order_append_entries_def Let_def split: option.split prod.split)

lemma vote_part_append_from_leader [simp]:
  "vote_part (append_from_leader E call req b n) = vote_part n"
  by (simp add: append_from_leader_def Let_def case_prod_beta)

lemma vote_part_misc [simp]:
  "vote_part (leader_lease_start E epoch n) = vote_part n"
  "vote_part (handle_transfer_timeout t p n) = vote_part n"
  "vote_part (snd (transfer_leadership_to E p n)) = vote_part n"
  "vote_part (unsafe_reset_election_timeout_ms E ms drift n) = vote_part n"
  "vote_part (snd (reset_election_timeout_ms E ms n)) = vote_part n"
  "vote_part (snd (node_vote E ms n)) = vote_part n"
  "vote_part (do_snapshot E d n) = vote_part n"
  "vote_part (handle_snapshot_timeout E n) = vote_part n"
  "vote_part (after_shutdown n) = vote_part n"
  "vote_part (enter_readonly_mode n) = vote_part n"
  "vote_part (leave_readonly_mode n) = vote_part n"
  "vote_part (snd (change_readonly_config E t p b n)) = vote_part n"
  by (simp_all add: leader_lease_start_def handle_transfer_timeout_def transfer_leadership_to_def start_transfer_def
      unsafe_reset_election_timeout_ms_def reset_election_timeout_ms_def node_vote_def do_snapshot_def
      handle_snapshot_timeout_def after_shutdown_def enter_readonly_mode_def leave_readonly_mode_def
      change_readonly_config_def Let_def split: option.split prod.split status.split)

lemma vote_part_read_log [simp]: "vote_part (snd (read_log_loop E i n)) = vote_part n"
proof (induction E i n rule: read_log_loop.induct)
  case (1 E cur n)
  then show ?case
    by (subst read_log_loop.simps) (auto simp: Let_def split: option.split prod.split)
qed

subsection \<open>How a handler may change the vote\<close>

text \<open>
  \<open>vote_pre\<close>: the disk is not ahead of the term; a vote on disk for the current term is the one in
  memory, and a vote in memory is on disk, unless it is the node's own. \<open>votes_ok\<close>: every vote sent is
  on disk or of an earlier term than the disk. \<open>vrel\<close> is what every handler guarantees and, in the
  window where it waits for the log, relies on. Peers are compared as the code compares them, without their role.
\<close>

definition same_vote :: "int \<times> peer_id \<Rightarrow> int \<times> peer_key \<Rightarrow> bool" where
  "same_vote s v \<longleftrightarrow> fst s = fst v \<and> pkey (snd s) = snd v"

definition votes_ok :: "int \<times> peer_id \<Rightarrow> (int \<times> peer_key) list \<Rightarrow> bool" where
  "votes_ok s vs \<longleftrightarrow> (\<forall>v \<in> set vs. snd v \<noteq> pkey empty_peer \<and> (fst v < fst s \<or> same_vote s v))"

definition one_per_term :: "(int \<times> peer_key) list \<Rightarrow> bool" where
  "one_per_term vs \<longleftrightarrow> (\<forall>v \<in> set vs. \<forall>w \<in> set vs. fst v = fst w \<longrightarrow> v = w)"

definition disk_rel :: "int \<times> peer_id \<Rightarrow> int \<times> peer_id \<Rightarrow> bool" where
  "disk_rel s s' \<longleftrightarrow> fst s < fst s' \<or> s = s' \<or> fst s = fst s' \<and> peer_is_empty (snd s)"

lemma disk_rel_refl [simp]: "disk_rel s s"
  by (simp add: disk_rel_def)

lemma disk_rel_trans: "disk_rel a b \<Longrightarrow> disk_rel b c \<Longrightarrow> disk_rel a c"
  by (auto simp: disk_rel_def)

lemma votes_ok_disk_rel:
  assumes "votes_ok s vs" and "disk_rel s s'"
  shows "votes_ok s' vs"
proof -
  have "\<not> peer_is_empty (snd s)" if "same_vote s v" "v \<in> set vs" for v
    using that assms(1) peer_is_empty_key [of "snd s"] by (auto simp: same_vote_def votes_ok_def)
  then show ?thesis
    using assms by (fastforce simp: votes_ok_def disk_rel_def same_vote_def)
qed


type_synonym 'm vpart = "int \<times> peer_id \<times> 'm \<times> peer_id \<times> (int \<times> peer_key) list"

fun vote_pre :: "('m \<Rightarrow> int \<times> peer_id) \<Rightarrow> peer_id \<Rightarrow> 'm vpart \<Rightarrow> bool" where
  "vote_pre stored self (term, vote, m, server, vs) \<longleftrightarrow>
     server = self \<and> - (2 ^ 63) \<le> fst (stored m) \<and> fst (stored m) \<le> term
     \<and> (fst (stored m) = term \<and> \<not> peer_is_empty (snd (stored m)) \<longrightarrow> vote = snd (stored m))
     \<and> (\<not> peer_is_empty vote \<longrightarrow> peer_eq vote self \<or> stored m = (term, vote))
     \<and> votes_ok (stored m) vs \<and> one_per_term vs"

fun vote_post :: "('m \<Rightarrow> int \<times> peer_id) \<Rightarrow> 'm vpart \<Rightarrow> 'm vpart \<Rightarrow> bool" where
  "vote_post stored (term, vote, m, server, vs) (term', vote', m', server', vs') \<longleftrightarrow>
     disk_rel (stored m) (stored m') \<and> term \<le> term'
     \<and> (term' = term \<and> \<not> peer_is_empty vote \<longrightarrow> vote' = vote \<and> stored m' = stored m)
     \<and> (\<not> peer_is_empty vote' \<longrightarrow> stored m' = (term', vote')
                              \<or> term' = term \<and> vote' = vote \<and> stored m' = stored m)"

definition vrel :: "('m \<Rightarrow> int \<times> peer_id) \<Rightarrow> peer_id \<Rightarrow> 'm vpart \<Rightarrow> 'm vpart \<Rightarrow> bool" where
  "vrel stored self a b \<longleftrightarrow>
     fst a \<le> fst b \<and> (vote_pre stored self a \<and> fst b < 2 ^ 63 \<longrightarrow> vote_pre stored self b \<and> vote_post stored a b)"

abbreviation vote_rel ::
  "('m \<Rightarrow> int \<times> peer_id) \<Rightarrow> peer_id \<Rightarrow> ('s, 'm, 'c) node \<Rightarrow> ('s, 'm, 'c) node \<Rightarrow> bool" where
  "vote_rel stored self n n' \<equiv> vrel stored self (vote_part n) (vote_part n')"

lemma vrel_refl [simp]: "vrel stored self a a"
  by (cases a) (simp add: vrel_def)

lemma vote_post_trans: "vote_post stored a b \<Longrightarrow> vote_post stored b c \<Longrightarrow> vote_post stored a c"
  by (cases a; cases b; cases c) (auto dest: disk_rel_trans)

lemma vrel_trans [trans]: "vrel stored self a b \<Longrightarrow> vrel stored self b c \<Longrightarrow> vrel stored self a c"
  by (auto simp: vrel_def dest: vote_post_trans)

lemma fst_vote_part [simp]: "fst (vote_part n) = nd_current_term n"
  by (simp add: vote_part_def)

definition vote_env ::
  "(int \<Rightarrow> peer_id \<Rightarrow> 'm \<Rightarrow> bool \<times> 'm) \<Rightarrow> ('m \<Rightarrow> int \<times> peer_id) \<Rightarrow> (int \<Rightarrow> peer_id \<Rightarrow> bool) \<Rightarrow> peer_id
   \<Rightarrow> ('s, 'm, 'c) node_env \<Rightarrow> bool" where
  "vote_env meta_set stored savable self E \<longleftrightarrow>
     ne_meta_set E = meta_set \<and> \<not> peer_is_empty self
     \<and> (\<forall>t. int64 t \<longrightarrow> savable t self \<and> savable t empty_peer)
     \<and> (\<forall>n. vote_rel stored self n (snd (ne_flush E n)))"

lemma vote_part_set:
  "vote_part (n\<lparr>nd_current_term := t\<rparr>) = (t, nd_voted_id n, nd_meta n, nd_server_id n, nd_votes n)"
  "vote_part (n\<lparr>nd_voted_id := p\<rparr>) = (nd_current_term n, p, nd_meta n, nd_server_id n, nd_votes n)"
  "vote_part (n\<lparr>nd_meta := m\<rparr>) = (nd_current_term n, nd_voted_id n, m, nd_server_id n, nd_votes n)"
  by (simp_all add: vote_part_def)

context meta_storage
begin

lemma raise_term_rel:
  assumes E: "vote_env mset stored savable self E"
  shows "vote_rel stored self n (raise_term E t n)"
proof (cases "t > nd_current_term n")
  case True
  obtain ok m where m: "mset t empty_peer (nd_meta n) = (ok, m)"
    by fastforce
  have set: "ne_meta_set E = mset"
    using E by (simp add: vote_env_def)
  have part: "vote_part (raise_term E t n) = (t, empty_peer, m, nd_server_id n, nd_votes n)"
    using True by (simp add: raise_term_def save_meta_def set m vote_part_def)
  have "vote_pre stored self (vote_part (raise_term E t n)) \<and> vote_post stored (vote_part n) (vote_part (raise_term E t n))"
    if pre: "vote_pre stored self (vote_part n)" and bound: "t < 2 ^ 63"
  proof -
    have le: "fst (stored (nd_meta n)) \<le> nd_current_term n" and "int64 t"
      using True pre bound by (simp_all add: vote_part_def [of n] int64_def)
    then have "savable t empty_peer"
      using E by (simp add: vote_env_def)
    then have st: "stored m = (if ok then (t, empty_peer) else stored (nd_meta n))"
      by (rule mset_stored [OF _ m])
    have disk: "disk_rel (stored (nd_meta n)) (stored m)"
      using True le by (simp add: st disk_rel_def)
    show ?thesis
      using pre le True disk votes_ok_disk_rel [OF _ disk] unfolding part by (simp add: vote_part_def st)
  qed
  moreover have "nd_current_term (raise_term E t n) = t"
    using arg_cong [OF part, of fst] by simp
  ultimately show ?thesis
    using True by (simp add: vrel_def)
qed (simp add: raise_term_def)

lemma raise_term_rel':
  assumes "vote_env mset stored savable self E" and "vote_part x = vote_part n"
  shows "vote_rel stored self n (raise_term E t x)"
  using raise_term_rel [OF assms(1), of x t] assms(2) by simp

lemma step_down_rel:
  assumes E: "vote_env mset stored savable self E"
  shows "vote_rel stored self n (step_down E t b st n)"
proof (cases "is_active_state (nd_state n)")
  case True
  show ?thesis
    using True by (simp add: step_down_def Let_def) (intro raise_term_rel' [OF E] conjI impI; simp)
qed (simp add: step_down_def)

lemma step_down_rel':
  assumes "vote_env mset stored savable self E" and "vote_part x = vote_part n"
  shows "vote_rel stored self n (step_down E t b st x)"
  using step_down_rel [OF assms(1), of x t b st] assms(2) by simp

lemma next_stage_rel:
  assumes E: "vote_env mset stored savable self E"
  shows "vote_rel stored self n (next_stage E n)"
  by (simp add: next_stage_def Let_def step_down_rel' [OF E] split: stage.split)

lemma next_stage_rel':
  assumes "vote_env mset stored savable self E" and "vote_part x = vote_part n"
  shows "vote_rel stored self n (next_stage E x)"
  using next_stage_rel [OF assms(1), of x] assms(2) by simp

lemma cx_on_caughtup_rel:
  assumes E: "vote_env mset stored savable self E" and x: "vote_part x = vote_part n"
  shows "vote_rel stored self n (cx_on_caughtup E v p b x)"
  using x by (simp add: cx_on_caughtup_def Let_def next_stage_rel' [OF E])

lemma start_adding_rel:
  assumes E: "vote_env mset stored savable self E"
  shows "vote_part x = vote_part n \<Longrightarrow> vote_rel stored self n (start_adding E ps x)"
  by (induction ps arbitrary: x) (simp_all add: Let_def case_prod_beta cx_on_caughtup_rel [OF E])

lemma register_conf_change_rel:
  assumes E: "vote_env mset stored savable self E"
  shows "vote_rel stored self n (unsafe_register_conf_change E oc c done n)"
  by (simp add: unsafe_register_conf_change_def conf_ctx_start_def Let_def case_prod_beta
      next_stage_rel' [OF E] start_adding_rel [OF E])

lemma conf_change_rel:
  assumes E: "vote_env mset stored savable self E"
  shows "vote_rel stored self n (add_peer E p done n)"
    and "vote_rel stored self n (remove_peer E p done n)"
    and "vote_rel stored self n (change_peers E c done n)"
    and "vote_rel stored self n (snd (reset_peers E c n))"
    and "vote_rel stored self n (on_configuration_change_done E t n)"
    and "vote_rel stored self n (on_caughtup E p t v st n)"
    and "vote_rel stored self n (run_task_done E d st n)"
proof -
  show "vote_rel stored self n (add_peer E p done n)" "vote_rel stored self n (remove_peer E p done n)"
    "vote_rel stored self n (change_peers E c done n)"
    by (simp_all add: add_peer_def remove_peer_def change_peers_def register_conf_change_rel [OF E])
  show "vote_rel stored self n (snd (reset_peers E c n))"
    by (simp add: reset_peers_def step_down_rel' [OF E])
  show 1: "vote_rel stored self n (on_configuration_change_done E t n)" for t
    by (simp add: on_configuration_change_done_def next_stage_rel [OF E])
  show "vote_rel stored self n (on_caughtup E p t v st n)"
    by (simp add: on_caughtup_def Let_def case_prod_beta cx_on_caughtup_rel [OF E])
  show "vote_rel stored self n (run_task_done E d st n)"
    by (simp add: run_task_done_def Let_def 1 split: task_done.split)
qed

lemma check_step_down_rel:
  assumes E: "vote_env mset stored savable self E"
  shows "vote_rel stored self n (check_step_down E t p n)"
  by (simp add: check_step_down_def Let_def step_down_rel [OF E])

lemma append_request_rel:
  assumes E: "vote_env mset stored savable self E"
  shows "vote_rel stored self n (handle_append_entries_request E call req b n)"
proof -
  have "vote_rel stored self n (step_down E t' c st (check_step_down E t p n))" for t' c st t p
    using check_step_down_rel [OF E] step_down_rel [OF E] by (rule vrel_trans)
  then show ?thesis
    by (simp add: handle_append_entries_request_def Let_def check_step_down_rel [OF E] split: option.split)
qed

lemma from_cache_rel:
  assumes E: "vote_env mset stored savable self E"
  shows "vote_rel stored self n (handle_append_entries_from_cache E rpcs n)"
  unfolding handle_append_entries_from_cache_def
proof (induction rpcs arbitrary: n)
  case (Cons p rpcs)
  show ?case
    using append_request_rel [OF E] Cons.IH by (simp add: vrel_trans [OF append_request_rel [OF E] Cons.IH])
qed simp

lemma install_snapshot_rel:
  assumes E: "vote_env mset stored savable self E"
  shows "vote_rel stored self n (snd (handle_install_snapshot_request E call req n))"
proof -
  have "vote_rel stored self n (step_down E t' c st (check_step_down E t p n))" for t' c st t p
    using check_step_down_rel [OF E] step_down_rel [OF E] by (rule vrel_trans)
  then show ?thesis
    by (simp add: handle_install_snapshot_request_def Let_def check_step_down_rel [OF E] split: option.split)
qed

lemma misc_rel:
  assumes E: "vote_env mset stored savable self E"
  shows "vote_rel stored self n (node_on_error E n)"
    and "vote_rel stored self n (node_shutdown E done n)"
    and "vote_rel stored self n (snd (increase_term_to E t st n))"
    and "vote_rel stored self n (snd (get_leader_lease_status E n))"
    and "vote_rel stored self n (handle_stepdown_timeout E n)"
proof -
  show "vote_rel stored self n (node_on_error E n)"
    by (simp add: node_on_error_def Let_def step_down_rel' [OF E])
  show "vote_rel stored self n (node_shutdown E done n)"
    by (auto simp: node_shutdown_def Let_def case_prod_beta step_down_rel' [OF E] split: option.split)
  show "vote_rel stored self n (snd (increase_term_to E t st n))"
    by (simp add: increase_term_to_def step_down_rel [OF E])
  show "vote_rel stored self n (snd (get_leader_lease_status E n))"
    by (simp add: get_leader_lease_status_def Let_def step_down_rel' [OF E] split: lease_state.split)
  have w: "vote_rel stored self m (check_witness E m)" for m
    by (simp add: check_witness_def step_down_rel [OF E])
  have d: "vote_rel stored self m (check_dead_nodes E c m)" for c m
    by (simp add: check_dead_nodes_def step_down_rel [OF E])
  show "vote_rel stored self n (handle_stepdown_timeout E n)"
    by (simp add: handle_stepdown_timeout_def Let_def vrel_trans [OF w d] vrel_trans [OF vrel_trans [OF w d] d])
qed

lemma flush_rel:
  assumes "vote_env mset stored savable self E" and "ne_flush E n = (lid, n')"
  shows "vote_rel stored self n n'"
  using assms by (metis snd_conv vote_env_def)

text \<open>Becoming a candidate: the window of the flush lies between the vote in memory and the one on disk.\<close>

lemma elect_self_window:
  fixes n x :: "('s, 'm, 'c) node"
  assumes pre: "vote_pre stored self (vote_part n)"
    and x: "vote_part x = (nd_current_term n + 1, nd_server_id n, nd_meta n, nd_server_id n, nd_votes n)"
  shows "vote_pre stored self (vote_part x)"
proof -
  have "fst (stored (nd_meta n)) \<le> nd_current_term n" "nd_server_id n = self"
    using pre by (simp_all add: vote_part_def)
  then show ?thesis
    using pre unfolding x by (simp add: vote_part_def)
qed

lemma elect_self_interrupted_rel:
  fixes n x y :: "('s, 'm, 'c) node"
  assumes x: "vote_part x = (nd_current_term n + 1, nd_server_id n, nd_meta n, nd_server_id n, nd_votes n)"
    and y: "vote_rel stored self x y" "nd_current_term y \<noteq> nd_current_term x"
  shows "vote_rel stored self n y"
proof -
  have tx: "nd_current_term x = nd_current_term n + 1"
    using x by (simp add: vote_part_def)
  have le: "nd_current_term n < nd_current_term y"
    using y(1) tx by (simp add: vrel_def)
  have "vote_pre stored self (vote_part y) \<and> vote_post stored (vote_part n) (vote_part y)"
    if pre: "vote_pre stored self (vote_part n)" and "nd_current_term y < 2 ^ 63"
  proof -
    have xy: "vote_pre stored self (vote_part y) \<and> vote_post stored (vote_part x) (vote_part y)"
      using y(1) elect_self_window [OF pre x] that(2) by (simp add: vrel_def)
    have t: "nd_current_term y \<noteq> nd_current_term n + 1"
      using tx y(2) by simp
    have "vote_post stored (nd_current_term n + 1, nd_server_id n, nd_meta n, nd_server_id n, nd_votes n) (vote_part y)"
      using xy x by simp
    then have "vote_post stored (vote_part n) (vote_part y)"
      unfolding vote_part_def vote_post.simps using t by linarith
    with xy show ?thesis by simp
  qed
  then show ?thesis
    using le by (simp add: vrel_def)
qed

lemma save_self_rel:
  fixes n x y z :: "('s, 'm, 'c) node" and E :: "('s, 'm, 'c) node_env"
  assumes E: "vote_env mset stored savable self E"
    and x: "vote_part x = (nd_current_term n + 1, nd_server_id n, nd_meta n, nd_server_id n, nd_votes n)"
    and y: "vote_rel stored self x y" "nd_current_term y = nd_current_term x"
    and m: "mset (nd_current_term y) (nd_server_id y) (nd_meta y) = (ok, m')"
    and z: "vote_part z = (nd_current_term y, if ok then nd_voted_id y else empty_peer, m', nd_server_id y, nd_votes y)"
  shows "vote_rel stored self n z"
proof -
  have ne: "\<not> peer_is_empty self"
    using E by (simp add: vote_env_def)
  have t: "nd_current_term y = nd_current_term n + 1"
    using y(2) x by (simp add: vote_part_def)
  have "vote_pre stored self (vote_part z) \<and> vote_post stored (vote_part n) (vote_part z)"
    if pre: "vote_pre stored self (vote_part n)" and bound: "nd_current_term y < 2 ^ 63"
  proof -
    have xy: "vote_pre stored self (vote_part y) \<and> vote_post stored (vote_part x) (vote_part y)"
      using elect_self_window [OF pre x] y(1) bound by (simp add: vrel_def)
    have srv: "nd_server_id y = self" "nd_server_id n = self"
      using xy pre by (simp_all add: vote_part_def)
    then have v: "nd_voted_id y = self" "stored (nd_meta y) = stored (nd_meta n)"
      using xy x ne t by (simp_all add: vote_part_def)
    have old: "fst (stored (nd_meta n)) \<le> nd_current_term n" and "int64 (nd_current_term y)"
      using pre t bound by (simp_all add: vote_part_def int64_def)
    then have "savable (nd_current_term y) self"
      using E by (simp add: vote_env_def)
    then have st: "stored m' = (if ok then (nd_current_term n + 1, self) else stored (nd_meta n))"
      using mset_stored [of "nd_current_term y" self "nd_meta y" ok m'] m by (simp add: srv t v)
    have disk: "disk_rel (stored (nd_meta n)) (stored m')"
      using old by (simp add: st disk_rel_def)
    have vs: "votes_ok (stored m') (nd_votes y)" "one_per_term (nd_votes y)"
      using xy disk votes_ok_disk_rel [of "stored (nd_meta n)" "nd_votes y" "stored m'"] v
      by (simp_all add: vote_part_def)
    show ?thesis
      unfolding z using old disk vs pre by (simp add: vote_part_def [of n] srv t v st)
  qed
  moreover have "nd_current_term z = nd_current_term y"
    using arg_cong [OF z, of fst] by simp
  ultimately show ?thesis
    using t by (simp add: vrel_def)
qed

text \<open>The state a candidate is in when it waits for the log.\<close>

definition candidate_state ::
  "('s, 'm, 'c) node_env \<Rightarrow> bool \<Rightarrow> ('s, 'm, 'c) node \<Rightarrow> ('s, 'm, 'c) node" where
  "candidate_state E stepped_down n =
     (let n1 = (if nd_state n = STATE_FOLLOWER then nd_emit [FxTimerStop ElectionTimer] n else n);
          n2 = reset_leader_id E empty_peer (StatusErr ERAFTTIMEDOUT) n1;
          n3 = n2\<lparr>nd_state := STATE_CANDIDATE, nd_current_term := nd_current_term n2 + 1,
                  nd_voted_id := nd_server_id n2\<rparr>;
          n4 = vote_ctx_init E VoteCtx False
                 (vote_ctx_reset E PreVoteCtx (nd_emit [FxTimerStart VoteTimer] n3))
      in if stepped_down
         then n4\<lparr>nd_vote_ctx := (nd_vote_ctx n4)\<lparr>vc_disrupted_leader := nd_leader_id n1,
                                               vc_disrupted_term := nd_current_term n1\<rparr>,
                 nd_follower_lease := fl_expire (nd_follower_lease n4)\<rparr> else n4)"

lemma candidate_part:
  fixes n :: "('s, 'm, 'c) node"
  shows "vote_part (candidate_state E b n) =
     (nd_current_term n + 1, nd_server_id n, nd_meta n, nd_server_id n, nd_votes n)"
proof -
  have "vote_part (x\<lparr>nd_state := STATE_CANDIDATE, nd_current_term := nd_current_term x + 1,
                     nd_voted_id := nd_server_id x\<rparr>)
        = (nd_current_term n + 1, nd_server_id n, nd_meta n, nd_server_id n, nd_votes n)"
    if "vote_part x = vote_part n" for x :: "('s, 'm, 'c) node"
    using vote_part_eqs [OF that] by (simp add: vote_part_def)
  then show ?thesis
    by (simp add: candidate_state_def Let_def)
qed

lemma elect_self_rel:
  assumes E: "vote_env mset stored savable self E"
  shows "vote_rel stored self n (elect_self E b n)"
proof (cases "ce_contains (nd_conf n) (nd_server_id n)")
  case True
  let ?x = "candidate_state E b n"
  note x = candidate_part [of E b n]
  obtain lid y where fl: "ne_flush E ?x = (lid, y)"
    by fastforce
  have y: "vote_rel stored self ?x y"
    using flush_rel [OF E fl] .
  have eq: "elect_self E b n =
     (if nd_current_term y \<noteq> nd_current_term ?x then y
      else
        (let n7 = y\<lparr>nd_vote_ctx := (nd_vote_ctx y)\<lparr>vc_last_log_id := lid\<rparr>\<rparr>;
             n8 = request_peers_to_vote E (ce_list_peers (nd_conf n7))
                    (vc_disrupted_leader (nd_vote_ctx n7)) (vc_disrupted_term (nd_vote_ctx n7)) n7;
             (ok, n9) = save_meta E (nd_current_term n8) (nd_server_id n8) n8
         in if \<not> ok then n9\<lparr>nd_voted_id := empty_peer\<rparr>
            else grant_self_with (become_leader E) VoteCtx E n9))"
    using True fl by (simp add: elect_self_def candidate_state_def Let_def)
  show ?thesis
  proof (cases "nd_current_term y = nd_current_term ?x")
    case False
    then show ?thesis
      using elect_self_interrupted_rel [OF x y] by (simp add: eq)
  next
    case same: True
    let ?n7 = "y\<lparr>nd_vote_ctx := (nd_vote_ctx y)\<lparr>vc_last_log_id := lid\<rparr>\<rparr>"
    define n8 where "n8 = request_peers_to_vote E (ce_list_peers (nd_conf ?n7))
                    (vc_disrupted_leader (nd_vote_ctx ?n7)) (vc_disrupted_term (nd_vote_ctx ?n7)) ?n7"
    have "vote_part n8 = vote_part y"
      by (simp add: n8_def)
    note p8 = vote_part_eqs [OF this]
    obtain ok m' where m: "mset (nd_current_term y) (nd_server_id y) (nd_meta y) = (ok, m')"
      by fastforce
    have set: "ne_meta_set E = mset"
      using E by (simp add: vote_env_def)
    have "elect_self E b n = (if \<not> ok then n8\<lparr>nd_meta := m', nd_voted_id := empty_peer\<rparr>
                              else grant_self_with (become_leader E) VoteCtx E (n8\<lparr>nd_meta := m'\<rparr>))"
      unfolding eq Let_def n8_def [symmetric] using same m by (simp add: save_meta_def set p8)
    then have "vote_part (elect_self E b n) =
        (nd_current_term y, if ok then nd_voted_id y else empty_peer, m', nd_server_id y, nd_votes y)"
      by (simp add: vote_part_set p8)
    with same show ?thesis
      by (intro save_self_rel [OF E x y _ m]) simp_all
  qed
qed (simp add: elect_self_def)

lemma elect_self_rel':
  assumes "vote_env mset stored savable self E" and "vote_part x = vote_part n"
  shows "vote_rel stored self n (elect_self E b x)"
  using elect_self_rel [OF assms(1), of x b] assms(2) by simp

lemma grant_self_rel:
  assumes E: "vote_env mset stored savable self E" and x: "vote_part x = vote_part n"
  shows "vote_rel stored self n (grant_self k E x)"
  using x by (cases k) (simp_all add: grant_self_def grant_self_with_def Let_def elect_self_rel' [OF E])

lemma pre_vote_rel:
  assumes E: "vote_env mset stored savable self E"
  shows "vote_rel stored self n (pre_vote E b n)"
proof -
  obtain lid y where fl: "ne_flush E n = (lid, y)"
    by fastforce
  note y = flush_rel [OF E fl]
  have "vote_rel stored self n (grant_self PreVoteCtx E z)" if "vote_part z = vote_part y" for z
    using y grant_self_rel [OF E that] by (rule vrel_trans)
  then show ?thesis
    by (simp add: pre_vote_def fl y Let_def)
qed

lemma election_timeouts_rel:
  assumes E: "vote_env mset stored savable self E"
  shows "vote_rel stored self n (handle_election_timeout E n)"
    and "vote_rel stored self n (handle_vote_timeout E n)"
    and "vote_rel stored self n (handle_grant_self_timedout k v E n)"
    and "vote_rel stored self n (handle_timeout_now_request E call tq n)"
proof -
  have pv: "vote_rel stored self n (pre_vote E b x)" if "vote_part x = vote_part n" for x b
    using pre_vote_rel [OF E, of x b] that by simp
  show "vote_rel stored self n (handle_election_timeout E n)"
    by (simp add: handle_election_timeout_def pv)
  show "vote_rel stored self n (handle_vote_timeout E n)"
    by (simp add: handle_vote_timeout_def elect_self_rel [OF E] vrel_trans [OF step_down_rel [OF E] pre_vote_rel [OF E]])
  show "vote_rel stored self n (handle_grant_self_timedout k v E n)"
    by (simp add: handle_grant_self_timedout_def grant_self_rel [OF E])
  show "vote_rel stored self n (handle_timeout_now_request E call tq n)"
    by (simp add: handle_timeout_now_request_def Let_def elect_self_rel' [OF E] step_down_rel [OF E])
qed

lemma vote_responses_rel:
  assumes E: "vote_env mset stored savable self E"
  shows "vote_rel stored self n (handle_request_vote_response E p t v resp n)"
    and "vote_rel stored self n (handle_pre_vote_response E p t v resp n)"
proof -
  show "vote_rel stored self n (handle_request_vote_response E p t v resp n)"
    by (simp add: handle_request_vote_response_def Let_def step_down_rel [OF E])
  have fold: "vote_part (fold (grant_vote E PreVoteCtx) ps x) = vote_part x" for ps x
    by (rule vote_part_fold) simp
  show "vote_rel stored self n (handle_pre_vote_response E p t v resp n)"
    by (simp add: handle_pre_vote_response_def Let_def case_prod_beta fold elect_self_rel' [OF E] step_down_rel [OF E])
qed

text \<open>Voting for another: the vote is free, and stays so when it cannot be saved.\<close>

lemma step_down_vote:
  assumes n: "peer_is_empty (nd_voted_id n)"
  shows "peer_is_empty (nd_voted_id (step_down E t b st n))"
proof -
  have raise: "peer_is_empty (nd_voted_id (raise_term E t y))" if "vote_part y = vote_part n" for y
    using n vote_part_eqs [OF that] by (simp add: raise_term_def save_meta_def split: prod.split)
  have frame: "nd_voted_id (nd_emit fx x) = nd_voted_id x" "nd_voted_id (release_replicators E b x) = nd_voted_id x"
    for fx x
    by (rule vote_part_eqs(2), simp)+
  show ?thesis
    by (simp add: step_down_def Let_def frame raise n)
qed

lemma save_vote_rel:
  assumes E: "vote_env mset stored savable self E" and n: "peer_is_empty (nd_voted_id n)"
    and c: "\<And>u. int64 u \<Longrightarrow> savable u c" "\<not> peer_eq c self"
  shows "vote_rel stored self n (save_vote E t c n)"
proof -
  define y where "y = step_down E t False (StatusErr EVOTEFORCANDIDATE) n"
  have y: "vote_rel stored self n y" "peer_is_empty (nd_voted_id y)"
    using step_down_rel [OF E] step_down_vote [OF n] by (simp_all add: y_def)
  obtain ok m where m: "mset (nd_current_term y) c (nd_meta y) = (ok, m)"
    by fastforce
  have set: "ne_meta_set E = mset"
    using E by (simp add: vote_env_def)
  have part: "vote_part (save_vote E t c n) =
      (nd_current_term y, if ok then c else empty_peer, m, nd_server_id y, nd_votes y)"
    using m by (simp add: save_vote_def y_def [symmetric] save_meta_def set vote_part_def Let_def)
  have "vote_pre stored self (vote_part (save_vote E t c n)) \<and> vote_post stored (vote_part y) (vote_part (save_vote E t c n))"
    if pre: "vote_pre stored self (vote_part y)" and bound: "nd_current_term y < 2 ^ 63"
  proof -
    have le: "fst (stored (nd_meta y)) \<le> nd_current_term y" "int64 (nd_current_term y)"
      and free: "fst (stored (nd_meta y)) = nd_current_term y \<longrightarrow> peer_is_empty (snd (stored (nd_meta y)))"
      using pre bound y(2) by (auto simp: vote_part_def int64_def)
    have st: "stored m = (if ok then (nd_current_term y, c) else stored (nd_meta y))"
      by (rule mset_stored [OF c(1) [OF le(2)] m])
    have disk: "disk_rel (stored (nd_meta y)) (stored m)"
      using le free by (cases ok) (auto simp: st disk_rel_def)
    have vs: "votes_ok (stored m) (nd_votes y)" "one_per_term (nd_votes y)"
      using pre votes_ok_disk_rel [OF _ disk] by (simp_all add: vote_part_def)
    show ?thesis
      using pre le(1) free disk vs y(2) unfolding part
      by (cases ok) (simp_all add: vote_part_def [of y] st, blast)
  qed
  moreover have "nd_current_term (save_vote E t c n) = nd_current_term y"
    using arg_cong [OF part, of fst] by simp
  ultimately have "vote_rel stored self y (save_vote E t c n)"
    by (simp add: vrel_def)
  with y(1) show ?thesis
    by (rule vrel_trans)
qed

lemma cast_vote_rel:
  assumes E: "vote_env mset stored savable self E" and c: "\<And>u. int64 u \<Longrightarrow> savable u c" "\<not> peer_eq c self"
  shows "vote_rel stored self n (snd (snd (cast_vote E req c lid n)))"
proof -
  have "vote_rel stored self n (save_vote E t c x)" if "vote_rel stored self n x" "peer_is_empty (nd_voted_id x)" for x t
    using that(1) save_vote_rel [OF E that(2) c] by (rule vrel_trans)
  then show ?thesis
    by (simp add: cast_vote_def Let_def step_down_rel [OF E])
qed

lemma request_vote_rel:
  assumes E: "vote_env mset stored savable self E"
    and c: "\<And>c. peer_parse (ne_str2ip E) (vq_server_id req) = Some c \<Longrightarrow> (\<forall>u. int64 u \<longrightarrow> savable u c) \<and> \<not> peer_eq c self"
  shows "vote_rel stored self n (snd (handle_request_vote_request E req n))"
proof (cases "peer_parse (ne_str2ip E) (vq_server_id req)")
  case None
  then show ?thesis by (simp add: handle_request_vote_request_def)
next
  case (Some p)
  obtain lid y where fl: "ne_flush E (disrupted_expire E req n) = (lid, y)"
    by fastforce
  have y: "vote_rel stored self n y"
    using flush_rel [OF E fl] by simp
  have "vote_rel stored self n (snd (snd (cast_vote E req p lid y)))"
    using y cast_vote_rel [OF E] c [OF Some] by (blast intro: vrel_trans)
  then show ?thesis
    using y fl Some by (auto simp: handle_request_vote_request_def Let_def case_prod_beta)
qed

lemma request_pre_vote_rel:
  assumes E: "vote_env mset stored savable self E"
  shows "vote_rel stored self n (snd (handle_pre_vote_request E req n))"
proof -
  obtain lid y where fl: "ne_flush E n = (lid, y)"
    by fastforce
  then show ?thesis
    using flush_rel [OF E fl] by (auto simp: handle_pre_vote_request_def Let_def case_prod_beta split: option.split)
qed

end

end
