(* ===== verification/NodeRun.thy ===== *)
theory NodeRun
  imports NodeVotes
begin

section \<open>Running the node: events, interleavings, crashes\<close>

text \<open>
  \<open>node_handle\<close> dispatches what can happen to a node to its handlers. The replicators, the disk
  thread and the FSM caller act on the node's world alone (\<open>EvWorld\<close>). \<open>node_acts\<close> are the
  state changes the threads of a process can make: sequences of events, where in the window in which a handler
  waits for the log the other threads act in turn. \<open>process_run\<close> adds crashes and restarts.
\<close>

datatype ('s, 'c) node_ev =
  EvElectionTimeout
| EvVoteTimeout
| EvStepdownTimeout
| EvSnapshotTimeout
| EvGrantSelfTimeout vote_ctx_kind int
| EvTransferTimeout int peer_id
| EvCacheTimeout int int int
| EvTimeoutNow nat timeout_now_request
| EvPreVote request_vote_request
| EvRequestVote request_vote_request
| EvAppendEntries nat append_entries_request
| EvFromCache "append_entries_rpc list"
| EvInstallSnapshot nat install_snapshot_request
| EvPreVoteResponse peer_id int int request_vote_response
| EvVoteResponse peer_id int int request_vote_response
| EvApply "'c task list"
| EvStable stable_done int status
| EvTaskDone "'c task_done" status
| EvCaughtUp peer_id int int status
| EvAddPeer peer_id "'c option"
| EvRemovePeer peer_id "'c option"
| EvChangePeers conf "'c option"
| EvResetPeers conf
| EvTransfer peer_id
| EvVote int
| EvResetElectionTimeout int
| EvResetTimeouts int int
| EvEnterReadonly
| EvLeaveReadonly
| EvChangeReadonly int peer_id bool
| EvIncreaseTerm int status
| EvError
| EvSnapshot "'c option"
| EvSnapshotInstalled
| EvLeaseStatus
| EvReadLog int
| EvShutdown "'c option"
| EvAfterShutdown
| EvWorld "('s, 'c) world \<Rightarrow> ('s, 'c) world"

fun node_handle ::
  "('s, 'm, 'c) node_env \<Rightarrow> ('s, 'c) node_ev \<Rightarrow> ('s, 'm, 'c) node \<Rightarrow> ('s, 'm, 'c) node" where
  "node_handle E EvElectionTimeout n = handle_election_timeout E n"
| "node_handle E EvVoteTimeout n = handle_vote_timeout E n"
| "node_handle E EvStepdownTimeout n = handle_stepdown_timeout E n"
| "node_handle E EvSnapshotTimeout n = handle_snapshot_timeout E n"
| "node_handle E (EvGrantSelfTimeout k v) n = handle_grant_self_timedout k v E n"
| "node_handle E (EvTransferTimeout t p) n = handle_transfer_timeout t p n"
| "node_handle E (EvCacheTimeout v tv ms) n = handle_append_entries_cache_timedout E v tv ms n"
| "node_handle E (EvTimeoutNow c r) n = handle_timeout_now_request E c r n"
| "node_handle E (EvPreVote r) n = snd (handle_pre_vote_request E r n)"
| "node_handle E (EvRequestVote r) n = snd (handle_request_vote_request E r n)"
| "node_handle E (EvAppendEntries c r) n = handle_append_entries_request E c r False n"
| "node_handle E (EvFromCache rs) n = handle_append_entries_from_cache E rs n"
| "node_handle E (EvInstallSnapshot c r) n = snd (handle_install_snapshot_request E c r n)"
| "node_handle E (EvPreVoteResponse p t v r) n = handle_pre_vote_response E p t v r n"
| "node_handle E (EvVoteResponse p t v r) n = handle_request_vote_response E p t v r n"
| "node_handle E (EvApply ts) n = node_apply E ts n"
| "node_handle E (EvStable d i st) n = run_stable_done d i st n"
| "node_handle E (EvTaskDone d st) n = run_task_done E d st n"
| "node_handle E (EvCaughtUp p t v st) n = on_caughtup E p t v st n"
| "node_handle E (EvAddPeer p d) n = add_peer E p d n"
| "node_handle E (EvRemovePeer p d) n = remove_peer E p d n"
| "node_handle E (EvChangePeers c d) n = change_peers E c d n"
| "node_handle E (EvResetPeers c) n = snd (reset_peers E c n)"
| "node_handle E (EvTransfer p) n = snd (transfer_leadership_to E p n)"
| "node_handle E (EvVote ms) n = snd (node_vote E ms n)"
| "node_handle E (EvResetElectionTimeout ms) n = snd (reset_election_timeout_ms E ms n)"
| "node_handle E (EvResetTimeouts ms drift) n = unsafe_reset_election_timeout_ms E ms drift n"
| "node_handle E EvEnterReadonly n = enter_readonly_mode n"
| "node_handle E EvLeaveReadonly n = leave_readonly_mode n"
| "node_handle E (EvChangeReadonly t p b) n = snd (change_readonly_config E t p b n)"
| "node_handle E (EvIncreaseTerm t st) n = snd (increase_term_to E t st n)"
| "node_handle E EvError n = node_on_error E n"
| "node_handle E (EvSnapshot d) n = do_snapshot E d n"
| "node_handle E EvSnapshotInstalled n = update_configuration_after_installing_snapshot n"
| "node_handle E EvLeaseStatus n = snd (get_leader_lease_status E n)"
| "node_handle E (EvReadLog i) n = snd (read_committed_user_log E i n)"
| "node_handle E (EvShutdown d) n = node_shutdown E d n"
| "node_handle E EvAfterShutdown n = after_shutdown n"
| "node_handle E (EvWorld f) n = on_w f n"

text \<open>
  The event as seen from outside: a granted reply enters the history \<open>nd_votes\<close>. The empty address
  \<^verbatim>\<open>0.0.0.0:0:0\<close>, which stands for no vote, names no candidate.
\<close>

definition vote_sent ::
  "('s, 'm, 'c) node_env \<Rightarrow> ('s, 'c) node_ev \<Rightarrow> ('s, 'm, 'c) node \<Rightarrow> (int \<times> peer_key) list" where
  "vote_sent E ev n =
     (case ev of
        EvRequestVote r \<Rightarrow>
          (case (peer_parse (ne_str2ip E) (vq_server_id r), fst (handle_request_vote_request E r n)) of
             (Some c, Inr resp) \<Rightarrow> if vr_granted resp \<and> \<not> peer_is_empty c then [(vr_term resp, pkey c)] else []
           | _ \<Rightarrow> [])
      | _ \<Rightarrow> [])"

definition node_event ::
  "('s, 'm, 'c) node_env \<Rightarrow> ('s, 'c) node_ev \<Rightarrow> ('s, 'm, 'c) node \<Rightarrow> ('s, 'm, 'c) node" where
  "node_event E ev n = (let n' = node_handle E ev n in n'\<lparr>nd_votes := vote_sent E ev n @ nd_votes n'\<rparr>)"

text \<open>A node is never asked for its vote by itself, and only by peers whose address can be saved.\<close>

definition event_ok ::
  "(int \<Rightarrow> peer_id \<Rightarrow> bool) \<Rightarrow> peer_id \<Rightarrow> ('s, 'm, 'c) node_env \<Rightarrow> ('s, 'c) node_ev \<Rightarrow> bool" where
  "event_ok savable self E ev \<longleftrightarrow>
     (case ev of
        EvRequestVote r \<Rightarrow>
          (case peer_parse (ne_str2ip E) (vq_server_id r) of
             None \<Rightarrow> True
           | Some c \<Rightarrow> (\<forall>t. int64 t \<longrightarrow> savable t c) \<and> \<not> peer_eq c self)
      | _ \<Rightarrow> True)"

inductive node_acts ::
  "(int \<Rightarrow> peer_id \<Rightarrow> 'm \<Rightarrow> bool \<times> 'm) \<Rightarrow> (int \<Rightarrow> peer_id \<Rightarrow> bool) \<Rightarrow> peer_id
   \<Rightarrow> (('s, 'm, 'c) node \<Rightarrow> ('s, 'm, 'c) node) \<Rightarrow> bool"
  for meta_set savable self
where
  acts_idle: "node_acts meta_set savable self (\<lambda>n. n)"
| acts_seq: "node_acts meta_set savable self f \<Longrightarrow> node_acts meta_set savable self g
             \<Longrightarrow> node_acts meta_set savable self (\<lambda>n. g (f n))"
| acts_event: "node_acts meta_set savable self f \<Longrightarrow> (\<And>n. snd (ne_flush E n) = f n)
               \<Longrightarrow> ne_meta_set E = meta_set \<Longrightarrow> event_ok savable self E ev
               \<Longrightarrow> node_acts meta_set savable self (node_event E ev)"

datatype ('s, 'm, 'c) process = Up "('s, 'm, 'c) node" | Down 'm "(int \<times> peer_key) list"

inductive process_run ::
  "(int \<Rightarrow> peer_id \<Rightarrow> 'm \<Rightarrow> bool \<times> 'm) \<Rightarrow> ('m \<Rightarrow> int \<times> peer_id) \<Rightarrow> (int \<Rightarrow> peer_id \<Rightarrow> bool) \<Rightarrow> ('m \<Rightarrow> 'm) \<Rightarrow> ('m \<Rightarrow> status \<times> 'm)
   \<Rightarrow> ('m \<Rightarrow> status \<times> int \<times> peer_id) \<Rightarrow> peer_id \<Rightarrow> ('s, 'm, 'c) process \<Rightarrow> bool"
  for meta_set stored savable reopen meta_init meta_get self
where
  run_fresh: "int64 (fst (stored m)) \<Longrightarrow> process_run meta_set stored savable reopen meta_init meta_get self (Down m [])"
| run_start: "process_run meta_set stored savable reopen meta_init meta_get self (Down m vs)
    \<Longrightarrow> node_acts meta_set savable self f \<Longrightarrow> (\<And>n. snd (ne_flush E n) = f n)
    \<Longrightarrow> ne_meta_set E = meta_set \<Longrightarrow> ne_meta_init E = meta_init \<Longrightarrow> ne_meta_get E = meta_get
    \<Longrightarrow> node_init E opts ((node_new grp self st (reopen m))\<lparr>nd_votes := vs\<rparr>) = (rc, n)
    \<Longrightarrow> int64 (nd_current_term n)
    \<Longrightarrow> process_run meta_set stored savable reopen meta_init meta_get self
          (if rc = RcOk then Up n else Down (nd_meta n) (nd_votes n))"
| run_act: "process_run meta_set stored savable reopen meta_init meta_get self (Up n)
    \<Longrightarrow> node_acts meta_set savable self f \<Longrightarrow> int64 (nd_current_term (f n))
    \<Longrightarrow> process_run meta_set stored savable reopen meta_init meta_get self (Up (f n))"
| run_crash: "process_run meta_set stored savable reopen meta_init meta_get self (Up n)
    \<Longrightarrow> process_run meta_set stored savable reopen meta_init meta_get self (Down (nd_meta n) (nd_votes n))"

subsection \<open>Every event keeps the vote\<close>

text \<open>The node's own address is not the empty one and can be saved, and so can \<open>no vote\<close>.\<close>

definition voter_ok :: "(int \<Rightarrow> peer_id \<Rightarrow> bool) \<Rightarrow> peer_id \<Rightarrow> bool" where
  "voter_ok savable self \<longleftrightarrow>
     \<not> peer_is_empty self \<and> (\<forall>t. int64 t \<longrightarrow> savable t self \<and> savable t empty_peer)"

context meta_storage
begin

lemma node_handle_rel:
  assumes E: "vote_env mset stored savable self E" and ok: "event_ok savable self E ev"
  shows "vote_rel stored self n (node_handle E ev n)"
proof (cases ev)
  case (EvRequestVote r)
  then have "vote_rel stored self n (snd (handle_request_vote_request E r n))"
    using ok by (intro request_vote_rel [OF E]) (simp add: event_ok_def)
  with EvRequestVote show ?thesis by simp
qed (simp_all add: election_timeouts_rel [OF E] vote_responses_rel [OF E] misc_rel [OF E] conf_change_rel [OF E]
      request_pre_vote_rel [OF E] append_request_rel [OF E] from_cache_rel [OF E] install_snapshot_rel [OF E]
      update_configuration_after_installing_snapshot_def read_committed_user_log_def)

lemma vote_granted:
  assumes "v \<in> set (vote_sent E ev n)"
  shows "\<exists>r c. ev = EvRequestVote r \<and> peer_parse (ne_str2ip E) (vq_server_id r) = Some c
           \<and> peer_eq (nd_voted_id (node_handle E ev n)) c \<and> \<not> peer_is_empty c
           \<and> v = (nd_current_term (node_handle E ev n), pkey c) \<and> vote_sent E ev n = [v]"
  using assms
  by (cases ev) (auto simp: vote_sent_def handle_request_vote_request_def Let_def case_prod_beta
      split: option.splits sum.splits if_splits)

lemma node_event_rel:
  assumes E: "vote_env mset stored savable self E" and ok: "event_ok savable self E ev"
  shows "vote_rel stored self n (node_event E ev n)"
proof (cases "vote_sent E ev n")
  case Nil
  then have "node_event E ev n = node_handle E ev n"
    by (simp add: node_event_def)
  then show ?thesis
    using node_handle_rel [OF E ok] by simp
next
  case (Cons v vs)
  let ?n' = "node_handle E ev n"
  obtain r c where ev: "ev = EvRequestVote r" and parse: "peer_parse (ne_str2ip E) (vq_server_id r) = Some c"
    and voted: "peer_eq (nd_voted_id ?n') c" "\<not> peer_is_empty c"
    and v: "v = (nd_current_term ?n', pkey c)" and sent: "vote_sent E ev n = [v]"
    using vote_granted [of v E ev n] Cons by auto
  have other: "\<not> peer_eq (nd_voted_id ?n') self" "\<not> peer_is_empty (nd_voted_id ?n')"
    using ok ev parse voted by (auto simp: event_ok_def peer_eq_key peer_is_empty_key)
  have part: "vote_part (node_event E ev n) =
      (nd_current_term ?n', nd_voted_id ?n', nd_meta ?n', nd_server_id ?n', v # nd_votes ?n')"
    by (simp add: node_event_def sent vote_part_def Let_def)
  have "vote_rel stored self ?n' (node_event E ev n)"
  proof -
    have "vote_pre stored self (vote_part (node_event E ev n)) \<and> vote_post stored (vote_part ?n') (vote_part (node_event E ev n))"
      if pre: "vote_pre stored self (vote_part ?n')"
    proof -
      have st: "stored (nd_meta ?n') = (nd_current_term ?n', nd_voted_id ?n')"
        and old: "votes_ok (stored (nd_meta ?n')) (nd_votes ?n')" "one_per_term (nd_votes ?n')"
        using pre other unfolding vote_part_def vote_pre.simps by blast+
      have key: "pkey (nd_voted_id ?n') = pkey c" "pkey c \<noteq> pkey empty_peer"
        using voted by (simp_all add: peer_eq_key peer_is_empty_key)
      have "votes_ok (stored (nd_meta ?n')) (v # nd_votes ?n')"
        using old(1) by (simp add: votes_ok_def st v key same_vote_def)
      moreover have "one_per_term (v # nd_votes ?n')"
      proof -
        have "w = v" if "w \<in> set (nd_votes ?n')" "fst w = fst v" for w
        proof -
          have "same_vote (nd_current_term ?n', nd_voted_id ?n') w"
            using that old(1) by (auto simp: votes_ok_def st v)
          then have "snd w = snd v"
            by (simp add: same_vote_def v key)
          with that(2) show ?thesis
            by (cases w, cases v) simp
        qed
        then show ?thesis
          using old(2) by (auto simp: one_per_term_def)
      qed
      ultimately show ?thesis
        using pre unfolding part by (simp add: vote_part_def)
    qed
    moreover have "nd_current_term (node_event E ev n) = nd_current_term ?n'"
      using arg_cong [OF part, of fst] by simp
    ultimately show ?thesis
      by (simp add: vrel_def)
  qed
  with node_handle_rel [OF E ok] show ?thesis
    by (rule vrel_trans)
qed

text \<open>Whatever the other threads do while a handler waits keeps to the same relation.\<close>

lemma node_acts_rel:
  assumes "node_acts mset savable self f" and "voter_ok savable self"
  shows "vote_rel stored self n (f n)"
  using assms(1)
proof (induction arbitrary: n)
  case acts_idle
  then show ?case by simp
next
  case (acts_seq f g)
  show ?case
    using acts_seq.IH by (rule vrel_trans)
next
  case (acts_event f E ev)
  then have "vote_env mset stored savable self E"
    using assms(2) by (simp add: vote_env_def voter_ok_def)
  then show ?case
    using acts_event.hyps(4) by (rule node_event_rel)
qed

end

subsection \<open>Starting, crashing, starting again\<close>

text \<open>
  A running node keeps \<open>vote_pre\<close>, and a vote in its memory is on disk; the disk of a stopped one keeps
  \<open>votes_ok\<close>.
\<close>

definition up_inv :: "('m \<Rightarrow> int \<times> peer_id) \<Rightarrow> peer_id \<Rightarrow> 'm vpart \<Rightarrow> bool" where
  "up_inv stored self a \<longleftrightarrow>
     vote_pre stored self a
     \<and> (\<not> peer_is_empty (fst (snd a)) \<longrightarrow> stored (fst (snd (snd a))) = (fst a, fst (snd a)))"

lemma up_inv_rel:
  assumes "vrel stored self a b" and "fst b < 2 ^ 63" and "up_inv stored self a"
  shows "up_inv stored self b"
proof -
  have "vote_pre stored self b" "vote_post stored a b"
    using assms by (simp_all add: vrel_def up_inv_def)
  moreover obtain t v m p vs t' v' m' p' vs' where "a = (t, v, m, p, vs)" "b = (t', v', m', p', vs')"
    by (cases a; cases b)
  ultimately show ?thesis
    using assms(3) unfolding up_inv_def by (simp only: vote_post.simps fst_conv snd_conv) metis
qed

fun process_inv :: "('m \<Rightarrow> int \<times> peer_id) \<Rightarrow> peer_id \<Rightarrow> ('s, 'm, 'c) process \<Rightarrow> bool" where
  "process_inv stored self (Up n) = up_inv stored self (vote_part n)"
| "process_inv stored self (Down m vs) \<longleftrightarrow>
     - (2 ^ 63) \<le> fst (stored m) \<and> votes_ok (stored m) vs \<and> one_per_term vs"

lemma up_inv_down: "up_inv stored self (vote_part n) \<Longrightarrow> process_inv stored self (Down (nd_meta n) (nd_votes n))"
  unfolding up_inv_def vote_part_def vote_pre.simps process_inv.simps by blast

lemma init_stores_part:
  fixes n :: "('s, 'm, 'c) node"
  shows "vote_part (snd (init_stores E opts n)) = vote_part n"
proof -
  define n1 where "n1 = n\<lparr>nd_leader_lease := ll_init (io_election_timeout_ms opts) (nd_leader_lease n),
      nd_follower_lease := fl_init (ne_now_ms E)
        (if ne_witness E then io_election_timeout_ms opts * 2 else io_election_timeout_ms opts)
        (io_max_clock_drift_ms opts) (nd_follower_lease n)\<rparr>"
  obtain rc and lm :: "('s, stable_done, nat) log_manager" where lm: "lm_init (ne_storage E) (log_manager_new (lm_storage (w_lm (nd_w n1))) config_manager_new) = (rc, lm)"
    by fastforce
  define n2 where "n2 = on_w (\<lambda>w. w\<lparr>w_lm := lm\<rparr>) n1"
  obtain ok w where w: "io_init_snapshot opts ((nd_w n2)\<lparr>w_bb := ballot_box_new\<rparr>) = (ok, w)"
    by fastforce
  have "vote_part n2 = vote_part n"
    by (simp add: n2_def n1_def)
  then show ?thesis
    unfolding init_stores_def Let_def n1_def [symmetric] lm case_prod_conv n2_def [symmetric] w by simp
qed

context durable_meta
begin

lemma init_meta_inv:
  assumes E: "ne_meta_set E = mset" "ne_meta_init E = minit" "ne_meta_get E = mget"
    and self: "voter_ok savable self"
    and n: "vote_part n = (0, empty_peer, reopen m, self, vs)" and down: "process_inv stored self (Down m vs)"
    and init: "init_meta_storage E n = (rc, n')" and t: "nd_current_term n' < 2 ^ 63"
  shows "if rc = RcOk then up_inv stored self (vote_part n')
         else process_inv stored self (Down (nd_meta n') (nd_votes n'))"
proof -
  have nm: "nd_meta n = reopen m" "nd_server_id n = self" "nd_votes n = vs"
    using n by (simp_all add: vote_part_def)
  obtain st m1 where i: "minit (reopen m) = (st, m1)"
    by fastforce
  note s1 = init_stored [OF i]
  show ?thesis
  proof (cases st)
    case (StatusErr e)
    then have "rc = RcErr e" "n' = n\<lparr>nd_meta := m1\<rparr>"
      using init i nm E by (simp_all add: init_meta_storage_def)
    then show ?thesis
      using down nm by (simp add: s1)
  next
    case StatusOK
    define trm vote where "trm = fst (stored m)" and "vote = snd (stored m)"
    have get: "mget m1 = (StatusOK, trm, vote)"
      using init_get [OF i [unfolded StatusOK]] by (simp add: trm_def vote_def)
    define n1 where "n1 = n\<lparr>nd_meta := m1, nd_current_term := trm, nd_voted_id := vote\<rparr>"
    define last_term where "last_term = lid_term (lm_last_log_id (ne_storage E) (w_lm (nd_w n1)))"
    have eq: "init_meta_storage E n =
        (if trm < last_term
         then (let n2 = n1\<lparr>nd_current_term := last_term + 1, nd_voted_id := empty_peer\<rparr>;
                   (ok, n3) = save_meta E (nd_current_term n2) empty_peer n2
               in if ok then (RcOk, n3) else (RcErr EIO, n3))
         else (RcOk, n1))"
      using i nm E StatusOK get
      by (simp add: init_meta_storage_def n1_def last_term_def Let_def)
    have p1: "vote_part n1 = (trm, vote, m1, self, vs)"
      by (simp add: n1_def vote_part_def nm)
    have st1: "stored m1 = (trm, vote)"
      by (simp add: s1 trm_def vote_def)
    show ?thesis
    proof (cases "trm < last_term")
      case False
      then have "rc = RcOk" "n' = n1"
        using init eq by simp_all
      then show ?thesis
        using down by (simp add: p1 up_inv_def st1 s1 [symmetric])
    next
      case True
      obtain ok m2 where m2: "mset (last_term + 1) empty_peer m1 = (ok, m2)"
        by fastforce
      have n': "rc = (if ok then RcOk else RcErr EIO)"
        "n' = n1\<lparr>nd_current_term := last_term + 1, nd_voted_id := empty_peer, nd_meta := m2\<rparr>"
        using init eq True m2 E by (auto simp: save_meta_def n1_def Let_def split: if_splits)
      have i64: "int64 (last_term + 1)"
        using t n' True down by (simp add: int64_def trm_def)
      then have st2: "stored m2 = (if ok then (last_term + 1, empty_peer) else stored m1)"
        using mset_stored [OF _ m2] self by (simp add: voter_ok_def)
      have part: "vote_part n' = (last_term + 1, empty_peer, m2, self, vs)"
        by (simp add: n' vote_part_def n1_def nm)
      have disk: "disk_rel (stored m) (stored m2)"
        using True by (simp add: st2 disk_rel_def st1 flip: s1)
      have "votes_ok (stored m2) vs" "one_per_term vs"
        using down votes_ok_disk_rel [OF _ disk] by simp_all
      moreover have "- (2 ^ 63) \<le> last_term + 1"
        using i64 by (simp add: int64_def)
      ultimately show ?thesis
        using part down by (cases ok) (simp_all add: n'(1) up_inv_def st2 s1, simp add: vote_part_def st2 s1)
    qed
  qed
qed

lemma init_start_rel:
  assumes E: "vote_env mset stored savable self E"
  shows "vote_rel stored self n (snd (init_start E opts n))"
proof -
  have sd: "vote_rel stored self n (step_down E t b st x)" if "vote_part x = vote_part n" for x t b st
    using step_down_rel' [OF E that] .
  have es: "vote_rel stored self n (elect_self E b x)" if "vote_rel stored self n x" for x b
    using that elect_self_rel [OF E] by (rule vrel_trans)
  show ?thesis
    by (simp add: init_start_def Let_def sd es)
qed

lemma node_init_inv:
  fixes n :: "('s, 'm, 'c) node"
  assumes E: "vote_env mset stored savable self E" "ne_meta_init E = minit" "ne_meta_get E = mget"
    and self: "voter_ok savable self" and down: "process_inv stored self (Down m vs)"
    and init: "node_init E opts ((node_new grp self st (reopen m))\<lparr>nd_votes := vs\<rparr>) = (rc, n)"
    and t: "nd_current_term n < 2 ^ 63"
  shows "process_inv stored self (if rc = RcOk then Up n else Down (nd_meta n) (nd_votes n))"
proof -
  define n0 :: "('s, 'm, 'c) node" where "n0 = ((node_new grp self st (reopen m))\<lparr>nd_votes := vs\<rparr>)
      \<lparr>nd_election_timeout_ms := io_election_timeout_ms opts, nd_max_clock_drift_ms := io_max_clock_drift_ms opts\<rparr>"
  have n0: "vote_part n0 = (0, empty_peer, reopen m, self, vs)"
    by (simp add: n0_def vote_part_def node_new_def)
  obtain ok n2 where n2: "init_stores E opts n0 = (ok, n2)"
    by fastforce
  have p2: "vote_part n2 = (0, empty_peer, reopen m, self, vs)"
    using init_stores_part [of E opts n0] n0 n2 by simp
  obtain rc3 n3 where n3: "init_meta_storage E n2 = (rc3, n3)"
    by fastforce
  have eq: "(rc, n) =
      (if ep_ip (addr (nd_server_id n0)) = 0 \<or> \<not> io_server_exists opts \<or> \<not> io_queue_ok opts then (RcFail, n0)
       else if \<not> ok then (RcFail, n2) else if rc3 \<noteq> RcOk then (RcFail, n3) else init_start E opts n3)"
    unfolding init [symmetric] node_init_def Let_def n0_def [symmetric] n2 case_prod_conv n3 by simp
  have start: "vote_rel stored self n3 (snd (init_start E opts n3))"
    by (rule init_start_rel [OF E(1)])
  have fails: "process_inv stored self (Down (nd_meta x) (nd_votes x))"
    if "vote_part x = (0, empty_peer, reopen m, self, vs)" for x :: "('s, 'm, 'c) node"
    using that down by (simp add: vote_part_def reopen_stored)
  have set: "ne_meta_set E = mset"
    using E(1) by (simp add: vote_env_def)
  note inv3 = init_meta_inv [OF set E(2,3) self p2 down n3]
  consider (early) "rc = RcFail" "n = n0" | (stores) "rc = RcFail" "n = n2"
    | (meta) "rc = RcFail" "n = n3" "rc3 \<noteq> RcOk" | (run) "rc3 = RcOk" "(rc, n) = init_start E opts n3"
    using eq by (auto split: if_splits)
  then show ?thesis
  proof cases
    case early
    then show ?thesis using fails [OF n0] by simp
  next
    case stores
    then show ?thesis using fails [OF p2] by simp
  next
    case meta
    then show ?thesis using inv3 t by simp
  next
    case run
    have n: "n = snd (init_start E opts n3)"
      using run(2) by (metis snd_conv)
    then have "nd_current_term n3 \<le> nd_current_term n"
      using start by (simp add: vrel_def)
    then have "up_inv stored self (vote_part n3)"
      using inv3 t run(1) by simp
    then have "up_inv stored self (vote_part n)"
      using up_inv_rel [OF start] t n by simp
    then show ?thesis
      using up_inv_down [of stored self n] by simp
  qed
qed

lemma process_run_inv:
  assumes "process_run mset stored savable reopen minit mget self P" and self: "voter_ok savable self"
  shows "process_inv stored self P"
  using assms(1)
proof induction
  case (run_fresh m)
  then show ?case by (simp add: int64_def votes_ok_def one_per_term_def)
next
  case (run_start m vs f E opts grp st rc n)
  have "vote_env mset stored savable self E"
    using run_start.hyps(3,4) node_acts_rel [OF run_start.hyps(2) self] self
    by (simp add: vote_env_def voter_ok_def)
  then show ?case
    using run_start.hyps(5-8) run_start.IH self by (intro node_init_inv) (simp_all add: int64_def)
next
  case (run_act n f)
  then show ?case
    using up_inv_rel [OF node_acts_rel [OF run_act.hyps(2) self]] by (simp add: int64_def)
next
  case (run_crash n)
  then show ?case
    using up_inv_down [of stored self n] by simp
qed

end

subsection \<open>Properties\<close>

fun process_votes :: "('s, 'm, 'c) process \<Rightarrow> (int \<times> peer_key) list" where
  "process_votes (Up n) = nd_votes n"
| "process_votes (Down m vs) = vs"

fun process_meta :: "('s, 'm, 'c) process \<Rightarrow> 'm" where
  "process_meta (Up n) = nd_meta n"
| "process_meta (Down m vs) = m"

lemma process_inv_votes:
  assumes "process_inv stored self P"
  shows "one_per_term (process_votes P)" and "votes_ok (stored (process_meta P)) (process_votes P)"
proof -
  have "process_inv stored self (Down (process_meta P) (process_votes P))"
    using assms up_inv_down by (cases P) auto
  then show "one_per_term (process_votes P)" "votes_ok (stored (process_meta P)) (process_votes P)"
    by simp_all
qed

text \<open>
  C1 (safety): a process votes for at most one candidate in a term, whatever its threads do in whatever order,
  nested in each other's waiting for the log, and however often it crashes and starts again on the same meta
  file: of the candidates it sent a granted vote in a term there is only one.
\<close>

theorem one_vote_per_term:
  assumes "process_run (fm_mset M) (fm_stored M) (fm_savable M) fm_reopen (fm_init M) fm_get_term_and_votedfor self P"
    and "voter_ok (fm_savable M) self"
    and "(t, c) \<in> set (process_votes P)" and "(t, d) \<in> set (process_votes P)"
  shows "c = d"
proof -
  have "(t, c) = (t, d)"
    using process_inv_votes(1) [OF fm.process_run_inv [OF assms(1,2)]] assms(3,4)
    by (metis fst_conv one_per_term_def)
  then show ?thesis by simp
qed

text \<open>
  C2 (invariant): the vote is on disk before it is sent: a vote a process has ever sent is the one its meta file
  holds, or the file is already at a later term.
\<close>

theorem votes_sent_are_on_disk:
  assumes "process_run (fm_mset M) (fm_stored M) (fm_savable M) fm_reopen (fm_init M) fm_get_term_and_votedfor self P"
    and "voter_ok (fm_savable M) self"
    and "(t, c) \<in> set (process_votes P)" and "fm_stored M (process_meta P) = (disk_term, disk_vote)"
  shows "t < disk_term \<or> t = disk_term \<and> pkey disk_vote = c"
proof -
  have "votes_ok (disk_term, disk_vote) (process_votes P)"
    using process_inv_votes(2) [OF fm.process_run_inv [OF assms(1,2)]] assms(4) by simp
  then show ?thesis
    using assms(3) by (fastforce simp: votes_ok_def same_vote_def)
qed

end
