(* ===== verification/SampleNode.thy ===== *)
theory SampleNode
  imports NodeRun
begin

section \<open>A sample node\<close>

text \<open>
  A concrete node on the in-memory log and the meta file, for the witnesses of the properties of the node:
  an environment without failures, peers \<open>1\<close> to \<open>3\<close>, and a run in which the node is asked twice
  for its vote, crashes, starts again and is asked twice more.
\<close>

definition sample_meta_str2ip :: "string \<Rightarrow> 32 word option" where
  "sample_meta_str2ip s = (if s = ''h'' then Some 1 else if s = ''z'' then Some 0 else None)"

definition sample_meta_endpoint2str :: "endpoint \<Rightarrow> string" where
  "sample_meta_endpoint2str e = (if ep_ip e = 0 then ''z'' else ''h'') @ CHR '':'' # show_int (ep_port e)"

text \<open>A serialisation of the meta message: the term in eight bytes, then the vote.\<close>

definition sample_meta_env :: meta_env where
  "sample_meta_env =
     \<lparr>me_str2ip = sample_meta_str2ip, me_endpoint2str = sample_meta_endpoint2str,
      me_ser = (\<lambda>m. (let t = nat (pm_term m + 2 ^ 63)
                     in net32 (t div 2 ^ 32) @ net32 (t mod 2 ^ 32)) @ pm_votedfor m),
      me_deser = (\<lambda>s. \<lparr>pm_term = int (host32 (take 4 s) * 2 ^ 32 + host32 (take 4 (drop 4 s))) - 2 ^ 63,
                       pm_votedfor = drop 8 s\<rparr>),
      me_file = sample_file_env, me_dir_error = None\<rparr>"

definition sample_repl_env :: "mem_log repl_env" where
  "sample_repl_env =
     \<lparr>re_storage = mem_ops, re_endpoint2str = sample_meta_endpoint2str, re_now_us = 0, re_now_ms = 10000,
      re_max_entries_size = 1024, re_max_parallel_rpc_num = 1, re_max_body_size = 524288,
      re_retry_interval_ms = 1000, re_enable_witness_to_leader = False, re_node_is_witness = False,
      re_throttle = None, re_snapshot = None, re_channel_ok = (\<lambda>p. True), re_block_timer_failures = 0,
      re_timer_ok = True, re_catchup_timer_running = False, re_shuffle = (\<lambda>xs. xs)\<rparr>"

definition sample_node_env :: "(mem_log, single_meta, nat) node_env" where
  "sample_node_env =
     \<lparr>ne_repl = sample_repl_env, ne_str2ip = sample_meta_str2ip, ne_meta_set = fm_mset sample_meta_env,
      ne_meta_init = fm_init sample_meta_env, ne_meta_get = fm_get_term_and_votedfor,
      ne_flush = (\<lambda>n. (lm_last_log_id mem_ops (w_lm (nd_w n)), n)), ne_enable_leader_lease = False,
      ne_enable_witness_to_leader = False, ne_step_down_when_vote_timedout = True,
      ne_enable_append_entries_cache = False, ne_heartbeat_factor = 10, ne_cache = sample_cache_env,
      ne_has_snapshot_executor = False, ne_installing_snapshot = False, ne_witness = False,
      ne_catchup_timeout_ms = 1000, ne_catchup_margin = 1000, ne_wall_ms = 10000,
      ne_grant_timer_del_ok = True, ne_transfer_timer_ok = True, ne_last_applied_index = 0\<rparr>"

definition sample_init_options :: "(mem_log, nat) init_options" where
  "sample_init_options =
     \<lparr>io_server_exists = True, io_queue_ok = True, io_fsm_ok = True, io_init_snapshot = (\<lambda>w. (True, w)),
      io_manager_ok = True, io_initial_conf = [], io_election_timeout_ms = 1000, io_max_clock_drift_ms = 1000,
      io_snapshot_interval_s = 0\<rparr>"

definition sample_start :: "(int \<times> peer_key) list \<Rightarrow> single_meta \<Rightarrow> rc \<times> (mem_log, single_meta, nat) node" where
  "sample_start vs m = node_init sample_node_env sample_init_options
     ((node_new ''g'' (sample_peer 1) mem_log_new (fm_reopen m))\<lparr>nd_votes := vs\<rparr>)"

definition sample_ask :: "int \<Rightarrow> (mem_log, single_meta, nat) node \<Rightarrow> (mem_log, single_meta, nat) node" where
  "sample_ask k = node_event sample_node_env (EvRequestVote
     \<lparr>vq_group_id = ''g'', vq_server_id = peer_to_string sample_meta_endpoint2str (sample_peer k), vq_peer_id = ''h:1'', vq_term = 2,
      vq_last_log_term = 0, vq_last_log_index = 0, vq_disrupted_leader = None\<rparr>)"

definition sample_fresh_meta :: single_meta where
  "sample_fresh_meta = single_meta_new \<lparr>pb_path = None, pb_tmp = None\<rparr>"


lemma sample_parse:
  assumes "p = empty_peer \<or> p = sample_peer k" and "k \<in> {1, 2, 3}"
  shows "peer_parse sample_meta_str2ip (peer_to_string sample_meta_endpoint2str p) = Some p"
proof -
  have "show_int 0 = ''0''" "show_int 1 = ''1''" "show_int 2 = ''2''" "show_int 3 = ''3''"
    by (simp_all add: show_int_def show_nat.simps char_of_def bit_0)
  then show ?thesis
    using assms
    by (intro peer_parse_to_string_lemma [where host = "if p = empty_peer then ''z'' else ''h''"])
      (auto simp: sample_meta_endpoint2str_def sample_meta_str2ip_def sample_peer_def empty_peer_def)
qed

lemma sample_parse_peer [simp]:
  "k \<in> {1, 2, 3} \<Longrightarrow>
   peer_parse sample_meta_str2ip (peer_to_string sample_meta_endpoint2str (sample_peer k)) = Some (sample_peer k)"
  using sample_parse by blast

lemma sample_savable:
  assumes p: "p = empty_peer \<or> p = sample_peer k" "k \<in> {1, 2, 3}" and t: "int64 t"
  shows "fm_savable sample_meta_env t p"
proof -
  define u where "u = nat (t + 2 ^ 63)"
  have u: "u < 2 ^ 64" "int u = t + 2 ^ 63"
    using t by (auto simp: u_def int64_def)
  then have "u div 2 ^ 32 < 2 ^ 32"
    by (simp add: less_mult_imp_div_less)
  then have h: "host32 (net32 (u div 2 ^ 32)) = u div 2 ^ 32" "host32 (net32 (u mod 2 ^ 32)) = u mod 2 ^ 32"
    by (simp_all add: host32_net32)
  have n: "nat (t + 9223372036854775808) = u"
    by (simp add: u_def)
  have len: "length (net32 x) = 4" for x
    by (simp add: net32_def)
  have "length (peer_to_string sample_meta_endpoint2str p) \<le> 127"
    by (simp add: peer_to_string_def)
  moreover have b: "int (u div 4294967296) * 4294967296 + int (u mod 4294967296) = int u"
    by (simp add: zdiv_int zmod_int div_mult_mod_eq)
  ultimately show ?thesis
    using sample_parse [OF p] len h n b u(2)
    by (simp add: fm_savable_def sample_meta_env_def meta_message_def Let_def)
qed

lemma sample_node_env_simps [simp]:
  "ne_repl sample_node_env = sample_repl_env"
  "ne_str2ip sample_node_env = sample_meta_str2ip"
  "ne_meta_set sample_node_env = fm_mset sample_meta_env"
  "ne_meta_init sample_node_env = fm_init sample_meta_env"
  "ne_meta_get sample_node_env = fm_get_term_and_votedfor"
  "ne_flush sample_node_env n = (lm_last_log_id mem_ops (w_lm (nd_w n)), n)"
  "ne_enable_leader_lease sample_node_env = False"
  "ne_has_snapshot_executor sample_node_env = False"
  "ne_witness sample_node_env = False"
  "re_storage sample_repl_env = mem_ops"
  "re_now_ms sample_repl_env = 10000"
  "ne_heartbeat_factor sample_node_env = 10"
  "me_dir_error sample_meta_env = None"
  "ep_ip (addr (sample_peer k)) = 1"
  by (simp_all add: sample_node_env_def sample_repl_env_def sample_meta_env_def sample_peer_def)

text \<open>A node just started on an empty log, and one that has voted in term 2.\<close>

definition sample_up :: "(int \<times> peer_key) list \<Rightarrow> int \<Rightarrow> peer_id \<Rightarrow> pb_file \<Rightarrow> follower_lease \<Rightarrow> (mem_log, single_meta, nat) node" where
  "sample_up vs t v f l =
     (node_new ''g'' (sample_peer 1) mem_log_new \<lparr>fm_is_inited = True, fm_term = t, fm_votedfor = v, fm_file = f\<rparr>)
       \<lparr>nd_state := STATE_FOLLOWER, nd_current_term := t, nd_voted_id := v,
        nd_w := (world_new mem_log_new)
           \<lparr>w_lm := (log_manager_new mem_log_new config_manager_new)\<lparr>lm_first := 1\<rparr>,
            w_dynamic_timeout_ms := 100, w_election_timeout_ms := 1000, w_common_group_id := ''g'',
            w_common_server_id := sample_peer 1\<rparr>,
        nd_leader_lease := ll_init 1000 leader_lease_new, nd_follower_lease := l, nd_votes := vs\<rparr>"

definition sample_world :: "(mem_log, nat) world" where
  "sample_world = (world_new mem_log_new)
     \<lparr>w_lm := (log_manager_new mem_log_new config_manager_new)\<lparr>lm_first := 1\<rparr>\<rparr>"

definition sample_node :: "(int \<times> peer_key) list \<Rightarrow> single_meta \<Rightarrow> (mem_log, single_meta, nat) node" where
  "sample_node vs m = ((node_new ''g'' (sample_peer 1) mem_log_new m)\<lparr>nd_votes := vs\<rparr>)
       \<lparr>nd_w := sample_world,
        nd_leader_lease := ll_init 1000 leader_lease_new,
        nd_follower_lease := fl_init 10000 1000 1000 follower_lease_new\<rparr>"

lemma sample_stores:
  "init_stores sample_node_env sample_init_options ((node_new ''g'' (sample_peer 1) mem_log_new m)\<lparr>nd_votes := vs\<rparr>) =
     (True, sample_node vs m)"
  by (simp add: init_stores_def sample_init_options_def Let_def lm_init_def on_w_def log_manager_new_def mem_log_new_def
    config_manager_new_def world_new_def lm_check_consistency_def node_new_def ml_init_def ml_get_term_def ml_get_entry_def
   empty_conf_entry_def sample_node_def sample_world_def)

lemma sample_last_log [simp]: "lm_last_log_id mem_ops (w_lm sample_world) = LogId 0 0"
  by (simp add: sample_world_def lm_last_log_id_def log_manager_new_def)

lemma sample_start_up:
  fixes vs :: "(int \<times> peer_key) list"
  assumes load: "fm_load sample_meta_env (single_meta_new (fm_file m)) = (RcOk, m1)" "0 \<le> fm_term m1"
  defines "n2 \<equiv> (sample_node vs (m1\<lparr>fm_is_inited := True\<rparr>))\<lparr>nd_current_term := fm_term m1, nd_voted_id := fm_votedfor m1\<rparr>"
  shows "\<exists>l. sample_start vs m = (RcOk, n2\<lparr>nd_state := STATE_FOLLOWER, nd_follower_lease := l, 
      nd_w := rg_init ''g'' (sample_peer 1) 100 1000 sample_world\<rparr>)"
proof -
  have n: "nd_conf (sample_node vs m) = empty_conf_entry" "nd_server_id (sample_node vs m) = sample_peer 1"
    "nd_group_id (sample_node vs m) = ''g''" "nd_w (sample_node vs m) = sample_world" "nd_meta (sample_node vs m) = m" for m
    by (simp_all add: sample_node_def node_new_def)
  have opts: "io_election_timeout_ms sample_init_options = 1000" "io_max_clock_drift_ms sample_init_options = 1000" 
    "io_server_exists sample_init_options" "io_queue_ok sample_init_options" "io_manager_ok sample_init_options"
    by (simp_all add: sample_init_options_def)
  have new: "(node_new ''g'' (sample_peer 1) mem_log_new x)\<lparr>nd_votes := vs, nd_election_timeout_ms := 1000, nd_max_clock_drift_ms := 1000\<rparr>
     = (node_new ''g'' (sample_peer 1) mem_log_new x)\<lparr>nd_votes := vs\<rparr>"
    "nd_server_id (node_new ''g'' (sample_peer 1) mem_log_new x) = sample_peer 1" for x
    by (simp_all add: node_new_def)
  have "fm_init sample_meta_env (fm_reopen m) = (StatusOK, m1\<lparr>fm_is_inited := True\<rparr>)"
    using load by (simp add: fm_init_def fm_reopen_def single_meta_new_def)
  moreover have "(sample_node vs (fm_reopen m))\<lparr>nd_meta := x\<rparr> = sample_node vs x" for x
    by (simp add: sample_node_def node_new_def)
  ultimately have meta: "init_meta_storage sample_node_env (sample_node vs (fm_reopen m)) = (RcOk, n2)"
    using load(2) by (simp add: init_meta_storage_def n fm_get_term_and_votedfor_def n2_def Let_def)
  have start: "\<exists>l. init_start sample_node_env sample_init_options n2 =
      (RcOk, n2\<lparr>nd_state := STATE_FOLLOWER, nd_follower_lease := l, nd_w := rg_init ''g'' (sample_peer 1) 100 1000 sample_world\<rparr>)"
  proof -
    have f: "nd_conf n2 = empty_conf_entry" "nd_server_id n2 = sample_peer 1" "nd_group_id n2 = ''g''" "nd_w n2 = sample_world"
      by (simp_all add: n2_def n)
    have e: "ce_empty empty_conf_entry" "ce_conf empty_conf_entry = []"
      by (simp_all add: ce_empty_def empty_conf_entry_def)
    define n3 where "n3 = (if nd_current_term n2 = 1 \<and> peer_is_empty (nd_voted_id n2)
                then n2\<lparr>nd_follower_lease := fl_reset (nd_follower_lease n2)\<rparr> else n2)"
    have "n2 = n2\<lparr>nd_follower_lease := nd_follower_lease n2\<rparr>"
      by simp
    then obtain l where l: "n3 = n2\<lparr>nd_follower_lease := l\<rparr>"
      unfolding n3_def by metis
    show ?thesis
      unfolding init_start_def Let_def n3_def [symmetric] l
      by (rule exI [of _ l]) (simp add: f e opts heartbeat_timeout_def on_w_def)
  qed
  show ?thesis
    by (simp add: sample_start_def node_init_def opts Let_def new sample_stores meta start)
qed


text \<open>What stays to be known of a follower to say how it answers.\<close>

definition sample_ready :: "int \<Rightarrow> peer_id \<Rightarrow> (mem_log, single_meta, nat) node \<Rightarrow> bool" where
  "sample_ready t v n \<longleftrightarrow>
     nd_state n = STATE_FOLLOWER \<and> nd_current_term n = t \<and> nd_voted_id n = v \<and> nd_leader_id n = empty_peer
     \<and> cx_stage (nd_conf_ctx n) = STAGE_NONE \<and> nd_append_entries_cache n = None \<and> nd_stop_transfer_arg n = None
     \<and> w_rmap (nd_w n) = [] \<and> lm_last_log_id mem_ops (w_lm (nd_w n)) = LogId 0 0 \<and> fm_is_inited (nd_meta n)
     \<and> \<not> vc_timer (nd_pre_vote_ctx n)"

lemma sample_peer_simps [simp]:
  "peer_eq (sample_peer a) (sample_peer b) \<longleftrightarrow> a = b" "\<not> peer_is_empty (sample_peer k)"
  by (auto simp: peer_eq_def peer_is_empty_def sample_peer_def)

lemma sample_ask_voted:
  assumes "sample_ready 2 (sample_peer 2) n"
  shows "sample_ready 2 (sample_peer 2) (sample_ask 3 n) \<and> nd_votes (sample_ask 3 n) = nd_votes n \<and> nd_meta (sample_ask 3 n) = nd_meta n"
    and "sample_ready 2 (sample_peer 2) (sample_ask 2 n) \<and> nd_votes (sample_ask 2 n) = (2, pkey (sample_peer 2)) # nd_votes n
         \<and> nd_meta (sample_ask 2 n) = nd_meta n"
  using assms by (simp_all add: sample_ask_def node_event_def vote_sent_def handle_request_vote_request_def disrupted_expire_def
    cast_vote_def votable_time_def fl_votable_time_from_now_def sample_ready_def Let_def is_active_state_def state_num_def)

lemma sample_step_down:
  assumes "sample_ready t v n" "t < u" and "fm_mset sample_meta_env u empty_peer (nd_meta n) = (ok, m)" and "fm_is_inited m"
  shows "sample_ready u empty_peer (step_down sample_node_env u False st n) \<and> nd_votes (step_down sample_node_env u False st n) = nd_votes n
     \<and> nd_meta (step_down sample_node_env u False st n) = m"
  using assms by (simp add: step_down_def leave_role_def vote_ctx_reset_def stop_grant_self_timer_def
  get_ctx_def set_ctx_def reset_leader_id_def conf_ctx_reset_def clear_append_entries_cache_def raise_term_def save_meta_def
  release_replicators_def stop_all_def  nd_emit_def on_w_def emit_def is_active_state_def state_num_def sample_ready_def Let_def)

lemma sample_step_down_same:
  assumes "sample_ready u empty_peer n" 
  shows "sample_ready u empty_peer (step_down sample_node_env u False st n) \<and> nd_votes (step_down sample_node_env u False st n) = nd_votes n
     \<and> nd_meta (step_down sample_node_env u False st n) = nd_meta n"
  using assms by (simp add: step_down_def leave_role_def vote_ctx_reset_def stop_grant_self_timer_def
  get_ctx_def set_ctx_def reset_leader_id_def conf_ctx_reset_def clear_append_entries_cache_def raise_term_def save_meta_def
  release_replicators_def stop_all_def  nd_emit_def on_w_def emit_def is_active_state_def state_num_def sample_ready_def Let_def)

lemma sample_mset:
  assumes "fm_is_inited m" 
  shows "\<exists>m'. fm_mset sample_meta_env t p m = (True, m') \<and> fm_is_inited m'"
  using assms by (simp add: fm_mset_def fm_set_term_and_votedfor_def fm_save_def pb_save_def sample_file_env_def sample_meta_env_def Let_def)

lemma sample_load:
  assumes "fm_mset sample_meta_env t p m = (True, m')" and "fm_savable sample_meta_env t p"
  shows "\<exists>m1. fm_load sample_meta_env (single_meta_new (fm_file m')) = (RcOk, m1)
           \<and> fm_term m1 = t \<and> fm_votedfor m1 = p \<and> fm_file m1 = fm_file m'"
proof -
  let ?s = "me_ser sample_meta_env (meta_message sample_meta_env t p)"
  obtain f where f: "pb_save (me_file sample_meta_env) ?s (fm_file m) = (True, f)" "fm_file m' = f"
    using assms(1) by (auto simp: fm_mset_def fm_set_term_and_votedfor_def fm_save_def split: if_splits prod.splits)
  have path: "pb_path f = Some (net32 (length ?s) @ ?s)"
    using pb_save_spec [OF f(1)] by simp
  have opened: "fe_open_ok (me_file sample_meta_env)"
    by (simp add: sample_meta_env_def sample_file_env_def)
  have "length ?s < 2 ^ 31"
    using assms(2) by (simp add: fm_savable_def)
  note pb_load_saved [OF this opened, of "pb_tmp f"]
  moreover have "f = \<lparr>pb_path = Some (net32 (length ?s) @ ?s), pb_tmp = pb_tmp f\<rparr>"
    using path by simp
  ultimately have "pb_load (me_file sample_meta_env) f = Inr ?s"
    by simp
  moreover have "me_deser sample_meta_env ?s = meta_message sample_meta_env t p"
    and "peer_parse (me_str2ip sample_meta_env) (pm_votedfor (meta_message sample_meta_env t p)) = Some p"
    and "pm_term (meta_message sample_meta_env t p) = t"
    using assms(2) by (simp_all add: fm_savable_def meta_message_def)
  ultimately show ?thesis
    by (simp add: fm_load_def single_meta_new_def f(2) Let_def)
qed

abbreviation sample_request :: "int \<Rightarrow> request_vote_request" where
  "sample_request k \<equiv> \<lparr>vq_group_id = ''g'', vq_server_id = peer_to_string sample_meta_endpoint2str (sample_peer k),
     vq_peer_id = ''h:1'', vq_term = 2, vq_last_log_term = 0, vq_last_log_index = 0, vq_disrupted_leader = None\<rparr>"

lemma sample_vote_granted:
  assumes n: "sample_ready 1 empty_peer n"
  shows "\<exists>y m1 m2. sample_ready 2 empty_peer y \<and> nd_votes y = nd_votes n
    \<and> fm_mset sample_meta_env 2 (sample_peer 2) m1 = (True, m2) \<and> fm_is_inited m2
    \<and> handle_request_vote_request sample_node_env (sample_request 2) n =
     (Inr \<lparr>vr_term = 2, vr_granted = True, vr_disrupted = False, vr_previous_term = 1, vr_rejected_by_lease = False\<rparr>,
      y\<lparr>nd_voted_id := sample_peer 2, nd_meta := m2\<rparr>)"
proof -
  obtain m1 where m1: "fm_mset sample_meta_env 2 empty_peer (nd_meta n) = (True, m1)" "fm_is_inited m1"
    using sample_mset [of "nd_meta n" 2 empty_peer] n by (auto simp: sample_ready_def)
  obtain m2 where m2: "fm_mset sample_meta_env 2 (sample_peer 2) m1 = (True, m2)" "fm_is_inited m2"
    using sample_mset [OF m1(2)] by blast
  define x where "x = step_down sample_node_env 2 False (StatusErr EHIGHERTERMREQUEST) n"
  define y where "y = step_down sample_node_env 2 False (StatusErr EVOTEFORCANDIDATE) x"
  have x: "sample_ready 2 empty_peer x" "nd_votes x = nd_votes n" "nd_meta x = m1"
    using sample_step_down [OF n _ m1] by (simp_all add: x_def)
  have y: "sample_ready 2 empty_peer y" "nd_votes y = nd_votes n" "nd_meta y = m1"
    using sample_step_down_same [OF x(1)] x by (simp_all add: y_def)
  have "handle_request_vote_request sample_node_env (sample_request 2) n =
     (Inr \<lparr>vr_term = 2, vr_granted = True, vr_disrupted = False, vr_previous_term = 1, vr_rejected_by_lease = False\<rparr>,
      y\<lparr>nd_voted_id := sample_peer 2, nd_meta := m2\<rparr>)"
    using n x y m2 by (simp add: handle_request_vote_request_def disrupted_expire_def
    cast_vote_def votable_time_def fl_votable_time_from_now_def sample_ready_def Let_def save_vote_def save_meta_def 
    x_def [symmetric] y_def [symmetric] is_active_state_def state_num_def)
  with y m2 show ?thesis
    by blast
qed

lemma sample_ask_free:
  assumes n: "sample_ready 1 empty_peer n"
  shows "sample_ready 2 (sample_peer 2) (sample_ask 2 n) \<and> nd_votes (sample_ask 2 n) = (2, pkey (sample_peer 2)) # nd_votes n
    \<and> (\<exists>m1. fm_load sample_meta_env (single_meta_new (fm_file (nd_meta (sample_ask 2 n)))) = (RcOk, m1)
           \<and> fm_term m1 = 2 \<and> fm_votedfor m1 = sample_peer 2)"
proof -
  obtain y m1 m2 where y: "sample_ready 2 empty_peer y" "nd_votes y = nd_votes n"
    and m2: "fm_mset sample_meta_env 2 (sample_peer 2) m1 = (True, m2)" "fm_is_inited m2"
    and h: "handle_request_vote_request sample_node_env (sample_request 2) n =
     (Inr \<lparr>vr_term = 2, vr_granted = True, vr_disrupted = False, vr_previous_term = 1, vr_rejected_by_lease = False\<rparr>,
      y\<lparr>nd_voted_id := sample_peer 2, nd_meta := m2\<rparr>)"
    using sample_vote_granted [OF n] by blast
  have "fm_savable sample_meta_env 2 (sample_peer 2)"
    by (rule sample_savable [where k = 2]) (simp_all add: int64_def)
  note ld = sample_load [OF m2(1) this]
  show ?thesis
    using y m2(2) ld h by (auto simp: sample_ask_def node_event_def vote_sent_def sample_ready_def Let_def)
qed

lemma sample_started:
  assumes "fm_load sample_meta_env (single_meta_new (fm_file m)) = (RcOk, m1)" and "0 \<le> fm_term m1"
  shows "\<exists>n. sample_start vs m = (RcOk, n) \<and> sample_ready (fm_term m1) (fm_votedfor m1) n \<and> nd_votes n = vs"
proof -
  obtain l where l: "sample_start vs m = (RcOk, ((sample_node vs (m1\<lparr>fm_is_inited := True\<rparr>))
      \<lparr>nd_current_term := fm_term m1, nd_voted_id := fm_votedfor m1\<rparr>)
      \<lparr>nd_state := STATE_FOLLOWER, nd_follower_lease := l, nd_w := rg_init ''g'' (sample_peer 1) 100 1000 sample_world\<rparr>)"
    using sample_start_up [OF assms, of vs] by blast
  show ?thesis
    unfolding l by (rule exI, rule conjI [OF refl])
      (simp add: sample_ready_def sample_node_def node_new_def conf_ctx_new_def vote_ctx_new_def rg_init_def
        sample_world_def world_new_def log_manager_new_def lm_last_log_id_def)
qed

lemma sample_voter: "voter_ok (fm_savable sample_meta_env) (sample_peer 1)"
  by (auto simp: voter_ok_def intro: sample_savable)

abbreviation sample_run :: "(mem_log, single_meta, nat) process \<Rightarrow> bool" where
  "sample_run \<equiv> process_run (fm_mset sample_meta_env) (fm_stored sample_meta_env) (fm_savable sample_meta_env)
     fm_reopen (fm_init sample_meta_env) fm_get_term_and_votedfor (sample_peer 1)"

lemma sample_run_start:
  assumes "sample_run (Down m vs)" and "sample_start vs m = (RcOk, n)" and "int64 (nd_current_term n)"
  shows "sample_run (Up n)"
proof -
  have "sample_run (if RcOk = RcOk then Up n else Down (nd_meta n) (nd_votes n))"
    by (rule run_start [OF assms(1) acts_idle, where E = sample_node_env and opts = sample_init_options])
      (use assms(2,3) in \<open>simp_all add: sample_start_def\<close>)
  then show ?thesis by simp
qed

lemma sample_run_ask:
  assumes "sample_run (Up n)" and "sample_ready t v (sample_ask k n)" and "int64 t" and "k \<in> {2, 3}"
  shows "sample_run (Up (sample_ask k n))"
proof (rule run_act [OF assms(1)])
  show "node_acts (fm_mset sample_meta_env) (fm_savable sample_meta_env) (sample_peer 1) (sample_ask k)"
    unfolding sample_ask_def
    by (rule acts_event [OF acts_idle])
      (use assms(4) in \<open>auto simp: event_ok_def intro: sample_savable\<close>)
  show "int64 (nd_current_term (sample_ask k n))"
    using assms(2,3) by (simp add: sample_ready_def)
qed

lemma sample_process:
  "\<exists>n. sample_run (Up n) \<and> nd_votes n = [(2, pkey (sample_peer 2)), (2, pkey (sample_peer 2))]
     \<and> fm_stored sample_meta_env (nd_meta n) = (2, sample_peer 2)"
proof -
  have i64: "int64 1" "int64 2"
    by (simp_all add: int64_def)
  have fresh: "fm_load sample_meta_env (single_meta_new (fm_file sample_fresh_meta)) = (RcOk, sample_fresh_meta)"
    by (simp add: fm_load_def pb_load_def sample_fresh_meta_def single_meta_new_def)
  have new: "fm_term sample_fresh_meta = 1" "fm_votedfor sample_fresh_meta = empty_peer"
    by (simp_all add: sample_fresh_meta_def single_meta_new_def)
  have down: "sample_run (Down sample_fresh_meta [])"
    by (rule run_fresh) (simp add: fm_stored_def fm_load_def pb_load_def sample_fresh_meta_def single_meta_new_def i64)
  obtain n1 where n1: "sample_start [] sample_fresh_meta = (RcOk, n1)" "sample_ready 1 empty_peer n1" "nd_votes n1 = []"
    using sample_started [OF fresh] new by auto
  then have run1: "sample_run (Up n1)"
    by (intro sample_run_start [OF down]) (simp_all add: sample_ready_def i64)
  define n2 where "n2 = sample_ask 2 n1"
  obtain m1 where n2: "sample_ready 2 (sample_peer 2) n2" "nd_votes n2 = [(2, pkey (sample_peer 2))]"
      "fm_load sample_meta_env (single_meta_new (fm_file (nd_meta n2))) = (RcOk, m1)" "fm_term m1 = 2"
      "fm_votedfor m1 = sample_peer 2"
    using sample_ask_free [OF n1(2)] n1(3) by (auto simp: n2_def)
  have run2: "sample_run (Up n2)"
    using sample_run_ask [OF run1 n2(1) [unfolded n2_def] i64(2)] by (simp add: n2_def)
  define n3 where "n3 = sample_ask 3 n2"
  have n3: "sample_ready 2 (sample_peer 2) n3" "nd_votes n3 = [(2, pkey (sample_peer 2))]" "nd_meta n3 = nd_meta n2"
    using sample_ask_voted(1) [OF n2(1)] n2(2) by (simp_all add: n3_def)
  have run3: "sample_run (Up n3)"
    using sample_run_ask [OF run2 n3(1) [unfolded n3_def] i64(2)] by (simp add: n3_def)
  have load: "fm_load sample_meta_env (single_meta_new (fm_file (nd_meta n3))) = (RcOk, m1)"
    using n2(3) n3(3) by simp
  obtain n4 where n4: "sample_start (nd_votes n3) (nd_meta n3) = (RcOk, n4)" "sample_ready 2 (sample_peer 2) n4"
      "nd_votes n4 = nd_votes n3"
    using sample_started [OF load] n2(4,5) by auto
  have run4: "sample_run (Up n4)"
    using n4 by (intro sample_run_start [OF run_crash [OF run3]]) (simp_all add: sample_ready_def i64)
  define n5 where "n5 = sample_ask 3 n4"
  have n5: "sample_ready 2 (sample_peer 2) n5" "nd_votes n5 = [(2, pkey (sample_peer 2))]"
    using sample_ask_voted(1) [OF n4(2)] n4(3) n3(2) by (simp_all add: n5_def)
  have run5: "sample_run (Up n5)"
    using sample_run_ask [OF run4 n5(1) [unfolded n5_def] i64(2)] by (simp add: n5_def)
  define n6 where "n6 = sample_ask 2 n5"
  have n6: "sample_ready 2 (sample_peer 2) n6" "nd_votes n6 = [(2, pkey (sample_peer 2)), (2, pkey (sample_peer 2))]"
    using sample_ask_voted(2) [OF n5(1)] n5(2) by (simp_all add: n6_def)
  have run6: "sample_run (Up n6)"
    using sample_run_ask [OF run5 n6(1) [unfolded n6_def] i64(2)] by (simp add: n6_def)
  have "up_inv (fm_stored sample_meta_env) (sample_peer 1) (vote_part n6)"
    using fm.process_run_inv [OF run6 sample_voter] by simp
  then have "fm_stored sample_meta_env (nd_meta n6) = (2, sample_peer 2)"
    using n6(1) unfolding up_inv_def vote_part_def sample_ready_def fst_conv snd_conv
    by (metis sample_peer_simps(2))
  with run6 n6(2) show ?thesis by blast
qed

theorem one_vote_per_term_witness:
  "\<exists>P. sample_run P \<and> (2, pkey (sample_peer 2)) \<in> set (process_votes P)
     \<and> (\<forall>k \<in> {2, 3}. (2, pkey (sample_peer k)) \<in> set (process_votes P) \<longrightarrow> k = 2)"
proof -
  obtain n where n: "sample_run (Up n)" "nd_votes n = [(2, pkey (sample_peer 2)), (2, pkey (sample_peer 2))]"
    using sample_process by blast
  have "pkey (sample_peer k) = pkey (sample_peer 2)" if "(2, pkey (sample_peer k)) \<in> set (process_votes (Up n))" for k
    using one_vote_per_term [OF n(1) sample_voter that] n(2) by simp
  then have "sample_run (Up n) \<and> (2, pkey (sample_peer 2)) \<in> set (process_votes (Up n))
     \<and> (\<forall>k \<in> {2, 3}. (2, pkey (sample_peer k)) \<in> set (process_votes (Up n)) \<longrightarrow> k = 2)"
    using n by (auto simp: pkey_def sample_peer_def)
  then show ?thesis by blast
qed

theorem votes_sent_are_on_disk_witness:
  "\<exists>n. sample_run (Up n) \<and> nd_votes n \<noteq> [] \<and> fm_stored sample_meta_env (nd_meta n) = (2, sample_peer 2)
     \<and> (2 < (2::int) \<or> (2::int) = 2 \<and> pkey (sample_peer 2) = snd (hd (nd_votes n)))"
proof -
  obtain n where n: "sample_run (Up n)" "nd_votes n = [(2, pkey (sample_peer 2)), (2, pkey (sample_peer 2))]"
    "fm_stored sample_meta_env (nd_meta n) = (2, sample_peer 2)"
    using sample_process by blast
  have "2 < (2::int) \<or> (2::int) = 2 \<and> pkey (sample_peer 2) = snd (hd (nd_votes n))"
    by (rule votes_sent_are_on_disk [OF n(1) sample_voter]) (simp_all add: n)
  with n show ?thesis by auto
qed

end
