(* ===== verification/LogManagerSafety.thy ===== *)
theory LogManagerSafety
  imports LogManager
begin

section \<open>The log manager keeps a gap-free log\<close>

text \<open>
  \<open>lm_wf\<close> is the invariant of the manager: the entries in memory are a run of consecutive
  indexes that ends at the last index, the snapshot lies within the log, and the configuration
  history is sorted and ends within the log. The lemmas give the terms \<open>get_term\<close> reads after an
  append or a truncation, for any storage.
\<close>

definition lm_wf :: "('s, 'd, 'w) log_manager \<Rightarrow> bool" where
  "lm_wf lm \<longleftrightarrow>
     0 < lm_first lm \<and> lm_first lm \<le> lid_index (lm_last_snapshot_id lm) + 1
     \<and> runs_to e_index (lm_last lm) (lm_memory lm)
     \<and> lm_first lm + int (length (lm_memory lm)) \<le> lm_last lm + 1
     \<and> 0 \<le> lid_index (lm_virtual_first lm)
     \<and> lid_index (lm_virtual_first lm) \<le> lid_index (lm_last_snapshot_id lm)
     \<and> lid_index (lm_last_snapshot_id lm) \<le> lid_index (lm_applied_id lm)
     \<and> lid_index (lm_last_snapshot_id lm) \<le> lm_last lm
     \<and> cm_wf (lm_config lm)
     \<and> (\<forall>c \<in> set (cm_configurations (lm_config lm)). ce_index c \<le> lm_last lm)"

lemma lm_get_term_eq: "lm_get_term S i lm = lm_unsafe_get_term S i lm"
  by (simp add: lm_get_term_def lm_unsafe_get_term_def)

lemma memory_lookup [log_simps]:
  assumes "runs_to e_index (lm_last lm) (lm_memory lm)"
  shows "lm_get_entry_from_memory i lm =
     (if lm_last lm - int (length (lm_memory lm)) < i \<and> i \<le> lm_last lm
      then Some (lm_memory lm ! nat (i - (lm_last lm + 1 - int (length (lm_memory lm))))) else None)"
proof (cases "lm_memory lm = []")
  case True
  then show ?thesis by (simp add: lm_get_entry_from_memory_def)
next
  case False
  then show ?thesis
    using runs_to_last [OF assms False] runs_to_hd [OF assms False]
    by (auto simp: lm_get_entry_from_memory_def)
qed

subsection \<open>Terms after an append, after a truncation\<close>

lemma get_term_append:
  assumes r: "runs_to e_index (lm_last lm) (lm_memory lm)" and c: "contig e_index (lm_last lm + 1) es"
    and f: "lm_first lm \<le> lm_last lm + 1" and pos: "0 < lm_first lm"
    and v: "lid_index (lm_virtual_first lm) \<le> lm_last lm"
    and sn: "lid_index (lm_last_snapshot_id lm) \<le> lm_last lm"
    and lm': "lm_memory lm' = lm_memory lm @ es" "lm_last lm' = lm_last lm + int (length es)"
      "lm_first lm' = lm_first lm" "lm_virtual_first lm' = lm_virtual_first lm"
      "lm_last_snapshot_id lm' = lm_last_snapshot_id lm" "lm_storage lm' = lm_storage lm"
  shows "lm_unsafe_get_term S i lm' =
    (if lm_last lm < i \<and> i \<le> lm_last lm + int (length es) then e_term (es ! nat (i - (lm_last lm + 1)))
     else lm_unsafe_get_term S i lm)"
proof -
  have r': "runs_to e_index (lm_last lm') (lm_memory lm')"
    unfolding lm' by (rule runs_to_append [OF r c])
  let ?s = "lm_last lm + 1 - int (length (lm_memory lm))"
  have s': "lm_last lm' + 1 - int (length (lm_memory lm')) = ?s"
    by (simp add: lm')
  have look': "lm_get_entry_from_memory i lm' =
      (if ?s \<le> i \<and> i \<le> lm_last lm + int (length es) then Some ((lm_memory lm @ es) ! nat (i - ?s)) else None)"
    unfolding memory_lookup [OF r', of i] s' by (auto simp: lm')
  show ?thesis
  proof (cases "lm_last lm < i")
    case True
    then have "nat (i - ?s) = length (lm_memory lm) + nat (i - (lm_last lm + 1))" and "?s \<le> i"
      by linarith+
    moreover have "i \<noteq> lid_index (lm_virtual_first lm)" "i \<noteq> lid_index (lm_last_snapshot_id lm)"
      using True v sn by auto
    ultimately show ?thesis
      using True f pos look' by (simp add: lm_unsafe_get_term_def lm' nth_append)
  next
    case False
    then have "?s \<le> i \<Longrightarrow> nat (i - ?s) < length (lm_memory lm)"
      by linarith
    then have "lm_get_entry_from_memory i lm' = lm_get_entry_from_memory i lm"
      using False unfolding look' memory_lookup [OF r, of i] by (auto simp: nth_append)
    then show ?thesis
      using False by (simp add: lm_unsafe_get_term_def lm' split: option.split)
  qed
qed

lemma get_term_truncate:
  assumes r: "runs_to e_index (lm_last lm) (lm_memory lm)" and k: "i \<le> k" "k \<le> lm_last lm"
    and lm': "lm_memory lm' = pop_back_while (\<lambda>e. e_index e > k) (lm_memory lm)" "lm_last lm' = k"
      "lm_first lm' = lm_first lm" "lm_virtual_first lm' = lm_virtual_first lm"
      "lm_last_snapshot_id lm' = lm_last_snapshot_id lm" "lm_storage lm' = lm_storage lm"
  shows "lm_unsafe_get_term S i lm' = lm_unsafe_get_term S i lm"
proof -
  let ?s = "lm_last lm + 1 - int (length (lm_memory lm))"
  have r': "runs_to e_index (lm_last lm') (lm_memory lm')"
    unfolding lm' by (rule runs_to_pop_back [OF r k(2)])
  have m: "lm_memory lm' = take (nat (k + 1 - ?s)) (lm_memory lm)"
    unfolding lm' using r by (intro contig_pop_back_while) (simp add: runs_to_def)
  have "lm_get_entry_from_memory i lm' = lm_get_entry_from_memory i lm"
  proof (cases "k + 1 \<le> ?s")
    case True
    then show ?thesis
      using memory_lookup [OF r, of i] k(1) m by (simp add: lm_get_entry_from_memory_def)
  next
    case False
    then have "lm_last lm' + 1 - int (length (lm_memory lm')) = ?s"
      using k(2) by (auto simp: m lm'(2))
    moreover from False have "?s \<le> i \<Longrightarrow> nat (i - ?s) < nat (k + 1 - ?s)"
      using k(1) by linarith
    ultimately show ?thesis
      using k unfolding memory_lookup [OF r, of i] memory_lookup [OF r', of i]
      by (simp only: lm'(2) m nth_take) (simp split: if_split)
  qed
  then show ?thesis
    using k by (simp add: lm_unsafe_get_term_def lm' split: option.split)
qed

subsection \<open>Resolving conflicts\<close>

lemma conflicting_index_le: "conflicting_index t es \<le> length es"
  by (induction es) auto

lemma conflicting_index_match:
  "j < conflicting_index t es \<Longrightarrow> t (e_index (es ! j)) = e_term (es ! j)"
proof (induction es arbitrary: j)
  case Nil
  then show ?case by simp
next
  case (Cons e es)
  then show ?case by (cases j) (auto split: if_splits)
qed

lemma conflicting_index_mismatch:
  "conflicting_index t es < length es \<Longrightarrow>
   t (e_index (es ! conflicting_index t es)) \<noteq> e_term (es ! conflicting_index t es)"
  by (induction es) auto

text \<open>
  What a follower may be sent: consecutive entries that continue the local log or overlap it, that
  reach beyond the applied index and agree with the local log up to it.
\<close>

definition append_pre :: "'s log_storage_ops \<Rightarrow> log_entry list \<Rightarrow> ('s, 'd, 'w) log_manager \<Rightarrow> bool" where
  "append_pre S es lm \<longleftrightarrow>
     es \<noteq> [] \<and> 0 < e_index (hd es) \<and> contig e_index (e_index (hd es)) es
     \<and> (\<forall>e \<in> set es. 0 < e_term e)
     \<and> e_index (hd es) \<le> lm_last lm + 1
     \<and> lid_index (lm_applied_id lm) < e_index (last es)
     \<and> (\<forall>e \<in> set es. e_index e \<le> lid_index (lm_applied_id lm)
           \<longrightarrow> lm_unsafe_get_term S (e_index e) lm = e_term e)"

text \<open>
  After the conflict is resolved, the local log ends right before the entries left to append, and
  the entries dropped are in it with their terms.
\<close>

lemma resolve_conflict_spec:
  assumes wf: "lm_wf lm" and pre: "append_pre S es lm"
    and conf: "lm_check_and_resolve_conflict S es lm = (code, es1, lm1, res)"
  obtains m where "code = 0" "res = None" "m \<le> length es" "es1 = drop m es"
    "\<forall>j < m. lm_unsafe_get_term S (e_index (es ! j)) lm = e_term (es ! j)"
    "es1 = [] \<Longrightarrow> lm1 = lm"
    "es1 \<noteq> [] \<Longrightarrow> \<exists>lm0. lm1 = lm0\<lparr>lm_last := e_index (last es)\<rparr> \<and> lm_last lm0 = e_index (hd es) + int m - 1
       \<and> (lm0 = lm \<or> lm0 = lm_unsafe_truncate_suffix S (lm_last lm0) lm \<and> lm_last lm0 < lm_last lm
              \<and> lid_index (lm_applied_id lm) \<le> lm_last lm0)
       \<and> lm_unsafe_get_term S (e_index (hd es1)) lm \<noteq> e_term (hd es1)"
proof -
  let ?a = "e_index (hd es)" and ?t = "\<lambda>i. lm_unsafe_get_term S i lm"
  let ?ci = "conflicting_index ?t es"
  from pre have es: "es \<noteq> []" "0 < ?a" "contig e_index ?a es" "\<forall>e \<in> set es. 0 < e_term e"
    "?a \<le> lm_last lm + 1" "lid_index (lm_applied_id lm) < e_index (last es)"
    and match: "\<forall>e \<in> set es. e_index e \<le> lid_index (lm_applied_id lm) \<longrightarrow> ?t (e_index e) = e_term e"
    by (auto simp: append_pre_def)
  have idx: "e_index (es ! j) = ?a + int j" if "j < length es" for j
    using contig_nth [OF es(3) that] .
  have beyond: "?t i = 0" if "lm_last lm < i" for i
    using that wf by (auto simp: lm_unsafe_get_term_def lm_wf_def)
  show thesis
  proof (cases "?a = lm_last lm + 1")
    case True
    then have c: "code = 0" "es1 = es" "lm1 = lm\<lparr>lm_last := e_index (last es)\<rparr>" "res = None"
      using conf es by (auto simp: lm_check_and_resolve_conflict_def)
    have "?t (e_index (hd es)) \<noteq> e_term (hd es)"
      using beyond [of ?a] True es(1,4) by (metis hd_in_set less_add_one less_irrefl)
    with c True es(1) show thesis
      by (intro that [of 0]) auto
  next
    case False
    with es have lt: "?a \<le> lm_last lm" by simp
    show thesis
    proof (cases "?ci = length es")
      case True
      then have c: "code = 0" "es1 = []" "lm1 = lm" "res = None"
        using conf es False lt by (auto simp: lm_check_and_resolve_conflict_def Let_def)
      with True show thesis
        using conflicting_index_match [of _ ?t es] by (intro that [of ?ci]) auto
    next
      case ne: False
      then have ci: "?ci < length es" using conflicting_index_le [of ?t es] by simp
      note mis = conflicting_index_mismatch [OF ci]
      have app: "lid_index (lm_applied_id lm) < ?a + int ?ci"
        using match mis ci idx [OF ci] by (metis not_le_imp_less nth_mem)
      have hd1: "hd (drop ?ci es) = es ! ?ci"
        using ci by (simp add: hd_drop_conv_nth)
      have last_le: "?a + int ?ci \<le> lm_last lm + 1"
      proof (rule ccontr)
        assume "\<not> ?thesis"
        then have g: "lm_last lm + 1 < ?a + int ?ci" by simp
        define j where "j = nat (lm_last lm + 1 - ?a)"
        have j: "j < ?ci" "?a + int j = lm_last lm + 1"
          using g lt by (auto simp: j_def)
        have "?t (e_index (es ! j)) = e_term (es ! j)"
          by (rule conflicting_index_match [OF j(1)])
        moreover have "?t (e_index (es ! j)) = 0"
          using beyond [of "lm_last lm + 1"] idx [of j] j ci by simp
        moreover have "0 < e_term (es ! j)"
          using es(4) j ci by (meson less_trans nth_mem)
        ultimately show False by simp
      qed
      have c: "code = 0" "es1 = drop ?ci es" "res = None"
        "lm1 = (if ?a + int ?ci \<le> lm_last lm then lm_unsafe_truncate_suffix S (?a + int ?ci - 1) lm else lm)
                 \<lparr>lm_last := e_index (last es)\<rparr>"
        using conf es False lt ne idx [OF ci] by (auto simp: lm_check_and_resolve_conflict_def Let_def)
      show thesis
      proof (rule that [of ?ci])
        show "es1 \<noteq> [] \<Longrightarrow> \<exists>lm0. lm1 = lm0\<lparr>lm_last := e_index (last es)\<rparr> \<and> lm_last lm0 = ?a + int ?ci - 1
           \<and> (lm0 = lm \<or> lm0 = lm_unsafe_truncate_suffix S (lm_last lm0) lm \<and> lm_last lm0 < lm_last lm
                  \<and> lid_index (lm_applied_id lm) \<le> lm_last lm0)
           \<and> ?t (e_index (hd es1)) \<noteq> e_term (hd es1)"
        proof (cases "?a + int ?ci \<le> lm_last lm")
          case True
          let ?lm0 = "lm_unsafe_truncate_suffix S (?a + int ?ci - 1) lm"
          have "lm_last ?lm0 = ?a + int ?ci - 1"
            using app by (simp add: lm_unsafe_truncate_suffix_def Let_def)
          then show ?thesis
            using True c mis hd1 app by (intro exI [of _ ?lm0]) auto
        next
          case False
          with last_le c mis hd1 show ?thesis
            by (intro exI [of _ lm]) auto
        qed
      qed (use c ci conflicting_index_match [of _ ?t es] in auto)
    qed
  qed
qed

subsection \<open>The invariant is kept\<close>

lemma lm_wf_first: "lm_wf lm \<Longrightarrow> lm_first lm \<le> lm_last lm + 1"
  by (simp add: lm_wf_def)

lemma add_configurations_wf:
  assumes "cm_wf cm" and "\<forall>c \<in> set (cm_configurations cm). ce_index c \<le> l"
    and "contig e_index (l + 1) es"
  shows "cm_wf (add_configurations es cm)
     \<and> (\<forall>c \<in> set (cm_configurations (add_configurations es cm)). ce_index c \<le> l + int (length es))
     \<and> cm_snapshot (add_configurations es cm) = cm_snapshot cm"
  using assms
proof (induction es arbitrary: cm l)
  case Nil
  then show ?case by simp
next
  case (Cons e es)
  define cm' where
    "cm' = (if e_type e = ENTRY_TYPE_CONFIGURATION then snd (cm_add (conf_entry_of e) cm) else cm)"
  have e: "e_index e = l + 1" and es: "contig e_index (l + 1 + 1) es"
    using Cons.prems by auto
  have "cm_wf cm'"
    using Cons.prems(1) cm_wf_add [of cm "conf_entry_of e"] by (auto simp: cm'_def split: prod.splits)
      (metis prod.collapse)
  moreover have "\<forall>c \<in> set (cm_configurations cm'). ce_index c \<le> l + 1"
  proof
    fix c
    assume "c \<in> set (cm_configurations cm')"
    then have "c \<in> set (cm_configurations cm) \<or> ce_index c = l + 1"
      using e by (auto simp: cm'_def cm_add_def conf_entry_of_def split: if_splits)
    then show "ce_index c \<le> l + 1"
      using Cons.prems(2) by (metis add.commute zle_add1_eq_le zless_add1_eq order.order_iff_strict)
  qed
  moreover have "cm_snapshot cm' = cm_snapshot cm"
    by (simp add: cm'_def cm_add_def)
  ultimately show ?case
    using Cons.IH [of cm' "l + 1"] es by (simp add: cm'_def algebra_simps)
qed

lemma lm_wf_append:
  assumes wf: "lm_wf lm" and c: "contig e_index (lm_last lm + 1) es"
  shows "lm_wf (lm\<lparr>lm_last := lm_last lm + int (length es),
      lm_config := add_configurations es (lm_config lm), lm_memory := lm_memory lm @ es,
      lm_disk_queue := q\<rparr>)"
  using assms add_configurations_wf [of "lm_config lm" "lm_last lm" es]
    runs_to_append [of e_index "lm_last lm" "lm_memory lm" es]
  by (simp add: lm_wf_def)

lemma lm_wf_cong:
  assumes "lm_wf lm" and "lm_first lm' = lm_first lm" "lm_last lm' = lm_last lm"
    "lm_memory lm' = lm_memory lm" "lm_virtual_first lm' = lm_virtual_first lm"
    "lm_last_snapshot_id lm' = lm_last_snapshot_id lm" "lm_applied_id lm' = lm_applied_id lm"
    "lm_config lm' = lm_config lm"
  shows "lm_wf lm'"
  using assms by (simp add: lm_wf_def)

lemma lm_truncate_suffix_fields:
  assumes "lid_index (lm_applied_id lm) \<le> k"
  shows "lm_first (lm_unsafe_truncate_suffix S k lm) = lm_first lm"
    "lm_last (lm_unsafe_truncate_suffix S k lm) = k"
    "lm_memory (lm_unsafe_truncate_suffix S k lm) = pop_back_while (\<lambda>e. e_index e > k) (lm_memory lm)"
    "lm_virtual_first (lm_unsafe_truncate_suffix S k lm) = lm_virtual_first lm"
    "lm_last_snapshot_id (lm_unsafe_truncate_suffix S k lm) = lm_last_snapshot_id lm"
    "lm_applied_id (lm_unsafe_truncate_suffix S k lm) = lm_applied_id lm"
    "lm_disk_id (lm_unsafe_truncate_suffix S k lm) = lm_disk_id lm"
    "lm_storage (lm_unsafe_truncate_suffix S k lm) = lm_storage lm"
    "lm_has_error (lm_unsafe_truncate_suffix S k lm) = lm_has_error lm"
    "lm_wait_map (lm_unsafe_truncate_suffix S k lm) = lm_wait_map lm"
    "lm_stopped (lm_unsafe_truncate_suffix S k lm) = lm_stopped lm"
    "lm_config (lm_unsafe_truncate_suffix S k lm) = cm_truncate_suffix k (lm_config lm)"
    "\<exists>t. lm_disk_queue (lm_unsafe_truncate_suffix S k lm) = lm_disk_queue lm @ [DiskTruncateSuffix k t]"
  using assms by (simp_all add: lm_unsafe_truncate_suffix_def Let_def)

lemma pop_back_while_length: "length (pop_back_while P xs) \<le> length xs"
  by (induction xs rule: rev_induct) auto

lemma lm_wf_truncate_suffix:
  assumes wf: "lm_wf lm" and k: "lid_index (lm_applied_id lm) \<le> k" "k \<le> lm_last lm"
  shows "lm_wf (lm_unsafe_truncate_suffix S k lm)"
proof -
  let ?m = "lm_memory lm" and ?p = "pop_back_while (\<lambda>e. e_index e > k) (lm_memory lm)"
  let ?s = "lm_last lm + 1 - int (length ?m)"
  have r: "runs_to e_index (lm_last lm) ?m"
    using wf by (simp add: lm_wf_def)
  have p: "?p = take (nat (k + 1 - ?s)) ?m"
    using r by (intro contig_pop_back_while) (simp add: runs_to_def)
  have len: "lm_first lm + int (length ?p) \<le> k + 1"
    using wf k by (auto simp: p lm_wf_def min_def)
  note f = lm_truncate_suffix_fields [OF k(1), of S]
  have "cm_wf (cm_truncate_suffix k (lm_config lm))"
    using wf by (simp add: lm_wf_def cm_wf_truncate_suffix)
  moreover have "\<forall>c \<in> set (cm_configurations (cm_truncate_suffix k (lm_config lm))). ce_index c \<le> k"
    using wf by (simp add: lm_wf_def cm_truncate_suffix_filter)
  ultimately show ?thesis
    using wf k len runs_to_pop_back [OF r k(2)] by (simp add: lm_wf_def f)
qed

subsection \<open>A follower appends what the leader sends\<close>

lemma wakeup_fields [simp]:
  "lm_first (fst (lm_wakeup_all_waiter lm)) = lm_first lm"
  "lm_last (fst (lm_wakeup_all_waiter lm)) = lm_last lm"
  "lm_memory (fst (lm_wakeup_all_waiter lm)) = lm_memory lm"
  "lm_virtual_first (fst (lm_wakeup_all_waiter lm)) = lm_virtual_first lm"
  "lm_last_snapshot_id (fst (lm_wakeup_all_waiter lm)) = lm_last_snapshot_id lm"
  "lm_applied_id (fst (lm_wakeup_all_waiter lm)) = lm_applied_id lm"
  "lm_disk_id (fst (lm_wakeup_all_waiter lm)) = lm_disk_id lm"
  "lm_config (fst (lm_wakeup_all_waiter lm)) = lm_config lm"
  "lm_storage (fst (lm_wakeup_all_waiter lm)) = lm_storage lm"
  "lm_has_error (fst (lm_wakeup_all_waiter lm)) = lm_has_error lm"
  "lm_stopped (fst (lm_wakeup_all_waiter lm)) = lm_stopped lm"
  "lm_disk_queue (fst (lm_wakeup_all_waiter lm)) = lm_disk_queue lm"
  "lm_wait_map (fst (lm_wakeup_all_waiter lm)) = []"
  by (simp_all add: lm_wakeup_all_waiter_def)

lemma get_term_cong:
  assumes "lm_first lm' = lm_first lm" "lm_last lm' = lm_last lm" "lm_memory lm' = lm_memory lm"
    "lm_virtual_first lm' = lm_virtual_first lm" "lm_last_snapshot_id lm' = lm_last_snapshot_id lm"
    "lm_storage lm' = lm_storage lm"
  shows "lm_unsafe_get_term S i lm' = lm_unsafe_get_term S i lm"
  using assms by (simp add: lm_unsafe_get_term_def lm_get_entry_from_memory_def)

text \<open>
  The shape of a successful append: the log was cut back to \<open>k\<close> (or not at all) and entries
  numbered from \<open>k + 1\<close> follow.
\<close>

definition appended :: "log_entry list \<Rightarrow> 'd \<Rightarrow> ('s, 'd, 'w) log_manager \<Rightarrow> ('s, 'd, 'w) log_manager" where
  "appended es d lm0 =
     lm0\<lparr>lm_last := lm_last lm0 + int (length es), lm_config := add_configurations es (lm_config lm0),
         lm_memory := lm_memory lm0 @ es,
         lm_disk_queue := lm_disk_queue lm0 @ [DiskEntries d (if es = [] then 0 else e_index (hd es)) es]\<rparr>"

lemma appended_fields [simp]:
  "lm_first (appended es d lm) = lm_first lm"
  "lm_last (appended es d lm) = lm_last lm + int (length es)"
  "lm_memory (appended es d lm) = lm_memory lm @ es"
  "lm_virtual_first (appended es d lm) = lm_virtual_first lm"
  "lm_last_snapshot_id (appended es d lm) = lm_last_snapshot_id lm"
  "lm_applied_id (appended es d lm) = lm_applied_id lm"
  "lm_disk_id (appended es d lm) = lm_disk_id lm"
  "lm_config (appended es d lm) = add_configurations es (lm_config lm)"
  "lm_storage (appended es d lm) = lm_storage lm"
  "lm_has_error (appended es d lm) = lm_has_error lm"
  "lm_disk_queue (appended es d lm)
     = lm_disk_queue lm @ [DiskEntries d (if es = [] then 0 else e_index (hd es)) es]"
  by (simp_all add: appended_def)

lemma lm_wf_appended: "lm_wf lm \<Longrightarrow> contig e_index (lm_last lm + 1) es \<Longrightarrow> lm_wf (appended es d lm)"
  unfolding appended_def by (rule lm_wf_append)

lemma lm_wf_wakeup: "lm_wf lm \<Longrightarrow> lm_wf (fst (lm_wakeup_all_waiter lm))"
  by (rule lm_wf_cong) simp_all

lemma append_shape:
  assumes wf: "lm_wf lm" and ok: "\<not> lm_has_error lm" and pre: "append_pre S es lm"
  obtains m lm0 where "lm_append_entries S es d lm = lm_wakeup_all_waiter (appended (drop m es) d lm0)"
    "m \<le> length es" "\<forall>j < m. lm_unsafe_get_term S (e_index (es ! j)) lm = e_term (es ! j)"
    "contig e_index (lm_last lm0 + 1) (drop m es)"
    "lm0 = lm \<or> lm0 = lm_unsafe_truncate_suffix S (lm_last lm0) lm \<and> lm_last lm0 < lm_last lm
                 \<and> lid_index (lm_applied_id lm) \<le> lm_last lm0"
    "drop m es = [] \<Longrightarrow> lm0 = lm"
    "drop m es \<noteq> [] \<Longrightarrow> lm_last lm0 = e_index (hd es) + int m - 1
        \<and> lm_unsafe_get_term S (e_index (hd (drop m es))) lm \<noteq> e_term (hd (drop m es))"
proof -
  obtain code es1 lm1 res where conf: "lm_check_and_resolve_conflict S es lm = (code, es1, lm1, res)"
    by (metis prod_cases4)
  obtain m where m: "code = 0" "res = None" "m \<le> length es" "es1 = drop m es"
    "\<forall>j < m. lm_unsafe_get_term S (e_index (es ! j)) lm = e_term (es ! j)"
    "es1 = [] \<Longrightarrow> lm1 = lm"
    "es1 \<noteq> [] \<Longrightarrow> \<exists>lm0. lm1 = lm0\<lparr>lm_last := e_index (last es)\<rparr> \<and> lm_last lm0 = e_index (hd es) + int m - 1
       \<and> (lm0 = lm \<or> lm0 = lm_unsafe_truncate_suffix S (lm_last lm0) lm \<and> lm_last lm0 < lm_last lm
              \<and> lid_index (lm_applied_id lm) \<le> lm_last lm0)
       \<and> lm_unsafe_get_term S (e_index (hd es1)) lm \<noteq> e_term (hd es1)"
    by (rule resolve_conflict_spec [OF wf pre conf]) blast
  have es: "es \<noteq> []" "contig e_index (e_index (hd es)) es"
    using pre by (auto simp: append_pre_def)
  have app: "lm_append_entries S es d lm = lm_wakeup_all_waiter
      (lm1\<lparr>lm_config := add_configurations es1 (lm_config lm1), lm_memory := lm_memory lm1 @ es1,
           lm_disk_queue := lm_disk_queue lm1 @ [DiskEntries d (if es1 = [] then 0 else e_index (hd es1)) es1]\<rparr>)"
    using es(1) ok conf m(1) by (simp add: lm_append_entries_def Let_def)
  show thesis
  proof (cases "es1 = []")
    case True
    then have "lm_append_entries S es d lm = lm_wakeup_all_waiter (appended (drop m es) d lm)"
      using app m(4,6) by (simp add: appended_def)
    with True m show thesis
      by (intro that [of m lm]) auto
  next
    case False
    then obtain lm0 where lm0: "lm1 = lm0\<lparr>lm_last := e_index (last es)\<rparr>"
      "lm_last lm0 = e_index (hd es) + int m - 1"
      "lm0 = lm \<or> lm0 = lm_unsafe_truncate_suffix S (lm_last lm0) lm \<and> lm_last lm0 < lm_last lm
              \<and> lid_index (lm_applied_id lm) \<le> lm_last lm0"
      "lm_unsafe_get_term S (e_index (hd es1)) lm \<noteq> e_term (hd es1)"
      using m(7) by blast
    have "e_index (last es) = lm_last lm0 + int (length es1)"
      using contig_last [OF es(2,1)] lm0(2) m(3,4) by (simp add: of_nat_diff)
    then have "lm_append_entries S es d lm = lm_wakeup_all_waiter (appended (drop m es) d lm0)"
      using app m(4) lm0(1) by (simp add: appended_def)
    moreover have "contig e_index (lm_last lm0 + 1) (drop m es)"
      using contig_drop [OF es(2) m(3)] lm0(2) by simp
    ultimately show thesis
      using False m lm0 by (intro that [of m lm0]) auto
  qed
qed

lemma append_follower_lemma:
  assumes wf: "lm_wf lm" and ok: "\<not> lm_has_error lm" and pre: "append_pre S es lm"
    and app: "lm_append_entries S es d lm = (lm', ev)"
  shows "lm_wf lm'" (is ?wf)
    and "\<forall>e \<in> set es. lm_unsafe_get_term S (e_index e) lm' = e_term e" (is ?sent)
    and "\<forall>i < e_index (hd es). lm_unsafe_get_term S i lm' = lm_unsafe_get_term S i lm" (is ?before)
    and "lm_last lm' = (if \<forall>e \<in> set es. lm_unsafe_get_term S (e_index e) lm = e_term e
                        then lm_last lm else e_index (last es))" (is ?last)
proof -
  let ?t = "\<lambda>i. lm_unsafe_get_term S i lm" and ?a = "e_index (hd es)"
  from pre have es: "es \<noteq> []" "contig e_index ?a es" "\<forall>e \<in> set es. 0 < e_term e"
    by (auto simp: append_pre_def)
  have idx: "e_index (es ! j) = ?a + int j" if "j < length es" for j
    using contig_nth [OF es(2) that] .
  obtain m lm0 where m: "lm_append_entries S es d lm = lm_wakeup_all_waiter (appended (drop m es) d lm0)"
    "m \<le> length es" "\<forall>j < m. ?t (e_index (es ! j)) = e_term (es ! j)"
    "contig e_index (lm_last lm0 + 1) (drop m es)"
    and lm0: "lm0 = lm \<or> lm0 = lm_unsafe_truncate_suffix S (lm_last lm0) lm \<and> lm_last lm0 < lm_last lm
                 \<and> lid_index (lm_applied_id lm) \<le> lm_last lm0"
    and nil: "drop m es = [] \<Longrightarrow> lm0 = lm"
    and ne: "drop m es \<noteq> [] \<Longrightarrow> lm_last lm0 = ?a + int m - 1 \<and> ?t (e_index (hd (drop m es))) \<noteq> e_term (hd (drop m es))"
    by (rule append_shape [OF wf ok pre]) blast
  have lm': "lm' = fst (lm_wakeup_all_waiter (appended (drop m es) d lm0))"
    using app m(1) by simp
  have wf0: "lm_wf lm0"
    using lm0 wf lm_wf_truncate_suffix [OF wf, of "lm_last lm0" S] by auto
  show ?wf
    unfolding lm' by (intro lm_wf_wakeup lm_wf_appended wf0 m(4))
  have t0: "lm_unsafe_get_term S i lm0 = ?t i" if "i \<le> lm_last lm0" for i
  proof (cases "lm0 = lm")
    case False
    with lm0 have l: "lm0 = lm_unsafe_truncate_suffix S (lm_last lm0) lm" "lm_last lm0 < lm_last lm"
      "lid_index (lm_applied_id lm) \<le> lm_last lm0" by auto
    note f = lm_truncate_suffix_fields [OF l(3), of S]
    show ?thesis
      using wf that l(1,2) by (intro get_term_truncate [of lm i "lm_last lm0"]) (metis lm_wf_def f order.strict_implies_order)+
  qed simp
  have t': "lm_unsafe_get_term S i lm' =
      (if lm_last lm0 < i \<and> i \<le> lm_last lm0 + int (length (drop m es))
       then e_term (drop m es ! nat (i - (lm_last lm0 + 1))) else lm_unsafe_get_term S i lm0)" for i
    unfolding lm' using wf0 m(4)
    by (intro get_term_append) (auto simp: lm_wf_def)
  have below: "lm_unsafe_get_term S i lm' = ?t i" if "i \<le> lm_last lm0" for i
    using that t0 by (simp add: t')
  have pos: "i \<le> lm_last lm" if "0 < ?t i" for i
    using that wf by (cases "i \<le> lm_last lm") (auto simp: lm_unsafe_get_term_def lm_wf_def)
  have "lm_unsafe_get_term S (e_index (es ! j)) lm' = e_term (es ! j)" if j: "j < length es" for j
  proof (cases "j < m")
    case True
    then have match: "?t (e_index (es ! j)) = e_term (es ! j)"
      using m(3) by blast
    have "e_index (es ! j) \<le> lm_last lm0"
    proof (cases "drop m es = []")
      case True
      with nil match pos es(3) j show ?thesis by (metis nth_mem)
    next
      case False
      with ne True idx [OF j] show ?thesis by simp
    qed
    with below match show ?thesis by simp
  next
    case False
    then have l: "lm_last lm0 = ?a + int m - 1"
      using ne j by simp
    then have "nat (e_index (es ! j) - (lm_last lm0 + 1)) = j - m"
      using idx [OF j] False by simp
    then show ?thesis
      using False j l idx [OF j] m(2) by (simp add: t')
  qed
  then show ?sent
    by (auto simp: in_set_conv_nth)
  show ?before
  proof (intro allI impI)
    fix i
    assume i: "i < ?a"
    have "?a \<le> lm_last lm + 1"
      using pre by (simp add: append_pre_def)
    then have "i \<le> lm_last lm0"
      using i nil ne by (cases "drop m es = []") auto
    then show "lm_unsafe_get_term S i lm' = ?t i" by (rule below)
  qed
  show ?last
  proof (cases "drop m es = []")
    case True
    then have "\<forall>e \<in> set es. ?t (e_index e) = e_term e"
      using m(2,3) by (auto simp: in_set_conv_nth)
    with True nil show ?thesis by (simp add: lm')
  next
    case False
    then have "hd (drop m es) \<in> set es"
      by (meson hd_in_set in_set_dropD)
    with ne False have "\<not> (\<forall>e \<in> set es. ?t (e_index e) = e_term e)"
      by blast
    moreover have "lm_last lm' = e_index (last es)"
      using contig_last [OF es(2,1)] ne False m(2) by (simp add: lm' of_nat_diff)
    ultimately show ?thesis by argo
  qed
qed

subsection \<open>The leader appends its own entries\<close>

lemma assign_indexes_length [simp]: "length (assign_indexes l es) = length es"
  by (induction es arbitrary: l) auto

lemma assign_indexes_contig: "contig e_index (l + 1) (assign_indexes l es)"
proof (induction es arbitrary: l)
  case (Cons e es)
  show ?case using Cons.IH [of "l + 1"] by simp
qed simp

lemma assign_indexes_Nil [simp]: "assign_indexes l es = [] \<longleftrightarrow> es = []"
  by (cases es) auto

lemma assign_indexes_nth:
  "j < length es \<Longrightarrow> assign_indexes l es ! j = (es ! j)\<lparr>e_id := LogId (l + 1 + int j) (e_term (es ! j))\<rparr>"
proof (induction es arbitrary: l j)
  case Nil
  then show ?case by simp
next
  case (Cons e es)
  then show ?case by (cases j) (auto simp: algebra_simps)
qed

lemma append_leader_shape:
  assumes "\<not> lm_has_error lm" and "es \<noteq> []" and "e_index (hd es) = 0"
  shows "lm_append_entries S es d lm = lm_wakeup_all_waiter (appended (assign_indexes (lm_last lm) es) d lm)"
  using assms by (simp add: lm_append_entries_def lm_check_and_resolve_conflict_def appended_def Let_def)

lemma append_leader_lemma:
  assumes wf: "lm_wf lm" and ok: "\<not> lm_has_error lm" and es: "es \<noteq> []" "e_index (hd es) = 0"
    and app: "lm_append_entries S es d lm = (lm', ev)"
  shows "lm_wf lm'" and "lm_last lm' = lm_last lm + int (length es)"
    and "\<forall>j < length es. lm_unsafe_get_term S (lm_last lm + 1 + int j) lm' = e_term (es ! j)"
    and "\<forall>i \<le> lm_last lm. lm_unsafe_get_term S i lm' = lm_unsafe_get_term S i lm"
proof -
  let ?es = "assign_indexes (lm_last lm) es"
  have lm': "lm' = fst (lm_wakeup_all_waiter (appended ?es d lm))"
    using app append_leader_shape [OF ok es, of S d] by simp
  have c: "contig e_index (lm_last lm + 1) ?es"
    by (rule assign_indexes_contig)
  show "lm_wf lm'"
    unfolding lm' by (intro lm_wf_wakeup lm_wf_appended wf c)
  show "lm_last lm' = lm_last lm + int (length es)"
    by (simp add: lm')
  have t: "lm_unsafe_get_term S i lm' =
      (if lm_last lm < i \<and> i \<le> lm_last lm + int (length ?es)
       then e_term (?es ! nat (i - (lm_last lm + 1))) else lm_unsafe_get_term S i lm)" for i
    unfolding lm' using wf c by (intro get_term_append) (auto simp: lm_wf_def)
  show "\<forall>j < length es. lm_unsafe_get_term S (lm_last lm + 1 + int j) lm' = e_term (es ! j)"
    by (simp add: t assign_indexes_nth)
  show "\<forall>i \<le> lm_last lm. lm_unsafe_get_term S i lm' = lm_unsafe_get_term S i lm"
    by (simp add: t)
qed

subsection \<open>Memory, prefixes and snapshots\<close>

lemma pop_upto_drop: "pop_upto n lid es = (k, r) \<Longrightarrow> r = drop k es \<and> k \<le> n \<and> (\<forall>e \<in> set (take k es). e_id e \<le> lid)"
proof (induction n lid es arbitrary: k r rule: pop_upto.induct)
  case (3 n lid e es)
  then show ?case by (fastforce split: if_splits prod.splits simp: not_less)
qed auto

lemma pop_upto_stop: "pop_upto n lid es = (k, r) \<Longrightarrow> k < n \<Longrightarrow> dropWhile (\<lambda>e. e_id e \<le> lid) es = r"
proof (induction n lid es arbitrary: k r rule: pop_upto.induct)
  case (3 n lid e es)
  then show ?case by (fastforce split: if_splits prod.splits simp: not_less)
qed auto

text \<open>The batches of 256 pop exactly the entries up to the given id.\<close>

lemma clear_memory_loop_dropWhile: "clear_memory_loop lid es = dropWhile (\<lambda>e. e_id e \<le> lid) es"
proof (induction lid es rule: clear_memory_loop.induct)
  case (1 lid es)
  obtain k r where kr: "pop_upto 256 lid es = (k, r)" by fastforce
  show ?case
  proof (cases "k = 256")
    case True
    have "dropWhile (\<lambda>e. e_id e \<le> lid) (take k es @ drop k es) = dropWhile (\<lambda>e. e_id e \<le> lid) (drop k es)"
      using pop_upto_drop [OF kr] by (intro dropWhile_append2) blast
    then show ?thesis
      using 1 [OF kr [symmetric] True] pop_upto_drop [OF kr] kr True
      by (subst clear_memory_loop.simps) simp
  next
    case False
    then have "k < 256"
      using pop_upto_drop [OF kr] by simp
    with pop_upto_stop [OF kr] kr False show ?thesis
      by (subst clear_memory_loop.simps) simp
  qed
qed

lemma lm_wf_dropWhile:
  assumes "lm_wf lm"
  shows "lm_wf (lm\<lparr>lm_memory := dropWhile P (lm_memory lm)\<rparr>)"
  using assms runs_to_dropWhile [of e_index "lm_last lm" "lm_memory lm" P] length_dropWhile_le [of P "lm_memory lm"]
  by (simp add: lm_wf_def)

lemma lm_clear_memory_logs_eq:
  "lm_clear_memory_logs i lm = lm\<lparr>lm_memory := dropWhile (\<lambda>e. e_id e \<le> i) (lm_memory lm)\<rparr>"
  by (simp add: lm_clear_memory_logs_def clear_memory_loop_dropWhile)

lemma lm_wf_set_disk_id:
  assumes "lm_wf lm"
  shows "lm_wf (lm_set_disk_id i lm)"
proof -
  have "lm_wf (lm\<lparr>lm_disk_id := i\<rparr>)"
    using assms by (simp add: lm_wf_def)
  from lm_wf_dropWhile [OF this] assms show ?thesis
    by (simp add: lm_set_disk_id_def lm_clear_memory_logs_eq Let_def)
qed

lemma lm_wf_set_applied_id:
  assumes "lm_wf lm" and "lid_index (lm_applied_id lm) \<le> lid_index i"
  shows "lm_wf (lm_set_applied_id i lm)"
proof -
  have "lm_wf (lm\<lparr>lm_applied_id := i\<rparr>)"
    using assms by (simp add: lm_wf_def)
  from lm_wf_dropWhile [OF this] assms show ?thesis
    by (simp add: lm_set_applied_id_def lm_clear_memory_logs_eq Let_def)
qed

text \<open>
  \<open>truncate_prefix\<close> and \<open>reset\<close> are internal to snapshots: they are called with an
  index above the first one, at most one above the snapshot just set.
\<close>

lemma runs_to_memory_prefix:
  assumes "runs_to e_index l m"
  shows "int (length (dropWhile (\<lambda>e. e_index e < k) m)) \<le> max 0 (l + 1 - k)"
proof -
  have "dropWhile (\<lambda>e. e_index e < k) m = drop (nat (k - (l + 1 - int (length m)))) m"
    using assms by (intro contig_dropWhile) (simp add: runs_to_def)
  then show ?thesis by auto
qed

definition with_snapshot ::
  "config_manager \<Rightarrow> log_id \<Rightarrow> log_id \<Rightarrow> log_id \<Rightarrow> ('s, 'd, 'w) log_manager \<Rightarrow> ('s, 'd, 'w) log_manager" where
  "with_snapshot cm s a v lm =
     lm\<lparr>lm_config := cm, lm_last_snapshot_id := s, lm_applied_id := a, lm_virtual_first := v\<rparr>"

lemma lm_wf_truncate_prefix:
  assumes wf: "lm_wf lm" and k: "lm_first lm \<le> k" "k \<le> lid_index s + 1" "lid_index s \<le> max (lm_last lm) (k - 1)"
    and s: "0 \<le> lid_index v" "lid_index v \<le> lid_index s" "lid_index s \<le> lid_index a"
    and cm: "cm_wf cm" "cm_configurations cm = cm_configurations (lm_config lm)"
  shows "lm_wf (lm_truncate_prefix k (with_snapshot cm s a v lm))"
proof -
  let ?dw = "dropWhile (\<lambda>e. e_index e < k) (lm_memory lm)"
  have r: "runs_to e_index (lm_last lm) (lm_memory lm)"
    using wf by (simp add: lm_wf_def)
  note len = runs_to_memory_prefix [OF r, of k]
  have dw: "runs_to e_index (if k > lm_last lm then k - 1 else lm_last lm) ?dw"
  proof (cases "k > lm_last lm")
    case True
    with len have "length ?dw = 0" by linarith
    then show ?thesis by (simp only: length_0_conv runs_to_Nil)
  qed (use runs_to_dropWhile [OF r] in simp)
  have cm': "cm_wf (cm_truncate_prefix k cm)"
    "\<forall>c \<in> set (cm_configurations (cm_truncate_prefix k cm)). ce_index c \<le> lm_last lm"
    using wf cm by (simp_all add: lm_wf_def cm_wf_truncate_prefix cm_truncate_prefix_filter)
  show ?thesis
    using wf k s len dw cm' by (auto simp: lm_truncate_prefix_def lm_wf_def with_snapshot_def)
qed

lemma lm_wf_reset:
  assumes wf: "lm_wf lm" and k: "0 \<le> lid_index s" "lid_index s \<le> lid_index a"
    and cm: "cm_wf cm"
  shows "lm_wf (lm_reset (lid_index s + 1) (with_snapshot cm s a s lm))"
proof -
  let ?k = "lid_index s + 1"
  let ?cm = "cm_truncate_suffix (?k - 1) (cm_truncate_prefix ?k cm)"
  have "cm_wf (cm_truncate_prefix ?k cm)"
    by (rule cm_wf_truncate_prefix [OF cm])
  then have "cm_wf ?cm" "\<forall>c \<in> set (cm_configurations ?cm). ce_index c \<le> ?k - 1"
    by (simp_all only: cm_wf_truncate_suffix cm_truncate_suffix_filter) simp
  with wf k show ?thesis
    by (simp add: lm_reset_def lm_wf_def with_snapshot_def)
qed

definition snapshot_pre :: "snapshot_meta \<Rightarrow> ('s, 'd, 'w) log_manager \<Rightarrow> bool" where
  "snapshot_pre meta lm \<longleftrightarrow>
     (LogId (sm_last_included_index meta) (sm_last_included_term meta) \<le> lm_applied_id lm
        \<longrightarrow> sm_last_included_index meta \<le> lid_index (lm_applied_id lm))"

lemma conf_of_strings_wf [simp]: "conf_wf (conf_of_strings f ss)"
proof -
  have "conf_wf c \<Longrightarrow> conf_wf (fold (\<lambda>s c. set_insert (peer_of_string f s) c) ss c)" for c
    by (induction ss arbitrary: c) (auto simp: conf_simps)
  then show ?thesis by (simp add: conf_of_strings_def)
qed

lemma set_snapshot_shape:
  fixes S :: "'s log_storage_ops" and f :: "string \<Rightarrow> 32 word option" and lm :: "('s, 'd, 'w) log_manager"
    and meta :: snapshot_meta
  defines "ix \<equiv> sm_last_included_index meta" and "t \<equiv> lm_unsafe_get_term S (sm_last_included_index meta) lm"
    and "lb \<equiv> lm_last_snapshot_id lm" and "lid \<equiv> LogId (sm_last_included_index meta) (sm_last_included_term meta)"
  defines "a \<equiv> if lid > lm_applied_id lm then lid else lm_applied_id lm"
    and "cm \<equiv> cm_set_snapshot \<lparr>ce_id = lid, ce_conf = conf_of_strings f (sm_peers meta),
                ce_old_conf = conf_of_strings f (sm_old_peers meta)\<rparr> (lm_config lm)"
  assumes new: "lid_index (lm_last_snapshot_id lm) < sm_last_included_index meta"
  shows "lm_set_snapshot S f meta lm = (if t = 0 then lm_truncate_prefix (ix + 1) (with_snapshot cm lid a lid lm)
     else if t = sm_last_included_term meta
     then if lid_index lb > 0 then lm_truncate_prefix (lid_index lb + 1) (with_snapshot cm lid a lb lm)
          else with_snapshot cm lid a (lm_virtual_first lm) lm
     else lm_reset (ix + 1) (with_snapshot cm lid a lid lm))"
proof -
  have t: "lm_unsafe_get_term S (sm_last_included_index meta) (lm\<lparr>lm_config := cm\<rparr>) = t"
    unfolding t_def by (rule get_term_cong) simp_all
  show ?thesis
    using new t unfolding ix_def lb_def lid_def a_def cm_def
    by (simp add: lm_set_snapshot_def Let_def with_snapshot_def)
qed

lemma set_snapshot_lemma:
  fixes S :: "'s log_storage_ops" and f :: "string \<Rightarrow> 32 word option" and lm :: "('s, 'd, 'w) log_manager"
  assumes wf: "lm_wf lm" and pre: "snapshot_pre meta lm"
    and new: "lid_index (lm_last_snapshot_id lm) < sm_last_included_index meta"
  defines "ix \<equiv> sm_last_included_index meta" and "t \<equiv> lm_unsafe_get_term S (sm_last_included_index meta) lm"
    and "lm' \<equiv> lm_set_snapshot S f meta lm"
  shows "lm_wf lm'" and "lm_last_snapshot_id lm' = LogId ix (sm_last_included_term meta)"
    and "t = 0 \<Longrightarrow> lm_first lm' = ix + 1 \<and> lm_last lm' = max ix (lm_last lm)"
    and "t \<noteq> 0 \<Longrightarrow> t = sm_last_included_term meta \<Longrightarrow> lm_last lm' = lm_last lm
          \<and> lm_first lm' = (if lid_index (lm_last_snapshot_id lm) > 0 then lid_index (lm_last_snapshot_id lm) + 1
                           else lm_first lm)"
    and "t \<noteq> 0 \<Longrightarrow> t \<noteq> sm_last_included_term meta \<Longrightarrow> lm_memory lm' = [] \<and> lm_first lm' = ix + 1 \<and> lm_last lm' = ix"
proof -
  let ?lid = "LogId ix (sm_last_included_term meta)"
  let ?lb = "lm_last_snapshot_id lm"
  let ?a = "if ?lid > lm_applied_id lm then ?lid else lm_applied_id lm"
  let ?cm = "cm_set_snapshot \<lparr>ce_id = ?lid, ce_conf = conf_of_strings f (sm_peers meta),
                ce_old_conf = conf_of_strings f (sm_old_peers meta)\<rparr> (lm_config lm)"
  note lm' = set_snapshot_shape [OF new, of S f, folded lm'_def t_def ix_def]
  from wf have w: "0 < lm_first lm" "lm_first lm \<le> lid_index ?lb + 1" "0 \<le> lid_index (lm_virtual_first lm)"
    "lid_index (lm_virtual_first lm) \<le> lid_index ?lb" "lid_index ?lb \<le> lm_last lm"
    by (simp_all add: lm_wf_def)
  have a: "ix \<le> lid_index ?a"
    using pre by (auto simp: snapshot_pre_def ix_def not_less)
  have cm: "cm_wf ?cm" "cm_configurations ?cm = cm_configurations (lm_config lm)"
    using wf by (simp_all add: lm_wf_def cm_wf_set_snapshot ce_wf_def) (simp add: cm_set_snapshot_def)
  have in_log: "ix \<le> lm_last lm" if "t \<noteq> 0"
    using that new w unfolding t_def ix_def by (auto simp: lm_unsafe_get_term_def split: if_splits)
  have 1: "lm_wf (lm_truncate_prefix (ix + 1) (with_snapshot ?cm ?lid ?a ?lid lm))"
    using new w a by (intro lm_wf_truncate_prefix [OF wf] cm) (auto simp: ix_def)
  have 2: "lm_wf (lm_truncate_prefix (lid_index ?lb + 1) (with_snapshot ?cm ?lid ?a ?lb lm))" if "t \<noteq> 0"
    using new w a in_log [OF that] by (intro lm_wf_truncate_prefix [OF wf] cm) (auto simp: ix_def)
  have 3: "lm_wf (with_snapshot ?cm ?lid ?a (lm_virtual_first lm) lm)" if "t \<noteq> 0"
    using wf new w a in_log [OF that] cm by (simp add: lm_wf_def with_snapshot_def ix_def)
  have 4: "lm_wf (lm_reset (ix + 1) (with_snapshot ?cm ?lid ?a ?lid lm))"
    using lm_wf_reset [OF wf, of ?lid ?a ?cm] new w a cm by (simp add: ix_def)
  show "lm_wf lm'"
    unfolding lm'
    by (cases "t = 0"; cases "t = sm_last_included_term meta"; cases "lid_index ?lb > 0") (use 1 2 3 4 in simp_all)
  show "lm_last_snapshot_id lm' = ?lid"
    unfolding lm' by (simp add: lm_truncate_prefix_def lm_reset_def with_snapshot_def)
  show "t = 0 \<Longrightarrow> lm_first lm' = ix + 1 \<and> lm_last lm' = max ix (lm_last lm)"
    unfolding lm' by (simp add: lm_truncate_prefix_def with_snapshot_def)
  show "t \<noteq> 0 \<Longrightarrow> t = sm_last_included_term meta \<Longrightarrow> lm_last lm' = lm_last lm
          \<and> lm_first lm' = (if lid_index ?lb > 0 then lid_index ?lb + 1 else lm_first lm)"
    unfolding lm' using w by (simp add: lm_truncate_prefix_def with_snapshot_def)
  show "t \<noteq> 0 \<Longrightarrow> t \<noteq> sm_last_included_term meta \<Longrightarrow> lm_memory lm' = [] \<and> lm_first lm' = ix + 1 \<and> lm_last lm' = ix"
    unfolding lm' by (simp add: lm_reset_def with_snapshot_def)
qed

lemma lm_wf_clear_bufferred:
  assumes wf: "lm_wf lm"
  shows "lm_wf (lm_clear_bufferred_logs lm)"
proof -
  let ?s = "lm_last_snapshot_id lm"
  have "lm_wf (lm_truncate_prefix (lid_index ?s + 1) (with_snapshot (lm_config lm) ?s (lm_applied_id lm) ?s lm))"
    using wf by (intro lm_wf_truncate_prefix) (auto simp: lm_wf_def)
  then show ?thesis
    using wf by (simp add: lm_clear_bufferred_logs_def with_snapshot_def)
qed

end
