(* ===== verification/LogManagerRefine.thy ===== *)
theory LogManagerRefine
  imports LogManagerSafety
begin

section \<open>The log manager implements one log over memory, queue and storage\<close>

text \<open>
  The abstract log is what the storage will hold once the queued tasks have been applied to it.
  \<open>lm_inv\<close> says that the entries in memory are its tail and that every entry no longer in
  memory is settled in the storage; then a read gives the entry of the abstract log. The disk
  thread batches writes, but has the effect of the tasks one by one and runs every closure of the
  batch once, in order. All of it holds for any storage that meets the locale \<open>log_storage\<close>.
\<close>

type_synonym alog = "int \<times> log_entry list"

definition alog_ok :: "alog \<Rightarrow> bool" where
  "alog_ok l \<longleftrightarrow> contig e_index (fst l) (snd l)"

definition alog_last :: "alog \<Rightarrow> int" where
  "alog_last l = fst l + int (length (snd l)) - 1"

fun task_log :: "'d disk_task \<Rightarrow> alog \<Rightarrow> alog" where
  "task_log (DiskEntries d f es) (a, xs) = (a, xs @ es)"
| "task_log (DiskLastLogId c) l = l"
| "task_log (DiskTruncatePrefix k) (a, xs) = (k, dropWhile (\<lambda>e. e_index e < k) xs)"
| "task_log (DiskTruncateSuffix k t) (a, xs) = (min a (k + 1), pop_back_while (\<lambda>e. e_index e > k) xs)"
| "task_log (DiskReset k) l = (k, [])"

text \<open>What a task needs of the log it meets: what the storage's contract asks for.\<close>

fun task_ok :: "(log_entry \<Rightarrow> bool) \<Rightarrow> 'd disk_task \<Rightarrow> alog \<Rightarrow> bool" where
  "task_ok P (DiskEntries d f es) l \<longleftrightarrow> contig e_index (alog_last l + 1) es \<and> (\<forall>e \<in> set es. P e)"
| "task_ok P (DiskLastLogId c) l \<longleftrightarrow> True"
| "task_ok P (DiskTruncatePrefix k) l \<longleftrightarrow> fst l \<le> k"
| "task_ok P (DiskTruncateSuffix k t) l \<longleftrightarrow> fst l \<le> k + 1 \<and> k < alog_last l"
| "task_ok P (DiskReset k) l \<longleftrightarrow> 0 < k"

fun tasks_ok :: "(log_entry \<Rightarrow> bool) \<Rightarrow> 'd disk_task list \<Rightarrow> alog \<Rightarrow> bool" where
  "tasks_ok P [] l \<longleftrightarrow> True"
| "tasks_ok P (t # ts) l \<longleftrightarrow> task_ok P t l \<and> tasks_ok P ts (task_log t l)"

lemma tasks_ok_append:
  "tasks_ok P (ts @ us) l \<longleftrightarrow> tasks_ok P ts l \<and> tasks_ok P us (fold task_log ts l)"
  by (induction P ts l rule: tasks_ok.induct) auto

definition alog_get :: "alog \<Rightarrow> int \<Rightarrow> log_entry option" where
  "alog_get l i = (if fst l \<le> i \<and> i \<le> alog_last l then Some (snd l ! nat (i - fst l)) else None)"

fun task_keeps :: "int \<Rightarrow> 'd disk_task \<Rightarrow> bool" where
  "task_keeps i (DiskTruncatePrefix k) \<longleftrightarrow> k \<le> i"
| "task_keeps i (DiskTruncateSuffix k t) \<longleftrightarrow> i \<le> k"
| "task_keeps i (DiskReset k) \<longleftrightarrow> False"
| "task_keeps i _ \<longleftrightarrow> True"

lemma prefix_drop:
  "alog_ok (a, xs) \<Longrightarrow> dropWhile (\<lambda>e. e_index e < k) xs = drop (nat (k - a)) xs"
  by (simp add: alog_ok_def contig_dropWhile)

lemma suffix_take:
  "alog_ok (a, xs) \<Longrightarrow> pop_back_while (\<lambda>e. e_index e > k) xs = take (nat (k + 1 - a)) xs"
  by (simp add: alog_ok_def contig_pop_back_while)

lemma task_log_ok:
  assumes "alog_ok l" and "task_ok P t l"
  shows "alog_ok (task_log t l)"
proof (cases l)
  case (Pair a xs)
  show ?thesis
  proof (cases t)
    case (DiskEntries d f es)
    then show ?thesis
      using assms Pair by (simp add: alog_ok_def contig_append alog_last_def)
  next
    case (DiskTruncatePrefix k)
    have "contig e_index k (drop (nat (k - a)) xs)"
    proof (cases "nat (k - a) \<le> length xs")
      case True
      with assms Pair DiskTruncatePrefix show ?thesis
        using contig_drop [of e_index a xs "nat (k - a)"] by (simp add: alog_ok_def)
    qed simp
    with DiskTruncatePrefix Pair assms prefix_drop [of a xs k] show ?thesis
      by (simp add: alog_ok_def)
  next
    case (DiskTruncateSuffix k u)
    have "contig e_index (min a (k + 1)) (take (nat (k + 1 - a)) xs)"
      using assms Pair by (cases "k + 1 < a") (simp_all add: alog_ok_def contig_take)
    with DiskTruncateSuffix Pair assms suffix_take [of a xs k] show ?thesis
      by (simp add: alog_ok_def)
  qed (use assms Pair in \<open>simp_all add: alog_ok_def\<close>)
qed

lemma tasks_log_ok: "alog_ok l \<Longrightarrow> tasks_ok P ts l \<Longrightarrow> alog_ok (fold task_log ts l)"
  by (induction P ts l rule: tasks_ok.induct) (auto simp: task_log_ok)

lemma task_log_last:
  assumes "alog_ok l" and "task_ok P t l"
  shows "alog_last (task_log t l) = (case t of
      DiskEntries d f es \<Rightarrow> alog_last l + int (length es) | DiskLastLogId c \<Rightarrow> alog_last l
    | DiskTruncatePrefix k \<Rightarrow> max (alog_last l) (k - 1) | DiskTruncateSuffix k u \<Rightarrow> k | DiskReset k \<Rightarrow> k - 1)"
proof (cases l)
  case (Pair a xs)
  with assms show ?thesis
    using prefix_drop [of a xs] suffix_take [of a xs]
    by (cases t) (auto simp: alog_last_def max_def min_def)
qed

lemma task_log_get:
  assumes ok: "alog_ok l" "task_ok P t l" and k: "task_keeps i t" and g: "alog_get l i = Some e"
  shows "alog_get (task_log t l) i = Some e"
proof (cases l)
  case (Pair a xs)
  have i: "a \<le> i" "i \<le> alog_last l" "xs ! nat (i - a) = e"
    using g Pair by (auto simp: alog_get_def split: if_splits)
  then have n: "nat (i - a) < length xs"
    using Pair by (simp add: alog_last_def)
  note last = task_log_last [OF ok]
  show ?thesis
  proof (cases t)
    case (DiskTruncatePrefix m)
    have "nat (m - a) + nat (i - m) = nat (i - a)"
      using k DiskTruncatePrefix ok(2) Pair by simp
    then have "drop (nat (m - a)) xs ! nat (i - m) = xs ! nat (i - a)"
      using n by (subst nth_drop) simp_all
    with i k last DiskTruncatePrefix Pair ok(1) prefix_drop [of a xs m] show ?thesis
      by (simp add: alog_get_def)
  next
    case (DiskTruncateSuffix m u)
    with i k last Pair ok(1) suffix_take [of a xs m] show ?thesis
      by (simp add: alog_get_def)
  qed (use i k n g last Pair in \<open>auto simp: alog_get_def nth_append\<close>)
qed

lemma tasks_log_get:
  "alog_ok l \<Longrightarrow> tasks_ok P ts l \<Longrightarrow> \<forall>t \<in> set ts. task_keeps i t \<Longrightarrow> alog_get l i = Some e
   \<Longrightarrow> alog_get (fold task_log ts l) i = Some e"
  by (induction P ts l rule: tasks_ok.induct) (auto simp: task_log_ok task_log_get)

text \<open>The closures a task list runs when nothing fails.\<close>

fun is_last_log_id :: "('d, 'w) lm_event \<Rightarrow> bool" where
  "is_last_log_id (LmLastLogId c l) = True"
| "is_last_log_id _ = False"

fun task_runs :: "'d disk_task \<Rightarrow> ('d, 'w) lm_event list" where
  "task_runs (DiskEntries d f es) = [LmRun d f StatusOK]"
| "task_runs _ = []"

definition no_runs :: "('d, 'w) lm_event list \<Rightarrow> ('d, 'w) lm_event list" where
  "no_runs ev = filter (\<lambda>e. \<not> is_last_log_id e) ev"

lemma no_runs_append [simp]: "no_runs (a @ b) = no_runs a @ no_runs b"
  by (simp add: no_runs_def)

lemma no_runs_run [simp]: "no_runs [LmRun d f st] = [LmRun d f st]"
  by (simp add: no_runs_def)

lemma no_runs_map [simp]: "no_runs (map (\<lambda>(d, f). LmRun d f st) xs) = map (\<lambda>(d, f). LmRun d f st) xs"
  by (auto simp: no_runs_def filter_id_conv)

subsection \<open>The abstract log of a manager\<close>

definition lm_log :: "'s log_storage_ops \<Rightarrow> ('s \<Rightarrow> log_entry list) \<Rightarrow> ('s, 'd, 'w) log_manager \<Rightarrow> alog" where
  "lm_log S entries lm = fold task_log (lm_disk_queue lm) (ls_first S (lm_storage lm), entries (lm_storage lm))"

definition settled :: "'s log_storage_ops \<Rightarrow> int \<Rightarrow> ('s, 'd, 'w) log_manager \<Rightarrow> bool" where
  "settled S i lm \<longleftrightarrow> ls_get_entry S i (lm_storage lm) \<noteq> None \<and> (\<forall>t \<in> set (lm_disk_queue lm). task_keeps i t)"

definition lm_inv ::
  "'s log_storage_ops \<Rightarrow> (log_entry \<Rightarrow> bool) \<Rightarrow> ('s \<Rightarrow> bool) \<Rightarrow> ('s \<Rightarrow> log_entry list) \<Rightarrow> ('s, 'd, 'w) log_manager \<Rightarrow> bool" where
  "lm_inv S P valid entries lm \<longleftrightarrow>
     lm_wf lm \<and> valid (lm_storage lm) \<and> \<not> lm_has_error lm
     \<and> tasks_ok P (lm_disk_queue lm) (ls_first S (lm_storage lm), entries (lm_storage lm))
     \<and> fst (lm_log S entries lm) = lm_first lm \<and> alog_last (lm_log S entries lm) = lm_last lm
     \<and> suffix (lm_memory lm) (snd (lm_log S entries lm))
     \<and> (\<forall>i. lm_first lm \<le> i \<and> i \<le> lm_last lm - int (length (lm_memory lm)) \<longrightarrow> settled S i lm)"

context log_storage
begin

definition sto :: "'s \<Rightarrow> alog" where
  "sto s = (ls_first S s, entries s)"

lemma sto_last: "valid s \<Longrightarrow> alog_last (sto s) = ls_last S s"
  by (simp add: alog_last_def sto_def ls_last_eq)

text \<open>Flushing writes what was batched and runs the closures batched.\<close>

definition ab_ok :: "'d append_batcher \<Rightarrow> 's \<Rightarrow> bool" where
  "ab_ok ab s \<longleftrightarrow> valid s \<and> contig e_index (ls_last S s + 1) (ab_to_append ab)
     \<and> (\<forall>e \<in> set (ab_to_append ab). entry_ok e)
     \<and> (ab_storage ab = [] \<longrightarrow> ab_to_append ab = [])"

lemma ab_flush_spec:
  assumes ok: "ab_ok ab (lm_storage lm)" and err: "\<not> lm_has_error lm"
    and fl: "ab_flush S ab lid lm = (ab', lid', lm', ev)"
  shows "\<exists>s. lm' = lm\<lparr>lm_storage := s\<rparr> \<and> ab_ok ab' s \<and> ab_storage ab' = [] \<and> ab_to_append ab' = []
     \<and> sto s = (fst (sto (lm_storage lm)), snd (sto (lm_storage lm)) @ ab_to_append ab)
     \<and> ev = map (\<lambda>(d, f). LmRun d f StatusOK) (ab_storage ab)"
proof (cases "ab_storage ab = []")
  case True
  with ok fl show ?thesis
    by (intro exI [of _ "lm_storage lm"]) (auto simp: ab_flush_def ab_ok_def sto_def)
next
  case False
  let ?s = "lm_storage lm" and ?es = "ab_to_append ab"
  obtain n s' where app: "ls_append_entries S ?es ?s = (n, s')" by fastforce
  from ok have v: "valid ?s" "contig e_index (ls_last S ?s + 1) ?es" "\<forall>e \<in> set ?es. entry_ok e"
    by (auto simp: ab_ok_def)
  note post = ls_append_last [OF v app]
  have "ab' = ab_new" and "lm' = lm\<lparr>lm_storage := s'\<rparr>"
    and "ev = map (\<lambda>(d, f). LmRun d f StatusOK) (ab_storage ab)"
    using fl app post err False
    by (auto simp: ab_flush_def lm_append_to_storage_def Let_def split: prod.splits)
  with post show ?thesis
    by (intro exI [of _ s']) (auto simp: ab_ok_def ab_new_def sto_def)
qed

lemma ab_append_spec:
  assumes ok: "ab_ok ab (lm_storage lm)" and err: "\<not> lm_has_error lm"
    and c: "contig e_index (ls_last S (lm_storage lm) + int (length (ab_to_append ab)) + 1) es" "\<forall>e \<in> set es. entry_ok e"
    and ap: "ab_append S n d f es ab lid lm = (ab', lid', lm', ev)"
  shows "\<exists>s. lm' = lm\<lparr>lm_storage := s\<rparr> \<and> ab_ok ab' s
     \<and> fst (sto s) = fst (sto (lm_storage lm))
     \<and> snd (sto s) @ ab_to_append ab' = snd (sto (lm_storage lm)) @ ab_to_append ab @ es
     \<and> ev @ map (\<lambda>(d, f). LmRun d f StatusOK) (ab_storage ab')
         = map (\<lambda>(d, f). LmRun d f StatusOK) (ab_storage ab) @ [LmRun d f StatusOK]"
proof (cases "length (ab_storage ab) = 256 \<or> ab_buffer_size ab \<ge> n")
  case True
  obtain ab1 lid1 lm1 ev1 where fl: "ab_flush S ab lid lm = (ab1, lid1, lm1, ev1)"
    by (metis prod_cases4)
  obtain s where s: "lm1 = lm\<lparr>lm_storage := s\<rparr>" "ab_ok ab1 s" "ab_storage ab1 = []" "ab_to_append ab1 = []"
    "sto s = (fst (sto (lm_storage lm)), snd (sto (lm_storage lm)) @ ab_to_append ab)"
    "ev1 = map (\<lambda>(d, f). LmRun d f StatusOK) (ab_storage ab)"
    using ab_flush_spec [OF ok err fl] by blast
  have v: "valid (lm_storage lm)" "valid s"
    using ok s(2) by (auto simp: ab_ok_def)
  have "ls_last S s = ls_last S (lm_storage lm) + int (length (ab_to_append ab))"
    using s(5) by (simp add: ls_last_eq v sto_def)
  then show ?thesis
    using True ap fl s v c
    by (intro exI [of _ s]) (auto simp: ab_append_def ab_ok_def Let_def)
next
  case False
  with ap ok c show ?thesis
    by (intro exI [of _ "lm_storage lm"])
      (auto simp: ab_append_def ab_ok_def Let_def contig_append algebra_simps)
qed

lemma other_task_spec:
  assumes v: "valid (lm_storage lm)" and ok: "task_ok entry_ok t (sto (lm_storage lm))"
    and ot: "lm_other_task S t lid lm = (lid', lm', ev)"
    and no: "\<And>d f es. t = DiskEntries d f es \<Longrightarrow> es = []"
  shows "\<exists>s. lm' = lm\<lparr>lm_storage := s\<rparr> \<and> valid s \<and> sto s = task_log t (sto (lm_storage lm))
     \<and> no_runs ev = task_runs t"
proof (cases t)
  case (DiskTruncatePrefix k)
  with ok v ls_prefix [OF v, of k] ot show ?thesis
    by (auto simp: lm_storage_op_def sto_def no_runs_def)
next
  case (DiskTruncateSuffix k u)
  with ok v sto_last [OF v] ls_suffix [OF v, of k] ot show ?thesis
    by (auto simp: lm_storage_op_def sto_def no_runs_def)
next
  case (DiskReset k)
  with ok ls_reset [OF v, of k] ot show ?thesis
    by (auto simp: lm_storage_op_def sto_def no_runs_def)
qed (use ot v no in \<open>auto simp: sto_def no_runs_def intro!: exI [of _ "lm_storage lm"]\<close>)

lemma disk_task_spec:
  assumes ok: "ab_ok ab (lm_storage lm)" and err: "\<not> lm_has_error lm"
    and t: "task_ok entry_ok t (fst (sto (lm_storage lm)), snd (sto (lm_storage lm)) @ ab_to_append ab)"
    and dt: "lm_disk_task S n t ab lid lm = (ab', lid', lm', ev)"
  shows "\<exists>s. lm' = lm\<lparr>lm_storage := s\<rparr> \<and> ab_ok ab' s
     \<and> (fst (sto s), snd (sto s) @ ab_to_append ab')
         = task_log t (fst (sto (lm_storage lm)), snd (sto (lm_storage lm)) @ ab_to_append ab)
     \<and> no_runs ev @ map (\<lambda>(d, f). LmRun d f StatusOK) (ab_storage ab')
         = map (\<lambda>(d, f). LmRun d f StatusOK) (ab_storage ab) @ task_runs t"
proof (cases "\<exists>d f e es. t = DiskEntries d f (e # es)")
  case True
  then obtain d f es where te: "t = DiskEntries d f es" and ap: "ab_append S n d f es ab lid lm = (ab', lid', lm', ev)"
    using dt by (auto simp: lm_disk_task_def)
  have v: "valid (lm_storage lm)" using ok by (simp add: ab_ok_def)
  have "contig e_index (ls_last S (lm_storage lm) + int (length (ab_to_append ab)) + 1) es" "\<forall>e \<in> set es. entry_ok e"
    using t te sto_last [OF v] by (simp_all add: alog_last_def algebra_simps)
  from ab_append_spec [OF ok err this ap] obtain s where s: "lm' = lm\<lparr>lm_storage := s\<rparr>" "ab_ok ab' s"
    "fst (sto s) = fst (sto (lm_storage lm))"
    "snd (sto s) @ ab_to_append ab' = snd (sto (lm_storage lm)) @ ab_to_append ab @ es"
    "ev @ map (\<lambda>(d, f). LmRun d f StatusOK) (ab_storage ab')
         = map (\<lambda>(d, f). LmRun d f StatusOK) (ab_storage ab) @ [LmRun d f StatusOK]"
    by blast
  from arg_cong [OF s(5), of no_runs] have
    "no_runs ev @ map (\<lambda>(d, f). LmRun d f StatusOK) (ab_storage ab')
       = map (\<lambda>(d, f). LmRun d f StatusOK) (ab_storage ab) @ [LmRun d f StatusOK]"
    by simp
  with s te show ?thesis by (intro exI [of _ s]) simp
next
  case False
  obtain ab1 lid1 lm1 ev1 where fl: "ab_flush S ab lid lm = (ab1, lid1, lm1, ev1)"
    by (metis prod_cases4)
  obtain lid2 lm2 ev2 where ot: "lm_other_task S t lid1 lm1 = (lid2, lm2, ev2)"
    by (metis prod_cases3)
  have r: "ab' = ab1" "lm' = lm2" "ev = ev1 @ ev2"
    using dt False fl ot by (auto simp: lm_disk_task_def split: disk_task.splits list.splits)
  obtain s where s: "lm1 = lm\<lparr>lm_storage := s\<rparr>" "ab_ok ab1 s" "ab_storage ab1 = []" "ab_to_append ab1 = []"
    "sto s = (fst (sto (lm_storage lm)), snd (sto (lm_storage lm)) @ ab_to_append ab)"
    "ev1 = map (\<lambda>(d, f). LmRun d f StatusOK) (ab_storage ab)"
    using ab_flush_spec [OF ok err fl] by blast
  have v: "valid (lm_storage lm1)" using s by (simp add: ab_ok_def)
  have tk: "task_ok entry_ok t (sto (lm_storage lm1))" using t s by simp
  have ne: "es = []" if "t = DiskEntries d f es" for d f es
    using False that by (cases es) auto
  obtain s2 where s2: "lm2 = lm1\<lparr>lm_storage := s2\<rparr>" "valid s2" "sto s2 = task_log t (sto (lm_storage lm1))"
    "no_runs ev2 = task_runs t"
    using other_task_spec [OF v tk ot] ne by metis
  with s r show ?thesis
    by (intro exI [of _ s2]) (auto simp: ab_ok_def)
qed

lemma disk_loop_spec:
  assumes "ab_ok ab (lm_storage lm)" and "\<not> lm_has_error lm"
    and "tasks_ok entry_ok ts (fst (sto (lm_storage lm)), snd (sto (lm_storage lm)) @ ab_to_append ab)"
    and "lm_disk_loop S n ts ab lid lm = (lid', lm', ev)"
  shows "\<exists>s. lm' = lm\<lparr>lm_storage := s\<rparr> \<and> valid s
     \<and> sto s = fold task_log ts (fst (sto (lm_storage lm)), snd (sto (lm_storage lm)) @ ab_to_append ab)
     \<and> no_runs ev = map (\<lambda>(d, f). LmRun d f StatusOK) (ab_storage ab) @ concat (map task_runs ts)"
  using assms
proof (induction ts arbitrary: ab lid lm lid' lm' ev)
  case Nil
  then obtain ab1 where "ab_flush S ab lid lm = (ab1, lid', lm', ev)"
    by (auto split: prod.splits)
  from ab_flush_spec [OF Nil.prems(1,2) this] show ?case
    by (fastforce simp: ab_ok_def)
next
  case (Cons t ts)
  obtain ab1 lid1 lm1 ev1 where dt: "lm_disk_task S n t ab lid lm = (ab1, lid1, lm1, ev1)"
    by (metis prod_cases4)
  obtain lid2 lm2 ev2 where lp: "lm_disk_loop S n ts ab1 lid1 lm1 = (lid2, lm2, ev2)"
    by (metis prod_cases3)
  have r: "lm' = lm2" "ev = ev1 @ ev2" using Cons.prems(4) dt lp by auto
  obtain s where s: "lm1 = lm\<lparr>lm_storage := s\<rparr>" "ab_ok ab1 s"
    "(fst (sto s), snd (sto s) @ ab_to_append ab1)
         = task_log t (fst (sto (lm_storage lm)), snd (sto (lm_storage lm)) @ ab_to_append ab)"
    "no_runs ev1 @ map (\<lambda>(d, f). LmRun d f StatusOK) (ab_storage ab1)
         = map (\<lambda>(d, f). LmRun d f StatusOK) (ab_storage ab) @ task_runs t"
    using disk_task_spec [OF Cons.prems(1,2) _ dt] Cons.prems(3) by auto
  have "\<exists>s2. lm2 = lm1\<lparr>lm_storage := s2\<rparr> \<and> valid s2
     \<and> sto s2 = fold task_log ts (fst (sto (lm_storage lm1)), snd (sto (lm_storage lm1)) @ ab_to_append ab1)
     \<and> no_runs ev2 = map (\<lambda>(d, f). LmRun d f StatusOK) (ab_storage ab1) @ concat (map task_runs ts)"
    using s Cons.prems(2,3) by (intro Cons.IH [OF _ _ _ lp]) simp_all
  then obtain s2 where s2: "lm2 = lm1\<lparr>lm_storage := s2\<rparr>" "valid s2"
    "sto s2 = fold task_log ts (fst (sto s), snd (sto s) @ ab_to_append ab1)"
    "no_runs ev2 = map (\<lambda>(d, f). LmRun d f StatusOK) (ab_storage ab1) @ concat (map task_runs ts)"
    using s(1) by auto
  have "no_runs ev = map (\<lambda>(d, f). LmRun d f StatusOK) (ab_storage ab) @ concat (map task_runs (t # ts))"
    unfolding r(2) no_runs_append s2(4) using s(4) by simp
  moreover have "lm' = lm\<lparr>lm_storage := s2\<rparr>"
    using r(1) s(1) s2(1) by simp
  moreover have "sto s2 = fold task_log (t # ts) (fst (sto (lm_storage lm)), snd (sto (lm_storage lm)) @ ab_to_append ab)"
    unfolding s2(3) s(3) by simp
  ultimately show ?case
    using s2(2) by blast
qed

lemma storage_get: "valid s \<Longrightarrow> ls_get_entry S i s = alog_get (sto s) i"
  by (simp add: ls_entry alog_get_def sto_last) (simp add: sto_def)

lemma sto_ok: "valid s \<Longrightarrow> alog_ok (sto s)"
  by (simp add: alog_ok_def sto_def ls_contig)

lemma lm_log_ok:
  assumes "lm_inv S entry_ok valid entries lm"
  shows "alog_ok (lm_log S entries lm)"
  using assms tasks_log_ok [OF sto_ok] by (auto simp: lm_inv_def lm_log_def sto_def)

lemma settled_get:
  assumes inv: "lm_inv S entry_ok valid entries lm" and st: "settled S i lm"
  shows "ls_get_entry S i (lm_storage lm) = alog_get (lm_log S entries lm) i"
proof -
  have v: "valid (lm_storage lm)" using inv by (simp add: lm_inv_def)
  obtain e where e: "ls_get_entry S i (lm_storage lm) = Some e"
    using st by (auto simp: settled_def)
  have "alog_get (fold task_log (lm_disk_queue lm) (sto (lm_storage lm))) i = Some e"
    using inv st e storage_get [OF v] by (intro tasks_log_get sto_ok v) (auto simp: lm_inv_def settled_def sto_def)
  with e show ?thesis by (simp add: lm_log_def sto_def)
qed

lemma memory_get:
  assumes inv: "lm_inv S entry_ok valid entries lm"
    and i: "lm_last lm - int (length (lm_memory lm)) < i" "i \<le> lm_last lm"
  shows "lm_get_entry_from_memory i lm = alog_get (lm_log S entries lm) i"
proof -
  obtain ys where ys: "snd (lm_log S entries lm) = ys @ lm_memory lm"
    using inv by (auto simp: lm_inv_def suffix_def)
  have r: "runs_to e_index (lm_last lm) (lm_memory lm)" and f: "fst (lm_log S entries lm) = lm_first lm"
    and l: "alog_last (lm_log S entries lm) = lm_last lm"
    using inv by (auto simp: lm_inv_def lm_wf_def)
  have len: "lm_last lm + 1 - int (length (lm_memory lm)) = lm_first lm + int (length ys)"
    using l f ys by (simp add: alog_last_def)
  then have "nat (i - lm_first lm) = length ys + nat (i - (lm_first lm + int (length ys)))" and "lm_first lm \<le> i"
    using i by linarith+
  then show ?thesis
    using i unfolding memory_lookup [OF r] alog_get_def f l len ys by simp
qed

text \<open>Reading an entry gives the entry of the abstract log, and never an error.\<close>

lemma get_entry_refines:
  assumes inv: "lm_inv S entry_ok valid entries lm"
  shows "lm_get_entry S i lm = (alog_get (lm_log S entries lm) i, lm, [])"
proof (cases "lm_first lm \<le> i \<and> i \<le> lm_last lm")
  case False
  with inv show ?thesis
    by (auto simp: lm_get_entry_def alog_get_def lm_inv_def)
next
  case True
  then have some: "alog_get (lm_log S entries lm) i \<noteq> None"
    using inv by (simp add: alog_get_def lm_inv_def)
  have r: "runs_to e_index (lm_last lm) (lm_memory lm)"
    using inv by (simp add: lm_inv_def lm_wf_def)
  show ?thesis
  proof (cases "lm_last lm - int (length (lm_memory lm)) < i")
    case mem: True
    with True some memory_get [OF inv] show ?thesis
      by (auto simp: lm_get_entry_def)
  next
    case mem: False
    then have "lm_get_entry_from_memory i lm = None"
      by (simp add: memory_lookup [OF r])
    moreover have "settled S i lm"
      using inv True mem by (simp add: lm_inv_def)
    ultimately show ?thesis
      using True some settled_get [OF inv] by (auto simp: lm_get_entry_def)
  qed
qed

lemma get_term_refines:
  assumes inv: "lm_inv S entry_ok valid entries lm" and i: "lid_index (lm_last_snapshot_id lm) < i"
  shows "lm_unsafe_get_term S i lm = (case alog_get (lm_log S entries lm) i of None \<Rightarrow> 0 | Some e \<Rightarrow> e_term e)"
proof (cases "lm_first lm \<le> i \<and> i \<le> lm_last lm")
  case False
  with inv i show ?thesis
    by (auto simp: lm_unsafe_get_term_def alog_get_def lm_inv_def lm_wf_def)
next
  case True
  have w: "lid_index (lm_virtual_first lm) < i" "0 < i" "valid (lm_storage lm)"
    using inv i by (auto simp: lm_inv_def lm_wf_def)
  from get_entry_refines [OF inv, of i] True
  have "(case lm_get_entry_from_memory i lm of Some e \<Rightarrow> Some e | None \<Rightarrow> ls_get_entry S i (lm_storage lm))
      = alog_get (lm_log S entries lm) i"
    by (auto simp: lm_get_entry_def split: option.splits prod.splits)
  with True i w show ?thesis
    by (auto simp: lm_unsafe_get_term_def ls_term split: option.splits)
qed

text \<open>
  An operation that changes the memory and adds a task keeps the invariant when the new memory is a
  tail of the new log and what leaves the memory is settled.
\<close>

lemma lm_inv_task:
  assumes inv: "lm_inv S entry_ok valid entries lm" and wf: "lm_wf lm'"
    and same: "lm_storage lm' = lm_storage lm" "lm_has_error lm' = lm_has_error lm"
    and q: "lm_disk_queue lm' = lm_disk_queue lm @ [t]" and ok: "task_ok entry_ok t (lm_log S entries lm)"
    and first: "fst (task_log t (lm_log S entries lm)) = lm_first lm'"
    and last: "alog_last (task_log t (lm_log S entries lm)) = lm_last lm'"
    and mem: "suffix (lm_memory lm') (snd (task_log t (lm_log S entries lm)))"
    and keep: "\<And>i. lm_first lm' \<le> i \<Longrightarrow> i \<le> lm_last lm' - int (length (lm_memory lm'))
      \<Longrightarrow> lm_first lm \<le> i \<and> i \<le> lm_last lm - int (length (lm_memory lm)) \<and> task_keeps i t"
  shows "lm_inv S entry_ok valid entries lm'" and "lm_log S entries lm' = task_log t (lm_log S entries lm)"
proof -
  show log: "lm_log S entries lm' = task_log t (lm_log S entries lm)"
    by (simp add: lm_log_def same q)
  have "settled S i lm'" if "lm_first lm' \<le> i" "i \<le> lm_last lm' - int (length (lm_memory lm'))" for i
    using inv keep [OF that] by (auto simp: lm_inv_def settled_def same q)
  with inv show "lm_inv S entry_ok valid entries lm'"
    unfolding lm_inv_def log using wf ok first last mem
    by (auto simp: same q tasks_ok_append) (simp add: lm_log_def)
qed

lemma lm_inv_wakeup:
  assumes "lm_inv S entry_ok valid entries lm"
  shows "lm_inv S entry_ok valid entries (fst (lm_wakeup_all_waiter lm))"
    and "lm_log S entries (fst (lm_wakeup_all_waiter lm)) = lm_log S entries lm"
  using assms lm_wf_wakeup [of lm] by (simp_all add: lm_inv_def lm_log_def settled_def)

lemma lm_inv_appended:
  assumes inv: "lm_inv S entry_ok valid entries lm" and c: "contig e_index (lm_last lm + 1) es" "\<forall>e \<in> set es. entry_ok e"
  shows "lm_inv S entry_ok valid entries (appended es d lm)"
    and "lm_log S entries (appended es d lm) = (lm_first lm, snd (lm_log S entries lm) @ es)"
proof -
  let ?l = "lm_log S entries lm" and ?t = "DiskEntries d (if es = [] then 0 else e_index (hd es)) es"
  have w: "lm_wf lm" "fst ?l = lm_first lm" "alog_last ?l = lm_last lm" "suffix (lm_memory lm) (snd ?l)"
    using inv by (simp_all add: lm_inv_def)
  have tl: "task_log ?t ?l = (lm_first lm, snd ?l @ es)"
    using w(2) by (cases ?l) simp
  have 1: "alog_last (lm_first lm, snd ?l @ es) = lm_last lm + int (length es)"
    using w(2,3) by (simp add: alog_last_def)
  have 2: "suffix (lm_memory lm @ es) (snd ?l @ es)"
    using w(4) by (auto simp: suffix_def)
  show "lm_inv S entry_ok valid entries (appended es d lm)"
    using c 1 2 w by (intro lm_inv_task (1) [OF inv, where t = ?t] lm_wf_appended) (simp_all add: tl del: task_log.simps)
  show "lm_log S entries (appended es d lm) = (lm_first lm, snd ?l @ es)"
    using tl by (simp add: lm_log_def)
qed

lemma lm_inv_truncate_suffix:
  assumes inv: "lm_inv S entry_ok valid entries lm" and k: "lid_index (lm_applied_id lm) \<le> k" "k < lm_last lm"
  shows "lm_inv S entry_ok valid entries (lm_unsafe_truncate_suffix S k lm)"
    and "lm_log S entries (lm_unsafe_truncate_suffix S k lm)
           = (lm_first lm, take (nat (k + 1 - lm_first lm)) (snd (lm_log S entries lm)))"
proof -
  let ?l = "lm_log S entries lm" and ?lm' = "lm_unsafe_truncate_suffix S k lm"
  have w: "lm_wf lm" "fst ?l = lm_first lm" "alog_last ?l = lm_last lm" "suffix (lm_memory lm) (snd ?l)"
    using inv by (simp_all add: lm_inv_def)
  have f: "lm_first lm \<le> k + 1"
    using w(1) k by (simp add: lm_wf_def)
  have k': "k \<le> lm_last lm"
    using k(2) by simp
  note fld = lm_truncate_suffix_fields [OF k(1), of S]
  obtain t where q: "lm_disk_queue ?lm' = lm_disk_queue lm @ [DiskTruncateSuffix k t]"
    using fld(13) by blast
  let ?t = "DiskTruncateSuffix k t :: 'd disk_task"
  have ok: "alog_ok ?l" by (rule lm_log_ok [OF inv])
  have tl: "task_log ?t ?l = (lm_first lm, take (nat (k + 1 - lm_first lm)) (snd ?l))"
    using w(2) f ok suffix_take [of "lm_first lm" "snd ?l" k] by (cases ?l) simp
  obtain ys where ys: "snd ?l = ys @ lm_memory lm" using w(4) by (auto simp: suffix_def)
  have len: "lm_last lm + 1 = lm_first lm + int (length ys) + int (length (lm_memory lm))"
    using w(2,3) ys by (simp add: alog_last_def)
  have pm: "pop_back_while (\<lambda>e. e_index e > k) (lm_memory lm)
      = take (nat (k + 1 - lm_first lm) - length ys) (lm_memory lm)"
  proof -
    have "pop_back_while (\<lambda>e. e_index e > k) (lm_memory lm)
        = take (nat (k + 1 - (lm_last lm + 1 - int (length (lm_memory lm))))) (lm_memory lm)"
      using w(1) by (intro contig_pop_back_while) (simp add: lm_wf_def runs_to_def)
    also have "nat (k + 1 - (lm_last lm + 1 - int (length (lm_memory lm)))) = nat (k + 1 - lm_first lm) - length ys"
      using len by linarith
    finally show ?thesis .
  qed
  have sfx: "suffix (lm_memory ?lm') (take (nat (k + 1 - lm_first lm)) (snd ?l))"
    unfolding fld(3) pm ys by (simp add: suffix_def)
  have lst: "alog_last (lm_first lm, take (nat (k + 1 - lm_first lm)) (snd ?l)) = k"
    using f k(2) len by (simp add: alog_last_def ys)
  have keep: "i \<le> lm_last lm - int (length (lm_memory lm)) \<and> i \<le> k"
    if "i \<le> k - int (length (lm_memory ?lm'))" for i
    using that len k(2) f unfolding fld(3) pm by (auto simp: min_def split: if_splits)
  have step: "lm_inv S entry_ok valid entries ?lm'" "lm_log S entries ?lm' = task_log ?t ?l"
    using lm_inv_task [OF inv lm_wf_truncate_suffix [OF w(1) k(1) k'] fld(8,9) q] w(2,3) f k(2) lst sfx keep
    by (simp_all add: tl fld(1,2) del: task_log.simps)
  from step(1) show "lm_inv S entry_ok valid entries ?lm'" .
  from step(2) tl show "lm_log S entries ?lm' = (lm_first lm, take (nat (k + 1 - lm_first lm)) (snd ?l))"
    by (rule trans)
qed

lemma append_follower_refines:
  assumes inv: "lm_inv S entry_ok valid entries lm" and pre: "append_pre S es lm" "\<forall>e \<in> set es. entry_ok e"
    and app: "lm_append_entries S es d lm = (lm', ev)"
  shows "lm_inv S entry_ok valid entries lm' \<and> (\<exists>m \<le> length es.
     (\<forall>j < m. lm_unsafe_get_term S (e_index (es ! j)) lm = e_term (es ! j))
     \<and> (m < length es \<longrightarrow> lm_unsafe_get_term S (e_index (es ! m)) lm \<noteq> e_term (es ! m))
     \<and> lm_log S entries lm' =
         (if m = length es then lm_log S entries lm
          else (lm_first lm, take (nat (e_index (hd es) + int m - lm_first lm)) (snd (lm_log S entries lm)) @ drop m es)))"
proof -
  have w: "lm_wf lm" "\<not> lm_has_error lm" "fst (lm_log S entries lm) = lm_first lm"
    "alog_last (lm_log S entries lm) = lm_last lm"
    using inv by (simp_all add: lm_inv_def)
  obtain m lm0 where m: "lm_append_entries S es d lm = lm_wakeup_all_waiter (appended (drop m es) d lm0)"
    "m \<le> length es" "\<forall>j < m. lm_unsafe_get_term S (e_index (es ! j)) lm = e_term (es ! j)"
    "contig e_index (lm_last lm0 + 1) (drop m es)"
    and lm0: "lm0 = lm \<or> lm0 = lm_unsafe_truncate_suffix S (lm_last lm0) lm \<and> lm_last lm0 < lm_last lm
                 \<and> lid_index (lm_applied_id lm) \<le> lm_last lm0"
    and nil: "drop m es = [] \<Longrightarrow> lm0 = lm"
    and ne: "drop m es \<noteq> [] \<Longrightarrow> lm_last lm0 = e_index (hd es) + int m - 1
        \<and> lm_unsafe_get_term S (e_index (hd (drop m es))) lm \<noteq> e_term (hd (drop m es))"
    by (rule append_shape [OF w(1,2) pre(1)]) blast
  have 0: "lm_inv S entry_ok valid entries lm0 \<and> lm_log S entries lm0
      = (lm_first lm, take (nat (lm_last lm0 + 1 - lm_first lm)) (snd (lm_log S entries lm)))"
  proof (cases "lm0 = lm")
    case True
    with inv w(3,4) show ?thesis
      by (cases "lm_log S entries lm") (simp add: alog_last_def)
  next
    case False
    with lm0 lm_inv_truncate_suffix [OF inv, of "lm_last lm0"] show ?thesis by auto
  qed
  have "fst (lm_log S entries lm0) = lm_first lm0"
    using conjunct1 [OF 0] by (simp add: lm_inv_def)
  with 0 have fst0: "lm_first lm0 = lm_first lm"
    by simp
  have "\<forall>e \<in> set (drop m es). entry_ok e"
    using pre(2) by (meson in_set_dropD)
  note ap = lm_inv_appended [OF conjunct1 [OF 0] m(4) this, of d]
  note wk = lm_inv_wakeup [OF ap(1)]
  have lm': "lm' = fst (lm_wakeup_all_waiter (appended (drop m es) d lm0))"
    using app m(1) by simp
  have "lm_log S entries lm' = (lm_first lm, take (nat (lm_last lm0 + 1 - lm_first lm)) (snd (lm_log S entries lm)) @ drop m es)"
    unfolding lm' wk(2) ap(2) using 0 fst0 by simp
  moreover have "take (nat (lm_last lm0 + 1 - lm_first lm)) (snd (lm_log S entries lm)) = snd (lm_log S entries lm)"
    if "m = length es"
    using that nil w(3,4) by (simp add: alog_last_def)
  moreover have "lm_unsafe_get_term S (e_index (es ! m)) lm \<noteq> e_term (es ! m)" if "m < length es"
    using ne that by (simp add: hd_drop_conv_nth)
  ultimately show ?thesis
    using wk(1) m(2,3) ne w(3) unfolding lm' by (cases "m = length es") (auto intro!: exI [of _ m] prod_eqI)
qed

lemma append_leader_refines:
  assumes inv: "lm_inv S entry_ok valid entries lm" and es: "es \<noteq> []" "e_index (hd es) = 0"
      "\<forall>e \<in> set (assign_indexes (lm_last lm) es). entry_ok e"
    and app: "lm_append_entries S es d lm = (lm', ev)"
  shows "lm_inv S entry_ok valid entries lm' \<and> lm_log S entries lm'
     = (lm_first lm, snd (lm_log S entries lm) @ assign_indexes (lm_last lm) es)"
proof -
  have "\<not> lm_has_error lm" using inv by (simp add: lm_inv_def)
  then have lm': "lm' = fst (lm_wakeup_all_waiter (appended (assign_indexes (lm_last lm) es) d lm))"
    using app append_leader_shape [OF _ es(1,2), of lm S d] by simp
  note ap = lm_inv_appended [OF inv assign_indexes_contig es(3), of d]
  show ?thesis
    unfolding lm' using lm_inv_wakeup [OF ap(1)] ap(2) by simp
qed

subsection \<open>Emptying the memory, the disk thread\<close>

lemma lm_inv_clear:
  assumes inv: "lm_inv S entry_ok valid entries lm" and "\<forall>e \<in> set (lm_memory lm). e_id e \<le> x \<longrightarrow> settled S (e_index e) lm"
  shows "lm_inv S entry_ok valid entries (lm\<lparr>lm_memory := dropWhile (\<lambda>e. e_id e \<le> x) (lm_memory lm)\<rparr>)"
proof -
  let ?m = "lm_memory lm" and ?p = "takeWhile (\<lambda>e. e_id e \<le> x) (lm_memory lm)"
    and ?d = "dropWhile (\<lambda>e. e_id e \<le> x) (lm_memory lm)"
  have wf: "lm_wf lm" and sfx: "suffix ?m (snd (lm_log S entries lm))" using inv by (simp_all add: lm_inv_def)
  have len: "length ?m = length ?p + length ?d"
    by (metis length_append takeWhile_dropWhile_id)
  have st: "settled S i lm" if "lm_first lm \<le> i" "i \<le> lm_last lm - int (length ?d)" for i
  proof (cases "i \<le> lm_last lm - int (length ?m)")
    case True
    with inv that show ?thesis by (simp add: lm_inv_def)
  next
    case False
    define j where "j = nat (i - (lm_last lm + 1 - int (length ?m)))"
    have j: "j < length ?p" using False that len by (simp add: j_def)
    have "contig e_index (lm_last lm + 1 - int (length ?m)) ?m"
      using wf by (simp add: lm_wf_def runs_to_def)
    from contig_nth [OF this, of j] j len False have "e_index (?m ! j) = i"
      by (simp add: j_def)
    moreover have "?m ! j \<in> set ?p"
      using j by (metis nth_mem takeWhile_nth)
    ultimately show ?thesis
      using assms(2) set_takeWhileD [of "?m ! j" _ ?m] by metis
  qed
  have "suffix ?d (snd (lm_log S entries lm))"
    using suffix_dropWhile sfx by (rule suffix_order.trans)
  then show ?thesis
    using inv lm_wf_dropWhile [OF wf] st by (simp add: lm_inv_def lm_log_def settled_def)
qed

lemma lm_inv_set_disk_id:
  assumes inv: "lm_inv S entry_ok valid entries lm"
    and "\<forall>e \<in> set (lm_memory lm). e_id e \<le> min i (lm_applied_id lm) \<longrightarrow> settled S (e_index e) lm"
  shows "lm_inv S entry_ok valid entries (lm_set_disk_id i lm)" and "lm_log S entries (lm_set_disk_id i lm) = lm_log S entries lm"
proof -
  have "lm_inv S entry_ok valid entries (lm\<lparr>lm_disk_id := i\<rparr>)"
    using inv by (simp add: lm_inv_def lm_wf_def lm_log_def settled_def)
  from lm_inv_clear [OF this, of "min i (lm_applied_id lm)"] assms
  show "lm_inv S entry_ok valid entries (lm_set_disk_id i lm)"
    by (simp add: lm_set_disk_id_def lm_clear_memory_logs_eq Let_def settled_def)
  show "lm_log S entries (lm_set_disk_id i lm) = lm_log S entries lm"
    by (simp add: lm_set_disk_id_def lm_clear_memory_logs_eq Let_def lm_log_def)
qed

lemma lm_inv_set_applied_id:
  assumes inv: "lm_inv S entry_ok valid entries lm" and i: "lid_index (lm_applied_id lm) \<le> lid_index i"
    and "\<forall>e \<in> set (lm_memory lm). e_id e \<le> min (lm_disk_id lm) i \<longrightarrow> settled S (e_index e) lm"
  shows "lm_inv S entry_ok valid entries (lm_set_applied_id i lm)"
    and "lm_log S entries (lm_set_applied_id i lm) = lm_log S entries lm"
proof -
  have "lm_inv S entry_ok valid entries (lm\<lparr>lm_applied_id := i\<rparr>)"
    using inv i by (simp add: lm_inv_def lm_wf_def lm_log_def settled_def)
  from lm_inv_clear [OF this, of "min (lm_disk_id lm) i"] assms
  show "lm_inv S entry_ok valid entries (lm_set_applied_id i lm)"
    by (simp add: lm_set_applied_id_def lm_clear_memory_logs_eq Let_def settled_def)
  show "lm_log S entries (lm_set_applied_id i lm) = lm_log S entries lm"
    by (simp add: lm_set_applied_id_def lm_clear_memory_logs_eq Let_def lm_log_def)
qed

lemma disk_thread_refines:
  assumes inv: "lm_inv S entry_ok valid entries lm" and dt: "lm_disk_thread S b n lm = (lm', ev)"
    and all: "length (lm_disk_queue lm) \<le> n"
  shows "lm_inv S entry_ok valid entries lm'" and "lm_log S entries lm' = lm_log S entries lm"
    and "lm_disk_queue lm' = []" and "sto (lm_storage lm') = lm_log S entries lm"
    and "no_runs ev = concat (map task_runs (lm_disk_queue lm))"
proof -
  let ?lm0 = "lm\<lparr>lm_disk_queue := []\<rparr>"
  obtain lid lm1 where lp: "lm_disk_loop S b (lm_disk_queue lm) ab_new (lm_disk_id lm) ?lm0 = (lid, lm1, ev)"
    and lm': "lm' = lm_set_disk_id lid lm1"
    using dt all by (auto simp: lm_disk_thread_def split: prod.splits)
  have v: "valid (lm_storage lm)" "\<not> lm_has_error lm" "lm_wf lm"
    "tasks_ok entry_ok (lm_disk_queue lm) (sto (lm_storage lm))"
    using inv by (simp_all add: lm_inv_def sto_def)
  have "\<exists>s. lm1 = ?lm0\<lparr>lm_storage := s\<rparr> \<and> valid s
     \<and> sto s = fold task_log (lm_disk_queue lm) (fst (sto (lm_storage lm)), snd (sto (lm_storage lm)) @ ab_to_append (ab_new :: 'd append_batcher))
     \<and> no_runs ev = map (\<lambda>(d, f). LmRun d f StatusOK) (ab_storage ab_new) @ concat (map task_runs (lm_disk_queue lm))"
    using disk_loop_spec [OF _ _ _ lp] v by (simp add: ab_ok_def ab_new_def)
  then obtain s where s: "lm1 = ?lm0\<lparr>lm_storage := s\<rparr>" "valid s" "sto s = lm_log S entries lm"
    "no_runs ev = concat (map task_runs (lm_disk_queue lm))"
    by (auto simp: ab_new_def lm_log_def sto_def)
  have log1: "lm_log S entries lm1 = lm_log S entries lm"
    using s by (simp add: lm_log_def sto_def)
  have st: "settled S i lm1" if "lm_first lm \<le> i" "i \<le> lm_last lm" for i
    using that inv s storage_get [OF s(2)] by (auto simp: settled_def lm_inv_def alog_get_def)
  have inv1: "lm_inv S entry_ok valid entries lm1"
    unfolding lm_inv_def log1
    using inv s(1,2) st lm_wf_cong [OF v(3), of lm1] by (auto simp: lm_inv_def)
  have "contig e_index (lm_last lm1 + 1 - int (length (lm_memory lm1))) (lm_memory lm1)"
    "lm_first lm1 + int (length (lm_memory lm1)) \<le> lm_last lm1 + 1"
    using inv1 by (simp_all add: lm_inv_def lm_wf_def runs_to_def)
  then have "\<forall>e \<in> set (lm_memory lm1). settled S (e_index e) lm1"
    using contig_ge [of e_index _ "lm_memory lm1"] contig_less [of e_index _ "lm_memory lm1"] st s(1) by fastforce
  then have clr: "\<forall>e \<in> set (lm_memory lm1). e_id e \<le> min lid (lm_applied_id lm1) \<longrightarrow> settled S (e_index e) lm1"
    by blast
  show "lm_inv S entry_ok valid entries lm'" and "lm_log S entries lm' = lm_log S entries lm"
    unfolding lm' using lm_inv_set_disk_id [OF inv1 clr] log1 by simp_all
  have "lm_disk_queue lm' = lm_disk_queue lm1" "lm_storage lm' = lm_storage lm1"
    unfolding lm' by (simp_all add: lm_set_disk_id_def lm_clear_memory_logs_def Let_def)
  with s show "lm_disk_queue lm' = []" and "sto (lm_storage lm') = lm_log S entries lm"
    by simp_all
  show "no_runs ev = concat (map task_runs (lm_disk_queue lm))"
    by (rule s(4))
qed

subsection \<open>Snapshots\<close>

lemma suffix_dropWhile_split: "\<exists>zs. xs @ m = zs @ dropWhile P m"
  by (rule exI [of _ "xs @ takeWhile P m"]) simp

lemma lm_inv_truncate_prefix:
  assumes inv: "lm_inv S entry_ok valid entries lm" and k: "lm_first lm \<le> k"
    and wf: "lm_wf (lm_truncate_prefix k (with_snapshot cm s a v lm))"
  shows "lm_inv S entry_ok valid entries (lm_truncate_prefix k (with_snapshot cm s a v lm))"
    and "lm_log S entries (lm_truncate_prefix k (with_snapshot cm s a v lm))
           = (k, dropWhile (\<lambda>e. e_index e < k) (snd (lm_log S entries lm)))"
proof -
  let ?l = "lm_log S entries lm" and ?m = "lm_memory lm" and ?t = "DiskTruncatePrefix k :: 'd disk_task"
  let ?lm' = "lm_truncate_prefix k (with_snapshot cm s a v lm)"
  have w: "lm_wf lm" "fst ?l = lm_first lm" "alog_last ?l = lm_last lm" "suffix ?m (snd ?l)"
    using inv by (simp_all add: lm_inv_def)
  have tl: "task_log ?t ?l = (k, dropWhile (\<lambda>e. e_index e < k) (snd ?l))"
    by (cases ?l) simp
  have ok: "alog_ok ?l" by (rule lm_log_ok [OF inv])
  have fld: "lm_first ?lm' = k" "lm_last ?lm' = (if k > lm_last lm then k - 1 else lm_last lm)"
    "lm_memory ?lm' = dropWhile (\<lambda>e. e_index e < k) ?m" "lm_storage ?lm' = lm_storage lm"
    "lm_has_error ?lm' = lm_has_error lm" "lm_disk_queue ?lm' = lm_disk_queue lm @ [?t]"
    by (simp_all add: lm_truncate_prefix_def with_snapshot_def)
  have tok: "task_ok entry_ok ?t ?l" using k w(2) by simp
  have last: "alog_last (task_log ?t ?l) = lm_last ?lm'"
    unfolding task_log_last [OF ok tok] fld(2) w(3) by simp
  have mem: "suffix (lm_memory ?lm') (snd (task_log ?t ?l))"
    unfolding fld(3) tl snd_conv using w(4) by (auto simp: suffix_def dropWhile_append intro: suffix_dropWhile_split)
  have "dropWhile (\<lambda>e. e_index e < k) ?m = drop (nat (k - (lm_last lm + 1 - int (length ?m)))) ?m"
    using w(1) by (intro contig_dropWhile) (simp add: lm_wf_def runs_to_def)
  then have len: "length (lm_memory ?lm') = length ?m - nat (k - (lm_last lm + 1 - int (length ?m)))"
    unfolding fld(3) by simp
  have keep: "lm_first lm \<le> i \<and> i \<le> lm_last lm - int (length ?m) \<and> task_keeps i ?t"
    if "lm_first ?lm' \<le> i" "i \<le> lm_last ?lm' - int (length (lm_memory ?lm'))" for i
    using that k unfolding fld(1,2) len by (auto split: if_splits)
  note step = lm_inv_task [OF inv wf fld(4-6) tok _ last mem keep]
  show "lm_inv S entry_ok valid entries ?lm'"
    by (rule step(1)) (simp_all add: tl fld(1))
  show "lm_log S entries ?lm' = (k, dropWhile (\<lambda>e. e_index e < k) (snd ?l))"
    by (rule trans [OF step(2) tl]) (simp_all add: tl fld(1))
qed

lemma lm_inv_reset:
  assumes inv: "lm_inv S entry_ok valid entries lm" and k: "0 < k"
    and wf: "lm_wf (lm_reset k (with_snapshot cm s a v lm))"
  shows "lm_inv S entry_ok valid entries (lm_reset k (with_snapshot cm s a v lm))"
    and "lm_log S entries (lm_reset k (with_snapshot cm s a v lm)) = (k, [])"
proof -
  let ?t = "DiskReset k :: 'd disk_task" and ?lm' = "lm_reset k (with_snapshot cm s a v lm)"
  have fld: "lm_first ?lm' = k" "lm_last ?lm' = k - 1" "lm_memory ?lm' = []" "lm_storage ?lm' = lm_storage lm"
    "lm_has_error ?lm' = lm_has_error lm" "lm_disk_queue ?lm' = lm_disk_queue lm @ [?t]"
    by (simp_all add: lm_reset_def with_snapshot_def)
  note step = lm_inv_task [OF inv wf fld(4-6)]
  show "lm_inv S entry_ok valid entries ?lm'"
    by (rule step(1)) (use k in \<open>simp_all add: fld(1-3) alog_last_def\<close>)
  show "lm_log S entries ?lm' = (k, [])"
    by (rule trans [OF step(2)]) (use k in \<open>simp_all add: fld(1-3) alog_last_def\<close>)
qed

lemma lm_inv_with_snapshot:
  assumes inv: "lm_inv S entry_ok valid entries lm" and wf: "lm_wf (with_snapshot cm s a v lm)"
  shows "lm_inv S entry_ok valid entries (with_snapshot cm s a v lm)"
    and "lm_log S entries (with_snapshot cm s a v lm) = lm_log S entries lm"
  using inv wf by (simp_all add: lm_inv_def lm_log_def settled_def with_snapshot_def)

lemma set_snapshot_refines:
  fixes f :: "string \<Rightarrow> 32 word option"
  assumes inv: "lm_inv S entry_ok valid entries lm" and pre: "snapshot_pre meta lm"
    and new: "lid_index (lm_last_snapshot_id lm) < sm_last_included_index meta"
  defines "ix \<equiv> sm_last_included_index meta" and "t \<equiv> lm_unsafe_get_term S (sm_last_included_index meta) lm"
    and "lm' \<equiv> lm_set_snapshot S f meta lm" and "lb \<equiv> lid_index (lm_last_snapshot_id lm)"
  shows "lm_inv S entry_ok valid entries lm' \<and> lm_log S entries lm' =
     (if t = 0 then (ix + 1, dropWhile (\<lambda>e. e_index e < ix + 1) (snd (lm_log S entries lm)))
      else if t = sm_last_included_term meta
      then if lb > 0 then (lb + 1, dropWhile (\<lambda>e. e_index e < lb + 1) (snd (lm_log S entries lm)))
           else lm_log S entries lm
      else (ix + 1, []))"
proof -
  have w: "lm_wf lm" "lm_first lm \<le> lb + 1" "lb + 1 \<le> ix" "0 < ix + 1"
    using inv new by (simp_all add: lm_inv_def lm_wf_def lb_def ix_def)
  have wf: "lm_wf lm'"
    unfolding lm'_def by (rule set_snapshot_lemma(1) [OF w(1) pre new])
  note shape = set_snapshot_shape [OF new, of S f, folded t_def ix_def lm'_def lb_def]
  show ?thesis
  proof (cases "t = 0")
    case True
    with shape wf w lm_inv_truncate_prefix [OF inv, of "ix + 1"] show ?thesis by simp
  next
    case False
    show ?thesis
    proof (cases "t = sm_last_included_term meta")
      case True
      with False shape wf w lm_inv_truncate_prefix [OF inv, of "lb + 1"] lm_inv_with_snapshot [OF inv]
      show ?thesis by (cases "lb > 0") simp_all
    next
      case t: False
      with False shape wf w lm_inv_reset [OF inv, of "ix + 1"] show ?thesis by simp
    qed
  qed
qed

end

subsection \<open>Properties, on the in-memory storage\<close>

text \<open>A manager with two entries on disk and a third in memory, still queued.\<close>

definition sample_entry :: "int \<Rightarrow> int \<Rightarrow> log_entry" where
  "sample_entry i t = \<lparr>e_type = ENTRY_TYPE_DATA, e_id = LogId i t, e_peers = None, e_old_peers = None, e_data = ''x''\<rparr>"

definition sample_lm :: "(mem_log, nat, nat) log_manager" where
  "sample_lm =
     (log_manager_new \<lparr>ml_first = 1, ml_last = 2, ml_data = [sample_entry 1 1, sample_entry 2 1]\<rparr> config_manager_new)
       \<lparr>lm_first := 1, lm_last := 3, lm_memory := [sample_entry 3 2], lm_disk_id := LogId 2 1,
        lm_disk_queue := [DiskEntries 7 3 [sample_entry 3 2]]\<rparr>"

lemma sample_entry_id [simp]: "e_id (sample_entry i t) = LogId i t"
  by (simp add: sample_entry_def)

lemma sample_lm_fields [simp]:
  "lm_first sample_lm = 1" "lm_last sample_lm = 3" "lm_memory sample_lm = [sample_entry 3 2]"
  "lm_disk_queue sample_lm = [DiskEntries 7 3 [sample_entry 3 2]]" "lm_applied_id sample_lm = LogId 0 0"
  "lm_last_snapshot_id sample_lm = LogId 0 0" "lm_virtual_first sample_lm = LogId 0 0"
  "lm_storage sample_lm = \<lparr>ml_first = 1, ml_last = 2, ml_data = [sample_entry 1 1, sample_entry 2 1]\<rparr>"
  "\<not> lm_has_error sample_lm" "lm_config sample_lm = config_manager_new"
  by (simp_all add: sample_lm_def log_manager_new_def)

lemma sample_lm_log: "lm_log mem_ops ml_data sample_lm = (1, [sample_entry 1 1, sample_entry 2 1, sample_entry 3 2])"
  by (simp add: lm_log_def)

lemma sample_lm_inv: "lm_inv mem_ops (\<lambda>e. True) ml_valid ml_data sample_lm"
proof -
  have "settled mem_ops i sample_lm" if "1 \<le> i" "i \<le> 2" for i
    using that by (simp add: settled_def ml_get_entry_def)
  moreover have "suffix [sample_entry 3 2] [sample_entry 1 1, sample_entry 2 1, sample_entry 3 2]"
    by (simp add: suffix_def)
  ultimately show ?thesis
    by (simp add: lm_inv_def lm_wf_def sample_lm_log ml_valid_def runs_to_def alog_last_def cm_wf_new)
      (simp add: config_manager_new_def)
qed

lemma sample_lm_term:
  "lm_unsafe_get_term mem_ops 1 sample_lm = 1" "lm_unsafe_get_term mem_ops 2 sample_lm = 1"
  "lm_unsafe_get_term mem_ops 3 sample_lm = 2"
  by (simp_all add: lm_unsafe_get_term_def lm_get_entry_from_memory_def ml_get_term_def)

text \<open>
  C28 (refinement): under the manager's invariant a read of any index, from memory or from the storage,
  gives the entry the log holds there, or none if it holds none; it never reports an error and never
  changes the manager.
\<close>

theorem get_entry_reads_log:
  fixes lm :: "(mem_log, 'd, 'w) log_manager"
  assumes "lm_inv mem_ops (\<lambda>e. True) ml_valid ml_data lm"
  shows "lm_get_entry mem_ops i lm = (alog_get (lm_log mem_ops ml_data lm) i, lm, [])"
  using assms by (rule mem.get_entry_refines)

theorem get_entry_reads_log_witness:
  "lm_get_entry mem_ops 3 sample_lm = (Some (sample_entry 3 2), sample_lm, [])"
  by (simp add: get_entry_reads_log [OF sample_lm_inv] sample_lm_log alog_get_def alog_last_def)



text \<open>
  A leader's append numbers the new entries from the end of its log, in order and with
  the terms they were given, and puts them at the end of the log without touching what is there.
\<close>

theorem leader_append_extends_log:
  fixes lm :: "(mem_log, 'd, 'w) log_manager"
  assumes "lm_inv mem_ops (\<lambda>e. True) ml_valid ml_data lm" and "es \<noteq> []" and "e_index (hd es) = 0"
    and "lm_append_entries mem_ops es d lm = (lm', ev)"
  shows "lm_inv mem_ops (\<lambda>e. True) ml_valid ml_data lm' \<and> lm_last lm' = lm_last lm + int (length es)
     \<and> lm_log mem_ops ml_data lm'
       = (lm_first lm, snd (lm_log mem_ops ml_data lm) @ assign_indexes (lm_last lm) es)"
proof -
  have "\<forall>e \<in> set (assign_indexes (lm_last lm) es). True"
    by simp
  note ref = mem.append_leader_refines [OF assms(1-3) this assms(4)]
  have "alog_last (lm_log mem_ops ml_data lm') = lm_last lm'"
    using conjunct1 [OF ref] unfolding lm_inv_def by blast
  moreover have "alog_last (lm_log mem_ops ml_data lm) = lm_last lm" "fst (lm_log mem_ops ml_data lm) = lm_first lm"
    using assms(1) unfolding lm_inv_def by blast+
  ultimately show ?thesis
    using ref by (simp add: alog_last_def)
qed

theorem leader_append_extends_log_witness:
  "lm_log mem_ops ml_data (fst (lm_append_entries mem_ops [sample_entry 0 4, sample_entry 0 4] 8 sample_lm))
   = (1, [sample_entry 1 1, sample_entry 2 1, sample_entry 3 2, sample_entry 4 4, sample_entry 5 4])"
proof -
  obtain lm' ev where app: "lm_append_entries mem_ops [sample_entry 0 4, sample_entry 0 4] 8 sample_lm = (lm', ev)"
    by fastforce
  from leader_append_extends_log [OF sample_lm_inv _ _ app] show ?thesis
    by (simp add: app sample_lm_log) (simp add: sample_entry_def)
qed

text \<open>
  C6 (refinement): a run of the disk thread over its queue leaves the storage holding exactly the log, for
  any limit on the batches: it writes every queued entry, applies the truncations in order, empties the
  queue, keeps every read, and runs each closure that waits for its entries exactly once, in the order they
  were queued, with success.
\<close>

theorem disk_thread_writes_log:
  fixes lm :: "(mem_log, 'd, 'w) log_manager"
  assumes "lm_inv mem_ops (\<lambda>e. True) ml_valid ml_data lm" and "lm_disk_thread mem_ops b n lm = (lm', ev)"
    and "length (lm_disk_queue lm) \<le> n"
  shows "lm_inv mem_ops (\<lambda>e. True) ml_valid ml_data lm' \<and> lm_log mem_ops ml_data lm' = lm_log mem_ops ml_data lm
     \<and> lm_disk_queue lm' = []
     \<and> (ml_first (lm_storage lm'), ml_data (lm_storage lm')) = lm_log mem_ops ml_data lm
     \<and> no_runs ev = concat (map task_runs (lm_disk_queue lm))"
  using mem.disk_thread_refines [OF assms] by (simp add: mem.sto_def)

theorem disk_thread_writes_log_witness:
  "ml_data (lm_storage (fst (lm_disk_thread mem_ops 1 5 sample_lm)))
     = [sample_entry 1 1, sample_entry 2 1, sample_entry 3 2]"
proof -
  obtain lm' ev where dt: "lm_disk_thread mem_ops 1 5 sample_lm = (lm', ev)"
    by fastforce
  from disk_thread_writes_log [OF sample_lm_inv dt] show ?thesis
    unfolding dt fst_conv by (simp add: sample_lm_log)
qed

text \<open>
  C30 (refinement): a snapshot newer than the last one becomes the last snapshot, keeps the manager's
  invariant, and changes the log, that is what the storage holds once the queued disk tasks are done. If
  the log has no entry at its index, the log restarts right after it; if the entry there has the
  snapshot's term, only what the previous snapshot covers is dropped, so followers can still be served;
  if it has another term, the log is emptied and restarts after the snapshot. The term compared is the
  log's, and the bounds in memory follow the log.
\<close>

theorem set_snapshot_keeps_or_resets:
  fixes f :: "string \<Rightarrow> 32 word option" and lm :: "(mem_log, 'd, 'w) log_manager"
  assumes "lm_inv mem_ops (\<lambda>e. True) ml_valid ml_data lm" and "snapshot_pre meta lm"
    and "lid_index (lm_last_snapshot_id lm) < sm_last_included_index meta"
    and "t = (case alog_get (lm_log mem_ops ml_data lm) (sm_last_included_index meta) of None \<Rightarrow> 0 | Some e \<Rightarrow> e_term e)"
    and "lb = lid_index (lm_last_snapshot_id lm)" and "xs = snd (lm_log mem_ops ml_data lm)"
    and "lm' = lm_set_snapshot mem_ops f meta lm"
  shows "lm_inv mem_ops (\<lambda>e. True) ml_valid ml_data lm'
     \<and> lm_last_snapshot_id lm' = LogId (sm_last_included_index meta) (sm_last_included_term meta)
     \<and> (if t = 0
        then lm_first lm' = sm_last_included_index meta + 1
             \<and> lm_last lm' = max (sm_last_included_index meta) (lm_last lm)
             \<and> lm_log mem_ops ml_data lm' = (sm_last_included_index meta + 1,
                  dropWhile (\<lambda>e. e_index e < sm_last_included_index meta + 1) xs)
        else if t = sm_last_included_term meta
        then lm_last lm' = lm_last lm \<and> lm_first lm' = (if lb > 0 then lb + 1 else lm_first lm)
             \<and> lm_log mem_ops ml_data lm' = (if lb > 0 then (lb + 1, dropWhile (\<lambda>e. e_index e < lb + 1) xs)
                                            else lm_log mem_ops ml_data lm)
        else lm_memory lm' = [] \<and> lm_first lm' = sm_last_included_index meta + 1
             \<and> lm_last lm' = sm_last_included_index meta
             \<and> lm_log mem_ops ml_data lm' = (sm_last_included_index meta + 1, []))"
proof -
  have wf: "lm_wf lm" using assms(1) by (simp add: lm_inv_def)
  have t: "lm_unsafe_get_term mem_ops (sm_last_included_index meta) lm = t"
    unfolding assms(4) by (rule mem.get_term_refines [OF assms(1,3)])
  show ?thesis
    using set_snapshot_lemma [OF wf assms(2,3), of mem_ops f] mem.set_snapshot_refines [OF assms(1-3), of f]
    unfolding t assms(5-7) by auto
qed

theorem set_snapshot_keeps_or_resets_witness:
  "lm_log mem_ops ml_data (lm_set_snapshot mem_ops (\<lambda>s. None)
      \<lparr>sm_last_included_index = 2, sm_last_included_term = 7, sm_peers = [], sm_old_peers = []\<rparr> sample_lm) = (3, [])"
proof -
  let ?meta = "\<lparr>sm_last_included_index = 2, sm_last_included_term = 7, sm_peers = [], sm_old_peers = []\<rparr>"
  have pre: "snapshot_pre ?meta sample_lm"
    by (simp add: snapshot_pre_def log_id_le)
  show ?thesis
    using set_snapshot_keeps_or_resets [OF sample_lm_inv pre _ refl refl refl refl, of "\<lambda>s. None"]
    by (simp add: sample_lm_log alog_get_def alog_last_def)
qed

end
