(* ===== verification/NodeSafety.thy ===== *)
theory NodeSafety
  imports SampleNode LogManagerRefine
begin

section \<open>What the node promises: votes, leases, commits\<close>

subsection \<open>When the leader last heard from a majority\<close>

lemma drop_insort:
  "sorted zs \<Longrightarrow> length (filter (\<lambda>y. y < m) zs) \<le> n \<Longrightarrow> drop (Suc n) (insort m zs) = drop n zs"
proof (induction zs arbitrary: n)
  case Nil
  then show ?case by simp
next
  case (Cons y zs)
  then show ?case by (cases n; cases "m \<le> y") (auto simp: not_le)
qed

lemma keep_largest_sorted:
  assumes "sorted heap" and "length heap \<le> k"
  shows "keep_largest k heap xs = drop (length heap + length xs - k) (sort (heap @ xs))"
  using assms
proof (induction xs arbitrary: heap)
  case Nil
  then show ?case by (simp add: sorted_sort_id)
next
  case (Cons x xs)
  let ?h = "insort x heap"
  have h: "sorted ?h" "length ?h = Suc (length heap)"
    using Cons.prems(1) by (simp_all add: sorted_insort)
  have same: "sort (?h @ xs) = sort (heap @ x # xs)"
    by (rule properties_for_sort) simp_all
  show ?case
  proof (cases "length heap < k")
    case True
    then show ?thesis
      using Cons.IH [OF h(1)] h(2) same by (simp add: Let_def)
  next
    case False
    then have k: "k = length heap"
      using Cons.prems(2) by simp
    show ?thesis
    proof (cases ?h)
      case Nil
      with h(2) show ?thesis by simp
    next
      case (Cons m h')
      have sh: "sorted h'" "length h' = k"
        using h Cons k by auto
      have "filter (\<lambda>y. y < m) h' = []"
        using h(1) Cons by (auto simp: filter_empty_conv)
      then have few: "length (filter (\<lambda>y. y < m) (sort (h' @ xs))) \<le> length xs"
        by (simp add: filter_sort)
      have "keep_largest k heap (x # xs) = keep_largest k h' xs"
        using k h(2) Cons by (simp add: Let_def)
      also have "\<dots> = drop (length xs) (sort (h' @ xs))"
        using Cons.IH [OF sh(1)] sh(2) by simp
      also have "\<dots> = drop (Suc (length xs)) (sort (m # h' @ xs))"
        using drop_insort [OF _ few] by simp
      finally show ?thesis
        using same Cons k by simp
    qed
  qed
qed

lemma sorted_nth_count:
  fixes xs :: "int list"
  assumes "sorted xs" and "0 < k" "k \<le> length xs"
  shows "u \<le> xs ! (length xs - k) \<longleftrightarrow> k \<le> length (filter (\<lambda>x. u \<le> x) xs)"
proof
  let ?i = "length xs - k"
  assume u: "u \<le> xs ! ?i"
  have "u \<le> drop ?i xs ! j" if "j < length (drop ?i xs)" for j
  proof -
    have "?i + j < length xs"
      using that by auto
    then have "xs ! ?i \<le> xs ! (?i + j)"
      using sorted_nth_mono [OF assms(1), of ?i "?i + j"] by simp
    then show ?thesis
      using u that by simp
  qed
  then have "\<forall>x\<in>set (drop ?i xs). u \<le> x"
    by (simp add: all_set_conv_all_nth)
  then have "length (filter (\<lambda>x. u \<le> x) (drop ?i xs)) = k"
    using assms by simp
  moreover have "filter (\<lambda>x. u \<le> x) xs = filter (\<lambda>x. u \<le> x) (take ?i xs) @ filter (\<lambda>x. u \<le> x) (drop ?i xs)"
    by (metis append_take_drop_id filter_append)
  ultimately show "k \<le> length (filter (\<lambda>x. u \<le> x) xs)"
    by simp
next
  let ?i = "length xs - k"
  assume k: "k \<le> length (filter (\<lambda>x. u \<le> x) xs)"
  show "u \<le> xs ! ?i"
  proof (rule ccontr)
    assume u: "\<not> u \<le> xs ! ?i"
    have "\<not> u \<le> take (Suc ?i) xs ! j" if "j < length (take (Suc ?i) xs)" for j
    proof -
      have "j \<le> ?i" "?i < length xs"
        using that assms(2,3) by auto
      then show ?thesis
        using u that sorted_nth_mono [OF assms(1), of j ?i] by simp
    qed
    then have "\<forall>x\<in>set (take (Suc ?i) xs). \<not> u \<le> x"
      unfolding all_set_conv_all_nth by blast
    then have "filter (\<lambda>x. u \<le> x) (take (Suc ?i) xs) = []"
      by (simp add: filter_empty_conv)
    then have "filter (\<lambda>x. u \<le> x) xs = filter (\<lambda>x. u \<le> x) (drop (Suc ?i) xs)"
      by (metis append_Nil append_take_drop_id filter_append)
    then have "length (filter (\<lambda>x. u \<le> x) xs) \<le> length (drop (Suc ?i) xs)"
      using length_filter_le [of "\<lambda>x. u \<le> x" "drop (Suc ?i) xs"] by simp
    then show False
      using k assms by simp
  qed
qed

text \<open>A majority of a configuration has answered the node, or is the node, since \<open>u\<close>.\<close>

definition active_since :: "int \<Rightarrow> conf \<Rightarrow> ('s, 'm, 'c) node \<Rightarrow> bool" where
  "active_since u c n \<longleftrightarrow>
     length (filter (\<lambda>p. is_self n p \<or> u \<le> last_rpc_send_timestamp p (nd_w n)) c) \<ge> length c div 2 + 1"

text \<open>A configuration the node is in.\<close>

definition member_conf :: "conf \<Rightarrow> ('s, 'm, 'c) node \<Rightarrow> bool" where
  "member_conf c n \<longleftrightarrow> conf_wf c \<and> conf_contains c (nd_server_id n)"

lemma member_conf_others:
  assumes "member_conf c n"
  shows "length (filter (is_self n) c) = 1"
    and "length (filter (\<lambda>p. \<not> is_self n p) c) = length c - 1"
proof -
  have key: "is_self n p \<longleftrightarrow> pkey p = pkey (nd_server_id n)" for p
    by (simp add: is_self_def peer_eq_key)
  have "distinct (map pkey c)" "pkey (nd_server_id n) \<in> set (map pkey c)"
    using assms by (auto simp: member_conf_def conf_wf_def ksorted_distinct conf_contains_keys conf_keys_def)
  then have "length (filter (\<lambda>p. pkey p = pkey (nd_server_id n)) c) = 1"
  proof (induction c)
    case Nil
    then show ?case by simp
  next
    case (Cons p c)
    have "filter (\<lambda>p. pkey p = pkey (nd_server_id n)) c = []" if "pkey p = pkey (nd_server_id n)"
      using Cons.prems(1) that by (metis (mono_tags, lifting) distinct.simps(2) filter_False imageI list.set_map list.simps(9))
    with Cons show ?case by auto
  qed
  then show 1: "length (filter (is_self n) c) = 1"
    using key by presburger
  show "length (filter (\<lambda>p. \<not> is_self n p) c) = length c - 1"
    using 1 sum_length_filter_compl [of "is_self n" c] by simp
qed

lemma active_timestamp_of_others:
  assumes "member_conf c n" and "2 \<le> length c"
  shows "u \<le> last_leader_active_timestamp_of E c n \<longleftrightarrow> active_since u c n"
proof -
  let ?o = "filter (\<lambda>p. \<not> is_self n p) c"
  define ts where "ts = map (\<lambda>p. last_rpc_send_timestamp p (nd_w n)) ?o"
  let ?k = "length c div 2"
  have len: "2 \<le> length c" "length ts = length c - 1"
    using assms member_conf_others [OF assms(1)] by (simp_all add: member_conf_def ts_def)
  then have k: "0 < ?k" "?k \<le> length ts"
    by simp_all
  have heap: "keep_largest ?k [] ts = drop (length ts - ?k) (sort ts)"
    using keep_largest_sorted [of "[]" ?k ts] by simp
  moreover have "drop (length ts - ?k) (sort ts) \<noteq> []"
    using k by simp
  ultimately have "last_leader_active_timestamp_of E c n = sort ts ! (length ts - ?k)"
    using k by (simp add: last_leader_active_timestamp_of_def ts_def [symmetric] Let_def hd_drop_conv_nth)
  then have "u \<le> last_leader_active_timestamp_of E c n \<longleftrightarrow> ?k \<le> length (filter (\<lambda>x. u \<le> x) ts)"
    using sorted_nth_count [of "sort ts" ?k u] k by (simp add: filter_sort)
  also have "length (filter (\<lambda>x. u \<le> x) ts) = length (filter (\<lambda>p. u \<le> last_rpc_send_timestamp p (nd_w n)) ?o)"
    by (simp add: ts_def filter_map o_def)
  also have "?k \<le> \<dots> \<longleftrightarrow> active_since u c n"
  proof -
    have "length (filter (\<lambda>p. is_self n p \<or> u \<le> last_rpc_send_timestamp p (nd_w n)) c)
        = length (filter (is_self n) c) + length (filter (\<lambda>p. u \<le> last_rpc_send_timestamp p (nd_w n)) ?o)"
      by (induction c) auto
    then show ?thesis
      using member_conf_others(1) [OF assms(1)] by (simp add: active_since_def)
  qed
  finally show ?thesis .
qed

lemma active_timestamp_of:
  assumes mem: "member_conf c n" and u: "u \<le> ne_now_ms E \<or> 2 \<le> length c"
  shows "u \<le> last_leader_active_timestamp_of E c n \<longleftrightarrow> active_since u c n"
proof (cases "2 \<le> length c")
  case True
  with mem show ?thesis by (rule active_timestamp_of_others)
next
  case False
  note self = member_conf_others(1) [OF mem]
  then have 1: "length c = 1"
    using False length_filter_le [of "is_self n" c] by linarith
  then obtain p where "c = [p]"
    by (auto simp: length_Suc_conv)
  with self u show ?thesis
    by (auto simp: last_leader_active_timestamp_of_def active_since_def Let_def split: if_splits)
qed

lemma active_timestamp_majority:
  fixes n :: "('s, 'm, 'c) node"
  assumes "member_conf (ce_conf (nd_conf n)) n"
    and "ce_old_conf (nd_conf n) = [] \<or> member_conf (ce_old_conf (nd_conf n)) n"
    and "u \<le> ne_now_ms E \<or> 2 \<le> length (ce_conf (nd_conf n))
         \<and> (ce_old_conf (nd_conf n) = [] \<or> 2 \<le> length (ce_old_conf (nd_conf n)))"
  shows "u \<le> last_leader_active_timestamp E n \<longleftrightarrow>
    active_since u (ce_conf (nd_conf n)) n \<and>
    (ce_old_conf (nd_conf n) = [] \<or> active_since u (ce_old_conf (nd_conf n)) n)"
  using assms
  by (auto simp: last_leader_active_timestamp_def Let_def active_timestamp_of)

definition sample_leader :: "int \<Rightarrow> (mem_log, single_meta, nat) node" where
  "sample_leader t = (sample_node [] sample_fresh_meta)
     \<lparr>nd_state := STATE_LEADER, nd_current_term := 2,
      nd_conf := \<lparr>ce_id = LogId 1 1, ce_conf = [sample_peer 1, sample_peer 2, sample_peer 3], ce_old_conf = []\<rparr>,
      nd_leader_lease := ll_renew 8000 (ll_on_leader_start 2 (ll_init 1000 leader_lease_new)),
      nd_w := sample_world\<lparr>w_rmap := [(sample_peer 2, 7)], w_status := [(7, t)]\<rparr>\<rparr>"

lemma sample_leader_simps [simp]:
  "ce_conf (nd_conf (sample_leader t)) = [sample_peer 1, sample_peer 2, sample_peer 3]"
  "ce_old_conf (nd_conf (sample_leader t)) = []"
  "nd_server_id (sample_leader t) = sample_peer 1" "nd_state (sample_leader t) = STATE_LEADER"
  "nd_leader_lease (sample_leader t) = \<lparr>ll_election_timeout_ms = 1000, ll_last_active_timestamp = 8000, ll_term = 2, ll_lease_epoch = 1\<rparr>"
  "last_rpc_send_timestamp (sample_peer k) (nd_w (sample_leader t)) = (if k = 2 then t else 0)"
  by (auto simp: sample_leader_def sample_node_def node_new_def last_rpc_send_timestamp_def rmap_find_def status_of_def
      ll_renew_def ll_on_leader_start_def ll_init_def leader_lease_new_def)

lemma sample_leader_member: "member_conf (ce_conf (nd_conf (sample_leader t))) (sample_leader t)"
  by (simp add: member_conf_def conf_wf_def ksorted_def conf_contains_def sample_peer_def peer_eq_def pkey_def less_prod_def' less_endpoint_def)

text \<open>
  C19 (functional): for a leader that is in its configuration, and in the old one while that is changing,
  the timestamp it derives is the latest time since which a majority of the configuration, counting the
  leader itself, and while joint a majority of the old one, has answered it: a time is at or before the
  timestamp exactly if those majorities have answered since. In a configuration of the leader alone the
  timestamp is the present, so there the claim is about times that are not in the future. The claim needs
  the membership: the code counts half of the configuration beside the node even when the node is not in
  it, so for a removed leader the timestamp does not stand for a majority (node.cpp:3624).
\<close>

theorem active_timestamp_of_majority:
  fixes n :: "('s, 'm, 'c) node"
  assumes "member_conf (ce_conf (nd_conf n)) n"
    and "ce_old_conf (nd_conf n) = [] \<or> member_conf (ce_old_conf (nd_conf n)) n"
    and "u \<le> ne_now_ms E \<or> 2 \<le> length (ce_conf (nd_conf n))
         \<and> (ce_old_conf (nd_conf n) = [] \<or> 2 \<le> length (ce_old_conf (nd_conf n)))"
  shows "u \<le> last_leader_active_timestamp E n \<longleftrightarrow>
    active_since u (ce_conf (nd_conf n)) n \<and>
    (ce_old_conf (nd_conf n) = [] \<or> active_since u (ce_old_conf (nd_conf n)) n)"
  using assms by (rule active_timestamp_majority)

theorem active_timestamp_of_majority_witness:
  "9500 \<le> last_leader_active_timestamp sample_node_env (sample_leader 9500)
   \<and> \<not> 9501 \<le> last_leader_active_timestamp sample_node_env (sample_leader 9500)"
  using active_timestamp_of_majority [of "sample_leader 9500" 9500 sample_node_env]
    active_timestamp_of_majority [of "sample_leader 9500" 9501 sample_node_env] sample_leader_member [of 9500]
  by (simp add: active_since_def is_self_def del: not_le)

subsection \<open>Renewing a suspect lease\<close>

lemma nd_state_on_w [simp]: "nd_state (on_w f n) = nd_state n"
  by (simp add: on_w_def)

lemma nd_state_emit [simp]: "nd_state (nd_emit fx n) = nd_state n"
  by (simp add: nd_emit_def)

lemma nd_state_stop_replicator [simp]: "nd_state (node_stop_replicator E ks ds n) = nd_state n"
  unfolding node_stop_replicator_def by (induction ds arbitrary: n) simp_all

lemma nd_state_step_down_parts [simp]:
  "nd_state (conf_ctx_reset E st n) = nd_state n"
  "nd_state (clear_append_entries_cache E n) = nd_state n"
  "nd_state (raise_term E t n) = nd_state n"
  "nd_state (release_replicators E b n) = nd_state n"
  by (simp_all add: conf_ctx_reset_def check_majority_nodes_readonly_def check_majority_nodes_readonly_of_def
      clear_append_entries_cache_def raise_term_def save_meta_def release_replicators_def Let_def split: option.split prod.split)

lemma step_down_follower:
  assumes "is_active_state (nd_state n)"
  shows "nd_state (step_down E t b st n) = STATE_FOLLOWER"
  using assms by (simp add: step_down_def Let_def)

text \<open>
  C18 (safety): when the lease of a leader that is in its configuration (and in the old one while that is
  changing) is due, asking for it finds it valid and leaves the node leader exactly if a majority of the
  configuration, and while joint of the old one, has answered within the election timeout and the
  derived timestamp is not 0, the value the lease keeps for an unknown time; otherwise the answer is that
  the lease has expired and the leader has stepped down when the answer is out. As for the
  timestamp itself, a leader outside its configuration is excluded (node.cpp:3624).
\<close>

theorem suspect_lease_needs_majority:
  fixes n :: "('s, 'm, 'c) node"
  assumes "li_state (node_lease_info E n) = LeaseSUSPECT" and "nd_state n = STATE_LEADER"
    and "member_conf (ce_conf (nd_conf n)) n"
    and "ce_old_conf (nd_conf n) = [] \<or> member_conf (ce_old_conf (nd_conf n)) n"
    and "0 < ll_election_timeout_ms (nd_leader_lease n)"
    and "get_leader_lease_status E n = (st, n1)"
  shows "let u = ne_now_ms E - ll_election_timeout_ms (nd_leader_lease n) + 1 in
     if active_since u (ce_conf (nd_conf n)) n
        \<and> (ce_old_conf (nd_conf n) = [] \<or> active_since u (ce_old_conf (nd_conf n)) n)
        \<and> last_leader_active_timestamp E n \<noteq> 0
     then ls_state st = LEASE_VALID \<and> nd_state n1 = STATE_LEADER
     else ls_state st = LEASE_EXPIRED \<and> nd_state n1 = STATE_FOLLOWER"
proof -
  let ?u = "ne_now_ms E - ll_election_timeout_ms (nd_leader_lease n) + 1" and ?t = "last_leader_active_timestamp E n"
  define m where "m = n\<lparr>nd_leader_lease := ll_renew ?t (nd_leader_lease n)\<rparr>"
  have on: "ne_enable_leader_lease E" "ll_term (nd_leader_lease n) \<noteq> 0"
    using assms(1) by (auto simp: node_lease_info_def ll_get_lease_info_def Let_def split: if_splits)
  have "li_state (node_lease_info E m) = LeaseVALID \<longleftrightarrow> ?u \<le> ?t \<and> ?t \<noteq> 0"
    using on by (auto simp: m_def node_lease_info_def ll_valid_iff ll_renew_def)
  moreover have "li_state (node_lease_info E m) \<noteq> LeaseDISABLED"
    using on by (simp add: m_def node_lease_info_def ll_get_lease_info_def ll_renew_def Let_def)
  moreover have "nd_state m = STATE_LEADER"
    using assms(2) by (simp add: m_def)
  ultimately have "if ?u \<le> ?t \<and> ?t \<noteq> 0 then ls_state st = LEASE_VALID \<and> nd_state n1 = STATE_LEADER
                   else ls_state st = LEASE_EXPIRED \<and> nd_state n1 = STATE_FOLLOWER"
    using assms(1,2,6) step_down_follower [of m]
    by (auto simp: get_leader_lease_status_def Let_def m_def [symmetric] lease_valid_status_def lease_status_of_def
        is_active_state_cases split: if_splits)
  moreover have "?u \<le> ?t \<longleftrightarrow> active_since ?u (ce_conf (nd_conf n)) n
      \<and> (ce_old_conf (nd_conf n) = [] \<or> active_since ?u (ce_old_conf (nd_conf n)) n)"
    using assms(5) by (intro active_timestamp_majority assms(3,4)) simp
  ultimately show ?thesis
    by (simp add: Let_def conj_assoc)
qed

definition sample_lease_env :: "(mem_log, single_meta, nat) node_env" where
  "sample_lease_env = sample_node_env\<lparr>ne_enable_leader_lease := True\<rparr>"

lemma sample_lease_env_simps [simp]:
  "ne_enable_leader_lease sample_lease_env" "ne_repl sample_lease_env = sample_repl_env"
  by (simp_all add: sample_lease_env_def)

theorem suspect_lease_needs_majority_witness:
  "ls_state (fst (get_leader_lease_status sample_lease_env (sample_leader 9500))) = LEASE_VALID
   \<and> nd_state (snd (get_leader_lease_status sample_lease_env (sample_leader 8800))) = STATE_FOLLOWER"
proof -
  have suspect: "li_state (node_lease_info sample_lease_env (sample_leader t)) = LeaseSUSPECT" for t
    by (simp add: node_lease_info_def ll_get_lease_info_def)
  have ready: "last_leader_active_timestamp sample_lease_env (sample_leader t) \<noteq> 0" if "0 < t" for t
    using that active_timestamp_majority [of "sample_leader t" t sample_lease_env] sample_leader_member [of t]
    by (simp add: active_since_def is_self_def)
  note * = suspect_lease_needs_majority [OF suspect _ sample_leader_member _ _ prod.collapse [symmetric]]
  show ?thesis
    using * [of 9500] * [of 8800] ready by (simp add: Let_def active_since_def is_self_def)
qed

subsection \<open>Whom a node votes for\<close>

lemma raise_term_part:
  assumes "vote_part x = vote_part n"
  shows "vote_part (raise_term E t x) = vote_part (raise_term E t n)"
proof -
  note eqs = vote_part_eqs [OF assms]
  obtain ok m where "ne_meta_set E t empty_peer (nd_meta n) = (ok, m)"
    by fastforce
  then show ?thesis
    unfolding vote_part_def by (simp add: raise_term_def save_meta_def eqs)
qed

lemma peer_eq_empty: "peer_eq empty_peer p \<longleftrightarrow> peer_is_empty p"
  by (cases "addr p") (auto simp: peer_eq_def peer_is_empty_def empty_peer_def)

lemma step_down_part:
  "vote_part (step_down E t b st n) =
     (if is_active_state (nd_state n) then vote_part (raise_term E t n) else vote_part n)"
  by (simp add: step_down_def Let_def) (intro raise_term_part conjI impI; simp)

lemma step_down_term:
  "nd_current_term (step_down E t b st n) =
     (if is_active_state (nd_state n) \<and> t > nd_current_term n then t else nd_current_term n)"
  using step_down_part [of E t b st n]
  by (auto simp: vote_part_def raise_term_def save_meta_def split: prod.splits if_splits)

lemma step_down_voted:
  "nd_voted_id (step_down E t b st n) =
     (if is_active_state (nd_state n) \<and> t > nd_current_term n then empty_peer else nd_voted_id n)"
  using step_down_part [of E t b st n]
  by (auto simp: vote_part_def raise_term_def save_meta_def split: prod.splits if_splits)

text \<open>
  C17: A node that had not yet voted for the candidate in its term answers a request with a
  granted vote only if the candidate's log is at least as up to date as its own log on disk, and no
  lease of a leader binds it.
\<close>

theorem votes_need_current_log:
  fixes n :: "('s, 'm, 'c) node"
  assumes answer: "handle_request_vote_request E request n = (Inr response, n')"
    and granted: "vr_granted response"
    and candidate: "peer_parse (ne_str2ip E) (vq_server_id request) = Some p" "\<not> peer_is_empty p"
    and flush: "ne_flush E (disrupted_expire E request n) = (last_log_id, m)"
    and fresh: "\<not> (nd_current_term m = vq_term request \<and> peer_eq (nd_voted_id m) p)"
      "\<not> (nd_current_term n = vq_term request \<and> peer_eq (nd_voted_id n) p)"
  shows "last_log_id \<le> LogId (vq_last_log_index request) (vq_last_log_term request)
    \<and> votable_time E m = 0 \<and> nd_current_term n \<le> vq_term request \<and> nd_current_term n' = vq_term request"
proof -
  let ?x = "disrupted_expire E request n"
  have x: "nd_current_term ?x = nd_current_term n" "nd_voted_id ?x = nd_voted_id n"
    by (rule vote_part_eqs, simp)+
  have current: "nd_current_term n' = vq_term request" "peer_eq (nd_voted_id n') p"
    using answer granted candidate(1)
    by (auto simp: handle_request_vote_request_def Let_def split: if_splits prod.splits)
  have no: "n' \<noteq> ?x" "n' \<noteq> m"
    using current fresh x by auto
  then have n': "n' = snd (snd (cast_vote E request p last_log_id m))" "nd_current_term n \<le> vq_term request"
    using answer candidate(1) flush x(1)
    by (auto simp: handle_request_vote_request_def Let_def split: if_splits prod.splits)
  define y where "y = (if vq_term request > nd_current_term m
                       then step_down E (vq_term request) False (StatusErr EHIGHERTERMREQUEST) m else m)"
  have v: "\<not> votable_time E m > 0"
    using n' no(2) by (auto simp: cast_vote_def Let_def)
  have "\<not> (nd_current_term y = vq_term request \<and> peer_eq (nd_voted_id y) p)"
    using fresh(1) candidate(2)
    by (auto simp: y_def step_down_voted step_down_term peer_eq_empty split: if_splits)
  then have "n' \<noteq> y"
    using current by auto
  then have "LogId (vq_last_log_index request) (vq_last_log_term request) \<ge> last_log_id"
    using n' v by (auto simp: cast_vote_def Let_def y_def split: if_splits)
  moreover have "votable_time E m = 0"
    using v fl_votable_nonneg by (metis less_le votable_time_def)
  ultimately show ?thesis
    using n' current by blast
qed

definition sample_follower :: "(mem_log, single_meta, nat) node" where
  "sample_follower = (sample_node [] (sample_fresh_meta\<lparr>fm_is_inited := True\<rparr>))
     \<lparr>nd_state := STATE_FOLLOWER, nd_current_term := 1\<rparr>"

lemma sample_follower_ready: "sample_ready 1 empty_peer sample_follower"
  by (simp add: sample_ready_def sample_follower_def sample_node_def node_new_def conf_ctx_new_def vote_ctx_new_def
      sample_world_def world_new_def log_manager_new_def lm_last_log_id_def)

theorem votes_need_current_log_witness:
  "lm_last_log_id mem_ops (w_lm (nd_w sample_follower)) \<le> LogId 0 0"
proof -
  obtain n' where n': "handle_request_vote_request sample_node_env (sample_request 2) sample_follower =
     (Inr \<lparr>vr_term = 2, vr_granted = True, vr_disrupted = False, vr_previous_term = 1, vr_rejected_by_lease = False\<rparr>, n')"
    using sample_vote_granted [OF sample_follower_ready] by blast
  have m: "ne_flush sample_node_env (disrupted_expire sample_node_env (sample_request 2) sample_follower)
      = (lm_last_log_id mem_ops (w_lm (nd_w sample_follower)), sample_follower)"
    by (simp add: disrupted_expire_def)
  have "nd_current_term sample_follower = 1"
    using sample_follower_ready by (simp add: sample_ready_def)
  then show ?thesis
    using votes_need_current_log [OF n' _ _ _ m, of "sample_peer 2"] by simp
qed

subsection \<open>Applying tasks\<close>

definition task_accepted :: "int \<Rightarrow> 'c task \<Rightarrow> bool" where
  "task_accepted t k \<longleftrightarrow> tk_expected_term k = -1 \<or> tk_expected_term k = t"

definition task_entry :: "int \<Rightarrow> 'c task \<Rightarrow> log_entry" where
  "task_entry t k = \<lparr>e_type = ENTRY_TYPE_DATA, e_id = LogId 0 t, e_peers = None, e_old_peers = None, e_data = tk_data k\<rparr>"

definition task_runs :: "status \<Rightarrow> 'c task list \<Rightarrow> 'c fx list" where
  "task_runs st ts = concat (map (\<lambda>k. case tk_done k of None \<Rightarrow> [] | Some c \<Rightarrow> [FxRun c st]) ts)"

lemma emit_emit: "emit b (emit a w) = emit (a @ b) w"
  by (simp add: emit_def)

lemma emit_Nil [simp]: "emit [] w = w"
  by (simp add: emit_def)

lemma run_opt_emit:
  "run_opt d st n = nd_emit (case d of None \<Rightarrow> [] | Some c \<Rightarrow> [FxRun c st]) n"
  by (cases d) (simp_all add: run_opt_def nd_emit_def on_w_def)

lemma run_all_runs: "run_all (map (\<lambda>k. (tk_done k, st)) ts) n = nd_emit (task_runs st ts) n"
  by (induction ts arbitrary: n)
    (simp_all add: run_all_def task_runs_def run_opt_emit nd_emit_def on_w_def emit_emit)

text \<open>
  C20 (functional): the loop over the applied tasks splits them by their expected term. The tasks of the
  current term, in order, become data entries of that term; for each of them a new ballot of the node's
  configuration (joint with the old one while it is changing) is put at the end of the ballot box's
  pending queue and its closure at the end of the box's closure queue, so that both queues grow by exactly
  one place per entry and nothing already in them moves; their closures are not run. The other tasks
  leave no entry, ballot or closure behind: their closures run at once, in order, with EPERM.
\<close>

theorem apply_tasks_accepts_current:
  "apply_tasks ts n =
     (let t = nd_current_term n; good = filter (task_accepted t) ts; bad = filter (\<lambda>k. \<not> task_accepted t k) ts;
          bb = w_bb (nd_w n);
          b = ballot_init (ce_conf (nd_conf n)) (if ce_stable (nd_conf n) then None else Some (ce_old_conf (nd_conf n)))
      in (map (task_entry t) good,
          n\<lparr>nd_w := (nd_w n)
             \<lparr>w_bb := bb\<lparr>bb_queue := bb_queue bb @ replicate (length good) b,
                         bb_closures := (bb_closures bb)
                           \<lparr>cq_queue := cq_queue (bb_closures bb) @ map (\<lambda>k. map_option UserDone (tk_done k)) good\<rparr>\<rparr>,
              w_out := w_out (nd_w n) @ concat (map (\<lambda>k. case tk_done k of None \<Rightarrow> [] | Some c \<Rightarrow> [FxRun c (StatusErr EPERM)]) bad)\<rparr>\<rparr>))"
proof (induction ts arbitrary: n)
  case Nil
  then show ?case by simp
next
  case (Cons k ts)
  let ?t = "nd_current_term n"
  show ?case
  proof (cases "task_accepted ?t k")
    case True
    define bb where "bb = append_pending_task (ce_conf (nd_conf n))
      (if ce_stable (nd_conf n) then None else Some (ce_old_conf (nd_conf n))) (map_option UserDone (tk_done k)) (w_bb (nd_w n))"
    have "apply_tasks (k # ts) n = (case apply_tasks ts (n\<lparr>nd_w := (nd_w n)\<lparr>w_bb := bb\<rparr>\<rparr>) of (es, m) \<Rightarrow> (task_entry ?t k # es, m))"
      using True by (auto simp: task_accepted_def task_entry_def node_append_pending_task_def on_w_def bb_def Let_def)
    then show ?thesis
      using True Cons.IH [of "n\<lparr>nd_w := (nd_w n)\<lparr>w_bb := bb\<rparr>\<rparr>"]
      by (simp add: Let_def bb_def append_pending_task_def cq_append_pending_closure_def)
  next
    case False
    define fx where "fx = (case tk_done k of None \<Rightarrow> [] | Some c \<Rightarrow> [FxRun c (StatusErr EPERM)])"
    have "apply_tasks (k # ts) n = apply_tasks ts (n\<lparr>nd_w := emit fx (nd_w n)\<rparr>)"
      using False by (simp add: task_accepted_def run_opt_emit nd_emit_def on_w_def fx_def)
    then show ?thesis
      using False Cons.IH [of "n\<lparr>nd_w := emit fx (nd_w n)\<rparr>"]
      by (simp add: Let_def fx_def [symmetric] emit_def)
  qed
qed

text \<open>
  A node that is not leader, or whose group is read-only, takes no task: every closure is
  run once, in order, with the error of the case, and nothing else changes.
\<close>

theorem apply_rejected:
  assumes "nd_state n \<noteq> STATE_LEADER \<or> nd_node_readonly n \<or> nd_majority_nodes_readonly n"
  shows "node_apply E ts n = nd_emit (task_runs (StatusErr
     (if nd_state n = STATE_LEADER then EREADONLY else if nd_state n = STATE_TRANSFERRING then EBUSY else EPERM)) ts) n"
  using assms by (auto simp: node_apply_def Let_def run_all_runs)

theorem apply_rejected_witness:
  "node_apply sample_node_env [\<lparr>tk_data = ''x'', tk_done = Some 3, tk_expected_term = -1\<rparr>] sample_follower
   = nd_emit [FxRun 3 (StatusErr EPERM)] sample_follower"
proof -
  have "nd_state sample_follower = STATE_FOLLOWER"
    by (simp add: sample_follower_def)
  then show ?thesis
    by (simp add: apply_rejected task_runs_def)
qed

subsection \<open>How far a follower commits\<close>

text \<open>
  C22: When entries are on disk a follower moves its commit index to what the leader has
  committed, but never past the entries of the request and never back, and only in the term of the request.
\<close>

theorem follower_commit_bounded:
  "bb_last_committed (w_bb (nd_w (follower_stable_run call request term st n))) =
     (if st = StatusOK \<and> term = nd_current_term n \<and> bb_pending_index (w_bb (nd_w n)) = 0 \<and> bb_queue (w_bb (nd_w n)) = []
      then max (bb_last_committed (w_bb (nd_w n)))
             (min (aq_committed_index request) (aq_prev_log_index request + int (length (aq_entries request))))
      else bb_last_committed (w_bb (nd_w n)))"
  by (simp add: follower_stable_run_def node_set_last_committed_index_def set_last_committed_index_def
      nd_emit_def on_w_def emit_def max_absorb1 max_absorb2 not_less split: status.split)

subsection \<open>Reading committed entries\<close>

definition no_user_log :: "alog \<Rightarrow> int \<Rightarrow> int \<Rightarrow> bool" where
  "no_user_log L i j \<longleftrightarrow> (\<forall>k. i \<le> k \<and> k < j \<longrightarrow> (\<exists>e. alog_get L k = Some e \<and> e_type e \<noteq> ENTRY_TYPE_DATA))"

definition read_result :: "alog \<Rightarrow> int \<Rightarrow> int \<Rightarrow> errno + int \<times> string \<Rightarrow> bool" where
  "read_result L i applied res \<longleftrightarrow>
     (case res of
        Inr (j, d) \<Rightarrow> i \<le> j \<and> j \<le> applied \<and> no_user_log L i j
                      \<and> (\<exists>e. alog_get L j = Some e \<and> e_type e = ENTRY_TYPE_DATA \<and> e_data e = d)
      | Inl err \<Rightarrow> err = ENOMOREUSERLOG \<and> no_user_log L i (applied + 1)
                   \<or> err = ELOGDELETED \<and> (\<exists>j. i \<le> j \<and> j \<le> applied \<and> no_user_log L i j \<and> alog_get L j = None))"

lemma no_user_log_step:
  "alog_get L i = Some e \<Longrightarrow> e_type e \<noteq> ENTRY_TYPE_DATA \<Longrightarrow> no_user_log L (i + 1) j \<Longrightarrow> no_user_log L i j"
  unfolding no_user_log_def by (metis add1_zle_eq order_le_less)

lemma read_log_loop_lemma:
  fixes n :: "(mem_log, 'm, 'c) node"
  assumes "ne_storage E = mem_ops" and "lm_inv mem_ops (\<lambda>e. True) ml_valid ml_data (w_lm (nd_w n))"
  shows "snd (read_log_loop E i n) = n
    \<and> read_result (lm_log mem_ops ml_data (w_lm (nd_w n))) i (ne_last_applied_index E) (fst (read_log_loop E i n))"
  using assms
proof (induction E i n rule: read_log_loop.induct)
  case (1 E i n)
  let ?L = "lm_log mem_ops ml_data (w_lm (nd_w n))"
  show ?case
  proof (cases "i > ne_last_applied_index E")
    case True
    then show ?thesis
      by (subst (1 2) read_log_loop.simps) (auto simp: read_result_def no_user_log_def)
  next
    case False
    have get: "lm_get_entry (ne_storage E) i (w_lm (nd_w n)) = (alog_get ?L i, w_lm (nd_w n), [])"
      using "1.prems" mem.get_entry_refines by simp
    have same: "nd_emit [] (on_w (\<lambda>w. w\<lparr>w_lm := w_lm (nd_w n)\<rparr>) n) = n"
      by (simp add: nd_emit_def on_w_def)
    show ?thesis
    proof (cases "alog_get ?L i")
      case None
      then have "read_log_loop E i n = (Inl ELOGDELETED, n)"
        using False get by (subst read_log_loop.simps) (simp add: same)
      then show ?thesis
        using None False by (auto simp: read_result_def no_user_log_def intro!: exI [of _ i])
    next
      case (Some e)
      show ?thesis
      proof (cases "e_type e = ENTRY_TYPE_DATA")
        case True
        then have "read_log_loop E i n = (Inr (i, e_data e), n)"
          using False get Some by (subst read_log_loop.simps) (simp add: same)
        then show ?thesis
          using True Some False by (auto simp: read_result_def no_user_log_def)
      next
        case other: False
        have step: "read_log_loop E i n = read_log_loop E (i + 1) n"
          using False get Some other by (subst read_log_loop.simps) (simp add: same)
        have IH: "snd (read_log_loop E (i + 1) n) = n
            \<and> read_result ?L (i + 1) (ne_last_applied_index E) (fst (read_log_loop E (i + 1) n))"
          using "1.IH" [OF False get [symmetric] refl refl] other Some "1.prems" same by simp
        note more = no_user_log_step [OF Some other]
        have "read_result ?L i (ne_last_applied_index E) res" if "read_result ?L (i + 1) (ne_last_applied_index E) res" for res
          using that more unfolding read_result_def
          by (cases res) (force split: prod.splits)+
        then show ?thesis
          unfolding step using IH by blast
      qed
    qed
  qed
qed

text \<open>
  C23: Reading committed user log from an index on answers with the first data entry at or after
  it that has been applied, or that there is none, or that the log is cut there; it always returns and
  leaves the node as it was.
\<close>

theorem read_committed_user_log_finds_first:
  fixes n :: "(mem_log, 'm, 'c) node"
  assumes "ne_storage E = mem_ops" and "lm_inv mem_ops (\<lambda>e. True) ml_valid ml_data (w_lm (nd_w n))"
  shows "snd (read_committed_user_log E i n) = n
    \<and> (if i \<le> 0 then fst (read_committed_user_log E i n) = Inl EINVAL
       else read_result (lm_log mem_ops ml_data (w_lm (nd_w n))) i (ne_last_applied_index E)
              (fst (read_committed_user_log E i n)))"
  using read_log_loop_lemma [OF assms] by (simp add: read_committed_user_log_def)

definition sample_reader :: "(mem_log, single_meta, nat) node" where
  "sample_reader = sample_follower\<lparr>nd_w := sample_world\<lparr>w_lm :=
     (log_manager_new \<lparr>ml_first = 1, ml_last = 2,
        ml_data = [(sample_entry 1 1)\<lparr>e_type := ENTRY_TYPE_NO_OP\<rparr>, sample_entry 2 1]\<rparr> config_manager_new)
       \<lparr>lm_first := 1, lm_last := 2, lm_disk_id := LogId 2 1\<rparr>\<rparr>\<rparr>"

lemma sample_reader_fields [simp]:
  "lm_first (w_lm (nd_w sample_reader)) = 1" "lm_last (w_lm (nd_w sample_reader)) = 2"
  "lm_memory (w_lm (nd_w sample_reader)) = []" "lm_disk_queue (w_lm (nd_w sample_reader)) = []"
  "lm_applied_id (w_lm (nd_w sample_reader)) = LogId 0 0" "lm_last_snapshot_id (w_lm (nd_w sample_reader)) = LogId 0 0"
  "lm_virtual_first (w_lm (nd_w sample_reader)) = LogId 0 0" "\<not> lm_has_error (w_lm (nd_w sample_reader))"
  "lm_config (w_lm (nd_w sample_reader)) = config_manager_new"
  "lm_storage (w_lm (nd_w sample_reader)) = \<lparr>ml_first = 1, ml_last = 2,
     ml_data = [(sample_entry 1 1)\<lparr>e_type := ENTRY_TYPE_NO_OP\<rparr>, sample_entry 2 1]\<rparr>"
  by (simp_all add: sample_reader_def log_manager_new_def)

lemma sample_reader_log:
  "lm_log mem_ops ml_data (w_lm (nd_w sample_reader)) =
     (1, [(sample_entry 1 1)\<lparr>e_type := ENTRY_TYPE_NO_OP\<rparr>, sample_entry 2 1])"
  by (simp add: lm_log_def)

lemma sample_reader_inv: "lm_inv mem_ops (\<lambda>e. True) ml_valid ml_data (w_lm (nd_w sample_reader))"
proof -
  have "settled mem_ops i (w_lm (nd_w sample_reader))" if "1 \<le> i" "i \<le> 2" for i
    using that by (simp add: settled_def ml_get_entry_def)
  then show ?thesis
    by (simp add: lm_inv_def lm_wf_def sample_reader_log ml_valid_def runs_to_def alog_last_def cm_wf_new)
      (simp add: config_manager_new_def)
qed

theorem read_committed_user_log_finds_first_witness:
  "fst (read_committed_user_log (sample_node_env\<lparr>ne_last_applied_index := 2\<rparr>) 1 sample_reader) = Inr (2, ''x'')"
proof -
  let ?E = "sample_node_env\<lparr>ne_last_applied_index := 2\<rparr>" and ?L = "lm_log mem_ops ml_data (w_lm (nd_w sample_reader))"
  let ?res = "fst (read_committed_user_log ?E 1 sample_reader)"
  have at: "alog_get ?L 1 = Some ((sample_entry 1 1)\<lparr>e_type := ENTRY_TYPE_NO_OP\<rparr>)" "alog_get ?L 2 = Some (sample_entry 2 1)"
    by (simp_all add: sample_reader_log alog_get_def alog_last_def)
  have res: "read_result ?L 1 2 ?res"
    using read_committed_user_log_finds_first [OF _ sample_reader_inv, of ?E 1] by simp
  have none: "\<not> no_user_log ?L 1 3"
    using at(2) by (auto simp: no_user_log_def sample_entry_def intro!: exI [of _ 2])
  have two: "j = 1 \<or> j = 2" if "1 \<le> j" "j \<le> 2" for j :: int
    using that by linarith
  have some: "alog_get ?L j \<noteq> None" if "1 \<le> j" "j \<le> 2" for j
    using two [OF that] at by auto
  show ?thesis
  proof (cases ?res)
    case (Inl e)
    then show ?thesis
      using res none some by (fastforce simp: read_result_def)
  next
    case (Inr jd)
    then obtain j x where "1 \<le> j" "j \<le> 2" "alog_get ?L j = Some x" "e_type x = ENTRY_TYPE_DATA" "jd = (j, e_data x)"
      using res by (auto simp: read_result_def)
    with two [of j] at Inr show ?thesis
      by (auto simp: sample_entry_def)
  qed
qed

subsection \<open>Shutting down\<close>

lemma continuations_on_w [simp]: "nd_shutdown_continuations (on_w f n) = nd_shutdown_continuations n"
  by (simp add: on_w_def)

lemma continuations_emit [simp]: "nd_shutdown_continuations (nd_emit fx n) = nd_shutdown_continuations n"
  by (simp add: nd_emit_def)

lemma continuations_set_ctx [simp]: "nd_shutdown_continuations (set_ctx k c n) = nd_shutdown_continuations n"
  by (simp add: set_ctx_def split: vote_ctx_kind.split)

lemma continuations_vote_ctx [simp]: "nd_shutdown_continuations (vote_ctx_reset E k n) = nd_shutdown_continuations n"
  by (simp add: vote_ctx_reset_def stop_grant_self_timer_def Let_def)

lemma continuations_stop_replicator [simp]:
  "nd_shutdown_continuations (node_stop_replicator E ks ds n) = nd_shutdown_continuations n"
  unfolding node_stop_replicator_def by (induction ds arbitrary: n) simp_all

lemma continuations_parts [simp]:
  "nd_shutdown_continuations (node_clear_pending_tasks n) = nd_shutdown_continuations n"
  "nd_shutdown_continuations (reset_leader_id E p st n) = nd_shutdown_continuations n"
  "nd_shutdown_continuations (conf_ctx_reset E sto n) = nd_shutdown_continuations n"
  "nd_shutdown_continuations (clear_append_entries_cache E n) = nd_shutdown_continuations n"
  "nd_shutdown_continuations (raise_term E t n) = nd_shutdown_continuations n"
  "nd_shutdown_continuations (release_replicators E b n) = nd_shutdown_continuations n"
  by (simp_all add: node_clear_pending_tasks_def reset_leader_id_def conf_ctx_reset_def check_majority_nodes_readonly_def
      check_majority_nodes_readonly_of_def clear_append_entries_cache_def raise_term_def save_meta_def release_replicators_def
      Let_def split: option.split prod.split)

lemma continuations_leave_role [simp]:
  "nd_shutdown_continuations (leave_role E st n) = nd_shutdown_continuations n"
  by (simp add: leave_role_def Let_def)

lemma continuations_step_down [simp]:
  "nd_shutdown_continuations (step_down E t b st n) = nd_shutdown_continuations n"
  by (simp add: step_down_def Let_def)

lemma shutdown_registers:
  assumes "nd_state n \<noteq> STATE_SHUTDOWN" "nd_state n \<noteq> STATE_END"
  shows "nd_state (node_shutdown E d n) = STATE_SHUTTING
    \<and> nd_shutdown_continuations (node_shutdown E d n) = nd_shutdown_continuations n @ (case d of None \<Rightarrow> [] | Some c \<Rightarrow> [c])"
  using assms by (cases "nd_state n") (simp_all add: node_shutdown_def Let_def state_num_def split: option.split prod.split)

lemma shutdowns_register:
  assumes "nd_state n \<noteq> STATE_SHUTDOWN" "nd_state n \<noteq> STATE_END"
  shows "nd_shutdown_continuations (fold (node_shutdown E) ds n) =
      nd_shutdown_continuations n @ concat (map (\<lambda>d. case d of None \<Rightarrow> [] | Some c \<Rightarrow> [c]) ds)"
  using assms
proof (induction ds arbitrary: n)
  case Nil
  then show ?case by simp
next
  case (Cons d ds)
  then show ?case
    using shutdown_registers [OF Cons.prems, of E d] Cons.IH [of "node_shutdown E d n"] by simp
qed

lemma shutdown_again:
  assumes "nd_state n = STATE_SHUTTING"
  shows "w_out (nd_w (node_shutdown E d n)) = w_out (nd_w n)"
  using assms by (simp add: node_shutdown_def Let_def state_num_def split: option.split)

lemma shutdown_emits:
  assumes "nd_state n \<noteq> STATE_SHUTDOWN" "nd_state n \<noteq> STATE_END"
  shows "w_out (nd_w (node_shutdown E d n)) = w_out (nd_w (node_shutdown E None n))"
  using assms by (cases "nd_state n") (simp_all add: node_shutdown_def Let_def state_num_def split: option.split prod.split)

lemma shutdowns_emit:
  assumes "nd_state n \<noteq> STATE_SHUTDOWN" "nd_state n \<noteq> STATE_END"
  shows "w_out (nd_w (fold (node_shutdown E) ds n)) = w_out (nd_w (if ds = [] then n else node_shutdown E None n))"
proof -
  have shutting: "nd_state m = STATE_SHUTTING \<Longrightarrow> w_out (nd_w (fold (node_shutdown E) ds m)) = w_out (nd_w m)"
    for ds and m :: "('a, 'b, 'c) node"
  proof (induction ds arbitrary: m)
    case (Cons d ds)
    then show ?case
      using shutdown_registers [of m E d] shutdown_again [of m E d] by simp
  qed simp
  show ?thesis
    using shutting shutdown_registers [OF assms, of E] shutdown_emits [OF assms, of E] by (cases ds) simp_all
qed

text \<open>
  C24 (liveness): however often a node is asked to shut down, and from whatever state, every closure given
  is run exactly once, in the order of the requests, when the node is down. Before that the requests run
  none of them: whatever closures they carry, all of them together put out what one request without a
  closure puts out. Going down puts out the closures and nothing else, and a request after that runs its
  closure at once.
\<close>

theorem shutdown_runs_every_closure:
  assumes "nd_state n \<noteq> STATE_SHUTDOWN" and "nd_state n \<noteq> STATE_END" and "nd_shutdown_continuations n = []"
  shows "let m = fold (node_shutdown E) ds n; down = after_shutdown m in
     nd_state down = STATE_SHUTDOWN \<and> nd_shutdown_continuations down = []
     \<and> w_out (nd_w m) = w_out (nd_w (if ds = [] then n else node_shutdown E None n))
     \<and> w_out (nd_w down) = w_out (nd_w m) @ concat (map (\<lambda>d. case d of None \<Rightarrow> [] | Some c \<Rightarrow> [FxRun c StatusOK]) ds)
     \<and> node_shutdown E (Some c) down = nd_emit [FxRun c StatusOK] down"
proof -
  have down: "nd_state (after_shutdown m) = STATE_SHUTDOWN" for m :: "('a, 'b, 'c) node"
    by (simp add: after_shutdown_def)
  have runs: "map (\<lambda>d. FxRun d StatusOK) (concat (map (\<lambda>d. case d of None \<Rightarrow> [] | Some c \<Rightarrow> [c]) ds))
      = concat (map (\<lambda>d. case d of None \<Rightarrow> [] | Some c \<Rightarrow> [FxRun c StatusOK]) ds)" for ds :: "'c option list"
    by (induction ds) (simp_all split: option.split)
  show ?thesis
    unfolding Let_def using shutdowns_register [OF assms(1,2), of E ds] assms(3)
    by (intro conjI shutdowns_emit [OF assms(1,2)] down)
      (simp_all add: node_shutdown_def state_num_def run_opt_def after_shutdown_def nd_emit_def on_w_def emit_def runs)
qed

theorem shutdown_runs_every_closure_witness:
  "nd_state (after_shutdown (fold (node_shutdown sample_node_env) [Some 3, None, Some 4] sample_follower)) = STATE_SHUTDOWN"
proof -
  have "nd_state sample_follower = STATE_FOLLOWER" "nd_shutdown_continuations sample_follower = []"
    by (simp_all add: sample_follower_def sample_node_def node_new_def)
  then show ?thesis
    using shutdown_runs_every_closure [of sample_follower sample_node_env "[Some 3, None, Some 4]"] by (simp add: Let_def)
qed

end
