(* ===== verification/LogFile.thy ===== *)
theory LogFile
  imports MemoryLog RaftMeta
begin

unbundle bit_operations_syntax

section \<open>Entries in segment files (log.h, log.cpp: the format; log_entry.cpp: configurations)\<close>

text \<open>
  A segment file is a sequence of records: a header of 24 bytes in network order and the data of the
  entry. Both carry a checksum. A file is the string of its bytes. The two checksums, the serialised
  form of a configuration and of the meta file are code outside the repository: parameters.
  \<open>log_env\<close> also says which calls to the file system succeed.
\<close>

datatype file_name =
  OpenSeg int | ClosedSeg int int | TmpSeg file_name | OtherName string

datatype checksum_type = CHECKSUM_MURMURHASH32 | CHECKSUM_CRC32

record log_env =
  lf_str2ip :: "string \<Rightarrow> 32 word option"
  lf_endpoint2str :: "endpoint \<Rightarrow> string"
  lf_conf_ser :: "string list \<times> string list \<Rightarrow> string option"
  lf_conf_deser :: "string \<Rightarrow> (string list \<times> string list) option"
  lf_meta_ser :: "int \<Rightarrow> string"
  lf_meta_deser :: "string \<Rightarrow> int"
  lf_murmurhash32 :: "string \<Rightarrow> 32 word"
  lf_crc32 :: "string \<Rightarrow> 32 word"
  lf_fast_crc32 :: bool
  lf_recover_from_corrupt :: bool
  lf_max_segment_size :: int
  lf_raft_sync :: bool
  lf_sync_by_bytes :: bool
  lf_sync_per_bytes :: int
  lf_sync_segments :: bool
  lf_dir_ok :: bool
  lf_list_ok :: bool
  lf_stale_enoent :: bool
  lf_meta_file :: file_env
  lf_create_ok :: "int \<Rightarrow> bool"
  lf_open_ok :: "file_name \<Rightarrow> bool"
  lf_fstat_ok :: bool
  lf_pread_ok :: "nat \<Rightarrow> bool"
  lf_written :: "int \<Rightarrow> nat option"
  lf_fsync_ok :: bool
  lf_rename_ok :: "file_name \<Rightarrow> bool"
  lf_unlinked :: "file_name \<Rightarrow> bool"
  lf_ftruncate_ok :: bool
  lf_lseek_ok :: bool

subsection \<open>Headers\<close>

definition pack32 :: "32 word \<Rightarrow> string" where
  "pack32 w = net32 (unat w)"

definition unpack32 :: "string \<Rightarrow> 32 word" where
  "unpack32 s = word_of_nat (host32 (take 4 s))"

definition pack64 :: "64 word \<Rightarrow> string" where
  "pack64 w = net32 (unat (drop_bit 32 w)) @ net32 (unat (take_bit 32 w))"

definition unpack64 :: "string \<Rightarrow> 64 word" where
  "unpack64 s = push_bit 32 (word_of_nat (host32 (take 4 s))) OR word_of_nat (host32 (take 4 (drop 4 s)))"

definition type_num :: "entry_type \<Rightarrow> 32 word" where
  "type_num t = (case t of ENTRY_TYPE_UNKNOWN \<Rightarrow> 0 | ENTRY_TYPE_NO_OP \<Rightarrow> 1 | ENTRY_TYPE_DATA \<Rightarrow> 2
                 | ENTRY_TYPE_CONFIGURATION \<Rightarrow> 3)"

text \<open>A number that is no entry type is kept by the code; the model reads it as the unknown type.\<close>

definition type_of_num :: "32 word \<Rightarrow> entry_type" where
  "type_of_num w = (if w = 1 then ENTRY_TYPE_NO_OP else if w = 2 then ENTRY_TYPE_DATA
                    else if w = 3 then ENTRY_TYPE_CONFIGURATION else ENTRY_TYPE_UNKNOWN)"

definition checksum_num :: "checksum_type \<Rightarrow> 32 word" where
  "checksum_num c = (case c of CHECKSUM_MURMURHASH32 \<Rightarrow> 0 | CHECKSUM_CRC32 \<Rightarrow> 1)"

definition get_checksum :: "log_env \<Rightarrow> checksum_type \<Rightarrow> string \<Rightarrow> 32 word" where
  "get_checksum E c data = (case c of CHECKSUM_MURMURHASH32 \<Rightarrow> lf_murmurhash32 E data | CHECKSUM_CRC32 \<Rightarrow> lf_crc32 E data)"

definition verify_checksum :: "log_env \<Rightarrow> 32 word \<Rightarrow> string \<Rightarrow> 32 word \<Rightarrow> bool" where
  "verify_checksum E checksum_type data v =
     (if checksum_type = 0 then v = lf_murmurhash32 E data
      else if checksum_type = 1 then v = lf_crc32 E data
      else False)"

record entry_header =
  eh_term :: int
  eh_type :: "32 word"
  eh_checksum_type :: "32 word"
  eh_data_len :: "32 word"
  eh_data_checksum :: "32 word"

definition ENTRY_HEADER_SIZE :: nat where
  "ENTRY_HEADER_SIZE = 24"

text \<open>The header \<open>append\<close> writes; the length of the data is cut to 32 bits.\<close>

definition header_bytes :: "log_env \<Rightarrow> checksum_type \<Rightarrow> int \<Rightarrow> entry_type \<Rightarrow> string \<Rightarrow> string" where
  "header_bytes E c term typ data =
     (let meta_field = push_bit 24 (type_num typ) OR push_bit 16 (checksum_num c);
          buf = pack64 (word_of_int term) @ pack32 meta_field @ pack32 (word_of_nat (length data))
                @ pack32 (get_checksum E c data)
      in buf @ pack32 (get_checksum E c buf))"

text \<open>What \<open>_load_entry\<close> unpacks: the header and the header's checksum.\<close>

definition unpack_header :: "string \<Rightarrow> entry_header \<times> 32 word" where
  "unpack_header p =
     (let meta_field = unpack32 (drop 8 p)
      in (\<lparr>eh_term = sint (unpack64 p), eh_type = drop_bit 24 meta_field,
           eh_checksum_type = drop_bit 24 (push_bit 8 meta_field), eh_data_len = unpack32 (drop 12 p),
           eh_data_checksum = unpack32 (drop 16 p)\<rparr>, unpack32 (drop 20 p)))"

text \<open>
  \<open>_load_entry\<close>: 1 is \<open>Incomplete\<close>, -1 is \<open>Corrupted\<close>. \<open>file_pread\<close> reads
  what the file has.
\<close>

datatype load_error = Incomplete | Corrupted

definition file_pread :: "log_env \<Rightarrow> string \<Rightarrow> nat \<Rightarrow> nat \<Rightarrow> string option" where
  "file_pread E file off n = (if lf_pread_ok E off then Some (take n (drop off file)) else None)"

definition load_entry ::
  "log_env \<Rightarrow> string \<Rightarrow> nat \<Rightarrow> nat \<Rightarrow> bool \<Rightarrow> load_error + entry_header \<times> string" where
  "load_entry E file off size_hint want_data =
     (let to_read = max size_hint ENTRY_HEADER_SIZE in
      case file_pread E file off to_read of
        None \<Rightarrow> Inl Corrupted
      | Some buf \<Rightarrow>
          if length buf \<noteq> to_read then Inl Incomplete
          else
            (let (h, header_checksum) = unpack_header buf;
                 len = ENTRY_HEADER_SIZE + unat (eh_data_len h)
             in if \<not> verify_checksum E (eh_checksum_type h) (take (ENTRY_HEADER_SIZE - 4) buf) header_checksum
                then Inl Corrupted
                else if \<not> want_data then Inr (h, [])
                else
                  (let check = (\<lambda>buf1. let data = drop ENTRY_HEADER_SIZE buf1
                                       in if verify_checksum E (eh_checksum_type h) data (eh_data_checksum h)
                                          then Inr (h, data) else Inl Corrupted)
                   in if length buf < len
                      then (case file_pread E file (off + length buf) (len - length buf) of
                              None \<Rightarrow> Inl Corrupted
                            | Some rest \<Rightarrow> if length rest \<noteq> len - length buf then Inl Incomplete
                                           else check (buf @ rest))
                      else check (take len buf))))"

subsection \<open>The data of an entry\<close>

definition parse_configuration_meta :: "log_env \<Rightarrow> string \<Rightarrow> (peer_id list \<times> peer_id list option) option" where
  "parse_configuration_meta E data =
     (case lf_conf_deser E data of
        None \<Rightarrow> None
      | Some (ps, os) \<Rightarrow>
          Some (map (peer_of_string (lf_str2ip E)) ps,
                if os = [] then None else Some (map (peer_of_string (lf_str2ip E)) os)))"

text \<open>An entry without peers is a null pointer the code dereferences; the model fails instead.\<close>

definition serialize_configuration_meta :: "log_env \<Rightarrow> log_entry \<Rightarrow> string option" where
  "serialize_configuration_meta E e =
     (case e_peers e of
        None \<Rightarrow> None
      | Some ps \<Rightarrow>
          lf_conf_ser E (map (peer_to_string (lf_endpoint2str E)) ps,
            case e_old_peers e of None \<Rightarrow> [] | Some os \<Rightarrow> map (peer_to_string (lf_endpoint2str E)) os))"

definition entry_data :: "log_env \<Rightarrow> log_entry \<Rightarrow> string option" where
  "entry_data E e =
     (case e_type e of
        ENTRY_TYPE_DATA \<Rightarrow> Some (e_data e)
      | ENTRY_TYPE_NO_OP \<Rightarrow> Some []
      | ENTRY_TYPE_CONFIGURATION \<Rightarrow> serialize_configuration_meta E e
      | ENTRY_TYPE_UNKNOWN \<Rightarrow> None)"

definition entry_of :: "log_env \<Rightarrow> int \<Rightarrow> entry_header \<Rightarrow> string \<Rightarrow> log_entry option" where
  "entry_of E index h data =
     (let e = \<lparr>e_type = type_of_num (eh_type h), e_id = LogId index (eh_term h), e_peers = None,
               e_old_peers = None, e_data = []\<rparr>
      in case type_of_num (eh_type h) of
           ENTRY_TYPE_DATA \<Rightarrow> Some (e\<lparr>e_data := data\<rparr>)
         | ENTRY_TYPE_CONFIGURATION \<Rightarrow>
             (case parse_configuration_meta E data of
                None \<Rightarrow> None
              | Some (ps, os) \<Rightarrow> Some (e\<lparr>e_peers := Some ps, e_old_peers := os\<rparr>))
         | _ \<Rightarrow> Some e)"

subsection \<open>What is written is read back\<close>

lemma length_pack [simp]: "length (pack32 w) = 4" "length (pack64 v) = 8"
  by (simp_all add: pack32_def pack64_def net32_def)

lemma length_net32 [simp]: "length (net32 n) = 4"
  by (simp add: net32_def)

lemma host32_unat: "host32 (net32 (unat (w :: 32 word))) = unat w"
  using unsigned_less [of w] by (intro host32_net32) simp

lemma unpack32_pack32 [simp]: "unpack32 (pack32 w @ s) = w"
  by (simp add: unpack32_def pack32_def host32_unat)

lemma halves_bound:
  fixes w :: "64 word"
  shows "unat (drop_bit 32 w) < 2 ^ 32" "unat (take_bit 32 w) < 2 ^ 32"
proof -
  have "unat w < 2 ^ 32 * 2 ^ 32"
    using unsigned_less [of w] by simp
  then have "unat w div 2 ^ 32 < 2 ^ 32"
    by (rule less_mult_imp_div_less)
  moreover have "unat (drop_bit 32 w) = unat w div 2 ^ 32"
    using \<open>unat w < 2 ^ 32 * 2 ^ 32\<close>
    by (subst unsigned_drop_bit_eq) (simp add: take_bit_nat_eq_self drop_bit_eq_div)
  ultimately show "unat (drop_bit 32 w) < 2 ^ 32"
    by simp
  show "unat (take_bit 32 w) < 2 ^ 32"
    unfolding unsigned_take_bit_eq by (rule take_bit_nat_less_exp)
qed

lemma unpack64_pack64 [simp]: "unpack64 (pack64 w @ s) = w"
proof -
  have "push_bit 32 (drop_bit 32 w) OR take_bit 32 w = w"
    by (rule bit_eqI) (auto simp: bit_simps)
  then show ?thesis
    by (simp add: unpack64_def pack64_def host32_net32 [OF halves_bound(1)] host32_net32 [OF halves_bound(2)])
qed

lemma meta_field_type:
  "drop_bit 24 (push_bit 24 (type_num t) OR push_bit 16 (checksum_num c) :: 32 word) = type_num t"
  by (cases t; cases c) (simp_all add: type_num_def checksum_num_def)

lemma meta_field_checksum:
  "drop_bit 24 (push_bit 8 (push_bit 24 (type_num t) OR push_bit 16 (checksum_num c) :: 32 word)) = checksum_num c"
  by (cases t; cases c) (simp_all add: type_num_def checksum_num_def)

lemma type_of_type_num [simp]: "type_of_num (type_num t) = t"
  by (cases t) (simp_all add: type_of_num_def type_num_def)

lemma verify_get_checksum [simp]: "verify_checksum E (checksum_num c) data v \<longleftrightarrow> v = get_checksum E c data"
  by (cases c) (simp_all add: verify_checksum_def get_checksum_def checksum_num_def)

definition header_of :: "log_env \<Rightarrow> checksum_type \<Rightarrow> int \<Rightarrow> entry_type \<Rightarrow> string \<Rightarrow> entry_header" where
  "header_of E c term typ data =
     \<lparr>eh_term = sint (word_of_int term :: 64 word), eh_type = type_num typ, eh_checksum_type = checksum_num c,
      eh_data_len = word_of_nat (length data), eh_data_checksum = get_checksum E c data\<rparr>"

lemma length_header_bytes [simp]: "length (header_bytes E c term typ data) = 24"
  by (simp add: header_bytes_def Let_def)

lemma unpack_header_bytes:
  "unpack_header (header_bytes E c term typ data @ s) =
     (header_of E c term typ data, get_checksum E c (take 20 (header_bytes E c term typ data)))"
proof -
  have d: "drop 12 (pack64 v @ pack32 w @ s) = s" "drop 16 (pack64 v @ pack32 w @ pack32 x @ s) = s"
    "drop 20 (pack64 v @ pack32 w @ pack32 x @ pack32 y @ s) = s" "drop 8 (pack64 v @ s) = s" for v w x y s
    by simp_all
  show ?thesis
    by (simp only: unpack_header_def header_bytes_def Let_def append_assoc d unpack32_pack32 unpack64_pack64)
      (simp only: header_of_def meta_field_type meta_field_checksum refl, simp)
qed

text \<open>The record of an entry, and the entries that survive being stored.\<close>

definition enc :: "log_env \<Rightarrow> checksum_type \<Rightarrow> log_entry \<Rightarrow> string" where
  "enc E c e = (case entry_data E e of None \<Rightarrow> [] | Some d \<Rightarrow> header_bytes E c (e_term e) (e_type e) d @ d)"

definition storable :: "log_env \<Rightarrow> log_entry \<Rightarrow> bool" where
  "storable E e \<longleftrightarrow> int64 (e_term e) \<and>
     (case e_type e of
        ENTRY_TYPE_DATA \<Rightarrow> e_peers e = None \<and> e_old_peers e = None \<and> length (e_data e) < 2 ^ 32
      | ENTRY_TYPE_NO_OP \<Rightarrow> e_peers e = None \<and> e_old_peers e = None \<and> e_data e = []
      | ENTRY_TYPE_CONFIGURATION \<Rightarrow>
          e_data e = [] \<and>
          (case (e_peers e, serialize_configuration_meta E e) of
             (Some ps, Some s) \<Rightarrow> length s < 2 ^ 32 \<and> parse_configuration_meta E s = Some (ps, e_old_peers e)
           | _ \<Rightarrow> False)
      | ENTRY_TYPE_UNKNOWN \<Rightarrow> False)"

definition the_data :: "log_env \<Rightarrow> log_entry \<Rightarrow> string" where
  "the_data E e = (case entry_data E e of None \<Rightarrow> [] | Some d \<Rightarrow> d)"

abbreviation header_for :: "log_env \<Rightarrow> checksum_type \<Rightarrow> log_entry \<Rightarrow> entry_header" where
  "header_for E c e \<equiv> header_of E c (e_term e) (e_type e) (the_data E e)"

lemma storable_data:
  assumes "storable E e"
  shows "entry_data E e = Some (the_data E e)" "length (the_data E e) < 2 ^ 32"
  using assms by (auto simp: storable_def entry_data_def the_data_def split: entry_type.splits option.splits)

lemma enc_storable:
  "storable E e \<Longrightarrow> enc E c e = header_bytes E c (e_term e) (e_type e) (the_data E e) @ the_data E e"
  by (simp add: enc_def storable_data)

lemma length_enc: "storable E e \<Longrightarrow> length (enc E c e) = 24 + length (the_data E e)"
  by (simp add: enc_storable)

lemma header_for_len: "storable E e \<Longrightarrow> unat (eh_data_len (header_for E c e)) = length (the_data E e)"
  using storable_data(2) [of E e] by (simp add: header_of_def unat_of_nat)

lemma entry_of_header:
  assumes "storable E e"
  shows "entry_of E (e_index e) (header_for E c e) (the_data E e) = Some e"
proof -
  have t: "sint (word_of_int (e_term e) :: 64 word) = e_term e"
    using assms by (simp add: storable_def int64_def signed_of_int signed_take_bit_int_eq_self)
  have e: "\<lparr>e_type = e_type e, e_id = LogId (e_index e) (e_term e), e_peers = e_peers e, e_old_peers = e_old_peers e,
      e_data = e_data e\<rparr> = e"
    by (simp add: log_id.expand)
  show ?thesis
    using assms e
    by (auto simp: entry_of_def header_of_def t storable_def the_data_def entry_data_def Let_def
        split: entry_type.splits option.splits)
qed

subsection \<open>Reading a record back\<close>

lemma unpack_header_bytes_only:
  "unpack_header (header_bytes E c term typ data) =
     (header_of E c term typ data, get_checksum E c (take 20 (header_bytes E c term typ data)))"
  using unpack_header_bytes [where s = "[]"] by simp

lemma load_header:
  assumes "lf_pread_ok E (length pre)" and "24 \<le> n" "n \<le> length (enc E c e @ post)" and "storable E e"
  shows "load_entry E (pre @ enc E c e @ post) (length pre) n False = Inr (header_for E c e, [])"
proof -
  let ?h = "header_bytes E c (e_term e) (e_type e) (the_data E e)"
  have "take n (enc E c e @ post) = ?h @ take (n - 24) (the_data E e @ post)"
    using assms(2,4) by (simp add: enc_storable)
  then show ?thesis
    using assms
    by (simp add: load_entry_def file_pread_def ENTRY_HEADER_SIZE_def unpack_header_bytes header_of_def Let_def max_def)
qed

lemma load_data:
  assumes "lf_pread_ok E (length pre)" and "storable E e"
  shows "load_entry E (pre @ enc E c e @ post) (length pre) (length (enc E c e)) True
      = Inr (header_for E c e, the_data E e)"
proof -
  let ?h = "header_bytes E c (e_term e) (e_type e) (the_data E e)"
  have t: "take (length (enc E c e)) (enc E c e @ post) = ?h @ the_data E e"
    using assms(2) by (simp add: enc_storable)
  have "eh_checksum_type (header_for E c e) = checksum_num c"
    "eh_data_checksum (header_for E c e) = get_checksum E c (the_data E e)"
    by (simp_all add: header_of_def)
  then show ?thesis
    using assms t header_for_len [OF assms(2), of c] length_enc [OF assms(2), of c]
    by (simp add: load_entry_def file_pread_def ENTRY_HEADER_SIZE_def unpack_header_bytes Let_def max_def)
qed

lemma load_torn:
  assumes "lf_pread_ok E (length pre)" and "storable E e" and "k < length (enc E c e)"
  shows "load_entry E (pre @ take k (enc E c e)) (length pre) 24 False =
     (if k < 24 then Inl Incomplete else Inr (header_for E c e, []))"
proof (cases "k < 24")
  case True
  then show ?thesis
    using assms by (simp add: load_entry_def file_pread_def ENTRY_HEADER_SIZE_def Let_def)
next
  case False
  then have "take 24 (take k (enc E c e)) = header_bytes E c (e_term e) (e_type e) (the_data E e)"
    using assms(2) by (simp add: enc_storable)
  with False assms show ?thesis
    by (simp add: load_entry_def file_pread_def ENTRY_HEADER_SIZE_def unpack_header_bytes_only header_of_def Let_def)
qed

end
