(* ===== verification/Segment.thy ===== *)
theory Segment
  imports LogFile "HOL-Library.AList"
begin

section \<open>Segments of the log (log.cpp: Segment)\<close>

text \<open>
  A segment is one file of consecutive entries. The disk is the directory of the log: names of files,
  their contents by inode, and the meta file; a segment keeps the inode its descriptor refers to. The
  descriptor of an open segment is at the end of its file, where \<open>create\<close>, \<open>load\<close> and
  \<open>truncate\<close> leave it, so a write appends. Contents are durable once written; a crash loses
  memory and may leave a record written in part. The file of an unlinked segment is renamed and then
  removed in the background.
\<close>

record disk =
  dk_dir :: "(file_name \<times> nat) list"
  dk_data :: "nat \<Rightarrow> string"
  dk_next :: nat
  dk_meta :: pb_file

definition disk_new :: disk where
  "disk_new = \<lparr>dk_dir = [], dk_data = (\<lambda>i. []), dk_next = 0, dk_meta = \<lparr>pb_path = None, pb_tmp = None\<rparr>\<rparr>"

abbreviation dk_lookup :: "disk \<Rightarrow> file_name \<Rightarrow> nat option" where
  "dk_lookup d \<equiv> map_of (dk_dir d)"

definition dk_write :: "nat \<Rightarrow> string \<Rightarrow> disk \<Rightarrow> disk" where
  "dk_write i s d = d\<lparr>dk_data := (dk_data d)(i := s)\<rparr>"

text \<open>\<open>open\<close> with \<^verbatim>\<open>O_CREAT | O_TRUNC\<close>, \<open>rename\<close> and \<open>unlink\<close>.\<close>

definition dk_create :: "file_name \<Rightarrow> disk \<Rightarrow> nat \<times> disk" where
  "dk_create name d =
     (case dk_lookup d name of
        Some i \<Rightarrow> (i, dk_write i [] d)
      | None \<Rightarrow> (dk_next d, dk_write (dk_next d) []
                             (d\<lparr>dk_dir := (name, dk_next d) # dk_dir d, dk_next := dk_next d + 1\<rparr>)))"

definition dk_unlink :: "file_name \<Rightarrow> disk \<Rightarrow> disk" where
  "dk_unlink name d = d\<lparr>dk_dir := AList.delete name (dk_dir d)\<rparr>"

definition dk_rename :: "log_env \<Rightarrow> file_name \<Rightarrow> file_name \<Rightarrow> disk \<Rightarrow> bool \<times> disk" where
  "dk_rename E old new d =
     (if \<not> lf_rename_ok E old then (False, d)
      else case dk_lookup d old of
             None \<Rightarrow> (False, d)
           | Some i \<Rightarrow> (True, if old = new then d
                              else d\<lparr>dk_dir := (new, i) # AList.delete old (AList.delete new (dk_dir d))\<rparr>))"

record segment =
  sg_first :: int
  sg_last :: int
  sg_is_open :: bool
  sg_bytes :: nat
  sg_unsynced_bytes :: nat
  sg_fd :: "nat option"
  sg_checksum_type :: checksum_type
  sg_offset_and_term :: "(nat \<times> int) list"

text \<open>The constructors: of an open segment, of a closed one.\<close>

definition open_segment_new :: "int \<Rightarrow> checksum_type \<Rightarrow> segment" where
  "open_segment_new first_index c =
     \<lparr>sg_first = first_index, sg_last = first_index - 1, sg_is_open = True, sg_bytes = 0, sg_unsynced_bytes = 0,
      sg_fd = None, sg_checksum_type = c, sg_offset_and_term = []\<rparr>"

definition closed_segment_new :: "int \<Rightarrow> int \<Rightarrow> checksum_type \<Rightarrow> segment" where
  "closed_segment_new first_index last_index c =
     \<lparr>sg_first = first_index, sg_last = last_index, sg_is_open = False, sg_bytes = 0, sg_unsynced_bytes = 0,
      sg_fd = None, sg_checksum_type = c, sg_offset_and_term = []\<rparr>"

definition file_name_of :: "segment \<Rightarrow> file_name" where
  "file_name_of s = (if sg_is_open s then OpenSeg (sg_first s) else ClosedSeg (sg_first s) (sg_last s))"

definition fd_data :: "segment \<Rightarrow> disk \<Rightarrow> string" where
  "fd_data s d = (case sg_fd s of None \<Rightarrow> [] | Some i \<Rightarrow> dk_data d i)"

definition fd_write :: "segment \<Rightarrow> string \<Rightarrow> disk \<Rightarrow> disk" where
  "fd_write s data d = (case sg_fd s of None \<Rightarrow> d | Some i \<Rightarrow> dk_write i data d)"

subsection \<open>Operations\<close>

definition seg_create :: "log_env \<Rightarrow> segment \<Rightarrow> disk \<Rightarrow> rc \<times> segment \<times> disk" where
  "seg_create E s d =
     (if \<not> sg_is_open s then (RcFail, s, d)
      else if \<not> lf_create_ok E (sg_first s) then (RcFail, s\<lparr>sg_fd := None\<rparr>, d)
      else case dk_create (OpenSeg (sg_first s)) d of (i, d1) \<Rightarrow> (RcOk, s\<lparr>sg_fd := Some i\<rparr>, d1))"

definition get_meta :: "int \<Rightarrow> segment \<Rightarrow> (nat \<times> nat \<times> int) option" where
  "get_meta index s =
     (if index > sg_last s \<or> index < sg_first s then None
      else if sg_last s = sg_first s - 1 then None
      else
        (let meta_index = nat (index - sg_first s);
             entry_cursor = fst (sg_offset_and_term s ! meta_index);
             next_cursor = (if index < sg_last s then fst (sg_offset_and_term s ! (meta_index + 1)) else sg_bytes s)
         in Some (entry_cursor, next_cursor - entry_cursor, snd (sg_offset_and_term s ! meta_index))))"

text \<open>
  The loop of \<open>load\<close>: its code, whether it met a corrupted header, the offsets and terms found,
  the offset where it stopped. A configuration whose data cannot be read ends it like an incomplete
  record; one that cannot be parsed is an error.
\<close>

definition load_configuration ::
  "log_env \<Rightarrow> string \<Rightarrow> nat \<Rightarrow> nat \<Rightarrow> int \<Rightarrow> int \<Rightarrow> config_manager \<Rightarrow> rc + config_manager" where
  "load_configuration E file off skip_len i term cm =
     (case load_entry E file off skip_len True of
        Inl e \<Rightarrow> Inl RcOk
      | Inr (h, data) \<Rightarrow>
          (case parse_configuration_meta E data of
             None \<Rightarrow> Inl RcFail
           | Some (ps, os) \<Rightarrow>
               Inr (snd (cm_add (conf_entry_of \<lparr>e_type = ENTRY_TYPE_UNKNOWN, e_id = LogId i term, e_peers = Some ps,
                                                e_old_peers = os, e_data = []\<rparr>) cm))))"

function load_loop ::
  "log_env \<Rightarrow> string \<Rightarrow> nat \<Rightarrow> int \<Rightarrow> config_manager
   \<Rightarrow> rc \<times> bool \<times> (nat \<times> int) list \<times> nat \<times> config_manager" where
  "load_loop E file off i cm =
     (if off \<ge> length file then (RcOk, False, [], off, cm)
      else case load_entry E file off ENTRY_HEADER_SIZE False of
             Inl Incomplete \<Rightarrow> (RcOk, False, [], off, cm)
           | Inl Corrupted \<Rightarrow> (RcFail, True, [], off, cm)
           | Inr (h, _) \<Rightarrow>
               (let skip_len = ENTRY_HEADER_SIZE + unat (eh_data_len h)
                in if off + skip_len > length file then (RcOk, False, [], off, cm)
                   else case (if type_of_num (eh_type h) = ENTRY_TYPE_CONFIGURATION
                              then load_configuration E file off skip_len i (eh_term h) cm else Inr cm) of
                          Inl rc \<Rightarrow> (rc, False, [], off, cm)
                        | Inr cm1 \<Rightarrow>
                            (case load_loop E file (off + skip_len) (i + 1) cm1 of
                               (rc, corrupted, metas, stop, cm2) \<Rightarrow>
                                 (rc, corrupted, (off, eh_term h) # metas, stop, cm2))))"
  by pat_completeness auto
termination
  by (relation "measure (\<lambda>(E, file, off, i, cm). length file - off)") (auto simp: ENTRY_HEADER_SIZE_def)

declare load_loop.simps [simp del]

definition seg_load :: "log_env \<Rightarrow> config_manager \<Rightarrow> segment \<Rightarrow> disk \<Rightarrow> rc \<times> segment \<times> disk \<times> config_manager" where
  "seg_load E cm s d =
     (if \<not> lf_open_ok E (file_name_of s) then (RcFail, s, d, cm)
      else case dk_lookup d (file_name_of s) of
             None \<Rightarrow> (RcFail, s, d, cm)
           | Some i \<Rightarrow>
               if \<not> lf_fstat_ok E then (RcFail, s\<lparr>sg_fd := None\<rparr>, d, cm)
               else
                 (let file = dk_data d i;
                      (rc, corrupted, metas, entry_off, cm1) = load_loop E file 0 (sg_first s) cm;
                      s1 = s\<lparr>sg_fd := Some i, sg_offset_and_term := sg_offset_and_term s @ metas\<rparr>;
                      actual_last_index = sg_first s - 1 + int (length metas);
                      ret = (if rc = RcOk \<and> \<not> sg_is_open s \<and> actual_last_index \<noteq> sg_last s then RcFail else rc)
                  in if ret \<noteq> RcOk \<and> (\<not> sg_is_open s \<or> \<not> lf_recover_from_corrupt E \<or> \<not> corrupted)
                     then (ret, s1, d, cm1)
                     else
                       (let s2 = (if sg_is_open s then s1\<lparr>sg_last := actual_last_index\<rparr> else s1);
                            s3 = s2\<lparr>sg_bytes := entry_off\<rparr>
                        in if entry_off \<noteq> length file
                           then if lf_ftruncate_ok E then (RcOk, s3, dk_write i (take entry_off file) d, cm1)
                                else (RcFail, s3, d, cm1)
                           else (RcOk, s3, d, cm1))))"

text \<open>A write that fails may have written a part of the record.\<close>

definition seg_append :: "log_env \<Rightarrow> log_entry \<Rightarrow> segment \<Rightarrow> disk \<Rightarrow> rc \<times> segment \<times> disk" where
  "seg_append E e s d =
     (if \<not> sg_is_open s then (RcErr EINVAL, s, d)
      else if e_index e \<noteq> sg_last s + 1 then (RcErr ERANGE, s, d)
      else case entry_data E e of
             None \<Rightarrow> (RcFail, s, d)
           | Some data \<Rightarrow>
               (let rec = header_bytes E (sg_checksum_type s) (e_term e) (e_type e) data @ data
                in case lf_written E (e_index e) of
                     Some n \<Rightarrow> (RcFail, s, fd_write s (fd_data s d @ take n rec) d)
                   | None \<Rightarrow>
                       (RcOk,
                        s\<lparr>sg_offset_and_term := sg_offset_and_term s @ [(sg_bytes s, e_term e)],
                          sg_last := sg_last s + 1, sg_bytes := sg_bytes s + length rec,
                          sg_unsynced_bytes := sg_unsynced_bytes s + length rec\<rparr>,
                        fd_write s (fd_data s d @ rec) d)))"

definition seg_sync :: "log_env \<Rightarrow> bool \<Rightarrow> bool \<Rightarrow> segment \<Rightarrow> rc \<times> segment" where
  "seg_sync E will_sync has_conf s =
     (if sg_last s < sg_first s then (RcOk, s)
      else if will_sync
      then if \<not> lf_raft_sync E then (RcOk, s)
           else if lf_sync_by_bytes E \<and> lf_sync_per_bytes E > int (sg_unsynced_bytes s) \<and> \<not> has_conf then (RcOk, s)
           else (if lf_fsync_ok E then RcOk else RcFail, s\<lparr>sg_unsynced_bytes := 0\<rparr>)
      else (RcOk, s))"

definition seg_get :: "log_env \<Rightarrow> int \<Rightarrow> segment \<Rightarrow> disk \<Rightarrow> log_entry option" where
  "seg_get E index s d =
     (case get_meta index s of
        None \<Rightarrow> None
      | Some (offset, len, term) \<Rightarrow>
          (case load_entry E (fd_data s d) offset len True of
             Inl e \<Rightarrow> None
           | Inr (h, data) \<Rightarrow> entry_of E index h data))"

definition seg_get_term :: "int \<Rightarrow> segment \<Rightarrow> int" where
  "seg_get_term index s = (case get_meta index s of None \<Rightarrow> 0 | Some (offset, len, term) \<Rightarrow> term)"

definition seg_close :: "log_env \<Rightarrow> bool \<Rightarrow> segment \<Rightarrow> disk \<Rightarrow> rc \<times> segment \<times> disk" where
  "seg_close E will_sync s d =
     (let ret = (if sg_last s > sg_first s \<and> lf_sync_segments E \<and> will_sync \<and> \<not> lf_fsync_ok E then RcFail else RcOk)
      in if ret \<noteq> RcOk then (ret, s, d)
         else case dk_rename E (OpenSeg (sg_first s)) (ClosedSeg (sg_first s) (sg_last s)) d of
                (ok, d1) \<Rightarrow> (if ok then RcOk else RcFail, s\<lparr>sg_is_open := False\<rparr>, d1))"

definition seg_unlink :: "log_env \<Rightarrow> segment \<Rightarrow> disk \<Rightarrow> rc \<times> disk" where
  "seg_unlink E s d =
     (case dk_rename E (file_name_of s) (TmpSeg (file_name_of s)) d of
        (ok, d1) \<Rightarrow>
          if \<not> ok then (RcFail, d1)
          else (RcOk, if lf_unlinked E (file_name_of s) then dk_unlink (TmpSeg (file_name_of s)) d1 else d1))"

definition seg_truncate :: "log_env \<Rightarrow> int \<Rightarrow> segment \<Rightarrow> disk \<Rightarrow> rc \<times> segment \<times> disk" where
  "seg_truncate E last_index_kept s d =
     (if last_index_kept \<ge> sg_last s then (RcOk, s, d)
      else
        (let first_truncate_in_offset = nat (last_index_kept + 1 - sg_first s);
             truncate_size = fst (sg_offset_and_term s ! first_truncate_in_offset);
             (ok, d1) = (if sg_is_open s then (True, d)
                         else dk_rename E (ClosedSeg (sg_first s) (sg_last s)) (OpenSeg (sg_first s)) d)
         in if \<not> ok then (RcFail, s, d1)
            else
              (let s1 = s\<lparr>sg_is_open := True\<rparr>
               in if \<not> lf_ftruncate_ok E then (RcFail, s1, d1)
                  else
                    (let d2 = fd_write s1 (take truncate_size (fd_data s1 d1)) d1
                     in if \<not> lf_lseek_ok E then (RcFail, s1, d2)
                        else (RcOk, s1\<lparr>sg_offset_and_term := take first_truncate_in_offset (sg_offset_and_term s1),
                                      sg_last := last_index_kept, sg_bytes := truncate_size\<rparr>, d2)))))"

end
