(* ===== verification/SegmentLog.thy ===== *)
theory SegmentLog
  imports Segment
begin

section \<open>The log in segment files (log.h, log.cpp: SegmentLogStorage)\<close>

text \<open>
  Closed segments are kept in a map ordered by their first index, the last, open one apart. The
  directory is listed in the order of its entries. \<open>seg_log\<close> owns the disk of its directory.
  Latency metrics and logging are not modelled.
\<close>

record seg_log =
  sl_first :: int
  sl_last :: int
  sl_checksum_type :: checksum_type
  sl_enable_sync :: bool
  sl_segments :: "(int \<times> segment) list"
  sl_open :: "segment option"
  sl_disk :: disk

definition seg_log_new :: "bool \<Rightarrow> disk \<Rightarrow> seg_log" where
  "seg_log_new enable_sync d =
     \<lparr>sl_first = 1, sl_last = 0, sl_checksum_type = CHECKSUM_MURMURHASH32, sl_enable_sync = enable_sync,
      sl_segments = [], sl_open = None, sl_disk = d\<rparr>"

fun segment_map_insert :: "segment \<Rightarrow> (int \<times> segment) list \<Rightarrow> (int \<times> segment) list" where
  "segment_map_insert s [] = [(sg_first s, s)]"
| "segment_map_insert s ((k, x) # m) =
     (if sg_first s < k then (sg_first s, s) # (k, x) # m
      else if sg_first s = k then (k, s) # m
      else (k, x) # segment_map_insert s m)"

definition segment_map_erase :: "int \<Rightarrow> (int \<times> segment) list \<Rightarrow> (int \<times> segment) list" where
  "segment_map_erase k m = filter (\<lambda>(i, s). i \<noteq> k) m"

subsection \<open>The meta file and the directory\<close>

definition sl_save_meta :: "log_env \<Rightarrow> int \<Rightarrow> seg_log \<Rightarrow> rc \<times> seg_log" where
  "sl_save_meta E log_index l =
     (case pb_save (lf_meta_file E) (lf_meta_ser E log_index) (dk_meta (sl_disk l)) of
        (ok, f) \<Rightarrow> (if ok then RcOk else RcFail, l\<lparr>sl_disk := (sl_disk l)\<lparr>dk_meta := f\<rparr>\<rparr>))"

text \<open>
  What \<open>errno\<close> is when the meta cannot be read (the caller looks at it): a file cut short leaves
  the one of an earlier call.
\<close>

definition sl_load_meta :: "log_env \<Rightarrow> seg_log \<Rightarrow> errno option \<times> seg_log" where
  "sl_load_meta E l =
     (case pb_load (lf_meta_file E) (dk_meta (sl_disk l)) of
        Inl (Some e) \<Rightarrow> (Some e, l)
      | Inl None \<Rightarrow> (Some (if lf_stale_enoent E then ENOENT else EIO), l)
      | Inr s \<Rightarrow> (None, l\<lparr>sl_first := lf_meta_deser E s\<rparr>))"

fun is_tmp :: "file_name \<Rightarrow> bool" where
  "is_tmp (TmpSeg n) = True"
| "is_tmp (OtherName s) = (drop (length s - 4) s = ''.tmp'')"
| "is_tmp _ = False"

fun is_log_file :: "file_name \<Rightarrow> bool" where
  "is_log_file (OtherName s) = (take 4 s = ''log_'')"
| "is_log_file (TmpSeg n) = is_log_file n"
| "is_log_file _ = True"

text \<open>The meta file and its temporary one are in the directory too.\<close>

definition list_meta :: "log_env \<Rightarrow> bool \<Rightarrow> disk \<Rightarrow> disk" where
  "list_meta E is_empty d =
     (let name = OtherName ''log_meta'';
          f = dk_meta d;
          f1 = (if is_empty \<and> lf_unlinked E name then f\<lparr>pb_path := None\<rparr> else f)
      in d\<lparr>dk_meta := (if lf_unlinked E (TmpSeg name) then f1\<lparr>pb_tmp := None\<rparr> else f1)\<rparr>)"

text \<open>The loop over the directory: false when there are two open segments.\<close>

fun list_dir :: "log_env \<Rightarrow> bool \<Rightarrow> file_name list \<Rightarrow> seg_log \<Rightarrow> bool \<times> seg_log" where
  "list_dir E is_empty [] l = (True, l)"
| "list_dir E is_empty (n # ns) l =
     (if is_empty \<and> is_log_file n \<or> is_tmp n
      then list_dir E is_empty ns (l\<lparr>sl_disk := (if lf_unlinked E n then dk_unlink n (sl_disk l) else sl_disk l)\<rparr>)
      else case n of
             ClosedSeg first_index last_index \<Rightarrow>
               list_dir E is_empty ns
                 (l\<lparr>sl_segments := segment_map_insert (closed_segment_new first_index last_index (sl_checksum_type l))
                                     (sl_segments l)\<rparr>)
           | OpenSeg first_index \<Rightarrow>
               if sl_open l = None
               then list_dir E is_empty ns (l\<lparr>sl_open := Some (open_segment_new first_index (sl_checksum_type l))\<rparr>)
               else (False, l)
           | _ \<Rightarrow> list_dir E is_empty ns l)"

text \<open>The check of the closed segments, from the first on; \<open>-1\<close> stands for no segment yet.\<close>

fun check_segments ::
  "log_env \<Rightarrow> int \<Rightarrow> int \<Rightarrow> (int \<times> segment) list \<Rightarrow> disk \<Rightarrow> bool \<times> int \<times> (int \<times> segment) list \<times> disk" where
  "check_segments E first_log last_log_index [] d = (True, last_log_index, [], d)"
| "check_segments E first_log last_log_index ((k, s) # m) d =
     (if sg_first s > sg_last s then (False, last_log_index, (k, s) # m, d)
      else if last_log_index \<noteq> -1 \<and> sg_first s \<noteq> last_log_index + 1 then (False, last_log_index, (k, s) # m, d)
      else if last_log_index = -1 \<and> first_log < sg_first s then (False, last_log_index, (k, s) # m, d)
      else if last_log_index = -1 \<and> first_log > sg_last s
      then check_segments E first_log last_log_index m (snd (seg_unlink E s d))
      else (case check_segments E first_log (sg_last s) m d of
              (ok, last_log, m1, d1) \<Rightarrow> (ok, last_log, (k, s) # m1, d1)))"

definition sl_list_segments :: "log_env \<Rightarrow> bool \<Rightarrow> seg_log \<Rightarrow> rc \<times> seg_log" where
  "sl_list_segments E is_empty l =
     (if \<not> lf_list_ok E then (RcFail, l)
      else case list_dir E is_empty (map fst (dk_dir (sl_disk l))) (l\<lparr>sl_disk := list_meta E is_empty (sl_disk l)\<rparr>) of
             (ok, l1) \<Rightarrow>
               if \<not> ok then (RcFail, l1)
               else (case check_segments E (sl_first l1) (-1) (sl_segments l1) (sl_disk l1) of
                       (ok, last_log_index, m, d) \<Rightarrow>
                         (if ok then RcOk else RcFail, l1\<lparr>sl_segments := m, sl_disk := d\<rparr>)))"

fun load_closed ::
  "log_env \<Rightarrow> (int \<times> segment) list \<Rightarrow> config_manager \<Rightarrow> disk \<Rightarrow> int
   \<Rightarrow> rc \<times> (int \<times> segment) list \<times> config_manager \<times> disk \<times> int" where
  "load_closed E [] cm d last_log = (RcOk, [], cm, d, last_log)"
| "load_closed E ((k, s) # m) cm d last_log =
     (case seg_load E cm s d of
        (rc, s1, d1, cm1) \<Rightarrow>
          if rc \<noteq> RcOk then (rc, (k, s1) # m, cm1, d1, last_log)
          else (case load_closed E m cm1 d1 (sg_last s1) of
                  (rc2, m2, cm2, d2, last2) \<Rightarrow> (rc2, (k, s1) # m2, cm2, d2, last2)))"

definition load_open ::
  "log_env \<Rightarrow> config_manager \<Rightarrow> seg_log \<Rightarrow> rc \<times> seg_log \<times> config_manager" where
  "load_open E cm l =
     (case sl_open l of
        None \<Rightarrow> (RcOk, l, cm)
      | Some s \<Rightarrow>
          (case seg_load E cm s (sl_disk l) of
             (rc, s1, d1, cm1) \<Rightarrow>
               if rc \<noteq> RcOk then (rc, l\<lparr>sl_open := Some s1, sl_disk := d1\<rparr>, cm1)
               else if sl_first l > sg_last s1
               then (RcOk, l\<lparr>sl_open := None, sl_disk := snd (seg_unlink E s1 d1)\<rparr>, cm1)
               else (RcOk, l\<lparr>sl_open := Some s1, sl_disk := d1, sl_last := sg_last s1\<rparr>, cm1)))"

definition sl_load_segments ::
  "log_env \<Rightarrow> config_manager \<Rightarrow> seg_log \<Rightarrow> rc \<times> seg_log \<times> config_manager" where
  "sl_load_segments E cm l =
     (case load_closed E (sl_segments l) cm (sl_disk l) (sl_last l) of
        (rc, m, cm1, d, last_log) \<Rightarrow>
          (let l1 = l\<lparr>sl_segments := m, sl_disk := d, sl_last := last_log\<rparr>
           in if rc \<noteq> RcOk then (rc, l1, cm1)
              else case load_open E cm1 l1 of
                     (rc2, l2, cm2) \<Rightarrow>
                       if rc2 \<noteq> RcOk then (rc2, l2, cm2)
                       else (RcOk, if sl_last l2 = 0 then l2\<lparr>sl_last := sl_first l2 - 1\<rparr> else l2, cm2)))"

definition sl_init :: "log_env \<Rightarrow> config_manager \<Rightarrow> seg_log \<Rightarrow> rc \<times> seg_log \<times> config_manager" where
  "sl_init E cm l =
     (if lf_max_segment_size E < 0 then (RcFail, l, cm)
      else if \<not> lf_dir_ok E then (RcFail, l, cm)
      else
        (let l1 = l\<lparr>sl_checksum_type := (if lf_fast_crc32 E then CHECKSUM_CRC32 else CHECKSUM_MURMURHASH32)\<rparr>;
             (err, l2) = sl_load_meta E l1;
             is_empty = (err = Some ENOENT);
             (rc, l3, cm3) =
               (if err \<noteq> None \<and> \<not> is_empty then (RcFail, l2, cm)
                else case sl_list_segments E is_empty l2 of
                       (rc, l) \<Rightarrow> if rc \<noteq> RcOk then (rc, l, cm) else sl_load_segments E cm l)
         in if is_empty
            then (case sl_save_meta E 1 (l3\<lparr>sl_first := 1, sl_last := 0\<rparr>) of (rc, l) \<Rightarrow> (rc, l, cm3))
            else (rc, l3, cm3)))"

subsection \<open>Appending\<close>

text \<open>
  \<open>open_segment\<close> creates the open segment when there is none, and replaces a full one. When that
  fails the full one is put back, closed or not.
\<close>

definition create_open_segment :: "log_env \<Rightarrow> seg_log \<Rightarrow> bool \<times> seg_log" where
  "create_open_segment E l =
     (case seg_create E (open_segment_new (sl_last l + 1) (sl_checksum_type l)) (sl_disk l) of
        (rc, s, d) \<Rightarrow> (rc = RcOk, l\<lparr>sl_open := (if rc = RcOk then Some s else None), sl_disk := d\<rparr>))"

definition sl_open_segment :: "log_env \<Rightarrow> seg_log \<Rightarrow> bool \<times> seg_log" where
  "sl_open_segment E l =
     (case (if sl_open l = None then create_open_segment E l else (True, l)) of
        (ok, l1) \<Rightarrow>
          if \<not> ok then (False, l1)
          else case sl_open l1 of
                 None \<Rightarrow> (False, l1)
               | Some s \<Rightarrow>
                   if int (sg_bytes s) \<le> lf_max_segment_size E then (True, l1)
                   else
                     (case seg_close E (sl_enable_sync l1) s (sl_disk l1) of
                        (rc, s1, d1) \<Rightarrow>
                          (let l2 = l1\<lparr>sl_segments := segment_map_insert s1 (sl_segments l1), sl_open := None,
                                       sl_disk := d1\<rparr>;
                               (ok, l3) = (if rc = RcOk then create_open_segment E l2 else (False, l2))
                           in if ok then (True, l3)
                              else (False, l3\<lparr>sl_segments := segment_map_erase (sg_first s1) (sl_segments l3),
                                              sl_open := Some s1\<rparr>))))"

definition sl_append_one :: "log_env \<Rightarrow> log_entry \<Rightarrow> seg_log \<Rightarrow> bool \<times> seg_log" where
  "sl_append_one E e l =
     (case sl_open_segment E l of
        (ok, l1) \<Rightarrow>
          if \<not> ok then (False, l1)
          else case sl_open l1 of
                 None \<Rightarrow> (False, l1)
               | Some s \<Rightarrow>
                   (case seg_append E e s (sl_disk l1) of
                      (rc, s1, d1) \<Rightarrow>
                        (let l2 = l1\<lparr>sl_open := Some s1, sl_disk := d1\<rparr>
                         in if rc \<noteq> RcOk then (False, l2) else (True, l2\<lparr>sl_last := sl_last l2 + 1\<rparr>))))"

fun sl_append_loop :: "log_env \<Rightarrow> log_entry list \<Rightarrow> seg_log \<Rightarrow> bool \<times> int \<times> seg_log" where
  "sl_append_loop E [] l = (True, 0, l)"
| "sl_append_loop E (e # es) l =
     (case sl_append_one E e l of
        (ok, l1) \<Rightarrow>
          if \<not> ok then (False, 0, l1)
          else (case sl_append_loop E es l1 of (ok2, n, l2) \<Rightarrow> (ok2, n + 1, l2)))"

definition sl_sync_open :: "log_env \<Rightarrow> bool \<Rightarrow> seg_log \<Rightarrow> seg_log" where
  "sl_sync_open E has_conf l =
     (case sl_open l of
        None \<Rightarrow> l
      | Some s \<Rightarrow> l\<lparr>sl_open := Some (snd (seg_sync E (sl_enable_sync l) has_conf s))\<rparr>)"

definition sl_append_entries :: "log_env \<Rightarrow> log_entry list \<Rightarrow> seg_log \<Rightarrow> int \<times> seg_log" where
  "sl_append_entries E es l =
     (case es of
        [] \<Rightarrow> (0, l)
      | e # _ \<Rightarrow>
          if sl_last l + 1 \<noteq> e_index e then (-1, l)
          else (case sl_append_loop E es l of
                  (ok, n, l1) \<Rightarrow>
                    (n, if ok then sl_sync_open E (\<exists>e \<in> set es. e_type e = ENTRY_TYPE_CONFIGURATION) l1 else l1)))"

subsection \<open>Reading\<close>

text \<open>
  The segment that holds an index: the open one or the last one in the map at or before it. The code
  takes the map not to be empty then; \<open>None\<close> otherwise.
\<close>

definition sl_get_segment :: "int \<Rightarrow> seg_log \<Rightarrow> segment option" where
  "sl_get_segment index l =
     (if sl_first l = sl_last l + 1 then None
      else if index < sl_first l \<or> index > sl_last l + 1 then None
      else if index = sl_last l + 1 then None
      else case sl_open l of
             Some s \<Rightarrow> if index \<ge> sg_first s then Some s
                       else map_option snd (find (\<lambda>(k, s). k \<le> index) (rev (sl_segments l)))
           | None \<Rightarrow> map_option snd (find (\<lambda>(k, s). k \<le> index) (rev (sl_segments l))))"

definition sl_get_entry :: "log_env \<Rightarrow> int \<Rightarrow> seg_log \<Rightarrow> log_entry option" where
  "sl_get_entry E index l =
     (case sl_get_segment index l of None \<Rightarrow> None | Some s \<Rightarrow> seg_get E index s (sl_disk l))"

definition sl_get_term :: "int \<Rightarrow> seg_log \<Rightarrow> int" where
  "sl_get_term index l = (case sl_get_segment index l of None \<Rightarrow> 0 | Some s \<Rightarrow> seg_get_term index s)"

subsection \<open>Truncating\<close>

definition sl_pop_segments :: "int \<Rightarrow> seg_log \<Rightarrow> segment list \<times> seg_log" where
  "sl_pop_segments first_index_kept l =
     (let l1 = l\<lparr>sl_first := first_index_kept\<rparr>;
          popped = map snd (takeWhile (\<lambda>(k, s). sg_last s < first_index_kept) (sl_segments l));
          kept = dropWhile (\<lambda>(k, s). sg_last s < first_index_kept) (sl_segments l);
          l2 = l1\<lparr>sl_segments := kept\<rparr>
      in if kept \<noteq> [] then (popped, l2)
         else case sl_open l of
                Some s \<Rightarrow> if sg_last s < first_index_kept
                          then (popped @ [s], l2\<lparr>sl_open := None, sl_last := first_index_kept - 1\<rparr>)
                          else (popped, l2)
              | None \<Rightarrow> (popped, l2\<lparr>sl_last := first_index_kept - 1\<rparr>))"

text \<open>Unlinking a list of segments, whatever fails; and up to the first failure.\<close>

definition unlink_all :: "log_env \<Rightarrow> segment list \<Rightarrow> disk \<Rightarrow> disk" where
  "unlink_all E ss d = fold (\<lambda>s d. snd (seg_unlink E s d)) ss d"

fun unlink_until :: "log_env \<Rightarrow> segment list \<Rightarrow> rc \<Rightarrow> disk \<Rightarrow> rc \<times> disk" where
  "unlink_until E [] rc d = (rc, d)"
| "unlink_until E (s # ss) rc d =
     (case seg_unlink E s d of (rc1, d1) \<Rightarrow> if rc1 \<noteq> RcOk then (rc1, d1) else unlink_until E ss rc1 d1)"

definition sl_truncate_prefix :: "log_env \<Rightarrow> int \<Rightarrow> seg_log \<Rightarrow> rc \<times> seg_log" where
  "sl_truncate_prefix E first_index_kept l =
     (if sl_first l \<ge> first_index_kept then (RcOk, l)
      else case sl_save_meta E first_index_kept l of
             (rc, l1) \<Rightarrow>
               if rc \<noteq> RcOk then (RcFail, l1)
               else (case sl_pop_segments first_index_kept l1 of
                       (popped, l2) \<Rightarrow> (RcOk, l2\<lparr>sl_disk := unlink_all E popped (sl_disk l2)\<rparr>)))"

text \<open>The segment to truncate: the open one or the last one of the map, if any is kept.\<close>

datatype last_segment = NoSegment | LastOpen segment | LastClosed segment

definition pop_closed ::
  "int \<Rightarrow> segment list \<Rightarrow> seg_log \<Rightarrow> segment list \<times> last_segment \<times> seg_log" where
  "pop_closed last_index_kept popped l =
     (let back = takeWhile (\<lambda>(k, s). sg_first s > last_index_kept) (rev (sl_segments l));
          kept = rev (dropWhile (\<lambda>(k, s). sg_first s > last_index_kept) (rev (sl_segments l)));
          l1 = l\<lparr>sl_segments := kept\<rparr>
      in (popped @ map snd back,
          if kept \<noteq> [] then LastClosed (snd (last kept)) else NoSegment,
          if kept \<noteq> [] then l1 else l1\<lparr>sl_first := last_index_kept + 1\<rparr>))"

definition sl_pop_segments_from_back :: "int \<Rightarrow> seg_log \<Rightarrow> segment list \<times> last_segment \<times> seg_log" where
  "sl_pop_segments_from_back last_index_kept l =
     (let l1 = l\<lparr>sl_last := last_index_kept\<rparr>
      in case sl_open l of
           Some s \<Rightarrow> if sg_first s \<le> last_index_kept then ([], LastOpen s, l1)
                     else pop_closed last_index_kept [s] (l1\<lparr>sl_open := None\<rparr>)
         | None \<Rightarrow> pop_closed last_index_kept [] l1)"

text \<open>The last segment is one object, in its place of the storage, whatever its truncation changes.\<close>

definition truncate_last_segment :: "log_env \<Rightarrow> int \<Rightarrow> last_segment \<Rightarrow> seg_log \<Rightarrow> rc \<times> seg_log" where
  "truncate_last_segment E last_index_kept ls l =
     (case ls of
        NoSegment \<Rightarrow> (RcFail, l)
      | LastOpen s \<Rightarrow>
          (case seg_truncate E last_index_kept s (sl_disk l) of
             (rc, s1, d) \<Rightarrow> (rc, l\<lparr>sl_open := Some s1, sl_disk := d\<rparr>))
      | LastClosed s \<Rightarrow>
          (case seg_truncate E last_index_kept s (sl_disk l) of
             (rc, s1, d) \<Rightarrow>
               (let l1 = l\<lparr>sl_segments := segment_map_insert s1 (sl_segments l), sl_disk := d\<rparr>
                in (rc, if rc = RcOk \<and> \<not> sg_is_open s \<and> sg_is_open s1
                        then l1\<lparr>sl_segments := segment_map_erase (sg_first s1) (sl_segments l1), sl_open := Some s1\<rparr>
                        else l1))))"

definition sl_truncate_suffix :: "log_env \<Rightarrow> int \<Rightarrow> seg_log \<Rightarrow> rc \<times> seg_log" where
  "sl_truncate_suffix E last_index_kept l =
     (case sl_pop_segments_from_back last_index_kept l of
        (popped, ls, l1) \<Rightarrow>
          (let truncate = (ls \<noteq> NoSegment \<and> sl_first l1 \<le> sl_last l1);
               (popped2, l2) =
                 (if truncate then (popped, l1)
                  else case ls of
                         NoSegment \<Rightarrow> (popped, l1)
                       | LastOpen s \<Rightarrow> (popped @ [s], l1\<lparr>sl_segments := segment_map_erase (sg_first s) (sl_segments l1),
                                                         sl_open := None\<rparr>)
                       | LastClosed s \<Rightarrow> (popped @ [s], l1\<lparr>sl_segments := segment_map_erase (sg_first s) (sl_segments l1),
                                                           sl_open := None\<rparr>));
               (rc, d) = unlink_until E popped2 RcFail (sl_disk l2);
               l3 = l2\<lparr>sl_disk := d\<rparr>
           in if popped2 \<noteq> [] \<and> rc \<noteq> RcOk then (rc, l3)
              else if truncate then truncate_last_segment E last_index_kept ls l3
              else (rc, l3)))"

definition sl_reset :: "log_env \<Rightarrow> int \<Rightarrow> seg_log \<Rightarrow> rc \<times> seg_log" where
  "sl_reset E next_log_index l =
     (if next_log_index \<le> 0 then (RcErr EINVAL, l)
      else
        (let popped = map snd (sl_segments l) @ (case sl_open l of None \<Rightarrow> [] | Some s \<Rightarrow> [s]);
             l1 = l\<lparr>sl_segments := [], sl_open := None, sl_first := next_log_index, sl_last := next_log_index - 1\<rparr>
         in case sl_save_meta E next_log_index l1 of
              (rc, l2) \<Rightarrow>
                if rc \<noteq> RcOk then (RcFail, l2)
                else (RcOk, l2\<lparr>sl_disk := unlink_all E popped (sl_disk l2)\<rparr>)))"

subsection \<open>The rest of the interface\<close>

text \<open>\<open>append\<close> never returns \<^verbatim>\<open>EEXIST\<close>, which \<open>append_entry\<close> looks for.\<close>

definition sl_append_entry :: "log_env \<Rightarrow> log_entry \<Rightarrow> seg_log \<Rightarrow> rc \<times> seg_log" where
  "sl_append_entry E e l =
     (case sl_open_segment E l of
        (ok, l1) \<Rightarrow>
          if \<not> ok then (RcErr EIO, l1)
          else case sl_open l1 of
                 None \<Rightarrow> (RcErr EIO, l1)
               | Some s \<Rightarrow>
                   (case seg_append E e s (sl_disk l1) of
                      (rc, s1, d1) \<Rightarrow>
                        if rc \<noteq> RcOk then (rc, l1\<lparr>sl_open := Some s1, sl_disk := d1\<rparr>)
                        else (case seg_sync E (sl_enable_sync l1) False s1 of
                                (rc2, s2) \<Rightarrow> (rc2, l1\<lparr>sl_open := Some s2, sl_disk := d1, sl_last := sl_last l1 + 1\<rparr>))))"

definition sl_sync :: "log_env \<Rightarrow> seg_log \<Rightarrow> seg_log" where
  "sl_sync E l = l\<lparr>sl_segments := map (\<lambda>(k, s). (k, snd (seg_sync E True False s))) (sl_segments l)\<rparr>"

definition sl_list_files :: "seg_log \<Rightarrow> file_name list" where
  "sl_list_files l =
     OtherName ''log_meta'' # map (\<lambda>(k, s). file_name_of s) (sl_segments l)
       @ (case sl_open l of None \<Rightarrow> [] | Some s \<Rightarrow> [file_name_of s])"

definition seg_log_ops :: "log_env \<Rightarrow> seg_log log_storage_ops" where
  "seg_log_ops E =
     \<lparr>ls_init = sl_init E, ls_first = sl_first, ls_last = sl_last,
      ls_get_entry = sl_get_entry E, ls_get_term = sl_get_term, ls_append_entries = sl_append_entries E,
      ls_truncate_prefix = sl_truncate_prefix E, ls_truncate_suffix = sl_truncate_suffix E, ls_reset = sl_reset E\<rparr>"

end
