(* ===== verification/SegmentSafety.thy ===== *)
theory SegmentSafety
  imports SegmentLog
begin

section \<open>What segments keep\<close>

text \<open>
  \<open>encs\<close> is the file of a list of entries, each with the checksum it was written with;
  \<open>seg_ok\<close> says that a segment and the disk hold such a list. Appending, reading, truncating
  and loading are shown correct for it, loading also after a write that a crash cut short.
\<close>

fun encs :: "log_env \<Rightarrow> (checksum_type \<times> log_entry) list \<Rightarrow> string" where
  "encs E [] = []"
| "encs E ((c, e) # xs) = enc E c e @ encs E xs"

fun offsets :: "log_env \<Rightarrow> nat \<Rightarrow> (checksum_type \<times> log_entry) list \<Rightarrow> (nat \<times> int) list" where
  "offsets E off [] = []"
| "offsets E off ((c, e) # xs) = (off, e_term e) # offsets E (off + length (enc E c e)) xs"

lemma encs_append: "encs E (xs @ ys) = encs E xs @ encs E ys"
  by (induction xs rule: encs.induct) simp_all

lemma length_offsets [simp]: "length (offsets E off xs) = length xs"
  by (induction E off xs rule: offsets.induct) simp_all

lemma offsets_append:
  "offsets E off (xs @ ys) = offsets E off xs @ offsets E (off + length (encs E xs)) ys"
  by (induction E off xs rule: offsets.induct) (simp_all add: add.assoc)

lemma offsets_nth:
  "k < length xs \<Longrightarrow> offsets E off xs ! k = (off + length (encs E (take k xs)), e_term (snd (xs ! k)))"
proof (induction E off xs arbitrary: k rule: offsets.induct)
  case (1 E off)
  then show ?case by simp
next
  case (2 E off c e xs)
  then show ?case by (cases k) (simp_all add: add.assoc)
qed

lemma take_offsets: "take k (offsets E off xs) = offsets E off (take k xs)"
proof (induction E off xs arbitrary: k rule: offsets.induct)
  case (1 E off)
  then show ?case by simp
next
  case (2 E off c e xs)
  then show ?case by (cases k) simp_all
qed

lemma encs_split:
  assumes "k < length xs" and "xs ! k = (c, e)"
  shows "encs E xs = encs E (take k xs) @ enc E c e @ encs E (drop (Suc k) xs)"
proof -
  have "xs = take k xs @ (c, e) # drop (Suc k) xs"
    using id_take_nth_drop [OF assms(1)] assms(2) by simp
  then show ?thesis
    by (metis encs.simps(2) encs_append)
qed

definition seg_ok :: "log_env \<Rightarrow> disk \<Rightarrow> segment \<Rightarrow> (checksum_type \<times> log_entry) list \<Rightarrow> bool" where
  "seg_ok E d s xs \<longleftrightarrow>
     (\<exists>i. sg_fd s = Some i \<and> dk_lookup d (file_name_of s) = Some i \<and> dk_data d i = encs E xs)
     \<and> sg_bytes s = length (encs E xs) \<and> sg_offset_and_term s = offsets E 0 xs
     \<and> sg_last s = sg_first s + int (length xs) - 1
     \<and> contig e_index (sg_first s) (map snd xs) \<and> (\<forall>x \<in> set xs. storable E (snd x))"

lemma seg_ok_fd_data: "seg_ok E d s xs \<Longrightarrow> fd_data s d = encs E xs"
  by (auto simp: seg_ok_def fd_data_def)

subsection \<open>Reading\<close>

lemma get_meta_ok:
  assumes ok: "seg_ok E d s xs" and k: "k < length xs" "xs ! k = (c, e)"
  shows "get_meta (sg_first s + int k) s = Some (length (encs E (take k xs)), length (enc E c e), e_term e)"
proof -
  let ?off = "\<lambda>k. length (encs E (take k xs))"
  have next_off: "?off (Suc k) = ?off k + length (enc E c e)"
    using k by (simp add: take_Suc_conv_app_nth encs_append)
  have n: "offsets E 0 xs ! k = (?off k, e_term e)"
    using offsets_nth [OF k(1), of E 0] k(2) by simp
  have s: "sg_offset_and_term s = offsets E 0 xs" "sg_last s = sg_first s + int (length xs) - 1" "sg_bytes s = length (encs E xs)"
    using ok by (simp_all add: seg_ok_def)
  show ?thesis
  proof (cases "Suc k < length xs")
    case True
    then have "fst (offsets E 0 xs ! Suc k) = ?off (Suc k)"
      using offsets_nth [OF True, of E 0] by simp
    with True k(1) show ?thesis
      using next_off n by (auto simp: get_meta_def Let_def s)
  next
    case False
    then have "Suc k = length xs"
      using k(1) by simp
    then have "?off (Suc k) = length (encs E xs)"
      by simp
    with False k(1) show ?thesis
      using next_off n by (auto simp: get_meta_def Let_def s)
  qed
qed

lemma get_meta_out: "seg_ok E d s xs \<Longrightarrow> i < sg_first s \<or> sg_last s < i \<Longrightarrow> get_meta i s = None"
  by (auto simp: get_meta_def)

lemma seg_index:
  assumes "seg_ok E d s xs" and "sg_first s \<le> i" "i \<le> sg_last s"
  shows "nat (i - sg_first s) < length xs" "i = sg_first s + int (nat (i - sg_first s))"
  using assms by (auto simp: seg_ok_def)

lemma seg_get_ok:
  assumes ok: "seg_ok E d s xs" and pread: "\<And>off. lf_pread_ok E off"
  shows "seg_get E i s d = (if sg_first s \<le> i \<and> i \<le> sg_last s then Some (snd (xs ! nat (i - sg_first s))) else None)"
proof (cases "sg_first s \<le> i \<and> i \<le> sg_last s")
  case True
  define k where "k = nat (i - sg_first s)"
  obtain c e where e: "xs ! k = (c, e)" by fastforce
  have k: "k < length xs" "i = sg_first s + int k"
    using seg_index [OF ok] True by (simp_all add: k_def)
  have st: "storable E e"
    using ok k(1) e nth_mem [OF k(1)] by (auto simp: seg_ok_def)
  have "e_index e = i"
    using ok k e contig_nth [of e_index "sg_first s" "map snd xs" k] by (simp add: seg_ok_def)
  then have "entry_of E i (header_for E c e) (the_data E e) = Some e"
    using entry_of_header [OF st, of c] by simp
  then show ?thesis
    using True load_data [OF pread st] get_meta_ok [OF ok k(1) e] encs_split [OF k(1) e, of E]
    by (simp add: seg_get_def k(2) seg_ok_fd_data [OF ok] e)
next
  case False
  then have "get_meta i s = None"
    using get_meta_out [OF ok] by auto
  then show ?thesis
    using False by (simp add: seg_get_def)
qed

lemma seg_get_term_ok:
  assumes ok: "seg_ok E d s xs"
  shows "seg_get_term i s =
    (if sg_first s \<le> i \<and> i \<le> sg_last s then e_term (snd (xs ! nat (i - sg_first s))) else 0)"
proof (cases "sg_first s \<le> i \<and> i \<le> sg_last s")
  case True
  obtain c e where e: "xs ! nat (i - sg_first s) = (c, e)" by fastforce
  have k: "nat (i - sg_first s) < length xs" "i = sg_first s + int (nat (i - sg_first s))"
    using seg_index [OF ok] True by simp_all
  show ?thesis
    using True get_meta_ok [OF ok k(1) e] e by (simp add: seg_get_term_def k(2) [symmetric])
qed (use get_meta_out [OF ok] in \<open>auto simp: seg_get_term_def\<close>)

subsection \<open>The disk\<close>

lemma dk_write_simps [simp]:
  "dk_dir (dk_write i s d) = dk_dir d" "dk_data (dk_write i s d) j = (if j = i then s else dk_data d j)"
  "dk_next (dk_write i s d) = dk_next d" "dk_meta (dk_write i s d) = dk_meta d"
  by (simp_all add: dk_write_def)

lemma seg_ok_write:
  "seg_ok E d s xs \<Longrightarrow> sg_fd s \<noteq> Some i \<Longrightarrow> seg_ok E (dk_write i data d) s xs"
  by (auto simp: seg_ok_def)

lemma seg_ok_cong:
  assumes "seg_ok E d s xs" and "dk_lookup d' (file_name_of s) = dk_lookup d (file_name_of s)"
    and "\<And>i. sg_fd s = Some i \<Longrightarrow> dk_data d' i = dk_data d i"
  shows "seg_ok E d' s xs"
  using assms by (auto simp: seg_ok_def)

lemma dk_rename_ok:
  assumes "lf_rename_ok E old" and "dk_lookup d old = Some i" and "old \<noteq> new"
  obtains d' where "dk_rename E old new d = (True, d')" "dk_lookup d' = (dk_lookup d)(old := None, new := Some i)"
    "dk_data d' = dk_data d" "dk_next d' = dk_next d" "dk_meta d' = dk_meta d"
    "dk_dir d' = (new, i) # AList.delete old (AList.delete new (dk_dir d))"
proof
  let ?d = "d\<lparr>dk_dir := (new, i) # AList.delete old (AList.delete new (dk_dir d))\<rparr>"
  show "dk_rename E old new d = (True, ?d)"
    using assms by (simp add: dk_rename_def)
  show "dk_lookup ?d = (dk_lookup d)(old := None, new := Some i)"
    using assms(3) by (auto simp: delete_conv)
qed simp_all

subsection \<open>Appending and truncating\<close>

lemma seg_append_ok:
  assumes ok: "seg_ok E d s xs" and fd: "sg_fd s = Some i" and open_seg: "sg_is_open s" and e: "e_index e = sg_last s + 1" "storable E e"
    and w: "\<And>k. lf_written E k = None"
  obtains s' where "seg_append E e s d = (RcOk, s', dk_write i (encs E (xs @ [(sg_checksum_type s, e)])) d)"
    and "seg_ok E (dk_write i (encs E (xs @ [(sg_checksum_type s, e)])) d) s' (xs @ [(sg_checksum_type s, e)])"
    and "sg_first s' = sg_first s" "sg_is_open s'" "sg_fd s' = Some i" "sg_last s' = sg_last s + 1"
proof
  let ?x = "(sg_checksum_type s, e)" and ?r = "enc E (sg_checksum_type s) e"
  let ?s = "s\<lparr>sg_offset_and_term := sg_offset_and_term s @ [(sg_bytes s, e_term e)], sg_last := sg_last s + 1,
     sg_bytes := sg_bytes s + length ?r, sg_unsynced_bytes := sg_unsynced_bytes s + length ?r\<rparr>"
  have fdd: "fd_data s d = encs E xs" "fd_write s data d = dk_write i data d" for data
    using ok fd by (simp_all add: seg_ok_fd_data fd_write_def)
  show "seg_append E e s d = (RcOk, ?s, dk_write i (encs E (xs @ [?x])) d)"
    using storable_data(1) [OF e(2)] e open_seg
    by (simp add: seg_append_def w fdd encs_append enc_storable Let_def)
  show "seg_ok E (dk_write i (encs E (xs @ [?x])) d) ?s (xs @ [?x])"
    using ok fd e open_seg by (auto simp: seg_ok_def offsets_append encs_append contig_append file_name_of_def)
qed (use open_seg fd in simp_all)

definition io_ok :: "log_env \<Rightarrow> bool" where
  "io_ok E \<longleftrightarrow> lf_dir_ok E \<and> lf_list_ok E \<and> lf_fstat_ok E \<and> lf_fsync_ok E \<and> lf_ftruncate_ok E \<and> lf_lseek_ok E
     \<and> (\<forall>i. lf_create_ok E i \<and> lf_written E i = None) \<and> (\<forall>n. lf_open_ok E n \<and> lf_rename_ok E n \<and> lf_unlinked E n)
     \<and> (\<forall>off. lf_pread_ok E off) \<and> 0 \<le> lf_max_segment_size E
     \<and> fe_open_ok (lf_meta_file E) \<and> fe_write_len_ok (lf_meta_file E) \<and> fe_write_ok (lf_meta_file E)
     \<and> fe_sync_ok (lf_meta_file E) \<and> fe_rename_ok (lf_meta_file E)"

lemma seg_ok_take:
  assumes ok: "seg_ok E d s xs" and fd: "sg_fd s = Some i" and k: "sg_first s \<le> k + 1" "k < sg_last s"
    and d': "dk_lookup d' (file_name_of s') = Some i" "dk_data d' i = encs E (take (nat (k + 1 - sg_first s)) xs)"
    and s': "sg_fd s' = Some i" "sg_first s' = sg_first s" "sg_last s' = k"
      "sg_bytes s' = length (encs E (take (nat (k + 1 - sg_first s)) xs))"
      "sg_offset_and_term s' = take (nat (k + 1 - sg_first s)) (sg_offset_and_term s)"
  shows "seg_ok E d' s' (take (nat (k + 1 - sg_first s)) xs)"
proof -
  let ?n = "nat (k + 1 - sg_first s)"
  have "?n < length xs" "k = sg_first s + int ?n - 1"
    using ok k by (auto simp: seg_ok_def)
  moreover have "set (take ?n xs) \<subseteq> set xs"
    by (rule set_take_subset)
  ultimately show ?thesis
    using ok d' s' by (auto simp: seg_ok_def take_offsets take_map [symmetric] contig_take)
qed

lemma seg_truncate_ok:
  assumes ok: "seg_ok E d s xs" and fd: "sg_fd s = Some i" and k: "sg_first s \<le> k + 1" "k < sg_last s" and io: "io_ok E"
  obtains s' d' where "seg_truncate E k s d = (RcOk, s', d')"
    and "seg_ok E d' s' (take (nat (k + 1 - sg_first s)) xs)"
    and "sg_first s' = sg_first s" "sg_is_open s'" "sg_fd s' = Some i" "sg_last s' = k"
    and "dk_lookup d' = (if sg_is_open s then dk_lookup d
                         else (dk_lookup d)(ClosedSeg (sg_first s) (sg_last s) := None, OpenSeg (sg_first s) := Some i))"
    and "\<And>j. j \<noteq> i \<Longrightarrow> dk_data d' j = dk_data d j" "dk_next d' = dk_next d" "dk_meta d' = dk_meta d"
    and "dk_dir d' = (if sg_is_open s then dk_dir d else (OpenSeg (sg_first s), i) #
            AList.delete (ClosedSeg (sg_first s) (sg_last s)) (AList.delete (OpenSeg (sg_first s)) (dk_dir d)))"
proof -
  let ?n = "nat (k + 1 - sg_first s)" and ?old = "ClosedSeg (sg_first s) (sg_last s)" and ?new = "OpenSeg (sg_first s)"
  have n: "?n < length xs"
    using ok k by (auto simp: seg_ok_def)
  have size: "fst (sg_offset_and_term s ! ?n) = length (encs E (take ?n xs))"
    using ok n by (simp add: seg_ok_def offsets_nth)
  have cut: "take (length (encs E (take ?n xs))) (encs E xs) = encs E (take ?n xs)"
    using encs_append [of E "take ?n xs" "drop ?n xs"] by simp
  have i: "dk_data d i = encs E xs" "dk_lookup d (file_name_of s) = Some i"
    using ok fd by (auto simp: seg_ok_def)
  obtain d1 where d1: "(if sg_is_open s then (True, d) else dk_rename E ?old ?new d) = (True, d1)"
    "dk_lookup d1 = (if sg_is_open s then dk_lookup d else (dk_lookup d)(?old := None, ?new := Some i))"
    "dk_data d1 = dk_data d" "dk_next d1 = dk_next d" "dk_meta d1 = dk_meta d"
    "dk_dir d1 = (if sg_is_open s then dk_dir d else (?new, i) # AList.delete ?old (AList.delete ?new (dk_dir d)))"
  proof (cases "sg_is_open s")
    case True
    then show ?thesis using that [of d] by simp
  next
    case False
    then have "dk_lookup d ?old = Some i" "lf_rename_ok E ?old"
      using i io by (auto simp: file_name_of_def io_ok_def)
    from dk_rename_ok [OF this(2,1), of ?new] that False show ?thesis
      by auto
  qed
  define s' where "s' = s\<lparr>sg_is_open := True, sg_offset_and_term := take ?n (sg_offset_and_term s), sg_last := k,
    sg_bytes := length (encs E (take ?n xs))\<rparr>"
  have res: "seg_truncate E k s d = (RcOk, s', dk_write i (encs E (take ?n xs)) d1)"
    using k d1(1) io fd i(1)
    by (simp add: seg_truncate_def Let_def size fd_write_def fd_data_def d1(3) cut s'_def io_ok_def)
  have "dk_lookup d1 (file_name_of s') = Some i"
    using i(2) d1(2) by (auto simp: s'_def file_name_of_def)
  then have "seg_ok E (dk_write i (encs E (take ?n xs)) d1) s' (take ?n xs)"
    by (intro seg_ok_take [OF ok fd k]) (simp_all add: fd s'_def)
  with res show ?thesis
    by (rule that) (simp_all add: s'_def fd d1(2-5), simp only: d1(6), simp)
qed

subsection \<open>Loading\<close>

text \<open>The end of a file after a write that was cut short.\<close>

definition torn :: "log_env \<Rightarrow> string \<Rightarrow> bool" where
  "torn E t \<longleftrightarrow> t = [] \<or> (\<exists>c e k. storable E e \<and> k < length (enc E c e) \<and> t = take k (enc E c e))"

definition add_configuration :: "log_entry \<Rightarrow> config_manager \<Rightarrow> config_manager" where
  "add_configuration e cm = (if e_type e = ENTRY_TYPE_CONFIGURATION then snd (cm_add (conf_entry_of e) cm) else cm)"

lemma load_torn_stops:
  assumes "torn E t" and "\<And>off. lf_pread_ok E off"
  shows "load_loop E (pre @ t) (length pre) i cm = (RcOk, False, [], length pre, cm)"
proof (cases "t = []")
  case True
  then show ?thesis by (simp add: load_loop.simps)
next
  case False
  then obtain c e k where t: "storable E e" "k < length (enc E c e)" "t = take k (enc E c e)"
    using assms(1) by (auto simp: torn_def)
  note load = load_torn [OF assms(2) t(1,2), of pre]
  show ?thesis
  proof (cases "k < 24")
    case True
    then show ?thesis
      using load by (simp add: load_loop.simps t(3) ENTRY_HEADER_SIZE_def)
  next
    case long: False
    have "24 + length (the_data E e) > k"
      using t(2) length_enc [OF t(1)] by simp
    then show ?thesis
      using load long False t(2) header_for_len [OF t(1)]
      by (simp add: load_loop.simps t(3) ENTRY_HEADER_SIZE_def Let_def)
  qed
qed

lemma header_for_type: "type_of_num (eh_type (header_for E c e)) = e_type e"
  by (simp add: header_of_def)

lemma header_for_term: "storable E e \<Longrightarrow> eh_term (header_for E c e) = e_term e"
  by (simp add: header_of_def storable_def int64_def signed_of_int signed_take_bit_int_eq_self)

lemma load_configuration_ok:
  assumes e: "storable E e" "e_type e = ENTRY_TYPE_CONFIGURATION" and pread: "\<And>off. lf_pread_ok E off"
  shows "load_configuration E (pre @ enc E c e @ post) (length pre) (length (enc E c e)) (e_index e) (e_term e) cm =
     Inr (add_configuration e cm)"
proof -
  obtain ps where ps: "e_peers e = Some ps" "parse_configuration_meta E (the_data E e) = Some (ps, e_old_peers e)"
    using e by (auto simp: storable_def the_data_def entry_data_def split: option.splits)
  have "conf_entry_of \<lparr>e_type = ENTRY_TYPE_UNKNOWN, e_id = LogId (e_index e) (e_term e), e_peers = Some ps,
           e_old_peers = e_old_peers e, e_data = []\<rparr> = conf_entry_of e"
    using ps(1) by (simp add: conf_entry_of_def)
  then show ?thesis
    using load_data [OF pread e(1), of pre c post] ps(2) e(2)
    by (simp add: load_configuration_def add_configuration_def)
qed

lemma load_loop_ok:
  assumes "torn E t" and "\<And>off. lf_pread_ok E off" and "contig e_index i (map snd xs)" and "\<forall>x \<in> set xs. storable E (snd x)"
  shows "load_loop E (pre @ encs E xs @ t) (length pre) i cm =
     (RcOk, False, offsets E (length pre) xs, length pre + length (encs E xs), fold add_configuration (map snd xs) cm)"
  using assms(3,4)
proof (induction xs arbitrary: pre i cm)
  case Nil
  then show ?case
    using load_torn_stops [OF assms(1,2)] by simp
next
  case (Cons x xs)
  obtain c e where x: "x = (c, e)" by fastforce
  have st: "storable E e" and i: "e_index e = i"
    using Cons.prems x by simp_all
  let ?rest = "encs E xs @ t"
  have len: "length (enc E c e) = 24 + unat (eh_data_len (header_for E c e))"
    using length_enc [OF st, of c] header_for_len [OF st, of c] by simp
  have hd: "load_entry E (pre @ enc E c e @ ?rest) (length pre) 24 False = Inr (header_for E c e, [])"
    using len by (intro load_header assms(2) st) auto
  have IH: "load_loop E ((pre @ enc E c e) @ ?rest) (length (pre @ enc E c e)) (i + 1) (add_configuration e cm) =
      (RcOk, False, offsets E (length (pre @ enc E c e)) xs, length (pre @ enc E c e) + length (encs E xs),
       fold add_configuration (map snd xs) (add_configuration e cm))"
    using Cons.prems by (intro Cons.IH) (simp_all add: x)
  have conf: "(if type_of_num (eh_type (header_for E c e)) = ENTRY_TYPE_CONFIGURATION
       then load_configuration E (pre @ enc E c e @ ?rest) (length pre) (length (enc E c e)) i (eh_term (header_for E c e)) cm
       else Inr cm) = Inr (add_configuration e cm)"
    unfolding header_for_type header_for_term [OF st]
    using load_configuration_ok [OF st _ assms(2), of pre c ?rest cm] by (simp add: i add_configuration_def)
  have step: "load_loop E (pre @ enc E c e @ ?rest) (length pre) i cm =
      (case load_loop E (pre @ enc E c e @ ?rest) (length pre + length (enc E c e)) (i + 1) (add_configuration e cm) of
         (rc, corrupted, metas, stop, cm2) \<Rightarrow> (rc, corrupted, (length pre, e_term e) # metas, stop, cm2))"
    using len
    by (subst load_loop.simps)
      (simp add: hd ENTRY_HEADER_SIZE_def Let_def conf [unfolded len] header_for_term [OF st])
  show ?case
    using IH by (simp add: x step add.assoc)
qed

text \<open>
  The segment and the disk once a segment is loaded from a file that holds the entries \<open>xs\<close> and a
  torn end \<open>t\<close>.
\<close>

definition loaded :: "log_env \<Rightarrow> (checksum_type \<times> log_entry) list \<Rightarrow> nat \<Rightarrow> segment \<Rightarrow> segment" where
  "loaded E xs i s =
     s\<lparr>sg_fd := Some i, sg_offset_and_term := offsets E 0 xs, sg_last := sg_first s + int (length xs) - 1,
       sg_bytes := length (encs E xs)\<rparr>"

lemma seg_load_ok:
  assumes f: "dk_lookup d (file_name_of s) = Some i" "dk_data d i = encs E xs @ t" "torn E t"
    and xs: "contig e_index (sg_first s) (map snd xs)" "\<forall>x \<in> set xs. storable E (snd x)"
    and s: "sg_offset_and_term s = []" "sg_is_open s \<or> sg_last s = sg_first s + int (length xs) - 1"
    and io: "io_ok E"
  obtains d' where "seg_load E cm s d = (RcOk, loaded E xs i s, d', fold add_configuration (map snd xs) cm)"
    and "d' = (if t = [] then d else dk_write i (encs E xs) d)"
    and "seg_ok E d' (loaded E xs i s) xs"
proof -
  have pread: "lf_pread_ok E off" for off
    using io by (simp add: io_ok_def)
  let ?d = "if t = [] then d else dk_write i (encs E xs) d"
  have loop: "load_loop E (encs E xs @ t) 0 (sg_first s) cm =
      (RcOk, False, offsets E 0 xs, length (encs E xs), fold add_configuration (map snd xs) cm)"
    using load_loop_ok [OF f(3) pread xs, of "[]"] by simp
  have name: "file_name_of (loaded E xs i s) = file_name_of s"
    using s(2) by (auto simp: file_name_of_def loaded_def)
  have last: "sg_first s - 1 + int (length xs) = sg_first s + int (length xs) - 1"
    by simp
  have "seg_load E cm s d = (RcOk, loaded E xs i s, ?d, fold add_configuration (map snd xs) cm)"
    using io s f(1,2) by (auto simp: seg_load_def loop Let_def io_ok_def loaded_def last)
  moreover have "seg_ok E ?d (loaded E xs i s) xs"
    using f xs by (auto simp: seg_ok_def name) (auto simp: loaded_def)
  ultimately show ?thesis
    by (rule that [OF _ refl])
qed

end
