(* ===== verification/SegmentLogSafety.thy ===== *)
theory SegmentLogSafety
  imports SegmentSafety
begin

section \<open>The segment storage is a log storage\<close>

text \<open>
  The ghost list \<open>gs\<close> pairs the segments, oldest first, with the entries their files hold.
  \<open>sl_inv\<close> ties it to the storage: the closed segments are non-empty, the segments follow each
  other without a gap, each has its own file, no other file of the directory has the name of a segment, and
  the log begins inside the first segment. Every operation preserves it when the file system does not fail,
  and does to the entries what the contract of a log storage says.
\<close>

type_synonym seg_group = "segment \<times> (checksum_type \<times> log_entry) list"

fun is_seg_name :: "file_name \<Rightarrow> bool" where
  "is_seg_name (OpenSeg k) = True"
| "is_seg_name (ClosedSeg k l) = True"
| "is_seg_name _ = False"

definition log_of :: "seg_group list \<Rightarrow> log_entry list" where
  "log_of gs = concat (map (\<lambda>(s, xs). map snd xs) gs)"

fun seg_chain :: "int \<Rightarrow> seg_group list \<Rightarrow> bool" where
  "seg_chain k [] = True"
| "seg_chain k ((s, xs) # gs) \<longleftrightarrow> sg_first s = k \<and> seg_chain (k + int (length xs)) gs"

definition all_segments :: "seg_log \<Rightarrow> segment list" where
  "all_segments l = map snd (sl_segments l) @ (case sl_open l of None \<Rightarrow> [] | Some s \<Rightarrow> [s])"

definition dir_ok :: "disk \<Rightarrow> segment list \<Rightarrow> bool" where
  "dir_ok d ss \<longleftrightarrow>
     distinct (map fst (dk_dir d)) \<and> (\<forall>n i. dk_lookup d n = Some i \<longrightarrow> i < dk_next d)
     \<and> (\<forall>n. dk_lookup d n \<noteq> None \<and> is_seg_name n \<longrightarrow> (\<exists>s \<in> set ss. file_name_of s = n))"

definition segs_ok :: "log_env \<Rightarrow> disk \<Rightarrow> seg_group list \<Rightarrow> bool" where
  "segs_ok E d gs \<longleftrightarrow>
     (\<forall>(s, xs) \<in> set gs. seg_ok E d s xs) \<and> distinct (map (sg_fd \<circ> fst) gs) \<and> dir_ok d (map fst gs)"

definition keyed :: "segment list \<Rightarrow> (int \<times> segment) list" where
  "keyed ss = map (\<lambda>s. (sg_first s, s)) ss"

text \<open>The log begins in the first segment, unless that is still empty.\<close>

fun first_live :: "int \<Rightarrow> int \<Rightarrow> seg_group list \<Rightarrow> bool" where
  "first_live f k [] = True"
| "first_live f k ((s, xs) # gs) \<longleftrightarrow> (xs \<noteq> [] \<longrightarrow> f < k + int (length xs))"

definition sl_inv :: "log_env \<Rightarrow> int \<Rightarrow> seg_group list \<Rightarrow> seg_group list \<Rightarrow> seg_log \<Rightarrow> bool" where
  "sl_inv E k cs os l \<longleftrightarrow>
     segs_ok E (sl_disk l) (cs @ os) \<and> seg_chain k (cs @ os)
     \<and> sl_segments l = keyed (map fst cs) \<and> (\<forall>(s, xs) \<in> set cs. \<not> sg_is_open s \<and> xs \<noteq> [])
     \<and> (case sl_open l of None \<Rightarrow> os = [] | Some s \<Rightarrow> sg_is_open s \<and> (\<exists>xs. os = [(s, xs)]))
     \<and> 1 \<le> sl_first l \<and> k \<le> sl_first l \<and> sl_first l \<le> sl_last l + 1
     \<and> sl_last l = k + int (length (log_of (cs @ os))) - 1
     \<and> (cs @ os = [] \<longrightarrow> k = sl_first l)
     \<and> first_live (sl_first l) k (cs @ os)"

lemma log_of_simps [simp]:
  "log_of [] = []" "log_of ((s, xs) # gs) = map snd xs @ log_of gs" "log_of (gs @ hs) = log_of gs @ log_of hs"
  by (simp_all add: log_of_def)

lemma seg_chain_append:
  "seg_chain k (gs @ hs) \<longleftrightarrow> seg_chain k gs \<and> seg_chain (k + int (length (log_of gs))) hs"
  by (induction k gs rule: seg_chain.induct) (simp_all add: add.assoc)

lemma keyed_simps [simp]:
  "keyed [] = []" "keyed (s # ss) = (sg_first s, s) # keyed ss" "keyed (ss @ ts) = keyed ss @ keyed ts"
  "map snd (keyed ss) = ss" "set (keyed ss) = (\<lambda>s. (sg_first s, s)) ` set ss" "rev (keyed ss) = keyed (rev ss)"
  "keyed ss = [] \<longleftrightarrow> ss = []"
  by (simp_all add: keyed_def rev_map o_def)

lemma first_live_snoc:
  "first_live f k (gs @ [(s, [])]) \<longleftrightarrow> first_live f k gs"
  "first_live f k (gs @ [(s, xs)]) \<longleftrightarrow> first_live f k (gs @ [(t, xs)])"
  by (cases "(f, k, gs)" rule: first_live.cases; simp)+

lemma segs_okD: "segs_ok E d gs \<Longrightarrow> (s, xs) \<in> set gs \<Longrightarrow> seg_ok E d s xs"
  by (auto simp: segs_ok_def)

lemma seg_ok_last: "seg_ok E d s xs \<Longrightarrow> sg_last s = sg_first s + int (length xs) - 1"
  by (simp add: seg_ok_def)

lemma seg_chain_contig:
  "seg_chain k gs \<Longrightarrow> \<forall>(s, xs) \<in> set gs. seg_ok E d s xs \<Longrightarrow> contig e_index k (log_of gs)"
  by (induction k gs rule: seg_chain.induct) (auto simp: seg_ok_def contig_append)

lemma seg_chain_storable:
  "\<forall>(s, xs) \<in> set gs. seg_ok E d s xs \<Longrightarrow> e \<in> set (log_of gs) \<Longrightarrow> storable E e"
  by (auto simp: log_of_def seg_ok_def)

text \<open>The entries a storage holds.\<close>

definition sl_entries :: "log_env \<Rightarrow> seg_log \<Rightarrow> log_entry list" where
  "sl_entries E l = map (\<lambda>i. the (sl_get_entry E i l)) [sl_first l..sl_last l]"

text \<open>The segment that holds an index.\<close>

lemma seg_chain_find:
  assumes "seg_chain k gs" and "\<forall>(s, xs) \<in> set gs. xs \<noteq> []" and "k \<le> i" "i < k + int (length (log_of gs))"
  shows "\<exists>s xs. (s, xs) \<in> set gs \<and> find (\<lambda>(j, s). j \<le> i) (keyed (rev (map fst gs))) = Some (sg_first s, s)
     \<and> sg_first s \<le> i \<and> i < sg_first s + int (length xs)
     \<and> log_of gs ! nat (i - k) = snd (xs ! nat (i - sg_first s))"
  using assms
proof (induction gs rule: rev_induct)
  case Nil
  then show ?case by simp
next
  case (snoc g gs)
  obtain s xs where g: "g = (s, xs)" by fastforce
  let ?m = "int (length (log_of gs))"
  have f: "sg_first s = k + ?m" "seg_chain k gs"
    using snoc.prems(1) by (simp_all add: g seg_chain_append)
  show ?case
  proof (cases "k + ?m \<le> i")
    case True
    then have "nat (i - k) - length (log_of gs) = nat (i - (k + ?m))"
      by simp
    with True snoc.prems(4) show ?thesis
      by (intro exI [of _ s] exI [of _ xs]) (auto simp: g f nth_append)
  next
    case False
    then obtain s' xs' where "(s', xs') \<in> set gs" "find (\<lambda>(j, s). j \<le> i) (keyed (rev (map fst gs))) = Some (sg_first s', s')"
      "sg_first s' \<le> i" "i < sg_first s' + int (length xs')" "log_of gs ! nat (i - k) = snd (xs' ! nat (i - sg_first s'))"
      using snoc.IH f snoc.prems by fastforce
    with False snoc.prems(3) show ?thesis
      by (intro exI [of _ s'] exI [of _ xs']) (auto simp: g f nth_append)
  qed
qed

lemma sl_get_segment_ok:
  assumes inv: "sl_inv E k cs os l"
  shows "if sl_first l \<le> i \<and> i \<le> sl_last l
     then \<exists>s xs. sl_get_segment i l = Some s \<and> (s, xs) \<in> set (cs @ os) \<and> sg_first s \<le> i \<and> i < sg_first s + int (length xs)
            \<and> log_of (cs @ os) ! nat (i - k) = snd (xs ! nat (i - sg_first s))
     else sl_get_segment i l = None"
proof (cases "sl_first l \<le> i \<and> i \<le> sl_last l")
  case False
  then show ?thesis by (auto simp: sl_get_segment_def)
next
  case True
  have c: "seg_chain k cs" "\<forall>(s, xs) \<in> set cs. xs \<noteq> []" "k \<le> i"
    and len: "i < k + int (length (log_of cs)) + int (length (log_of os))"
    and segs: "rev (sl_segments l) = keyed (rev (map fst cs))"
    using inv True by (auto simp: sl_inv_def seg_chain_append rev_map)
  have closed: "\<exists>s xs. map_option snd (find (\<lambda>(k, s). k \<le> i) (rev (sl_segments l))) = Some s \<and> (s, xs) \<in> set cs \<and> sg_first s \<le> i
      \<and> i < sg_first s + int (length xs) \<and> log_of cs ! nat (i - k) = snd (xs ! nat (i - sg_first s))"
    if "i < k + int (length (log_of cs))"
    unfolding segs using seg_chain_find [OF c that] by force
  have nth: "log_of (cs @ os) ! nat (i - k) = log_of cs ! nat (i - k)" if "i < k + int (length (log_of cs))"
    using that c(3) by (simp add: nth_append)
  show ?thesis
  proof (cases "sl_open l")
    case None
    then have "os = []"
      using inv by (simp add: sl_inv_def)
    then show ?thesis
      using True None closed len by (auto simp: sl_get_segment_def)
  next
    case (Some s)
    then obtain xs where os: "os = [(s, xs)]"
      using inv by (auto simp: sl_inv_def)
    have s: "sg_first s = k + int (length (log_of cs))"
      using inv by (simp add: sl_inv_def os seg_chain_append)
    show ?thesis
    proof (cases "sg_first s \<le> i")
      case at_open: True
      then have "nat (i - k) - length (log_of cs) = nat (i - sg_first s)" "\<not> nat (i - k) < length (log_of cs)"
        using s by auto
      then show ?thesis
        using True Some at_open len os s by (auto simp: sl_get_segment_def nth_append)
    next
      case False
      then have "i < k + int (length (log_of cs))"
        using s by simp
      with closed nth show ?thesis
        using True Some False by (auto simp: sl_get_segment_def)
    qed
  qed
qed

lemma io_pread: "io_ok E \<Longrightarrow> lf_pread_ok E off"
  by (simp add: io_ok_def)

lemma sl_invD:
  assumes "sl_inv E k cs os l"
  shows "segs_ok E (sl_disk l) (cs @ os)" "seg_chain k (cs @ os)" "sl_segments l = keyed (map fst cs)"
    "\<forall>(s, xs) \<in> set cs. \<not> sg_is_open s \<and> xs \<noteq> []"
    "1 \<le> sl_first l" "k \<le> sl_first l" "sl_first l \<le> sl_last l + 1"
    "sl_last l = k + int (length (log_of (cs @ os))) - 1"
  using assms unfolding sl_inv_def by blast+

lemma sl_inv_seg_ok: "sl_inv E k cs os l \<Longrightarrow> (s, xs) \<in> set (cs @ os) \<Longrightarrow> seg_ok E (sl_disk l) s xs"
  using segs_okD sl_invD(1) by blast

lemma sl_get_entry_ok:
  assumes inv: "sl_inv E k cs os l" and io: "io_ok E"
  shows "sl_get_entry E i l =
     (if sl_first l \<le> i \<and> i \<le> sl_last l then Some (log_of (cs @ os) ! nat (i - k)) else None)"
proof (cases "sl_first l \<le> i \<and> i \<le> sl_last l")
  case True
  then obtain s xs where s: "sl_get_segment i l = Some s" "(s, xs) \<in> set (cs @ os)" "sg_first s \<le> i"
    "i < sg_first s + int (length xs)" "log_of (cs @ os) ! nat (i - k) = snd (xs ! nat (i - sg_first s))"
    using sl_get_segment_ok [OF inv, of i] by auto
  note ok = sl_inv_seg_ok [OF inv s(2)]
  show ?thesis
    using True s seg_ok_last [OF ok] seg_get_ok [OF ok, of i] io_pread [OF io] by (simp add: sl_get_entry_def)
qed (use sl_get_segment_ok [OF inv, of i] in \<open>auto simp: sl_get_entry_def\<close>)

lemma sl_get_term_ok:
  assumes inv: "sl_inv E k cs os l"
  shows "sl_get_term i l =
     (if sl_first l \<le> i \<and> i \<le> sl_last l then e_term (log_of (cs @ os) ! nat (i - k)) else 0)"
proof (cases "sl_first l \<le> i \<and> i \<le> sl_last l")
  case True
  then obtain s xs where s: "sl_get_segment i l = Some s" "(s, xs) \<in> set (cs @ os)" "sg_first s \<le> i"
    "i < sg_first s + int (length xs)" "log_of (cs @ os) ! nat (i - k) = snd (xs ! nat (i - sg_first s))"
    using sl_get_segment_ok [OF inv, of i] by auto
  note ok = sl_inv_seg_ok [OF inv s(2)]
  show ?thesis
    using True s seg_ok_last [OF ok] seg_get_term_ok [OF ok, of i] by (simp add: sl_get_term_def)
qed (use sl_get_segment_ok [OF inv, of i] in \<open>auto simp: sl_get_term_def\<close>)

lemma sl_inv_contig: "sl_inv E k cs os l \<Longrightarrow> contig e_index k (log_of (cs @ os))"
  by (rule seg_chain_contig) (auto simp: sl_inv_def segs_ok_def)

lemma sl_entries_ok:
  assumes inv: "sl_inv E k cs os l" and io: "io_ok E"
  shows "sl_entries E l = drop (nat (sl_first l - k)) (log_of (cs @ os))"
proof (rule nth_equalityI)
  note b = sl_invD(6,8) [OF inv]
  then show "length (sl_entries E l) = length (drop (nat (sl_first l - k)) (log_of (cs @ os)))"
    by (simp add: sl_entries_def)
  fix j
  assume "j < length (sl_entries E l)"
  then have j: "sl_first l + int j \<le> sl_last l" "j < nat (sl_last l - sl_first l + 1)"
    by (simp_all add: sl_entries_def)
  have "nat (sl_first l + int j - k) = nat (sl_first l - k) + j"
    using b(1) by simp
  then show "sl_entries E l ! j = drop (nat (sl_first l - k)) (log_of (cs @ os)) ! j"
    using j b by (simp add: sl_entries_def sl_get_entry_ok [OF inv io] del: log_of_simps)
qed

lemma sl_contig:
  assumes inv: "sl_inv E k cs os l" and io: "io_ok E"
  shows "contig e_index (sl_first l) (sl_entries E l)" "sl_last l = sl_first l + int (length (sl_entries E l)) - 1"
proof -
  note b = sl_invD(6-8) [OF inv]
  then have "nat (sl_first l - k) \<le> length (log_of (cs @ os))"
    by linarith
  then show "contig e_index (sl_first l) (sl_entries E l)" "sl_last l = sl_first l + int (length (sl_entries E l)) - 1"
    using contig_drop [OF sl_inv_contig [OF inv], of "nat (sl_first l - k)"] b
    by (simp_all add: sl_entries_ok [OF inv io] del: log_of_simps)
qed

subsection \<open>Appending\<close>

lemma segs_ok_cong:
  assumes "segs_ok E d gs" and "dk_dir d' = dk_dir d" "dk_data d' = dk_data d" "dk_next d' = dk_next d"
  shows "segs_ok E d' gs"
  using assms by (auto simp: segs_ok_def dir_ok_def seg_ok_def)

lemma dir_ok_add:
  assumes "dir_ok d ss" and "dk_lookup d (file_name_of s) = None"
    and "dk_dir d' = (file_name_of s, dk_next d) # dk_dir d" "dk_next d' = dk_next d + 1"
  shows "dir_ok d' (ss @ [s])"
proof -
  have look: "dk_lookup d' n = (if n = file_name_of s then Some (dk_next d) else dk_lookup d n)" for n
    using assms(3) by simp
  have "distinct (map fst (dk_dir d'))"
    using assms(1-3) by (simp add: dir_ok_def map_of_eq_None_iff)
  moreover have "j < dk_next d'" if "dk_lookup d' n = Some j" for n j
    using that assms(1,4) by (auto simp: look dir_ok_def less_Suc_eq split: if_splits)
  moreover have "\<exists>t \<in> set (ss @ [s]). file_name_of t = n" if "dk_lookup d' n \<noteq> None" "is_seg_name n" for n
    using that assms(1) by (auto simp: look dir_ok_def split: if_splits)
  ultimately show ?thesis
    unfolding dir_ok_def by blast
qed

lemma create_open_segment_ok:
  assumes inv: "sl_inv E k cs [] l" and io: "io_ok E"
  obtains l' s where "create_open_segment E l = (True, l')" "sl_inv E k cs [(s, [])] l'"
    "sl_open l' = Some s" "sl_first l' = sl_first l" "sl_last l' = sl_last l" "dk_meta (sl_disk l') = dk_meta (sl_disk l)"
proof -
  define f where "f = sl_last l + 1"
  have closed: "\<forall>(s, xs) \<in> set cs. \<not> sg_is_open s" and segs: "segs_ok E (sl_disk l) cs"
    using inv by (auto simp: sl_inv_def)
  let ?d = "sl_disk l"
  have new: "dk_lookup ?d (OpenSeg f) = None"
  proof (rule ccontr)
    assume "dk_lookup ?d (OpenSeg f) \<noteq> None"
    then have "\<exists>s \<in> set (map fst cs). file_name_of s = OpenSeg f"
      using segs is_seg_name.simps(1) unfolding segs_ok_def dir_ok_def append_Nil2 by blast
    then show False
      using closed by (auto simp: file_name_of_def split: if_splits)
  qed
  define d where "d = dk_write (dk_next ?d) [] (?d\<lparr>dk_dir := (OpenSeg f, dk_next ?d) # dk_dir ?d, dk_next := dk_next ?d + 1\<rparr>)"
  define s where "s = (open_segment_new f (sl_checksum_type l))\<lparr>sg_fd := Some (dk_next ?d)\<rparr>"
  have fresh: "sg_fd t \<noteq> Some (dk_next ?d)" "file_name_of t \<noteq> OpenSeg f" if "(t, xs) \<in> set cs" for t xs
    using that segs closed by (fastforce simp: segs_ok_def seg_ok_def dir_ok_def file_name_of_def)+
  have "seg_ok E d t xs" if "(t, xs) \<in> set cs" for t xs
    using segs_okD [OF segs that] fresh [OF that] by (auto simp: seg_ok_def d_def)
  moreover have "seg_ok E d s []"
    by (simp add: seg_ok_def d_def s_def open_segment_new_def file_name_of_def)
  moreover have "dir_ok d (map fst cs @ [s])"
  proof -
    have n: "file_name_of s = OpenSeg f"
      by (simp add: s_def open_segment_new_def file_name_of_def)
    show ?thesis
      by (rule dir_ok_add [of ?d]) (use segs new in \<open>simp_all add: segs_ok_def d_def n\<close>)
  qed
  moreover have "Some (dk_next ?d) \<notin> set (map (sg_fd \<circ> fst) cs)"
    using fresh(1) by force
  ultimately have ok: "segs_ok E d (cs @ [(s, [])])"
    using segs by (auto simp: segs_ok_def s_def)
  have res: "create_open_segment E l = (True, l\<lparr>sl_open := Some s, sl_disk := d\<rparr>)"
    using io new by (simp add: create_open_segment_def seg_create_def dk_create_def io_ok_def s_def d_def f_def open_segment_new_def)
  show ?thesis
  proof (rule that [OF res])
    show "sl_inv E k cs [(s, [])] (l\<lparr>sl_open := Some s, sl_disk := d\<rparr>)"
      using inv ok by (auto simp: sl_inv_def seg_chain_append first_live_snoc s_def open_segment_new_def f_def)
  qed (simp_all add: d_def)
qed

lemma rename_dir_ok:
  assumes "dir_ok d ss" and "dk_lookup d old = Some i" "old \<noteq> new"
    and "dk_dir d' = (new, i) # AList.delete old (AList.delete new (dk_dir d))" "dk_next d' = dk_next d"
    and "\<And>s. s \<in> set ss \<Longrightarrow> file_name_of s \<noteq> old \<Longrightarrow> \<exists>t \<in> set ss'. file_name_of t = file_name_of s"
    and "is_seg_name new \<Longrightarrow> \<exists>t \<in> set ss'. file_name_of t = new"
  shows "dir_ok d' ss'"
proof -
  have look: "dk_lookup d' n = (if n = new then Some i else if n = old then None else dk_lookup d n)" for n
    using assms(3,4) by (simp add: delete_conv)
  have "new \<notin> fst ` set (AList.delete old (AList.delete new (dk_dir d)))"
    using dom_delete_subset [of old "AList.delete new (dk_dir d)"] delete_notin_dom [of new "dk_dir d"] by blast
  then have "distinct (map fst (dk_dir d'))"
    using assms(1,4) by (simp add: dir_ok_def distinct_delete)
  moreover have "j < dk_next d'" if "dk_lookup d' n = Some j" for n j
    using that assms(1,2,5) by (auto simp: look dir_ok_def split: if_splits)
  moreover have "\<exists>t \<in> set ss'. file_name_of t = n" if "dk_lookup d' n \<noteq> None" "is_seg_name n" for n
    using that assms(1,6,7) unfolding look dir_ok_def by metis
  ultimately show ?thesis
    unfolding dir_ok_def by blast
qed

lemma close_open_segment_ok:
  assumes inv: "sl_inv E k cs [(s, xs)] l" and op: "sl_open l = Some s" and io: "io_ok E" and xs: "xs \<noteq> []"
  obtains d where "seg_close E b s (sl_disk l) = (RcOk, s\<lparr>sg_is_open := False\<rparr>, d)"
    and "segs_ok E d (cs @ [(s\<lparr>sg_is_open := False\<rparr>, xs)])" "dk_meta d = dk_meta (sl_disk l)"
proof -
  let ?d = "sl_disk l" and ?old = "OpenSeg (sg_first s)" and ?new = "ClosedSeg (sg_first s) (sg_last s)"
  let ?s = "s\<lparr>sg_is_open := False\<rparr>"
  have segs: "segs_ok E ?d (cs @ [(s, xs)])" and open_seg: "sg_is_open s" and closed: "\<forall>(s, xs) \<in> set cs. \<not> sg_is_open s \<and> xs \<noteq> []"
    and chain: "seg_chain k (cs @ [(s, xs)])"
    using inv op by (auto simp: sl_inv_def)
  have ok: "seg_ok E ?d s xs"
    using segs_okD [OF segs] by simp
  obtain i where i: "sg_fd s = Some i" "dk_lookup ?d ?old = Some i"
    using ok open_seg by (auto simp: seg_ok_def file_name_of_def)
  obtain d where d: "dk_rename E ?old ?new ?d = (True, d)" "dk_lookup d = (dk_lookup ?d)(?old := None, ?new := Some i)"
    "dk_data d = dk_data ?d" "dk_next d = dk_next ?d" "dk_meta d = dk_meta ?d"
    "dk_dir d = (?new, i) # AList.delete ?old (AList.delete ?new (dk_dir ?d))"
    using dk_rename_ok [of E ?old ?d i ?new] io i(2) by (auto simp: io_ok_def)
  have first: "sg_first s = k + int (length (log_of cs))"
    using chain by (simp add: seg_chain_append)
  have before: "sg_first t < sg_first s" "file_name_of t \<noteq> ?old" "file_name_of t \<noteq> ?new" if "(t, ys) \<in> set cs" for t ys
  proof -
    obtain as bs where split: "cs = as @ (t, ys) # bs"
      using \<open>(t, ys) \<in> set cs\<close> by (meson split_list)
    have "sg_first t = k + int (length (log_of as))" "ys \<noteq> []"
      using chain closed that by (auto simp: split seg_chain_append)
    then show "sg_first t < sg_first s"
      using first by (cases ys) (simp_all add: split)
    then show "file_name_of t \<noteq> ?old" "file_name_of t \<noteq> ?new"
      by (auto simp: file_name_of_def)
  qed
  have "seg_ok E d t ys" if "(t, ys) \<in> set cs" for t ys
  proof (rule seg_ok_cong [of E ?d])
    show "seg_ok E ?d t ys"
      using that by (intro segs_okD [OF segs]) simp
    show "dk_lookup d (file_name_of t) = dk_lookup ?d (file_name_of t)"
      unfolding d(2) using before(2,3) [OF that] by simp
  qed (simp only: d(3))
  moreover have "seg_ok E d ?s xs"
    using ok i d(2,3) by (auto simp: seg_ok_def file_name_of_def)
  moreover have "dir_ok d (map fst cs @ [?s])"
  proof (rule rename_dir_ok [of ?d "map fst cs @ [s]" ?old i ?new])
    have names: "file_name_of s = ?old" "file_name_of ?s = ?new"
      using open_seg by (simp_all add: file_name_of_def)
    show "\<exists>u \<in> set (map fst cs @ [?s]). file_name_of u = file_name_of t"
      if "t \<in> set (map fst cs @ [s])" "file_name_of t \<noteq> ?old" for t
      using that names(1) by auto
    show "\<exists>u \<in> set (map fst cs @ [?s]). file_name_of u = ?new"
      using names(2) by simp
  qed (use segs d(4,6) i(2) in \<open>simp_all add: segs_ok_def\<close>)
  moreover have "sg_fd ?s = sg_fd s"
    by simp
  ultimately have "segs_ok E d (cs @ [(?s, xs)])"
    using segs by (simp add: segs_ok_def ball_Un case_prod_beta)
  moreover have "seg_close E b s ?d = (RcOk, ?s, d)"
    using io d(1) by (simp add: seg_close_def Let_def io_ok_def)
  ultimately show ?thesis
    using that d(5) by blast
qed

text \<open>\<open>open_segment\<close>: afterwards the last segment is open.\<close>

lemma close_inv:
  assumes inv: "sl_inv E k cs [(s, xs)] l" and xs: "xs \<noteq> []"
    and s': "sg_first s' = sg_first s" "\<not> sg_is_open s'"
    and d: "segs_ok E d (cs @ [(s', xs)])"
  shows "sl_inv E k (cs @ [(s', xs)]) [] (l\<lparr>sl_segments := segment_map_insert s' (sl_segments l), sl_open := None, sl_disk := d\<rparr>)"
proof -
  have chain: "seg_chain k (cs @ [(s, xs)])" and closed: "\<forall>(s, xs) \<in> set cs. \<not> sg_is_open s \<and> xs \<noteq> []"
    and segs: "sl_segments l = keyed (map fst cs)"
    using sl_invD(2-4) [OF inv] by simp_all
  have ins: "segment_map_insert s' (keyed (map fst gs)) = keyed (map fst gs) @ [(sg_first s', s')]"
    if "seg_chain j gs" "\<forall>(s, xs) \<in> set gs. xs \<noteq> []" "j + int (length (log_of gs)) = sg_first s'" for j and gs :: "seg_group list"
    using that
  proof (induction j gs rule: seg_chain.induct)
    case (1 j)
    then show ?case by simp
  next
    case (2 j t ys gs)
    then have "sg_first t < sg_first s'"
      by (cases ys) auto
    with 2 show ?case by (simp add: add.assoc)
  qed
  have "segment_map_insert s' (sl_segments l) = keyed (map fst (cs @ [(s', xs)]))"
    using ins [of k cs] chain closed s'(1) by (force simp: segs seg_chain_append)
  moreover have "seg_chain k (cs @ [(s', xs)])"
    using chain s'(1) by (simp add: seg_chain_append)
  moreover have "first_live (sl_first l) k (cs @ [(s', xs)])"
    using inv first_live_snoc(2) [of "sl_first l" k cs s' xs s] by (simp add: sl_inv_def)
  ultimately show ?thesis
    using inv d closed xs s'(2) by (auto simp: sl_inv_def)
qed

lemma sl_open_segment_ok:
  assumes inv: "sl_inv E k cs os l" and io: "io_ok E"
  obtains cs' s xs l' where "sl_open_segment E l = (True, l')" "sl_inv E k cs' [(s, xs)] l'" "sl_open l' = Some s"
    "log_of (cs' @ [(s, xs)]) = log_of (cs @ os)" "sl_first l' = sl_first l" "sl_last l' = sl_last l"
    "dk_meta (sl_disk l') = dk_meta (sl_disk l)"
proof -
  obtain s xs l1 where l1: "(if sl_open l = None then create_open_segment E l else (True, l)) = (True, l1)"
    "sl_inv E k cs [(s, xs)] l1" "sl_open l1 = Some s" "log_of (cs @ [(s, xs)]) = log_of (cs @ os)"
    "sl_first l1 = sl_first l" "sl_last l1 = sl_last l" "dk_meta (sl_disk l1) = dk_meta (sl_disk l)"
  proof (cases "sl_open l")
    case None
    then have "os = []"
      using inv by (simp add: sl_inv_def)
    with inv have "sl_inv E k cs [] l"
      by simp
    from create_open_segment_ok [OF this io] that None \<open>os = []\<close> show ?thesis
      by (metis append_Nil2 list.simps(8) log_of_simps)
  next
    case (Some s)
    then obtain xs where "os = [(s, xs)]"
      using inv by (auto simp: sl_inv_def)
    with that [of l s xs] Some inv show ?thesis
      by simp
  qed
  show ?thesis
  proof (cases "int (sg_bytes s) \<le> lf_max_segment_size E")
    case True
    then have "sl_open_segment E l = (True, l1)"
      by (simp add: sl_open_segment_def l1(1,3))
    with l1 that show ?thesis by metis
  next
    case False
    have ok: "seg_ok E (sl_disk l1) s xs"
      by (rule sl_inv_seg_ok [OF l1(2)]) simp
    then have xs: "xs \<noteq> []"
      using False io by (auto simp: seg_ok_def io_ok_def)
    let ?s = "s\<lparr>sg_is_open := False\<rparr>"
    obtain d where d: "seg_close E (sl_enable_sync l1) s (sl_disk l1) = (RcOk, ?s, d)"
      "segs_ok E d (cs @ [(?s, xs)])" "dk_meta d = dk_meta (sl_disk l1)"
      using close_open_segment_ok [OF l1(2,3) io xs] by metis
    define l2 where "l2 = l1\<lparr>sl_segments := segment_map_insert ?s (sl_segments l1), sl_open := None, sl_disk := d\<rparr>"
    have l2: "sl_inv E k (cs @ [(?s, xs)]) [] l2"
      unfolding l2_def by (rule close_inv [OF l1(2) xs _ _ d(2)]) simp_all
    obtain l3 t where l3: "create_open_segment E l2 = (True, l3)" "sl_inv E k (cs @ [(?s, xs)]) [(t, [])] l3" "sl_open l3 = Some t"
      "sl_first l3 = sl_first l2" "sl_last l3 = sl_last l2" "dk_meta (sl_disk l3) = dk_meta (sl_disk l2)"
      using create_open_segment_ok [OF l2 io] by metis
    have "sl_open_segment E l = (True, l3)"
      using False by (simp add: sl_open_segment_def l1(1,3) d(1) Let_def l2_def [symmetric] l3(1))
    moreover have "log_of ((cs @ [(?s, xs)]) @ [(t, [])]) = log_of (cs @ os)"
      using l1(4) by simp
    ultimately show ?thesis
      using that l3 l1 d(3) by (simp add: l2_def)
  qed
qed

lemma sl_append_one_ok:
  assumes inv: "sl_inv E k cs os l" and io: "io_ok E" and e: "e_index e = sl_last l + 1" "storable E e"
  obtains cs' os' l' where "sl_append_one E e l = (True, l')" "sl_inv E k cs' os' l'" "os' \<noteq> []"
    "log_of (cs' @ os') = log_of (cs @ os) @ [e]" "sl_first l' = sl_first l" "sl_last l' = sl_last l + 1"
    "dk_meta (sl_disk l') = dk_meta (sl_disk l)"
proof -
  obtain cs' s xs l1 where l1: "sl_open_segment E l = (True, l1)" "sl_inv E k cs' [(s, xs)] l1" "sl_open l1 = Some s"
    "log_of (cs' @ [(s, xs)]) = log_of (cs @ os)" "sl_first l1 = sl_first l" "sl_last l1 = sl_last l"
    "dk_meta (sl_disk l1) = dk_meta (sl_disk l)"
    using sl_open_segment_ok [OF inv io] by metis
  note D = sl_invD [OF l1(2)]
  let ?d = "sl_disk l1"
  have ok: "seg_ok E ?d s xs"
    by (rule sl_inv_seg_ok [OF l1(2)]) simp
  obtain i where i: "sg_fd s = Some i"
    using ok by (auto simp: seg_ok_def)
  have open_seg: "sg_is_open s"
    using l1(2,3) by (simp add: sl_inv_def)
  have first: "sg_first s = k + int (length (log_of cs'))"
    using D(2) by (simp add: seg_chain_append)
  have last: "sg_last s = sl_last l1"
    using D(8) first seg_ok_last [OF ok] by simp
  define x where "x = (sg_checksum_type s, e)"
  let ?d' = "dk_write i (encs E (xs @ [x])) ?d"
  obtain s' where s': "seg_append E e s ?d = (RcOk, s', ?d')" "seg_ok E ?d' s' (xs @ [x])" "sg_first s' = sg_first s"
    "sg_is_open s'" "sg_fd s' = Some i" "sg_last s' = sg_last s + 1"
    using seg_append_ok [OF ok i open_seg _ e(2)] io e(1) last l1(6) unfolding x_def by (metis io_ok_def)
  define l2 where "l2 = l1\<lparr>sl_open := Some s', sl_disk := ?d', sl_last := sl_last l1 + 1\<rparr>"
  have segs: "segs_ok E ?d (cs' @ [(s, xs)])"
    by (rule D(1))
  then have others: "sg_fd t \<noteq> Some i" if "(t, ys) \<in> set cs'" for t ys
    using that i by (force simp: segs_ok_def)
  have "dir_ok ?d' (map fst cs' @ [s'])"
    using segs s'(3,4) open_seg by (auto simp: segs_ok_def dir_ok_def file_name_of_def)
  moreover have "seg_ok E ?d' t ys" if "(t, ys) \<in> set cs'" for t ys
    using that segs_okD [OF segs, of t ys] others by (intro seg_ok_write) auto
  ultimately have "segs_ok E ?d' (cs' @ [(s', xs @ [x])])"
    using segs s'(2,5) i by (auto simp: segs_ok_def)
  moreover have "first_live (sl_first l1) k (cs' @ [(s', xs @ [x])])"
    using l1(2) D(7,8) by (cases cs'; cases xs) (auto simp: sl_inv_def)
  ultimately have "sl_inv E k cs' [(s', xs @ [x])] l2"
    using l1(2) s'(3,4) by (auto simp: sl_inv_def l2_def seg_chain_append)
  moreover have "sl_append_one E e l = (True, l2)"
    by (simp add: sl_append_one_def l1(1,3) s'(1) l2_def Let_def)
  moreover have "log_of (cs' @ [(s', xs @ [x])]) = log_of (cs @ os) @ [e]"
    using l1(4) [symmetric] by (simp add: x_def)
  ultimately show ?thesis
    using that l1 by (simp add: l2_def)
qed

lemma sl_append_loop_ok:
  assumes "sl_inv E k cs os l" and io: "io_ok E" and "contig e_index (sl_last l + 1) es" and "\<forall>e \<in> set es. storable E e"
  shows "\<exists>cs' os' l'. sl_append_loop E es l = (True, int (length es), l') \<and> sl_inv E k cs' os' l'
     \<and> log_of (cs' @ os') = log_of (cs @ os) @ es \<and> sl_first l' = sl_first l
     \<and> dk_meta (sl_disk l') = dk_meta (sl_disk l)"
  using assms(1,3,4)
proof (induction es arbitrary: cs os l)
  case Nil
  then show ?case
    by (intro exI [of _ cs] exI [of _ os] exI [of _ l]) simp
next
  case (Cons e es)
  from Cons.prems have "e_index e = sl_last l + 1" "storable E e"
    by simp_all
  then obtain cs1 os1 l1 where l1: "sl_append_one E e l = (True, l1)" "sl_inv E k cs1 os1 l1"
    "log_of (cs1 @ os1) = log_of (cs @ os) @ [e]" "sl_first l1 = sl_first l" "sl_last l1 = sl_last l + 1"
    "dk_meta (sl_disk l1) = dk_meta (sl_disk l)"
    using sl_append_one_ok [OF Cons.prems(1) io] by metis
  obtain cs' os' l' where "sl_append_loop E es l1 = (True, int (length es), l')" "sl_inv E k cs' os' l'"
    "log_of (cs' @ os') = log_of (cs1 @ os1) @ es" "sl_first l' = sl_first l1" "dk_meta (sl_disk l') = dk_meta (sl_disk l1)"
    using Cons.IH [OF l1(2)] Cons.prems(2,3) l1(5) by auto
  then show ?case
    using l1 by (intro exI [of _ cs'] exI [of _ os'] exI [of _ l']) simp
qed

lemma seg_sync_fields:
  "seg_ok E d (snd (seg_sync E b c s)) xs \<longleftrightarrow> seg_ok E d s xs"
  "sg_first (snd (seg_sync E b c s)) = sg_first s" "sg_is_open (snd (seg_sync E b c s)) = sg_is_open s"
  "sg_fd (snd (seg_sync E b c s)) = sg_fd s" "file_name_of (snd (seg_sync E b c s)) = file_name_of s"
  by (auto simp: seg_sync_def seg_ok_def file_name_of_def)

lemma sl_sync_open_ok:
  assumes inv: "sl_inv E k cs os l"
  shows "\<exists>os'. sl_inv E k cs os' (sl_sync_open E b l) \<and> log_of os' = log_of os"
proof (cases "sl_open l")
  case None
  with inv show ?thesis
    by (auto simp: sl_sync_open_def)
next
  case (Some s)
  define t where "t = snd (seg_sync E (sl_enable_sync l) b s)"
  obtain xs where os: "os = [(s, xs)]"
    using inv Some by (auto simp: sl_inv_def)
  have "segs_ok E (sl_disk l) (cs @ [(t, xs)])"
    using sl_invD(1) [OF inv] by (auto simp: os segs_ok_def dir_ok_def t_def seg_sync_fields)
  then have "sl_inv E k cs [(t, xs)] (sl_sync_open E b l)"
    using inv Some first_live_snoc(2) [of "sl_first l" k cs t xs s]
    by (auto simp: sl_inv_def os sl_sync_open_def t_def [symmetric] seg_chain_append) (simp_all add: t_def seg_sync_fields)
  then show ?thesis
    by (intro exI [of _ "[(t, xs)]"]) (simp add: os)
qed

lemma sl_append_entries_ok:
  assumes inv: "sl_inv E k cs os l" and io: "io_ok E" and es: "contig e_index (sl_last l + 1) es" "\<forall>e \<in> set es. storable E e"
  obtains cs' os' l' where "sl_append_entries E es l = (int (length es), l')" "sl_inv E k cs' os' l'"
    "log_of (cs' @ os') = log_of (cs @ os) @ es" "sl_first l' = sl_first l" "dk_meta (sl_disk l') = dk_meta (sl_disk l)"
proof (cases es)
  case Nil
  with that [of l cs os] inv show ?thesis
    by (simp add: sl_append_entries_def)
next
  case (Cons e es')
  obtain cs1 os1 l1 where l1: "sl_append_loop E es l = (True, int (length es), l1)" "sl_inv E k cs1 os1 l1"
    "log_of (cs1 @ os1) = log_of (cs @ os) @ es" "sl_first l1 = sl_first l" "dk_meta (sl_disk l1) = dk_meta (sl_disk l)"
    using sl_append_loop_ok [OF inv io es] by blast
  define b where "b = (\<exists>e \<in> set es. e_type e = ENTRY_TYPE_CONFIGURATION)"
  obtain os2 where os2: "sl_inv E k cs1 os2 (sl_sync_open E b l1)" "log_of os2 = log_of os1"
    using sl_sync_open_ok [OF l1(2)] by blast
  have "sl_append_entries E es l = (int (length es), sl_sync_open E b l1)"
    using es(1) l1(1) [unfolded Cons] by (simp add: sl_append_entries_def Cons b_def del: sl_append_loop.simps)
  moreover have "sl_first (sl_sync_open E b l1) = sl_first l1" "sl_disk (sl_sync_open E b l1) = sl_disk l1"
    by (simp_all add: sl_sync_open_def split: option.split)
  ultimately show ?thesis
    using that os2 l1 by simp
qed

subsection \<open>Unlinking\<close>

definition removed :: "segment list \<Rightarrow> disk \<Rightarrow> disk \<Rightarrow> bool" where
  "removed ss d d' \<longleftrightarrow>
     dk_data d' = dk_data d \<and> dk_next d' = dk_next d \<and> dk_meta d' = dk_meta d
     \<and> (distinct (map fst (dk_dir d)) \<longrightarrow> distinct (map fst (dk_dir d')))
     \<and> (\<forall>n. dk_lookup d' n = (if n \<in> file_name_of ` set ss \<union> (\<lambda>s. TmpSeg (file_name_of s)) ` set ss then None else dk_lookup d n))"

lemma file_name_not_tmp [simp]: "file_name_of s \<noteq> TmpSeg n" "is_seg_name (file_name_of s)"
  by (simp_all add: file_name_of_def)

lemma seg_unlink_ok:
  assumes io: "io_ok E" and i: "dk_lookup d (file_name_of s) \<noteq> None"
  shows "\<exists>d'. seg_unlink E s d = (RcOk, d') \<and> removed [s] d d'"
proof -
  let ?n = "file_name_of s"
  obtain i where i: "dk_lookup d ?n = Some i"
    using i by blast
  have neq: "?n \<noteq> TmpSeg ?n"
    by simp
  from io have io': "lf_rename_ok E ?n" "lf_unlinked E ?n"
    by (simp_all add: io_ok_def)
  obtain d1 where d1: "dk_rename E ?n (TmpSeg ?n) d = (True, d1)" "dk_lookup d1 = (dk_lookup d)(?n := None, TmpSeg ?n := Some i)"
    "dk_data d1 = dk_data d" "dk_next d1 = dk_next d" "dk_meta d1 = dk_meta d"
    "dk_dir d1 = (TmpSeg ?n, i) # AList.delete ?n (AList.delete (TmpSeg ?n) (dk_dir d))"
    using dk_rename_ok [OF io'(1) i neq] by metis
  have look: "dk_lookup (dk_unlink (TmpSeg ?n) d1) m = (if m = ?n \<or> m = TmpSeg ?n then None else dk_lookup d m)" for m
    using d1(6) by (simp add: dk_unlink_def delete_conv)
  have "distinct (map fst (dk_dir (dk_unlink (TmpSeg ?n) d1)))" if "distinct (map fst (dk_dir d))"
    using that by (simp add: dk_unlink_def d1(6) distinct_delete)
  then have "removed [s] d (dk_unlink (TmpSeg ?n) d1)"
    using look d1(3-5) by (simp add: removed_def dk_unlink_def)
  moreover have "seg_unlink E s d = (RcOk, dk_unlink (TmpSeg ?n) d1)"
    using io'(2) by (simp add: seg_unlink_def d1(1))
  ultimately show ?thesis by blast
qed

lemma removed_refl: "removed [] d d"
  by (simp add: removed_def)

lemma removed_trans: "removed ss d d1 \<Longrightarrow> removed ts d1 d2 \<Longrightarrow> removed (ss @ ts) d d2"
  by (auto simp: removed_def)

lemma unlink_all_ok:
  assumes "io_ok E" and "\<forall>s \<in> set ss. dk_lookup d (file_name_of s) \<noteq> None" and "distinct (map file_name_of ss)"
  shows "removed ss d (unlink_all E ss d) \<and> unlink_until E ss rc d = (if ss = [] then rc else RcOk, unlink_all E ss d)"
  using assms(2,3)
proof (induction ss arbitrary: d rc)
  case Nil
  then show ?case by (simp add: unlink_all_def removed_refl)
next
  case (Cons s ss)
  obtain d1 where d1: "seg_unlink E s d = (RcOk, d1)" "removed [s] d d1"
    using seg_unlink_ok [OF assms(1)] Cons.prems(1) by fastforce
  have "dk_lookup d1 (file_name_of t) \<noteq> None" if "t \<in> set ss" for t
    using that d1(2) Cons.prems by (auto simp: removed_def image_iff)
  then have "removed ss d1 (unlink_all E ss d1) \<and> unlink_until E ss RcOk d1 = (RcOk, unlink_all E ss d1)"
    using Cons.IH [of d1 RcOk] Cons.prems(2) by auto
  then show ?case
    using d1 removed_trans [OF d1(2)] by (simp add: unlink_all_def)
qed

text \<open>The files of the segments left are untouched.\<close>

lemma segs_ok_removed:
  assumes segs: "segs_ok E d gs" and rem: "removed ss d d'" and sub: "set hs \<subseteq> set gs" "distinct (map (sg_fd \<circ> fst) hs)"
    and kept: "\<And>s xs. (s, xs) \<in> set hs \<Longrightarrow> file_name_of s \<notin> file_name_of ` set ss"
    and gone: "\<And>s xs. (s, xs) \<in> set gs \<Longrightarrow> (s, xs) \<notin> set hs \<Longrightarrow> file_name_of s \<in> file_name_of ` set ss"
  shows "segs_ok E d' hs"
proof -
  have "seg_ok E d' s xs" if "(s, xs) \<in> set hs" for s xs
  proof (rule seg_ok_cong [of E d])
    show "seg_ok E d s xs"
      by (rule segs_okD [OF segs]) (use that sub in blast)
    have "file_name_of s \<notin> (\<lambda>t. TmpSeg (file_name_of t)) ` set ss"
      using file_name_not_tmp(1) by blast
    then show "dk_lookup d' (file_name_of s) = dk_lookup d (file_name_of s)"
      using rem kept [OF that] unfolding removed_def by (metis Un_iff)
  qed (use rem in \<open>simp add: removed_def\<close>)
  moreover have "dir_ok d' (map fst hs)"
    unfolding dir_ok_def
  proof (intro conjI allI impI)
    show "distinct (map fst (dk_dir d'))"
      using segs rem by (simp add: segs_ok_def dir_ok_def removed_def)
    fix n i
    assume "dk_lookup d' n = Some i"
    then show "i < dk_next d'"
      using segs rem by (auto simp: segs_ok_def dir_ok_def removed_def split: if_splits)
  next
    fix n
    assume n: "dk_lookup d' n \<noteq> None \<and> is_seg_name n"
    then have "dk_lookup d n \<noteq> None" "n \<notin> file_name_of ` set ss"
      using rem by (auto simp: removed_def split: if_splits)
    then obtain s xs where "(s, xs) \<in> set gs" "file_name_of s = n"
    proof -
      have "dir_ok d (map fst gs)"
        using segs by (simp add: segs_ok_def)
      then obtain s where "s \<in> set (map fst gs)" "file_name_of s = n"
        using n \<open>dk_lookup d n \<noteq> None\<close> unfolding dir_ok_def by blast
      then show ?thesis
        using that by auto
    qed
    then show "\<exists>s \<in> set (map fst hs). file_name_of s = n"
      using gone [of s xs] \<open>n \<notin> file_name_of ` set ss\<close> image_eqI [of s fst "(s, xs)" "set hs"]
      unfolding set_map by (metis fst_conv)
  qed
  ultimately show ?thesis
    using sub(2) unfolding segs_ok_def by blast
qed

lemma segs_ok_names:
  assumes "seg_chain k (cs @ os)" and "\<forall>(s, xs) \<in> set cs. xs \<noteq> []" and "length os \<le> 1"
  shows "distinct (map (\<lambda>g. sg_first (fst g)) (cs @ os))" "distinct (map (file_name_of \<circ> fst) (cs @ os))"
proof -
  have lt: "\<forall>g \<in> set gs. j \<le> sg_first (fst g)" if "seg_chain j gs" for j and gs :: "seg_group list"
    using that by (induction j gs rule: seg_chain.induct) fastforce+
  show d: "distinct (map (\<lambda>g. sg_first (fst g)) (cs @ os))"
    using assms
  proof (induction cs arbitrary: k)
    case Nil
    then show ?case by (cases os) auto
  next
    case (Cons g cs)
    obtain s xs where g: "g = (s, xs)" by fastforce
    have "k < k + int (length xs)"
      using Cons.prems(2) by (cases xs) (auto simp: g)
    moreover have "seg_chain (k + int (length xs)) (cs @ os)"
      using Cons.prems(1) by (simp add: g)
    then have "\<forall>h \<in> set (cs @ os). k + int (length xs) \<le> sg_first (fst h)"
      by (rule lt)
    ultimately have "sg_first s \<notin> (\<lambda>h. sg_first (fst h)) ` set (cs @ os)"
      using Cons.prems(1) by (force simp: g)
    then show ?case
      using Cons by (auto simp: g)
  qed
  have inj: "sg_first s = sg_first t" if "file_name_of s = file_name_of t" for s t
    using that by (auto simp: file_name_of_def split: if_splits)
  show "distinct (map (file_name_of \<circ> fst) (cs @ os))"
    unfolding distinct_map
  proof (intro conjI inj_onI)
    show "distinct (cs @ os)"
      using d by (simp only: distinct_map)
    fix g h
    assume "g \<in> set (cs @ os)" "h \<in> set (cs @ os)" "(file_name_of \<circ> fst) g = (file_name_of \<circ> fst) h"
    then show "g = h"
      using d inj [of "fst g" "fst h"] unfolding distinct_map inj_on_def by simp
  qed
qed

lemma segs_ok_unlink:
  assumes io: "io_ok E" and segs: "segs_ok E d gs" and part: "set ps \<union> set hs = set gs"
    and names: "distinct (map (file_name_of \<circ> fst) (ps @ hs))" and fds: "distinct (map (sg_fd \<circ> fst) hs)"
  shows "segs_ok E (unlink_all E (map fst ps) d) hs \<and> dk_meta (unlink_all E (map fst ps) d) = dk_meta d
     \<and> unlink_until E (map fst ps) rc d = (if ps = [] then rc else RcOk, unlink_all E (map fst ps) d)"
proof -
  have "dk_lookup d (file_name_of s) \<noteq> None" if "(s, xs) \<in> set ps" for s xs
    using segs_okD [OF segs, of s xs] that part by (auto simp: seg_ok_def)
  then have "\<forall>s \<in> set (map fst ps). dk_lookup d (file_name_of s) \<noteq> None"
    by auto
  then have rem: "removed (map fst ps) d (unlink_all E (map fst ps) d)"
    and until: "unlink_until E (map fst ps) rc d = (if ps = [] then rc else RcOk, unlink_all E (map fst ps) d)"
    using unlink_all_ok [OF io, of "map fst ps" d rc] names by (simp_all add: map_map [symmetric] del: map_map)
  have sep: "(file_name_of \<circ> fst) ` set ps \<inter> (file_name_of \<circ> fst) ` set hs = {}"
    using names by simp
  have "segs_ok E (unlink_all E (map fst ps) d) hs"
  proof (rule segs_ok_removed [OF segs rem _ fds])
    fix s xs
    show "file_name_of s \<notin> file_name_of ` set (map fst ps)" if "(s, xs) \<in> set hs"
      using sep that by (force simp: image_image)
    show "file_name_of s \<in> file_name_of ` set (map fst ps)" if "(s, xs) \<in> set gs" "(s, xs) \<notin> set hs"
      using part that by (force simp: image_image)
  qed (use part in blast)
  with rem until show ?thesis
    by (simp add: removed_def)
qed

lemma sl_inv_names:
  assumes "sl_inv E k cs os l"
  shows "distinct (map (file_name_of \<circ> fst) (cs @ os))" "distinct (map (\<lambda>g. sg_first (fst g)) (cs @ os))"
    "distinct (map (sg_fd \<circ> fst) (cs @ os))" "length os \<le> 1"
proof -
  show len: "length os \<le> 1"
    using assms by (auto simp: sl_inv_def split: option.splits)
  show "distinct (map (file_name_of \<circ> fst) (cs @ os))" "distinct (map (\<lambda>g. sg_first (fst g)) (cs @ os))"
    using segs_ok_names [OF sl_invD(2) [OF assms] _ len] sl_invD(4) [OF assms] by fastforce+
  show "distinct (map (sg_fd \<circ> fst) (cs @ os))"
    using sl_invD(1) [OF assms] by (simp add: segs_ok_def)
qed

subsection \<open>Truncating the prefix\<close>

text \<open>The meta file names the first index; the codec of the meta message is a parameter.\<close>

definition meta_ok :: "log_env \<Rightarrow> seg_log \<Rightarrow> bool" where
  "meta_ok E l \<longleftrightarrow> pb_path (dk_meta (sl_disk l))
     = Some (net32 (length (lf_meta_ser E (sl_first l))) @ lf_meta_ser E (sl_first l))"

lemma sl_save_meta_ok:
  assumes "io_ok E"
  obtains f where "sl_save_meta E k l = (RcOk, l\<lparr>sl_disk := (sl_disk l)\<lparr>dk_meta := f\<rparr>\<rparr>)"
    "pb_path f = Some (net32 (length (lf_meta_ser E k)) @ lf_meta_ser E k)"
  using assms by (auto simp: sl_save_meta_def pb_save_def Let_def io_ok_def)

lemma segs_ok_meta: "segs_ok E (d\<lparr>dk_meta := f\<rparr>) gs = segs_ok E d gs"
  by (auto simp: segs_ok_def dir_ok_def seg_ok_def)

lemma seg_chain_dropWhile:
  assumes "seg_chain k cs" and "\<forall>(s, xs) \<in> set cs. sg_last s = sg_first s + int (length xs) - 1 \<and> xs \<noteq> []"
    and cs: "cs = ps @ hs" "ps = takeWhile (\<lambda>(s, xs). sg_last s < f) cs" "hs = dropWhile (\<lambda>(s, xs). sg_last s < f) cs"
    and "k \<le> f"
  shows "k + int (length (log_of ps)) \<le> f" "first_live f (k + int (length (log_of ps))) hs"
proof -
  have "\<forall>(s, xs) \<in> set ps. sg_last s < f"
    unfolding cs(2) by (auto dest: set_takeWhileD)
  moreover have "seg_chain k ps" and chain: "seg_chain (k + int (length (log_of ps))) hs"
    using assms(1) cs(1) by (simp_all add: seg_chain_append)
  ultimately show "k + int (length (log_of ps)) \<le> f"
    using assms(2,6) unfolding cs(1)
    by (cases ps rule: rev_cases) (auto simp: seg_chain_append)
  show "first_live f (k + int (length (log_of ps))) hs"
  proof (cases hs)
    case (Cons g gs)
    have "dropWhile (\<lambda>(s, xs). sg_last s < f) cs \<noteq> []" "hd (dropWhile (\<lambda>(s, xs). sg_last s < f) cs) = g"
      using Cons unfolding cs(3) by simp_all
    then have "\<not> (\<lambda>(s, xs). sg_last s < f) g"
      using hd_dropWhile by metis
    moreover have "g \<in> set cs"
      using Cons cs(1) by simp
    ultimately have "g \<in> set cs" "\<not> (\<lambda>(s, xs). sg_last s < f) g"
      by simp_all
    with Cons chain assms(2) show ?thesis
      by (cases g) auto
  qed simp
qed

end
