(* ===== verification/SegmentLogTruncate.thy ===== *)
theory SegmentLogTruncate
  imports SegmentLogSafety
begin

section \<open>Truncating and resetting the segment storage\<close>

text \<open>
  Removing entries from the front, from the back and altogether: which segments go, which one is cut, and
  that what is left satisfies the invariant of the storage and holds the entries it should.
\<close>

subsection \<open>From the front\<close>

lemma takeWhile_keyed:
  "takeWhile (\<lambda>(j, s). P s) (keyed (map fst gs)) = keyed (map fst (takeWhile (\<lambda>(s, xs). P s) gs))"
  "dropWhile (\<lambda>(j, s). P s) (keyed (map fst gs)) = keyed (map fst (dropWhile (\<lambda>(s, xs). P s) gs))"
  by (induction gs) auto

text \<open>What is left of the storage, in terms of its segments.\<close>

lemma sl_pop_segments_shape:
  assumes inv: "sl_inv E k cs os l" and f: "sl_first l < f"
  obtains ps hs ts k' l' where "sl_pop_segments f l = (map fst ps, l')" "ps @ hs @ ts = cs @ os"
    "sl_disk l' = sl_disk l" "sl_first l' = f" "sl_last l' = max (sl_last l) (f - 1)"
    "sl_segments l' = keyed (map fst hs)" "set hs \<subseteq> set cs"
    "case sl_open l' of None \<Rightarrow> ts = [] | Some s \<Rightarrow> sg_is_open s \<and> (\<exists>xs. ts = [(s, xs)])"
    "seg_chain k' (hs @ ts)" "k' \<le> f" "sl_last l' = k' + int (length (log_of (hs @ ts))) - 1"
    "hs @ ts = [] \<longrightarrow> k' = f" "first_live f k' (hs @ ts)"
proof -
  note D = sl_invD [OF inv]
  let ?P = "\<lambda>(s, xs). sg_last s < f"
  define ps where "ps = takeWhile ?P cs"
  define hs where "hs = dropWhile ?P cs"
  have cs: "cs = ps @ hs"
    by (simp add: ps_def hs_def)
  have ok: "\<forall>(s, xs) \<in> set cs. sg_last s = sg_first s + int (length xs) - 1 \<and> xs \<noteq> []"
    using D(4) seg_ok_last sl_inv_seg_ok [OF inv] by fastforce
  have chain: "seg_chain k cs" "seg_chain (k + int (length (log_of cs))) os"
    using D(2) by (simp_all add: seg_chain_append)
  have kf: "k \<le> f"
    using D(6) f by simp
  note drop = seg_chain_dropWhile [OF chain(1) ok cs ps_def hs_def kf]
  define m where "m = k + int (length (log_of ps))"
  have segs: "sl_segments l = keyed (map fst cs)"
    by (rule D(3))
  have res: "sl_pop_segments f l =
     (let l2 = l\<lparr>sl_first := f, sl_segments := keyed (map fst hs)\<rparr>
      in if hs \<noteq> [] then (map fst ps, l2)
         else case sl_open l of
                Some s \<Rightarrow> if sg_last s < f then (map fst ps @ [s], l2\<lparr>sl_open := None, sl_last := f - 1\<rparr>) else (map fst ps, l2)
              | None \<Rightarrow> (map fst ps, l2\<lparr>sl_last := f - 1\<rparr>))"
    by (simp add: sl_pop_segments_def segs takeWhile_keyed Let_def ps_def [symmetric] hs_def [symmetric])
  have open_l: "case sl_open l of None \<Rightarrow> os = [] | Some s \<Rightarrow> sg_is_open s \<and> (\<exists>xs. os = [(s, xs)])"
    using inv by (simp add: sl_inv_def)
  have chain': "seg_chain m (hs @ os)" "m + int (length (log_of (hs @ os))) = sl_last l + 1"
    using D(2,8) cs by (simp_all add: m_def seg_chain_append add.assoc)
  show ?thesis
  proof (cases "hs = [] \<and> (\<forall>(s, xs) \<in> set os. sg_last s < f)")
    case False
    have live: "first_live f m (hs @ os)"
    proof (cases hs)
      case Nil
      with False obtain s xs where os: "os = [(s, xs)]" "\<not> sg_last s < f"
        using open_l by (auto split: option.splits)
      then have "seg_ok E (sl_disk l) s xs"
        using sl_inv_seg_ok [OF inv] by simp
      with os chain'(1) Nil show ?thesis
        by (auto simp: seg_ok_def)
    next
      case (Cons g gs)
      with drop(2) show ?thesis
        by (cases g) (auto simp: m_def)
    qed
    have "f \<le> sl_last l"
    proof -
      obtain s xs gs where g: "hs @ os = (s, xs) # gs"
        using False by (cases hs; cases os) auto
      then have "(s, xs) \<in> set (hs @ os)"
        by simp
      then have "(s, xs) \<in> set (cs @ os)"
        using cs by auto
      then have "sg_last s = sg_first s + int (length xs) - 1"
        by (rule seg_ok_last [OF sl_inv_seg_ok [OF inv]])
      moreover have "xs \<noteq> [] \<or> hs = []"
        using ok cs g by (cases hs) auto
      ultimately show ?thesis
        using live chain' False g open_l by (cases hs) (auto split: option.splits)
    qed
    have "sl_pop_segments f l = (map fst ps, l\<lparr>sl_first := f, sl_segments := keyed (map fst hs)\<rparr>)"
      using False open_l by (auto simp: res Let_def split: option.splits)
    then show ?thesis
      by (rule that [where ts = os and k' = m]) (use cs open_l chain' live drop(1) False \<open>f \<le> sl_last l\<close> in \<open>auto simp: m_def\<close>)
  next
    case True
    moreover have "\<forall>(s, xs) \<in> set os. sg_last s = sg_first s + int (length xs) - 1"
      using seg_ok_last [OF sl_inv_seg_ok [OF inv]] by auto
    ultimately have "sl_last l < f"
      using open_l chain' drop(1) by (auto simp: m_def split: option.splits)
    have "sl_pop_segments f l = (map fst (ps @ os), l\<lparr>sl_first := f, sl_segments := [], sl_open := None, sl_last := f - 1\<rparr>)"
    proof (cases "sl_open l")
      case None
      with True open_l show ?thesis
        unfolding res by (cases l) (simp add: Let_def)
    next
      case (Some s)
      with True open_l obtain xs where "os = [(s, xs)]" "sg_last s < f"
        by auto
      with True Some show ?thesis
        unfolding res by (simp add: Let_def)
    qed
    then show ?thesis
      by (rule that [where hs = "[]" and ts = "[]" and k' = f]) (use cs True \<open>sl_last l < f\<close> in auto)
  qed
qed


lemma drop_log:
  assumes "log = log1 @ log2" and "lst = (k :: int) + int (length log) - 1" "max lst (f - 1) = k' + int (length log2) - 1"
    and "k \<le> a" "a \<le> f" "k' \<le> f"
  shows "drop (nat (f - k')) log2 = drop (nat (f - a)) (drop (nat (a - k)) log)"
proof -
  have a: "drop (nat (f - a)) (drop (nat (a - k)) log) = drop (nat (f - k)) log"
    using assms(4,5) by (simp add: nat_add_distrib [symmetric])
  show ?thesis
  proof (cases "f - 1 \<le> lst")
    case True
    then have "nat (f - k) = length log1 + nat (f - k')"
      using assms by auto
    then show ?thesis
      unfolding a using assms(1) by simp
  next
    case False
    then show ?thesis
      unfolding a using assms(2,3) by simp
  qed
qed

lemma sl_truncate_prefix_ok:
  assumes inv: "sl_inv E k cs os l" and io: "io_ok E" and f: "sl_first l \<le> f"
  obtains k' cs' os' l' where "sl_truncate_prefix E f l = (RcOk, l')" "sl_inv E k' cs' os' l'" "sl_first l' = f"
    "sl_last l' = max (sl_last l) (f - 1)" "sl_entries E l' = drop (nat (f - sl_first l)) (sl_entries E l)"
    "meta_ok E l \<Longrightarrow> meta_ok E l'"
proof (cases "sl_first l = f")
  case True
  with that [of l k cs os] inv show ?thesis
    by (simp add: sl_truncate_prefix_def sl_inv_def max_def)
next
  case False
  obtain m where m: "sl_save_meta E f l = (RcOk, l\<lparr>sl_disk := (sl_disk l)\<lparr>dk_meta := m\<rparr>\<rparr>)"
    "pb_path m = Some (net32 (length (lf_meta_ser E f)) @ lf_meta_ser E f)"
    using sl_save_meta_ok [OF io] by metis
  define l1 where "l1 = l\<lparr>sl_disk := (sl_disk l)\<lparr>dk_meta := m\<rparr>\<rparr>"
  have inv1: "sl_inv E k cs os l1"
    using inv by (simp add: sl_inv_def l1_def segs_ok_meta)
  have f1: "sl_first l1 < f"
    using f False by (simp add: l1_def)
  obtain ps hs ts k' l2 where pop: "sl_pop_segments f l1 = (map fst ps, l2)"
    "ps @ hs @ ts = cs @ os" "sl_disk l2 = sl_disk l1" "sl_first l2 = f" "sl_last l2 = max (sl_last l1) (f - 1)"
    "sl_segments l2 = keyed (map fst hs)" "set hs \<subseteq> set cs"
    "case sl_open l2 of None \<Rightarrow> ts = [] | Some s \<Rightarrow> sg_is_open s \<and> (\<exists>xs. ts = [(s, xs)])"
    "seg_chain k' (hs @ ts)" "k' \<le> f" "sl_last l2 = k' + int (length (log_of (hs @ ts))) - 1"
    "hs @ ts = [] \<longrightarrow> k' = f" "first_live f k' (hs @ ts)"
    by (rule sl_pop_segments_shape [OF inv1 f1])
  note names = sl_inv_names [OF inv1] and D = sl_invD [OF inv1]
  have un: "segs_ok E (unlink_all E (map fst ps) (sl_disk l2)) (hs @ ts)"
    "dk_meta (unlink_all E (map fst ps) (sl_disk l2)) = m"
  proof -
    have part: "set ps \<union> set (hs @ ts) = set (cs @ os)"
      unfolding pop(2) [symmetric] by auto
    have "segs_ok E (sl_disk l2) (cs @ os)"
      using D(1) pop(3) by simp
    from segs_ok_unlink [OF io this part] show "segs_ok E (unlink_all E (map fst ps) (sl_disk l2)) (hs @ ts)"
      "dk_meta (unlink_all E (map fst ps) (sl_disk l2)) = m"
      using names(1,3) unfolding pop(2) [symmetric] by (simp_all add: pop(3) l1_def)
  qed
  define l3 where "l3 = l2\<lparr>sl_disk := unlink_all E (map fst ps) (sl_disk l2)\<rparr>"
  have "f \<le> sl_last l2 + 1" "1 \<le> f"
    using pop(5) f sl_invD(5) [OF inv] by auto
  then have inv3: "sl_inv E k' hs ts l3"
    using un(1) pop D(4) unfolding sl_inv_def l3_def by auto
  have "sl_truncate_prefix E f l = (RcOk, l3)"
    using f False m(1) pop(1) by (simp add: sl_truncate_prefix_def l1_def [symmetric] l3_def)
  moreover have "sl_entries E l3 = drop (nat (f - sl_first l)) (sl_entries E l)"
  proof -
    have "log_of (cs @ os) = log_of ps @ log_of (hs @ ts)"
      unfolding pop(2) [symmetric] by simp
    then have "drop (nat (f - k')) (log_of (hs @ ts)) = drop (nat (f - sl_first l)) (drop (nat (sl_first l - k)) (log_of (cs @ os)))"
      by (rule drop_log [OF _ sl_invD(8) [OF inv]]) (use pop(5,11,10) sl_invD(6) [OF inv] f in \<open>simp_all add: l1_def\<close>)
    then show ?thesis
      unfolding sl_entries_ok [OF inv3 io] sl_entries_ok [OF inv io] by (simp add: l3_def pop(4) del: log_of_simps)
  qed
  moreover have "meta_ok E l3"
    using un(2) m(2) by (simp add: meta_ok_def l3_def pop(4))
  ultimately show ?thesis
    using that inv3 pop(4,5) by (simp add: l3_def l1_def)
qed

subsection \<open>From the back\<close>

text \<open>The segments that begin after an index, and the one that holds it.\<close>

lemma seg_chain_cut:
  assumes chain: "seg_chain k (ys @ (s, xs) # ts)" and ts: "\<forall>(t, zs) \<in> set ts. j < sg_first t" and s: "sg_first s \<le> j"
    and j: "j < k + int (length (log_of (ys @ (s, xs) # ts)))"
  shows "sg_first s = k + int (length (log_of ys))" "j < sg_first s + int (length xs)"
    "take (nat (j + 1 - k)) (log_of (ys @ (s, xs) # ts)) = log_of (ys @ [(s, take (nat (j + 1 - sg_first s)) xs)])"
proof -
  show f: "sg_first s = k + int (length (log_of ys))"
    using chain by (simp add: seg_chain_append)
  show l: "j < sg_first s + int (length xs)"
  proof (cases ts)
    case Nil
    with j f show ?thesis by simp
  next
    case (Cons t ts')
    with ts chain f show ?thesis
      by (cases t) (auto simp: seg_chain_append)
  qed
  have "nat (j + 1 - k) = length (log_of ys) + nat (j + 1 - sg_first s)" "nat (j + 1 - sg_first s) \<le> length xs"
    using f s l by auto
  then show "take (nat (j + 1 - k)) (log_of (ys @ (s, xs) # ts)) = log_of (ys @ [(s, take (nat (j + 1 - sg_first s)) xs)])"
    by (simp add: take_map)
qed

lemma pop_back_shape:
  assumes inv: "sl_inv E k cs os l"
  obtains ps hs ts ls l' where "sl_pop_segments_from_back j l = (map fst ps, ls, l')" "hs @ ts = cs @ os" "set ps = set ts"
    "length ps = length ts" "\<forall>(t, zs) \<in> set ts. j < sg_first t" "sl_disk l' = sl_disk l" "sl_last l' = j"
    "sl_first l' = (if hs = [] then j + 1 else sl_first l)"
    "hs = [] \<Longrightarrow> ls = NoSegment \<and> sl_segments l' = [] \<and> sl_open l' = None"
    "hs \<noteq> [] \<Longrightarrow> \<exists>ys s xs. hs = ys @ [(s, xs)] \<and> sg_first s \<le> j \<and> set ys \<subseteq> set cs
       \<and> (if sg_is_open s then ls = LastOpen s \<and> sl_open l' = Some s \<and> sl_segments l' = keyed (map fst ys)
          else ls = LastClosed s \<and> sl_open l' = None \<and> sl_segments l' = keyed (map fst hs))"
proof -
  note D = sl_invD [OF inv]
  have open_l: "case sl_open l of None \<Rightarrow> os = [] | Some s \<Rightarrow> sg_is_open s \<and> (\<exists>xs. os = [(s, xs)])"
    using inv by (simp add: sl_inv_def)
  show ?thesis
  proof (cases "\<exists>s xs. os = [(s, xs)] \<and> sg_first s \<le> j")
    case True
    then obtain s xs where os: "os = [(s, xs)]" "sg_first s \<le> j"
      by blast
    with open_l have s: "sl_open l = Some s" "sg_is_open s"
      by (auto split: option.splits)
    have "sl_pop_segments_from_back j l = (map fst [], LastOpen s, l\<lparr>sl_last := j\<rparr>)"
      using s os by (simp add: sl_pop_segments_from_back_def Let_def)
    then show ?thesis
      by (rule that [where hs = "cs @ os" and ts = "[]"]) (use os s D(3) in auto)
  next
    case False
    let ?P = "\<lambda>(s, xs). j < sg_first s"
    define bk where "bk = takeWhile ?P (rev cs)"
    define hs where "hs = rev (dropWhile ?P (rev cs))"
    define l' where "l' = l\<lparr>sl_last := j, sl_open := None, sl_segments := keyed (map fst hs), sl_first := (if hs = [] then j + 1 else sl_first l)\<rparr>"
    have cs: "cs = hs @ rev bk"
      by (simp add: hs_def bk_def flip: rev_append)
    have tw: "takeWhile (\<lambda>(k, s). j < sg_first s) (rev (keyed (map fst cs))) = keyed (map fst bk)"
      "rev (dropWhile (\<lambda>(k, s). j < sg_first s) (rev (keyed (map fst cs)))) = keyed (map fst hs)"
      by (simp_all add: takeWhile_keyed [where P = "\<lambda>s. j < sg_first s", folded rev_map] rev_map bk_def hs_def)
    have pc: "pop_closed j popped m = (popped @ map fst bk, if hs = [] then NoSegment else LastClosed (fst (last hs)),
        m\<lparr>sl_segments := keyed (map fst hs), sl_first := (if hs = [] then j + 1 else sl_first m)\<rparr>)"
      if "sl_segments m = sl_segments l" for popped m
      unfolding pop_closed_def that D(3) Let_def tw by (cases hs rule: rev_cases) simp_all
    have "sl_pop_segments_from_back j l = (map fst (os @ bk), if hs = [] then NoSegment else LastClosed (fst (last hs)), l')"
      using False open_l by (cases "sl_open l") (auto simp: sl_pop_segments_from_back_def Let_def pc l'_def)
    then show ?thesis
    proof (rule that [where hs = hs and ts = "rev bk @ os"])
      show "\<forall>(t, zs) \<in> set (rev bk @ os). j < sg_first t"
        using False open_l by (auto simp: bk_def dest!: set_takeWhileD split: option.splits)
      show "\<exists>ys s xs. hs = ys @ [(s, xs)] \<and> sg_first s \<le> j \<and> set ys \<subseteq> set cs
          \<and> (if sg_is_open s then (if hs = [] then NoSegment else LastClosed (fst (last hs))) = LastOpen s \<and> sl_open l' = Some s
                \<and> sl_segments l' = keyed (map fst ys)
             else (if hs = [] then NoSegment else LastClosed (fst (last hs))) = LastClosed s \<and> sl_open l' = None
                \<and> sl_segments l' = keyed (map fst hs))" if ne: "hs \<noteq> []"
      proof -
        obtain ys g where g: "hs = ys @ [g]"
          using ne by (cases hs rule: rev_cases) auto
        have "dropWhile ?P (rev cs) = g # rev ys"
          using arg_cong [OF g, of rev] by (simp add: hs_def)
        then have "dropWhile ?P (rev cs) \<noteq> []" "hd (dropWhile ?P (rev cs)) = g"
          by simp_all
        then have "\<not> ?P g"
          using hd_dropWhile by metis
        moreover have "g \<in> set cs" "set ys \<subseteq> set cs"
          using cs g by auto
        moreover have "\<not> sg_is_open (fst g)"
          using D(4) \<open>g \<in> set cs\<close> by auto
        ultimately show ?thesis
          using g by (cases g) (auto simp: l'_def)
      qed
    qed (use cs in \<open>auto simp: l'_def\<close>)
  qed
qed


lemma cut_last_ok:
  assumes segs: "segs_ok E d (ys @ [(s, xs)])" and closed: "\<forall>(t, zs) \<in> set ys. \<not> sg_is_open t \<and> sg_first t \<noteq> sg_first s"
    and io: "io_ok E" and j: "sg_first s \<le> j" "j < sg_first s + int (length xs)"
  obtains s' d' where "seg_truncate E j s d = (RcOk, s', d')"
    "segs_ok E d' (ys @ [(s', take (nat (j + 1 - sg_first s)) xs)])" "sg_first s' = sg_first s"
    "sg_is_open s' \<or> s' = s" "sg_is_open s \<longrightarrow> sg_is_open s'" "dk_meta d' = dk_meta d"
proof (cases "j = sg_last s")
  case True
  have "seg_ok E d s xs"
    using segs_okD [OF segs] by simp
  then have "nat (j + 1 - sg_first s) = length xs"
    using True by (simp add: seg_ok_def)
  then show ?thesis
    using that [of s d] True segs by (simp add: seg_truncate_def)
next
  case False
  let ?n = "nat (j + 1 - sg_first s)" and ?old = "ClosedSeg (sg_first s) (sg_last s)" and ?new = "OpenSeg (sg_first s)"
  have ok: "seg_ok E d s xs"
    using segs_okD [OF segs] by simp
  then obtain i where i: "sg_fd s = Some i" "dk_lookup d (file_name_of s) = Some i"
    by (auto simp: seg_ok_def)
  have j': "sg_first s \<le> j + 1" "j < sg_last s"
    using j False ok by (simp_all add: seg_ok_def)
  obtain s' d' where t: "seg_truncate E j s d = (RcOk, s', d')" "seg_ok E d' s' (take ?n xs)"
    "sg_first s' = sg_first s" "sg_is_open s'" "sg_fd s' = Some i" "sg_last s' = j"
    "dk_lookup d' = (if sg_is_open s then dk_lookup d else (dk_lookup d)(?old := None, ?new := Some i))"
    "\<And>j. j \<noteq> i \<Longrightarrow> dk_data d' j = dk_data d j" "dk_next d' = dk_next d" "dk_meta d' = dk_meta d"
    "dk_dir d' = (if sg_is_open s then dk_dir d else (?new, i) # AList.delete ?old (AList.delete ?new (dk_dir d)))"
    by (rule seg_truncate_ok [OF ok i(1) j' io]) (rule that; blast)
  have names: "file_name_of s' = ?new" "file_name_of s = (if sg_is_open s then ?new else ?old)"
    using t(3,4) by (simp_all add: file_name_of_def)
  have other: "file_name_of u \<noteq> ?old" "file_name_of u \<noteq> ?new" "sg_fd u \<noteq> Some i" if "(u, zs) \<in> set ys" for u zs
    using that closed segs i(1) by (force simp: file_name_of_def segs_ok_def)+
  have "seg_ok E d' u zs" if "(u, zs) \<in> set ys" for u zs
  proof (rule seg_ok_cong [of E d])
    show "seg_ok E d u zs"
      by (rule segs_okD [OF segs]) (simp add: that)
    show "dk_lookup d' (file_name_of u) = dk_lookup d (file_name_of u)"
      unfolding t(7) using other(1,2) [OF that] by simp
    show "dk_data d' m = dk_data d m" if "sg_fd u = Some m" for m
      using t(8) [of m] other(3) [OF \<open>(u, zs) \<in> set ys\<close>] that by auto
  qed
  moreover have "dir_ok d' (map fst ys @ [s'])"
  proof (cases "sg_is_open s")
    case True
    with segs t(9,11) names show ?thesis
      by (auto simp: segs_ok_def dir_ok_def)
  next
    case closed_s: False
    show ?thesis
    proof (rule rename_dir_ok [of d "map fst ys @ [s]" ?old i ?new])
      show "dir_ok d (map fst ys @ [s])" "dk_lookup d ?old = Some i"
        using segs i(2) names(2) closed_s by (simp_all add: segs_ok_def)
      show "\<exists>u \<in> set (map fst ys @ [s']). file_name_of u = file_name_of v"
        if "v \<in> set (map fst ys @ [s])" "file_name_of v \<noteq> ?old" for v
        using that names(2) closed_s by auto
      show "\<exists>u \<in> set (map fst ys @ [s']). file_name_of u = ?new"
        using names(1) by simp
    qed (use t(9,11) closed_s in simp_all)
  qed
  ultimately have "segs_ok E d' (ys @ [(s', take ?n xs)])"
    using segs t(2,5) i(1) by (simp add: segs_ok_def ball_Un case_prod_beta)
  then show ?thesis
    using that t by blast
qed

lemma segment_map_insert_last:
  "\<forall>t \<in> set ts. sg_first t < sg_first s \<Longrightarrow> sg_first s' = sg_first s
   \<Longrightarrow> segment_map_insert s' (keyed ts @ [(sg_first s, s)]) = keyed ts @ [(sg_first s, s')]"
  by (induction ts) auto

lemma segment_map_erase_last:
  "\<forall>t \<in> set ts. sg_first t < k \<Longrightarrow> segment_map_erase k (keyed ts @ [(k, s)]) = keyed ts"
  by (auto simp: segment_map_erase_def keyed_def filter_id_conv)

lemma truncate_last_segment_ok:
  assumes segs: "segs_ok E (sl_disk l) (ys @ [(s, xs)])" and closed: "\<forall>(t, zs) \<in> set ys. \<not> sg_is_open t \<and> sg_first t < sg_first s"
    and io: "io_ok E" and j: "sg_first s \<le> j" "j < sg_first s + int (length xs)"
    and shape: "if sg_is_open s then ls = LastOpen s \<and> sl_open l = Some s \<and> sl_segments l = keyed (map fst ys)
         else ls = LastClosed s \<and> sl_open l = None \<and> sl_segments l = keyed (map fst (ys @ [(s, xs)]))"
  obtains s' d' where "segs_ok E d' (ys @ [(s', take (nat (j + 1 - sg_first s)) xs)])" "sg_first s' = sg_first s"
    "truncate_last_segment E j ls l = (RcOk, l\<lparr>sl_disk := d',
       sl_open := (if sg_is_open s' then Some s' else None),
       sl_segments := keyed (map fst ys) @ (if sg_is_open s' then [] else [(sg_first s', s')])\<rparr>)"
    "dk_meta d' = dk_meta (sl_disk l)"
proof -
  have neq: "\<forall>(t, zs) \<in> set ys. \<not> sg_is_open t \<and> sg_first t \<noteq> sg_first s"
    using closed by auto
  obtain s' d' where t: "seg_truncate E j s (sl_disk l) = (RcOk, s', d')"
    "segs_ok E d' (ys @ [(s', take (nat (j + 1 - sg_first s)) xs)])" "sg_first s' = sg_first s"
    "sg_is_open s' \<or> s' = s" "sg_is_open s \<longrightarrow> sg_is_open s'" "dk_meta d' = dk_meta (sl_disk l)"
    by (rule cut_last_ok [OF segs neq io j])
  have lt: "\<forall>t \<in> set (map fst ys). sg_first t < sg_first s"
    using closed by auto
  have "truncate_last_segment E j ls l = (RcOk, l\<lparr>sl_disk := d',
       sl_open := (if sg_is_open s' then Some s' else None),
       sl_segments := keyed (map fst ys) @ (if sg_is_open s' then [] else [(sg_first s', s')])\<rparr>)"
  proof (cases "sg_is_open s")
    case True
    with shape t(1,5) show ?thesis
      by (cases l) (simp add: truncate_last_segment_def)
  next
    case False
    with shape have l: "ls = LastClosed s" "sl_open l = None" "sl_segments l = keyed (map fst ys) @ [(sg_first s, s)]"
      by simp_all
    show ?thesis
      using False l(2) t(3) segment_map_erase_last [of "map fst ys" "sg_first s" s'] lt
      unfolding truncate_last_segment_def l(1,3)
      by (auto simp: t(1,3) segment_map_insert_last [OF lt t(3)] Let_def intro!: seg_log.equality)
  qed
  with that t show ?thesis by blast
qed


lemma seg_chain_before:
  "seg_chain k (ys @ (s, xs) # ts) \<Longrightarrow> \<forall>(t, zs) \<in> set ys. zs \<noteq> [] \<Longrightarrow> \<forall>(t, zs) \<in> set ys. k \<le> sg_first t \<and> sg_first t < sg_first s"
proof (induction ys arbitrary: k)
  case (Cons g ys)
  obtain t zs where g: "g = (t, zs)" by fastforce
  have 1: "k < k + int (length zs)" "sg_first t = k"
    using Cons.prems by (cases zs; simp add: g)+
  have 2: "seg_chain (k + int (length zs)) (ys @ (s, xs) # ts)" "\<forall>(t, zs) \<in> set ys. zs \<noteq> []"
    using Cons.prems by (simp_all add: g)
  have 3: "k + int (length zs) \<le> sg_first s"
    using 2(1) by (simp add: seg_chain_append)
  have "k \<le> sg_first u \<and> sg_first u < sg_first s" if "(u, vs) \<in> set ys" for u vs
    using bspec [OF Cons.IH [OF 2] that] 1(1) by auto
  moreover have "k < sg_first s"
    using 1(1) 3 by (rule less_le_trans)
  ultimately show ?case
    using 1(2) by (auto simp: g)
qed simp

lemma sl_truncate_suffix_ok:
  assumes inv: "sl_inv E k cs os l" and io: "io_ok E" and j: "sl_first l \<le> j + 1" "j < sl_last l"
  obtains k' cs' os' l' where "sl_truncate_suffix E j l = (RcOk, l')" "sl_inv E k' cs' os' l'" "sl_first l' = sl_first l"
    "sl_last l' = j" "sl_entries E l' = take (nat (j + 1 - sl_first l)) (sl_entries E l)"
    "dk_meta (sl_disk l') = dk_meta (sl_disk l)"
proof -
  note D = sl_invD [OF inv] and names = sl_inv_names [OF inv]
  let ?gs = "cs @ os" and ?first = "sl_first l"
  obtain ps hs ts ls l1 where pop: "sl_pop_segments_from_back j l = (map fst ps, ls, l1)" "hs @ ts = ?gs" "set ps = set ts"
    "length ps = length ts" "\<forall>(t, zs) \<in> set ts. j < sg_first t" "sl_disk l1 = sl_disk l" "sl_last l1 = j"
    "sl_first l1 = (if hs = [] then j + 1 else ?first)"
    "hs = [] \<longrightarrow> ls = NoSegment \<and> sl_segments l1 = [] \<and> sl_open l1 = None"
    "hs \<noteq> [] \<longrightarrow> (\<exists>ys s xs. hs = ys @ [(s, xs)] \<and> sg_first s \<le> j \<and> set ys \<subseteq> set cs
       \<and> (if sg_is_open s then ls = LastOpen s \<and> sl_open l1 = Some s \<and> sl_segments l1 = keyed (map fst ys)
          else ls = LastClosed s \<and> sl_open l1 = None \<and> sl_segments l1 = keyed (map fst hs)))"
    by (rule pop_back_shape [OF inv, of j]) (rule that; blast)
  have fds: "distinct (map (sg_fd \<circ> fst) hs)" "distinct (map (file_name_of \<circ> fst) (ps @ hs))"
    using names(1,3) pop(3,4) unfolding pop(2) [symmetric]
    by (auto simp: distinct_map distinct_card card_distinct inj_on_Un)
  have last: "sl_last l = k + int (length (log_of (hs @ ts))) - 1"
    unfolding pop(2) by (rule D(8))
  show ?thesis
  proof (cases "?first = j + 1")
    case True
    have one: "length hs \<le> 1"
    proof (cases hs rule: rev_cases)
      case (snoc ys g)
      have "ys = []"
      proof (rule ccontr)
        assume "ys \<noteq> []"
        then obtain t zs ys' where ys: "ys = (t, zs) # ys'" by (cases ys) auto
        have "set ys \<subseteq> set cs" "sg_first (fst g) \<le> j"
          using pop(10) snoc by auto
        then have "zs \<noteq> []" and chain: "seg_chain k (hs @ ts)" and "first_live ?first k (hs @ ts)"
          using D(2,4) inv ys unfolding pop(2) by (auto simp: sl_inv_def)
        then have "?first < k + int (length zs)" "k + int (length zs) \<le> sg_first (fst g)"
          unfolding snoc ys by (cases g; auto simp: seg_chain_append)+
        with True \<open>sg_first (fst g) \<le> j\<close> show False
          by simp
      qed
      with snoc show ?thesis by simp
    qed simp
    define gone where "gone = map fst ps @ map fst hs"
    define l2 where "l2 = l1\<lparr>sl_segments := [], sl_open := None\<rparr>"
    have ne: "gone \<noteq> []"
      using last j(2) D(6) True pop(4) by (auto simp: gone_def)
    have un: "segs_ok E (unlink_all E gone (sl_disk l)) [] \<and> dk_meta (unlink_all E gone (sl_disk l)) = dk_meta (sl_disk l)
        \<and> unlink_until E gone rc (sl_disk l) = (RcOk, unlink_all E gone (sl_disk l))" for rc
    proof -
      have "set (ps @ hs) \<union> set [] = set (hs @ ts)"
        using pop(3) by auto
      then show ?thesis
        using segs_ok_unlink [OF io D(1), of "ps @ hs" "[]" rc] fds(2) ne unfolding pop(2) by (auto simp: gone_def)
    qed
    have "sl_truncate_suffix E j l = (RcOk, l2\<lparr>sl_disk := unlink_all E gone (sl_disk l)\<rparr>)"
    proof (cases hs)
      case Nil
      then have "ls = NoSegment" "l2 = l1" "gone = map fst ps"
        using pop(9) by (auto simp: l2_def gone_def)
      with un [of RcFail] ne show ?thesis
        by (simp add: sl_truncate_suffix_def pop(1,6) Let_def)
    next
      case (Cons g gs)
      with one obtain s xs where hs: "hs = [(s, xs)]"
        by (cases g) auto
      have ls: "if sg_is_open s then ls = LastOpen s \<and> sl_open l1 = Some s \<and> sl_segments l1 = []
          else ls = LastClosed s \<and> sl_open l1 = None \<and> sl_segments l1 = [(sg_first s, s)]"
        using pop(10) hs by auto
      have "gone = map fst ps @ [s]" "\<not> sl_first l1 \<le> sl_last l1"
        using pop(7,8) True by (simp_all add: gone_def hs)
      with un [of RcFail] ls show ?thesis
        by (cases "sg_is_open s")
          (simp_all add: sl_truncate_suffix_def pop(1,6) Let_def segment_map_erase_def l2_def)
    qed
    moreover have "sl_inv E (j + 1) [] [] (l2\<lparr>sl_disk := unlink_all E gone (sl_disk l)\<rparr>)"
      using un D(5) True pop(7,8) by (simp add: sl_inv_def l2_def)
    moreover from sl_entries_ok [OF this io] have "sl_entries E (l2\<lparr>sl_disk := unlink_all E gone (sl_disk l)\<rparr>) = []"
      by simp
    ultimately show ?thesis
      using that True un pop(7,8) by (simp add: l2_def)
  next
    case False
    then have fj: "?first \<le> j"
      using j(1) by simp
    have "hs \<noteq> []"
    proof
      assume "hs = []"
      then have "ts \<noteq> []" "seg_chain k ts"
        using last j(2) D(2,6) fj by (auto simp: pop(2) [symmetric])
      then show False
        using pop(5) D(6) fj by (cases ts) auto
    qed
    then obtain ys s xs where hs: "hs = ys @ [(s, xs)]" "sg_first s \<le> j" "set ys \<subseteq> set cs"
      and shape: "if sg_is_open s then ls = LastOpen s \<and> sl_open l1 = Some s \<and> sl_segments l1 = keyed (map fst ys)
          else ls = LastClosed s \<and> sl_open l1 = None \<and> sl_segments l1 = keyed (map fst (ys @ [(s, xs)]))"
      using pop(10) by blast
    have gs: "?gs = ys @ (s, xs) # ts"
      using pop(2) hs(1) by simp
    have chain: "seg_chain k (ys @ (s, xs) # ts)" and top: "j < k + int (length (log_of (ys @ (s, xs) # ts)))"
      using D(2,8) j(2) unfolding gs by simp_all
    note cut = seg_chain_cut [OF chain pop(5) hs(2) top]
    have closed: "\<forall>(t, zs) \<in> set ys. \<not> sg_is_open t \<and> zs \<noteq> []"
      using D(4) hs(3) by blast
    then have closed': "\<forall>(t, zs) \<in> set ys. \<not> sg_is_open t \<and> sg_first t < sg_first s"
      using seg_chain_before [OF chain] by fastforce
    define d1 where "d1 = unlink_all E (map fst ps) (sl_disk l)"
    have un: "segs_ok E d1 (ys @ [(s, xs)])" "dk_meta d1 = dk_meta (sl_disk l)"
      "unlink_until E (map fst ps) rc (sl_disk l) = (if ps = [] then rc else RcOk, d1)" for rc
    proof -
      have "set ps \<union> set hs = set ?gs"
        using pop(3) unfolding pop(2) [symmetric] by auto
      then show "segs_ok E d1 (ys @ [(s, xs)])" "dk_meta d1 = dk_meta (sl_disk l)"
        "unlink_until E (map fst ps) rc (sl_disk l) = (if ps = [] then rc else RcOk, d1)" for rc
        using segs_ok_unlink [OF io D(1), of ps hs rc] fds unfolding d1_def hs(1) by blast+
    qed
    define xs' where "xs' = take (nat (j + 1 - sg_first s)) xs"
    define l2 where "l2 = l1\<lparr>sl_disk := d1\<rparr>"
    have l2: "segs_ok E (sl_disk l2) (ys @ [(s, xs)])"
      "if sg_is_open s then ls = LastOpen s \<and> sl_open l2 = Some s \<and> sl_segments l2 = keyed (map fst ys)
       else ls = LastClosed s \<and> sl_open l2 = None \<and> sl_segments l2 = keyed (map fst (ys @ [(s, xs)]))"
      using un(1) shape by (simp_all add: l2_def)
    obtain s' d' where t: "segs_ok E d' (ys @ [(s', xs')])" "sg_first s' = sg_first s"
      "truncate_last_segment E j ls l2 = (RcOk, l2\<lparr>sl_disk := d',
         sl_open := (if sg_is_open s' then Some s' else None),
         sl_segments := keyed (map fst ys) @ (if sg_is_open s' then [] else [(sg_first s', s')])\<rparr>)"
      "dk_meta d' = dk_meta (sl_disk l2)"
      unfolding xs'_def by (rule truncate_last_segment_ok [OF l2(1) closed' io hs(2) cut(2) l2(2)])
    define l3 where "l3 = l2\<lparr>sl_disk := d', sl_open := (if sg_is_open s' then Some s' else None),
         sl_segments := keyed (map fst ys) @ (if sg_is_open s' then [] else [(sg_first s', s')])\<rparr>"
    define cs' where "cs' = ys @ (if sg_is_open s' then [] else [(s', xs')])"
    define os' where "os' = (if sg_is_open s' then [(s', xs')] else [])"
    have f1: "sl_first l1 = ?first" "sl_last l1 = j"
      using pop(7,8) \<open>hs \<noteq> []\<close> by simp_all
    have "sl_truncate_suffix E j l = truncate_last_segment E j ls l2"
    proof -
      have "ls \<noteq> NoSegment"
        using shape by (auto split: if_splits)
      with fj f1 un(3) [of RcFail] show ?thesis
        by (simp add: sl_truncate_suffix_def pop(1,6) Let_def l2_def)
    qed
    then have res: "sl_truncate_suffix E j l = (RcOk, l3)"
      using t(3) by (simp add: l3_def)
    have groups: "cs' @ os' = ys @ [(s', xs')]"
      by (simp add: cs'_def os'_def)
    have log: "log_of (ys @ [(s', xs')]) = take (nat (j + 1 - k)) (log_of ?gs)"
      using cut(3) by (simp add: gs xs'_def)
    have xs': "xs' \<noteq> []" "length (log_of (ys @ [(s', xs')])) = nat (j + 1 - k)"
      using hs(2) cut(2) top D(6) fj unfolding log gs by (auto simp: xs'_def)
    have "first_live ?first k (ys @ [(s', xs')])"
      using inv gs xs'(2) D(6) fj by (cases ys) (auto simp: sl_inv_def)
    moreover have "seg_chain k (ys @ [(s', xs')])"
      using chain t(2) by (simp add: seg_chain_append)
    moreover have "\<forall>(t, zs) \<in> set cs'. \<not> sg_is_open t \<and> zs \<noteq> []"
      using closed xs'(1) by (auto simp: cs'_def)
    ultimately have inv3: "sl_inv E k cs' os' l3"
      unfolding sl_inv_def groups using t(1,2) xs'(2) D(5,6) fj j(1)
      by (auto simp: l3_def cs'_def os'_def l2_def f1)
    have "sl_entries E l3 = take (nat (j + 1 - ?first)) (sl_entries E l)"
    proof -
      have "nat (j + 1 - k) - nat (?first - k) = nat (j + 1 - ?first)"
        using D(6) by simp
      moreover have "sl_first l3 = ?first"
        by (simp add: l3_def l2_def f1)
      ultimately show ?thesis
        unfolding sl_entries_ok [OF inv3 io] sl_entries_ok [OF inv io] groups log by (simp only: drop_take)
    qed
    then show ?thesis
      using that res inv3 t(4) un(2) by (simp add: l3_def l2_def f1)
  qed
qed


subsection \<open>Resetting\<close>

lemma sl_reset_ok:
  assumes inv: "sl_inv E k cs os l" and io: "io_ok E" and f: "0 < f"
  obtains l' where "sl_reset E f l = (RcOk, l')" "sl_inv E f [] [] l'" "sl_first l' = f" "sl_last l' = f - 1" "meta_ok E l'"
proof -
  define l1 where "l1 = l\<lparr>sl_segments := [], sl_open := None, sl_first := f, sl_last := f - 1\<rparr>"
  obtain m where m: "sl_save_meta E f l1 = (RcOk, l1\<lparr>sl_disk := (sl_disk l1)\<lparr>dk_meta := m\<rparr>\<rparr>)"
    "pb_path m = Some (net32 (length (lf_meta_ser E f)) @ lf_meta_ser E f)"
    using sl_save_meta_ok [OF io] by metis
  let ?d = "(sl_disk l)\<lparr>dk_meta := m\<rparr>" and ?gs = "cs @ os"
  have popped: "map snd (sl_segments l) @ (case sl_open l of None \<Rightarrow> [] | Some s \<Rightarrow> [s]) = map fst ?gs"
    using inv by (auto simp: sl_inv_def split: option.splits)
  have "segs_ok E ?d ?gs"
    using sl_invD(1) [OF inv] by (simp add: segs_ok_meta)
  from segs_ok_unlink [OF io this, of ?gs "[]"] sl_inv_names(1) [OF inv]
  have un: "segs_ok E (unlink_all E (map fst ?gs) ?d) []" "dk_meta (unlink_all E (map fst ?gs) ?d) = m"
    by simp_all
  define l2 where "l2 = l1\<lparr>sl_disk := unlink_all E (map fst ?gs) ?d\<rparr>"
  have "sl_reset E f l = (RcOk, l2)"
    using f m(1) by (simp add: sl_reset_def Let_def popped l1_def [symmetric] l2_def) (simp add: l1_def)
  moreover have "sl_inv E f [] [] l2"
    using un(1) f by (simp add: sl_inv_def l2_def l1_def)
  moreover have "meta_ok E l2"
    using un(2) m(2) by (simp add: meta_ok_def l2_def l1_def)
  ultimately show ?thesis
    using that by (simp add: l2_def l1_def)
qed

end
