(* ===== verification/SegmentLogRefine.thy ===== *)
theory SegmentLogRefine
  imports SegmentLogTruncate LogManagerRefine
begin

section \<open>The segment storage meets the contract of the log manager\<close>

text \<open>
  With a file system that does not fail the segment storage is a \<open>log_storage\<close>, so everything
  proved of the log manager holds over segment files. \<open>all_ok\<close> is an environment in which every
  call succeeds.
\<close>

definition sl_valid :: "log_env \<Rightarrow> seg_log \<Rightarrow> bool" where
  "sl_valid E l \<longleftrightarrow> (\<exists>k cs os. sl_inv E k cs os l) \<and> meta_ok E l"

definition all_ok :: "log_env \<Rightarrow> log_env" where
  "all_ok E =
     E\<lparr>lf_dir_ok := True, lf_list_ok := True, lf_fstat_ok := True, lf_fsync_ok := True, lf_ftruncate_ok := True,
       lf_lseek_ok := True, lf_create_ok := (\<lambda>i. True), lf_written := (\<lambda>i. None), lf_open_ok := (\<lambda>n. True),
       lf_rename_ok := (\<lambda>n. True), lf_unlinked := (\<lambda>n. True), lf_pread_ok := (\<lambda>off. True),
       lf_max_segment_size := max 0 (lf_max_segment_size E),
       lf_meta_file := (lf_meta_file E)\<lparr>fe_open_ok := True, fe_write_len_ok := True, fe_write_ok := True,
                                        fe_sync_ok := True, fe_rename_ok := True\<rparr>\<rparr>"

lemma io_ok_all_ok: "io_ok (all_ok E)"
  by (simp add: io_ok_def all_ok_def)

lemma seg_log_ops_simps [simp]:
  "ls_init (seg_log_ops E) = sl_init E" "ls_first (seg_log_ops E) = sl_first" "ls_last (seg_log_ops E) = sl_last"
  "ls_get_entry (seg_log_ops E) = sl_get_entry E" "ls_get_term (seg_log_ops E) = sl_get_term"
  "ls_append_entries (seg_log_ops E) = sl_append_entries E"
  "ls_truncate_prefix (seg_log_ops E) = sl_truncate_prefix E"
  "ls_truncate_suffix (seg_log_ops E) = sl_truncate_suffix E" "ls_reset (seg_log_ops E) = sl_reset E"
  by (simp_all add: seg_log_ops_def)

lemma sl_read_ok:
  assumes inv: "sl_inv E k cs os l" and io: "io_ok E"
  shows "sl_get_entry E i l = (if sl_first l \<le> i \<and> i \<le> sl_last l then Some (sl_entries E l ! nat (i - sl_first l)) else None)"
    and "sl_get_term i l = (case sl_get_entry E i l of None \<Rightarrow> 0 | Some e \<Rightarrow> e_term e)"
proof -
  have b: "k \<le> sl_first l" "sl_last l = k + int (length (log_of (cs @ os))) - 1"
    using sl_invD(6,8) [OF inv] .
  have "sl_entries E l ! nat (i - sl_first l) = log_of (cs @ os) ! nat (i - k)" if "sl_first l \<le> i" "i \<le> sl_last l"
  proof -
    have "nat (sl_first l - k) + nat (i - sl_first l) = nat (i - k)"
      using that b by simp
    then show ?thesis
      unfolding sl_entries_ok [OF inv io] using that b by (subst nth_drop) (simp_all del: log_of_simps)
  qed
  then show "sl_get_entry E i l = (if sl_first l \<le> i \<and> i \<le> sl_last l then Some (sl_entries E l ! nat (i - sl_first l)) else None)"
    unfolding sl_get_entry_ok [OF inv io] by simp
  show "sl_get_term i l = (case sl_get_entry E i l of None \<Rightarrow> 0 | Some e \<Rightarrow> e_term e)"
    unfolding sl_get_entry_ok [OF inv io] sl_get_term_ok [OF inv] by simp
qed

lemma meta_ok_cong: "dk_meta (sl_disk l') = dk_meta (sl_disk l) \<Longrightarrow> sl_first l' = sl_first l \<Longrightarrow> meta_ok E l' = meta_ok E l"
  by (simp add: meta_ok_def)

lemma sl_append_refines:
  assumes v: "sl_valid E l" and io: "io_ok E" and es: "contig e_index (sl_last l + 1) es" "\<forall>e \<in> set es. storable E e"
  shows "\<exists>l'. sl_append_entries E es l = (int (length es), l') \<and> sl_valid E l'
     \<and> sl_entries E l' = sl_entries E l @ es \<and> sl_first l' = sl_first l"
proof -
  obtain k cs os where inv: "sl_inv E k cs os l" and m: "meta_ok E l"
    using v by (auto simp: sl_valid_def)
  obtain cs' os' l' where l': "sl_append_entries E es l = (int (length es), l')" "sl_inv E k cs' os' l'"
    "log_of (cs' @ os') = log_of (cs @ os) @ es" "sl_first l' = sl_first l" "dk_meta (sl_disk l') = dk_meta (sl_disk l)"
    by (rule sl_append_entries_ok [OF inv io es])
  have "nat (sl_first l - k) \<le> length (log_of (cs @ os))"
    using sl_invD(6-8) [OF inv] by linarith
  then have "sl_entries E l' = sl_entries E l @ es"
    unfolding sl_entries_ok [OF l'(2) io] sl_entries_ok [OF inv io] l'(3,4) by simp
  with l' m meta_ok_cong [OF l'(5,4)] show ?thesis
    by (auto simp: sl_valid_def)
qed

lemma sl_prefix_refines:
  assumes v: "sl_valid E l" and io: "io_ok E" and f: "sl_first l \<le> f"
  shows "\<exists>l'. sl_truncate_prefix E f l = (RcOk, l') \<and> sl_valid E l'
     \<and> sl_entries E l' = dropWhile (\<lambda>e. e_index e < f) (sl_entries E l) \<and> sl_first l' = f"
proof -
  obtain k cs os where inv: "sl_inv E k cs os l" and m: "meta_ok E l"
    using v by (auto simp: sl_valid_def)
  obtain k' cs' os' l' where "sl_truncate_prefix E f l = (RcOk, l')" "sl_inv E k' cs' os' l'" "sl_first l' = f"
    "sl_entries E l' = drop (nat (f - sl_first l)) (sl_entries E l)" "meta_ok E l'"
    by (rule sl_truncate_prefix_ok [OF inv io f]) (use m in blast)
  then show ?thesis
    using contig_dropWhile [OF sl_contig(1) [OF inv io], of f] by (auto simp: sl_valid_def)
qed

lemma sl_suffix_refines:
  assumes v: "sl_valid E l" and io: "io_ok E" and j: "sl_first l \<le> j + 1" "j < sl_last l"
  shows "\<exists>l'. sl_truncate_suffix E j l = (RcOk, l') \<and> sl_valid E l'
     \<and> sl_entries E l' = pop_back_while (\<lambda>e. e_index e > j) (sl_entries E l) \<and> sl_first l' = sl_first l"
proof -
  obtain k cs os where inv: "sl_inv E k cs os l" and m: "meta_ok E l"
    using v by (auto simp: sl_valid_def)
  obtain k' cs' os' l' where l': "sl_truncate_suffix E j l = (RcOk, l')" "sl_inv E k' cs' os' l'" "sl_first l' = sl_first l"
    "sl_entries E l' = take (nat (j + 1 - sl_first l)) (sl_entries E l)" "dk_meta (sl_disk l') = dk_meta (sl_disk l)"
    by (rule sl_truncate_suffix_ok [OF inv io j])
  then show ?thesis
    using contig_pop_back_while [OF sl_contig(1) [OF inv io], of j] meta_ok_cong [OF l'(5,3)] m by (auto simp: sl_valid_def)
qed

lemma sl_reset_refines:
  assumes v: "sl_valid E l" and io: "io_ok E" and f: "0 < f"
  shows "\<exists>l'. sl_reset E f l = (RcOk, l') \<and> sl_valid E l' \<and> sl_entries E l' = [] \<and> sl_first l' = f"
proof -
  obtain k cs os where inv: "sl_inv E k cs os l"
    using v by (auto simp: sl_valid_def)
  obtain l' where l': "sl_reset E f l = (RcOk, l')" "sl_inv E f [] [] l'" "sl_first l' = f" "sl_last l' = f - 1" "meta_ok E l'"
    by (rule sl_reset_ok [OF inv io f])
  then show ?thesis
    by (auto simp: sl_valid_def sl_entries_def)
qed

interpretation sl: log_storage "seg_log_ops (all_ok E)" "storable (all_ok E)" "sl_valid (all_ok E)" "sl_entries (all_ok E)" for E
proof
  fix s :: seg_log and es k i
  let ?E = "all_ok E"
  show "sl_valid ?E s \<Longrightarrow> contig e_index (ls_first (seg_log_ops ?E) s) (sl_entries ?E s)"
    and "sl_valid ?E s \<Longrightarrow> ls_last (seg_log_ops ?E) s = ls_first (seg_log_ops ?E) s + int (length (sl_entries ?E s)) - 1"
    using sl_contig [OF _ io_ok_all_ok] by (auto simp: sl_valid_def)
  show "sl_valid ?E s \<Longrightarrow> ls_get_entry (seg_log_ops ?E) i s =
          (if ls_first (seg_log_ops ?E) s \<le> i \<and> i \<le> ls_last (seg_log_ops ?E) s
           then Some (sl_entries ?E s ! nat (i - ls_first (seg_log_ops ?E) s)) else None)"
    and "sl_valid ?E s \<Longrightarrow> ls_get_term (seg_log_ops ?E) i s =
          (case ls_get_entry (seg_log_ops ?E) i s of None \<Rightarrow> 0 | Some e \<Rightarrow> e_term e)"
    using sl_read_ok [OF _ io_ok_all_ok] by (auto simp: sl_valid_def)
qed (use sl_append_refines sl_prefix_refines sl_suffix_refines sl_reset_refines io_ok_all_ok in simp_all)

end
