(* ===== verification/SegmentLogRestart.thy ===== *)
theory SegmentLogRestart
  imports SegmentLogRefine
begin

section \<open>Restarting from segment files\<close>

text \<open>
  A crash loses the memory of the storage and may leave, at the end of the open segment, a record
  written in part. \<open>init\<close> on the directory finds the segments in whatever order the files are
  listed, cuts the torn end off, and restores the storage: same bounds, same entries.
\<close>

subsection \<open>Listing the directory\<close>

abbreviation names_unlink :: "file_name list \<Rightarrow> disk \<Rightarrow> disk" where
  "names_unlink ns d \<equiv> fold (\<lambda>n d. if is_tmp n then dk_unlink n d else d) ns d"

fun insert_named :: "checksum_type \<Rightarrow> file_name list \<Rightarrow> (int \<times> segment) list \<Rightarrow> (int \<times> segment) list" where
  "insert_named c [] m = m"
| "insert_named c (ClosedSeg a b # ns) m = insert_named c ns (segment_map_insert (closed_segment_new a b c) m)"
| "insert_named c (n # ns) m = insert_named c ns m"

fun is_open_name :: "file_name \<Rightarrow> bool" where
  "is_open_name (OpenSeg k) = True"
| "is_open_name _ = False"

fun open_named :: "checksum_type \<Rightarrow> file_name list \<Rightarrow> segment option \<Rightarrow> segment option" where
  "open_named c [] s = s"
| "open_named c (OpenSeg k # ns) s = Some (open_segment_new k c)"
| "open_named c (n # ns) s = open_named c ns s"

lemma open_named_none: "\<forall>n \<in> set ns. \<not> is_open_name n \<Longrightarrow> open_named c ns s = s"
  by (induction c ns s rule: open_named.induct) auto

lemma list_dir_ok:
  assumes io: "io_ok E" and opens: "length (filter is_open_name ns) + (if sl_open l = None then 0 else 1) \<le> 1"
  shows "list_dir E False ns l = (True, l\<lparr>sl_segments := insert_named (sl_checksum_type l) ns (sl_segments l),
     sl_open := open_named (sl_checksum_type l) ns (sl_open l), sl_disk := names_unlink ns (sl_disk l)\<rparr>)"
  using opens
proof (induction ns arbitrary: l)
  case Nil
  then show ?case by simp
next
  case (Cons n ns)
  have un: "lf_unlinked E n"
    using io by (simp add: io_ok_def)
  show ?case
  proof (cases "is_tmp n")
    case True
    with Cons.prems have "\<not> is_open_name n" and "open_named c (n # ns) s = open_named c ns s" for c s
      by (cases n; simp)+
    with True un Cons show ?thesis
      by (cases n) simp_all
  next
    case False
    show ?thesis
    proof (cases n)
      case (OpenSeg k)
      then have "\<forall>n \<in> set ns. \<not> is_open_name n" "sl_open l = None"
        using Cons.prems by (auto simp: filter_empty_conv split: if_splits)
      with OpenSeg False Cons show ?thesis
        by (simp add: open_named_none)
    qed (use False Cons in simp_all)
  qed
qed

lemma segment_map_insert_set:
  assumes "ksorted fst m"
  shows "set (segment_map_insert s m) = insert (sg_first s, s) {x \<in> set m. fst x \<noteq> sg_first s}"
    and "ksorted fst (segment_map_insert s m)"
proof -
  have set: "set (segment_map_insert s m) = insert (sg_first s, s) {x \<in> set m. fst x \<noteq> sg_first s}"
    if "ksorted fst m" for m
    using that
  proof (induction m)
    case (Cons x m)
    obtain k t where x: "x = (k, t)" by fastforce
    have gt: "\<forall>y \<in> set m. k < fst y" and IH: "set (segment_map_insert s m) = insert (sg_first s, s) {x \<in> set m. fst x \<noteq> sg_first s}"
      using Cons by (simp_all add: x)
    have split: "{y \<in> set ((k, t) # m). fst y \<noteq> sg_first s} =
        (if k = sg_first s then {} else {(k, t)}) \<union> {y \<in> set m. fst y \<noteq> sg_first s}"
      by auto
    have "{y \<in> set m. fst y \<noteq> sg_first s} = set m" if "sg_first s \<le> k"
      using gt that by force
    then show ?case
      unfolding x split using IH by (cases "sg_first s = k") (simp_all add: insert_commute)
  qed simp
  then show "set (segment_map_insert s m) = insert (sg_first s, s) {x \<in> set m. fst x \<noteq> sg_first s}"
    using assms by blast
  show "ksorted fst (segment_map_insert s m)"
    using assms
  proof (induction m)
    case (Cons x m)
    obtain k t where x: "x = (k, t)" by fastforce
    have m: "ksorted fst m" "\<forall>y \<in> set m. k < fst y" "ksorted fst (segment_map_insert s m)"
      using Cons by (simp_all add: x)
    from set [OF m(1)] m(2) have "\<forall>y \<in> set (segment_map_insert s m). k < fst y" if "k < sg_first s"
      using that by auto
    with m show ?case
      by (auto simp: x)
  qed simp
qed

lemma insert_named_set:
  assumes "ksorted fst m" and "\<forall>(a, s) \<in> set m. \<forall>b. ClosedSeg a b \<in> set ns \<longrightarrow> s = closed_segment_new a b c"
    and "\<forall>a b b'. ClosedSeg a b \<in> set ns \<and> ClosedSeg a b' \<in> set ns \<longrightarrow> b = b'"
  shows "ksorted fst (insert_named c ns m)
     \<and> set (insert_named c ns m) = set m \<union> {(a, closed_segment_new a b c) |a b. ClosedSeg a b \<in> set ns}"
  using assms
proof (induction c ns m rule: insert_named.induct)
  case (2 c a b ns m)
  let ?s = "closed_segment_new a b c"
  let ?m = "segment_map_insert ?s m"
  have f: "sg_first ?s = a"
    by (simp add: closed_segment_new_def)
  have m: "ksorted fst ?m" "set ?m = insert (a, ?s) {x \<in> set m. fst x \<noteq> a}"
    using segment_map_insert_set [OF 2(2), of ?s] by (simp_all add: f)
  have "s = ?s" if "(a, s) \<in> set m" for s
    using bspec [OF 2(3) that] by simp
  then have set: "set ?m = insert (a, ?s) (set m)"
    unfolding m(2) by auto
  have "s = closed_segment_new x y c" if "(x, s) \<in> set ?m" "ClosedSeg x y \<in> set ns" for x y s
  proof (cases "x = a")
    case True
    with that 2(4) have "y = b"
      by (metis list.set_intros)
    with that True show ?thesis
      unfolding m(2) by auto
  next
    case False
    with that(1) have "(x, s) \<in> set m"
      unfolding m(2) by auto
    from bspec [OF 2(3) this] that(2) show ?thesis
      by simp
  qed
  then have "\<forall>(x, s) \<in> set ?m. \<forall>y. ClosedSeg x y \<in> set ns \<longrightarrow> s = closed_segment_new x y c"
    by blast
  moreover have "\<forall>a b b'. ClosedSeg a b \<in> set ns \<and> ClosedSeg a b' \<in> set ns \<longrightarrow> b = b'"
    using 2(4) by (meson list.set_intros(2))
  ultimately have "ksorted fst (insert_named c ns ?m)
     \<and> set (insert_named c ns ?m) = set ?m \<union> {(a, closed_segment_new a b c) |a b. ClosedSeg a b \<in> set ns}"
    by (rule 2(1) [OF m(1)])
  moreover have "{(x, closed_segment_new x y c) |x y. ClosedSeg x y \<in> set (ClosedSeg a b # ns)} =
      insert (a, ?s) {(x, closed_segment_new x y c) |x y. ClosedSeg x y \<in> set ns}"
    by auto
  ultimately show ?case
    unfolding insert_named.simps set by simp
qed simp_all

lemma names_unlink_ok:
  "dk_data (names_unlink ns d) = dk_data d \<and> dk_next (names_unlink ns d) = dk_next d \<and> dk_meta (names_unlink ns d) = dk_meta d
   \<and> (distinct (map fst (dk_dir d)) \<longrightarrow> distinct (map fst (dk_dir (names_unlink ns d))))
   \<and> dk_lookup (names_unlink ns d) n = (if n \<in> set ns \<and> is_tmp n then None else dk_lookup d n)"
  by (induction ns arbitrary: d) (auto simp: dk_unlink_def distinct_delete delete_conv)


lemma open_named_some:
  "filter is_open_name ns = [OpenSeg k] \<Longrightarrow> open_named c ns s = Some (open_segment_new k c)"
proof (induction ns)
  case (Cons n ns)
  then show ?case by (cases n) simp_all
qed simp

lemma filter_singleton:
  assumes "distinct xs" and "x \<in> set xs" "P x" and "\<And>y. y \<in> set xs \<Longrightarrow> P y \<Longrightarrow> y = x"
  shows "filter P xs = [x]"
proof -
  have "set (filter P xs) = {x}"
    using assms(2,3) by (auto dest: assms(4))
  moreover have "distinct (filter P xs)"
    using assms(1) by simp
  ultimately show ?thesis
    by (cases "filter P xs") (auto simp: subset_singleton_iff)
qed

subsection \<open>Checking and loading the segments found\<close>

text \<open>The segment of a name, and the segment once it is loaded.\<close>

definition fresh :: "checksum_type \<Rightarrow> segment \<Rightarrow> segment" where
  "fresh c s = (if sg_is_open s then open_segment_new (sg_first s) c else closed_segment_new (sg_first s) (sg_last s) c)"

definition reload :: "log_env \<Rightarrow> checksum_type \<Rightarrow> seg_group \<Rightarrow> seg_group" where
  "reload E c = (\<lambda>(s, xs). (loaded E xs (the (sg_fd s)) (fresh c s), xs))"

lemma fresh_simps [simp]:
  "sg_first (fresh c s) = sg_first s" "sg_is_open (fresh c s) = sg_is_open s" "file_name_of (fresh c s) = file_name_of s"
  "sg_offset_and_term (fresh c s) = []" "\<not> sg_is_open s \<Longrightarrow> sg_last (fresh c s) = sg_last s"
  by (simp_all add: fresh_def open_segment_new_def closed_segment_new_def file_name_of_def)

lemma loaded_simps [simp]:
  "sg_first (loaded E xs i s) = sg_first s" "sg_is_open (loaded E xs i s) = sg_is_open s" "sg_fd (loaded E xs i s) = Some i"
  "sg_last (loaded E xs i s) = sg_first s + int (length xs) - 1"
  by (simp_all add: loaded_def)

lemma reload_simps [simp]:
  "map (sg_first \<circ> fst) (map (reload E c) gs) = map (sg_first \<circ> fst) gs"
  "log_of (map (reload E c) gs) = log_of gs"
  "seg_chain k (map (reload E c) gs) = seg_chain k gs"
  "first_live f k (map (reload E c) gs) = first_live f k gs"
proof -
  show "log_of (map (reload E c) gs) = log_of gs"
    by (induction gs) (auto simp: reload_def)
  show "seg_chain k (map (reload E c) gs) = seg_chain k gs"
    by (induction k gs rule: seg_chain.induct) (auto simp: reload_def)
  show "first_live f k (map (reload E c) gs) = first_live f k gs"
    by (cases "(f, k, gs)" rule: first_live.cases) (auto simp: reload_def)
qed (auto simp: reload_def)

lemma check_segments_ok:
  assumes "seg_chain j gs" and "\<forall>(s, xs) \<in> set gs. \<not> sg_is_open s \<and> sg_last s = sg_first s + int (length xs) - 1 \<and> xs \<noteq> []"
    and "if lst = -1 then first_live f j gs \<and> j \<le> f \<and> 1 \<le> f else lst = j - 1 \<and> 0 \<le> lst"
  shows "\<exists>lst'. check_segments E f lst (keyed (map (fresh c \<circ> fst) gs)) d = (True, lst', keyed (map (fresh c \<circ> fst) gs), d)"
  using assms
proof (induction j gs arbitrary: lst rule: seg_chain.induct)
  case (1 j)
  then show ?case by simp
next
  case (2 j s xs gs)
  have s: "\<not> sg_is_open s" "sg_last s = j + int (length xs) - 1" "xs \<noteq> []" "sg_first s = j"
    using 2(2,3) by auto
  then have len: "1 \<le> int (length xs)"
    by (cases xs) simp_all
  have bounds: "0 \<le> sg_last s" "lst \<noteq> -1 \<longrightarrow> lst = j - 1" "lst = -1 \<longrightarrow> j \<le> f \<and> f \<le> sg_last s"
    using 2(4) s len by (auto split: if_splits)
  have "\<exists>lst'. check_segments E f (sg_last s) (keyed (map (fresh c \<circ> fst) gs)) d = (True, lst', keyed (map (fresh c \<circ> fst) gs), d)"
    using 2(2,3) bounds(1) s by (intro 2(1)) simp_all
  then obtain lst' where "check_segments E f (sg_last s) (keyed (map (fresh c \<circ> fst) gs)) d = (True, lst', keyed (map (fresh c \<circ> fst) gs), d)"
    by blast
  moreover have "\<not> sg_last s < j" "\<not> (lst \<noteq> -1 \<and> j \<noteq> lst + 1)" "\<not> (lst = -1 \<and> f < j)" "\<not> (lst = -1 \<and> sg_last s < f)"
    using s(2) len bounds by auto
  ultimately show ?case
    using s(1,4) by (cases "lst = -1") (simp_all add: o_def)
qed

lemma seg_load_closed:
  assumes ok: "seg_ok E d s xs" and s: "\<not> sg_is_open s" and io: "io_ok E"
  shows "seg_load E cm (fresh c s) d = (RcOk, fst (reload E c (s, xs)), d, fold add_configuration (map snd xs) cm)"
    and "seg_ok E d (fst (reload E c (s, xs))) xs"
proof -
  obtain i where i: "sg_fd s = Some i" "dk_lookup d (file_name_of (fresh c s)) = Some i" "dk_data d i = encs E xs @ []"
    using ok by (auto simp: seg_ok_def)
  have t: "torn E []"
    by (simp add: torn_def)
  have xs: "contig e_index (sg_first (fresh c s)) (map snd xs)" "\<forall>x \<in> set xs. storable E (snd x)"
    "sg_is_open (fresh c s) \<or> sg_last (fresh c s) = sg_first (fresh c s) + int (length xs) - 1"
    using ok s by (simp_all add: seg_ok_def)
  obtain d' where "seg_load E cm (fresh c s) d = (RcOk, loaded E xs i (fresh c s), d', fold add_configuration (map snd xs) cm)"
    "d' = (if [] = ([] :: string) then d else dk_write i (encs E xs) d)" "seg_ok E d' (loaded E xs i (fresh c s)) xs"
    by (rule seg_load_ok [OF i(2,3) t xs(1,2) fresh_simps(4) xs(3) io])
  then show "seg_load E cm (fresh c s) d = (RcOk, fst (reload E c (s, xs)), d, fold add_configuration (map snd xs) cm)"
    and "seg_ok E d (fst (reload E c (s, xs))) xs"
    using i(1) by (simp_all add: reload_def)
qed

lemma load_closed_ok:
  assumes "seg_chain j gs" and "\<forall>(s, xs) \<in> set gs. seg_ok E d s xs \<and> \<not> sg_is_open s" and io: "io_ok E"
  shows "load_closed E (keyed (map (fresh c \<circ> fst) gs)) cm d lst =
     (RcOk, keyed (map (fst \<circ> reload E c) gs), fold add_configuration (log_of gs) cm, d,
      if gs = [] then lst else j + int (length (log_of gs)) - 1)"
  using assms(1,2)
proof (induction j gs arbitrary: cm lst rule: seg_chain.induct)
  case (1 j)
  then show ?case by simp
next
  case (2 j s xs gs)
  then have s: "seg_ok E d s xs" "\<not> sg_is_open s" "sg_first s = j"
    by simp_all
  note load = seg_load_closed(1) [OF s(1,2) io, of cm c]
  have r: "sg_first (fst (reload E c (s, xs))) = j" "sg_last (fst (reload E c (s, xs))) = j + int (length xs) - 1"
    using s(3) by (simp_all add: reload_def)
  show ?case
    using 2 load r by (simp add: algebra_simps)
qed


subsection \<open>A crash and a restart\<close>

lemma ksorted_unique:
  assumes "ksorted f xs" "ksorted f ys" "set xs = set ys"
  shows "xs = ys"
proof (rule map_sorted_distinct_set_unique [where f = f])
  show "inj_on f (set xs \<union> set ys)"
    using ksorted_distinct [OF assms(1)] assms(3) by (simp add: distinct_map)
qed (use assms ksorted_distinct in \<open>auto simp: ksorted_def intro: strict_sorted_imp_sorted\<close>)

definition crash :: "string \<Rightarrow> seg_log \<Rightarrow> disk" where
  "crash t l = (case sl_open l of None \<Rightarrow> sl_disk l | Some s \<Rightarrow> fd_write s (fd_data s (sl_disk l) @ t) (sl_disk l))"

lemma crash_simps [simp]:
  "dk_dir (crash t l) = dk_dir (sl_disk l)" "dk_next (crash t l) = dk_next (sl_disk l)" "dk_meta (crash t l) = dk_meta (sl_disk l)"
  by (simp_all add: crash_def fd_write_def dk_write_def split: option.split)

lemma seg_chain_ge: "seg_chain j gs \<Longrightarrow> \<forall>g \<in> set gs. j \<le> sg_first (fst g)"
  by (induction j gs rule: seg_chain.induct) fastforce+

lemma dir_names:
  assumes inv: "sl_inv E k cs os l"
  shows "insert_named c (map fst (dk_dir (sl_disk l))) [] = keyed (map (fresh c \<circ> fst) cs)"
    and "open_named c (map fst (dk_dir (sl_disk l))) None = map_option (fresh c) (sl_open l)"
    and "length (filter is_open_name (map fst (dk_dir (sl_disk l)))) \<le> 1"
proof -
  let ?ns = "map fst (dk_dir (sl_disk l))" and ?gs = "cs @ os"
  note D = sl_invD [OF inv] and names = sl_inv_names [OF inv]
  have dist: "distinct ?ns"
    using D(1) unfolding segs_ok_def dir_ok_def by blast
  have covered: "\<exists>s xs. (s, xs) \<in> set ?gs \<and> file_name_of s = n" if n: "n \<in> set ?ns" "is_seg_name n" for n
  proof -
    have "dk_lookup (sl_disk l) n \<noteq> None"
      using n(1) by (simp add: map_of_eq_None_iff)
    then obtain s where "s \<in> set (map fst ?gs)" "file_name_of s = n"
      using n(2) D(1) unfolding segs_ok_def dir_ok_def by blast
    then show ?thesis
      by (metis (no_types) imageE prod.collapse set_map)
  qed
  have there: "file_name_of s \<in> set ?ns" if "(s, xs) \<in> set ?gs" for s xs
    using sl_inv_seg_ok [OF inv that] by (metis map_of_eq_None_iff option.distinct(1) seg_ok_def set_map)
  have closed: "\<forall>(s, xs) \<in> set cs. \<not> sg_is_open s \<and> xs \<noteq> []"
    by (rule D(4))
  have open_l: "case sl_open l of None \<Rightarrow> os = [] | Some s \<Rightarrow> sg_is_open s \<and> (\<exists>xs. os = [(s, xs)])"
    using inv by (simp add: sl_inv_def)
  have in_cs: "(a, closed_segment_new a b c) \<in> (\<lambda>(s, xs). (sg_first s, fresh c s)) ` set cs" if n: "ClosedSeg a b \<in> set ?ns" for a b
  proof -
    obtain s xs where s: "(s, xs) \<in> set ?gs" "file_name_of s = ClosedSeg a b"
      using covered [OF n] by (auto simp del: set_append)
    then have "\<not> sg_is_open s" "sg_first s = a" "sg_last s = b"
      by (auto simp: file_name_of_def split: if_splits)
    moreover from this(1) have "(s, xs) \<in> set cs"
      using s(1) open_l by (auto split: option.splits)
    ultimately show ?thesis
      by (force simp: fresh_def)
  qed
  have "{(a, closed_segment_new a b c) |a b. ClosedSeg a b \<in> set ?ns} = (\<lambda>(s, xs). (sg_first s, fresh c s)) ` set cs"
  proof (intro equalityI subsetI)
    fix x
    assume "x \<in> (\<lambda>(s, xs). (sg_first s, fresh c s)) ` set cs"
    then obtain s xs where s: "(s, xs) \<in> set cs" "x = (sg_first s, fresh c s)"
      by auto
    then have "\<not> sg_is_open s"
      using closed by auto
    with there [of s xs] s show "x \<in> {(a, closed_segment_new a b c) |a b. ClosedSeg a b \<in> set ?ns}"
      by (auto simp: file_name_of_def fresh_def)
  qed (use in_cs in blast)
  then have set_cs: "{(a, closed_segment_new a b c) |a b. ClosedSeg a b \<in> set ?ns} = set (keyed (map (fresh c \<circ> fst) cs))"
    by (simp add: image_image case_prod_beta)
  have sorted: "ksorted fst (keyed (map (fresh c \<circ> fst) cs))"
  proof -
    have "ksorted fst (keyed (map (fresh c \<circ> fst) gs))" if "seg_chain j gs" "\<forall>(s, xs) \<in> set gs. xs \<noteq> []" for j gs
      using that
    proof (induction j gs rule: seg_chain.induct)
      case (2 j s xs gs)
      have len: "0 < int (length xs)" and chain: "seg_chain (j + int (length xs)) gs" "sg_first s = j"
        using 2(2,3) by auto
      have "j < sg_first (fst g)" if "g \<in> set gs" for g
        using bspec [OF seg_chain_ge [OF chain(1)] that] len by linarith
      with 2 chain(2) show ?case
        by auto
    qed simp
    from this [of k cs] show ?thesis
      using D(2) closed by (auto simp: seg_chain_append)
  qed
  have "\<forall>a b b'. ClosedSeg a b \<in> set ?ns \<and> ClosedSeg a b' \<in> set ?ns \<longrightarrow> b = b'"
  proof (intro allI impI)
    fix a b b'
    assume "ClosedSeg a b \<in> set ?ns \<and> ClosedSeg a b' \<in> set ?ns"
    then obtain s xs s' xs' where "(s, xs) \<in> set ?gs" "file_name_of s = ClosedSeg a b" "(s', xs') \<in> set ?gs" "file_name_of s' = ClosedSeg a b'"
      using covered is_seg_name.simps(2) by meson
    moreover have "(s, xs) = (s', xs')" if "(s, xs) \<in> set ?gs" "(s', xs') \<in> set ?gs" "sg_first s = sg_first s'" for s xs s' xs'
      using names(2) that unfolding distinct_map inj_on_def by fastforce
    ultimately show "b = b'"
      by (auto simp: file_name_of_def split: if_splits)
  qed
  then have "ksorted fst (insert_named c ?ns []) \<and> set (insert_named c ?ns []) = {} \<union> set (keyed (map (fresh c \<circ> fst) cs))"
    unfolding set_cs [symmetric] using insert_named_set [of "[]" ?ns c] by simp
  then show "insert_named c ?ns [] = keyed (map (fresh c \<circ> fst) cs)"
    using sorted ksorted_unique [of fst "insert_named c ?ns []"] by simp
  have opens: "filter is_open_name ?ns = (case sl_open l of None \<Rightarrow> [] | Some s \<Rightarrow> [OpenSeg (sg_first s)])"
  proof (cases "sl_open l")
    case None
    then have "\<not> is_open_name n" if "n \<in> set ?ns" for n
      using covered [OF that] closed open_l by (cases n) (auto simp: file_name_of_def split: if_splits)
    with None show ?thesis
      by (simp add: filter_empty_conv)
  next
    case (Some s)
    with open_l obtain xs where s: "sg_is_open s" "os = [(s, xs)]"
      by auto
    have "filter is_open_name ?ns = [OpenSeg (sg_first s)]"
    proof (rule filter_singleton [OF dist])
      show "OpenSeg (sg_first s) \<in> set ?ns"
        using there [of s xs] s by (simp add: file_name_of_def)
      show "n = OpenSeg (sg_first s)" if "n \<in> set ?ns" "is_open_name n" for n
        using covered [OF that(1)] that(2) closed s by (cases n) (auto simp: file_name_of_def split: if_splits)
    qed simp
    with Some show ?thesis by simp
  qed
  then show "length (filter is_open_name ?ns) \<le> 1"
    by (simp split: option.splits)
  show "open_named c ?ns None = map_option (fresh c) (sl_open l)"
    using opens open_l
    by (auto simp: fresh_def filter_empty_conv split: option.splits intro!: open_named_none open_named_some [THEN trans])
qed


lemma dir_ok_names:
  "dir_ok d ss \<longleftrightarrow> distinct (map fst (dk_dir d)) \<and> (\<forall>n i. dk_lookup d n = Some i \<longrightarrow> i < dk_next d)
     \<and> (\<forall>n. dk_lookup d n \<noteq> None \<and> is_seg_name n \<longrightarrow> n \<in> file_name_of ` set ss)"
proof -
  have "(\<exists>s \<in> set ss. file_name_of s = n) \<longleftrightarrow> n \<in> file_name_of ` set ss" for n
    by blast
  then show ?thesis
    unfolding dir_ok_def by (simp only:)
qed

lemma segs_ok_reload:
  assumes "segs_ok E d gs"
  shows "segs_ok E d (map (reload E c) gs)"
proof -
  have name: "file_name_of (fst (reload E c (s, xs))) = file_name_of s" and fd: "sg_fd (fst (reload E c (s, xs))) = sg_fd s"
    and ok: "seg_ok E d (fst (reload E c (s, xs))) xs" if "(s, xs) \<in> set gs" for s xs
  proof -
    note seg = segs_okD [OF assms that]
    show n: "file_name_of (fst (reload E c (s, xs))) = file_name_of s"
      using seg_ok_last [OF seg] by (simp add: reload_def file_name_of_def)
    show f: "sg_fd (fst (reload E c (s, xs))) = sg_fd s"
      using seg by (auto simp: reload_def seg_ok_def)
    have "sg_bytes (fst (reload E c (s, xs))) = length (encs E xs)" "sg_offset_and_term (fst (reload E c (s, xs))) = offsets E 0 xs"
      "sg_first (fst (reload E c (s, xs))) = sg_first s" "sg_last (fst (reload E c (s, xs))) = sg_first s + int (length xs) - 1"
      by (simp_all add: reload_def) (simp_all add: loaded_def)
    with seg n f show "seg_ok E d (fst (reload E c (s, xs))) xs"
      by (simp add: seg_ok_def)
  qed
  have "map (sg_fd \<circ> fst) (map (reload E c) gs) = map (sg_fd \<circ> fst) gs"
    using fd by auto
  moreover have "\<forall>(s, xs) \<in> set (map (reload E c) gs). seg_ok E d s xs"
    using ok by (auto simp: reload_def)
  moreover have "file_name_of ` set (map fst (map (reload E c) gs)) = file_name_of ` set (map fst gs)"
  proof -
    have "map (file_name_of \<circ> fst) (map (reload E c) gs) = map (file_name_of \<circ> fst) gs"
      using name by auto
    from arg_cong [OF this, of set] show ?thesis
      by (simp add: image_image)
  qed
  then have "dir_ok d (map fst (map (reload E c) gs)) = dir_ok d (map fst gs)"
    unfolding dir_ok_names by simp
  ultimately show ?thesis
    using assms unfolding segs_ok_def by metis
qed

text \<open>The directory once the temporary files are gone.\<close>

lemma listed_disk:
  assumes inv: "sl_inv E k cs os l" and d: "d = names_unlink (map fst (dk_dir (sl_disk l))) (list_meta E False (crash t l))"
  shows "dk_data d = dk_data (crash t l)" "dk_next d = dk_next (sl_disk l)" "pb_path (dk_meta d) = pb_path (dk_meta (sl_disk l))"
    "distinct (map fst (dk_dir d))" "dk_lookup d n = (if is_tmp n then None else dk_lookup (sl_disk l) n)"
proof -
  let ?d = "list_meta E False (crash t l)" and ?ns = "map fst (dk_dir (sl_disk l))"
  have m: "dk_data ?d = dk_data (crash t l)" "dk_next ?d = dk_next (sl_disk l)" "dk_dir ?d = dk_dir (sl_disk l)"
    "pb_path (dk_meta ?d) = pb_path (dk_meta (sl_disk l))"
    by (simp_all add: list_meta_def Let_def)
  have dist: "distinct (map fst (dk_dir (sl_disk l)))"
    using sl_invD(1) [OF inv] by (simp add: segs_ok_def dir_ok_def)
  note u = names_unlink_ok [of ?ns ?d]
  show "dk_data d = dk_data (crash t l)" "dk_next d = dk_next (sl_disk l)" "pb_path (dk_meta d) = pb_path (dk_meta (sl_disk l))"
    "distinct (map fst (dk_dir d))"
    using u dist m by (simp_all add: d)
  have "dk_lookup (sl_disk l) n = None" if "n \<notin> set ?ns"
    using that by (simp add: map_of_eq_None_iff)
  then show "dk_lookup d n = (if is_tmp n then None else dk_lookup (sl_disk l) n)"
    using u [of n] m(3) by (auto simp: d)
qed

lemma not_tmp_name [simp]: "\<not> is_tmp (file_name_of s)"
  by (simp add: file_name_of_def)

lemma segs_ok_listed:
  assumes segs: "segs_ok E d gs" and d': "distinct (map fst (dk_dir d'))" "dk_next d' = dk_next d"
    "\<And>n. dk_lookup d' n = (if is_tmp n then None else dk_lookup d n)"
    and data: "\<And>s xs i. (s, xs) \<in> set gs \<Longrightarrow> sg_fd s = Some i \<Longrightarrow> dk_data d' i = dk_data d i"
  shows "segs_ok E d' gs"
proof -
  have "seg_ok E d' s xs" if "(s, xs) \<in> set gs" for s xs
    by (rule seg_ok_cong [OF segs_okD [OF segs that]]) (use d'(3) data [OF that] in simp_all)
  moreover have "dir_ok d' (map fst gs)"
    using segs d'(1,2) unfolding segs_ok_def dir_ok_def d'(3) by (metis option.distinct(1))
  ultimately show ?thesis
    using segs by (auto simp: segs_ok_def)
qed


lemma first_live_left: "first_live f k (gs @ hs) \<Longrightarrow> first_live f k gs"
  by (cases "(f, k, gs)" rule: first_live.cases) simp_all

definition meta_codec :: "log_env \<Rightarrow> int \<Rightarrow> bool" where
  "meta_codec E k \<longleftrightarrow> length (lf_meta_ser E k) < 2 ^ 31 \<and> lf_meta_deser E (lf_meta_ser E k) = k"

lemma sl_load_meta_ok:
  assumes "io_ok E" and "pb_path (dk_meta (sl_disk l)) = Some (net32 (length (lf_meta_ser E k)) @ lf_meta_ser E k)" and "meta_codec E k"
  shows "sl_load_meta E l = (None, l\<lparr>sl_first := k\<rparr>)"
proof -
  have "pb_load (lf_meta_file E) (dk_meta (sl_disk l)) = Inr (lf_meta_ser E k)"
    using pb_load_saved [of "lf_meta_ser E k" "lf_meta_file E" "pb_tmp (dk_meta (sl_disk l))"] assms
    by (simp add: pb_load_def meta_codec_def io_ok_def)
  with assms(3) show ?thesis
    by (simp add: sl_load_meta_def meta_codec_def)
qed

text \<open>The storage once the directory has been read.\<close>

definition listed :: "log_env \<Rightarrow> checksum_type \<Rightarrow> bool \<Rightarrow> string \<Rightarrow> seg_log \<Rightarrow> seg_log" where
  "listed E c sync t l =
     \<lparr>sl_first = sl_first l, sl_last = 0, sl_checksum_type = c, sl_enable_sync = sync,
      sl_segments = map (\<lambda>(k, s). (k, fresh c s)) (sl_segments l), sl_open = map_option (fresh c) (sl_open l),
      sl_disk = names_unlink (map fst (dk_dir (sl_disk l))) (list_meta E False (crash t l))\<rparr>"

lemma sl_list_segments_ok:
  assumes inv: "sl_inv E k cs os l" and io: "io_ok E"
  shows "sl_list_segments E False ((seg_log_new sync (crash t l))\<lparr>sl_checksum_type := c, sl_first := sl_first l\<rparr>)
     = (RcOk, listed E c sync t l)"
proof -
  note D = sl_invD [OF inv] and N = dir_names [OF inv]
  let ?l = "(seg_log_new sync (crash t l))\<lparr>sl_checksum_type := c, sl_first := sl_first l\<rparr>"
  let ?ns = "map fst (dk_dir (sl_disk l))"
  let ?l1 = "?l\<lparr>sl_disk := list_meta E False (sl_disk ?l)\<rparr>"
  let ?d = "names_unlink ?ns (list_meta E False (crash t l))"
  have "length (filter is_open_name ?ns) + (if sl_open ?l1 = None then 0 else 1) \<le> 1"
    using N(3) by (simp add: seg_log_new_def)
  note dir = list_dir_ok [OF io this]
  have ok: "\<forall>(s, xs) \<in> set cs. \<not> sg_is_open s \<and> sg_last s = sg_first s + int (length xs) - 1 \<and> xs \<noteq> []"
    using D(4) seg_ok_last [OF sl_inv_seg_ok [OF inv]] by fastforce
  have "seg_chain k cs" "first_live (sl_first l) k cs"
    using D(2) inv first_live_left [of "sl_first l" k cs os] by (simp_all add: seg_chain_append sl_inv_def)
  then obtain lst where check: "check_segments E (sl_first l) (-1) (keyed (map (fresh c \<circ> fst) cs)) ?d =
      (True, lst, keyed (map (fresh c \<circ> fst) cs), ?d)"
    using check_segments_ok [OF _ ok, of k "-1" "sl_first l" E c ?d] D(5,6) by auto
  have segs: "map (\<lambda>(k, s). (k, fresh c s)) (sl_segments l) = keyed (map (fresh c \<circ> fst) cs)"
    unfolding D(3) by (simp add: keyed_def)
  show ?thesis
    using io dir N(1,2)
    by (simp add: sl_list_segments_def io_ok_def seg_log_new_def listed_def segs check)
qed


text \<open>Loading what was listed: the torn end is cut off, and the configurations are added.\<close>

lemma load_listed:
  assumes inv: "sl_inv E k cs os l" and io: "io_ok E" and meta: "meta_ok E l" and torn: "torn E t"
  obtains k' cs' os' l' where
    "sl_load_segments E cm (listed E c sync t l) = (RcOk, l', fold add_configuration (log_of (cs @ os)) cm)"
    "sl_inv E k' cs' os' l'" "sl_first l' = sl_first l" "sl_last l' = sl_last l" "sl_entries E l' = sl_entries E l" "meta_ok E l'"
proof -
  let ?first = "sl_first l" and ?l = "listed E c sync t l"
  define d where "d = sl_disk ?l"
  note D = sl_invD [OF inv]
  have d_def': "d = names_unlink (map fst (dk_dir (sl_disk l))) (list_meta E False (crash t l))"
    by (simp add: d_def listed_def)
  note L = listed_disk [OF inv d_def']
  have fds: "distinct (map (sg_fd \<circ> fst) (cs @ os))"
    by (rule sl_inv_names(3) [OF inv])
  have open_l: "case sl_open l of None \<Rightarrow> os = [] | Some s \<Rightarrow> sg_is_open s \<and> (\<exists>xs. os = [(s, xs)])"
    using inv by (simp add: sl_inv_def)
  have data: "dk_data d i = dk_data (sl_disk l) i" if "(s, xs) \<in> set cs" "sg_fd s = Some i" for s xs i
    using that fds open_l by (cases "sl_open l") (force simp: L(1) crash_def fd_write_def dk_write_def split: option.splits)+
  have closed: "\<forall>(s, xs) \<in> set cs. seg_ok E d s xs \<and> \<not> sg_is_open s"
  proof -
    have "seg_ok E d s xs" if "(s, xs) \<in> set cs" for s xs
      by (rule seg_ok_cong [OF sl_inv_seg_ok [OF inv]]) (use that L(5) data in auto)
    then show ?thesis
      using D(4) by auto
  qed
  have segs: "sl_segments ?l = keyed (map (fresh c \<circ> fst) cs)"
    by (simp add: listed_def D(3)) (simp add: keyed_def)
  define cm1 where "cm1 = fold add_configuration (log_of cs) cm"
  define lst where "lst = (if cs = [] then 0 else k + int (length (log_of cs)) - 1)"
  have chain: "seg_chain k cs" "seg_chain (k + int (length (log_of cs))) os"
    using D(2) by (simp_all add: seg_chain_append)
  have lc: "load_closed E (sl_segments ?l) cm (sl_disk ?l) (sl_last ?l) = (RcOk, keyed (map (fst \<circ> reload E c) cs), cm1, d, lst)"
    using load_closed_ok [OF chain(1) closed io, of c cm 0]
    unfolding segs d_def [symmetric] by (simp add: cm1_def lst_def listed_def)
  define l1 where "l1 = ?l\<lparr>sl_segments := keyed (map (fst \<circ> reload E c) cs), sl_disk := d, sl_last := lst\<rparr>"
  have meta1: "meta_ok E l'" if "sl_first l' = ?first" "pb_path (dk_meta (sl_disk l')) = pb_path (dk_meta d)" for l'
    using meta that L(3) by (simp add: meta_ok_def)
  have mid: "sl_load_segments E cm ?l = (case load_open E cm1 l1 of (rc, l2, cm2) \<Rightarrow>
      if rc \<noteq> RcOk then (rc, l2, cm2) else (RcOk, if sl_last l2 = 0 then l2\<lparr>sl_last := sl_first l2 - 1\<rparr> else l2, cm2))"
    by (simp add: sl_load_segments_def lc l1_def [symmetric])
  show ?thesis
  proof (cases "sl_open l")
    case None
    then have os: "os = []"
      using open_l by simp
    define l2 where "l2 = (if lst = 0 then l1\<lparr>sl_last := ?first - 1\<rparr> else l1)"
    have "sl_open l1 = None" "sl_first l1 = ?first"
      using None by (simp_all add: l1_def listed_def)
    then have res: "sl_load_segments E cm ?l = (RcOk, l2, cm1)"
      by (simp add: mid load_open_def l2_def) (simp add: l1_def)
    have last: "sl_last l2 = sl_last l"
    proof (cases "cs = []")
      case True
      with inv os show ?thesis
        by (simp add: l2_def lst_def sl_inv_def)
    next
      case False
      then obtain s xs gs where "cs = (s, xs) # gs" "xs \<noteq> []"
        using D(4) by (cases cs) auto
      then have "?first < k + int (length (log_of cs))"
        using inv os by (simp add: sl_inv_def)
      with False D(5,8) os show ?thesis
        by (simp add: l2_def lst_def l1_def)
    qed
    have "segs_ok E d (cs @ os)"
      by (rule segs_ok_listed [OF D(1) L(4,2,5)]) (use data os in simp)
    then have "segs_ok E d (map (reload E c) cs)"
      using segs_ok_reload os by simp
    then have inv2: "sl_inv E k (map (reload E c) cs) [] l2"
      using inv last os None D(4) unfolding sl_inv_def
      by (auto simp: l2_def l1_def listed_def case_prod_beta) (auto simp: reload_def)
    have "sl_first l2 = ?first"
      by (simp add: l2_def l1_def listed_def)
    moreover from this have "sl_entries E l2 = sl_entries E l"
      unfolding sl_entries_ok [OF inv2 io] sl_entries_ok [OF inv io] by (simp add: os)
    moreover have "meta_ok E l2"
      by (rule meta1) (simp_all add: l2_def l1_def listed_def)
    ultimately show ?thesis
      using that res inv2 last by (simp add: cm1_def os)
  next
    case (Some s)
    then obtain xs where s: "sg_is_open s" "os = [(s, xs)]"
      using open_l by auto
    have ok: "seg_ok E (sl_disk l) s xs"
      using s by (intro sl_inv_seg_ok [OF inv]) simp
    then obtain i where i: "sg_fd s = Some i" "dk_lookup d (file_name_of (fresh c s)) = Some i" "dk_data (sl_disk l) i = encs E xs"
      by (auto simp: seg_ok_def L(5))
    have torn_data: "dk_data d i = encs E xs @ t"
      using i(1,3) by (simp add: L(1) crash_def Some fd_write_def fd_data_def dk_write_def)
    have xs: "contig e_index (sg_first (fresh c s)) (map snd xs)" "\<forall>x \<in> set xs. storable E (snd x)"
      "sg_is_open (fresh c s) \<or> sg_last (fresh c s) = sg_first (fresh c s) + int (length xs) - 1"
      using ok s(1) by (simp_all add: seg_ok_def)
    obtain d3 where ld: "seg_load E cm1 (fresh c s) d = (RcOk, loaded E xs i (fresh c s), d3, fold add_configuration (map snd xs) cm1)"
      "d3 = (if t = [] then d else dk_write i (encs E xs) d)" "seg_ok E d3 (loaded E xs i (fresh c s)) xs"
      by (rule seg_load_ok [OF i(2) torn_data torn xs(1,2) fresh_simps(4) xs(3) io])
    let ?s = "loaded E xs i (fresh c s)"
    have r: "reload E c (s, xs) = (?s, xs)"
      by (simp add: reload_def i(1))
    have d3: "dk_dir d3 = dk_dir d" "dk_next d3 = dk_next d" "dk_meta d3 = dk_meta d" "dk_data d3 i = encs E xs"
      using torn_data by (simp_all add: ld(2) dk_write_def)
    have other: "dk_data d3 j = dk_data (sl_disk l) j" if "(u, zs) \<in> set (cs @ os)" "sg_fd u = Some j" for u zs j
    proof (cases "(u, zs) \<in> set cs")
      case True
      then have "j \<noteq> i"
        using fds that(2) s(2) i(1) by force
      with data [OF True that(2)] show ?thesis
        by (simp add: ld(2) dk_write_def)
    next
      case False
      with that s(2) i(1) have "j = i"
        by auto
      with d3(4) i(3) show ?thesis by simp
    qed
    have "segs_ok E d3 (cs @ os)"
      by (rule segs_ok_listed [OF D(1)]) (use L(2,4,5) d3 other in simp_all)
    then have segs3: "segs_ok E d3 (map (reload E c) cs @ [(?s, xs)])"
      using segs_ok_reload [of E d3 "cs @ os" c] s(2) r by simp
    have sl: "sg_first s = k + int (length (log_of cs))" "sg_last ?s = sl_last l"
      using chain(2) D(8) s(2) by simp_all
    have l1: "sl_open l1 = Some (fresh c s)" "sl_first l1 = ?first" "sl_disk l1 = d"
      using Some by (simp_all add: l1_def listed_def)
    have cm: "fold add_configuration (map snd xs) cm1 = fold add_configuration (log_of (cs @ os)) cm"
      by (simp add: cm1_def s(2))
    show ?thesis
    proof (cases "?first > sl_last l")
      case False
      define l2 where "l2 = l1\<lparr>sl_open := Some ?s, sl_disk := d3, sl_last := sl_last l\<rparr>"
      have "sl_load_segments E cm ?l = (RcOk, l2, fold add_configuration (log_of (cs @ os)) cm)"
        using False D(5) sl(2) by (simp add: mid load_open_def l1 ld(1) cm l2_def)
      moreover have inv2: "sl_inv E k (map (reload E c) cs) [(?s, xs)] l2"
        using inv segs3 s D(4) first_live_snoc(2) [of ?first k "map (reload E c) cs" ?s xs s]
          reload_simps(4) [of ?first k E c "cs @ os"] r sl(1)
        unfolding sl_inv_def
        by (auto simp: l2_def l1_def listed_def case_prod_beta seg_chain_append) (auto simp: reload_def)
      moreover have "sl_first l2 = ?first" "sl_last l2 = sl_last l"
        by (simp_all add: l2_def l1)
      moreover from this(1) have "sl_entries E l2 = sl_entries E l"
        unfolding sl_entries_ok [OF inv2 io] sl_entries_ok [OF inv io] by (simp add: s(2))
      moreover have "meta_ok E l2"
        by (rule meta1) (simp_all add: l2_def l1 d3)
      ultimately show ?thesis
        using that by blast
    next
      case True
      then have first: "?first = sl_last l + 1"
        using D(7) by simp
      have cs: "cs = []"
      proof (rule ccontr)
        assume "cs \<noteq> []"
        then obtain u zs gs where "cs = (u, zs) # gs" "zs \<noteq> []"
          using D(4) by (cases cs) auto
        then have "?first < k + int (length (log_of cs))"
          using inv by (simp add: sl_inv_def)
        with first D(8) show False by simp
      qed
      have "xs = []"
        using inv first D(8) by (auto simp: sl_inv_def cs s(2))
      define d4 where "d4 = unlink_all E [?s] d3"
      have "segs_ok E d4 []" "dk_meta d4 = dk_meta d3"
        using segs_ok_unlink [OF io segs3 [unfolded cs], of "[(?s, xs)]" "[]"] by (simp_all add: d4_def)
      define l2 where "l2 = l1\<lparr>sl_open := None, sl_disk := d4, sl_last := ?first - 1\<rparr>"
      have "lst = 0" "snd (seg_unlink E ?s d3) = d4"
        by (simp_all add: lst_def cs d4_def unlink_all_def)
      then have "sl_load_segments E cm ?l = (RcOk, l2, fold add_configuration (log_of (cs @ os)) cm)"
        using True sl(2) by (simp add: mid load_open_def l1 ld(1) cm l2_def) (simp add: l1_def listed_def)
      moreover have inv2: "sl_inv E ?first [] [] l2"
        using \<open>segs_ok E d4 []\<close> D(5) by (simp add: sl_inv_def l2_def l1 cs) (simp add: l1_def cs)
      moreover have "sl_first l2 = ?first" "sl_last l2 = sl_last l"
        using first by (simp_all add: l2_def l1)
      moreover have "sl_entries E l2 = sl_entries E l"
        unfolding sl_entries_ok [OF inv2 io] sl_entries_ok [OF inv io] by (simp add: cs s(2) \<open>xs = []\<close>)
      moreover have "meta_ok E l2"
        by (rule meta1) (simp_all add: l2_def l1 d3 \<open>dk_meta d4 = dk_meta d3\<close>)
      ultimately show ?thesis
        using that by blast
    qed
  qed
qed


lemma sl_init_ok:
  assumes v: "sl_valid E l" and io: "io_ok E" and codec: "meta_codec E (sl_first l)" and torn: "torn E t"
  shows "\<exists>l' cm'. sl_init E cm (seg_log_new sync (crash t l)) = (RcOk, l', cm') \<and> sl_valid E l'
     \<and> sl_first l' = sl_first l \<and> sl_last l' = sl_last l \<and> sl_entries E l' = sl_entries E l
     \<and> (\<exists>es. suffix (sl_entries E l) es \<and> cm' = fold add_configuration es cm)"
proof -
  obtain k cs os where inv: "sl_inv E k cs os l" and m: "meta_ok E l"
    using v by (auto simp: sl_valid_def)
  define c where "c = (if lf_fast_crc32 E then CHECKSUM_CRC32 else CHECKSUM_MURMURHASH32)"
  let ?l0 = "(seg_log_new sync (crash t l))\<lparr>sl_checksum_type := c\<rparr>"
  have "pb_path (dk_meta (sl_disk ?l0)) = Some (net32 (length (lf_meta_ser E (sl_first l))) @ lf_meta_ser E (sl_first l))"
    using m by (simp add: meta_ok_def seg_log_new_def)
  from sl_load_meta_ok [OF io this codec] sl_list_segments_ok [OF inv io, where sync = sync and t = t and c = c]
  have init: "sl_init E cm (seg_log_new sync (crash t l)) = sl_load_segments E cm (listed E c sync t l)"
    using io by (simp add: sl_init_def c_def [symmetric] Let_def io_ok_def split: prod.split)
  obtain k' cs' os' l' where "sl_load_segments E cm (listed E c sync t l) = (RcOk, l', fold add_configuration (log_of (cs @ os)) cm)"
    "sl_inv E k' cs' os' l'" "sl_first l' = sl_first l" "sl_last l' = sl_last l" "sl_entries E l' = sl_entries E l" "meta_ok E l'"
    by (rule load_listed [OF inv io m torn])
  moreover have "suffix (sl_entries E l) (log_of (cs @ os))"
    unfolding sl_entries_ok [OF inv io] by (rule suffix_drop)
  ultimately show ?thesis
    using init unfolding sl_valid_def by auto
qed

end
