(* ===== verification/SegmentLogProps.thy ===== *)
theory SegmentLogProps
  imports SegmentLogRestart
begin

section \<open>Properties of the log on disk\<close>

text \<open>A concrete environment, an empty storage in it, and a manager over that storage with a queued entry.\<close>

definition sample_log_env :: log_env where
  "sample_log_env =
     \<lparr>lf_str2ip = (\<lambda>s. None), lf_endpoint2str = (\<lambda>e. []), lf_conf_ser = (\<lambda>c. None), lf_conf_deser = (\<lambda>s. None),
      lf_meta_ser = (\<lambda>i. replicate (nat i) CHR ''m''), lf_meta_deser = (\<lambda>s. int (length s)),
      lf_murmurhash32 = (\<lambda>s. of_nat (length s)), lf_crc32 = (\<lambda>s. 0), lf_fast_crc32 = False,
      lf_recover_from_corrupt = False, lf_max_segment_size = 40, lf_raft_sync = True, lf_sync_by_bytes = False,
      lf_sync_per_bytes = 0, lf_sync_segments = False, lf_dir_ok = True, lf_list_ok = True, lf_stale_enoent = False,
      lf_meta_file = sample_file_env, lf_create_ok = (\<lambda>i. True), lf_open_ok = (\<lambda>n. True), lf_fstat_ok = True,
      lf_pread_ok = (\<lambda>off. True), lf_written = (\<lambda>i. None), lf_fsync_ok = True, lf_rename_ok = (\<lambda>n. True),
      lf_unlinked = (\<lambda>n. True), lf_ftruncate_ok = True, lf_lseek_ok = True\<rparr>"

abbreviation sample_E :: log_env where
  "sample_E \<equiv> all_ok sample_log_env"

definition sample_seg_log :: seg_log where
  "sample_seg_log = seg_log_new True (disk_new\<lparr>dk_meta := \<lparr>pb_path = Some (net32 1 @ ''m''), pb_tmp = None\<rparr>\<rparr>)"

definition sample_seg_lm :: "(seg_log, nat, nat) log_manager" where
  "sample_seg_lm =
     (log_manager_new sample_seg_log config_manager_new)
       \<lparr>lm_first := 1, lm_last := 2, lm_memory := [sample_entry 1 1, sample_entry 2 1],
        lm_disk_queue := [DiskEntries 7 1 [sample_entry 1 1, sample_entry 2 1]]\<rparr>"

lemma sample_seg_log_fields [simp]: "sl_first sample_seg_log = 1" "sl_last sample_seg_log = 0"
  by (simp_all add: sample_seg_log_def seg_log_new_def)

lemma sample_seg_log_valid: "sl_valid sample_E sample_seg_log"
proof -
  have "sl_inv sample_E 1 [] [] sample_seg_log"
    by (simp add: sl_inv_def segs_ok_def dir_ok_def sample_seg_log_def seg_log_new_def disk_new_def)
  moreover have "meta_ok sample_E sample_seg_log"
    by (simp add: meta_ok_def sample_seg_log_def seg_log_new_def all_ok_def sample_log_env_def)
  ultimately show ?thesis
    unfolding sl_valid_def by blast
qed

lemma sample_seg_log_entries [simp]: "sl_entries E sample_seg_log = []"
  by (simp add: sl_entries_def)

lemma sample_storable: "storable E (sample_entry i 1)"
  by (simp add: storable_def sample_entry_def int64_def)

lemma sample_codec: "meta_codec sample_E 1"
  by (simp add: meta_codec_def all_ok_def sample_log_env_def)

lemma torn_Nil: "torn E []"
  by (simp add: torn_def)

text \<open>
  C39 (roundtrip): the record \<open>append\<close> writes for an entry is read back at its place in the file,
  whatever is before and after it: the checksums verify, the header carries the term, the type and the
  length, and \<open>get\<close> builds the same entry from it.
\<close>

theorem entry_record_round_trip:
  assumes "storable E e" and "lf_pread_ok E (length pre)" and "entry_data E e = Some data"
    and "rec = header_bytes E c (e_term e) (e_type e) data @ data"
  shows "\<exists>h. load_entry E (pre @ rec @ post) (length pre) (length rec) True = Inr (h, data) \<and> entry_of E (e_index e) h data = Some e
     \<and> eh_term h = e_term e \<and> unat (eh_data_len h) = length data"
proof -
  have d: "data = the_data E e" "rec = enc E c e"
    using storable_data [OF assms(1)] enc_storable [OF assms(1)] assms(3,4) by simp_all
  show ?thesis
    using load_data [OF assms(2,1), of c post] entry_of_header [OF assms(1), of c] header_for_len [OF assms(1), of c]
      header_for_term [OF assms(1), of c] unfolding d by blast
qed

theorem entry_record_round_trip_witness:
  "\<exists>h. load_entry sample_E
       (''ab'' @ (header_bytes sample_E CHECKSUM_CRC32 1 ENTRY_TYPE_DATA ''x'' @ ''x'') @ []) 2 25 True = Inr (h, ''x'')
     \<and> entry_of sample_E 5 h ''x'' = Some (sample_entry 5 1)"
proof -
  have "entry_data sample_E (sample_entry 5 1) = Some ''x''" "lf_pread_ok sample_E (length ''ab'')"
    by (simp_all add: entry_data_def sample_entry_def all_ok_def)
  from entry_record_round_trip [OF sample_storable this(2,1) refl, of CHECKSUM_CRC32 "[]"] show ?thesis
    by (auto simp: sample_entry_def numeral_2_eq_2)
qed

text \<open>
  C38 (refinement): with a file system that does not fail the segment storage is the list of its entries.
  A read gives the entry of the list at the index or none, an append puts storable entries at the end,
  truncating the front drops what is below the new first index, truncating the back keeps what is up to the
  given index, and a reset leaves an empty log that begins at the given index; each returns success and
  leaves a valid storage.
\<close>

theorem segment_storage_is_a_log:
  assumes "sl_valid E l" and "io_ok E"
  shows "(\<forall>i. sl_get_entry E i l = (if sl_first l \<le> i \<and> i \<le> sl_last l then Some (sl_entries E l ! nat (i - sl_first l)) else None))
    \<and> (\<forall>es. contig e_index (sl_last l + 1) es \<and> (\<forall>e \<in> set es. storable E e) \<longrightarrow>
         (\<exists>l'. sl_append_entries E es l = (int (length es), l') \<and> sl_valid E l'
            \<and> sl_entries E l' = sl_entries E l @ es \<and> sl_first l' = sl_first l))
    \<and> (\<forall>k. sl_first l \<le> k \<longrightarrow>
         (\<exists>l'. sl_truncate_prefix E k l = (RcOk, l') \<and> sl_valid E l'
            \<and> sl_entries E l' = dropWhile (\<lambda>e. e_index e < k) (sl_entries E l) \<and> sl_first l' = k))
    \<and> (\<forall>k. sl_first l \<le> k + 1 \<and> k < sl_last l \<longrightarrow>
         (\<exists>l'. sl_truncate_suffix E k l = (RcOk, l') \<and> sl_valid E l'
            \<and> sl_entries E l' = pop_back_while (\<lambda>e. e_index e > k) (sl_entries E l) \<and> sl_first l' = sl_first l))
    \<and> (\<forall>k > 0. \<exists>l'. sl_reset E k l = (RcOk, l') \<and> sl_valid E l' \<and> sl_entries E l' = [] \<and> sl_first l' = k)"
proof (intro conjI allI impI, goal_cases)
  case (1 i)
  then show ?case
    using assms sl_read_ok(1) unfolding sl_valid_def by blast
next
  case (2 es)
  then show ?case
    using sl_append_refines [OF assms, of es] by simp
next
  case (3 k)
  then show ?case
    by (rule sl_prefix_refines [OF assms])
next
  case (4 k)
  then show ?case
    using sl_suffix_refines [OF assms, of k] by simp
next
  case (5 k)
  then show ?case
    by (rule sl_reset_refines [OF assms])
qed

theorem segment_storage_is_a_log_witness:
  "\<exists>l'. sl_append_entries sample_E [sample_entry 1 1, sample_entry 2 1] sample_seg_log = (2, l')
     \<and> sl_entries sample_E l' = [sample_entry 1 1, sample_entry 2 1]"
proof -
  have "contig e_index (sl_last sample_seg_log + 1) [sample_entry 1 1, sample_entry 2 1]"
    "\<forall>e \<in> set [sample_entry 1 1, sample_entry 2 1]. storable sample_E e"
    using sample_storable by (simp_all add: sample_entry_def)
  then show ?thesis
    using mp [OF spec [OF conjunct1 [OF conjunct2 [OF segment_storage_is_a_log [OF sample_seg_log_valid io_ok_all_ok]]],
          of "[sample_entry 1 1, sample_entry 2 1]"]] by auto
qed

text \<open>
  C37 (safety): a restart after a crash restores the log. Whatever part of a record the crash left at the
  end of the open segment and whatever the order of the files in the directory, \<open>init\<close> succeeds
  and leaves a valid storage with the same bounds and the same entries, and the configurations among them
  are added to the configuration manager.
\<close>

theorem restart_restores_log:
  assumes "sl_valid E l" and "io_ok E" and "meta_codec E (sl_first l)" and "torn E t"
  shows "\<exists>l' cm'. sl_init E cm (seg_log_new sync (crash t l)) = (RcOk, l', cm') \<and> sl_valid E l'
     \<and> sl_first l' = sl_first l \<and> sl_last l' = sl_last l \<and> sl_entries E l' = sl_entries E l
     \<and> (\<exists>es. suffix (sl_entries E l) es \<and> cm' = fold add_configuration es cm)"
  using assms by (rule sl_init_ok)

theorem restart_restores_log_witness:
  "\<exists>l l' cm'. sl_append_entries sample_E [sample_entry 1 1, sample_entry 2 1] sample_seg_log = (2, l)
     \<and> sl_init sample_E config_manager_new (seg_log_new True (crash (take 20 (enc sample_E CHECKSUM_CRC32 (sample_entry 3 1))) l)) = (RcOk, l', cm')
     \<and> sl_entries sample_E l' = [sample_entry 1 1, sample_entry 2 1]"
proof -
  have "contig e_index (sl_last sample_seg_log + 1) [sample_entry 1 1, sample_entry 2 1]"
    "\<forall>e \<in> set [sample_entry 1 1, sample_entry 2 1]. storable sample_E e"
    using sample_storable by (simp_all add: sample_entry_def)
  from sl_append_refines [OF sample_seg_log_valid io_ok_all_ok this] obtain l where
    l: "sl_append_entries sample_E [sample_entry 1 1, sample_entry 2 1] sample_seg_log = (2, l)" "sl_valid sample_E l"
    "sl_entries sample_E l = [sample_entry 1 1, sample_entry 2 1]" "sl_first l = 1"
    by auto
  let ?t = "take 20 (enc sample_E CHECKSUM_CRC32 (sample_entry 3 1))"
  have "torn sample_E ?t"
    unfolding torn_def using sample_storable length_enc [OF sample_storable, of sample_E CHECKSUM_CRC32 3]
    by (intro disjI2 exI [of _ CHECKSUM_CRC32] exI [of _ "sample_entry 3 1"] exI [of _ 20]) simp
  from restart_restores_log [OF l(2) io_ok_all_ok _ this, of config_manager_new True] l sample_codec show ?thesis
    by auto
qed

text \<open>
  C36 (liveness): over segment files, once the disk thread has run the closures of its queue, a crash and a
  restart find exactly the log: every entry whose closure was run with success is there again, no
  conflicting entry comes back, and the first index is the same.
\<close>

theorem stable_entries_survive_crash:
  fixes lm :: "(seg_log, 'd, 'w) log_manager"
  assumes "E = all_ok F" and "lm_inv (seg_log_ops E) (storable E) (sl_valid E) (sl_entries E) lm"
    and "lm_disk_thread (seg_log_ops E) b n lm = (lm', ev)" and "length (lm_disk_queue lm) \<le> n"
    and "meta_codec E (lm_first lm)" and "torn E t"
  shows "lm_disk_queue lm' = [] \<and> no_runs ev = concat (map task_runs (lm_disk_queue lm))
     \<and> (\<exists>l cm'. sl_init E cm (seg_log_new sync (crash t (lm_storage lm'))) = (RcOk, l, cm')
          \<and> (sl_first l, sl_entries E l) = lm_log (seg_log_ops E) (sl_entries E) lm)"
proof -
  have run: "lm_inv (seg_log_ops E) (storable E) (sl_valid E) (sl_entries E) lm'"
    "(sl_first (lm_storage lm'), sl_entries E (lm_storage lm')) = lm_log (seg_log_ops E) (sl_entries E) lm"
    "lm_disk_queue lm' = []" "no_runs ev = concat (map task_runs (lm_disk_queue lm))"
    using sl.disk_thread_refines [of F, OF assms(2-4) [unfolded assms(1)]] unfolding assms(1) sl.sto_def by simp_all
  have v: "sl_valid E (lm_storage lm')"
    using run(1) by (simp add: lm_inv_def)
  have "sl_first (lm_storage lm') = lm_first lm"
    using assms(2) run(2) unfolding lm_inv_def by (metis fst_conv)
  with sl_init_ok [OF v _ _ assms(6), of cm sync] io_ok_all_ok [of F] assms(1,5) run(2-4) show ?thesis
    by fastforce
qed

lemma sample_seg_lm_fields [simp]:
  "lm_first sample_seg_lm = 1" "lm_last sample_seg_lm = 2" "lm_memory sample_seg_lm = [sample_entry 1 1, sample_entry 2 1]"
  "lm_disk_queue sample_seg_lm = [DiskEntries 7 1 [sample_entry 1 1, sample_entry 2 1]]"
  "lm_applied_id sample_seg_lm = LogId 0 0" "lm_last_snapshot_id sample_seg_lm = LogId 0 0"
  "lm_virtual_first sample_seg_lm = LogId 0 0" "lm_storage sample_seg_lm = sample_seg_log"
  "\<not> lm_has_error sample_seg_lm" "lm_config sample_seg_lm = config_manager_new"
  by (simp_all add: sample_seg_lm_def log_manager_new_def)

lemma sample_seg_lm_log:
  "lm_log (seg_log_ops E) (sl_entries E) sample_seg_lm = (1, [sample_entry 1 1, sample_entry 2 1])"
  by (simp add: lm_log_def)

lemma sample_seg_lm_inv:
  "lm_inv (seg_log_ops sample_E) (storable sample_E) (sl_valid sample_E) (sl_entries sample_E) sample_seg_lm"
  using sample_seg_log_valid sample_storable
  by (simp add: lm_inv_def lm_wf_def sample_seg_lm_log runs_to_def alog_last_def cm_wf_new)
    (auto simp: config_manager_new_def)

theorem stable_entries_survive_crash_witness:
  "\<exists>l cm'. sl_init sample_E config_manager_new
       (seg_log_new True (crash [] (lm_storage (fst (lm_disk_thread (seg_log_ops sample_E) 1 5 sample_seg_lm))))) = (RcOk, l, cm')
     \<and> sl_entries sample_E l = [sample_entry 1 1, sample_entry 2 1]"
proof -
  obtain lm' ev where dt: "lm_disk_thread (seg_log_ops sample_E) 1 5 sample_seg_lm = (lm', ev)"
    by fastforce
  from stable_entries_survive_crash [OF refl sample_seg_lm_inv dt _ _ torn_Nil, of config_manager_new True] sample_codec
  show ?thesis
    by (auto simp: dt sample_seg_lm_log simp del: One_nat_def)
qed

end
