(* ===== verification/FsmCaller.thy ===== *)
theory FsmCaller
  imports RaftMessages
begin

section \<open>FSM caller and iterator (fsm_caller.h, fsm_caller.cpp, Iterator of raft.cpp)\<close>

text \<open>
  The FSM caller is the one thread that talks to the user's state machine: it walks the committed
  part of the log, hands the entries over, runs the closures of the tasks, saves and loads
  snapshots. The state machine is user code and a parameter: \<open>fs_on_apply\<close> is a program that
  uses the iterator until it returns (\<open>sm_prog\<close>; what it does next may depend on what the
  iterator shows), the other callbacks change its state \<open>'u\<close>. A snapshot closure is a value of
  \<open>'p\<close>; the reader or writer its \<open>start\<close> returns is identified with it, and what those
  calls answer are fields of the environment. The log manager and the closure queue, which the caller
  only points to, are fields of its state. What it makes others do is the list \<open>fc_out\<close>,
  oldest first: entries handed to the user (\<open>FcApply\<close>), the other callbacks, closures that
  run. \<open>FsmError\<close> is \<open>Error\<close>: a type and the code of its status (the text is left out).
\<close>

datatype error_type =
  ERROR_TYPE_NONE | ERROR_TYPE_LOG | ERROR_TYPE_STABLE | ERROR_TYPE_SNAPSHOT | ERROR_TYPE_STATE_MACHINE

datatype fsm_error = FsmError (fe_type: error_type) (fe_status: rc)

datatype sm_event =
  OnShutdown
| OnLeaderStart int
| OnLeaderStop status
| OnError fsm_error
| OnConfigurationCommitted conf int
| OnStartFollowing peer_id int status
| OnStopFollowing peer_id int status

datatype ('c, 'p) fsm_out =
  FcApply log_entry
| FcUser sm_event
| FcRun 'c rc
| FcRunInBthread 'c rc
| FcLm "(stable_done, nat) lm_event"
| FcNodeError fsm_error
| FcLeaseStart int
| FcSaveSnapshot 'p snapshot_meta
| FcSnapshotDone 'p rc
| FcNodeRelease
| FcAfterShutdown

type_synonym 's fsm_lm = "('s, stable_done, nat) log_manager"

subsection \<open>The iterator\<close>

record ('s, 'c, 'p) iterator =
  it_lm :: "'s fsm_lm"
  it_closure :: "'c option list"
  it_first_closure_index :: int
  it_cur_index :: int
  it_committed_index :: int
  it_cur_entry :: "log_entry option"
  it_applying_index :: int
  it_error :: fsm_error
  it_out :: "('c, 'p) fsm_out list"

definition it_has_error :: "('s, 'c, 'p) iterator \<Rightarrow> bool" where
  "it_has_error it \<longleftrightarrow> fe_type (it_error it) \<noteq> ERROR_TYPE_NONE"

definition it_is_good :: "('s, 'c, 'p) iterator \<Rightarrow> bool" where
  "it_is_good it \<longleftrightarrow> it_cur_index it \<le> it_committed_index it \<and> \<not> it_has_error it"

definition it_emit :: "('c, 'p) fsm_out list \<Rightarrow> ('s, 'c, 'p) iterator \<Rightarrow> ('s, 'c, 'p) iterator" where
  "it_emit evs it = it\<lparr>it_out := it_out it @ evs\<rparr>"

definition it_next :: "'s log_storage_ops \<Rightarrow> ('s, 'c, 'p) iterator \<Rightarrow> ('s, 'c, 'p) iterator" where
  "it_next S it0 =
     (let it = it0\<lparr>it_cur_entry := None\<rparr>
      in if it_cur_index it \<le> it_committed_index it
         then (let cur = it_cur_index it + 1; it1 = it\<lparr>it_cur_index := cur\<rparr>
               in if cur \<le> it_committed_index it1
                  then (case lm_get_entry S cur (it_lm it1) of
                          (e, lm, evs) \<Rightarrow>
                            (let it2 = it_emit (map FcLm evs)
                                         (it1\<lparr>it_lm := lm, it_cur_entry := e, it_applying_index := cur\<rparr>)
                             in if e = None then it2\<lparr>it_error := FsmError ERROR_TYPE_LOG RcFail\<rparr> else it2))
                  else it1)
         else it)"

definition it_new ::
  "'s log_storage_ops \<Rightarrow> 's fsm_lm \<Rightarrow> 'c option list \<Rightarrow> int \<Rightarrow> int \<Rightarrow> int \<Rightarrow> int \<Rightarrow> ('s, 'c, 'p) iterator" where
  "it_new S lm closure first_closure_index last_applied_index committed_index applying_index =
     it_next S \<lparr>it_lm = lm, it_closure = closure, it_first_closure_index = first_closure_index,
                it_cur_index = last_applied_index, it_committed_index = committed_index,
                it_cur_entry = None, it_applying_index = applying_index,
                it_error = FsmError ERROR_TYPE_NONE RcOk, it_out = []\<rparr>"

text \<open>
  \<open>closure_of\<close> is the vector read \<open>(*_closure)[i - _first_closure_index]\<close>. Past the end
  the code reads outside the vector and the model gives no closure; the invariant below excludes it.
\<close>

definition closure_of :: "int \<Rightarrow> ('s, 'c, 'p) iterator \<Rightarrow> 'c option" where
  "closure_of i it =
     (let k = nat (i - it_first_closure_index it)
      in if k < length (it_closure it) then it_closure it ! k else None)"

definition it_done :: "('s, 'c, 'p) iterator \<Rightarrow> 'c option" where
  "it_done it =
     (if it_cur_index it < it_first_closure_index it then None else closure_of (it_cur_index it) it)"

definition entry_is_data :: "log_entry option \<Rightarrow> bool" where
  "entry_is_data e \<longleftrightarrow> (case e of None \<Rightarrow> False | Some x \<Rightarrow> e_type x = ENTRY_TYPE_DATA)"

definition it_set_error_and_rollback :: "nat \<Rightarrow> ('s, 'c, 'p) iterator \<Rightarrow> ('s, 'c, 'p) iterator" where
  "it_set_error_and_rollback ntail it =
     (if ntail = 0 then it
      else it\<lparr>it_cur_index := (if entry_is_data (it_cur_entry it) then it_cur_index it - (int ntail - 1)
                               else it_cur_index it - int ntail),
              it_cur_entry := None,
              it_error := FsmError ERROR_TYPE_STATE_MACHINE (RcErr ESTATEMACHINE)\<rparr>)"

fun run_rest :: "rc \<Rightarrow> 'c option list \<Rightarrow> ('c, 'p) fsm_out list" where
  "run_rest st [] = []"
| "run_rest st (None # cs) = run_rest st cs"
| "run_rest st (Some c # cs) = FcRunInBthread c st # run_rest st cs"

definition it_run_the_rest_closure_with_error :: "('s, 'c, 'p) iterator \<Rightarrow> ('s, 'c, 'p) iterator" where
  "it_run_the_rest_closure_with_error it =
     it_emit (run_rest (fe_status (it_error it))
                (map (\<lambda>i. closure_of i it)
                   [max (it_cur_index it) (it_first_closure_index it) .. it_committed_index it])) it"

text \<open>\<open>Iterator\<close>, the class of raft.h the user sees, guards \<open>IteratorImpl\<close>.\<close>

definition iter_valid :: "('s, 'c, 'p) iterator \<Rightarrow> bool" where
  "iter_valid it \<longleftrightarrow> it_is_good it \<and> entry_is_data (it_cur_entry it)"

definition iter_next :: "'s log_storage_ops \<Rightarrow> ('s, 'c, 'p) iterator \<Rightarrow> ('s, 'c, 'p) iterator" where
  "iter_next S it = (if iter_valid it then it_next S it else it)"

subsection \<open>The user's state machine\<close>

text \<open>
  What the iterator shows: its index and, while it is valid, the entry (whose term and data the
  accessors return) and its closure. A program moves the iterator, runs the current closure, rolls
  back, or returns; being an inductive value it always returns.
\<close>

record 'c it_view =
  iv_index :: int
  iv_entry :: "log_entry option"
  iv_done :: "'c option"

definition it_view :: "('s, 'c, 'p) iterator \<Rightarrow> 'c it_view" where
  "it_view it =
     \<lparr>iv_index = it_cur_index it,
      iv_entry = (if iter_valid it then it_cur_entry it else None),
      iv_done = (if iter_valid it then it_done it else None)\<rparr>"

datatype ('c, 'u) sm_prog =
  SmReturn 'u
| SmNext "'c it_view \<Rightarrow> ('c, 'u) sm_prog"
| SmRunDone rc "('c, 'u) sm_prog"
| SmRollback nat "('c, 'u) sm_prog"

definition it_show :: "('s, 'c, 'p) iterator \<Rightarrow> ('s, 'c, 'p) iterator" where
  "it_show it = (case iv_entry (it_view it) of None \<Rightarrow> it | Some e \<Rightarrow> it_emit [FcApply e] it)"

primrec sm_exec ::
  "('c, 'u) sm_prog \<Rightarrow> 's log_storage_ops \<Rightarrow> ('s, 'c, 'p) iterator \<Rightarrow> 'u \<times> ('s, 'c, 'p) iterator" where
  "sm_exec (SmReturn u) S it = (u, it)"
| "sm_exec (SmNext k) S it =
     (let it' = it_show (iter_next S it) in sm_exec (k (it_view it')) S it')"
| "sm_exec (SmRunDone st k) S it =
     sm_exec k S (case iv_done (it_view it) of None \<Rightarrow> it | Some c \<Rightarrow> it_emit [FcRun c st] it)"
| "sm_exec (SmRollback ntail k) S it = sm_exec k S (it_set_error_and_rollback ntail it)"


record ('s, 'c, 'u, 'p) fsm_env =
  fe_store :: "'s log_storage_ops"
  fe_str2ip :: "string \<Rightarrow> 32 word option"
  fe_endpoint2str :: "endpoint \<Rightarrow> string"
  fe_commit_batch :: nat
  fe_on_apply :: "'u \<Rightarrow> 'c it_view \<Rightarrow> ('c, 'u) sm_prog"
  fe_on_event :: "sm_event \<Rightarrow> 'u \<Rightarrow> 'u"
  fe_on_snapshot_save :: "'p \<Rightarrow> 'u \<Rightarrow> 'u"
  fe_on_snapshot_load :: "'p \<Rightarrow> 'u \<Rightarrow> rc \<times> 'u"
  fe_save_start :: "'p \<Rightarrow> snapshot_meta \<Rightarrow> bool"
  fe_load_start :: "'p \<Rightarrow> bool"
  fe_load_meta :: "'p \<Rightarrow> rc \<times> snapshot_meta"

subsection \<open>The loop over the committed entries\<close>

text \<open>One round of the loop of \<open>do_committed\<close> on a good iterator standing on an entry.\<close>

definition apply_round ::
  "('s, 'c, 'u, 'p) fsm_env \<Rightarrow> log_entry \<Rightarrow> 'u \<Rightarrow> ('s, 'c, 'p) iterator \<Rightarrow> 'u \<times> ('s, 'c, 'p) iterator" where
  "apply_round E e u it =
     (if e_type e \<noteq> ENTRY_TYPE_DATA
      then (let ev = OnConfigurationCommitted (case e_peers e of None \<Rightarrow> [] | Some ps \<Rightarrow> conf_of_list ps) (e_index e);
                (u1, it1) = (if e_type e = ENTRY_TYPE_CONFIGURATION \<and> e_old_peers e = None
                             then (fe_on_event E ev u, it_emit [FcUser ev] it) else (u, it));
                it2 = (case it_done it1 of None \<Rightarrow> it1 | Some c \<Rightarrow> it_emit [FcRun c RcOk] it1)
            in (u1, it_next (fe_store E) it2))
      else (case sm_exec (fe_on_apply E u (it_view it)) (fe_store E) (it_show it) of
              (u1, it1) \<Rightarrow> (u1, iter_next (fe_store E) it1)))"

text \<open>Facts about single moves, which the termination of the loop rests on.\<close>

lemma it_fields_emit [simp]:
  "it_cur_index (it_emit evs it) = it_cur_index it" "it_committed_index (it_emit evs it) = it_committed_index it"
  "it_cur_entry (it_emit evs it) = it_cur_entry it" "it_error (it_emit evs it) = it_error it"
  "it_lm (it_emit evs it) = it_lm it" "it_closure (it_emit evs it) = it_closure it"
  "it_first_closure_index (it_emit evs it) = it_first_closure_index it"
  "it_applying_index (it_emit evs it) = it_applying_index it"
  "it_out (it_emit evs it) = it_out it @ evs"
  by (simp_all add: it_emit_def)

lemma it_emit_emit: "it_emit b (it_emit a it) = it_emit (a @ b) it" "it_emit [] it = it"
  by (simp_all add: it_emit_def)

lemma it_state_emit [simp]:
  "it_has_error (it_emit evs it) = it_has_error it" "it_is_good (it_emit evs it) = it_is_good it"
  "iter_valid (it_emit evs it) = iter_valid it" "it_done (it_emit evs it) = it_done it"
  "closure_of i (it_emit evs it) = closure_of i it" "it_view (it_emit evs it) = it_view it"
  by (simp_all add: it_has_error_def it_is_good_def iter_valid_def it_done_def closure_of_def it_view_def Let_def)

lemma it_show_alt: "it_show it = (if iter_valid it then it_emit [FcApply (the (it_cur_entry it))] it else it)"
  by (auto simp: it_show_def it_view_def iter_valid_def entry_is_data_def split: option.splits)

lemma it_next_index:
  "it_cur_index (it_next S it) = (if it_cur_index it \<le> it_committed_index it then it_cur_index it + 1 else it_cur_index it)"
  "it_committed_index (it_next S it) = it_committed_index it"
  by (simp_all add: it_next_def Let_def split: prod.splits)

lemma it_next_error: "it_has_error it \<Longrightarrow> it_has_error (it_next S it)"
  by (auto simp: it_next_def it_has_error_def Let_def split: prod.splits)

lemma iter_next_index:
  "iter_valid it \<Longrightarrow> it_cur_index (iter_next S it) = it_cur_index it + 1"
  "it_committed_index (iter_next S it) = it_committed_index it"
  by (auto simp: iter_next_def it_next_index iter_valid_def it_is_good_def)

text \<open>
  A program started on a valid iterator either sets an error, or stays where it is, or leaves the
  position for a later one.
\<close>

definition it_moved :: "int \<Rightarrow> ('s, 'c, 'p) iterator \<Rightarrow> bool" where
  "it_moved i it \<longleftrightarrow> it_has_error it \<or> i < it_cur_index it \<or> i = it_cur_index it \<and> iter_valid it"

lemma it_moved_next: "it_moved i it \<Longrightarrow> it_moved i (iter_next S it)"
  by (auto simp: it_moved_def iter_next_def it_next_index it_next_error iter_valid_def it_is_good_def)

lemma it_moved_emit [simp]: "it_moved i (it_emit evs it) = it_moved i it"
  by (simp add: it_moved_def)

lemma it_moved_show [simp]: "it_moved i (it_show it) = it_moved i it"
  by (simp add: it_show_alt)

lemma sm_exec_moved:
  "it_moved i it \<Longrightarrow> sm_exec p S it = (u, it') \<Longrightarrow>
     it_moved i it' \<and> it_committed_index it' = it_committed_index it"
proof (induction p arbitrary: it)
  case (SmNext k)
  define it1 where "it1 = it_show (iter_next S it)"
  have "it_moved i it1" "it_committed_index it1 = it_committed_index it"
    using SmNext.prems(1) by (simp_all add: it1_def it_moved_next) (simp add: it_show_alt iter_next_index)
  moreover have "sm_exec (k (it_view it1)) S it1 = (u, it')"
    using SmNext.prems(2) by (simp add: it1_def Let_def)
  ultimately show ?case using SmNext.IH [OF rangeI] by metis
next
  case (SmRollback n p)
  have "it_moved i (it_set_error_and_rollback n it)"
    using SmRollback.prems(1) by (simp add: it_set_error_and_rollback_def it_moved_def it_has_error_def)
  moreover have "it_committed_index (it_set_error_and_rollback n it) = it_committed_index it"
    by (simp add: it_set_error_and_rollback_def)
  ultimately show ?case using SmRollback.IH SmRollback.prems(2) by fastforce
next
  case (SmRunDone st p)
  let ?it = "case iv_done (it_view it) of None \<Rightarrow> it | Some c \<Rightarrow> it_emit [FcRun c st] it"
  have "it_moved i ?it" "it_committed_index ?it = it_committed_index it"
    using SmRunDone.prems(1) by (simp_all split: option.split)
  with SmRunDone.IH [of ?it] SmRunDone.prems(2) show ?case by simp
qed auto

definition apply_measure :: "('s, 'c, 'p) iterator \<Rightarrow> nat" where
  "apply_measure it = (if it_is_good it then Suc (nat (it_committed_index it - it_cur_index it)) else 0)"

lemma apply_round_decreases:
  assumes good: "it_is_good it" and e: "it_cur_entry it = Some e" and r: "apply_round E e u it = (u', it')"
  shows "apply_measure it' < apply_measure it"
proof (cases "e_type e = ENTRY_TYPE_DATA")
  case False
  with r obtain it2 where it': "it' = it_next (fe_store E) it2" and
    same: "it_cur_index it2 = it_cur_index it" "it_committed_index it2 = it_committed_index it"
    by (auto simp: apply_round_def Let_def split: option.splits if_splits)
  with good show ?thesis
    by (auto simp: apply_measure_def it_next_index it_is_good_def)
next
  case True
  with good e have v: "iter_valid it" by (simp add: iter_valid_def entry_is_data_def)
  from True r obtain it1 where x: "sm_exec (fe_on_apply E u (it_view it)) (fe_store E) (it_show it) = (u', it1)"
    and it': "it' = iter_next (fe_store E) it1"
    by (auto simp: apply_round_def split: prod.splits)
  have m: "it_moved (it_cur_index it) it1" "it_committed_index it1 = it_committed_index it"
    using sm_exec_moved [OF _ x, of "it_cur_index it"] v by (simp_all add: it_moved_def it_show_alt)
  show ?thesis
  proof (cases "iter_valid it1")
    case True
    then have "it_cur_index it1 \<le> it_committed_index it1" "\<not> it_has_error it1"
      by (simp_all add: iter_valid_def it_is_good_def)
    with m True good show ?thesis
      by (auto simp: apply_measure_def it' iter_next_index it_moved_def it_is_good_def)
  next
    case False
    with m good show ?thesis
      by (auto simp: apply_measure_def it' iter_next_def it_moved_def it_is_good_def)
  qed
qed

function apply_loop ::
  "('s, 'c, 'u, 'p) fsm_env \<Rightarrow> 'u \<Rightarrow> ('s, 'c, 'p) iterator \<Rightarrow> 'u \<times> ('s, 'c, 'p) iterator" where
  "apply_loop E u it =
     (if \<not> it_is_good it then (u, it)
      else case it_cur_entry it of
             None \<Rightarrow> (u, it)
           | Some e \<Rightarrow> (case apply_round E e u it of (u', it') \<Rightarrow> apply_loop E u' it'))"
  by pat_completeness auto
termination
  by (relation "measure (\<lambda>(E, u, it). apply_measure it)") (auto split: prod.splits intro: apply_round_decreases)

declare apply_loop.simps [simp del]

subsection \<open>The caller\<close>

datatype fsm_task =
  TASK_IDLE | TASK_COMMITTED | TASK_SNAPSHOT_SAVE | TASK_SNAPSHOT_LOAD | TASK_LEADER_STOP | TASK_LEADER_START
  | TASK_START_FOLLOWING | TASK_STOP_FOLLOWING | TASK_ERROR

text \<open>
  An \<open>ApplyTask\<close> is its type with what the union holds. No operation queues \<open>IDLE\<close>,
  whose case only fails a check. The execution queue is two lists, since urgent tasks overtake.
\<close>

datatype 'p apply_task =
  Committed int
| SnapshotSave 'p
| SnapshotLoad 'p
| LeaderStop status
| LeaderStart int int
| StartFollowing peer_id int status
| StopFollowing peer_id int status
| OnErrorTask fsm_error

record ('s, 'c, 'u, 'p) fsm_caller =
  fc_lm :: "'s fsm_lm"
  fc_queue :: "'c closure_queue"
  fc_user :: 'u
  fc_last_applied_index :: int
  fc_last_applied_term :: int
  fc_has_node :: bool
  fc_has_after_shutdown :: bool
  fc_cur_task :: fsm_task
  fc_applying_index :: int
  fc_error :: fsm_error
  fc_queue_started :: bool
  fc_queue_stopped :: bool
  fc_urgent :: "'p apply_task list"
  fc_tasks :: "'p apply_task list"
  fc_out :: "('c, 'p) fsm_out list"

definition fc_init ::
  "'s fsm_lm \<Rightarrow> 'c closure_queue \<Rightarrow> 'u \<Rightarrow> bool \<Rightarrow> bool \<Rightarrow> log_id \<Rightarrow> bool \<Rightarrow> rc \<times> ('s, 'c, 'u, 'p) fsm_caller" where
  "fc_init lm cq u node after_shutdown bootstrap_id queue_starts =
     (if queue_starts then RcOk else RcFail,
      \<lparr>fc_lm = lm, fc_queue = cq, fc_user = u, fc_last_applied_index = lid_index bootstrap_id,
       fc_last_applied_term = lid_term bootstrap_id, fc_has_node = node,
       fc_has_after_shutdown = after_shutdown, fc_cur_task = TASK_IDLE, fc_applying_index = 0,
       fc_error = FsmError ERROR_TYPE_NONE RcOk, fc_queue_started = queue_starts,
       fc_queue_stopped = False, fc_urgent = [], fc_tasks = [], fc_out = []\<rparr>)"

definition fc_emit :: "('c, 'p) fsm_out list \<Rightarrow> ('s, 'c, 'u, 'p) fsm_caller \<Rightarrow> ('s, 'c, 'u, 'p) fsm_caller" where
  "fc_emit evs fc = fc\<lparr>fc_out := fc_out fc @ evs\<rparr>"

text \<open>A callback of the state machine other than \<open>on_apply\<close>.\<close>

definition fc_notify ::
  "('s, 'c, 'u, 'p) fsm_env \<Rightarrow> sm_event \<Rightarrow> ('s, 'c, 'u, 'p) fsm_caller \<Rightarrow> ('s, 'c, 'u, 'p) fsm_caller" where
  "fc_notify E ev fc = fc_emit [FcUser ev] (fc\<lparr>fc_user := fe_on_event E ev (fc_user fc)\<rparr>)"

definition fc_ok :: "('s, 'c, 'u, 'p) fsm_caller \<Rightarrow> bool" where
  "fc_ok fc \<longleftrightarrow> fe_status (fc_error fc) = RcOk"

definition fc_set_error ::
  "('s, 'c, 'u, 'p) fsm_env \<Rightarrow> fsm_error \<Rightarrow> ('s, 'c, 'u, 'p) fsm_caller \<Rightarrow> ('s, 'c, 'u, 'p) fsm_caller" where
  "fc_set_error E e fc =
     (if fe_type (fc_error fc) \<noteq> ERROR_TYPE_NONE then fc
      else (let fc1 = fc_notify E (OnError e) (fc\<lparr>fc_error := e\<rparr>)
            in if fc_has_node fc1 then fc_emit [FcNodeError e] fc1 else fc1))"

definition fc_do_committed ::
  "('s, 'c, 'u, 'p) fsm_env \<Rightarrow> int \<Rightarrow> ('s, 'c, 'u, 'p) fsm_caller \<Rightarrow> ('s, 'c, 'u, 'p) fsm_caller" where
  "fc_do_committed E committed_index fc =
     (if \<not> fc_ok fc then fc
      else (let last_applied_index = fc_last_applied_index fc
            in if last_applied_index \<ge> committed_index then fc
      else case cq_pop_closure_until committed_index (fc_queue fc) of
             (_, closure, first, q) \<Rightarrow>
        (let it0 = it_new (fe_store E) (fc_lm fc) closure (case first of None \<Rightarrow> 0 | Some f \<Rightarrow> f)
                     last_applied_index committed_index (fc_applying_index fc);
             (u, it) = apply_loop E (fc_user fc) it0;
             fc1 = fc_emit (it_out it) (fc\<lparr>fc_queue := q, fc_lm := it_lm it, fc_user := u,
                                          fc_applying_index := it_applying_index it\<rparr>);
             fc2 = (if it_has_error it
                    then fc_emit (it_out (it_run_the_rest_closure_with_error (it\<lparr>it_out := []\<rparr>)))
                           (fc_set_error E (it_error it) fc1)
                    else fc1);
             last_index = it_cur_index it - 1;
             last_term = lm_get_term (fe_store E) last_index (fc_lm fc2)
         in fc2\<lparr>fc_last_applied_index := committed_index, fc_last_applied_term := last_term,
                fc_lm := lm_set_applied_id (LogId last_index last_term) (fc_lm fc2)\<rparr>)))"

definition fc_pass_by_status ::
  "'p \<Rightarrow> ('s, 'c, 'u, 'p) fsm_caller \<Rightarrow> bool \<times> ('s, 'c, 'u, 'p) fsm_caller" where
  "fc_pass_by_status d fc =
     (if \<not> fc_ok fc then (False, fc_emit [FcSnapshotDone d (RcErr EINVAL)] fc) else (True, fc))"

text \<open>What \<open>do_snapshot_save\<close> writes in the meta, then the call.\<close>

definition fc_snapshot_meta ::
  "('s, 'c, 'u, 'p) fsm_env \<Rightarrow> ('s, 'c, 'u, 'p) fsm_caller \<Rightarrow> snapshot_meta" where
  "fc_snapshot_meta E fc =
     (let conf_entry = lm_get_configuration (fc_last_applied_index fc) (fc_lm fc)
      in \<lparr>sm_last_included_index = fc_last_applied_index fc,
          sm_last_included_term = fc_last_applied_term fc,
          sm_peers = map (peer_to_string (fe_endpoint2str E)) (ce_conf conf_entry),
          sm_old_peers = map (peer_to_string (fe_endpoint2str E)) (ce_old_conf conf_entry)\<rparr>)"

definition fc_do_snapshot_save ::
  "('s, 'c, 'u, 'p) fsm_env \<Rightarrow> 'p \<Rightarrow> ('s, 'c, 'u, 'p) fsm_caller \<Rightarrow> ('s, 'c, 'u, 'p) fsm_caller" where
  "fc_do_snapshot_save E d fc =
     (let meta = fc_snapshot_meta E fc
      in if \<not> fe_save_start E d meta then fc_emit [FcSnapshotDone d (RcErr EINVAL)] fc
         else fc_emit [FcSaveSnapshot d meta] (fc\<lparr>fc_user := fe_on_snapshot_save E d (fc_user fc)\<rparr>))"

definition fc_do_snapshot_load ::
  "('s, 'c, 'u, 'p) fsm_env \<Rightarrow> 'p \<Rightarrow> ('s, 'c, 'u, 'p) fsm_caller \<Rightarrow> ('s, 'c, 'u, 'p) fsm_caller" where
  "fc_do_snapshot_load E d fc =
     (if \<not> fe_load_start E d then fc_emit [FcSnapshotDone d (RcErr EINVAL)] fc
      else case fe_load_meta E d of (ret, meta) \<Rightarrow>
        if ret \<noteq> RcOk
        then (let fc1 = fc_emit [FcSnapshotDone d ret] fc
              in if ret = RcErr EIO then fc_set_error E (FsmError ERROR_TYPE_SNAPSHOT ret) fc1 else fc1)
        else if LogId (fc_last_applied_index fc) (fc_last_applied_term fc)
                > LogId (sm_last_included_index meta) (sm_last_included_term meta)
        then fc_emit [FcSnapshotDone d (RcErr ESTALE)] fc
        else case fe_on_snapshot_load E d (fc_user fc) of (ret, u) \<Rightarrow>
          (let fc1 = fc\<lparr>fc_user := u\<rparr>
           in if ret \<noteq> RcOk
              then fc_set_error E (FsmError ERROR_TYPE_STATE_MACHINE ret) (fc_emit [FcSnapshotDone d ret] fc1)
              else (let fc2 = (if sm_old_peers meta = []
                               then fc_notify E (OnConfigurationCommitted (conf_of_strings (fe_str2ip E) (sm_peers meta))
                                                   (sm_last_included_index meta)) fc1
                               else fc1)
                    in fc_emit [FcSnapshotDone d RcOk]
                         (fc2\<lparr>fc_last_applied_index := sm_last_included_index meta,
                              fc_last_applied_term := sm_last_included_term meta\<rparr>))))"

definition fc_do_leader_stop where
  "fc_do_leader_stop E st fc = fc_notify E (OnLeaderStop st) fc"

definition fc_do_leader_start ::
  "('s, 'c, 'u, 'p) fsm_env \<Rightarrow> int \<Rightarrow> int \<Rightarrow> ('s, 'c, 'u, 'p) fsm_caller \<Rightarrow> ('s, 'c, 'u, 'p) fsm_caller" where
  "fc_do_leader_start E term lease_epoch fc =
     fc_notify E (OnLeaderStart term) (fc_emit [FcLeaseStart lease_epoch] fc)"

definition fc_do_start_following where
  "fc_do_start_following E p t st fc = fc_notify E (OnStartFollowing p t st) fc"

definition fc_do_stop_following where
  "fc_do_stop_following E p t st fc = fc_notify E (OnStopFollowing p t st) fc"

definition fc_do_on_error where
  "fc_do_on_error E e fc = fc_set_error E e fc"

definition fc_do_shutdown ::
  "('s, 'c, 'u, 'p) fsm_env \<Rightarrow> ('s, 'c, 'u, 'p) fsm_caller \<Rightarrow> ('s, 'c, 'u, 'p) fsm_caller" where
  "fc_do_shutdown E fc =
     (let fc1 = (if fc_has_node fc then fc_emit [FcNodeRelease] (fc\<lparr>fc_has_node := False\<rparr>) else fc);
          fc2 = fc_notify E OnShutdown fc1
      in if fc_has_after_shutdown fc2
         then fc_emit [FcAfterShutdown] (fc2\<lparr>fc_has_after_shutdown := False\<rparr>) else fc2)"

subsection \<open>Tasks\<close>

definition fc_execute ::
  "'p apply_task \<Rightarrow> ('s, 'c, 'u, 'p) fsm_caller \<Rightarrow> rc \<times> ('s, 'c, 'u, 'p) fsm_caller" where
  "fc_execute t fc = (if fc_queue_stopped fc then (RcErr EINVAL, fc) else (RcOk, fc\<lparr>fc_tasks := fc_tasks fc @ [t]\<rparr>))"

definition fc_on_committed where "fc_on_committed i fc = fc_execute (Committed i) fc"
definition fc_on_snapshot_save where "fc_on_snapshot_save d fc = fc_execute (SnapshotSave d) fc"
definition fc_on_snapshot_load where "fc_on_snapshot_load d fc = fc_execute (SnapshotLoad d) fc"

definition fc_fail :: "rc \<times> 'a \<Rightarrow> rc \<times> 'a" where
  "fc_fail r = (if fst r \<noteq> RcOk then (RcFail, snd r) else r)"

definition fc_on_leader_stop where "fc_on_leader_stop st fc = fc_fail (fc_execute (LeaderStop st) fc)"
definition fc_on_leader_start where "fc_on_leader_start t l fc = fc_fail (fc_execute (LeaderStart t l) fc)"
definition fc_on_start_following where
  "fc_on_start_following p t st fc = fc_fail (fc_execute (StartFollowing p t st) fc)"
definition fc_on_stop_following where
  "fc_on_stop_following p t st fc = fc_fail (fc_execute (StopFollowing p t st) fc)"

definition fc_on_error ::
  "fsm_error \<Rightarrow> ('s, 'c, 'u, 'p) fsm_caller \<Rightarrow> rc \<times> ('s, 'c, 'u, 'p) fsm_caller" where
  "fc_on_error e fc =
     (if fc_queue_stopped fc then (RcFail, fc) else (RcOk, fc\<lparr>fc_urgent := fc_urgent fc @ [OnErrorTask e]\<rparr>))"

definition fc_shutdown :: "('s, 'c, 'u, 'p) fsm_caller \<Rightarrow> rc \<times> ('s, 'c, 'u, 'p) fsm_caller" where
  "fc_shutdown fc = (RcOk, if fc_queue_started fc then fc\<lparr>fc_queue_stopped := True\<rparr> else fc)"

definition fc_join :: "('s, 'c, 'u, 'p) fsm_caller \<Rightarrow> ('s, 'c, 'u, 'p) fsm_caller" where
  "fc_join fc = (if fc_queue_started fc then fc\<lparr>fc_queue_started := False\<rparr> else fc)"

text \<open>\<open>run\<close>: the commits of a batch are gathered and applied once, up to their largest index.\<close>

fun fc_task_type :: "'p apply_task \<Rightarrow> fsm_task" where
  "fc_task_type (Committed i) = TASK_COMMITTED"
| "fc_task_type (SnapshotSave d) = TASK_SNAPSHOT_SAVE"
| "fc_task_type (SnapshotLoad d) = TASK_SNAPSHOT_LOAD"
| "fc_task_type (LeaderStop st) = TASK_LEADER_STOP"
| "fc_task_type (LeaderStart t l) = TASK_LEADER_START"
| "fc_task_type (StartFollowing p t st) = TASK_START_FOLLOWING"
| "fc_task_type (StopFollowing p t st) = TASK_STOP_FOLLOWING"
| "fc_task_type (OnErrorTask e) = TASK_ERROR"

fun fc_other_task ::
  "('s, 'c, 'u, 'p) fsm_env \<Rightarrow> 'p apply_task \<Rightarrow> ('s, 'c, 'u, 'p) fsm_caller \<Rightarrow> ('s, 'c, 'u, 'p) fsm_caller" where
  "fc_other_task E (Committed i) fc = fc"
| "fc_other_task E (SnapshotSave d) fc =
     (case fc_pass_by_status d (fc\<lparr>fc_cur_task := TASK_SNAPSHOT_SAVE\<rparr>) of
        (ok, fc1) \<Rightarrow> if ok then fc_do_snapshot_save E d fc1 else fc1)"
| "fc_other_task E (SnapshotLoad d) fc =
     (case fc_pass_by_status d (fc\<lparr>fc_cur_task := TASK_SNAPSHOT_LOAD\<rparr>) of
        (ok, fc1) \<Rightarrow> if ok then fc_do_snapshot_load E d fc1 else fc1)"
| "fc_other_task E (LeaderStop st) fc = fc_do_leader_stop E st (fc\<lparr>fc_cur_task := TASK_LEADER_STOP\<rparr>)"
| "fc_other_task E (LeaderStart t l) fc = fc_do_leader_start E t l fc"
| "fc_other_task E (StartFollowing p t st) fc =
     fc_do_start_following E p t st (fc\<lparr>fc_cur_task := TASK_START_FOLLOWING\<rparr>)"
| "fc_other_task E (StopFollowing p t st) fc =
     fc_do_stop_following E p t st (fc\<lparr>fc_cur_task := TASK_STOP_FOLLOWING\<rparr>)"
| "fc_other_task E (OnErrorTask e) fc = fc_do_on_error E e (fc\<lparr>fc_cur_task := TASK_ERROR\<rparr>)"

definition fc_flush ::
  "('s, 'c, 'u, 'p) fsm_env \<Rightarrow> int \<Rightarrow> ('s, 'c, 'u, 'p) fsm_caller \<Rightarrow> ('s, 'c, 'u, 'p) fsm_caller" where
  "fc_flush E max_committed_index fc =
     (if max_committed_index \<ge> 0
      then fc_do_committed E max_committed_index (fc\<lparr>fc_cur_task := TASK_COMMITTED\<rparr>) else fc)"

fun fc_run_loop ::
  "('s, 'c, 'u, 'p) fsm_env \<Rightarrow> 'p apply_task list \<Rightarrow> int \<Rightarrow> nat \<Rightarrow> ('s, 'c, 'u, 'p) fsm_caller
   \<Rightarrow> ('s, 'c, 'u, 'p) fsm_caller" where
  "fc_run_loop E [] mx counter fc = fc_flush E mx fc"
| "fc_run_loop E (Committed i # ts) mx counter fc =
     (if counter < fe_commit_batch E
      then (if i > mx then fc_run_loop E ts i (counter + 1) fc else fc_run_loop E ts mx counter fc)
      else (let fc1 = fc_flush E mx fc; mx1 = (if mx \<ge> 0 then -1 else mx); c1 = (if mx \<ge> 0 then 0 else counter)
            in if i > mx1 then fc_run_loop E ts i (c1 + 1) fc1 else fc_run_loop E ts mx1 c1 fc1))"
| "fc_run_loop E (t # ts) mx counter fc =
     (let fc1 = fc_flush E mx fc; mx1 = (if mx \<ge> 0 then -1 else mx); c1 = (if mx \<ge> 0 then 0 else counter)
      in fc_run_loop E ts mx1 c1 (fc_other_task E t fc1))"

definition fc_run ::
  "('s, 'c, 'u, 'p) fsm_env \<Rightarrow> 'p apply_task list \<Rightarrow> ('s, 'c, 'u, 'p) fsm_caller \<Rightarrow> ('s, 'c, 'u, 'p) fsm_caller" where
  "fc_run E ts fc = (fc_run_loop E ts (-1) 0 fc)\<lparr>fc_cur_task := TASK_IDLE\<rparr>"

text \<open>
  The queue's thread takes a batch, the urgent tasks first; once the queue is stopped and empty its
  last call to \<open>run\<close> shuts the caller down.
\<close>

definition fc_step ::
  "('s, 'c, 'u, 'p) fsm_env \<Rightarrow> nat \<Rightarrow> ('s, 'c, 'u, 'p) fsm_caller \<Rightarrow> ('s, 'c, 'u, 'p) fsm_caller" where
  "fc_step E n fc =
     (if fc_urgent fc = [] \<and> fc_tasks fc = []
      then (if fc_queue_stopped fc then fc_do_shutdown E fc else fc)
      else fc_run E (fc_urgent fc @ take n (fc_tasks fc))
             (fc\<lparr>fc_urgent := [], fc_tasks := drop n (fc_tasks fc)\<rparr>))"

definition fc_applying :: "('s, 'c, 'u, 'p) fsm_caller \<Rightarrow> int" where
  "fc_applying fc = (if fc_cur_task fc \<noteq> TASK_COMMITTED then 0 else fc_applying_index fc)"

definition fc_describe :: "bool \<Rightarrow> ('s, 'c, 'u, 'p) fsm_caller \<Rightarrow> string" where
  "fc_describe use_html fc =
     ''state_machine: '' @
     (case fc_cur_task fc of
        TASK_IDLE \<Rightarrow> ''Idle''
      | TASK_COMMITTED \<Rightarrow> ''Applying log_index='' @ show_int (fc_applying_index fc)
      | TASK_SNAPSHOT_SAVE \<Rightarrow> ''Saving snapshot''
      | TASK_SNAPSHOT_LOAD \<Rightarrow> ''Loading snapshot''
      | TASK_ERROR \<Rightarrow> ''Notifying error''
      | TASK_LEADER_STOP \<Rightarrow> ''Notifying leader stop''
      | TASK_LEADER_START \<Rightarrow> ''Notifying leader start''
      | TASK_START_FOLLOWING \<Rightarrow> ''Notifying start following''
      | TASK_STOP_FOLLOWING \<Rightarrow> ''Notifying stop following'') @
     (if use_html then ''<br>'' else [CHR 0x0A])"

end
