(* ===== verification/FsmSafety.thy ===== *)
theory FsmSafety
  imports FsmCaller LogManagerRefine
begin

section \<open>The FSM caller hands every committed entry over once, in order\<close>

text \<open>
  \<open>fsm_handed\<close> keeps, of what the caller did, the entries given to the user and the stable
  configurations reported, \<open>fsm_ran\<close> the closures that ran; \<open>handed_range l i j\<close> is what the
  entries \<open>i\<close> to \<open>j\<close> of the log \<open>l\<close> give the user. The lemmas follow the iterator
  through \<open>do_committed\<close>, for any state machine.
\<close>

fun is_handed :: "('c, 'p) fsm_out \<Rightarrow> bool" where
  "is_handed (FcApply e) = True"
| "is_handed (FcUser (OnConfigurationCommitted c i)) = True"
| "is_handed _ = False"

definition fsm_handed :: "('c, 'p) fsm_out list \<Rightarrow> ('c, 'p) fsm_out list" where
  "fsm_handed evs = filter is_handed evs"

fun fsm_ran :: "('c, 'p) fsm_out list \<Rightarrow> 'c list" where
  "fsm_ran [] = []"
| "fsm_ran (FcRun c st # evs) = c # fsm_ran evs"
| "fsm_ran (FcRunInBthread c st # evs) = c # fsm_ran evs"
| "fsm_ran (_ # evs) = fsm_ran evs"

definition entry_conf :: "log_entry \<Rightarrow> conf" where
  "entry_conf e = (case e_peers e of None \<Rightarrow> [] | Some ps \<Rightarrow> conf_of_list ps)"

definition handed_of :: "log_entry \<Rightarrow> ('c, 'p) fsm_out list" where
  "handed_of e =
     (if e_type e = ENTRY_TYPE_DATA then [FcApply e]
      else if e_type e = ENTRY_TYPE_CONFIGURATION \<and> e_old_peers e = None
      then [FcUser (OnConfigurationCommitted (entry_conf e) (e_index e))] else [])"

definition handed_range :: "alog \<Rightarrow> int \<Rightarrow> int \<Rightarrow> ('c, 'p) fsm_out list" where
  "handed_range l i j = concat (map (\<lambda>k. handed_of (the (alog_get l k))) [i..j])"

lemma fsm_handed_simps [simp]:
  "fsm_handed [] = []" "fsm_handed (a @ b) = fsm_handed a @ fsm_handed b"
  "fsm_handed (ev # b) = (if is_handed ev then [ev] else []) @ fsm_handed b"
  by (simp_all add: fsm_handed_def)

lemma fsm_ran_append [simp]: "fsm_ran (a @ b) = fsm_ran a @ fsm_ran b"
  by (induction a rule: fsm_ran.induct) simp_all

lemma handed_range_empty [simp]: "j < i \<Longrightarrow> handed_range l i j = []"
  by (simp add: handed_range_def)

lemma handed_range_Suc:
  "i \<le> j \<Longrightarrow> handed_range l i j = handed_range l i (j - 1) @ handed_of (the (alog_get l j))"
  by (simp add: handed_range_def upto_rec2)

lemma handed_range_append:
  "i \<le> j + 1 \<Longrightarrow> j \<le> k \<Longrightarrow> handed_range l i k = handed_range l i j @ handed_range l (j + 1) k"
  by (cases "i = j + 1") (simp_all add: handed_range_def upto_split2 [of i j k])

subsection \<open>The iterator over a readable range\<close>

definition reads :: "'s log_storage_ops \<Rightarrow> 's fsm_lm \<Rightarrow> alog \<Rightarrow> bool" where
  "reads S lm l \<longleftrightarrow> (\<forall>i. lm_get_entry S i lm = (alog_get l i, lm, []))"

text \<open>
  \<open>it_ok\<close>: without an error the iterator stands on an entry of the range or right behind it; what
  it holds is what the log has there.
\<close>

definition it_ok :: "'s fsm_lm \<Rightarrow> alog \<Rightarrow> int \<Rightarrow> int \<Rightarrow> ('s, 'c, 'p) iterator \<Rightarrow> bool" where
  "it_ok lm l a c it \<longleftrightarrow>
     it_lm it = lm \<and> it_committed_index it = c
     \<and> (\<not> it_has_error it \<longrightarrow>
          a < it_cur_index it \<and> it_cur_index it \<le> c + 1
          \<and> it_cur_entry it = (if it_cur_index it \<le> c then alog_get l (it_cur_index it) else None))"

definition in_log :: "alog \<Rightarrow> int \<Rightarrow> int \<Rightarrow> bool" where
  "in_log l a c \<longleftrightarrow> fst l \<le> a + 1 \<and> c \<le> alog_last l"

lemma in_log_get: "in_log l a c \<Longrightarrow> a < i \<Longrightarrow> i \<le> c \<Longrightarrow> alog_get l i \<noteq> None"
  by (simp add: in_log_def alog_get_def)

lemma it_next_ok:
  assumes rd: "reads S lm l" and log: "in_log l a c" and ok: "it_ok lm l a c it"
    and good: "it_is_good it"
  shows "it_next S it = it\<lparr>it_cur_index := it_cur_index it + 1,
      it_cur_entry := (if it_cur_index it + 1 \<le> c then alog_get l (it_cur_index it + 1) else None),
      it_applying_index := (if it_cur_index it + 1 \<le> c then it_cur_index it + 1 else it_applying_index it)\<rparr>"
proof -
  have "alog_get l (it_cur_index it + 1) \<noteq> None" if "it_cur_index it + 1 \<le> c"
    using in_log_get [OF log, of "it_cur_index it + 1"] ok good that by (auto simp: it_ok_def it_is_good_def)
  moreover have "it_cur_index it \<le> c" "it_committed_index it = c" "it_lm it = lm"
    using ok good by (auto simp: it_ok_def it_is_good_def)
  moreover have "lm_get_entry S (it_cur_index it + 1) lm = (alog_get l (it_cur_index it + 1), lm, [])"
    using rd by (simp add: reads_def)
  ultimately show ?thesis by (auto simp: it_next_def it_emit_def Let_def)
qed

lemma it_ok_next:
  assumes "reads S lm l" and "in_log l a c" and "it_ok lm l a c it" and "it_is_good it"
  shows "it_ok lm l a c (it_next S it)" and "it_has_error (it_next S it) = it_has_error it"
    and "it_out (it_next S it) = it_out it" and "it_cur_index (it_next S it) = it_cur_index it + 1"
  using assms(3,4) by (auto simp: it_next_ok [OF assms] it_ok_def it_has_error_def it_is_good_def)

lemma it_ok_emit [simp]: "it_ok lm l a c (it_emit evs it) = it_ok lm l a c it"
  by (simp add: it_ok_def)

lemma it_ok_rollback: "it_ok lm l a c it \<Longrightarrow> it_ok lm l a c (it_set_error_and_rollback n it)"
  by (simp add: it_set_error_and_rollback_def it_ok_def it_has_error_def)

text \<open>
  \<open>seen shown\<close>: what was handed over up to the current position, the entry there included
  when it is valid and \<open>shown\<close>.
\<close>

definition seen :: "alog \<Rightarrow> int \<Rightarrow> int \<Rightarrow> bool \<Rightarrow> ('s, 'c, 'p) iterator \<Rightarrow> bool" where
  "seen l a c shown it \<longleftrightarrow>
     (if it_has_error it then \<exists>m. a \<le> m \<and> m \<le> c \<and> fsm_handed (it_out it) = handed_range l (a + 1) m
      else fsm_handed (it_out it)
           = handed_range l (a + 1) (if shown \<and> iter_valid it then it_cur_index it else it_cur_index it - 1))"

lemma iter_valid_entry:
  assumes "it_ok lm l a c it" and "iter_valid it"
  shows "\<exists>e. alog_get l (it_cur_index it) = Some e \<and> it_cur_entry it = Some e \<and> e_type e = ENTRY_TYPE_DATA
     \<and> a < it_cur_index it \<and> it_cur_index it \<le> c \<and> \<not> it_has_error it"
  using assms by (auto simp: it_ok_def iter_valid_def it_is_good_def entry_is_data_def split: option.splits)

lemma seen_show:
  assumes ok: "it_ok lm l a c it" and s: "seen l a c False it"
  shows "seen l a c True (it_show it)"
proof (cases "iter_valid it")
  case True
  with iter_valid_entry [OF ok] obtain e where
    "alog_get l (it_cur_index it) = Some e" "it_cur_entry it = Some e" "e_type e = ENTRY_TYPE_DATA"
    "a < it_cur_index it" "\<not> it_has_error it" by blast
  then show ?thesis
    using s True
    by (simp add: seen_def it_show_alt handed_of_def handed_range_Suc [of "a + 1" "it_cur_index it" l])
next
  case False
  with s show ?thesis by (simp add: seen_def it_show_alt)
qed

lemma seen_iter_next:
  assumes rd: "reads S lm l" "in_log l a c" and ok: "it_ok lm l a c it" and s: "seen l a c True it"
  shows "it_ok lm l a c (iter_next S it) \<and> seen l a c False (iter_next S it)"
proof (cases "iter_valid it")
  case True
  then have "it_is_good it" by (simp add: iter_valid_def)
  note n = it_ok_next [OF rd ok this]
  from True iter_valid_entry [OF ok True] s show ?thesis
    by (auto simp: iter_next_def n seen_def)
next
  case False
  with ok s show ?thesis by (auto simp: iter_next_def seen_def)
qed

lemma sm_exec_seen:
  assumes rd: "reads S lm l" "in_log l a c"
  shows "it_ok lm l a c it \<Longrightarrow> seen l a c True it \<Longrightarrow> sm_exec p S it = (u, it') \<Longrightarrow>
     it_ok lm l a c it' \<and> seen l a c True it'"
proof (induction p arbitrary: it)
  case (SmNext k)
  define it1 where "it1 = it_show (iter_next S it)"
  from seen_iter_next [OF rd SmNext.prems(1,2)]
  have n: "it_ok lm l a c (iter_next S it)" "seen l a c False (iter_next S it)" by simp_all
  from seen_show [OF n] n(1) have "it_ok lm l a c it1" "seen l a c True it1"
    by (simp_all add: it1_def) (simp add: it_show_alt)
  moreover have "sm_exec (k (it_view it1)) S it1 = (u, it')"
    using SmNext.prems(3) by (simp add: it1_def Let_def)
  ultimately show ?case using SmNext.IH [OF rangeI] by blast
next
  case (SmRollback n p)
  have m: "\<exists>m. a \<le> m \<and> m \<le> c \<and> fsm_handed (it_out it) = handed_range l (a + 1) m"
  proof (cases "it_has_error it")
    case True
    with SmRollback.prems(2) show ?thesis by (simp add: seen_def)
  next
    case False
    let ?m = "if iter_valid it then it_cur_index it else it_cur_index it - 1"
    have "a \<le> ?m" "?m \<le> c"
      using SmRollback.prems(1) False iter_valid_entry [OF SmRollback.prems(1)] by (auto simp: it_ok_def)
    with SmRollback.prems(2) False show ?thesis by (auto simp: seen_def)
  qed
  show ?case
  proof (cases "n = 0")
    case True
    with SmRollback show ?thesis by (simp add: it_set_error_and_rollback_def)
  next
    case False
    then have "seen l a c True (it_set_error_and_rollback n it)"
      using m by (simp add: seen_def it_set_error_and_rollback_def it_has_error_def)
    with SmRollback.IH [OF it_ok_rollback [OF SmRollback.prems(1)]] SmRollback.prems(3) show ?thesis by simp
  qed
next
  case (SmRunDone st p)
  let ?it = "case iv_done (it_view it) of None \<Rightarrow> it | Some c \<Rightarrow> it_emit [FcRun c st] it"
  have "it_ok lm l a c ?it" "seen l a c True ?it"
    using SmRunDone.prems(1,2) by (simp_all add: seen_def split: option.split)
  with SmRunDone.IH [of ?it] SmRunDone.prems(3) show ?case by simp
qed auto

lemma apply_round_seen:
  assumes rd: "reads (fe_store E) lm l" "in_log l a c" and ok: "it_ok lm l a c it" and s: "seen l a c False it"
    and good: "it_is_good it" and e: "it_cur_entry it = Some e" and r: "apply_round E e u it = (u', it')"
  shows "it_ok lm l a c it' \<and> seen l a c False it'"
proof (cases "e_type e = ENTRY_TYPE_DATA")
  case True
  then obtain it1 where x: "sm_exec (fe_on_apply E u (it_view it)) (fe_store E) (it_show it) = (u', it1)"
    and it': "it' = iter_next (fe_store E) it1"
    using r by (auto simp: apply_round_def split: prod.splits)
  have "it_ok lm l a c (it_show it)" using ok by (simp add: it_show_alt)
  from sm_exec_seen [OF rd this seen_show [OF ok s] x]
  have "it_ok lm l a c it1" "seen l a c True it1" by simp_all
  from seen_iter_next [OF rd this] show ?thesis by (simp add: it')
next
  case False
  from ok good e have i: "alog_get l (it_cur_index it) = Some e" "a < it_cur_index it" "\<not> it_has_error it"
    by (auto simp: it_ok_def it_is_good_def)
  define it2 where "it2 = it_emit (handed_of e @ (case it_done it of None \<Rightarrow> [] | Some d \<Rightarrow> [FcRun d RcOk])) it"
  have it': "it' = it_next (fe_store E) it2"
    using r False by (auto simp: apply_round_def it2_def it_emit_emit handed_of_def entry_conf_def Let_def
        split: if_splits option.splits)
  have ok2: "it_ok lm l a c it2" and good2: "it_is_good it2" using ok good by (simp_all add: it2_def)
  have "fsm_handed (it_out it2) = handed_range l (a + 1) (it_cur_index it)"
    using s i False
    by (auto simp: it2_def seen_def handed_of_def handed_range_Suc [of "a + 1" "it_cur_index it" l] split: option.splits)
  then show ?thesis
    using it_ok_next [OF rd ok2 good2] i by (simp add: it' seen_def) (simp add: it2_def)
qed

lemma apply_loop_seen:
  assumes rd: "reads (fe_store E) lm l" "in_log l a c"
  shows "it_ok lm l a c it \<Longrightarrow> seen l a c False it \<Longrightarrow> apply_loop E u it = (u', it') \<Longrightarrow>
     it_ok lm l a c it' \<and> seen l a c False it' \<and> \<not> it_is_good it'"
  using rd
proof (induction E u it rule: apply_loop.induct)
  case (1 E u it)
  show ?case
  proof (cases "it_is_good it")
    case False
    with 1 show ?thesis by (simp add: apply_loop.simps)
  next
    case True
    with "1.prems" in_log_get [of l a c "it_cur_index it"] obtain e where e: "it_cur_entry it = Some e"
      by (auto simp: it_ok_def it_is_good_def)
    obtain u1 it1 where r: "apply_round E e u it = (u1, it1)" by force
    have n: "it_ok lm l a c it1 \<and> seen l a c False it1"
      using "1.prems" True e r by (intro apply_round_seen [of E lm l a c it e u]) auto
    have "apply_loop E u1 it1 = (u', it')"
      using "1.prems"(3) True e r by (subst (asm) apply_loop.simps) simp
    with "1.IH" [of e u1 it1] True e r n "1.prems"(4,5) show ?thesis by simp
  qed
qed

lemma it_new_ok:
  assumes "reads S lm l" and "in_log l a c" and "a < c"
  shows "it_ok lm l a c (it_new S lm cl f a c ai)" and "seen l a c False (it_new S lm cl f a c ai)"
    and "it_has_error (it_new S lm cl f a c ai) = False"
    and "it_closure (it_new S lm cl f a c ai) = cl" "it_first_closure_index (it_new S lm cl f a c ai) = f"
    and "it_cur_index (it_new S lm cl f a c ai) = a + 1" and "it_out (it_new S lm cl f a c ai) = []"
proof -
  have g: "lm_get_entry S (a + 1) lm = (alog_get l (a + 1), lm, [])"
    using assms(1) by (simp add: reads_def)
  have "alog_get l (a + 1) \<noteq> None" using in_log_get [OF assms(2), of "a + 1"] assms(3) by simp
  then show "it_ok lm l a c (it_new S lm cl f a c ai)" and "seen l a c False (it_new S lm cl f a c ai)"
    and "it_has_error (it_new S lm cl f a c ai) = False"
    and "it_closure (it_new S lm cl f a c ai) = cl" "it_first_closure_index (it_new S lm cl f a c ai) = f"
    and "it_cur_index (it_new S lm cl f a c ai) = a + 1" and "it_out (it_new S lm cl f a c ai) = []"
    using assms(3) g by (auto simp: it_new_def it_next_def it_emit_def Let_def it_ok_def seen_def it_has_error_def)
qed

subsection \<open>do_committed\<close>

text \<open>What a call of \<open>do_committed\<close> puts into the output of the caller.\<close>

definition fc_new :: "('s, 'c, 'u, 'p) fsm_caller \<Rightarrow> ('s, 'c, 'u, 'p) fsm_caller \<Rightarrow> ('c, 'p) fsm_out list" where
  "fc_new fc fc' = drop (length (fc_out fc)) (fc_out fc')"

lemma fsm_handed_run_rest [simp]: "fsm_handed (run_rest st cs) = []"
  by (induction st cs rule: run_rest.induct) simp_all

lemma fc_set_error_out:
  "\<exists>evs. fc_out (fc_set_error E e fc) = fc_out fc @ evs \<and> fsm_handed evs = [] \<and> fsm_ran evs = []"
  by (auto simp: fc_set_error_def fc_notify_def fc_emit_def Let_def)

lemma fc_set_error_same [simp]:
  "fc_lm (fc_set_error E e fc) = fc_lm fc" "fc_queue (fc_set_error E e fc) = fc_queue fc"
  "fc_last_applied_index (fc_set_error E e fc) = fc_last_applied_index fc"
  by (simp_all add: fc_set_error_def fc_notify_def fc_emit_def Let_def)

lemma fc_emit_same [simp]:
  "fc_lm (fc_emit evs fc) = fc_lm fc" "fc_queue (fc_emit evs fc) = fc_queue fc"
  "fc_last_applied_index (fc_emit evs fc) = fc_last_applied_index fc" "fc_error (fc_emit evs fc) = fc_error fc"
  "fc_out (fc_emit evs fc) = fc_out fc @ evs" "fc_ok (fc_emit evs fc) = fc_ok fc"
  "fc_user (fc_emit evs fc) = fc_user fc" "fc_has_node (fc_emit evs fc) = fc_has_node fc"
  by (simp_all add: fc_emit_def fc_ok_def)

subsection \<open>An error has a type exactly when its status is not ok\<close>

definition err_wf :: "fsm_error \<Rightarrow> bool" where
  "err_wf e \<longleftrightarrow> (fe_type e = ERROR_TYPE_NONE \<longleftrightarrow> fe_status e = RcOk)"

lemma err_wf_next: "err_wf (it_error it) \<Longrightarrow> err_wf (it_error (it_next S it))"
  by (auto simp: it_next_def it_emit_def Let_def err_wf_def split: prod.splits)

lemma err_wf_iter_next: "err_wf (it_error it) \<Longrightarrow> err_wf (it_error (iter_next S it))"
  by (simp add: iter_next_def err_wf_next)

lemma it_error_show [simp]: "it_error (it_show it) = it_error it"
  by (simp add: it_show_alt)

lemma err_wf_sm_exec:
  "err_wf (it_error it) \<Longrightarrow> err_wf (it_error (snd (sm_exec p S it)))"
proof (induction p arbitrary: it)
  case (SmNext k)
  from SmNext.IH [OF rangeI, of "it_show (iter_next S it)"] SmNext.prems show ?case
    by (simp add: Let_def err_wf_iter_next)
next
  case (SmRunDone st p)
  then show ?case by (cases "iv_done (it_view it)") simp_all
next
  case (SmRollback n p)
  have "err_wf (it_error (it_set_error_and_rollback n it))"
    using SmRollback.prems by (simp add: it_set_error_and_rollback_def err_wf_def)
  then show ?case using SmRollback.IH by simp
qed simp

lemma err_wf_apply_round:
  assumes "err_wf (it_error it)" and "apply_round E e u it = (u', it')"
  shows "err_wf (it_error it')"
proof (cases "e_type e = ENTRY_TYPE_DATA")
  case True
  then show ?thesis
    using assms err_wf_sm_exec [of "it_show it" "fe_on_apply E u (it_view it)" "fe_store E"]
    by (auto simp: apply_round_def err_wf_iter_next split: prod.splits)
next
  case False
  then show ?thesis
    using assms by (auto simp: apply_round_def Let_def err_wf_next split: if_splits option.splits)
qed

lemma err_wf_apply_loop:
  "err_wf (it_error it) \<Longrightarrow> apply_loop E u it = (u', it') \<Longrightarrow> err_wf (it_error it')"
proof (induction E u it rule: apply_loop.induct)
  case (1 E u it)
  show ?case
  proof (cases "it_is_good it \<and> it_cur_entry it \<noteq> None")
    case False
    with "1.prems" show ?thesis by (auto simp: apply_loop.simps [of E u it] split: if_splits)
  next
    case True
    then obtain e u1 it1 where e: "it_cur_entry it = Some e" and r: "apply_round E e u it = (u1, it1)"
      by force
    have "apply_loop E u1 it1 = (u', it')"
      using "1.prems"(2) True e r by (subst (asm) apply_loop.simps) simp
    with "1.IH" [of e u1 it1] True e r err_wf_apply_round [OF "1.prems"(1) r] show ?thesis by simp
  qed
qed

lemma err_wf_new: "err_wf (it_error (it_new S lm cl f a c ai))"
  unfolding it_new_def by (rule err_wf_next) (simp add: err_wf_def)

definition fc_wf :: "('s, 'c, 'u, 'p) fsm_caller \<Rightarrow> bool" where
  "fc_wf fc \<longleftrightarrow> err_wf (fc_error fc)"

text \<open>\<open>do_committed\<close> in terms of the final iterator.\<close>

lemma do_committed_cases:
  assumes wf: "fc_wf fc" and ok: "fc_ok fc" and lt: "fc_last_applied_index fc < c"
    and pop: "cq_pop_closure_until c (fc_queue fc) = (r, cl, first, q)"
    and al: "apply_loop E (fc_user fc) (it_new (fe_store E) (fc_lm fc) cl (case first of None \<Rightarrow> 0 | Some f \<Rightarrow> f)
                (fc_last_applied_index fc) c (fc_applying_index fc)) = (u, it)"
  obtains evs where
    "fc_out (fc_do_committed E c fc) = fc_out fc @ it_out it @ evs"
    "fsm_handed evs = []"
    "fsm_ran evs = (if it_has_error it then fsm_ran (it_out (it_run_the_rest_closure_with_error (it\<lparr>it_out := []\<rparr>))) else [])"
    "fc_ok (fc_do_committed E c fc) \<longleftrightarrow> \<not> it_has_error it"
    "fc_error (fc_do_committed E c fc) = (if it_has_error it then it_error it else fc_error fc)"
    "fc_last_applied_index (fc_do_committed E c fc) = c"
    "fc_queue (fc_do_committed E c fc) = q"
    "fc_lm (fc_do_committed E c fc) =
       lm_set_applied_id (LogId (it_cur_index it - 1) (lm_get_term (fe_store E) (it_cur_index it - 1) (it_lm it))) (it_lm it)"
    "fc_last_applied_term (fc_do_committed E c fc) = lm_get_term (fe_store E) (it_cur_index it - 1) (it_lm it)"
    "fc_wf (fc_do_committed E c fc)"
proof -
  let ?fc1 = "fc_emit (it_out it) (fc\<lparr>fc_queue := q, fc_lm := it_lm it, fc_user := u, fc_applying_index := it_applying_index it\<rparr>)"
  let ?fc2 = "if it_has_error it
              then fc_emit (it_out (it_run_the_rest_closure_with_error (it\<lparr>it_out := []\<rparr>))) (fc_set_error E (it_error it) ?fc1)
              else ?fc1"
  let ?tm = "lm_get_term (fe_store E) (it_cur_index it - 1) (it_lm it)"
  have eq: "fc_do_committed E c fc = ?fc2\<lparr>fc_last_applied_index := c, fc_last_applied_term := ?tm,
                fc_lm := lm_set_applied_id (LogId (it_cur_index it - 1) ?tm) (it_lm it)\<rparr>"
    using ok lt by (simp add: fc_do_committed_def pop al Let_def)
  have ew: "err_wf (it_error it)"
    using err_wf_apply_loop [OF err_wf_new al] .
  have ty: "fe_type (fc_error ?fc1) = ERROR_TYPE_NONE"
    using wf ok by (simp add: fc_wf_def err_wf_def fc_ok_def)
  have rr: "fsm_handed (it_out (it_run_the_rest_closure_with_error (it\<lparr>it_out := []\<rparr>))) = []"
    by (simp add: it_run_the_rest_closure_with_error_def)
  obtain ev2 where ev2: "fc_out (fc_set_error E (it_error it) ?fc1) = fc_out ?fc1 @ ev2" "fsm_handed ev2 = []" "fsm_ran ev2 = []"
    using fc_set_error_out by blast
  have err: "fc_error (fc_set_error E (it_error it) ?fc1) = it_error it"
    using ty by (simp add: fc_set_error_def fc_notify_def fc_emit_def Let_def)
  let ?evs = "if it_has_error it then ev2 @ it_out (it_run_the_rest_closure_with_error (it\<lparr>it_out := []\<rparr>)) else []"
  show ?thesis
  proof (rule that [of ?evs])
    show "fc_out (fc_do_committed E c fc) = fc_out fc @ it_out it @ ?evs"
      using ev2(1) by (simp add: eq)
    show "fsm_handed ?evs = []" using rr ev2(2) by simp
    show "fc_ok (fc_do_committed E c fc) \<longleftrightarrow> \<not> it_has_error it"
      using ew ok err by (simp add: eq fc_ok_def it_has_error_def err_wf_def)
    show "fc_wf (fc_do_committed E c fc)"
      using ew wf err by (simp add: eq fc_wf_def)
  qed (use ev2(3) err in \<open>simp_all add: eq\<close>)
qed

lemma do_committed_hands_over:
  assumes rd: "reads (fe_store E) (fc_lm fc) l" and log: "in_log l (fc_last_applied_index fc) c"
    and wf: "fc_wf fc" and ok: "fc_ok fc" and lt: "fc_last_applied_index fc < c"
  shows "\<exists>m. fc_last_applied_index fc \<le> m \<and> m \<le> c
      \<and> fsm_handed (fc_new fc (fc_do_committed E c fc)) = handed_range l (fc_last_applied_index fc + 1) m
      \<and> (fc_ok (fc_do_committed E c fc) \<longrightarrow> m = c
           \<and> fc_lm (fc_do_committed E c fc) = lm_set_applied_id (LogId c (lm_get_term (fe_store E) c (fc_lm fc))) (fc_lm fc))
      \<and> fc_last_applied_index (fc_do_committed E c fc) = c \<and> fc_wf (fc_do_committed E c fc)
      \<and> fc_out (fc_do_committed E c fc) = fc_out fc @ fc_new fc (fc_do_committed E c fc)"
proof -
  let ?a = "fc_last_applied_index fc"
  obtain r cl first q where pop: "cq_pop_closure_until c (fc_queue fc) = (r, cl, first, q)"
    by (metis prod_cases4)
  let ?f = "case first of None \<Rightarrow> 0 | Some f \<Rightarrow> f"
  obtain u it where al: "apply_loop E (fc_user fc) (it_new (fe_store E) (fc_lm fc) cl ?f ?a c (fc_applying_index fc)) = (u, it)"
    by force
  note new = it_new_ok [OF rd log lt, of cl ?f "fc_applying_index fc"]
  from apply_loop_seen [OF rd log new(1,2) al]
  have it: "it_ok (fc_lm fc) l ?a c it" "seen l ?a c False it" "\<not> it_is_good it" by simp_all
  from do_committed_cases [OF wf ok lt pop al] obtain evs where
    out: "fc_out (fc_do_committed E c fc) = fc_out fc @ it_out it @ evs" "fsm_handed evs = []" and
    res: "fc_ok (fc_do_committed E c fc) \<longleftrightarrow> \<not> it_has_error it"
      "fc_last_applied_index (fc_do_committed E c fc) = c"
      "fc_lm (fc_do_committed E c fc) =
       lm_set_applied_id (LogId (it_cur_index it - 1) (lm_get_term (fe_store E) (it_cur_index it - 1) (it_lm it))) (it_lm it)"
      "fc_wf (fc_do_committed E c fc)" by metis
  have h: "fsm_handed (fc_new fc (fc_do_committed E c fc)) = fsm_handed (it_out it)"
    by (simp add: fc_new_def out)
  have o: "fc_out (fc_do_committed E c fc) = fc_out fc @ fc_new fc (fc_do_committed E c fc)"
    by (simp add: fc_new_def out)
  show ?thesis
  proof (cases "it_has_error it")
    case True
    with it(2) res h o show ?thesis by (auto simp: seen_def)
  next
    case False
    with it(1,3) have "it_cur_index it = c + 1" "it_lm it = fc_lm fc"
      by (auto simp: it_ok_def it_is_good_def)
    with it(2) False res h o lt show ?thesis by (auto simp: seen_def)
  qed
qed

end
