(* ===== verification/FsmRun.thy ===== *)
theory FsmRun
  imports FsmSafety
begin

section \<open>Batches of tasks of the FSM caller\<close>

text \<open>
  \<open>fsm_log\<close>: the log manager of a caller in order holds the log \<open>l\<close>, and what it has
  applied ends inside it. \<open>handed_on l b fc fc'\<close>: the caller went from \<open>fc\<close> to
  \<open>fc'\<close>, handing over entries from behind the applied ones, and up to \<open>b\<close> unless it met
  an error. It is shown for every task but the loading of a snapshot, which replaces the state.
\<close>

fun commit_of :: "'p apply_task \<Rightarrow> int list" where
  "commit_of (Committed i) = [i]"
| "commit_of _ = []"

definition task_commits :: "'p apply_task list \<Rightarrow> int list" where
  "task_commits ts = concat (map commit_of ts)"

fun is_load :: "'p apply_task \<Rightarrow> bool" where
  "is_load (SnapshotLoad d) = True"
| "is_load _ = False"

definition fc_ext :: "('s, 'c, 'u, 'p) fsm_caller \<Rightarrow> ('s, 'c, 'u, 'p) fsm_caller \<Rightarrow> bool" where
  "fc_ext fc fc' \<longleftrightarrow> fc_lm fc' = fc_lm fc \<and> fc_last_applied_index fc' = fc_last_applied_index fc
     \<and> (\<exists>evs. fc_out fc' = fc_out fc @ evs \<and> fsm_handed evs = [])
     \<and> (fc_ok fc' \<longrightarrow> fc_ok fc) \<and> (fc_wf fc \<longrightarrow> fc_wf fc')"

lemma fc_ext_refl [simp]: "fc_ext fc fc"
  by (simp add: fc_ext_def)

lemma fc_ext_trans: "fc_ext a b \<Longrightarrow> fc_ext b c \<Longrightarrow> fc_ext a c"
  by (fastforce simp: fc_ext_def)

lemma fc_ext_emit: "fsm_handed evs = [] \<Longrightarrow> fc_ext fc (fc_emit evs fc)"
  by (simp add: fc_ext_def fc_wf_def)

lemma fc_ext_user [simp]: "fc_ext fc (fc\<lparr>fc_user := u\<rparr>)" "fc_ext fc (fc\<lparr>fc_cur_task := t\<rparr>)"
  by (simp_all add: fc_ext_def fc_ok_def fc_wf_def)

fun is_conf_event :: "sm_event \<Rightarrow> bool" where
  "is_conf_event (OnConfigurationCommitted c i) = True"
| "is_conf_event _ = False"

lemma is_handed_user [simp]: "is_handed (FcUser ev) = is_conf_event ev"
  by (cases ev) simp_all

lemma fc_ext_notify: "\<not> is_conf_event ev \<Longrightarrow> fc_ext fc (fc_notify E ev fc)"
  by (simp add: fc_ext_def fc_notify_def fc_emit_def fc_ok_def fc_wf_def)

lemma fc_ext_set_error:
  "err_wf e \<Longrightarrow> fe_type e \<noteq> ERROR_TYPE_NONE \<Longrightarrow> fc_wf fc \<Longrightarrow> fc_ext fc (fc_set_error E e fc)"
  by (auto simp: fc_ext_def fc_set_error_def fc_notify_def fc_emit_def fc_ok_def fc_wf_def err_wf_def Let_def)

fun task_ok_error :: "'p apply_task \<Rightarrow> bool" where
  "task_ok_error (OnErrorTask e) = (err_wf e \<and> fe_type e \<noteq> ERROR_TYPE_NONE)"
| "task_ok_error _ = True"

lemma fc_other_task_ext:
  assumes "\<not> is_load t" and "task_ok_error t" and "fc_wf fc"
  shows "fc_ext fc (fc_other_task E t fc)"
proof (cases t)
  case (SnapshotSave d)
  then show ?thesis
    by (auto simp: fc_pass_by_status_def fc_do_snapshot_save_def Let_def
        intro!: fc_ext_trans [OF fc_ext_user(2) fc_ext_emit] fc_ext_trans [OF fc_ext_user(2) fc_ext_trans [OF fc_ext_user(1) fc_ext_emit]])
next
  case (OnErrorTask e)
  then have "err_wf e" "fe_type e \<noteq> ERROR_TYPE_NONE" using assms(2) by simp_all
  with OnErrorTask show ?thesis
    using assms(3) by (auto simp: fc_do_on_error_def fc_wf_def intro!: fc_ext_trans [OF fc_ext_user(2) fc_ext_set_error])
next
  case (LeaderStart tm ep)
  then show ?thesis
    by (auto simp: fc_do_leader_start_def intro!: fc_ext_trans [OF fc_ext_emit fc_ext_notify])
qed (use assms in \<open>auto simp: fc_do_leader_stop_def fc_do_start_following_def fc_do_stop_following_def
        intro!: fc_ext_trans [OF fc_ext_user(2) fc_ext_notify]\<close>)

definition disk_settled :: "'s log_storage_ops \<Rightarrow> ('s, 'd, 'w) log_manager \<Rightarrow> bool" where
  "disk_settled S lm \<longleftrightarrow> (\<forall>e \<in> set (lm_memory lm). e_id e \<le> lm_disk_id lm \<longrightarrow> settled S (e_index e) lm)"

definition fsm_log ::
  "'s log_storage_ops \<Rightarrow> (log_entry \<Rightarrow> bool) \<Rightarrow> ('s \<Rightarrow> bool) \<Rightarrow> ('s \<Rightarrow> log_entry list) \<Rightarrow> alog
   \<Rightarrow> ('s, 'c, 'u, 'p) fsm_caller \<Rightarrow> bool" where
  "fsm_log S P valid entries l fc \<longleftrightarrow> fc_wf fc \<and> 0 \<le> fc_last_applied_index fc
     \<and> (fc_ok fc \<longrightarrow> lm_inv S P valid entries (fc_lm fc) \<and> lm_log S entries (fc_lm fc) = l \<and> disk_settled S (fc_lm fc)
          \<and> fst l \<le> fc_last_applied_index fc + 1
          \<and> lid_index (lm_applied_id (fc_lm fc)) \<le> fc_last_applied_index fc)"

context log_storage
begin

definition handed_on :: "alog \<Rightarrow> int \<Rightarrow> ('s, 'c, 'u, 'p) fsm_caller \<Rightarrow> ('s, 'c, 'u, 'p) fsm_caller \<Rightarrow> bool" where
  "handed_on l b fc fc' \<longleftrightarrow> fsm_log S entry_ok valid entries l fc' \<and> fc_last_applied_index fc \<le> b \<and> fc_last_applied_index fc' \<le> b
     \<and> (\<exists>evs m. fc_out fc' = fc_out fc @ evs \<and> fc_last_applied_index fc \<le> m \<and> m \<le> b
          \<and> fsm_handed evs = handed_range l (fc_last_applied_index fc + 1) m
          \<and> (\<not> fc_ok fc \<longrightarrow> fsm_handed evs = [])
          \<and> (fc_ok fc' \<longrightarrow> fc_ok fc \<and> m = b \<and> fc_last_applied_index fc' = b))"

lemma handed_on_refl: "fsm_log S entry_ok valid entries l fc \<Longrightarrow> handed_on l (fc_last_applied_index fc) fc fc"
  unfolding handed_on_def by (intro conjI exI [of _ "[]"] exI [of _ "fc_last_applied_index fc"]) simp_all

lemma handed_on_ext:
  assumes "fsm_log S entry_ok valid entries l fc" and "fc_ext fc fc'"
  shows "handed_on l (fc_last_applied_index fc) fc fc'"
proof -
  from assms(2) obtain evs where "fc_out fc' = fc_out fc @ evs" "fsm_handed evs = []"
    by (auto simp: fc_ext_def)
  moreover have "fsm_log S entry_ok valid entries l fc'"
    using assms by (auto simp: fsm_log_def fc_ext_def)
  ultimately show ?thesis
    using assms(2) unfolding handed_on_def
    by (intro conjI exI [of _ evs] exI [of _ "fc_last_applied_index fc"]) (simp_all add: fc_ext_def)
qed

lemma handed_on_trans:
  assumes 1: "handed_on l b fc fc1" and 2: "handed_on l b' fc1 fc2" and b: "b \<le> b'"
  shows "handed_on l b' fc fc2"
proof -
  let ?a = "fc_last_applied_index fc"
  from 1 obtain e1 m1 where m1: "fc_out fc1 = fc_out fc @ e1" "?a \<le> m1" "m1 \<le> b"
    "fsm_handed e1 = handed_range l (?a + 1) m1" "\<not> fc_ok fc \<longrightarrow> fsm_handed e1 = []"
    "fc_ok fc1 \<longrightarrow> fc_ok fc \<and> m1 = b \<and> fc_last_applied_index fc1 = b"
    unfolding handed_on_def by blast
  from 2 obtain e2 m2 where m2: "fc_out fc2 = fc_out fc1 @ e2" "fc_last_applied_index fc1 \<le> m2" "m2 \<le> b'"
    "fsm_handed e2 = handed_range l (fc_last_applied_index fc1 + 1) m2" "\<not> fc_ok fc1 \<longrightarrow> fsm_handed e2 = []"
    "fc_ok fc2 \<longrightarrow> fc_ok fc1 \<and> m2 = b' \<and> fc_last_applied_index fc2 = b'"
    unfolding handed_on_def by blast
  let ?m = "if fc_ok fc1 then m2 else m1"
  have "fsm_handed (e1 @ e2) = handed_range l (?a + 1) ?m"
  proof (cases "fc_ok fc1")
    case True
    with m1(2,4,6) m2(2,4) show ?thesis by (simp add: handed_range_append [of "?a + 1" m1 m2 l])
  qed (use m1(4) m2(5) in simp)
  moreover have "?a \<le> ?m" "?m \<le> b'" "?a \<le> b'" using m1 m2 b 1 by (auto simp: handed_on_def)
  moreover have "fc_out fc2 = fc_out fc @ e1 @ e2" using m1(1) m2(1) by simp
  moreover have "\<not> fc_ok fc \<longrightarrow> fsm_handed (e1 @ e2) = []" using m1(5,6) m2(5) by auto
  moreover have "fc_ok fc2 \<longrightarrow> fc_ok fc \<and> ?m = b' \<and> fc_last_applied_index fc2 = b'" using m1(6) m2(6) by auto
  ultimately show ?thesis
    using 2 unfolding handed_on_def by blast
qed

lemma handed_on_committed:
  assumes E: "fe_store E = S" and log: "fsm_log S entry_ok valid entries l fc" and c: "c \<le> alog_last l"
  shows "handed_on l (max (fc_last_applied_index fc) c) fc (fc_do_committed E c fc)"
proof (cases "fc_ok fc \<and> fc_last_applied_index fc < c")
  case False
  then have "fc_do_committed E c fc = fc \<and> max (fc_last_applied_index fc) c = fc_last_applied_index fc \<or>
     fc_do_committed E c fc = fc \<and> \<not> fc_ok fc"
    by (auto simp: fc_do_committed_def)
  then show ?thesis
  proof
    assume "fc_do_committed E c fc = fc \<and> \<not> fc_ok fc"
    then show ?thesis
      using log unfolding handed_on_def
      by (intro conjI exI [of _ "[]"] exI [of _ "fc_last_applied_index fc"]) simp_all
  qed (use handed_on_refl [OF log] in simp)
next
  case True
  let ?a = "fc_last_applied_index fc" and ?fc' = "fc_do_committed E c fc"
  from log True have inv: "lm_inv S entry_ok valid entries (fc_lm fc)" "lm_log S entries (fc_lm fc) = l"
    "disk_settled S (fc_lm fc)" "fst l \<le> ?a + 1" "lid_index (lm_applied_id (fc_lm fc)) \<le> ?a" "fc_wf fc" "0 \<le> ?a"
    by (simp_all add: fsm_log_def)
  have rd: "reads (fe_store E) (fc_lm fc) l"
    using get_entry_refines [OF inv(1)] inv(2) by (simp add: reads_def E)
  have "in_log l ?a c" using inv c by (simp add: in_log_def)
  from do_committed_hands_over [OF rd this inv(6)] True obtain m where m: "?a \<le> m" "m \<le> c"
    "fsm_handed (fc_new fc ?fc') = handed_range l (?a + 1) m"
    "fc_ok ?fc' \<longrightarrow> m = c \<and> fc_lm ?fc' = lm_set_applied_id (LogId c (lm_get_term (fe_store E) c (fc_lm fc))) (fc_lm fc)"
    "fc_last_applied_index ?fc' = c" "fc_wf ?fc'" "fc_out ?fc' = fc_out fc @ fc_new fc ?fc'" by blast
  have "fsm_log S entry_ok valid entries l ?fc'"
  proof -
    let ?i = "LogId c (lm_get_term (fe_store E) c (fc_lm fc))"
    have i: "lid_index (lm_applied_id (fc_lm fc)) \<le> lid_index ?i" using inv True by simp
    have st: "\<forall>e \<in> set (lm_memory (fc_lm fc)). e_id e \<le> min (lm_disk_id (fc_lm fc)) ?i \<longrightarrow> settled S (e_index e) (fc_lm fc)"
      using inv(3) by (simp add: disk_settled_def)
    have "disk_settled S (lm_set_applied_id ?i (fc_lm fc))"
      using inv(3) by (auto simp: disk_settled_def lm_set_applied_id_def lm_clear_memory_logs_eq Let_def settled_def
          dest!: set_dropWhileD)
    moreover have "lid_index (lm_applied_id (lm_set_applied_id ?i (fc_lm fc))) \<le> c"
      using inv True by (simp add: lm_set_applied_id_def lm_clear_memory_logs_eq Let_def)
    ultimately show ?thesis
      using lm_inv_set_applied_id [OF inv(1) i st] m(4,5,6) inv True by (auto simp: fsm_log_def)
  qed
  then show ?thesis
    using m True unfolding handed_on_def
    by (intro conjI exI [of _ "fc_new fc ?fc'"] exI [of _ m]) (auto simp: max_def)
qed

lemma handed_on_flush:
  assumes "fe_store E = S" and log: "fsm_log S entry_ok valid entries l fc" and "mx \<le> alog_last l"
  shows "handed_on l (max (fc_last_applied_index fc) mx) fc (fc_flush E mx fc)"
proof (cases "mx \<ge> 0")
  case True
  have 0: "fc_ext fc (fc\<lparr>fc_cur_task := TASK_COMMITTED\<rparr>)" by simp
  note 1 = handed_on_ext [OF log 0]
  then have "fsm_log S entry_ok valid entries l (fc\<lparr>fc_cur_task := TASK_COMMITTED\<rparr>)" by (simp add: handed_on_def)
  from handed_on_trans [OF 1 handed_on_committed [OF assms(1) this assms(3)]] True show ?thesis
    by (simp add: fc_flush_def)
next
  case False
  then have "max (fc_last_applied_index fc) mx = fc_last_applied_index fc"
    using log by (simp add: fsm_log_def)
  with False handed_on_refl [OF log] show ?thesis by (simp add: fc_flush_def)
qed

lemma handed_on_chain:
  assumes 1: "handed_on l b fc fc1" and 2: "handed_on l (fold max cs (fc_last_applied_index fc1)) fc1 fc2"
  shows "handed_on l (fold max cs b) fc fc2"
proof -
  have le: "fold max cs x \<le> fold max cs y" if "x \<le> y" for x y :: int
    using that by (induction cs arbitrary: x y) (simp_all add: max.mono)
  have ge: "x \<le> fold max cs x" for x :: int
    by (induction cs arbitrary: x) (simp_all, metis max.bounded_iff)
  have b: "fc_last_applied_index fc1 \<le> b" using 1 by (simp add: handed_on_def)
  show ?thesis
  proof (cases "fc_ok fc1")
    case True
    then have "fc_last_applied_index fc1 = b" using 1 by (auto simp: handed_on_def)
    with handed_on_trans [OF 1 2] ge show ?thesis by simp
  next
    case False
    then have nok: "\<not> fc_ok fc2" using 2 by (auto simp: handed_on_def)
    from 2 obtain evs m where "fc_out fc2 = fc_out fc1 @ evs" "fc_last_applied_index fc1 \<le> m"
      "m \<le> fold max cs (fc_last_applied_index fc1)"
      "fsm_handed evs = handed_range l (fc_last_applied_index fc1 + 1) m" "fsm_handed evs = []"
      using False unfolding handed_on_def by blast
    with 2 nok le [OF b] have "handed_on l (fold max cs b) fc1 fc2"
      unfolding handed_on_def by (intro conjI exI [of _ evs] exI [of _ m]) auto
    from handed_on_trans [OF 1 this] ge show ?thesis by simp
  qed
qed

lemma handed_on_run_loop:
  assumes E: "fe_store E = S"
  shows "fsm_log S entry_ok valid entries l fc \<Longrightarrow> \<forall>t \<in> set ts. \<not> is_load t \<and> task_ok_error t \<Longrightarrow> \<forall>i \<in> set (task_commits ts). i \<le> alog_last l
     \<Longrightarrow> -1 \<le> mx \<Longrightarrow> mx \<le> alog_last l
     \<Longrightarrow> handed_on l (fold max (task_commits ts) (max (fc_last_applied_index fc) mx)) fc (fc_run_loop E ts mx counter fc)"
proof (induction ts arbitrary: mx counter fc)
  case Nil
  then show ?case using handed_on_flush [OF E] by (simp add: task_commits_def)
next
  case (Cons t ts)
  let ?fc1 = "fc_flush E mx fc" and ?c1 = "if mx \<ge> 0 then 0 else counter"
  note fl = handed_on_flush [OF E Cons.prems(1,5)]
  then have log1: "fsm_log S entry_ok valid entries l ?fc1" by (simp add: handed_on_def)
  have mx1: "(if mx \<ge> 0 then -1 else mx) = -1" using Cons.prems(4) by simp
  have nonneg: "0 \<le> fc_last_applied_index ?fc1" "0 \<le> fc_last_applied_index fc"
    using log1 Cons.prems(1) by (simp_all add: fsm_log_def)
  show ?case
  proof (cases "\<exists>i. t = Committed i")
    case True
    then obtain i where t: "t = Committed i" ..
    have i: "i \<le> alog_last l" and cs: "\<forall>i \<in> set (task_commits ts). i \<le> alog_last l"
      and ts: "\<forall>t \<in> set ts. \<not> is_load t \<and> task_ok_error t"
      using Cons.prems(2,3) by (simp_all add: task_commits_def t)
    have c: "task_commits (t # ts) = i # task_commits ts" by (simp add: task_commits_def t)
    show ?thesis
    proof (cases "counter < fe_commit_batch E")
      case True
      show ?thesis
      proof (cases "i > mx")
        case True
        have "max i (max (fc_last_applied_index fc) mx) = max (fc_last_applied_index fc) i" using True by simp
        with Cons.IH [OF Cons.prems(1) ts cs _ i, of "counter + 1"] True \<open>counter < fe_commit_batch E\<close> Cons.prems(4)
        show ?thesis by (simp add: c [unfolded t] t)
      next
        case False
        have "max i (max (fc_last_applied_index fc) mx) = max (fc_last_applied_index fc) mx" using False by simp
        with Cons.IH [OF Cons.prems(1) ts cs Cons.prems(4,5), of counter] False \<open>counter < fe_commit_batch E\<close>
        show ?thesis by (simp add: c [unfolded t] t)
      qed
    next
      case False
      let ?i = "if i > -1 then i else -1" and ?c2 = "if i > -1 then ?c1 + 1 else ?c1"
      have mx_i: "fold max (i # task_commits ts) (fc_last_applied_index ?fc1)
          = fold max (task_commits ts) (max (fc_last_applied_index ?fc1) ?i)"
        using nonneg(1) by (simp add: max.commute)
      have "-1 \<le> alog_last l" using Cons.prems(4,5) by simp
      then have "handed_on l (fold max (task_commits ts) (max (fc_last_applied_index ?fc1) ?i)) ?fc1
          (fc_run_loop E ts ?i ?c2 ?fc1)"
        using i by (intro Cons.IH log1 ts cs) simp_all
      then have "handed_on l (fold max (i # task_commits ts) (fc_last_applied_index ?fc1)) ?fc1
          (fc_run_loop E ts ?i ?c2 ?fc1)"
        unfolding mx_i .
      from handed_on_chain [OF fl this] have
        "handed_on l (fold max (task_commits (t # ts)) (max (fc_last_applied_index fc) mx)) fc (fc_run_loop E ts ?i ?c2 ?fc1)"
        by (simp add: c)
      moreover have "fc_run_loop E (t # ts) mx counter fc = fc_run_loop E ts ?i ?c2 ?fc1"
        using False mx1 by (simp add: t Let_def)
      ultimately show ?thesis by simp
    qed
  next
    case False
    then have c: "task_commits (t # ts) = task_commits ts" and
      eq: "fc_run_loop E (t # ts) mx counter fc = fc_run_loop E ts (-1) ?c1 (fc_other_task E t ?fc1)"
      using mx1 by (cases t; simp add: task_commits_def Let_def)+
    have t: "\<not> is_load t" "task_ok_error t" and cs: "\<forall>i \<in> set (task_commits ts). i \<le> alog_last l"
      and ts: "\<forall>t \<in> set ts. \<not> is_load t \<and> task_ok_error t"
      using Cons.prems(2,3) c by simp_all
    have "fc_wf ?fc1" using log1 by (simp add: fsm_log_def)
    note ot = handed_on_ext [OF log1 fc_other_task_ext [OF t this, of E]]
    then have log2: "fsm_log S entry_ok valid entries l (fc_other_task E t ?fc1)" by (simp add: handed_on_def)
    have same: "fc_last_applied_index (fc_other_task E t ?fc1) = fc_last_applied_index ?fc1"
      using fc_other_task_ext [OF t \<open>fc_wf ?fc1\<close>, of E] by (simp add: fc_ext_def)
    have "-1 \<le> alog_last l" using Cons.prems(4,5) by simp
    have m1: "max (fc_last_applied_index (fc_other_task E t ?fc1)) (-1) = fc_last_applied_index (fc_other_task E t ?fc1)"
      using nonneg(1) same by simp
    from Cons.IH [OF log2 ts cs order.refl \<open>-1 \<le> alog_last l\<close>, of ?c1] have
      "handed_on l (fold max (task_commits ts) (fc_last_applied_index (fc_other_task E t ?fc1)))
         (fc_other_task E t ?fc1) (fc_run_loop E ts (-1) ?c1 (fc_other_task E t ?fc1))"
      unfolding m1 .
    from handed_on_chain [OF ot this] have
      "handed_on l (fold max (task_commits ts) (fc_last_applied_index ?fc1)) ?fc1
         (fc_run_loop E ts (-1) ?c1 (fc_other_task E t ?fc1))" .
    from handed_on_chain [OF fl this] show ?thesis by (simp add: c eq)
  qed
qed

lemma handed_on_run:
  assumes "fe_store E = S" and "fsm_log S entry_ok valid entries l fc" and "\<forall>t \<in> set ts. \<not> is_load t \<and> task_ok_error t"
    and "\<forall>i \<in> set (task_commits ts). i \<le> alog_last l" and "-1 \<le> alog_last l"
  shows "handed_on l (fold max (task_commits ts) (fc_last_applied_index fc)) fc (fc_run E ts fc)"
proof -
  have "0 \<le> fc_last_applied_index fc" using assms(2) by (simp add: fsm_log_def)
  then have m: "max (fc_last_applied_index fc) (-1) = fc_last_applied_index fc" by simp
  from handed_on_run_loop [OF assms(1-4) order.refl assms(5), of 0]
  have 1: "handed_on l (fold max (task_commits ts) (fc_last_applied_index fc)) fc (fc_run_loop E ts (-1) 0 fc)"
    unfolding m .
  then have "fsm_log S entry_ok valid entries l (fc_run_loop E ts (-1) 0 fc)" by (simp add: handed_on_def)
  from handed_on_ext [OF this fc_ext_user(2)]
  have "handed_on l (fold max [] (fc_last_applied_index (fc_run_loop E ts (-1) 0 fc))) (fc_run_loop E ts (-1) 0 fc) (fc_run E ts fc)"
    by (simp add: fc_run_def)
  from handed_on_chain [OF 1 this] show ?thesis by simp
qed

end

end
