(* ===== verification/FsmClosures.thy ===== *)
theory FsmClosures
  imports FsmSafety
begin

section \<open>Every closure of a committed task runs exactly once\<close>

text \<open>
  \<open>tidy\<close>: a program that leaves no closure unrun and runs none twice, counting the runs the library
  does for it. The closure of an entry it is shown is run by the program while it stands on the entry, or left
  to the library by a later \<open>set_error_and_rollback(ntail)\<close>: after that,
  \<open>run_the_rest_closure_with_error\<close> runs the closure of every task rolled back, so the program must
  not have run any of them, and must roll back at least as far as the first it has left. The state of the
  walk is whether the current closure has been run, the number \<open>k\<close> of entries behind the current one
  down to the first whose closure is left, and the number \<open>h\<close> of entries behind it none of whose closures
  has been run by the program in this call.
\<close>

primrec quiet :: "('c, 'u) sm_prog \<Rightarrow> bool" where
  "quiet (SmReturn u) = True"
| "quiet (SmNext k) = (\<forall>v. quiet (k v))"
| "quiet (SmRunDone st p) = quiet p"
| "quiet (SmRollback n p) = False"

primrec tidy :: "('c, 'u) sm_prog \<Rightarrow> 'c it_view \<Rightarrow> bool \<Rightarrow> nat \<Rightarrow> nat \<Rightarrow> bool" where
  "tidy (SmReturn u) v rn k h \<longleftrightarrow> k = 0 \<and> (rn \<or> iv_done v = None)"
| "tidy (SmNext q) v rn k h \<longleftrightarrow>
     (\<forall>v'. if iv_entry v = None then tidy (q v') v' rn k h
           else if rn then tidy (q v') v' False 0 0
           else if iv_done v = None \<and> k = 0 then tidy (q v') v' False 0 (h + 1)
           else tidy (q v') v' False (k + 1) (h + 1))"
| "tidy (SmRunDone st p) v rn k h \<longleftrightarrow>
     (if iv_done v = None then tidy p v rn k h else \<not> rn \<and> k = 0 \<and> tidy p v True 0 h)"
| "tidy (SmRollback n p) v rn k h \<longleftrightarrow>
     0 < n \<and> quiet p
     \<and> (if iv_entry v = None then k \<le> n \<and> n \<le> h else \<not> rn \<and> k \<le> n - 1 \<and> n - 1 \<le> h)"

definition closure_at :: "'c option list \<Rightarrow> int \<Rightarrow> int \<Rightarrow> 'c option" where
  "closure_at cl f k = (let n = nat (k - f) in if n < length cl then cl ! n else None)"

definition some_of :: "'c option list \<Rightarrow> 'c list" where
  "some_of cs = map the (filter (\<lambda>c. c \<noteq> None) cs)"

definition clos :: "'c option list \<Rightarrow> int \<Rightarrow> int \<Rightarrow> int \<Rightarrow> 'c list" where
  "clos cl f i j = some_of (map (closure_at cl f) [i..j])"

lemma closure_of_at: "closure_of k it = closure_at (it_closure it) (it_first_closure_index it) k"
  by (simp add: closure_of_def closure_at_def)

lemma some_of_append [simp]: "some_of (a @ b) = some_of a @ some_of b"
  by (simp add: some_of_def)

lemma some_of_Nil [simp]: "some_of [] = []"
  by (simp add: some_of_def)

lemma clos_empty [simp]: "j < i \<Longrightarrow> clos cl f i j = []"
  by (simp add: clos_def)

lemma clos_last:
  "i \<le> j \<Longrightarrow> clos cl f i j = clos cl f i (j - 1) @ (case closure_at cl f j of None \<Rightarrow> [] | Some c \<Rightarrow> [c])"
  by (simp add: clos_def upto_rec2 some_of_def split: option.split)

lemma clos_split: "i \<le> j + 1 \<Longrightarrow> j \<le> k \<Longrightarrow> clos cl f i k = clos cl f i j @ clos cl f (j + 1) k"
  by (cases "i = j + 1") (simp_all add: clos_def upto_split2 [of i j k])

lemma fsm_ran_run_rest [simp]: "fsm_ran (run_rest st cs) = some_of cs"
  by (induction st cs rule: run_rest.induct) (simp_all add: some_of_def)

lemma clos_whole:
  assumes "int (length cl) = c + 1 - f"
  shows "clos cl f f c = some_of cl"
proof -
  have "map (closure_at cl f) [f..c] = cl"
    using assms by (intro nth_equalityI) (auto simp: closure_at_def)
  then show ?thesis by (simp add: clos_def)
qed

subsection \<open>Following the iterator\<close>

text \<open>\<open>ran_ok\<close>: the closures before the position have run, and with \<open>rn\<close> the current one too.\<close>

definition it_base :: "'c option list \<Rightarrow> int \<Rightarrow> int \<Rightarrow> ('s, 'c, 'p) iterator \<Rightarrow> bool" where
  "it_base cl f c it \<longleftrightarrow> it_closure it = cl \<and> it_first_closure_index it = f \<and> it_committed_index it = c
     \<and> it_cur_index it \<le> c + 1 \<and> (it_is_good it \<longleftrightarrow> it_cur_entry it \<noteq> None)"

definition ran_ok :: "'c option list \<Rightarrow> int \<Rightarrow> int \<Rightarrow> bool \<Rightarrow> ('s, 'c, 'p) iterator \<Rightarrow> bool" where
  "ran_ok cl f c rn it \<longleftrightarrow> it_base cl f c it
     \<and> fsm_ran (it_out it) = clos cl f f (if rn \<and> iter_valid it then it_cur_index it else it_cur_index it - 1)"

lemma it_base_emit [simp]: "it_base cl f c (it_emit evs it) = it_base cl f c it"
  by (simp add: it_base_def)

lemma clos_current:
  assumes "it_base cl f c it"
  shows "clos cl f f (it_cur_index it)
     = clos cl f f (it_cur_index it - 1) @ (case it_done it of None \<Rightarrow> [] | Some x \<Rightarrow> [x])"
  using assms clos_last [of f "it_cur_index it" cl f]
  by (cases "it_cur_index it < f") (simp_all add: it_base_def it_done_def closure_of_at)

lemma fsm_ran_lm [simp]: "fsm_ran (map FcLm evs) = []"
  by (induction evs) simp_all

lemma it_base_next:
  "it_base cl f c it \<Longrightarrow> it_is_good it \<Longrightarrow> it_base cl f c (it_next S it)"
  by (auto simp: it_base_def it_next_def it_emit_def it_is_good_def it_has_error_def Let_def split: prod.splits)

lemma fsm_ran_next: "fsm_ran (it_out (it_next S it)) = fsm_ran (it_out it)"
  by (auto simp: it_next_def it_emit_def Let_def split: prod.splits)

lemma ran_ok_next:
  assumes "it_base cl f c it" and "it_is_good it" and "fsm_ran (it_out it) = clos cl f f (it_cur_index it)"
  shows "ran_ok cl f c False (it_next S it)"
  using assms it_base_next [OF assms(1,2)]
  by (simp add: ran_ok_def fsm_ran_next it_next_index it_is_good_def)

lemma fsm_ran_show [simp]: "fsm_ran (it_out (it_show it)) = fsm_ran (it_out it)"
  by (simp add: it_show_alt)

lemma it_show_same [simp]:
  "it_base cl f c (it_show it) = it_base cl f c it" "iter_valid (it_show it) = iter_valid it"
  "it_cur_index (it_show it) = it_cur_index it" "it_done (it_show it) = it_done it"
  "it_view (it_show it) = it_view it" "ran_ok cl f c rn (it_show it) = ran_ok cl f c rn it"
  by (simp_all add: it_show_alt ran_ok_def)

lemma view_done: "iv_done (it_view it) = (if iter_valid it then it_done it else None)"
  by (simp add: it_view_def)

text \<open>The closures have run up to the iterator when it is about to leave a valid position.\<close>

lemma ran_ok_leave:
  assumes ok: "ran_ok cl f c rn it" and left: "iter_valid it \<longrightarrow> rn \<or> it_done it = None"
  shows "ran_ok cl f c False (iter_next S it)"
proof (cases "iter_valid it")
  case True
  then have "fsm_ran (it_out it) = clos cl f f (it_cur_index it)"
    using ok left clos_current [of cl f c it] by (auto simp: ran_ok_def split: if_splits)
  moreover have "it_base cl f c it" "it_is_good it" using ok True by (simp_all add: ran_ok_def iter_valid_def)
  ultimately show ?thesis using True by (simp add: iter_next_def ran_ok_next)
next
  case False
  with ok show ?thesis by (simp add: iter_next_def ran_ok_def)
qed

lemma sm_exec_quiet:
  "quiet p \<Longrightarrow> it_has_error it \<Longrightarrow> snd (sm_exec p S it) = it"
proof (induction p arbitrary: it)
  case (SmNext k)
  then have "\<not> iter_valid it" by (simp add: iter_valid_def it_is_good_def)
  then have "it_show (iter_next S it) = it" by (simp add: iter_next_def it_show_alt)
  with SmNext show ?case by (simp add: Let_def)
next
  case (SmRunDone st p)
  then have "\<not> iter_valid it" by (simp add: iter_valid_def it_is_good_def)
  with SmRunDone show ?case by (simp add: view_done)
qed simp_all

text \<open>
  \<open>ran_defer\<close>: with closures left behind the position, what has run is what precedes any of the
  entries between the \<open>k\<close>th and the \<open>h\<close>th behind it.
\<close>

definition ran_defer :: "'c option list \<Rightarrow> int \<Rightarrow> int \<Rightarrow> bool \<Rightarrow> nat \<Rightarrow> nat \<Rightarrow> ('s, 'c, 'p) iterator \<Rightarrow> bool" where
  "ran_defer cl f c rn k h it \<longleftrightarrow> it_base cl f c it
     \<and> (if rn \<and> iter_valid it then fsm_ran (it_out it) = clos cl f f (it_cur_index it)
        else \<forall>j. k \<le> j \<and> j \<le> h \<longrightarrow> fsm_ran (it_out it) = clos cl f f (it_cur_index it - 1 - int j))"

lemma ran_defer_zero: "ran_ok cl f c rn it = ran_defer cl f c rn 0 0 it"
  by (auto simp: ran_ok_def ran_defer_def)

lemma ran_defer_ok:
  assumes "ran_defer cl f c rn 0 h it"
  shows "ran_ok cl f c rn it"
proof -
  have "fsm_ran (it_out it) = clos cl f f (it_cur_index it - 1)" if "\<not> (rn \<and> iter_valid it)"
    using assms that unfolding ran_defer_def by (auto dest!: spec [of _ 0])
  with assms show ?thesis by (auto simp: ran_ok_def ran_defer_def)
qed

lemma ran_defer_show [simp]: "ran_defer cl f c rn k h (it_show it) = ran_defer cl f c rn k h it"
  by (simp add: ran_defer_def)

lemma iter_next_fields:
  assumes "iter_valid it" and "it_base cl f c it"
  shows "it_base cl f c (iter_next S it)" "fsm_ran (it_out (iter_next S it)) = fsm_ran (it_out it)"
    "it_cur_index (iter_next S it) = it_cur_index it + 1"
  using assms it_base_next [of cl f c it S]
  by (simp_all add: iter_next_def iter_valid_def fsm_ran_next it_next_index it_is_good_def)

lemma ran_defer_next:
  assumes ok: "ran_defer cl f c rn k h it" and v: "iter_valid it"
  shows "rn \<Longrightarrow> ran_defer cl f c False 0 0 (iter_next S it)"
    and "\<not> rn \<Longrightarrow> ran_defer cl f c False (k + 1) (h + 1) (iter_next S it)"
    and "\<not> rn \<Longrightarrow> it_done it = None \<Longrightarrow> k = 0 \<Longrightarrow> ran_defer cl f c False 0 (h + 1) (iter_next S it)"
proof -
  have b: "it_base cl f c it" using ok by (simp add: ran_defer_def)
  note n = iter_next_fields [OF v b, of S]
  show "rn \<Longrightarrow> ran_defer cl f c False 0 0 (iter_next S it)"
    using ok v n by (simp add: ran_defer_def)
  have old: "fsm_ran (it_out it) = clos cl f f (it_cur_index it - 1 - int j)" if "\<not> rn" "k \<le> j" "j \<le> h" for j
    using ok that by (simp add: ran_defer_def)
  show "ran_defer cl f c False (k + 1) (h + 1) (iter_next S it)" if rn: "\<not> rn"
    unfolding ran_defer_def
  proof (simp add: n, intro allI impI)
    fix j assume j: "Suc k \<le> j \<and> j \<le> Suc h"
    then obtain i where "j = Suc i" by (cases j) auto
    with j old [OF rn, of i] show "fsm_ran (it_out it) = clos cl f f (it_cur_index it - int j)"
      by (simp add: algebra_simps)
  qed
  show "ran_defer cl f c False 0 (h + 1) (iter_next S it)" if rn: "\<not> rn" and d: "it_done it = None" and k: "k = 0"
    unfolding ran_defer_def
  proof (simp add: n, intro allI impI)
    fix j assume j: "j \<le> Suc h"
    show "fsm_ran (it_out it) = clos cl f f (it_cur_index it - int j)"
    proof (cases j)
      case 0
      with old [OF rn, of 0] k clos_current [OF b] d show ?thesis by simp
    next
      case (Suc i)
      with j k old [OF rn, of i] show ?thesis by (simp add: algebra_simps)
    qed
  qed
qed

lemma ran_defer_rollback:
  assumes ok: "ran_defer cl f c rn k h it" and n: "0 < n"
    and kh: "if iv_entry (it_view it) = None then k \<le> n \<and> n \<le> h else \<not> rn \<and> k \<le> n - 1 \<and> n - 1 \<le> h"
  shows "ran_ok cl f c False (it_set_error_and_rollback n it)"
    and "\<not> iter_valid (it_set_error_and_rollback n it)" "it_has_error (it_set_error_and_rollback n it)"
proof -
  let ?it = "it_set_error_and_rollback n it"
  show e: "it_has_error ?it" using n by (simp add: it_set_error_and_rollback_def it_has_error_def)
  show nv: "\<not> iter_valid ?it" using e by (simp add: iter_valid_def it_is_good_def)
  have b: "it_base cl f c it" using ok by (simp add: ran_defer_def)
  have "\<not> it_is_good ?it" using e by (simp add: it_is_good_def)
  with b n have "it_base cl f c ?it"
    by (auto simp: it_base_def it_set_error_and_rollback_def)
  moreover have "fsm_ran (it_out ?it) = clos cl f f (it_cur_index ?it - 1)"
  proof (cases "iter_valid it")
    case True
    then have "entry_is_data (it_cur_entry it)" and kn: "\<not> rn" "k \<le> n - 1" "n - 1 \<le> h"
      using kh by (auto simp: it_view_def iter_valid_def entry_is_data_def split: option.splits)
    moreover have "int (n - 1) = int n - 1" using n by simp
    ultimately show ?thesis
      using ok n by (auto simp: ran_defer_def it_set_error_and_rollback_def)
  next
    case False
    then have "\<not> entry_is_data (it_cur_entry it)" and kn: "k \<le> n" "n \<le> h"
      using kh b by (auto simp: it_view_def iter_valid_def entry_is_data_def it_base_def split: option.splits)
    then show ?thesis
      using ok n False by (auto simp: ran_defer_def it_set_error_and_rollback_def algebra_simps)
  qed
  ultimately show "ran_ok cl f c False ?it" by (simp add: ran_ok_def)
qed

lemma sm_exec_ran:
  "tidy p (it_view it) rn k h \<Longrightarrow> ran_defer cl f c rn k h it \<Longrightarrow>
   \<exists>rn'. ran_ok cl f c rn' (snd (sm_exec p S it))
     \<and> (iter_valid (snd (sm_exec p S it)) \<longrightarrow> rn' \<or> it_done (snd (sm_exec p S it)) = None)"
proof (induction p arbitrary: it rn k h)
  case (SmReturn u)
  then show ?case by (intro exI [of _ rn]) (auto simp: view_done ran_defer_ok)
next
  case (SmNext q)
  let ?it = "it_show (iter_next S it)"
  have "\<exists>rn k h. tidy (q (it_view ?it)) (it_view ?it) rn k h \<and> ran_defer cl f c rn k h ?it"
  proof (cases "iter_valid it")
    case False
    with SmNext.prems have "tidy (q (it_view ?it)) (it_view ?it) rn k h \<and> ran_defer cl f c rn k h ?it"
      by (simp add: it_view_def iter_next_def)
    then show ?thesis by blast
  next
    case True
    then have e: "iv_entry (it_view it) \<noteq> None" "iv_done (it_view it) = it_done it"
      by (auto simp: it_view_def iter_valid_def entry_is_data_def split: option.splits)
    note n = ran_defer_next [OF SmNext.prems(2) True, of S]
    show ?thesis
      using SmNext.prems(1) [simplified, THEN spec [of _ "it_view ?it"]] e n
      by (cases rn; cases "it_done it = None \<and> k = 0") (auto split: if_splits)
  qed
  then show ?case using SmNext.IH [OF rangeI] by (auto simp: Let_def)
next
  case (SmRunDone st p)
  show ?case
  proof (cases "iv_done (it_view it)")
    case None
    with SmRunDone show ?thesis by simp
  next
    case (Some x)
    then have v: "iter_valid it" "it_done it = Some x" "\<not> rn" "k = 0" using SmRunDone.prems(1)
      by (auto simp: view_done split: if_splits)
    then have "ran_ok cl f c rn it" using SmRunDone.prems(2) ran_defer_ok by blast
    then have "ran_defer cl f c True 0 h (it_emit [FcRun x st] it)"
      using v clos_current [of cl f c it] by (auto simp: ran_ok_def ran_defer_def)
    with SmRunDone.IH [of "it_emit [FcRun x st] it" True 0 h] SmRunDone.prems(1) Some show ?thesis by simp
  qed
next
  case (SmRollback n p)
  let ?it = "it_set_error_and_rollback n it"
  have v: "0 < n" "quiet p" and kh: "if iv_entry (it_view it) = None then k \<le> n \<and> n \<le> h else \<not> rn \<and> k \<le> n - 1 \<and> n - 1 \<le> h"
    using SmRollback.prems(1) unfolding tidy.simps by blast+
  note r = ran_defer_rollback [OF SmRollback.prems(2) v(1) kh]
  have "snd (sm_exec (SmRollback n p) S it) = ?it" using sm_exec_quiet [OF v(2) r(3)] by simp
  then show ?case using r(1,2) by auto
qed

lemma apply_round_ran:
  assumes tidy: "\<And>u v. tidy (fe_on_apply E u v) v False 0 0" and ok: "ran_ok cl f c False it"
    and good: "it_is_good it" and e: "it_cur_entry it = Some e" and r: "apply_round E e u it = (u', it')"
  shows "ran_ok cl f c False it'"
proof (cases "e_type e = ENTRY_TYPE_DATA")
  case True
  with r have "it' = iter_next (fe_store E) (snd (sm_exec (fe_on_apply E u (it_view it)) (fe_store E) (it_show it)))"
    by (auto simp: apply_round_def split: prod.splits)
  moreover have "tidy (fe_on_apply E u (it_view it)) (it_view (it_show it)) False 0 0" using tidy by simp
  moreover have "ran_defer cl f c False 0 0 (it_show it)" using ok by (simp add: ran_defer_zero)
  ultimately show ?thesis using sm_exec_ran ran_ok_leave by metis
next
  case False
  define it2 where "it2 = it_emit (handed_of e @ (case it_done it of None \<Rightarrow> [] | Some d \<Rightarrow> [FcRun d RcOk])) it"
  have it': "it' = it_next (fe_store E) it2"
    using r False by (auto simp: apply_round_def it2_def it_emit_emit handed_of_def entry_conf_def Let_def
        split: if_splits option.splits)
  have "fsm_ran (it_out it2) = clos cl f f (it_cur_index it)"
    using ok clos_current [of cl f c it] by (auto simp: it2_def ran_ok_def handed_of_def split: option.splits)
  then show ?thesis
    unfolding it' using ok good by (intro ran_ok_next) (simp_all add: it2_def ran_ok_def)
qed

lemma apply_loop_ran:
  "(\<And>u v. tidy (fe_on_apply E u v) v False 0 0) \<Longrightarrow> ran_ok cl f c False it \<Longrightarrow> apply_loop E u it = (u', it') \<Longrightarrow>
   ran_ok cl f c False it' \<and> \<not> it_is_good it'"
proof (induction E u it rule: apply_loop.induct)
  case (1 E u it)
  show ?case
  proof (cases "it_is_good it")
    case False
    with "1.prems" show ?thesis by (simp add: apply_loop.simps)
  next
    case True
    with "1.prems"(2) obtain e where e: "it_cur_entry it = Some e" by (auto simp: ran_ok_def it_base_def)
    obtain u1 it1 where r: "apply_round E e u it = (u1, it1)" by force
    have "ran_ok cl f c False it1" by (rule apply_round_ran [OF "1.prems"(1,2) True e r])
    moreover have "apply_loop E u1 it1 = (u', it')"
      using "1.prems"(3) True e r by (subst (asm) apply_loop.simps) simp
    ultimately show ?thesis using "1.IH" [of e u1 it1] True e r "1.prems"(1) by simp
  qed
qed

lemma it_new_ran:
  assumes "a < f" and "a < c"
  shows "ran_ok cl f c False (it_new S lm cl f a c ai)"
  using assms
  by (auto simp: it_new_def it_next_def it_emit_def it_is_good_def it_has_error_def ran_ok_def it_base_def Let_def
      split: prod.splits)

text \<open>The popped closures, with the index of the first one.\<close>

lemma pop_clos:
  assumes c: "c < cq_first_index q + int (length (cq_queue q)) \<or> cq_queue q = []"
  obtains cl f q' where "cq_pop_closure_until c q = (RcOk, cl, Some f, q')"
    and "clos cl f f c = some_of (take (nat (c + 1 - cq_first_index q)) (cq_queue q))"
    and "cq_queue q' = drop (nat (c + 1 - cq_first_index q)) (cq_queue q)"
    and "f = cq_first_index q \<or> f = c + 1"
proof (cases "cq_queue q = [] \<or> c < cq_first_index q")
  case True
  then have "cq_pop_closure_until c q = (RcOk, [], Some (c + 1), q)"
    by (simp add: cq_pop_closure_until_def)
  then show ?thesis by (rule that [of "[]" "c + 1" q]) (use True in auto)
next
  case False
  then obtain cl q' where p: "cq_pop_closure_until c q = (RcOk, cl, Some (cq_first_index q), q')"
    "int (length cl) = c + 1 - cq_first_index q" "cq_queue q = cl @ cq_queue q'"
    using cq_pop_in_range [of q c] c by auto
  then have "nat (c + 1 - cq_first_index q) = length cl" by simp
  with p clos_whole [OF p(2)] show ?thesis by (intro that [of cl "cq_first_index q" q']) simp_all
qed

lemma do_committed_runs_closures:
  assumes wf: "fc_wf fc" and ok: "fc_ok fc" and lt: "fc_last_applied_index fc < c"
    and tidy: "\<And>u v. tidy (fe_on_apply E u v) v False 0 0"
    and first: "fc_last_applied_index fc < cq_first_index (fc_queue fc)"
    and range: "c < cq_first_index (fc_queue fc) + int (length (cq_queue (fc_queue fc))) \<or> cq_queue (fc_queue fc) = []"
  shows "\<exists>evs. fc_out (fc_do_committed E c fc) = fc_out fc @ evs
      \<and> fsm_ran evs = some_of (take (nat (c + 1 - cq_first_index (fc_queue fc))) (cq_queue (fc_queue fc)))
      \<and> cq_queue (fc_queue (fc_do_committed E c fc))
          = drop (nat (c + 1 - cq_first_index (fc_queue fc))) (cq_queue (fc_queue fc))"
proof -
  let ?a = "fc_last_applied_index fc"
  obtain cl f q' where pop: "cq_pop_closure_until c (fc_queue fc) = (RcOk, cl, Some f, q')"
    and cl: "clos cl f f c = some_of (take (nat (c + 1 - cq_first_index (fc_queue fc))) (cq_queue (fc_queue fc)))"
    and q': "cq_queue q' = drop (nat (c + 1 - cq_first_index (fc_queue fc))) (cq_queue (fc_queue fc))"
    and f: "f = cq_first_index (fc_queue fc) \<or> f = c + 1"
    by (rule pop_clos [OF range]) (rule that; blast)
  let ?it0 = "it_new (fe_store E) (fc_lm fc) cl (case Some f of None \<Rightarrow> 0 | Some f \<Rightarrow> f) ?a c (fc_applying_index fc)"
  obtain u it where al: "apply_loop E (fc_user fc) ?it0 = (u, it)" by force
  have "ran_ok cl f c False ?it0"
    using it_new_ran [of ?a f c cl] f first lt by auto
  from apply_loop_ran [OF tidy this al] have r: "ran_ok cl f c False it" "\<not> it_is_good it" by simp_all
  then have cur: "it_cur_index it \<le> c + 1" "fsm_ran (it_out it) = clos cl f f (it_cur_index it - 1)"
    by (simp_all add: ran_ok_def it_base_def)
  from do_committed_cases [OF wf ok lt pop al] obtain evs where
    out: "fc_out (fc_do_committed E c fc) = fc_out fc @ it_out it @ evs"
    and ran: "fsm_ran evs = (if it_has_error it then fsm_ran (it_out (it_run_the_rest_closure_with_error (it\<lparr>it_out := []\<rparr>))) else [])"
    and q: "fc_queue (fc_do_committed E c fc) = q'" by metis
  have "fsm_ran (it_out it @ evs) = clos cl f f c"
  proof (cases "it_has_error it")
    case False
    with r cur have "it_cur_index it = c + 1" by (simp add: it_is_good_def ran_ok_def it_base_def)
    with False cur ran show ?thesis by simp
  next
    case True
    have "fsm_ran evs = clos cl f (max (it_cur_index it) f) c"
      using ran True r by (simp add: it_run_the_rest_closure_with_error_def it_emit_def closure_of_at clos_def
          ran_ok_def it_base_def)
    then show ?thesis
      using cur clos_split [of f "it_cur_index it - 1" c cl f] by (cases "it_cur_index it \<le> f") (simp_all add: max_def)
  qed
  with out q q' cl show ?thesis by (intro exI [of _ "it_out it @ evs"]) simp
qed

end
