(* ===== verification/FsmProps.thy ===== *)
theory FsmProps
  imports FsmRun FsmClosures
begin

section \<open>Properties of the FSM caller\<close>

text \<open>
  The three promises of the FSM caller to the rest of the program: every committed entry reaches the state
  machine once and in order, every closure of a committed task runs once, and nothing is applied after an
  error. A small log of a data entry, a configuration and a data entry, and two small machines, show that
  the hypotheses hold of real states.
\<close>

subsection \<open>A sample\<close>

definition sample_fsm_conf :: log_entry where
  "sample_fsm_conf = \<lparr>e_type = ENTRY_TYPE_CONFIGURATION, e_id = LogId 2 1,
     e_peers = Some [sample_peer 1, sample_peer 2], e_old_peers = None, e_data = ''''\<rparr>"

definition sample_fsm_entries :: "log_entry list" where
  "sample_fsm_entries = [sample_entry 1 1, sample_fsm_conf, sample_entry 3 1]"

definition sample_fsm_lm :: "mem_log fsm_lm" where
  "sample_fsm_lm =
     (log_manager_new \<lparr>ml_first = 1, ml_last = 3, ml_data = sample_fsm_entries\<rparr> config_manager_new)
       \<lparr>lm_first := 1, lm_last := 3, lm_memory := [sample_entry 3 1], lm_disk_id := LogId 3 1\<rparr>"

definition sample_fsm :: "(mem_log, nat, nat, nat) fsm_caller" where
  "sample_fsm = snd (fc_init sample_fsm_lm \<lparr>cq_first_index = 1, cq_queue = [Some 10, None, Some 30]\<rparr> 0 True True (LogId 0 0) True)"

text \<open>The machine counts its entries; with \<open>bad = Some i\<close> it fails at index \<open>i\<close>.\<close>

definition sample_fsm_env :: "int option \<Rightarrow> (mem_log, nat, nat, nat) fsm_env" where
  "sample_fsm_env bad =
     \<lparr>fe_store = mem_ops, fe_str2ip = sample_str2ip, fe_endpoint2str = sample_endpoint2str, fe_commit_batch = 512,
      fe_on_apply = (\<lambda>u v. if iv_entry v \<noteq> None \<and> bad = Some (iv_index v) then SmRollback 1 (SmReturn u)
                          else SmRunDone RcOk (SmReturn (u + 1))),
      fe_on_event = (\<lambda>ev u. u), fe_on_snapshot_save = (\<lambda>d u. u), fe_on_snapshot_load = (\<lambda>d u. (RcOk, u)),
      fe_save_start = (\<lambda>d m. True), fe_load_start = (\<lambda>d. True),
      fe_load_meta = (\<lambda>d. (RcOk, \<lparr>sm_last_included_index = 0, sm_last_included_term = 0, sm_peers = [], sm_old_peers = []\<rparr>))\<rparr>"

lemma sample_fsm_lm_fields [simp]:
  "lm_first sample_fsm_lm = 1" "lm_last sample_fsm_lm = 3" "lm_memory sample_fsm_lm = [sample_entry 3 1]"
  "lm_disk_queue sample_fsm_lm = []" "lm_applied_id sample_fsm_lm = LogId 0 0"
  "lm_last_snapshot_id sample_fsm_lm = LogId 0 0" "lm_virtual_first sample_fsm_lm = LogId 0 0"
  "lm_storage sample_fsm_lm = \<lparr>ml_first = 1, ml_last = 3, ml_data = sample_fsm_entries\<rparr>"
  "\<not> lm_has_error sample_fsm_lm" "lm_config sample_fsm_lm = config_manager_new" "lm_disk_id sample_fsm_lm = LogId 3 1"
  by (simp_all add: sample_fsm_lm_def log_manager_new_def)

lemma sample_fsm_lm_log: "lm_log mem_ops ml_data sample_fsm_lm = (1, sample_fsm_entries)"
  by (simp add: lm_log_def)

lemma sample_fsm_settled: "1 \<le> i \<Longrightarrow> i \<le> 3 \<Longrightarrow> settled mem_ops i sample_fsm_lm"
  by (simp add: settled_def ml_get_entry_def)

lemma sample_fsm_lm_inv: "lm_inv mem_ops (\<lambda>e. True) ml_valid ml_data sample_fsm_lm"
proof -
  have "suffix [sample_entry 3 1] sample_fsm_entries"
    by (simp add: suffix_def sample_fsm_entries_def)
  then show ?thesis
    using sample_fsm_settled
    by (simp add: lm_inv_def lm_wf_def sample_fsm_lm_log ml_valid_def runs_to_def alog_last_def cm_wf_new
        sample_fsm_entries_def sample_fsm_conf_def) (simp add: config_manager_new_def)
qed

lemma sample_fsm_fields [simp]:
  "fc_lm sample_fsm = sample_fsm_lm" "fc_queue sample_fsm = \<lparr>cq_first_index = 1, cq_queue = [Some 10, None, Some 30]\<rparr>"
  "fc_last_applied_index sample_fsm = 0" "fc_error sample_fsm = FsmError ERROR_TYPE_NONE RcOk" "fc_out sample_fsm = []"
  by (simp_all add: sample_fsm_def fc_init_def)

lemma sample_fsm_ok: "fc_ok sample_fsm" "fc_wf sample_fsm"
  by (simp_all add: fc_ok_def fc_wf_def err_wf_def)

lemma sample_fsm_log: "fsm_log mem_ops (\<lambda>e. True) ml_valid ml_data (1, sample_fsm_entries) sample_fsm"
  using sample_fsm_ok sample_fsm_lm_inv sample_fsm_settled
  by (simp add: fsm_log_def sample_fsm_lm_log disk_settled_def)

lemma sample_fsm_store [simp]: "fe_store (sample_fsm_env bad) = mem_ops"
  by (simp add: sample_fsm_env_def)

lemma sample_fsm_tidy: "tidy (fe_on_apply (sample_fsm_env bad) u v) v False 0 0"
  by (simp add: sample_fsm_env_def)

text \<open>
  A machine that takes two entries before it runs their closures: it leaves the first one's, finds that it
  cannot apply the pair, and rolls both back, whether or not there was a second.
\<close>

definition sample_pair_env :: "(mem_log, nat, nat, nat) fsm_env" where
  "sample_pair_env = (sample_fsm_env None)\<lparr>fe_on_apply := (\<lambda>u v. if iv_entry v = None then SmRunDone RcOk (SmReturn u)
     else SmNext (\<lambda>v'. if iv_entry v' = None then SmRollback 1 (SmReturn u) else SmRollback 2 (SmReturn u)))\<rparr>"

lemma sample_pair_tidy: "tidy (fe_on_apply sample_pair_env u v) v False 0 0"
  by (simp add: sample_pair_env_def)

definition sample_pair_fsm :: "(mem_log, nat, nat, nat) fsm_caller" where
  "sample_pair_fsm = sample_fsm
     \<lparr>fc_lm := (log_manager_new \<lparr>ml_first = 1, ml_last = 2, ml_data = [sample_entry 1 1, sample_entry 2 1]\<rparr> config_manager_new)
        \<lparr>lm_first := 1, lm_last := 2, lm_disk_id := LogId 2 1\<rparr>,
      fc_queue := \<lparr>cq_first_index = 1, cq_queue = [Some 10, Some 20]\<rparr>\<rparr>"

subsection \<open>The properties\<close>

text \<open>
  C7 (functional): a batch of tasks hands the log over from behind the last applied entry, each data entry
  and each stable configuration once and in log order; without an error it reaches exactly the largest index
  committed, whatever the batching, the order of the commits, and how many entries the machine takes in one
  call. After an error what was handed over is a prefix of that.
\<close>

theorem fsm_applies_log_in_order:
  fixes fc :: "(mem_log, 'c, 'u, 'p) fsm_caller"
  assumes "fe_store E = mem_ops" and "fsm_log mem_ops (\<lambda>e. True) ml_valid ml_data l fc"
    and "\<forall>t \<in> set ts. \<not> is_load t \<and> task_ok_error t"
    and "\<forall>i \<in> set (task_commits ts). i \<le> alog_last l" and "-1 \<le> alog_last l"
  shows "fsm_log mem_ops (\<lambda>e. True) ml_valid ml_data l (fc_run E ts fc)
    \<and> (\<exists>evs m. fc_out (fc_run E ts fc) = fc_out fc @ evs
        \<and> fc_last_applied_index fc \<le> m \<and> m \<le> fold max (task_commits ts) (fc_last_applied_index fc)
        \<and> fsm_handed evs = handed_range l (fc_last_applied_index fc + 1) m
        \<and> (fc_ok (fc_run E ts fc) \<longrightarrow> m = fold max (task_commits ts) (fc_last_applied_index fc)
             \<and> fc_last_applied_index (fc_run E ts fc) = m))"
proof -
  from mem.handed_on_run [OF assms]
  have "mem.handed_on l (fold max (task_commits ts) (fc_last_applied_index fc)) fc (fc_run E ts fc)" .
  then show ?thesis unfolding mem.handed_on_def by blast
qed

theorem fsm_applies_log_in_order_witness:
  "\<exists>evs m. fc_out (fc_run (sample_fsm_env None) [Committed 1, LeaderStart 2 5, Committed 3] sample_fsm) = evs
     \<and> 0 \<le> m \<and> m \<le> 3 \<and> fsm_handed evs = handed_range (1, sample_fsm_entries) 1 m"
  using fsm_applies_log_in_order [OF sample_fsm_store [of None] sample_fsm_log, of "[Committed 1, LeaderStart 2 5, Committed 3]"]
  by (simp add: task_commits_def alog_last_def sample_fsm_entries_def) blast

text \<open>
  C8 (safety): for a state machine that treats its closures as below, \<open>do_committed\<close> runs the closures
  of all committed entries the queue holds, each exactly once and in order, by the machine or by the library,
  and leaves the rest in the queue, also when the machine fails on the way, and however many tasks it
  rolls back, or the log cannot be read. The condition (\<open>tidy\<close>): the machine runs the closure of an entry
  it is shown at most once, while it stands on it; it returns without an error only if it has run them all;
  and when it reports an error with \<open>set_error_and_rollback(ntail)\<close>, the closures of the tasks it rolls
  back are those it has not run. The condition is needed: the library runs the closures of all the tasks
  rolled back, so a machine that also runs them itself, as the comment at raft.h:156 demands, has them run
  twice.
\<close>

theorem fsm_runs_closures_once:
  assumes "fc_wf fc" and "fc_ok fc" and "fc_last_applied_index fc < c"
    and "\<And>u v. tidy (fe_on_apply E u v) v False 0 0"
    and "fc_last_applied_index fc < cq_first_index (fc_queue fc)"
    and "c < cq_first_index (fc_queue fc) + int (length (cq_queue (fc_queue fc))) \<or> cq_queue (fc_queue fc) = []"
  shows "\<exists>evs. fc_out (fc_do_committed E c fc) = fc_out fc @ evs
      \<and> fsm_ran evs = some_of (take (nat (c + 1 - cq_first_index (fc_queue fc))) (cq_queue (fc_queue fc)))
      \<and> cq_queue (fc_queue (fc_do_committed E c fc))
          = drop (nat (c + 1 - cq_first_index (fc_queue fc))) (cq_queue (fc_queue fc))"
  using assms by (rule do_committed_runs_closures)

theorem fsm_runs_closures_once_witness:
  "(\<exists>evs. fc_out (fc_do_committed (sample_fsm_env (Some 1)) 3 sample_fsm) = evs \<and> fsm_ran evs = [10, 30])
   \<and> (\<exists>evs. fc_out (fc_do_committed sample_pair_env 2 sample_pair_fsm) = evs \<and> fsm_ran evs = [10, 20])"
proof
  show "\<exists>evs. fc_out (fc_do_committed (sample_fsm_env (Some 1)) 3 sample_fsm) = evs \<and> fsm_ran evs = [10, 30]"
    using fsm_runs_closures_once [OF sample_fsm_ok(2,1) _ sample_fsm_tidy [of "Some 1"], of 3]
    by (auto simp: some_of_def)
  have "fc_wf sample_pair_fsm" "fc_ok sample_pair_fsm" "fc_last_applied_index sample_pair_fsm = 0" "fc_out sample_pair_fsm = []"
    "fc_queue sample_pair_fsm = \<lparr>cq_first_index = 1, cq_queue = [Some 10, Some 20]\<rparr>"
    by (simp_all add: sample_pair_fsm_def fc_ok_def fc_wf_def err_wf_def)
  then show "\<exists>evs. fc_out (fc_do_committed sample_pair_env 2 sample_pair_fsm) = evs \<and> fsm_ran evs = [10, 20]"
    using fsm_runs_closures_once [OF _ _ _ sample_pair_tidy, of sample_pair_fsm 2] by (auto simp: some_of_def)
qed

subsection \<open>After an error\<close>

fun snapshot_results :: "('c, 'p) fsm_out list \<Rightarrow> ('p \<times> rc) list" where
  "snapshot_results [] = []"
| "snapshot_results (FcSnapshotDone d r # evs) = (d, r) # snapshot_results evs"
| "snapshot_results (_ # evs) = snapshot_results evs"

fun task_snapshot :: "'p apply_task \<Rightarrow> 'p list" where
  "task_snapshot (SnapshotSave d) = [d]"
| "task_snapshot (SnapshotLoad d) = [d]"
| "task_snapshot _ = []"

definition failed_snapshots :: "'p apply_task list \<Rightarrow> ('p \<times> rc) list" where
  "failed_snapshots ts = map (\<lambda>d. (d, RcErr EINVAL)) (concat (map task_snapshot ts))"

lemma snapshot_results_append [simp]: "snapshot_results (a @ b) = snapshot_results a @ snapshot_results b"
  by (induction a rule: snapshot_results.induct) simp_all

definition fc_stays :: "('p \<times> rc) list \<Rightarrow> ('s, 'c, 'u, 'p) fsm_caller \<Rightarrow> ('s, 'c, 'u, 'p) fsm_caller \<Rightarrow> bool" where
  "fc_stays ds fc fc' \<longleftrightarrow> fc_error fc' = fc_error fc \<and> fc_lm fc' = fc_lm fc \<and> fc_queue fc' = fc_queue fc
     \<and> fc_last_applied_index fc' = fc_last_applied_index fc
     \<and> (\<exists>evs. fc_out fc' = fc_out fc @ evs \<and> fsm_handed evs = [] \<and> fsm_ran evs = [] \<and> snapshot_results evs = ds)"

lemma fc_stays_trans: "fc_stays ds fc fc1 \<Longrightarrow> fc_stays ds' fc1 fc2 \<Longrightarrow> fc_stays (ds @ ds') fc fc2"
  by (fastforce simp: fc_stays_def)

lemma fc_stays_flush: "\<not> fc_ok fc \<Longrightarrow> fc_stays [] fc (fc_flush E mx fc)"
  by (simp add: fc_flush_def fc_do_committed_def fc_stays_def fc_ok_def)

lemma fc_stays_task:
  assumes "fc_wf fc" and "\<not> fc_ok fc"
  shows "fc_stays (failed_snapshots [t]) fc (fc_other_task E t fc)"
proof (cases t)
  case (OnErrorTask e)
  then show ?thesis
    using assms by (simp add: fc_stays_def failed_snapshots_def fc_do_on_error_def fc_set_error_def fc_wf_def err_wf_def fc_ok_def)
qed (use assms in \<open>simp_all add: fc_stays_def failed_snapshots_def fc_pass_by_status_def fc_ok_def fc_emit_def
      fc_do_leader_stop_def fc_do_leader_start_def fc_do_start_following_def fc_do_stop_following_def fc_notify_def\<close>)

lemma fc_stays_loop:
  "fc_wf fc \<Longrightarrow> \<not> fc_ok fc \<Longrightarrow> fc_stays (failed_snapshots ts) fc (fc_run_loop E ts mx counter fc)"
proof (induction ts arbitrary: mx counter fc)
  case Nil
  then show ?case using fc_stays_flush by (simp add: failed_snapshots_def)
next
  case (Cons t ts)
  let ?fc1 = "fc_flush E mx fc"
  note fl = fc_stays_flush [OF Cons.prems(2), of E mx]
  have f1: "fc_wf ?fc1" "\<not> fc_ok ?fc1" using fl Cons.prems by (simp_all add: fc_stays_def fc_wf_def fc_ok_def)
  have app: "failed_snapshots (t # ts) = failed_snapshots [t] @ failed_snapshots ts"
    by (simp add: failed_snapshots_def)
  show ?case
  proof (cases "\<exists>i. t = Committed i")
    case True
    then have "failed_snapshots (t # ts) = failed_snapshots ts" by (auto simp: failed_snapshots_def)
    with True Cons.IH [OF Cons.prems] fc_stays_trans [OF fl Cons.IH [OF f1]] show ?thesis
      by (auto simp: Let_def)
  next
    case False
    note ot = fc_stays_task [OF f1, of t E]
    then have "fc_wf (fc_other_task E t ?fc1)" "\<not> fc_ok (fc_other_task E t ?fc1)"
      using f1 by (simp_all add: fc_stays_def fc_wf_def fc_ok_def)
    from fc_stays_trans [OF fl fc_stays_trans [OF ot Cons.IH [OF this]]] False show ?thesis
      unfolding app by (cases t) (simp_all add: Let_def)
  qed
qed

text \<open>
  C9 (error): once an error is set no task changes what was applied: the error stays the first one, no
  entry and no configuration is handed over, no closure of a task runs, the closure queue, the log manager
  and the applied index stay, and every snapshot that is asked for, to save or to load, ends with
  \<open>EINVAL\<close>, in order.
\<close>

theorem fsm_stops_after_error:
  assumes "fc_wf fc" and "\<not> fc_ok fc"
  shows "fc_error (fc_run E ts fc) = fc_error fc \<and> fc_lm (fc_run E ts fc) = fc_lm fc
    \<and> fc_queue (fc_run E ts fc) = fc_queue fc \<and> fc_last_applied_index (fc_run E ts fc) = fc_last_applied_index fc
    \<and> (\<exists>evs. fc_out (fc_run E ts fc) = fc_out fc @ evs \<and> fsm_handed evs = [] \<and> fsm_ran evs = []
         \<and> snapshot_results evs = failed_snapshots ts)"
  using fc_stays_loop [OF assms, of ts E "-1" 0] by (simp add: fc_run_def fc_stays_def)

definition failed_fsm :: "(mem_log, nat, nat, nat) fsm_caller" where
  "failed_fsm = sample_fsm\<lparr>fc_error := FsmError ERROR_TYPE_STATE_MACHINE (RcErr ESTATEMACHINE)\<rparr>"

theorem fsm_stops_after_error_witness:
  "\<exists>evs. fc_out (fc_run (sample_fsm_env None) [Committed 3, SnapshotLoad 7, SnapshotSave 8] failed_fsm) = evs
     \<and> fsm_handed evs = [] \<and> snapshot_results evs = [(7, RcErr EINVAL), (8, RcErr EINVAL)]"
proof -
  have "fc_wf failed_fsm" "\<not> fc_ok failed_fsm" "fc_out failed_fsm = []"
    by (simp_all add: failed_fsm_def fc_wf_def err_wf_def fc_ok_def)
  then show ?thesis
    using fsm_stops_after_error [of failed_fsm "sample_fsm_env None" "[Committed 3, SnapshotLoad 7, SnapshotSave 8]"]
    by (simp add: failed_snapshots_def)
qed

end
