(* ===== verification/SnapshotThrottle.thy ===== *)
theory SnapshotThrottle
  imports RaftTypes
begin

section \<open>Snapshot throttle (snapshot_throttle.h, snapshot_throttle.cpp)\<close>

text \<open>
  \<open>ThroughputSnapshotThrottle\<close> bounds the bytes read or copied per cycle and the number of
  snapshots installed at once. The time in microseconds and the flags are arguments; divisions of
  non-negative numbers, the only ones the code makes here, are those of \<^verbatim>\<open>int64_t\<close>.
\<close>

record throttle =
  th_throughput_bytes :: int
  th_check_cycle :: int
  th_task_num :: int
  th_last_check_time_us :: int
  th_cur_bytes :: int

definition caculate_check_time_us :: "int \<Rightarrow> int \<Rightarrow> int" where
  "caculate_check_time_us current check_cycle =
     (let base = 1000 * 1000 div check_cycle in current div base * base)"

definition throttle_new :: "int \<Rightarrow> int \<Rightarrow> int \<Rightarrow> throttle" where
  "throttle_new now bytes cycle =
     \<lparr>th_throughput_bytes = bytes, th_check_cycle = cycle, th_task_num = 0,
      th_last_check_time_us = caculate_check_time_us now cycle, th_cur_bytes = 0\<rparr>"

definition limit_per_cycle :: "int \<Rightarrow> throttle \<Rightarrow> int" where
  "limit_per_cycle minimal_mb t =
     max (th_throughput_bytes t) (minimal_mb * 1024 * 1024) div th_check_cycle t"

definition throttled_by_throughput :: "int \<Rightarrow> int \<Rightarrow> int \<Rightarrow> throttle \<Rightarrow> int \<times> throttle" where
  "throttled_by_throughput minimal_mb now bytes t =
     (let limit = limit_per_cycle minimal_mb t
      in if th_cur_bytes t + bytes > limit
         then if now - th_last_check_time_us t \<le> 1 * 1000 * 1000 div th_check_cycle t
              then (if limit > th_cur_bytes t then limit - th_cur_bytes t else 0, t\<lparr>th_cur_bytes := limit\<rparr>)
              else (let available = (if bytes > limit then limit else bytes)
                    in (available, t\<lparr>th_cur_bytes := available,
                                     th_last_check_time_us := caculate_check_time_us now (th_check_cycle t)\<rparr>))
         else (bytes, t\<lparr>th_cur_bytes := th_cur_bytes t + bytes\<rparr>))"

definition add_one_more_task :: "int \<Rightarrow> bool \<Rightarrow> throttle \<Rightarrow> bool \<times> throttle" where
  "add_one_more_task max_tasks is_leader t =
     (if is_leader then (True, t)
      else if th_task_num t \<ge> max_tasks then (False, t)
      else (True, t\<lparr>th_task_num := th_task_num t + 1\<rparr>))"

definition finish_one_task :: "bool \<Rightarrow> throttle \<Rightarrow> throttle" where
  "finish_one_task is_leader t = (if is_leader then t else t\<lparr>th_task_num := th_task_num t - 1\<rparr>)"

definition throttle_retry_interval_ms :: "throttle \<Rightarrow> int" where
  "throttle_retry_interval_ms t = 1000 div th_check_cycle t + 1"

definition return_unused_throughput :: "int \<Rightarrow> int \<Rightarrow> int \<Rightarrow> int \<Rightarrow> throttle \<Rightarrow> throttle" where
  "return_unused_throughput now acquired consumed elapsed_us t =
     (if now - elapsed_us < th_last_check_time_us t then t
      else t\<lparr>th_cur_bytes := max (th_cur_bytes t - (acquired - consumed)) 0\<rparr>)"

text \<open>What is granted never exceeds what is asked for, nor what the cycle has left.\<close>

lemma throttled_bounds:
  assumes "0 \<le> bytes" and "0 \<le> limit_per_cycle mb t" and "0 \<le> th_cur_bytes t"
    and "throttled_by_throughput mb now bytes t = (n, t')"
  shows "0 \<le> n \<and> n \<le> bytes \<and> 0 \<le> th_cur_bytes t' \<and> n \<le> th_cur_bytes t'
     \<and> th_check_cycle t' = th_check_cycle t \<and> limit_per_cycle mb t' = limit_per_cycle mb t
     \<and> (th_cur_bytes t \<le> limit_per_cycle mb t \<longrightarrow> th_cur_bytes t' \<le> limit_per_cycle mb t)
     \<and> (th_last_check_time_us t' = th_last_check_time_us t \<longrightarrow> n \<le> max 0 (limit_per_cycle mb t - th_cur_bytes t)
          \<or> th_cur_bytes t' = n)"
  using assms by (auto simp: throttled_by_throughput_def Let_def limit_per_cycle_def split: if_splits)

end
