(* ===== verification/SnapshotExecutor.thy ===== *)
theory SnapshotExecutor
  imports RaftMessages SnapshotThrottle
begin

section \<open>Snapshot executor (snapshot_executor.h, snapshot_executor.cpp)\<close>

text \<open>
  The executor starts the saving of snapshots and installs the ones a leader sends: an install request
  is registered, a copier downloads, the FSM caller loads. Each critical section under \<open>_mutex\<close>
  is a definition. A closure handed to the FSM caller, and a thread that waits for the copier, are values
  these definitions return; the steps further down say who may run when. What the snapshot storage,
  the copier and the FSM caller answer are arguments. \<open>se_out\<close> lists what the executor makes
  others do: closures of users (\<open>SeRun\<close>), answers to RPCs (\<open>SeReply\<close>, \<open>SeFail\<close>), calls.
\<close>

datatype 'c se_event =
  SeRun 'c rc
| SeError rc
| SeClearBuffered
| SeSetSnapshot snapshot_meta
| SeUpdateConfiguration
| SeReply nat install_snapshot_response
| SeFail nat rc
| SeCancelCopier
| SeCloseCopier
| SeCloseReader
| SeWriterError rc
| SeSaveMeta snapshot_meta

text \<open>\<open>DownloadingSnapshot\<close>: the RPC, its request, the response filled in so far.\<close>

record downloading =
  ds_call :: nat
  ds_request :: install_snapshot_request
  ds_response :: install_snapshot_response

abbreviation ds_index :: "downloading \<Rightarrow> int" where
  "ds_index d \<equiv> sm_last_included_index (iq_meta (ds_request d))"

record 'c snapshot_executor =
  se_last_snapshot_index :: int
  se_last_snapshot_term :: int
  se_term :: int
  se_saving :: bool
  se_loading :: bool
  se_stopped :: bool
  se_has_copier :: bool
  se_downloading :: "downloading option"
  se_loading_meta :: snapshot_meta
  se_running_jobs :: int
  se_throttle :: "throttle option"
  se_out :: "'c se_event list"

definition empty_snapshot_meta :: snapshot_meta where
  "empty_snapshot_meta = \<lparr>sm_last_included_index = 0, sm_last_included_term = 0, sm_peers = [], sm_old_peers = []\<rparr>"

definition snapshot_executor_new :: "int \<Rightarrow> throttle option \<Rightarrow> 'c snapshot_executor" where
  "snapshot_executor_new init_term th =
     \<lparr>se_last_snapshot_index = 0, se_last_snapshot_term = 0, se_term = init_term, se_saving = False,
      se_loading = False, se_stopped = False, se_has_copier = False, se_downloading = None,
      se_loading_meta = empty_snapshot_meta, se_running_jobs = 0, se_throttle = th, se_out = []\<rparr>"

definition se_emit :: "'c se_event list \<Rightarrow> 'c snapshot_executor \<Rightarrow> 'c snapshot_executor" where
  "se_emit evs se = se\<lparr>se_out := se_out se @ evs\<rparr>"

definition se_run_opt :: "'c option \<Rightarrow> rc \<Rightarrow> 'c snapshot_executor \<Rightarrow> 'c snapshot_executor" where
  "se_run_opt d st se = (case d of None \<Rightarrow> se | Some c \<Rightarrow> se_emit [SeRun c st] se)"

definition se_report_error :: "errno \<Rightarrow> 'c snapshot_executor \<Rightarrow> 'c snapshot_executor" where
  "se_report_error e se = se_emit [SeError (RcErr e)] se"

subsection \<open>Saving a snapshot\<close>

text \<open>
  What becomes of a call of \<open>do_snapshot\<close>: it ends at once, the \<open>SaveSnapshotDone\<close> is with
  the FSM caller, it runs because the FSM caller refused it, or it is refused and nobody runs it.
\<close>

datatype save_fate = NotSaving | SaveQueued | SaveRefusedRuns | SaveRefusedLost

record save_env =
  sv_applied_index :: int
  sv_min_index_gap :: int
  sv_writer_created :: bool
  sv_fsm_accepts :: bool

definition se_do_snapshot ::
  "save_env \<Rightarrow> 'c option \<Rightarrow> 'c snapshot_executor \<Rightarrow> save_fate \<times> 'c snapshot_executor" where
  "se_do_snapshot E d se =
     (if se_stopped se then (NotSaving, se_run_opt d (RcErr EPERM) se)
      else if se_downloading se \<noteq> None then (NotSaving, se_run_opt d (RcErr EBUSY) se)
      else if se_saving se then (NotSaving, se_run_opt d (RcErr EBUSY) se)
      else if sv_applied_index E - se_last_snapshot_index se < sv_min_index_gap E
      then (NotSaving, se_run_opt d RcOk (se_emit [SeClearBuffered] se))
      else if \<not> sv_writer_created E
      then (NotSaving, se_report_error EIO (se_run_opt d (RcErr EIO) se))
      else (let se1 = se\<lparr>se_saving := True\<rparr>
            in if \<not> sv_fsm_accepts E
               then (if d \<noteq> None then SaveRefusedRuns else SaveRefusedLost, se1)
               else (SaveQueued, se1\<lparr>se_running_jobs := se_running_jobs se1 + 1\<rparr>)))"

text \<open>
  \<open>on_snapshot_save_done\<close>, in its first critical section, the unlocked part with the storage, and
  the rest; then what \<open>continue_run\<close> does with the result.
\<close>

definition se_save_check ::
  "rc \<Rightarrow> snapshot_meta \<Rightarrow> 'c snapshot_executor \<Rightarrow> rc \<times> 'c snapshot_executor" where
  "se_save_check st meta se =
     (if st = RcOk \<and> sm_last_included_index meta \<le> se_last_snapshot_index se
      then (RcErr ESTALE, se_emit [SeWriterError (RcErr ESTALE)] se) else (st, se))"

definition se_save_close :: "bool \<Rightarrow> bool \<Rightarrow> bool \<Rightarrow> snapshot_meta \<Rightarrow> rc \<Rightarrow> rc \<times> 'c se_event list" where
  "se_save_close meta_saved writer_ok closed meta ret =
     (case (if ret = RcOk then (if meta_saved then RcOk else RcErr EIO, [SeSaveMeta meta])
            else (ret, if writer_ok then [SeWriterError ret] else [])) of
        (ret1, evs) \<Rightarrow> (if \<not> closed then RcErr EIO else ret1, evs))"

definition se_save_finish :: "snapshot_meta \<Rightarrow> rc \<Rightarrow> 'c snapshot_executor \<Rightarrow> 'c snapshot_executor" where
  "se_save_finish meta ret se =
     (let se1 = (if ret = RcOk
                 then se_emit [SeSetSnapshot meta]
                        (se\<lparr>se_last_snapshot_index := sm_last_included_index meta,
                            se_last_snapshot_term := sm_last_included_term meta\<rparr>)
                 else se);
          se2 = (if ret = RcErr EIO then se_report_error EIO se1 else se1)
      in se2\<lparr>se_saving := False, se_running_jobs := se_running_jobs se2 - 1\<rparr>)"

definition se_save_continue :: "rc \<Rightarrow> rc \<Rightarrow> 'c option \<Rightarrow> 'c snapshot_executor \<Rightarrow> 'c snapshot_executor" where
  "se_save_continue st ret d se =
     se_run_opt d (if ret \<noteq> RcOk \<and> st = RcOk then ret else st) se"

subsection \<open>Installing a snapshot\<close>

datatype register_result = Registered | RegisterFailed | RegisterReplaced

definition se_fail :: "downloading \<Rightarrow> errno \<Rightarrow> 'c snapshot_executor \<Rightarrow> 'c snapshot_executor" where
  "se_fail ds e se = se_emit [SeFail (ds_call ds) (RcErr e)] se"

definition se_reply :: "downloading \<Rightarrow> 'c snapshot_executor \<Rightarrow> 'c snapshot_executor" where
  "se_reply ds se = se_emit [SeReply (ds_call ds) (ds_response ds)] se"

text \<open>
  \<open>register_downloading_snapshot\<close>, with the answer that the guard of \<open>install_snapshot\<close> then
  gives when it failed. \<open>copy_starts\<close> says whether the storage gives a copier.
\<close>

definition se_register ::
  "bool \<Rightarrow> downloading \<Rightarrow> 'c snapshot_executor \<Rightarrow> register_result \<times> 'c snapshot_executor" where
  "se_register copy_starts ds0 se =
     (if se_stopped se then (RegisterFailed, se_fail ds0 EHOSTDOWN se)
      else if iq_term (ds_request ds0) \<noteq> se_term se
      then (RegisterFailed, se_reply (ds0\<lparr>ds_response := \<lparr>ir_term = se_term se, ir_success = False\<rparr>\<rparr>) se)
      else if ds_index ds0 \<le> se_last_snapshot_index se
      then (RegisterFailed, se_reply (ds0\<lparr>ds_response := \<lparr>ir_term = se_term se, ir_success = True\<rparr>\<rparr>) se)
      else (let ds = ds0\<lparr>ds_response := (ds_response ds0)\<lparr>ir_term := se_term se\<rparr>\<rparr>
            in if se_saving se then (RegisterFailed, se_fail ds EBUSY se)
               else case se_downloading se of
                 None \<Rightarrow>
                   if copy_starts
                   then (Registered, se\<lparr>se_downloading := Some ds, se_has_copier := True,
                                        se_running_jobs := se_running_jobs se + 1\<rparr>)
                   else (RegisterFailed, se_fail ds EINVAL (se\<lparr>se_has_copier := False\<rparr>))
               | Some m \<Rightarrow>
                   if ds_index m = ds_index ds
                   then (RegisterReplaced, se_fail m EINTR (se\<lparr>se_downloading := Some ds\<rparr>))
                   else if ds_index m > ds_index ds then (RegisterFailed, se_fail ds EINVAL se)
                   else if se_loading se then (RegisterFailed, se_fail ds EBUSY se)
                   else (RegisterFailed, se_fail ds EBUSY (se_emit [SeCancelCopier] se))))"

definition se_throttle_finish :: "'c snapshot_executor \<Rightarrow> 'c snapshot_executor" where
  "se_throttle_finish se = se\<lparr>se_throttle := map_option (finish_one_task False) (se_throttle se)\<rparr>"

text \<open>
  \<open>install_snapshot\<close> up to the join of the copier; the result says whether this thread waits for
  it. \<open>max_tasks\<close> is the flag \<^verbatim>\<open>raft_max_install_snapshot_tasks_num\<close>.
\<close>

definition se_install_snapshot ::
  "int \<Rightarrow> bool \<Rightarrow> nat \<Rightarrow> install_snapshot_request \<Rightarrow> 'c snapshot_executor \<Rightarrow> bool \<times> 'c snapshot_executor" where
  "se_install_snapshot max_tasks copy_starts call request se =
     (let ds = \<lparr>ds_call = call, ds_request = request, ds_response = \<lparr>ir_term = 0, ir_success = False\<rparr>\<rparr>;
          (ok, th) = (case se_throttle se of
                        None \<Rightarrow> (True, None)
                      | Some t \<Rightarrow> (case add_one_more_task max_tasks False t of (b, t') \<Rightarrow> (b, Some t')))
      in if \<not> ok then (False, se_fail ds EBUSY se)
         else case se_register copy_starts ds (se\<lparr>se_throttle := th\<rparr>) of
                (Registered, se1) \<Rightarrow> (True, se1)
              | (_, se1) \<Rightarrow> (False, se_throttle_finish se1))"

text \<open>
  What the joined copier holds: its error (\<open>RcOk\<close> for none) and whether it has a reader and that
  reader is in order.
\<close>

record copier_result =
  cr_error :: rc
  cr_reader :: "bool option"

text \<open>
  \<open>load_downloading_snapshot\<close>, run by the thread that joined the copier; \<open>meta\<close> is of the
  request it came with. The result says whether a load task goes to the FSM caller. The last
  \<open>SetFailed\<close> comes after the unlock.
\<close>

definition se_load_downloading ::
  "copier_result \<Rightarrow> snapshot_meta \<Rightarrow> 'c snapshot_executor \<Rightarrow> bool \<times> 'c snapshot_executor" where
  "se_load_downloading cr meta se =
     (case se_downloading se of
        None \<Rightarrow> (False, se)
      | Some ds \<Rightarrow>
          (let close_reader = (if cr_reader cr \<noteq> None then [SeCloseReader] else [])
           in if cr_error cr \<noteq> RcOk
              then (let se1 = (if cr_error cr = RcErr EIO then se_report_error EIO se else se);
                        se2 = se_emit (close_reader @ [SeCloseCopier]) se1
                    in (False, se_emit [SeFail (ds_call ds) (cr_error cr)]
                                 (se2\<lparr>se_has_copier := False, se_downloading := None,
                                      se_running_jobs := se_running_jobs se2 - 1\<rparr>)))
              else (let se1 = se_emit [SeCloseCopier] (se\<lparr>se_has_copier := False\<rparr>)
                    in if cr_reader cr \<noteq> Some True
                       then (let se2 = se_emit close_reader se1
                             in (False, se_fail ds EINTERNAL
                                          (se2\<lparr>se_downloading := None, se_running_jobs := se_running_jobs se2 - 1\<rparr>)))
                       else (True, se1\<lparr>se_loading := True, se_loading_meta := meta\<rparr>))))"

text \<open>
  \<open>on_snapshot_load_done\<close>: the load's result, and the node's configuration; \<open>m\<close> is read in
  the first critical section, the RPC is answered after the last.
\<close>

definition se_load_done :: "bool \<Rightarrow> rc \<Rightarrow> 'c snapshot_executor \<Rightarrow> 'c snapshot_executor" where
  "se_load_done has_node st se =
     (let m = se_downloading se;
          se1 = (if st = RcOk
                 then se_emit [SeSetSnapshot (se_loading_meta se)]
                        (se\<lparr>se_last_snapshot_index := sm_last_included_index (se_loading_meta se),
                            se_last_snapshot_term := sm_last_included_term (se_loading_meta se)\<rparr>)
                 else se);
          se2 = (if has_node then se_emit [SeUpdateConfiguration] se1 else se1);
          se3 = se2\<lparr>se_loading := False, se_downloading := None\<rparr>;
          se4 = (case m of
                   None \<Rightarrow> se3
                 | Some ds \<Rightarrow>
                     if st \<noteq> RcOk then se_emit [SeFail (ds_call ds) st] se3
                     else se_reply (ds\<lparr>ds_response := (ds_response ds)\<lparr>ir_success := True\<rparr>\<rparr>) se3)
      in se4\<lparr>se_running_jobs := se_running_jobs se4 - 1\<rparr>)"

definition se_interrupt_downloading :: "int \<Rightarrow> 'c snapshot_executor \<Rightarrow> 'c snapshot_executor" where
  "se_interrupt_downloading new_term se =
     (let se1 = se\<lparr>se_term := new_term\<rparr>
      in if se_downloading se1 = None then se1
         else if se_loading se1 then se1
         else se_emit [SeCancelCopier] se1)"

definition se_shutdown :: "'c snapshot_executor \<Rightarrow> 'c snapshot_executor" where
  "se_shutdown se = se_interrupt_downloading (se_term se) (se\<lparr>se_stopped := True\<rparr>)"

definition se_join_returns :: "'c snapshot_executor \<Rightarrow> bool" where
  "se_join_returns se \<longleftrightarrow> se_running_jobs se \<le> 0"

definition se_is_installing :: "'c snapshot_executor \<Rightarrow> bool" where
  "se_is_installing se \<longleftrightarrow> se_downloading se \<noteq> None"

text \<open>
  \<open>init\<close>: opens the storage and, when it holds a snapshot, has the FSM caller load it and waits.
  \<open>snapshot\<close> is the meta the reader gives (\<open>None\<close> inside when it cannot be read), \<open>st\<close> the status
  the load ended with.
\<close>

definition se_init ::
  "bool \<Rightarrow> bool \<Rightarrow> bool \<Rightarrow> snapshot_meta option option \<Rightarrow> rc \<Rightarrow> bool \<Rightarrow> 'c snapshot_executor
   \<Rightarrow> rc \<times> 'c snapshot_executor" where
  "se_init uri_ok storage_found storage_init snapshot st has_node se =
     (if \<not> uri_ok \<or> \<not> storage_found \<or> \<not> storage_init then (RcFail, se)
      else case snapshot of
        None \<Rightarrow> (RcOk, se)
      | Some None \<Rightarrow> (RcFail, se_emit [SeCloseReader] se)
      | Some (Some meta) \<Rightarrow>
          (let se1 = se\<lparr>se_loading_meta := meta, se_loading := True, se_running_jobs := se_running_jobs se + 1\<rparr>;
               se2 = se_emit [SeCloseReader] (se_load_done has_node st se1)
           in (if st \<noteq> RcOk then RcFail else RcOk, se2)))"

subsection \<open>Who runs when\<close>

text \<open>
  \<open>se_world\<close>: the executor, the \<open>SaveSnapshotDone\<close> closures on their way (queued with the FSM
  caller, run because it refused them, or between the critical sections of \<open>on_snapshot_save_done\<close>),
  the threads that wait for the copier with the meta of their request, the number of load
  closures with the FSM caller; and, for the theorems, the RPCs received, the closures given to
  \<open>do_snapshot\<close> and how many refused closures have signalled \<open>_running_jobs\<close>. A step is one
  critical section of one thread; the outcomes of storage, copier and state machine are arbitrary.
\<close>

datatype 'c saver =
  SaverQueued "'c option"
| SaverRefused "'c option"
| SaverChecked "'c option" bool rc snapshot_meta rc

record 'c se_world =
  w_se :: "'c snapshot_executor"
  w_savers :: "'c saver list"
  w_copies :: "snapshot_meta list"
  w_loads :: nat
  w_calls :: "nat list"
  w_given :: "'c list"
  w_refused :: nat

definition list_of :: "'a option \<Rightarrow> 'a list" where
  "list_of x = (case x of None \<Rightarrow> [] | Some c \<Rightarrow> [c])"

definition world_do_snapshot :: "save_env \<Rightarrow> 'c option \<Rightarrow> 'c se_world \<Rightarrow> 'c se_world" where
  "world_do_snapshot E d w =
     (case se_do_snapshot E d (w_se w) of
        (fate, se) \<Rightarrow>
          w\<lparr>w_se := se, w_given := w_given w @ list_of d,
            w_savers := w_savers w @ (case fate of SaveQueued \<Rightarrow> [SaverQueued d] | SaveRefusedRuns \<Rightarrow> [SaverRefused d]
                                     | _ \<Rightarrow> [])\<rparr>)"

definition world_save_check ::
  "'c saver \<Rightarrow> rc \<Rightarrow> snapshot_meta \<Rightarrow> 'c se_world \<Rightarrow> 'c se_world" where
  "world_save_check s st meta w =
     (case s of
        SaverQueued d \<Rightarrow>
          (case se_save_check st meta (w_se w) of
             (ret, se) \<Rightarrow> w\<lparr>w_se := se, w_savers := SaverChecked d False st meta ret # remove1 s (w_savers w)\<rparr>)
      | SaverRefused d \<Rightarrow>
          (case se_save_check (RcErr EHOSTDOWN) meta (w_se w) of
             (ret, se) \<Rightarrow> w\<lparr>w_se := se, w_savers := SaverChecked d True (RcErr EHOSTDOWN) meta ret # remove1 s (w_savers w)\<rparr>)
      | SaverChecked d b st' meta' ret \<Rightarrow> w)"

definition world_save_finish ::
  "'c saver \<Rightarrow> bool \<Rightarrow> bool \<Rightarrow> bool \<Rightarrow> 'c se_world \<Rightarrow> 'c se_world" where
  "world_save_finish s meta_saved writer_ok closed w =
     (case s of
        SaverChecked d refused st meta ret \<Rightarrow>
          (case se_save_close meta_saved writer_ok closed meta ret of
             (ret1, evs) \<Rightarrow>
               w\<lparr>w_se := se_save_continue st ret1 d (se_save_finish meta ret1 (se_emit evs (w_se w))),
                 w_savers := remove1 s (w_savers w),
                 w_refused := w_refused w + (if refused then 1 else 0)\<rparr>)
      | _ \<Rightarrow> w)"

definition world_install ::
  "int \<Rightarrow> bool \<Rightarrow> nat \<Rightarrow> install_snapshot_request \<Rightarrow> 'c se_world \<Rightarrow> 'c se_world" where
  "world_install max_tasks copy_starts call request w =
     (case se_install_snapshot max_tasks copy_starts call request (w_se w) of
        (waits, se) \<Rightarrow>
          w\<lparr>w_se := se, w_calls := call # w_calls w,
            w_copies := (if waits then [iq_meta request] else []) @ w_copies w\<rparr>)"

text \<open>The thread whose copier is joined; \<open>InstallSnapshotDone\<close> closes its reader when deleted.\<close>

definition se_install_done_run :: "bool \<Rightarrow> rc \<Rightarrow> 'c snapshot_executor \<Rightarrow> 'c snapshot_executor" where
  "se_install_done_run has_node st se = se_emit [SeCloseReader] (se_load_done has_node st se)"

definition world_copied ::
  "copier_result \<Rightarrow> bool \<Rightarrow> bool \<Rightarrow> snapshot_meta \<Rightarrow> 'c se_world \<Rightarrow> 'c se_world" where
  "world_copied cr fsm_accepts has_node meta w =
     (case se_load_downloading cr meta (se_throttle_finish (w_se w)) of
        (loads, se) \<Rightarrow>
          (let w1 = w\<lparr>w_se := se, w_copies := remove1 meta (w_copies w)\<rparr>
           in if \<not> loads then w1
              else if fsm_accepts then w1\<lparr>w_loads := w_loads w1 + 1\<rparr>
              else w1\<lparr>w_se := se_install_done_run has_node (RcErr EHOSTDOWN) (w_se w1)\<rparr>))"

definition world_load_done :: "bool \<Rightarrow> rc \<Rightarrow> 'c se_world \<Rightarrow> 'c se_world" where
  "world_load_done has_node st w =
     w\<lparr>w_se := se_install_done_run has_node st (w_se w), w_loads := w_loads w - 1\<rparr>"

inductive se_step :: "'c se_world \<Rightarrow> 'c se_world \<Rightarrow> bool" where
  step_do_snapshot: "se_step w (world_do_snapshot E d w)"
| step_save_check: "s \<in> set (w_savers w) \<Longrightarrow> se_step w (world_save_check s st meta w)"
| step_save_finish: "s \<in> set (w_savers w) \<Longrightarrow> se_step w (world_save_finish s ms wo cl w)"
| step_install: "call \<notin> set (w_calls w) \<Longrightarrow> se_step w (world_install mt cs call request w)"
| step_copied: "meta \<in> set (w_copies w) \<Longrightarrow> se_step w (world_copied cr fa hn meta w)"
| step_load_done: "0 < w_loads w \<Longrightarrow> se_step w (world_load_done hn st w)"
| step_interrupt: "se_step w (w\<lparr>w_se := se_interrupt_downloading t (w_se w)\<rparr>)"
| step_shutdown: "se_step w (w\<lparr>w_se := se_shutdown (w_se w)\<rparr>)"

definition world_new :: "'c snapshot_executor \<Rightarrow> 'c se_world" where
  "world_new se =
     \<lparr>w_se = se, w_savers = [], w_copies = [], w_loads = 0, w_calls = [], w_given = [], w_refused = 0\<rparr>"

inductive se_reachable :: "'c se_world \<Rightarrow> bool" where
  reach_init: "se_init True True True snapshot st hn (snapshot_executor_new t th) = (RcOk, se)
     \<Longrightarrow> se_reachable (world_new se)"
| reach_step: "se_reachable w \<Longrightarrow> se_step w w' \<Longrightarrow> se_reachable w'"

end
