(* ===== verification/SnapshotExecutorSafety.thy ===== *)
theory SnapshotExecutorSafety
  imports SnapshotExecutor "HOL-Library.Multiset"
begin

section \<open>The snapshot executor over all interleavings\<close>

text \<open>
  \<open>se_core\<close> is the invariant of the executor and its threads: at most one snapshot is saved, or
  one is downloaded or loaded, never both; the one being installed is newer than the last one. The other
  invariants count: RPCs and their answers, jobs, closures, and the snapshots given to the log manager.
\<close>

fun answered :: "'c se_event list \<Rightarrow> nat list" where
  "answered [] = []"
| "answered (SeReply c r # evs) = c # answered evs"
| "answered (SeFail c e # evs) = c # answered evs"
| "answered (_ # evs) = answered evs"

fun closures_run :: "'c se_event list \<Rightarrow> 'c list" where
  "closures_run [] = []"
| "closures_run (SeRun c st # evs) = c # closures_run evs"
| "closures_run (_ # evs) = closures_run evs"

fun snapshots_set :: "'c se_event list \<Rightarrow> int list" where
  "snapshots_set [] = []"
| "snapshots_set (SeSetSnapshot m # evs) = sm_last_included_index m # snapshots_set evs"
| "snapshots_set (_ # evs) = snapshots_set evs"

lemma events_append [simp]:
  "answered (a @ b) = answered a @ answered b" "closures_run (a @ b) = closures_run a @ closures_run b"
  "snapshots_set (a @ b) = snapshots_set a @ snapshots_set b"
  by (induction a rule: answered.induct) simp_all

fun saver_closure :: "'c saver \<Rightarrow> 'c list" where
  "saver_closure (SaverQueued d) = list_of d"
| "saver_closure (SaverRefused d) = list_of d"
| "saver_closure (SaverChecked d b st m r) = list_of d"

fun saver_job :: "'c saver \<Rightarrow> nat" where
  "saver_job (SaverQueued d) = 1"
| "saver_job (SaverRefused d) = 0"
| "saver_job (SaverChecked d b st m r) = (if b then 0 else 1)"

fun saver_newer :: "int \<Rightarrow> 'c saver \<Rightarrow> bool" where
  "saver_newer k (SaverChecked d b st m r) = (r = RcOk \<longrightarrow> k < sm_last_included_index m)"
| "saver_newer k _ = True"

definition se_core :: "'c se_world \<Rightarrow> bool" where
  "se_core w \<longleftrightarrow> (let se = w_se w in
     length (w_savers w) \<le> 1 \<and> (w_savers w \<noteq> [] \<longrightarrow> se_saving se)
     \<and> (\<forall>s \<in> set (w_savers w). saver_newer (se_last_snapshot_index se) s)
     \<and> (se_loading se \<longleftrightarrow> 0 < w_loads w) \<and> (se_has_copier se \<longleftrightarrow> w_copies w \<noteq> [])
     \<and> (case se_downloading se of
          None \<Rightarrow> w_copies w = [] \<and> w_loads w = 0
        | Some ds \<Rightarrow> \<not> se_saving se \<and> w_savers w = [] \<and> se_last_snapshot_index se < ds_index ds
            \<and> (w_copies w = [] \<and> w_loads w = 1 \<and> sm_last_included_index (se_loading_meta se) = ds_index ds
               \<or> (\<exists>m. w_copies w = [m] \<and> w_loads w = 0 \<and> sm_last_included_index m = ds_index ds))))"

definition se_calls :: "'c se_world \<Rightarrow> bool" where
  "se_calls w \<longleftrightarrow> mset (answered (se_out (w_se w))) + mset (map ds_call (list_of (se_downloading (w_se w)))) = mset (w_calls w)"

definition se_jobs :: "'c se_world \<Rightarrow> bool" where
  "se_jobs w \<longleftrightarrow> se_running_jobs (w_se w) + int (w_refused w)
     = int (sum_list (map saver_job (w_savers w))) + int (length (w_copies w)) + int (w_loads w)"

definition se_closures :: "'c se_world \<Rightarrow> bool" where
  "se_closures w \<longleftrightarrow> mset (closures_run (se_out (w_se w))) + mset (concat (map saver_closure (w_savers w))) = mset (w_given w)"

definition se_snaps :: "'c se_world \<Rightarrow> bool" where
  "se_snaps w \<longleftrightarrow> sorted_wrt (<) (snapshots_set (se_out (w_se w)))
     \<and> (snapshots_set (se_out (w_se w)) \<noteq> [] \<longrightarrow> last (snapshots_set (se_out (w_se w))) = se_last_snapshot_index (w_se w))"

definition se_inv :: "'c se_world \<Rightarrow> bool" where
  "se_inv w \<longleftrightarrow> se_core w \<and> se_calls w \<and> se_jobs w \<and> se_closures w \<and> se_snaps w"

named_theorems se_defs

lemmas [se_defs] = se_core_def se_calls_def se_jobs_def se_closures_def se_snaps_def Let_def list_of_def
  se_emit_def se_run_opt_def se_report_error_def se_fail_def se_reply_def

lemma sorted_snoc: "sorted_wrt (<) xs \<Longrightarrow> (xs \<noteq> [] \<Longrightarrow> last xs = k) \<Longrightarrow> k < (i::int) \<Longrightarrow> sorted_wrt (<) (xs @ [i])"
proof (induction xs)
  case (Cons a xs)
  then show ?case by (cases "xs = []") (auto simp: sorted_wrt_append, meson last_in_set less_trans)
qed simp

lemma one_saver: "length xs \<le> 1 \<Longrightarrow> s \<in> set xs \<Longrightarrow> xs = [s]"
  by (cases xs) auto

subsection \<open>Each step keeps the invariant\<close>

lemma do_snapshot_inv:
  assumes "se_inv w"
  shows "se_inv (world_do_snapshot E d w)"
proof -
  have "se_core (world_do_snapshot E d w)" using assms
    by (auto simp: se_inv_def se_defs world_do_snapshot_def se_do_snapshot_def split: option.splits)
  moreover have "se_calls (world_do_snapshot E d w)" using assms
    by (auto simp: se_inv_def se_defs world_do_snapshot_def se_do_snapshot_def split: option.splits)
  moreover have "se_jobs (world_do_snapshot E d w)" using assms
    by (auto simp: se_inv_def se_defs world_do_snapshot_def se_do_snapshot_def split: option.splits)
  moreover have "se_closures (world_do_snapshot E d w)" using assms
    by (auto simp: se_inv_def se_defs world_do_snapshot_def se_do_snapshot_def split: option.splits)
  moreover have "se_snaps (world_do_snapshot E d w)" using assms
    by (auto simp: se_inv_def se_defs world_do_snapshot_def se_do_snapshot_def split: option.splits)
  ultimately show ?thesis by (simp add: se_inv_def)
qed

lemma save_check_inv:
  assumes inv: "se_inv w" and s: "s \<in> set (w_savers w)"
  shows "se_inv (world_save_check s st meta w)"
proof -
  have ws: "w_savers w = [s]" using inv s by (intro one_saver) (auto simp: se_inv_def se_defs)
  let ?w = "world_save_check s st meta w"
  have "se_core ?w" using inv ws
    by (cases s) (auto simp: se_inv_def se_defs world_save_check_def se_save_check_def split: option.splits)
  moreover have "se_calls ?w" using inv ws
    by (cases s) (auto simp: se_inv_def se_defs world_save_check_def se_save_check_def split: option.splits)
  moreover have "se_jobs ?w" using inv ws
    by (cases s) (auto simp: se_inv_def se_defs world_save_check_def se_save_check_def split: option.splits)
  moreover have "se_closures ?w" using inv ws
    by (cases s) (auto simp: se_inv_def se_defs world_save_check_def se_save_check_def split: option.splits)
  moreover have "se_snaps ?w" using inv ws
    by (cases s) (auto simp: se_inv_def se_defs world_save_check_def se_save_check_def split: option.splits)
  ultimately show ?thesis by (simp add: se_inv_def)
qed

lemma save_close_events:
  assumes "se_save_close a b c meta ret = (ret1, evs)"
  shows "answered evs = []" "closures_run evs = []" "snapshots_set evs = []" "ret1 = RcOk \<longrightarrow> ret = RcOk"
  using assms by (auto simp: se_save_close_def split: if_splits)

lemma save_finish_inv:
  assumes inv: "se_inv w" and s: "s \<in> set (w_savers w)"
  shows "se_inv (world_save_finish s ms wo cl w)"
proof (cases s)
  case (SaverChecked d b st meta ret)
  have ws: "w_savers w = [s]" using inv s by (intro one_saver) (auto simp: se_inv_def se_defs)
  let ?w = "world_save_finish s ms wo cl w"
  obtain ret1 evs where c: "se_save_close ms wo cl meta ret = (ret1, evs :: 'a se_event list)" by force
  note e = save_close_events [OF c]
  have "se_core ?w" using inv ws e
    by (auto simp: SaverChecked se_inv_def se_defs world_save_finish_def c se_save_finish_def se_save_continue_def
        split: option.splits)
  moreover have "se_calls ?w" using inv ws e
    by (auto simp: SaverChecked se_inv_def se_defs world_save_finish_def c se_save_finish_def se_save_continue_def
        split: option.splits)
  moreover have "se_jobs ?w" using inv ws e
    by (auto simp: SaverChecked se_inv_def se_defs world_save_finish_def c se_save_finish_def se_save_continue_def
        split: option.splits)
  moreover have "se_closures ?w" using inv ws e
    by (auto simp: SaverChecked se_inv_def se_defs world_save_finish_def c se_save_finish_def se_save_continue_def
        split: option.splits)
  moreover have "se_snaps ?w" using inv ws e
    by (auto simp: SaverChecked se_inv_def se_defs world_save_finish_def c se_save_finish_def se_save_continue_def
        sorted_snoc split: option.splits)
  ultimately show ?thesis by (simp add: se_inv_def)
qed (use inv in \<open>simp_all add: world_save_finish_def\<close>)

text \<open>Registering: the RPC is answered at once, or it becomes the one to be answered.\<close>

lemma register_spec:
  assumes "se_register cs ds se = (r, se')"
  shows "mset (answered (se_out se')) + mset (map ds_call (list_of (se_downloading se')))
      = add_mset (ds_call ds) (mset (answered (se_out se)) + mset (map ds_call (list_of (se_downloading se))))"
    and "closures_run (se_out se') = closures_run (se_out se)" "snapshots_set (se_out se') = snapshots_set (se_out se)"
    and "se_last_snapshot_index se' = se_last_snapshot_index se" "se_saving se' = se_saving se"
    and "se_loading se' = se_loading se" "se_loading_meta se' = se_loading_meta se"
    and "r = Registered \<longrightarrow> se_downloading se = None \<and> \<not> se_saving se \<and> se_last_snapshot_index se < ds_index ds
      \<and> (\<exists>d. se_downloading se' = Some d \<and> ds_index d = ds_index ds) \<and> se_has_copier se'
      \<and> se_running_jobs se' = se_running_jobs se + 1"
    and "r \<noteq> Registered \<longrightarrow> map_option ds_index (se_downloading se') = map_option ds_index (se_downloading se)
      \<and> (se_downloading se \<noteq> None \<longrightarrow> se_has_copier se' = se_has_copier se)
      \<and> (se_downloading se = None \<and> \<not> se_has_copier se \<longrightarrow> \<not> se_has_copier se')
      \<and> se_running_jobs se' = se_running_jobs se"
  using assms by (auto simp: se_register_def se_defs split: if_splits option.splits)

lemma throttle_finish_same [simp]:
  "se_out (se_throttle_finish se) = se_out se" "se_downloading (se_throttle_finish se) = se_downloading se"
  "se_last_snapshot_index (se_throttle_finish se) = se_last_snapshot_index se"
  "se_saving (se_throttle_finish se) = se_saving se" "se_loading (se_throttle_finish se) = se_loading se"
  "se_loading_meta (se_throttle_finish se) = se_loading_meta se"
  "se_has_copier (se_throttle_finish se) = se_has_copier se"
  "se_running_jobs (se_throttle_finish se) = se_running_jobs se"
  by (simp_all add: se_throttle_finish_def)

lemma install_spec:
  assumes "se_install_snapshot mt cs call req se = (waits, se')"
  shows "mset (answered (se_out se')) + mset (map ds_call (list_of (se_downloading se')))
      = add_mset call (mset (answered (se_out se)) + mset (map ds_call (list_of (se_downloading se))))"
    and "closures_run (se_out se') = closures_run (se_out se)" "snapshots_set (se_out se') = snapshots_set (se_out se)"
    and "se_last_snapshot_index se' = se_last_snapshot_index se" "se_saving se' = se_saving se"
    and "se_loading se' = se_loading se" "se_loading_meta se' = se_loading_meta se"
    and "waits \<longrightarrow> se_downloading se = None \<and> \<not> se_saving se
      \<and> se_last_snapshot_index se < sm_last_included_index (iq_meta req)
      \<and> (\<exists>d. se_downloading se' = Some d \<and> ds_index d = sm_last_included_index (iq_meta req)) \<and> se_has_copier se'
      \<and> se_running_jobs se' = se_running_jobs se + 1"
    and "\<not> waits \<longrightarrow> map_option ds_index (se_downloading se') = map_option ds_index (se_downloading se)
      \<and> (se_downloading se \<noteq> None \<longrightarrow> se_has_copier se' = se_has_copier se)
      \<and> (se_downloading se = None \<and> \<not> se_has_copier se \<longrightarrow> \<not> se_has_copier se')
      \<and> se_running_jobs se' = se_running_jobs se"
proof -
  let ?ds = "\<lparr>ds_call = call, ds_request = req, ds_response = \<lparr>ir_term = 0, ir_success = False\<rparr>\<rparr>"
  obtain ok th where th: "(case se_throttle se of None \<Rightarrow> (True, None)
      | Some t \<Rightarrow> (case add_one_more_task mt False t of (b, t') \<Rightarrow> (b, Some t'))) = (ok, th)" by force
  obtain r se1 where r: "se_register cs ?ds (se\<lparr>se_throttle := th\<rparr>) = (r, se1)" by force
  have res: "(waits, se') = (if ok then (if r = Registered then (True, se1) else (False, se_throttle_finish se1))
      else (False, se_fail ?ds EBUSY se))"
    using assms by (cases r) (auto simp: se_install_snapshot_def th r Let_def)
  note sp = register_spec [OF r]
  show "mset (answered (se_out se')) + mset (map ds_call (list_of (se_downloading se')))
      = add_mset call (mset (answered (se_out se)) + mset (map ds_call (list_of (se_downloading se))))"
    using res sp(1) by (auto simp: se_fail_def se_emit_def split: if_splits)
  show "closures_run (se_out se') = closures_run (se_out se)" "snapshots_set (se_out se') = snapshots_set (se_out se)"
    "se_last_snapshot_index se' = se_last_snapshot_index se" "se_saving se' = se_saving se"
    "se_loading se' = se_loading se" "se_loading_meta se' = se_loading_meta se"
    using res sp(2-7) by (auto simp: se_fail_def se_emit_def split: if_splits)
  show "waits \<longrightarrow> se_downloading se = None \<and> \<not> se_saving se
      \<and> se_last_snapshot_index se < sm_last_included_index (iq_meta req)
      \<and> (\<exists>d. se_downloading se' = Some d \<and> ds_index d = sm_last_included_index (iq_meta req)) \<and> se_has_copier se'
      \<and> se_running_jobs se' = se_running_jobs se + 1"
    using res sp(8) by (auto split: if_splits)
  show "\<not> waits \<longrightarrow> map_option ds_index (se_downloading se') = map_option ds_index (se_downloading se)
      \<and> (se_downloading se \<noteq> None \<longrightarrow> se_has_copier se' = se_has_copier se)
      \<and> (se_downloading se = None \<and> \<not> se_has_copier se \<longrightarrow> \<not> se_has_copier se')
      \<and> se_running_jobs se' = se_running_jobs se"
    using res sp(9) by (auto simp: se_fail_def se_emit_def split: if_splits)
qed

lemma install_inv:
  assumes inv: "se_inv w"
  shows "se_inv (world_install mt cs call req w)"
proof -
  obtain waits se where i: "se_install_snapshot mt cs call req (w_se w) = (waits, se)" by force
  note sp = install_spec [OF i]
  let ?w = "world_install mt cs call req w"
  have core: "se_core w" using inv by (simp add: se_inv_def)
  have "se_core ?w"
  proof (cases waits)
    case True
    with sp(8) obtain d where "se_downloading (w_se w) = None" "\<not> se_saving (w_se w)" "se_downloading se = Some d"
      "ds_index d = sm_last_included_index (iq_meta req)" "se_last_snapshot_index (w_se w) < ds_index d" "se_has_copier se"
      by auto
    then show ?thesis using core sp(4-7) True by (auto simp: se_core_def Let_def world_install_def i)
  next
    case False
    then show ?thesis using core sp(4-7,9)
      by (cases "se_downloading (w_se w)"; cases "se_downloading se") (auto simp: se_core_def Let_def world_install_def i)
  qed
  moreover have "se_calls ?w" using inv sp(1) by (simp add: se_inv_def se_calls_def world_install_def i)
  moreover have "se_jobs ?w" using inv sp(8,9) by (auto simp: se_inv_def se_jobs_def world_install_def i)
  moreover have "se_closures ?w" using inv sp(2) by (simp add: se_inv_def se_closures_def world_install_def i)
  moreover have "se_snaps ?w" using inv sp(3,4) by (simp add: se_inv_def se_snaps_def world_install_def i)
  ultimately show ?thesis by (simp add: se_inv_def)
qed

text \<open>Finishing a load: the pending RPC is answered and the snapshot, if loaded, is the newest.\<close>

lemma load_done_spec:
  "se_out (se_install_done_run hn st se) = se_out se @ (if st = RcOk then [SeSetSnapshot (se_loading_meta se)] else [])
     @ (if hn then [SeUpdateConfiguration] else [])
     @ (case se_downloading se of None \<Rightarrow> [] | Some ds \<Rightarrow>
          [if st \<noteq> RcOk then SeFail (ds_call ds) st else SeReply (ds_call ds) ((ds_response ds)\<lparr>ir_success := True\<rparr>)])
     @ [SeCloseReader]"
  "se_downloading (se_install_done_run hn st se) = None" "\<not> se_loading (se_install_done_run hn st se)"
  "se_last_snapshot_index (se_install_done_run hn st se)
     = (if st = RcOk then sm_last_included_index (se_loading_meta se) else se_last_snapshot_index se)"
  "se_saving (se_install_done_run hn st se) = se_saving se" "se_has_copier (se_install_done_run hn st se) = se_has_copier se"
  "se_running_jobs (se_install_done_run hn st se) = se_running_jobs se - 1"
  by (auto simp: se_install_done_run_def se_load_done_def se_emit_def se_reply_def Let_def split: option.splits)

lemma load_done_inv:
  assumes inv: "se_inv w" and l: "0 < w_loads w"
  shows "se_inv (world_load_done hn st w)"
proof -
  let ?w = "world_load_done hn st w"
  from inv l obtain ds where ds: "se_downloading (w_se w) = Some ds" "w_copies w = []" "w_loads w = 1" "w_savers w = []"
    "sm_last_included_index (se_loading_meta (w_se w)) = ds_index ds" "se_last_snapshot_index (w_se w) < ds_index ds"
    "\<not> se_saving (w_se w)" "\<not> se_has_copier (w_se w)"
    by (auto simp: se_inv_def se_core_def Let_def split: option.splits)
  have "se_core ?w" using ds by (simp add: se_core_def Let_def world_load_done_def load_done_spec)
  moreover have "se_calls ?w" using inv ds
    by (simp add: se_inv_def se_calls_def world_load_done_def load_done_spec list_of_def)
  moreover have "se_jobs ?w" using inv ds by (simp add: se_inv_def se_jobs_def world_load_done_def load_done_spec)
  moreover have "se_closures ?w" using inv ds
    by (simp add: se_inv_def se_closures_def world_load_done_def load_done_spec)
  moreover have "se_snaps ?w" using inv ds
    by (auto simp: se_inv_def se_snaps_def world_load_done_def load_done_spec sorted_snoc)
  ultimately show ?thesis by (simp add: se_inv_def)
qed

text \<open>The joined copier: the RPC fails, or the load closure takes over.\<close>

lemma load_downloading_spec:
  assumes "se_load_downloading cr meta se = (loads, se')" and "se_downloading se = Some ds"
  shows "\<not> loads \<longrightarrow> se_downloading se' = None \<and> se_loading se' = se_loading se \<and> se_running_jobs se' = se_running_jobs se - 1
      \<and> mset (answered (se_out se')) = add_mset (ds_call ds) (mset (answered (se_out se)))"
    and "loads \<longrightarrow> se_downloading se' = Some ds \<and> se_loading se' \<and> se_loading_meta se' = meta
      \<and> se_running_jobs se' = se_running_jobs se \<and> answered (se_out se') = answered (se_out se)"
    and "closures_run (se_out se') = closures_run (se_out se)" "snapshots_set (se_out se') = snapshots_set (se_out se)"
    and "se_last_snapshot_index se' = se_last_snapshot_index se" "se_saving se' = se_saving se" "\<not> se_has_copier se'"
  using assms by (auto simp: se_load_downloading_def se_emit_def se_fail_def se_report_error_def Let_def split: if_splits)

lemma world_load_fails:
  "world_copied cr fa hn meta w = (case se_load_downloading cr meta (se_throttle_finish (w_se w)) of
     (loads, se) \<Rightarrow> (let w1 = w\<lparr>w_se := se, w_copies := remove1 meta (w_copies w), w_loads := w_loads w + (if loads then 1 else 0)\<rparr>
       in if loads \<and> \<not> fa then world_load_done hn (RcErr EHOSTDOWN) w1 else w1))"
  by (auto simp: world_copied_def world_load_done_def Let_def split: prod.splits)

lemma copied_inv:
  assumes inv: "se_inv w" and m: "meta \<in> set (w_copies w)"
  shows "se_inv (world_copied cr fa hn meta w)"
proof -
  from inv m obtain ds where ds: "se_downloading (w_se w) = Some ds" "w_copies w = [meta]" "w_loads w = 0" "w_savers w = []"
    "sm_last_included_index meta = ds_index ds" "se_last_snapshot_index (w_se w) < ds_index ds"
    "\<not> se_saving (w_se w)" "\<not> se_loading (w_se w)"
    by (auto simp: se_inv_def se_core_def Let_def split: option.splits)
  obtain loads se where l: "se_load_downloading cr meta (se_throttle_finish (w_se w)) = (loads, se)" by force
  have ds': "se_downloading (se_throttle_finish (w_se w)) = Some ds" using ds(1) by simp
  note sp = load_downloading_spec [OF l ds', simplified]
  let ?w1 = "w\<lparr>w_se := se, w_copies := remove1 meta (w_copies w), w_loads := w_loads w + (if loads then 1 else 0)\<rparr>"
  have 1: "se_inv ?w1"
  proof -
    have "se_core ?w1" using ds sp by (cases loads) (simp_all add: se_core_def Let_def)
    moreover have "se_calls ?w1" using inv ds sp
      by (cases loads) (simp_all add: se_inv_def se_calls_def list_of_def)
    moreover have "se_jobs ?w1" using inv ds sp by (cases loads) (simp_all add: se_inv_def se_jobs_def)
    moreover have "se_closures ?w1" using inv sp by (simp add: se_inv_def se_closures_def)
    moreover have "se_snaps ?w1" using inv sp by (simp add: se_inv_def se_snaps_def)
    ultimately show ?thesis by (simp add: se_inv_def)
  qed
  show ?thesis
  proof (cases "loads \<and> \<not> fa")
    case True
    then show ?thesis using load_done_inv [OF 1] by (simp add: world_load_fails l)
  next
    case False
    then show ?thesis using 1 by (auto simp: world_load_fails l Let_def)
  qed
qed

lemma interrupt_fields [simp]:
  "answered (se_out (se_interrupt_downloading t se)) = answered (se_out se)"
  "closures_run (se_out (se_interrupt_downloading t se)) = closures_run (se_out se)"
  "snapshots_set (se_out (se_interrupt_downloading t se)) = snapshots_set (se_out se)"
  "se_downloading (se_interrupt_downloading t se) = se_downloading se"
  "se_last_snapshot_index (se_interrupt_downloading t se) = se_last_snapshot_index se"
  "se_saving (se_interrupt_downloading t se) = se_saving se" "se_loading (se_interrupt_downloading t se) = se_loading se"
  "se_loading_meta (se_interrupt_downloading t se) = se_loading_meta se"
  "se_has_copier (se_interrupt_downloading t se) = se_has_copier se"
  "se_running_jobs (se_interrupt_downloading t se) = se_running_jobs se"
  by (simp_all add: se_interrupt_downloading_def se_emit_def Let_def)

lemma interrupt_inv:
  assumes "se_inv w"
  shows "se_inv (w\<lparr>w_se := se_interrupt_downloading t (w_se w)\<rparr>)"
    and "se_inv (w\<lparr>w_se := se_shutdown (w_se w)\<rparr>)"
  using assms by (cases "se_downloading (w_se w)"; simp add: se_inv_def se_core_def se_calls_def se_jobs_def se_closures_def
      se_snaps_def se_shutdown_def Let_def)+

lemma step_inv: "se_step w w' \<Longrightarrow> se_inv w \<Longrightarrow> se_inv w'"
  by (cases rule: se_step.cases)
    (auto intro: do_snapshot_inv save_check_inv save_finish_inv install_inv copied_inv load_done_inv interrupt_inv)

lemma init_inv:
  assumes "se_init True True True snapshot st hn (snapshot_executor_new t th) = (r, se)"
  shows "se_inv (world_new se)"
proof (cases snapshot)
  case None
  then show ?thesis using assms
    by (auto simp: se_init_def se_inv_def se_core_def se_calls_def se_jobs_def se_closures_def se_snaps_def list_of_def
        world_new_def snapshot_executor_new_def)
next
  case (Some m)
  show ?thesis
  proof (cases m)
    case None
    with Some assms show ?thesis
      by (auto simp: se_init_def se_inv_def se_core_def se_calls_def se_jobs_def se_closures_def se_snaps_def list_of_def
          world_new_def snapshot_executor_new_def se_emit_def)
  next
    case (Some meta)
    let ?se0 = "(snapshot_executor_new t th)\<lparr>se_loading_meta := meta, se_loading := True, se_running_jobs := 1\<rparr>"
    have "se = se_install_done_run hn st ?se0"
      using assms Some \<open>snapshot = Some m\<close>
      by (simp add: se_init_def se_install_done_run_def Let_def snapshot_executor_new_def)
    then show ?thesis
      by (simp add: load_done_spec se_inv_def se_core_def se_calls_def se_jobs_def se_closures_def se_snaps_def list_of_def
          world_new_def snapshot_executor_new_def)
  qed
qed

lemma reachable_inv: "se_reachable w \<Longrightarrow> se_inv w"
  by (induction rule: se_reachable.induct) (auto intro: init_inv step_inv)

subsection \<open>The properties\<close>

text \<open>A run: a closure saves a snapshot at index 5, then a leader installs one at index 9.\<close>

definition sample_install :: install_snapshot_request where
  "sample_install = \<lparr>iq_group_id = ''g'', iq_server_id = ''a'', iq_peer_id = ''b'', iq_term = 1,
     iq_meta = empty_snapshot_meta\<lparr>sm_last_included_index := 9, sm_last_included_term := 1\<rparr>, iq_uri = ''u''\<rparr>"

definition sample_se_world :: "nat se_world" where
  "sample_se_world =
     world_install 10 True 3 sample_install
       (world_save_finish (SaverChecked (Some 7) False RcOk (empty_snapshot_meta\<lparr>sm_last_included_index := 5\<rparr>) RcOk) True True True
         (world_save_check (SaverQueued (Some 7)) RcOk (empty_snapshot_meta\<lparr>sm_last_included_index := 5\<rparr>)
           (world_do_snapshot \<lparr>sv_applied_index = 5, sv_min_index_gap = 1, sv_writer_created = True, sv_fsm_accepts = True\<rparr>
             (Some 7) (world_new (snapshot_executor_new 1 None)))))"

lemmas sample_se_defs = world_install_def world_save_finish_def world_save_check_def world_do_snapshot_def world_new_def
  snapshot_executor_new_def se_do_snapshot_def se_save_check_def se_save_close_def se_save_finish_def se_save_continue_def
  se_install_snapshot_def se_register_def se_emit_def se_run_opt_def list_of_def Let_def empty_snapshot_meta_def

lemma sample_se_reachable: "se_reachable sample_se_world"
proof -
  let ?m = "empty_snapshot_meta\<lparr>sm_last_included_index := 5\<rparr>"
  let ?w0 = "world_new (snapshot_executor_new 1 None) :: nat se_world"
  let ?w1 = "world_do_snapshot \<lparr>sv_applied_index = 5, sv_min_index_gap = 1, sv_writer_created = True, sv_fsm_accepts = True\<rparr> (Some 7) ?w0"
  let ?w2 = "world_save_check (SaverQueued (Some 7)) RcOk ?m ?w1"
  let ?w3 = "world_save_finish (SaverChecked (Some 7) False RcOk ?m RcOk) True True True ?w2"
  have "se_reachable ?w0"
    by (rule reach_init [of None RcOk True]) (simp add: se_init_def)
  then have 1: "se_reachable ?w1" by (rule reach_step) (rule step_do_snapshot)
  have "SaverQueued (Some 7) \<in> set (w_savers ?w1)" by (simp add: sample_se_defs)
  with 1 have 2: "se_reachable ?w2" by (blast intro: reach_step step_save_check)
  have "SaverChecked (Some 7) False RcOk ?m RcOk \<in> set (w_savers ?w2)" by (simp add: sample_se_defs)
  with 2 have 3: "se_reachable ?w3" by (blast intro: reach_step step_save_finish)
  have "3 \<notin> set (w_calls ?w3)" by (simp add: sample_se_defs)
  with 3 show ?thesis unfolding sample_se_world_def by (blast intro: reach_step step_install)
qed

lemma sample_se_state:
  "se_last_snapshot_index (w_se sample_se_world) = 5" "map ds_index (list_of (se_downloading (w_se sample_se_world))) = [9]"
  "w_calls sample_se_world = [3]" "w_given sample_se_world = [7]"
  by (simp_all add: sample_se_world_def sample_se_defs sample_install_def)

text \<open>
  C10 (safety): in every reachable state of the executor, over all interleavings of its critical sections
  and all outcomes of storage, copier and state machine, saving and installing exclude each other and
  at most one snapshot is saved or installed at a time; what is being installed is newer than the last
  snapshot; and the snapshots given to the log manager are strictly increasing, the last one being the
  executor's. So the log manager is never asked to go back to an older snapshot.
\<close>

theorem snapshots_advance_one_at_a_time:
  assumes "se_reachable w"
  shows "length (w_savers w) + length (w_copies w) + w_loads w \<le> 1
    \<and> (se_downloading (w_se w) \<noteq> None \<longrightarrow> \<not> se_saving (w_se w))
    \<and> (\<forall>ds. se_downloading (w_se w) = Some ds \<longrightarrow> se_last_snapshot_index (w_se w) < ds_index ds)
    \<and> sorted_wrt (<) (snapshots_set (se_out (w_se w)))
    \<and> (snapshots_set (se_out (w_se w)) \<noteq> [] \<longrightarrow> last (snapshots_set (se_out (w_se w))) = se_last_snapshot_index (w_se w))"
  using reachable_inv [OF assms]
  by (auto simp: se_inv_def se_core_def se_snaps_def Let_def split: option.splits)

theorem snapshots_advance_one_at_a_time_witness:
  "length (w_savers sample_se_world) + length (w_copies sample_se_world) + w_loads sample_se_world \<le> 1
   \<and> se_last_snapshot_index (w_se sample_se_world) = 5"
  using snapshots_advance_one_at_a_time [OF sample_se_reachable] sample_se_state by blast

text \<open>
  C11 (liveness): every install request is answered exactly once: at any time the RPCs answered so far
  and the one being installed are exactly those received; so with none being installed all are answered.
\<close>

theorem install_rpcs_answered_once:
  assumes "se_reachable w"
  shows "mset (answered (se_out (w_se w))) + mset (map ds_call (list_of (se_downloading (w_se w)))) = mset (w_calls w)"
  using reachable_inv [OF assms] by (simp add: se_inv_def se_calls_def)

theorem install_rpcs_answered_once_witness:
  "mset (answered (se_out (w_se sample_se_world))) + mset (map ds_call (list_of (se_downloading (w_se sample_se_world)))) = {#3#}"
  using install_rpcs_answered_once [OF sample_se_reachable] by (simp add: sample_se_state)

text \<open>
  C12 (invariant): every closure given to \<open>do_snapshot\<close> runs exactly once, at once or when the
  saving ends, and the count of running jobs, which \<open>join\<close> waits for, is that of the snapshots saved,
  copied and loaded, less one for every save closure that the FSM caller refused.
\<close>

theorem snapshot_closures_and_jobs:
  assumes "se_reachable w"
  shows "mset (closures_run (se_out (w_se w))) + mset (concat (map saver_closure (w_savers w))) = mset (w_given w)
    \<and> se_running_jobs (w_se w) = int (sum_list (map saver_job (w_savers w))) + int (length (w_copies w))
        + int (w_loads w) - int (w_refused w)"
  using reachable_inv [OF assms] by (simp add: se_inv_def se_closures_def se_jobs_def)

theorem snapshot_closures_and_jobs_witness:
  "mset (closures_run (se_out (w_se sample_se_world))) + mset (concat (map saver_closure (w_savers sample_se_world))) = {#7#}"
  using snapshot_closures_and_jobs [OF sample_se_reachable] by (simp add: sample_se_state)

end
