(* ===== verification/Snapshot.thy ===== *)
theory Snapshot
  imports LogManager "HOL-Library.Char_ord" "HOL-Library.List_Lexorder"
begin

section \<open>Local snapshot storage (snapshot.h, snapshot.cpp)\<close>

text \<open>
  A snapshot is a directory of files with a meta table in the file \<^verbatim>\<open>__raft_snapshot_meta\<close>. The table
  is a list of files, sorted by name like the \<^verbatim>\<open>std::map\<close>, and the snapshot's meta, if it is set; what the
  meta file holds is the message \<open>LocalSnapshotPbMeta\<close>, whose codec is generated code and left out. The
  storage is the directories under its path: those named after an index, and \<^verbatim>\<open>temp\<close>. Every operation of the
  file system may fail; the outcomes are arguments, and a failed deletion or rename changes nothing. A
  message is saved as a whole or not at all, as \<open>pb_save_atomic\<close> shows of \<open>ProtoBufFile\<close>.
\<close>

datatype file_source = FILE_SOURCE_LOCAL | FILE_SOURCE_REFERENCE

record file_meta =
  fm_user_meta :: "string option"
  fm_source :: file_source
  fm_checksum :: "string option"

subsection \<open>The meta table\<close>

record meta_table =
  mt_files :: "(string \<times> file_meta) list"
  mt_meta :: "snapshot_meta option"

record snapshot_pb =
  pb_meta :: "snapshot_meta option"
  pb_files :: "(string \<times> file_meta) list"

definition empty_table :: meta_table where
  "empty_table = \<lparr>mt_files = [], mt_meta = None\<rparr>"

text \<open>\<open>std::map\<close>: lookup, erase, and assignment through \<open>[]\<close>, which keeps the order of the keys.\<close>

fun map_put :: "string \<Rightarrow> 'a \<Rightarrow> (string \<times> 'a) list \<Rightarrow> (string \<times> 'a) list" where
  "map_put k v [] = [(k, v)]"
| "map_put k v ((k', v') # xs) =
     (if k < k' then (k, v) # (k', v') # xs else if k = k' then (k, v) # xs else (k', v') # map_put k v xs)"

definition map_erase :: "string \<Rightarrow> (string \<times> 'a) list \<Rightarrow> (string \<times> 'a) list" where
  "map_erase k xs = filter (\<lambda>(k', v). k' \<noteq> k) xs"

definition mt_add_file :: "string \<Rightarrow> file_meta \<Rightarrow> meta_table \<Rightarrow> rc \<times> meta_table" where
  "mt_add_file filename meta t =
     (if map_of (mt_files t) filename \<noteq> None then (RcFail, t)
      else (RcOk, t\<lparr>mt_files := map_put filename meta (mt_files t)\<rparr>))"

definition mt_remove_file :: "string \<Rightarrow> meta_table \<Rightarrow> rc \<times> meta_table" where
  "mt_remove_file filename t =
     (if map_of (mt_files t) filename = None then (RcFail, t)
      else (RcOk, t\<lparr>mt_files := map_erase filename (mt_files t)\<rparr>))"

definition mt_list_files :: "meta_table \<Rightarrow> string list" where
  "mt_list_files t = map fst (mt_files t)"

definition mt_get_file_meta :: "string \<Rightarrow> meta_table \<Rightarrow> file_meta option" where
  "mt_get_file_meta filename t = map_of (mt_files t) filename"

definition mt_save :: "meta_table \<Rightarrow> snapshot_pb" where
  "mt_save t = \<lparr>pb_meta = mt_meta t, pb_files = mt_files t\<rparr>"

definition mt_load :: "snapshot_pb \<Rightarrow> meta_table" where
  "mt_load pb = \<lparr>mt_files = fold (\<lambda>(k, v) xs. map_put k v xs) (pb_files pb) [], mt_meta = pb_meta pb\<rparr>"

definition mt_save_as_remote :: "meta_table \<Rightarrow> snapshot_pb" where
  "mt_save_as_remote t =
     \<lparr>pb_meta = mt_meta t, pb_files = map (\<lambda>(k, m). (k, m\<lparr>fm_source := FILE_SOURCE_LOCAL\<rparr>)) (mt_files t)\<rparr>"

subsection \<open>Directories, writers, readers\<close>

text \<open>
  A snapshot's directory: its meta file, if there is one (\<open>None\<close> inside when it does not parse), and its
  other files with their data.
\<close>

record snap_dir =
  sd_meta_file :: "snapshot_pb option option"
  sd_files :: "(string \<times> string) list"

definition empty_dir :: snap_dir where
  "empty_dir = \<lparr>sd_meta_file = None, sd_files = []\<rparr>"

record snap_writer =
  sw_table :: meta_table
  sw_error :: rc

record snap_storage =
  ss_snapshots :: "(int \<times> snap_dir) list"
  ss_temp :: "snap_dir option"
  ss_last :: int
  ss_refs :: "(int \<times> int) list"
  ss_filter :: bool

text \<open>Outcomes of the calls to the file system, by what they are for.\<close>

record snap_fs =
  fs_mkdir_ok :: bool
  fs_readdir_ok :: bool
  fs_delete_temp_ok :: bool
  fs_delete_old_ok :: bool
  fs_delete_new_ok :: bool
  fs_rename_ok :: bool
  fs_save_ok :: bool
  fs_load_ok :: bool

definition fs_good :: snap_fs where
  "fs_good = \<lparr>fs_mkdir_ok = True, fs_readdir_ok = True, fs_delete_temp_ok = True, fs_delete_old_ok = True,
     fs_delete_new_ok = True, fs_rename_ok = True, fs_save_ok = True, fs_load_ok = True\<rparr>"

definition load_table :: "snap_fs \<Rightarrow> snap_dir \<Rightarrow> meta_table option" where
  "load_table F d =
     (case sd_meta_file d of Some (Some pb) \<Rightarrow> if fs_load_ok F then Some (mt_load pb) else None | _ \<Rightarrow> None)"

text \<open>
  \<open>LocalSnapshotWriter::init\<close> on the directory \<^verbatim>\<open>temp\<close>: files the table does not know are removed
  (their deletion is not checked; \<open>stale\<close> are those that stay). A writer has a path of its own, but it is
  always \<^verbatim>\<open>temp\<close>.
\<close>

definition writer_init ::
  "snap_fs \<Rightarrow> (string \<Rightarrow> bool) \<Rightarrow> snap_dir option \<Rightarrow> (snap_writer \<times> snap_dir) option \<times> snap_dir option" where
  "writer_init F stale temp =
     (if \<not> fs_mkdir_ok F then (None, temp)
      else (let d = (case temp of None \<Rightarrow> empty_dir | Some d \<Rightarrow> d)
            in case (if sd_meta_file d = None then Some empty_table else load_table F d) of
                 None \<Rightarrow> (None, Some d)
               | Some t \<Rightarrow>
                   if \<not> fs_readdir_ok F then (None, Some d)
                   else (let d1 = d\<lparr>sd_files := filter (\<lambda>(f, x). mt_get_file_meta f t \<noteq> None \<or> stale f) (sd_files d)\<rparr>
                         in (Some (\<lparr>sw_table = t, sw_error = RcOk\<rparr>, d1), Some d1))))"

definition sw_snapshot_index :: "snap_writer \<Rightarrow> int" where
  "sw_snapshot_index w = (case mt_meta (sw_table w) of None \<Rightarrow> 0 | Some m \<Rightarrow> sm_last_included_index m)"

definition sw_add_file :: "string \<Rightarrow> file_meta option \<Rightarrow> snap_writer \<Rightarrow> rc \<times> snap_writer" where
  "sw_add_file filename meta w =
     (case mt_add_file filename
             (case meta of None \<Rightarrow> \<lparr>fm_user_meta = None, fm_source = FILE_SOURCE_LOCAL, fm_checksum = None\<rparr> | Some m \<Rightarrow> m)
             (sw_table w) of
        (r, t) \<Rightarrow> (r, w\<lparr>sw_table := t\<rparr>))"

definition sw_remove_file :: "string \<Rightarrow> snap_writer \<Rightarrow> rc \<times> snap_writer" where
  "sw_remove_file filename w = (case mt_remove_file filename (sw_table w) of (r, t) \<Rightarrow> (r, w\<lparr>sw_table := t\<rparr>))"

definition sw_save_meta :: "snapshot_meta \<Rightarrow> snap_writer \<Rightarrow> rc \<times> snap_writer" where
  "sw_save_meta meta w = (RcOk, w\<lparr>sw_table := (sw_table w)\<lparr>mt_meta := Some meta\<rparr>\<rparr>)"

definition sw_set_error :: "rc \<Rightarrow> snap_writer \<Rightarrow> snap_writer" where
  "sw_set_error e w = w\<lparr>sw_error := e\<rparr>"

definition sw_sync :: "snap_fs \<Rightarrow> snap_writer \<Rightarrow> snap_storage \<Rightarrow> rc \<times> snap_writer \<times> snap_storage" where
  "sw_sync F w ss =
     (if fs_save_ok F
      then (RcOk, w, ss\<lparr>ss_temp := map_option (\<lambda>d. d\<lparr>sd_meta_file := Some (Some (mt_save (sw_table w)))\<rparr>) (ss_temp ss)\<rparr>)
      else (RcFail, if sw_error w = RcOk then w\<lparr>sw_error := RcFail\<rparr> else w, ss))"

record snap_reader =
  sr_index :: int
  sr_table :: meta_table

definition sr_load_meta :: "snap_reader \<Rightarrow> rc \<times> snapshot_meta option" where
  "sr_load_meta r = (case mt_meta (sr_table r) of None \<Rightarrow> (RcFail, None) | Some m \<Rightarrow> (RcOk, Some m))"

subsection \<open>The storage\<close>

definition storage_new :: "(int \<times> snap_dir) list \<Rightarrow> snap_dir option \<Rightarrow> bool \<Rightarrow> snap_storage" where
  "storage_new dirs temp filter_before_copy =
     \<lparr>ss_snapshots = dirs, ss_temp = temp, ss_last = 0, ss_refs = [], ss_filter = filter_before_copy\<rparr>"

definition ref_count :: "int \<Rightarrow> snap_storage \<Rightarrow> int" where
  "ref_count i ss = (case map_of (ss_refs ss) i of None \<Rightarrow> 0 | Some n \<Rightarrow> n)"

definition ss_ref :: "int \<Rightarrow> snap_storage \<Rightarrow> snap_storage" where
  "ss_ref i ss = ss\<lparr>ss_refs := AList.update i (ref_count i ss + 1) (ss_refs ss)\<rparr>"

definition delete_snapshot :: "int \<Rightarrow> snap_storage \<Rightarrow> snap_storage" where
  "delete_snapshot i ss = ss\<lparr>ss_snapshots := AList.delete i (ss_snapshots ss)\<rparr>"

definition ss_unref :: "bool \<Rightarrow> int \<Rightarrow> snap_storage \<Rightarrow> snap_storage" where
  "ss_unref delete_ok i ss =
     (case map_of (ss_refs ss) i of
        None \<Rightarrow> ss
      | Some n \<Rightarrow>
          if n - 1 = 0
          then (let ss1 = ss\<lparr>ss_refs := AList.delete i (ss_refs ss)\<rparr>
                in if delete_ok then delete_snapshot i ss1 else ss1)
          else ss\<lparr>ss_refs := AList.update i (n - 1) (ss_refs ss)\<rparr>)"

text \<open>
  \<open>init\<close>: the directory is listed, every snapshot but the one of the largest index is deleted, smallest
  first. \<open>deletes\<close> gives the outcome of each deletion.
\<close>

fun delete_all :: "(int \<Rightarrow> bool) \<Rightarrow> int list \<Rightarrow> snap_storage \<Rightarrow> bool \<times> snap_storage" where
  "delete_all ok [] ss = (True, ss)"
| "delete_all ok (i # is) ss = (if ok i then delete_all ok is (delete_snapshot i ss) else (False, ss))"

definition ss_init :: "snap_fs \<Rightarrow> (int \<Rightarrow> bool) \<Rightarrow> snap_storage \<Rightarrow> rc \<times> snap_storage" where
  "ss_init F deletes ss =
     (if \<not> fs_mkdir_ok F then (RcFail, ss)
      else if \<not> ss_filter ss \<and> \<not> fs_delete_temp_ok F then (RcErr EIO, ss)
      else (let ss1 = (if ss_filter ss then ss else ss\<lparr>ss_temp := None\<rparr>)
            in if \<not> fs_readdir_ok F then (RcErr EIO, ss1)
               else (let snapshots = sorted_list_of_set (set (map fst (ss_snapshots ss1)))
                     in if snapshots = [] then (RcOk, ss1)
                        else (case delete_all deletes (butlast snapshots) ss1 of
                                (ok, ss2) \<Rightarrow>
                                  if \<not> ok then (RcErr EIO, ss2)
                                  else (RcOk, ss_ref (last snapshots) (ss2\<lparr>ss_last := last snapshots\<rparr>))))))"

definition ss_create ::
  "snap_fs \<Rightarrow> (string \<Rightarrow> bool) \<Rightarrow> bool \<Rightarrow> snap_storage \<Rightarrow> snap_writer option \<times> snap_storage" where
  "ss_create F stale from_empty ss =
     (if ss_temp ss \<noteq> None \<and> from_empty \<and> \<not> fs_delete_temp_ok F then (None, ss)
      else (let temp = (if from_empty then None else ss_temp ss)
            in case writer_init F stale temp of
                 (None, t) \<Rightarrow> (None, ss\<lparr>ss_temp := t\<rparr>)
               | (Some (w, d), t) \<Rightarrow> (Some w, ss\<lparr>ss_temp := t\<rparr>)))"

text \<open>
  \<open>close\<close> of a writer: the result of the sync is the first thing that ends it, and only \<open>EIO\<close> makes
  the call fail.
\<close>

definition ss_publish :: "snap_fs \<Rightarrow> int \<Rightarrow> snap_storage \<Rightarrow> rc \<times> snap_storage" where
  "ss_publish F new_index ss =
     (let old_index = ss_last ss
      in if new_index = old_index then (RcErr EEXIST, ss)
         else if \<not> fs_delete_new_ok F then (RcErr EIO, ss)
         else (let ss1 = delete_snapshot new_index ss
               in if \<not> fs_rename_ok F then (RcErr EIO, ss1)
                  else (case ss_temp ss1 of
                          None \<Rightarrow> (RcErr EIO, ss1)
                        | Some d \<Rightarrow>
                            (let ss2 = ss1\<lparr>ss_snapshots := (new_index, d) # ss_snapshots ss1, ss_temp := None\<rparr>;
                                 ss3 = (ss_ref new_index ss2)\<lparr>ss_last := new_index\<rparr>
                             in (RcOk, ss_unref (fs_delete_old_ok F) old_index ss3)))))"

definition ss_close_writer ::
  "snap_fs \<Rightarrow> bool \<Rightarrow> snap_writer \<Rightarrow> snap_storage \<Rightarrow> rc \<times> snap_storage" where
  "ss_close_writer F keep_data_on_error w ss =
     (case (if sw_error w \<noteq> RcOk then (sw_error w, ss)
            else case sw_sync F w ss of
                   (r, w1, ss1) \<Rightarrow> if r \<noteq> RcOk then (r, ss1) else ss_publish F (sw_snapshot_index w1) ss1) of
        (ret, ss1) \<Rightarrow>
          (let ss2 = (if ret \<noteq> RcOk \<and> \<not> keep_data_on_error \<and> fs_delete_temp_ok F then ss1\<lparr>ss_temp := None\<rparr> else ss1)
           in (if ret \<noteq> RcErr EIO then RcOk else RcFail, ss2)))"

definition ss_open :: "snap_fs \<Rightarrow> snap_storage \<Rightarrow> snap_reader option \<times> snap_storage" where
  "ss_open F ss =
     (if ss_last ss \<noteq> 0
      then (let ss1 = ss_ref (ss_last ss) ss
            in case map_of (ss_snapshots ss1) (ss_last ss) of
                 None \<Rightarrow> (None, ss_unref (fs_delete_old_ok F) (ss_last ss) ss1)
               | Some d \<Rightarrow>
                   (case load_table F d of
                      None \<Rightarrow> (None, ss_unref (fs_delete_old_ok F) (ss_last ss) ss1)
                    | Some t \<Rightarrow> (Some \<lparr>sr_index = ss_last ss, sr_table = t\<rparr>, ss1)))
      else (None, ss))"

definition ss_close_reader :: "snap_fs \<Rightarrow> snap_reader \<Rightarrow> snap_storage \<Rightarrow> snap_storage" where
  "ss_close_reader F r ss = ss_unref (fs_delete_old_ok F) (sr_index r) ss"

subsection \<open>Copying from a leader\<close>

text \<open>
  \<open>LocalSnapshotCopier\<close>. What the remote side and the file system do is in \<open>cp_env\<close>: the meta
  table sent (or the error; \<open>None\<close> inside when it does not parse), for each file the status of its
  session with the data written, whether linking, making its directory and saving the table after it
  work, and when \<open>cancel\<close> has been seen.
\<close>

record cp_env =
  ce_fs :: snap_fs
  ce_stale :: "string \<Rightarrow> bool"
  ce_cancelled_early :: bool
  ce_meta :: "rc + snapshot_pb option"
  ce_session :: "string \<Rightarrow> (rc \<times> string) option"
  ce_cancelled :: "string \<Rightarrow> bool"
  ce_mkdir :: "string \<Rightarrow> rc"
  ce_link_ok :: "string \<Rightarrow> bool"
  ce_unlink_ok :: "string \<Rightarrow> bool"
  ce_sync_ok :: "string \<Rightarrow> bool"
  ce_filter_sync_ok :: bool
  ce_copy_file :: bool

record copier =
  cp_error :: rc
  cp_remote :: meta_table
  cp_writer :: "snap_writer option"
  cp_reader :: "snap_reader option"
  cp_storage :: snap_storage

definition cp_ok :: "copier \<Rightarrow> bool" where
  "cp_ok c \<longleftrightarrow> cp_error c = RcOk"

definition cp_load_meta_table :: "cp_env \<Rightarrow> copier \<Rightarrow> copier" where
  "cp_load_meta_table E c =
     (if ce_cancelled_early E then c\<lparr>cp_error := RcErr ECANCELED\<rparr>
      else case ce_meta E of
        Inl e \<Rightarrow> c\<lparr>cp_error := e\<rparr>
      | Inr None \<Rightarrow> c\<lparr>cp_error := RcFail\<rparr>
      | Inr (Some pb) \<Rightarrow> c\<lparr>cp_remote := mt_load pb\<rparr>)"

text \<open>
  \<open>filter_before_copy\<close>: for each remote file, what is in the writer is kept if the checksums agree, else
  the file is taken from the last snapshot if they agree there, else it is left to be copied. The state is the
  writer's table, the names to remove, and the files in \<^verbatim>\<open>temp\<close>.
\<close>

record filter_state =
  fl_table :: meta_table
  fl_remove :: "string list"
  fl_files :: "(string \<times> string) list"

fun filter_existing :: "meta_table \<Rightarrow> string list \<Rightarrow> filter_state \<Rightarrow> filter_state" where
  "filter_existing remote [] st = st"
| "filter_existing remote (f # fs) st =
     filter_existing remote fs
       (if mt_get_file_meta f remote = None
        then st\<lparr>fl_remove := fl_remove st @ [f], fl_table := snd (mt_remove_file f (fl_table st))\<rparr> else st)"

definition take_from_last ::
  "cp_env \<Rightarrow> (meta_table \<times> (string \<times> string) list) option \<Rightarrow> string \<Rightarrow> string option \<Rightarrow> filter_state \<Rightarrow> filter_state" where
  "take_from_last E last_snapshot f checksum st =
     (case last_snapshot of
        None \<Rightarrow> st
      | Some (lt, lfiles) \<Rightarrow>
          (case mt_get_file_meta f lt of
             None \<Rightarrow> st
           | Some m \<Rightarrow>
               if fm_checksum m = None \<or> fm_checksum m \<noteq> checksum then st
               else if fm_source m = FILE_SOURCE_LOCAL
               then (let st1 = (if ce_unlink_ok E f then st\<lparr>fl_files := map_erase f (fl_files st)\<rparr> else st)
                     in case map_of lfiles f of
                          None \<Rightarrow> st1
                        | Some data \<Rightarrow>
                            if \<not> ce_link_ok E f \<or> map_of (fl_files st1) f \<noteq> None then st1
                            else st1\<lparr>fl_files := (f, data) # fl_files st1,
                                     fl_remove := (if fl_remove st1 \<noteq> [] \<and> last (fl_remove st1) = f
                                                   then butlast (fl_remove st1) else fl_remove st1),
                                     fl_table := snd (mt_add_file f m (fl_table st1))\<rparr>)
               else st\<lparr>fl_table := snd (mt_add_file f m (fl_table st))\<rparr>))"

definition filter_remote_file ::
  "cp_env \<Rightarrow> meta_table \<Rightarrow> (meta_table \<times> (string \<times> string) list) option \<Rightarrow> string \<Rightarrow> filter_state \<Rightarrow> filter_state" where
  "filter_remote_file E remote last_snapshot f st =
     (let drop_it = (\<lambda>st. st\<lparr>fl_table := snd (mt_remove_file f (fl_table st)), fl_remove := fl_remove st @ [f]\<rparr>);
          checksum = (case mt_get_file_meta f remote of None \<Rightarrow> None | Some m \<Rightarrow> fm_checksum m)
      in if checksum = None then drop_it st
         else case mt_get_file_meta f (fl_table st) of
                Some m \<Rightarrow>
                  if fm_checksum m \<noteq> None \<and> fm_checksum m = checksum then st
                  else take_from_last E last_snapshot f checksum (drop_it st)
              | None \<Rightarrow> take_from_last E last_snapshot f checksum st)"

definition erase_files :: "(string \<Rightarrow> bool) \<Rightarrow> string list \<Rightarrow> (string \<times> string) list \<Rightarrow> (string \<times> string) list" where
  "erase_files ok fs files = filter (\<lambda>(f, x). \<not> (f \<in> set fs \<and> ok f)) files"

definition temp_files :: "snap_storage \<Rightarrow> (string \<times> string) list" where
  "temp_files ss = (case ss_temp ss of None \<Rightarrow> [] | Some d \<Rightarrow> sd_files d)"

definition set_temp_files :: "(string \<times> string) list \<Rightarrow> snap_storage \<Rightarrow> snap_storage" where
  "set_temp_files fs ss = ss\<lparr>ss_temp := map_option (\<lambda>d. d\<lparr>sd_files := fs\<rparr>) (ss_temp ss)\<rparr>"

definition cp_filter_before_copy ::
  "cp_env \<Rightarrow> meta_table \<Rightarrow> (meta_table \<times> (string \<times> string) list) option \<Rightarrow> snap_writer \<Rightarrow> snap_storage
   \<Rightarrow> rc \<times> snap_writer \<times> snap_storage" where
  "cp_filter_before_copy E remote last_snapshot w ss =
     (let st0 = \<lparr>fl_table = sw_table w, fl_remove = [], fl_files = temp_files ss\<rparr>;
          st1 = filter_existing remote (mt_list_files (sw_table w)) st0;
          st2 = fold (filter_remote_file E remote last_snapshot) (mt_list_files remote) st1;
          w1 = w\<lparr>sw_table := fl_table st2\<rparr>; ss1 = set_temp_files (fl_files st2) ss
      in case sw_sync ((ce_fs E)\<lparr>fs_save_ok := ce_filter_sync_ok E\<rparr>) w1 ss1 of
           (r, w2, ss2) \<Rightarrow>
             if r \<noteq> RcOk then (RcFail, w2, ss2)
             else (RcOk, w2, set_temp_files (erase_files (ce_unlink_ok E) (fl_remove st2) (temp_files ss2)) ss2))"

definition reader_files :: "snap_reader \<Rightarrow> snap_storage \<Rightarrow> meta_table \<times> (string \<times> string) list" where
  "reader_files r ss =
     (sr_table r, case map_of (ss_snapshots ss) (sr_index r) of None \<Rightarrow> [] | Some d \<Rightarrow> sd_files d)"

text \<open>\<open>filter\<close>: makes the writer, filters it (or starts over with an empty one), and stores the remote meta.\<close>

definition cp_filter_or_recreate ::
  "cp_env \<Rightarrow> meta_table \<Rightarrow> snap_reader option \<Rightarrow> snap_writer \<Rightarrow> snap_storage \<Rightarrow> snap_writer option \<times> snap_storage" where
  "cp_filter_or_recreate E remote reader w ss =
     (case cp_filter_before_copy E remote (map_option (\<lambda>r. reader_files r ss) reader) w ss of
        (r, w1, ss1) \<Rightarrow>
          if r = RcOk then (Some w1, ss1)
          else (case ss_close_writer (ce_fs E) False (sw_set_error RcFail w1) ss1 of
                  (_, ss2) \<Rightarrow> ss_create (ce_fs E) (ce_stale E) True ss2))"

definition cp_filter_writer :: "cp_env \<Rightarrow> meta_table \<Rightarrow> snap_storage \<Rightarrow> snap_writer option \<times> snap_storage" where
  "cp_filter_writer E remote ss =
     (case ss_create (ce_fs E) (ce_stale E) (\<not> ss_filter ss) ss of
        (None, ss1) \<Rightarrow> (None, ss1)
      | (Some w, ss1) \<Rightarrow>
          if \<not> ss_filter ss then (Some w, ss1)
          else (case ss_open (ce_fs E) ss1 of
                  (reader, ss2) \<Rightarrow>
                    (case cp_filter_or_recreate E remote reader w ss2 of
                       (w1, ss3) \<Rightarrow>
                         (w1, case reader of None \<Rightarrow> ss3 | Some r \<Rightarrow> ss_close_reader (ce_fs E) r ss3))))"

definition cp_filter :: "cp_env \<Rightarrow> copier \<Rightarrow> copier" where
  "cp_filter E c =
     (case cp_filter_writer E (cp_remote c) (cp_storage c) of
        (None, ss) \<Rightarrow> c\<lparr>cp_storage := ss, cp_writer := None, cp_error := RcErr EIO\<rparr>
      | (Some w, ss) \<Rightarrow>
          (let w1 = w\<lparr>sw_table := (sw_table w)\<lparr>mt_meta := mt_meta (cp_remote c)\<rparr>\<rparr>
           in case sw_sync (ce_fs E) w1 ss of
                (r, w2, ss2) \<Rightarrow>
                  c\<lparr>cp_storage := ss2, cp_writer := Some w2,
                    cp_error := (if r \<noteq> RcOk then RcErr EIO else cp_error c)\<rparr>))"

definition cp_copy_file :: "cp_env \<Rightarrow> string \<Rightarrow> copier \<Rightarrow> copier" where
  "cp_copy_file E f c0 =
     (case cp_writer c0 of
        None \<Rightarrow> c0
      | Some w \<Rightarrow>
          if mt_get_file_meta f (sw_table w) \<noteq> None then c0
          else (let c = (if ce_mkdir E f \<noteq> RcOk then c0\<lparr>cp_error := ce_mkdir E f\<rparr> else c0);
                    meta = (case mt_get_file_meta f (cp_remote c) of
                              None \<Rightarrow> \<lparr>fm_user_meta = None, fm_source = FILE_SOURCE_LOCAL, fm_checksum = None\<rparr>
                            | Some m \<Rightarrow> m)
                in if ce_cancelled E f then c\<lparr>cp_error := RcErr ECANCELED\<rparr>
                   else case ce_session E f of
                     None \<Rightarrow> c\<lparr>cp_error := RcFail\<rparr>
                   | Some (st, data) \<Rightarrow>
                       (let c1 = c\<lparr>cp_storage := set_temp_files ((f, data) # map_erase f (temp_files (cp_storage c)))
                                                   (cp_storage c)\<rparr>
                        in if st \<noteq> RcOk then c1\<lparr>cp_error := st\<rparr>
                           else case sw_add_file f (Some meta) w of
                             (r, w1) \<Rightarrow>
                               if r \<noteq> RcOk then c1\<lparr>cp_writer := Some w1, cp_error := RcErr EIO\<rparr>
                               else (case sw_sync ((ce_fs E)\<lparr>fs_save_ok := ce_sync_ok E f\<rparr>) w1 (cp_storage c1) of
                                       (r2, w2, ss2) \<Rightarrow>
                                         c1\<lparr>cp_writer := Some w2, cp_storage := ss2,
                                            cp_error := (if r2 \<noteq> RcOk then RcErr EIO else cp_error c1)\<rparr>))))"

fun cp_copy_files :: "cp_env \<Rightarrow> string list \<Rightarrow> copier \<Rightarrow> copier" where
  "cp_copy_files E [] c = c"
| "cp_copy_files E (f # fs) c = (if cp_ok c then cp_copy_files E fs (cp_copy_file E f c) else c)"

definition cp_close_writer :: "cp_env \<Rightarrow> copier \<Rightarrow> copier" where
  "cp_close_writer E c =
     (case cp_writer c of
        None \<Rightarrow> c
      | Some w \<Rightarrow>
          (let w1 = (if \<not> cp_ok c \<and> sw_error w = RcOk then sw_set_error (cp_error c) w else w)
           in case ss_close_writer (ce_fs E) (ss_filter (cp_storage c)) w1 (cp_storage c) of
                (r, ss) \<Rightarrow> c\<lparr>cp_storage := ss, cp_writer := None,
                             cp_error := (if r \<noteq> RcOk \<and> cp_ok c then RcErr EIO else cp_error c)\<rparr>))"

definition cp_open_reader :: "cp_env \<Rightarrow> copier \<Rightarrow> copier" where
  "cp_open_reader E c =
     (if cp_ok c
      then (case ss_open (ce_fs E) (cp_storage c) of (r, ss) \<Rightarrow> c\<lparr>cp_reader := r, cp_storage := ss\<rparr>)
      else c)"

definition cp_copy :: "cp_env \<Rightarrow> copier \<Rightarrow> copier" where
  "cp_copy E c0 =
     (let c1 = cp_load_meta_table E c0;
          c2 = (if cp_ok c1 then cp_filter E c1 else c1);
          c3 = (if cp_ok c1 \<and> cp_ok c2 \<and> ce_copy_file E
                then cp_copy_files E (mt_list_files (cp_remote c2)) c2 else c2)
      in cp_open_reader E (cp_close_writer E c3))"

definition copier_new :: "snap_storage \<Rightarrow> copier" where
  "copier_new ss = \<lparr>cp_error = RcOk, cp_remote = empty_table, cp_writer = None, cp_reader = None, cp_storage = ss\<rparr>"

end
