(* ===== verification/SnapshotSafety.thy ===== *)
theory SnapshotSafety
  imports Snapshot
begin

section \<open>Snapshots on disk: published whole, kept while they are read, found after a crash\<close>

text \<open>
  \<open>snap_inv rs ss\<close>: with the open readers \<open>rs\<close>, every reference is accounted for by a reader or by
  the last snapshot, and every referenced snapshot is on disk with its meta table; the last one has the largest
  index. \<open>snap_run\<close> are the runs of a storage: its operations in any order, writes to the directory
  of a writer, and crashes, also one right after the rename that publishes a snapshot.
\<close>

definition dir_table :: "snap_dir \<Rightarrow> meta_table option" where
  "dir_table d = (case sd_meta_file d of Some (Some pb) \<Rightarrow> Some (mt_load pb) | _ \<Rightarrow> None)"

lemma load_table_alt: "load_table F d = (if fs_load_ok F then dir_table d else None)"
  by (auto simp: load_table_def dir_table_def split: option.splits)

definition readers_at :: "int \<Rightarrow> snap_reader list \<Rightarrow> int" where
  "readers_at i rs = int (length (filter (\<lambda>r. sr_index r = i) rs))"

definition on_disk :: "int \<Rightarrow> snap_storage \<Rightarrow> meta_table option" where
  "on_disk i ss = (case map_of (ss_snapshots ss) i of None \<Rightarrow> None | Some d \<Rightarrow> dir_table d)"

definition snap_inv :: "snap_reader list \<Rightarrow> snap_storage \<Rightarrow> bool" where
  "snap_inv rs ss \<longleftrightarrow>
     0 \<le> ss_last ss
     \<and> (\<forall>i \<in> fst ` set (ss_snapshots ss). 0 < i \<and> i \<le> ss_last ss)
     \<and> (\<forall>i n. map_of (ss_refs ss) i = Some n \<longrightarrow> 0 < n)
     \<and> (\<forall>i. ref_count i ss = (if i = ss_last ss \<and> i \<noteq> 0 then 1 else 0) + readers_at i rs)
     \<and> (\<forall>r \<in> set rs. 0 < sr_index r \<and> sr_index r \<le> ss_last ss \<and> on_disk (sr_index r) ss = Some (sr_table r))
     \<and> (ss_last ss \<noteq> 0 \<longrightarrow> on_disk (ss_last ss) ss \<noteq> None)"

lemma snap_inv_bounds: "snap_inv rs ss \<Longrightarrow> i \<in> fst ` set (ss_snapshots ss) \<Longrightarrow> 0 < i \<and> i \<le> ss_last ss"
  unfolding snap_inv_def by (elim conjE, erule (1) bspec)

subsection \<open>References\<close>

lemma ref_count_ref [simp]: "ref_count j (ss_ref i ss) = ref_count j ss + (if j = i then 1 else 0)"
  by (auto simp: ss_ref_def ref_count_def AList.update_conv' split: option.splits)

lemma ref_fields [simp]:
  "ss_snapshots (ss_ref i ss) = ss_snapshots ss" "ss_last (ss_ref i ss) = ss_last ss" "ss_temp (ss_ref i ss) = ss_temp ss"
  "on_disk j (ss_ref i ss) = on_disk j ss" "ss_filter (ss_ref i ss) = ss_filter ss"
  by (simp_all add: ss_ref_def on_disk_def)

lemma unref_fields [simp]:
  "ss_last (ss_unref b i ss) = ss_last ss" "ss_temp (ss_unref b i ss) = ss_temp ss" "ss_filter (ss_unref b i ss) = ss_filter ss"
  by (simp_all add: ss_unref_def delete_snapshot_def Let_def split: option.splits)

lemma unref_count:
  assumes "\<forall>i n. map_of (ss_refs ss) i = Some n \<longrightarrow> 0 < n"
  shows "ref_count j (ss_unref b i ss) = (if j = i \<and> 0 < ref_count i ss then ref_count i ss - 1 else ref_count j ss)"
  using assms by (auto simp: ss_unref_def ref_count_def delete_snapshot_def Let_def AList.update_conv' AList.delete_conv'
      split: option.splits)

lemma unref_positive:
  assumes "\<forall>i n. map_of (ss_refs ss) i = Some n \<longrightarrow> 0 < n"
  shows "\<forall>j n. map_of (ss_refs (ss_unref b i ss)) j = Some n \<longrightarrow> 0 < n"
  using assms by (force simp: ss_unref_def delete_snapshot_def Let_def AList.update_conv' AList.delete_conv'
      split: option.splits if_splits)

lemma ref_positive:
  assumes "\<forall>i n. map_of (ss_refs ss) i = Some n \<longrightarrow> 0 < n"
  shows "\<forall>j n. map_of (ss_refs (ss_ref i ss)) j = Some n \<longrightarrow> 0 < n"
proof (intro allI impI)
  fix j n assume n: "map_of (ss_refs (ss_ref i ss)) j = Some n"
  have "0 \<le> ref_count i ss"
    using assms by (auto simp: ref_count_def less_imp_le split: option.split)
  with n assms show "0 < n" by (auto simp: ss_ref_def AList.update_conv' split: if_splits)
qed

lemma unref_disk:
  assumes "j \<noteq> i \<or> ref_count i ss \<noteq> 1"
  shows "on_disk j (ss_unref b i ss) = on_disk j ss"
  using assms by (auto simp: on_disk_def ss_unref_def ref_count_def delete_snapshot_def Let_def AList.delete_conv'
      split: option.splits)

lemma unref_snapshots: "set (ss_snapshots (ss_unref b i ss)) \<subseteq> set (ss_snapshots ss)"
  by (auto simp: ss_unref_def delete_snapshot_def Let_def AList.delete_eq split: option.splits)

lemma readers_at_Cons [simp]: "readers_at i (r # rs) = readers_at i rs + (if sr_index r = i then 1 else 0)"
  by (simp add: readers_at_def)

lemma readers_at_remove1: "r \<in> set rs \<Longrightarrow> readers_at i (remove1 r rs) = readers_at i rs - (if sr_index r = i then 1 else 0)"
  by (induction rs) auto

lemma readers_at_ge: "0 \<le> readers_at i rs" "r \<in> set rs \<Longrightarrow> 0 < readers_at (sr_index r) rs"
  by (auto simp: readers_at_def filter_empty_conv)

lemma snap_inv_temp:
  "snap_inv rs (ss\<lparr>ss_temp := t\<rparr>) = snap_inv rs ss"
  by (simp add: snap_inv_def ref_count_def on_disk_def)

lemma snap_inv_cong:
  "ss_snapshots ss' = ss_snapshots ss \<Longrightarrow> ss_refs ss' = ss_refs ss \<Longrightarrow> ss_last ss' = ss_last ss \<Longrightarrow> snap_inv rs ss' = snap_inv rs ss"
  by (simp add: snap_inv_def ref_count_def on_disk_def)

subsection \<open>The operations keep the invariant\<close>

lemma open_inv:
  assumes inv: "snap_inv rs ss" and op: "ss_open F ss = (r, ss')"
  shows "snap_inv (case r of None \<Rightarrow> rs | Some x \<Rightarrow> x # rs) ss'"
    and "r = Some x \<Longrightarrow> sr_index x = ss_last ss \<and> on_disk (ss_last ss) ss = Some (sr_table x)"
proof -
  let ?l = "ss_last ss" and ?ss1 = "ss_ref (ss_last ss) ss"
  have pos: "\<forall>i n. map_of (ss_refs ?ss1) i = Some n \<longrightarrow> 0 < n"
    by (rule ref_positive) (use inv in \<open>simp add: snap_inv_def\<close>)
  have cnt: "?l \<noteq> 0 \<Longrightarrow> ref_count ?l ?ss1 = 2 + readers_at ?l rs"
    using inv by (simp add: snap_inv_def)
  have restored: "snap_inv rs (ss_unref b ?l ?ss1)" if "?l \<noteq> 0" for b
  proof -
    have 2: "ref_count ?l ?ss1 \<noteq> 1" "0 < ref_count ?l ?ss1"
      using cnt [OF that] readers_at_ge(1) [of ?l rs] by simp_all
    have "on_disk j (ss_unref b ?l ?ss1) = on_disk j ss" for j using unref_disk 2 by simp
    moreover have "\<forall>i \<in> fst ` set (ss_snapshots (ss_unref b ?l ?ss1)). 0 < i \<and> i \<le> ?l"
      using unref_snapshots [of b ?l ?ss1] inv by (force simp: snap_inv_def)
    moreover have "ref_count i (ss_unref b ?l ?ss1) = ref_count i ss" for i
      using unref_count [OF pos, of i b ?l] 2 by simp
    ultimately show ?thesis
      using inv unref_positive [OF pos, of b ?l] by (simp add: snap_inv_def)
  qed
  show "snap_inv (case r of None \<Rightarrow> rs | Some x \<Rightarrow> x # rs) ss'"
  proof (cases r)
    case None
    with op restored inv show ?thesis by (auto simp: ss_open_def Let_def split: if_splits option.splits)
  next
    case (Some x)
    then have x: "?l \<noteq> 0" "ss' = ?ss1" "sr_index x = ?l" "on_disk ?l ss = Some (sr_table x)"
      using op by (auto simp: ss_open_def Let_def on_disk_def load_table_alt split: if_splits option.splits)
    then show ?thesis
      using inv pos Some by (auto simp: snap_inv_def)
  qed
  show "r = Some x \<Longrightarrow> sr_index x = ?l \<and> on_disk ?l ss = Some (sr_table x)"
    using op by (auto simp: ss_open_def Let_def on_disk_def load_table_alt split: if_splits option.splits)
qed

lemma close_reader_inv:
  assumes inv: "snap_inv rs ss" and r: "r \<in> set rs"
  shows "snap_inv (remove1 r rs) (ss_close_reader F r ss)"
proof -
  let ?i = "sr_index r" and ?ss = "ss_close_reader F r ss" and ?rs = "remove1 r rs"
  have pos: "\<forall>i n. map_of (ss_refs ss) i = Some n \<longrightarrow> 0 < n" using inv by (simp add: snap_inv_def)
  have cnt: "ref_count i ss = (if i = ss_last ss \<and> i \<noteq> 0 then 1 else 0) + readers_at i rs" for i
    using inv by (simp add: snap_inv_def)
  have ge: "0 < readers_at ?i rs" using readers_at_ge(2) [OF r] .
  have i: "0 < ?i" using inv r by (simp add: snap_inv_def)
  have cnt': "ref_count j ?ss = (if j = ss_last ss \<and> j \<noteq> 0 then 1 else 0) + readers_at j ?rs" for j
    using unref_count [OF pos, of j "fs_delete_old_ok F" ?i] cnt ge readers_at_remove1 [OF r, of j]
    by (auto simp: ss_close_reader_def)
  have disk: "on_disk j ?ss = on_disk j ss" if "j = ss_last ss \<and> j \<noteq> 0 \<or> 0 < readers_at j ?rs" for j
  proof -
    have "j \<noteq> ?i \<or> ref_count ?i ss \<noteq> 1"
      using that cnt [of ?i] ge readers_at_remove1 [OF r, of ?i] by auto
    then show ?thesis using unref_disk by (simp add: ss_close_reader_def)
  qed
  have "\<forall>x \<in> set ?rs. 0 < sr_index x \<and> sr_index x \<le> ss_last ss \<and> on_disk (sr_index x) ?ss = Some (sr_table x)"
  proof
    fix x assume x: "x \<in> set ?rs"
    then have "x \<in> set rs" using set_remove1_subset [of r rs] by blast
    then show "0 < sr_index x \<and> sr_index x \<le> ss_last ss \<and> on_disk (sr_index x) ?ss = Some (sr_table x)"
      using inv disk [of "sr_index x"] readers_at_ge(2) [OF x] by (simp add: snap_inv_def)
  qed
  moreover have "\<forall>i \<in> fst ` set (ss_snapshots ?ss). 0 < i \<and> i \<le> ss_last ss"
    using unref_snapshots [of "fs_delete_old_ok F" ?i ss] inv by (force simp: ss_close_reader_def snap_inv_def)
  ultimately show ?thesis
    using inv cnt' disk [of "ss_last ss"] unref_positive [OF pos, of "fs_delete_old_ok F" ?i]
    by (auto simp: snap_inv_def ss_close_reader_def)
qed

lemma publish_inv:
  assumes inv: "snap_inv rs ss" and new: "new_index \<noteq> ss_last ss \<longrightarrow> ss_last ss < new_index"
    and d: "\<forall>d. ss_temp ss = Some d \<longrightarrow> dir_table d \<noteq> None" and pb: "ss_publish F new_index ss = (r, ss')"
  shows "snap_inv rs ss' \<and> (ss_last ss' = ss_last ss \<or> r = RcOk \<and> ss_last ss' = new_index)
     \<and> (r = RcOk \<longrightarrow> ss_last ss' = new_index \<and> on_disk new_index ss' = (case ss_temp ss of None \<Rightarrow> None | Some d \<Rightarrow> dir_table d))"
proof (cases "new_index = ss_last ss \<or> \<not> fs_delete_new_ok F")
  case True
  with pb inv show ?thesis by (auto simp: ss_publish_def Let_def split: if_splits)
next
  case False
  then have gt: "ss_last ss < new_index" using new by simp
  have "new_index \<notin> fst ` set (ss_snapshots ss)" using inv gt by (force simp: snap_inv_def)
  then have del: "delete_snapshot new_index ss = ss"
    by (simp add: delete_snapshot_def AList.delete_id)
  show ?thesis
  proof (cases "fs_rename_ok F \<and> ss_temp ss \<noteq> None")
    case False
    with pb inv del \<open>\<not> (new_index = ss_last ss \<or> \<not> fs_delete_new_ok F)\<close> show ?thesis
      by (auto simp: ss_publish_def Let_def split: if_splits option.splits)
  next
    case True
    then obtain d where t: "ss_temp ss = Some d" by auto
    let ?old = "ss_last ss"
    let ?ss2 = "ss\<lparr>ss_snapshots := (new_index, d) # ss_snapshots ss, ss_temp := None\<rparr>"
    let ?ss3 = "(ss_ref new_index ?ss2)\<lparr>ss_last := new_index\<rparr>"
    have res: "r = RcOk" "ss' = ss_unref (fs_delete_old_ok F) ?old ?ss3"
      using pb del t True False by (auto simp: ss_publish_def Let_def)
    have pos0: "\<forall>i n. map_of (ss_refs ?ss2) i = Some n \<longrightarrow> 0 < n" using inv by (simp add: snap_inv_def)
    have pos: "\<forall>i n. map_of (ss_refs ?ss3) i = Some n \<longrightarrow> 0 < n" using ref_positive [OF pos0, of new_index] by simp
    have cnt: "ref_count i ?ss3 = (if i = ?old \<and> i \<noteq> 0 then 1 else 0) + readers_at i rs + (if i = new_index then 1 else 0)" for i
      using inv ref_count_ref [of i new_index ?ss2] by (simp add: snap_inv_def ref_count_def)
    have no_reader: "readers_at new_index rs = 0" "\<not> 0 < readers_at 0 rs"
      using inv gt by (auto simp: snap_inv_def readers_at_def filter_empty_conv)
    have old0: "0 \<le> ?old" using inv by (simp add: snap_inv_def)
    have cnt': "ref_count i ss' = (if i = new_index \<and> i \<noteq> 0 then 1 else 0) + readers_at i rs" for i
      using unref_count [OF pos, of i "fs_delete_old_ok F" ?old] cnt gt old0 no_reader readers_at_ge(1) [of ?old rs]
        readers_at_ge(1) [of 0 rs] by (auto simp: res(2))
    have disk3: "on_disk i ?ss3 = (if i = new_index then dir_table d else on_disk i ss)" for i
      by (simp add: on_disk_def ss_ref_def)
    have keep: "on_disk i ss' = on_disk i ?ss3" if "i = new_index \<or> 0 < readers_at i rs" for i
    proof -
      have "i \<noteq> ?old \<or> ref_count ?old ?ss3 \<noteq> 1"
        using that cnt [of ?old] gt no_reader by auto
      then show ?thesis unfolding res(2) by (rule unref_disk)
    qed
    have "\<forall>x \<in> set rs. 0 < sr_index x \<and> sr_index x \<le> new_index \<and> on_disk (sr_index x) ss' = Some (sr_table x)"
    proof
      fix x assume x: "x \<in> set rs"
      have "0 < sr_index x \<and> sr_index x \<le> ?old \<and> on_disk (sr_index x) ss = Some (sr_table x)"
        using inv x by (simp add: snap_inv_def)
      then show "0 < sr_index x \<and> sr_index x \<le> new_index \<and> on_disk (sr_index x) ss' = Some (sr_table x)"
        using keep [of "sr_index x"] disk3 [of "sr_index x"] readers_at_ge(2) [OF x] gt by simp
    qed
    moreover have "\<forall>i \<in> fst ` set (ss_snapshots ss'). 0 < i \<and> i \<le> new_index"
    proof
      fix i assume "i \<in> fst ` set (ss_snapshots ss')"
      then have "i \<in> fst ` set (ss_snapshots ?ss3)"
        unfolding res(2) using image_mono [OF unref_snapshots, of fst] by blast
      then have "i = new_index \<or> i \<in> fst ` set (ss_snapshots ss)" by simp
      then show "0 < i \<and> i \<le> new_index" using snap_inv_bounds [OF inv] gt old0 by fastforce
    qed
    moreover have "on_disk new_index ss' = dir_table d" using keep disk3 by simp
    moreover have "dir_table d \<noteq> None" using assms(3) t by simp
    moreover have "ss_last ss' = new_index" by (simp add: res(2))
    ultimately show ?thesis
      using cnt' unref_positive [OF pos, of "fs_delete_old_ok F" ?old] gt old0 t
      by (simp add: snap_inv_def res(1) res(2) [symmetric])
  qed
qed

lemma sync_spec:
  assumes "sw_sync F w ss = (r, w', ss')"
  shows "ss_snapshots ss' = ss_snapshots ss" "ss_refs ss' = ss_refs ss" "ss_last ss' = ss_last ss"
    and "sw_table w' = sw_table w" "r = RcOk \<longleftrightarrow> fs_save_ok F" "r = RcOk \<or> r = RcFail"
    and "r = RcOk \<Longrightarrow> ss_temp ss' = map_option (\<lambda>d. d\<lparr>sd_meta_file := Some (Some (mt_save (sw_table w)))\<rparr>) (ss_temp ss)"
  using assms by (auto simp: sw_sync_def split: if_splits)

lemma close_writer_inv:
  assumes inv: "snap_inv rs ss" and new: "sw_snapshot_index w \<noteq> ss_last ss \<longrightarrow> ss_last ss < sw_snapshot_index w"
    and cl: "ss_close_writer F k w ss = (r, ss')"
  shows "snap_inv rs ss'" and "ss_last ss' = ss_last ss \<or> ss_last ss' = sw_snapshot_index w"
proof -
  have "snap_inv rs ss' \<and> (ss_last ss' = ss_last ss \<or> ss_last ss' = sw_snapshot_index w)"
  proof (cases "sw_error w = RcOk")
    case False
    then have "ss' = ss \<or> ss' = ss\<lparr>ss_temp := None\<rparr>" using cl by (auto simp: ss_close_writer_def Let_def split: if_splits)
    with inv show ?thesis by (auto simp: snap_inv_temp)
  next
    case True
    obtain r1 w1 ss1 where sy: "sw_sync F w ss = (r1, w1, ss1)" by (metis prod_cases3)
    note sp = sync_spec [OF sy]
    have inv1: "snap_inv rs ss1" using inv snap_inv_cong [OF sp(1-3)] by simp
    show ?thesis
    proof (cases "r1 = RcOk")
      case False
      then have "ss' = ss1 \<or> ss' = ss1\<lparr>ss_temp := None\<rparr>"
        using cl True by (auto simp: ss_close_writer_def Let_def sy split: if_splits)
      with inv1 sp(3) show ?thesis by (auto simp: snap_inv_temp)
    next
      case r1: True
      obtain r2 ss2 where pb: "ss_publish F (sw_snapshot_index w) ss1 = (r2, ss2)" by force
      have idx: "sw_snapshot_index w1 = sw_snapshot_index w" using sp(4) by (simp add: sw_snapshot_index_def)
      have d: "\<forall>d. ss_temp ss1 = Some d \<longrightarrow> dir_table d \<noteq> None"
        using sp(7) [OF r1] by (auto simp: dir_table_def)
      have n: "sw_snapshot_index w \<noteq> ss_last ss1 \<longrightarrow> ss_last ss1 < sw_snapshot_index w" using new sp(3) by simp
      have p: "snap_inv rs ss2 \<and> (ss_last ss2 = ss_last ss1 \<or> ss_last ss2 = sw_snapshot_index w)"
        using publish_inv [OF inv1 n d pb] by blast
      have "ss' = ss2 \<or> ss' = ss2\<lparr>ss_temp := None\<rparr>"
        using cl True r1 by (auto simp: ss_close_writer_def Let_def sy pb idx split: if_splits)
      with p sp(3) show ?thesis by (auto simp: snap_inv_temp)
    qed
  qed
  then show "snap_inv rs ss'" "ss_last ss' = ss_last ss \<or> ss_last ss' = sw_snapshot_index w" by simp_all
qed

lemma create_inv: "snap_inv rs ss \<Longrightarrow> ss_create F stale fe ss = (w, ss') \<Longrightarrow> snap_inv rs ss'"
  by (auto simp: ss_create_def Let_def snap_inv_temp split: if_splits option.splits prod.splits)

text \<open>What \<open>close\<close> of a newer snapshot's writer does and reports.\<close>

lemma close_result:
  assumes inv: "snap_inv rs ss" and t: "ss_temp ss = Some d" and new: "ss_last ss < sw_snapshot_index w"
    and cl: "ss_close_writer F keep w ss = (r, ss')"
  shows "(if sw_error w = RcOk \<and> fs_save_ok F \<and> fs_delete_new_ok F \<and> fs_rename_ok F
          then r = RcOk \<and> ss_last ss' = sw_snapshot_index w
            \<and> on_disk (sw_snapshot_index w) ss' = Some (mt_load (mt_save (sw_table w)))
          else ss_last ss' = ss_last ss \<and> ss_snapshots ss' = ss_snapshots ss
            \<and> (keep \<or> (fs_delete_temp_ok F \<longrightarrow> ss_temp ss' = None))
            \<and> (r = (if sw_error w = RcErr EIO \<or> sw_error w = RcOk \<and> fs_save_ok F then RcFail else RcOk)))"
proof -
  have del: "delete_snapshot (sw_snapshot_index w) ss1 = ss1" if "ss_snapshots ss1 = ss_snapshots ss" for ss1
  proof -
    have "sw_snapshot_index w \<notin> fst ` set (ss_snapshots ss)" using snap_inv_bounds [OF inv] new by fastforce
    with that show ?thesis by (simp add: delete_snapshot_def AList.delete_id)
  qed
  show ?thesis
  proof (cases "sw_error w = RcOk \<and> fs_save_ok F \<and> fs_delete_new_ok F \<and> fs_rename_ok F")
    case True
    let ?ss1 = "ss\<lparr>ss_temp := Some (d\<lparr>sd_meta_file := Some (Some (mt_save (sw_table w)))\<rparr>)\<rparr>"
    have inv1: "snap_inv rs ?ss1" using inv by (simp add: snap_inv_temp)
    obtain ss2 where pb: "ss_publish F (sw_snapshot_index w) ?ss1 = (RcOk, ss2)"
      using True new by (simp add: ss_publish_def Let_def delete_snapshot_def)
    have "ss' = ss2 \<and> r = RcOk"
      using cl True t pb by (simp add: ss_close_writer_def sw_sync_def)
    then show ?thesis
      using publish_inv [OF inv1 _ _ pb] new True by (auto simp: dir_table_def)
  next
    case False
    with cl t new show ?thesis
      by (auto simp: ss_close_writer_def sw_sync_def ss_publish_def Let_def del split: if_splits)
  qed
qed

subsection \<open>Starting: only the newest snapshot stays\<close>

lemma delete_all_spec:
  assumes "delete_all ok is ss = (True, ss')"
  shows "ss' = ss\<lparr>ss_snapshots := filter (\<lambda>(j, d). j \<notin> set is) (ss_snapshots ss)\<rparr>"
  using assms
proof (induction "is" arbitrary: ss)
  case (Cons i "is")
  then show ?case
    by (fastforce simp: delete_snapshot_def AList.delete_eq intro: arg_cong [of _ _ "\<lambda>x. ss\<lparr>ss_snapshots := x\<rparr>"] filter_cong
        split: if_splits)
qed (simp add: case_prod_beta)

lemma butlast_sorted_list_of_set:
  assumes "finite A" "A \<noteq> {}"
  shows "set (butlast (sorted_list_of_set A)) = A - {Max A}" and "last (sorted_list_of_set A) = Max (A :: int set)"
proof -
  let ?l = "sorted_list_of_set A"
  have l: "set ?l = A" "sorted ?l" "distinct ?l" "?l \<noteq> []" using assms by auto
  have app: "?l = butlast ?l @ [last ?l]" using l(4) by simp
  show m: "last ?l = Max A"
  proof (rule sym, rule Max_eqI [OF assms(1)])
    fix y assume "y \<in> A"
    then have "y \<in> set (butlast ?l @ [last ?l])" using app l(1) by simp
    moreover have "sorted (butlast ?l @ [last ?l])" using l(2) app by simp
    ultimately show "y \<le> last ?l" by (auto simp: sorted_append)
  qed (use l in \<open>metis last_in_set\<close>)
  have "distinct (butlast ?l @ [last ?l])" using l(3) app by simp
  moreover have "set (butlast ?l @ [last ?l]) = A" using l(1) app by simp
  ultimately show "set (butlast ?l) = A - {Max A}" using m by auto
qed

lemma map_of_filter_key: "P k \<Longrightarrow> map_of (filter (\<lambda>(j, d). P j) xs) k = map_of xs k"
  by (induction xs) auto

definition top_ok :: "(int \<times> snap_dir) list \<Rightarrow> bool" where
  "top_ok dirs \<longleftrightarrow> (\<forall>i \<in> fst ` set dirs. 0 < i)
     \<and> (dirs \<noteq> [] \<longrightarrow> (case map_of dirs (Max (fst ` set dirs)) of None \<Rightarrow> False | Some d \<Rightarrow> dir_table d \<noteq> None))"

lemma snap_init_inv:
  assumes ini: "ss_init F del (storage_new dirs t flt) = (RcOk, ss)" and top: "top_ok dirs"
  shows "snap_inv [] ss" and "ss_last ss = (if dirs = [] then 0 else Max (fst ` set dirs))"
    and "on_disk (ss_last ss) ss = (case map_of dirs (ss_last ss) of None \<Rightarrow> None | Some d \<Rightarrow> dir_table d)"
proof -
  let ?l = "sorted_list_of_set (fst ` set dirs)" and ?m = "Max (fst ` set dirs)"
  have "snap_inv [] ss \<and> ss_last ss = (if dirs = [] then 0 else ?m)
    \<and> on_disk (ss_last ss) ss = (case map_of dirs (ss_last ss) of None \<Rightarrow> None | Some d \<Rightarrow> dir_table d)"
  proof (cases "dirs = []")
    case True
    then have "ss_snapshots ss = [] \<and> ss_last ss = 0 \<and> ss_refs ss = []"
      using ini by (auto simp: ss_init_def storage_new_def Let_def split: if_splits)
    with True show ?thesis by (simp add: snap_inv_def ref_count_def readers_at_def on_disk_def)
  next
    case False
    then have ne: "fst ` set dirs \<noteq> {}" "finite (fst ` set dirs)" by auto
    note l = butlast_sorted_list_of_set [OF ne(2,1)]
    obtain ss1 ss2 where da: "delete_all del (butlast ?l) ss1 = (True, ss2)"
      and ss1: "ss_snapshots ss1 = dirs" "ss_refs ss1 = []"
      and ss: "ss = ss_ref ?m (ss2\<lparr>ss_last := ?m\<rparr>)"
      using ini False l(2) by (fastforce simp: ss_init_def storage_new_def Let_def split: if_splits prod.splits)
    have ss2: "ss_snapshots ss2 = filter (\<lambda>(j, d). j \<notin> fst ` set dirs - {?m}) dirs" "ss_refs ss2 = []"
      using delete_all_spec [OF da] ss1 l(1) by simp_all
    have keys: "\<forall>i \<in> fst ` set (ss_snapshots ss2). i = ?m" using ss2(1) by (force simp: image_iff)
    have look: "map_of (ss_snapshots ss2) ?m = map_of dirs ?m"
      unfolding ss2(1) by (rule map_of_filter_key) simp
    have pos: "0 < ?m" using top Max_in [OF ne(2,1)] unfolding top_ok_def by blast
    have "map_of (ss_refs ss) i = (if i = ?m then Some 1 else None)" for i
      by (simp add: ss ss_ref_def ref_count_def ss2(2) AList.update_conv')
    moreover have "on_disk ?m ss = (case map_of dirs ?m of None \<Rightarrow> None | Some d \<Rightarrow> dir_table d)"
      using look by (simp add: ss on_disk_def ss_ref_def)
    moreover have "ss_snapshots ss = ss_snapshots ss2" "ss_last ss = ?m" by (simp_all add: ss)
    moreover have "on_disk ?m ss \<noteq> None"
      using top False calculation(2) by (auto simp: top_ok_def split: option.splits)
    moreover have "\<forall>i \<in> fst ` set (ss_snapshots ss). 0 < i \<and> i \<le> ?m" using keys pos calculation(3) by fastforce
    ultimately show ?thesis
      using pos False by (simp add: snap_inv_def ref_count_def readers_at_def)
  qed
  then show "snap_inv [] ss" "ss_last ss = (if dirs = [] then 0 else ?m)"
    "on_disk (ss_last ss) ss = (case map_of dirs (ss_last ss) of None \<Rightarrow> None | Some d \<Rightarrow> dir_table d)" by blast+
qed

subsection \<open>Runs with crashes\<close>

text \<open>
  A crash leaves the directories: the referenced ones whole, the others perhaps deleted or half deleted
  (\<open>left_by\<close>), and \<^verbatim>\<open>temp\<close> in any state. A writer's index is the last one or greater; that is what the snapshot
  executor guarantees, which saves and installs only newer snapshots.
\<close>

definition left_by :: "snap_storage \<Rightarrow> (int \<times> snap_dir) list \<Rightarrow> bool" where
  "left_by ss dirs \<longleftrightarrow> fst ` set dirs \<subseteq> fst ` set (ss_snapshots ss)
     \<and> (\<forall>i. 0 < ref_count i ss \<longrightarrow> map_of dirs i = map_of (ss_snapshots ss) i)"

definition synced_dir :: "snap_writer \<Rightarrow> snap_dir \<Rightarrow> snap_dir" where
  "synced_dir w d = d\<lparr>sd_meta_file := Some (Some (mt_save (sw_table w)))\<rparr>"

inductive snap_run :: "snap_reader list \<Rightarrow> snap_storage \<Rightarrow> bool" where
  start: "ss_init F del (storage_new [] t flt) = (RcOk, ss) \<Longrightarrow> snap_run [] ss"
| create: "snap_run rs ss \<Longrightarrow> ss_create F stale from_empty ss = (w, ss') \<Longrightarrow> snap_run rs ss'"
| temp_changes: "snap_run rs ss \<Longrightarrow> snap_run rs (ss\<lparr>ss_temp := t\<rparr>)"
| close_writer: "snap_run rs ss \<Longrightarrow> ss_last ss \<le> sw_snapshot_index w \<Longrightarrow> ss_close_writer F keep w ss = (r, ss') \<Longrightarrow> snap_run rs ss'"
| open_reader: "snap_run rs ss \<Longrightarrow> ss_open F ss = (Some x, ss') \<Longrightarrow> snap_run (x # rs) ss'"
| open_fails: "snap_run rs ss \<Longrightarrow> ss_open F ss = (None, ss') \<Longrightarrow> snap_run rs ss'"
| close_reader: "snap_run rs ss \<Longrightarrow> x \<in> set rs \<Longrightarrow> snap_run (remove1 x rs) (ss_close_reader F x ss)"
| crash: "snap_run rs ss \<Longrightarrow> left_by ss dirs \<Longrightarrow> ss_init F del (storage_new dirs t flt) = (RcOk, ss') \<Longrightarrow> snap_run [] ss'"
| crash_published: "snap_run rs ss \<Longrightarrow> ss_temp ss = Some d \<Longrightarrow> ss_last ss < sw_snapshot_index w \<Longrightarrow>
    ss_init F del (storage_new ((sw_snapshot_index w, synced_dir w d) # ss_snapshots ss) t flt) = (RcOk, ss') \<Longrightarrow> snap_run [] ss'"

lemma left_by_top:
  assumes inv: "snap_inv rs ss" and l: "left_by ss dirs"
  shows "top_ok dirs" and "ss_last ss = (if dirs = [] then 0 else Max (fst ` set dirs))"
    and "ss_last ss \<noteq> 0 \<Longrightarrow> map_of dirs (ss_last ss) = map_of (ss_snapshots ss) (ss_last ss)"
proof -
  have b: "0 < i \<and> i \<le> ss_last ss" if "i \<in> fst ` set dirs" for i
    using that l by (intro snap_inv_bounds [OF inv]) (auto simp: left_by_def)
  have "top_ok dirs \<and> ss_last ss = (if dirs = [] then 0 else Max (fst ` set dirs))
    \<and> (ss_last ss \<noteq> 0 \<longrightarrow> map_of dirs (ss_last ss) = map_of (ss_snapshots ss) (ss_last ss))"
  proof (cases "ss_last ss = 0")
    case True
    have "dirs = []"
    proof (rule ccontr)
      assume "dirs \<noteq> []"
      then have "fst (hd dirs) \<in> fst ` set dirs" by simp
      from b [OF this] True show False by linarith
    qed
    with True show ?thesis by (simp add: top_ok_def)
  next
    case False
    have "0 < ref_count (ss_last ss) ss" using inv False readers_at_ge(1) [of "ss_last ss" rs] by (simp add: snap_inv_def)
    then have m: "map_of dirs (ss_last ss) = map_of (ss_snapshots ss) (ss_last ss)" using l by (simp add: left_by_def)
    moreover obtain d where d: "map_of (ss_snapshots ss) (ss_last ss) = Some d" "dir_table d \<noteq> None"
      using inv False by (auto simp: snap_inv_def on_disk_def split: option.splits)
    ultimately have mem: "ss_last ss \<in> fst ` set dirs" by (metis map_of_eq_None_iff option.distinct(1))
    then have "Max (fst ` set dirs) = ss_last ss" using b by (intro Max_eqI) auto
    then show ?thesis using m d mem b by (auto simp: top_ok_def)
  qed
  then show "top_ok dirs" "ss_last ss = (if dirs = [] then 0 else Max (fst ` set dirs))"
    "ss_last ss \<noteq> 0 \<Longrightarrow> map_of dirs (ss_last ss) = map_of (ss_snapshots ss) (ss_last ss)" by blast+
qed

lemma restart_last:
  assumes inv: "snap_inv rs ss" and l: "left_by ss dirs" and ini: "ss_init F del (storage_new dirs t flt) = (RcOk, ss')"
  shows "snap_inv [] ss'" "ss_last ss' = ss_last ss"
    and "ss_last ss \<noteq> 0 \<Longrightarrow> on_disk (ss_last ss) ss' = on_disk (ss_last ss) ss"
  using snap_init_inv [OF ini left_by_top(1) [OF inv l]] left_by_top(2,3) [OF inv l] by (simp_all add: on_disk_def)

lemma restart_published:
  assumes inv: "snap_inv rs ss" and gt: "ss_last ss < i" and d: "dir_table d \<noteq> None"
    and ini: "ss_init F del (storage_new ((i, d) # ss_snapshots ss) t flt) = (RcOk, ss')"
  shows "snap_inv [] ss'" "ss_last ss' = i" "on_disk i ss' = dir_table d"
proof -
  let ?dirs = "(i, d) # ss_snapshots ss"
  have b: "j \<in> fst ` set (ss_snapshots ss) \<Longrightarrow> 0 < j \<and> j \<le> ss_last ss" for j
    by (rule snap_inv_bounds [OF inv])
  then have m: "Max (fst ` set ?dirs) = i" using gt by (intro Max_eqI) force+
  moreover have "0 < i" using inv gt by (simp add: snap_inv_def)
  ultimately have "top_ok ?dirs" using b d unfolding top_ok_def by auto
  from snap_init_inv [OF ini this] m show "snap_inv [] ss'" "ss_last ss' = i" "on_disk i ss' = dir_table d" by simp_all
qed

lemma snap_run_inv: "snap_run rs ss \<Longrightarrow> snap_inv rs ss"
proof (induction rule: snap_run.induct)
  case (start F del t flt ss)
  then show ?case by (rule snap_init_inv) (simp add: top_ok_def)
next
  case (close_writer rs ss w F keep r ss')
  show ?case by (rule close_writer_inv [OF close_writer.IH _ close_writer.hyps(3)]) (use close_writer.hyps(2) in simp)
next
  case (open_reader rs ss F x ss')
  show ?case using open_inv(1) [OF open_reader.IH open_reader.hyps(2)] by simp
next
  case (open_fails rs ss F ss')
  show ?case using open_inv(1) [OF open_fails.IH open_fails.hyps(2)] by simp
next
  case (crash_published rs ss d w F del t flt ss')
  show ?case
    by (rule restart_published [OF crash_published.IH crash_published.hyps(3) _ crash_published.hyps(4)])
      (simp add: synced_dir_def dir_table_def)
qed (auto simp: snap_inv_temp create_inv close_reader_inv restart_last)

end
