(* ===== verification/SnapshotTables.thy ===== *)
theory SnapshotTables
  imports Snapshot
begin

section \<open>Meta tables are maps\<close>

text \<open>
  A table is well formed if its names are strictly ascending, as in the \<^verbatim>\<open>std::map\<close> it stands for. Every
  operation of a table, a writer and a copier keeps that, and a well-formed table comes back from its file as it was.
\<close>

definition table_ok :: "meta_table \<Rightarrow> bool" where
  "table_ok t \<longleftrightarrow> sorted_wrt (<) (map fst (mt_files t))"

lemma table_ok_distinct: "table_ok t \<Longrightarrow> distinct (map fst (mt_files t))"
  by (simp add: table_ok_def strict_sorted_iff)

subsection \<open>Assignment and removal\<close>

lemma map_put_lookup [simp]: "map_of (map_put k v xs) = (map_of xs)(k \<mapsto> v)"
  by (induction k v xs rule: map_put.induct) auto

lemma map_put_keys [simp]: "fst ` set (map_put k v xs) = insert k (fst ` set xs)"
  by (induction k v xs rule: map_put.induct) auto

lemma map_put_sorted: "sorted_wrt (<) (map fst xs) \<Longrightarrow> sorted_wrt (<) (map fst (map_put k v xs))"
proof (induction k v xs rule: map_put.induct)
  case (2 k v k' v' xs)
  have "\<forall>x \<in> set (map_put k v xs). fst x \<in> insert k (fst ` set xs)"
    using map_put_keys [of k v xs] by blast
  with 2 show ?case by (fastforce simp: not_less intro: less_trans)
qed simp

lemma map_put_last: "\<forall>x \<in> set xs. fst x < k \<Longrightarrow> map_put k v xs = xs @ [(k, v)]"
  by (induction xs) auto

lemma map_erase_lookup [simp]: "map_of (map_erase k xs) = (map_of xs)(k := None)"
  by (induction xs) (auto simp: map_erase_def)

lemma map_erase_sorted: "sorted_wrt (<) (map fst xs) \<Longrightarrow> sorted_wrt (<) (map fst (map_erase k xs))"
  unfolding map_erase_def by (induction xs) auto

lemma fold_map_put_id:
  "sorted_wrt (<) (map fst (ys @ xs)) \<Longrightarrow> fold (\<lambda>(k, v) zs. map_put k v zs) xs ys = ys @ xs"
proof (induction xs arbitrary: ys)
  case (Cons x xs)
  then have "map_put (fst x) (snd x) ys = ys @ [x]"
    by (subst map_put_last) (auto simp: sorted_wrt_append)
  with Cons show ?case by (simp add: case_prod_beta)
qed simp

lemma fold_map_put_sorted:
  "sorted_wrt (<) (map fst ys) \<Longrightarrow> sorted_wrt (<) (map fst (fold (\<lambda>(k, v) zs. map_put k v zs) xs ys))"
  by (induction xs arbitrary: ys) (auto simp: map_put_sorted)

lemma fold_map_put_keys:
  "fst ` set (fold (\<lambda>(k, v) zs. map_put k v zs) xs ys) = fst ` set ys \<union> fst ` set xs"
  by (induction xs arbitrary: ys) (auto simp: case_prod_beta)

subsection \<open>The operations of a table\<close>

lemma table_ok_empty [simp]: "table_ok empty_table"
  by (simp add: table_ok_def empty_table_def)

lemma table_ok_load [simp]: "table_ok (mt_load pb)"
  by (simp add: table_ok_def mt_load_def fold_map_put_sorted)

lemma load_save: "table_ok t \<Longrightarrow> mt_load (mt_save t) = t"
  using fold_map_put_id [of "[]" "mt_files t"] by (simp add: table_ok_def mt_load_def mt_save_def)

lemma table_ok_add [simp]: "table_ok t \<Longrightarrow> table_ok (snd (mt_add_file f m t))"
  by (simp add: table_ok_def mt_add_file_def map_put_sorted)

lemma table_ok_remove [simp]: "table_ok t \<Longrightarrow> table_ok (snd (mt_remove_file f t))"
  by (simp add: table_ok_def mt_remove_file_def map_erase_sorted)

lemma table_ok_meta [simp]: "table_ok (t\<lparr>mt_meta := m\<rparr>) = table_ok t"
  by (simp add: table_ok_def)

lemma get_add [simp]:
  "mt_get_file_meta g (snd (mt_add_file f m t)) =
     (if g = f \<and> mt_get_file_meta f t = None then Some m else mt_get_file_meta g t)"
  by (simp add: mt_get_file_meta_def mt_add_file_def)

lemma get_remove [simp]:
  "mt_get_file_meta g (snd (mt_remove_file f t)) = (if g = f then None else mt_get_file_meta g t)"
  by (auto simp: mt_get_file_meta_def mt_remove_file_def)

lemma add_result:
  assumes "mt_add_file f m t = (r, t')"
  shows "(r = RcOk \<longleftrightarrow> mt_get_file_meta f t = None) \<and> (r \<noteq> RcOk \<longrightarrow> r = RcFail \<and> t' = t) \<and> mt_meta t' = mt_meta t
     \<and> (r = RcOk \<longrightarrow> (\<forall>g. mt_get_file_meta g t' = (if g = f then Some m else mt_get_file_meta g t)))"
  using assms by (auto simp: mt_add_file_def mt_get_file_meta_def split: if_splits)

lemma remove_result:
  assumes "mt_remove_file f t = (r, t')"
  shows "(r = RcOk \<longleftrightarrow> mt_get_file_meta f t \<noteq> None) \<and> (r \<noteq> RcOk \<longrightarrow> r = RcFail \<and> t' = t) \<and> mt_meta t' = mt_meta t
     \<and> (r = RcOk \<longrightarrow> (\<forall>g. mt_get_file_meta g t' = (if g = f then None else mt_get_file_meta g t)))"
  using assms by (auto simp: mt_remove_file_def mt_get_file_meta_def split: if_splits)

lemma get_meta [simp]: "mt_get_file_meta g (t\<lparr>mt_meta := m\<rparr>) = mt_get_file_meta g t"
  by (simp add: mt_get_file_meta_def)

lemma listed_iff: "f \<in> set (mt_list_files t) \<longleftrightarrow> mt_get_file_meta f t \<noteq> None"
  by (simp add: mt_list_files_def mt_get_file_meta_def map_of_eq_None_iff)

lemma list_load: "set (mt_list_files (mt_load pb)) = fst ` set (pb_files pb)"
  by (simp add: mt_list_files_def mt_load_def fold_map_put_keys)

subsection \<open>Writers and copiers\<close>

definition writer_ok :: "snap_writer option \<Rightarrow> bool" where
  "writer_ok w \<longleftrightarrow> (case w of None \<Rightarrow> True | Some w \<Rightarrow> table_ok (sw_table w))"

definition copier_ok :: "copier \<Rightarrow> bool" where
  "copier_ok c \<longleftrightarrow> table_ok (cp_remote c) \<and> writer_ok (cp_writer c)
     \<and> (case cp_reader c of None \<Rightarrow> True | Some r \<Rightarrow> table_ok (sr_table r))"

lemma load_table_ok: "load_table F d = Some t \<Longrightarrow> table_ok t"
  by (auto simp: load_table_def split: option.splits if_splits)

lemma writer_init_ok:
  assumes "writer_init F stale temp = (Some (w, d), t)"
  shows "table_ok (sw_table w)" "sw_error w = RcOk" "t = Some d"
    and "temp = None \<Longrightarrow> sw_table w = empty_table"
  using assms by (auto simp: writer_init_def Let_def load_table_ok empty_dir_def split: if_splits option.splits)

lemma create_ok:
  assumes "ss_create F stale fe ss = (Some w, ss')"
  shows "table_ok (sw_table w)" "sw_error w = RcOk" "ss_temp ss' \<noteq> None" "fe \<Longrightarrow> sw_table w = empty_table"
  using assms writer_init_ok by (fastforce simp: ss_create_def Let_def split: if_splits option.splits prod.splits)+

lemma open_ok: "ss_open F ss = (Some r, ss') \<Longrightarrow> table_ok (sr_table r)"
  by (auto simp: ss_open_def Let_def load_table_ok split: if_splits option.splits)

lemma sync_table [simp]: "sw_table (fst (snd (sw_sync F w ss))) = sw_table w"
  by (simp add: sw_sync_def)

lemma sync_tableD: "sw_sync F w ss = (r, w', ss') \<Longrightarrow> sw_table w' = sw_table w"
  using sync_table [of F w ss] by simp

lemma sw_add_ok: "sw_add_file f m w = (r, w') \<Longrightarrow> table_ok (sw_table w) \<Longrightarrow> table_ok (sw_table w')"
  by (drule arg_cong [of _ _ snd]) (auto simp: sw_add_file_def case_prod_beta)

lemma take_from_last_table:
  "fl_table (take_from_last E l f c st) = fl_table st
   \<or> (\<exists>m. fm_checksum m \<noteq> None \<and> fm_checksum m = c
        \<and> fl_table (take_from_last E l f c st) = snd (mt_add_file f m (fl_table st)))"
proof (cases l)
  case None
  then show ?thesis by (simp add: take_from_last_def)
next
  case (Some p)
  obtain lt lfiles where p: "p = (lt, lfiles)" by (cases p)
  show ?thesis
  proof (cases "mt_get_file_meta f lt")
    case None
    then show ?thesis by (simp add: take_from_last_def Some p)
  next
    case m: (Some m)
    let ?st1 = "if ce_unlink_ok E f then st\<lparr>fl_files := map_erase f (fl_files st)\<rparr> else st"
    have t: "fl_table ?st1 = fl_table st" by simp
    show ?thesis
      unfolding take_from_last_def Some p m option.case prod.case Let_def
      by (cases "map_of lfiles f") (use t in \<open>auto simp del: if_split split: if_split\<close>)
  qed
qed

lemma take_from_last_ok: "table_ok (fl_table st) \<Longrightarrow> table_ok (fl_table (take_from_last E l f c st))"
  using take_from_last_table [of E l f c st] by auto

lemma filter_existing_ok: "table_ok (fl_table st) \<Longrightarrow> table_ok (fl_table (filter_existing r fs st))"
  by (induction fs arbitrary: st) simp_all

lemma filter_remote_file_ok: "table_ok (fl_table st) \<Longrightarrow> table_ok (fl_table (filter_remote_file E r l f st))"
  by (simp add: filter_remote_file_def Let_def take_from_last_ok split: option.splits)

lemma filter_remote_files_ok: "table_ok (fl_table st) \<Longrightarrow> table_ok (fl_table (fold (filter_remote_file E r l) fs st))"
  by (induction fs arbitrary: st) (simp_all add: filter_remote_file_ok)

lemma filter_before_copy_ok:
  assumes "cp_filter_before_copy E r l w ss = (x, w', ss')" "table_ok (sw_table w)"
  shows "table_ok (sw_table w')"
  using assms by (auto simp: cp_filter_before_copy_def Let_def filter_remote_files_ok filter_existing_ok
      dest!: sync_tableD split: prod.splits if_splits)

lemma recreate_ok:
  "cp_filter_or_recreate E r rd w ss = (w', ss') \<Longrightarrow> table_ok (sw_table w) \<Longrightarrow> writer_ok w'"
  by (auto simp: cp_filter_or_recreate_def writer_ok_def create_ok(1) filter_before_copy_ok
      split: option.splits prod.splits if_splits)

lemma filter_writer_ok: "cp_filter_writer E r ss = (w, ss') \<Longrightarrow> writer_ok w"
  by (auto simp: cp_filter_writer_def create_ok(1) dest: recreate_ok split: option.splits prod.splits if_splits)
    (simp add: writer_ok_def create_ok(1))+

lemma cp_load_ok: "copier_ok c \<Longrightarrow> copier_ok (cp_load_meta_table E c)"
  by (auto simp: copier_ok_def cp_load_meta_table_def split: sum.split option.split)

lemma cp_filter_ok: "copier_ok c \<Longrightarrow> copier_ok (cp_filter E c)"
  by (auto simp: copier_ok_def cp_filter_def Let_def writer_ok_def dest!: sync_tableD filter_writer_ok
      split: option.splits prod.splits)

lemma cp_copy_file_ok: "copier_ok c \<Longrightarrow> copier_ok (cp_copy_file E f c)"
  by (auto simp: copier_ok_def cp_copy_file_def Let_def writer_ok_def dest: sw_add_ok dest!: sync_tableD
      split: option.splits prod.splits)

lemma cp_copy_files_ok: "copier_ok c \<Longrightarrow> copier_ok (cp_copy_files E fs c)"
  by (induction fs arbitrary: c) (simp_all add: cp_copy_file_ok)

lemma cp_close_writer_ok: "copier_ok c \<Longrightarrow> copier_ok (cp_close_writer E c)"
  by (auto simp: copier_ok_def cp_close_writer_def Let_def writer_ok_def case_prod_beta split: option.split)

lemma cp_open_reader_ok: "copier_ok c \<Longrightarrow> copier_ok (cp_open_reader E c)"
  using open_ok [of "ce_fs E" "cp_storage c"]
  by (auto simp: copier_ok_def cp_open_reader_def split: option.splits prod.splits)

lemma cp_copy_ok: "copier_ok c \<Longrightarrow> copier_ok (cp_copy E c)"
  by (simp add: cp_copy_def Let_def cp_load_ok cp_filter_ok cp_copy_files_ok cp_close_writer_ok cp_open_reader_ok)

end
