(* ===== verification/SnapshotCopy.thy ===== *)
theory SnapshotCopy
  imports SnapshotSafety SnapshotTables
begin

section \<open>Copying a snapshot: the copy is the leader's snapshot\<close>

text \<open>
  The copier's steps are runs of the storage (so what is read meanwhile stays), and what the last of them
  publishes has the leader's meta and exactly the leader's files. A file counts as the leader's if its entry is the
  leader's, or if it was kept or taken from the last snapshot because the checksums agree (\<open>agrees\<close>).
\<close>

definition agrees :: "meta_table \<Rightarrow> string \<Rightarrow> file_meta \<Rightarrow> bool" where
  "agrees remote f m \<longleftrightarrow> (case mt_get_file_meta f remote of None \<Rightarrow> False
     | Some m' \<Rightarrow> m = m' \<or> fm_checksum m \<noteq> None \<and> fm_checksum m = fm_checksum m')"

definition table_agrees :: "meta_table \<Rightarrow> meta_table \<Rightarrow> bool" where
  "table_agrees remote t \<longleftrightarrow> (\<forall>f m. mt_get_file_meta f t = Some m \<longrightarrow> agrees remote f m)"

lemma table_agrees_empty [simp]: "table_agrees r empty_table"
  by (simp add: table_agrees_def mt_get_file_meta_def empty_table_def)

lemma on_disk_ok: "on_disk i ss = Some t \<Longrightarrow> table_ok t"
  by (auto simp: on_disk_def dir_table_def split: option.splits)

lemma table_agrees_names: "table_agrees r t \<Longrightarrow> set (mt_list_files t) \<subseteq> set (mt_list_files r)"
proof
  fix f assume a: "table_agrees r t" and "f \<in> set (mt_list_files t)"
  then obtain m where "mt_get_file_meta f t = Some m" by (auto simp: listed_iff)
  with a have "agrees r f m" by (simp add: table_agrees_def)
  then show "f \<in> set (mt_list_files r)" by (auto simp: agrees_def listed_iff split: option.splits)
qed

subsection \<open>Filtering\<close>

lemma filter_existing_get:
  "mt_get_file_meta g (fl_table (filter_existing r fs st)) =
     (if g \<in> set fs \<and> mt_get_file_meta g r = None then None else mt_get_file_meta g (fl_table st))"
  by (induction fs arbitrary: st) auto

lemma take_from_last_get:
  "mt_get_file_meta g (fl_table (take_from_last E l f c st)) = mt_get_file_meta g (fl_table st)
   \<or> g = f \<and> (\<exists>m. mt_get_file_meta g (fl_table (take_from_last E l f c st)) = Some m \<and> fm_checksum m \<noteq> None \<and> fm_checksum m = c)"
  using take_from_last_table [of E l f c st] by (auto split: if_splits)

lemma filter_remote_file_get:
  fixes r l E f st
  defines "st' \<equiv> filter_remote_file E r l f st"
  shows "g \<noteq> f \<Longrightarrow> mt_get_file_meta g (fl_table st') = mt_get_file_meta g (fl_table st)"
    and "mt_get_file_meta f r \<noteq> None \<Longrightarrow> mt_get_file_meta f (fl_table st') = Some m \<Longrightarrow> agrees r f m"
proof -
  show "g \<noteq> f \<Longrightarrow> mt_get_file_meta g (fl_table st') = mt_get_file_meta g (fl_table st)"
    using take_from_last_get [of g E l f]
    by (auto simp: st'_def filter_remote_file_def Let_def split: option.splits)
  let ?c = "case mt_get_file_meta f r of None \<Rightarrow> None | Some m \<Rightarrow> fm_checksum m"
  let ?d = "st\<lparr>fl_table := snd (mt_remove_file f (fl_table st)), fl_remove := fl_remove st @ [f]\<rparr>"
  assume fr: "mt_get_file_meta f r \<noteq> None" and g: "mt_get_file_meta f (fl_table st') = Some m"
  then obtain m' where m': "mt_get_file_meta f r = Some m'" by blast
  show "agrees r f m"
    using g take_from_last_get [of f E l f ?c ?d] take_from_last_get [of f E l f ?c st] m'
    by (auto simp: st'_def filter_remote_file_def Let_def agrees_def split: option.splits if_splits)
qed

lemma filter_remote_files_get:
  assumes "\<forall>f \<in> set fs. mt_get_file_meta f r \<noteq> None"
    and "mt_get_file_meta g (fl_table (fold (filter_remote_file E r l) fs st)) = Some m"
  shows "g \<in> set fs \<and> agrees r g m \<or> g \<notin> set fs \<and> mt_get_file_meta g (fl_table st) = Some m"
  using assms
proof (induction fs arbitrary: st)
  case (Cons f fs)
  then have "g \<in> set fs \<and> agrees r g m
    \<or> g \<notin> set fs \<and> mt_get_file_meta g (fl_table (filter_remote_file E r l f st)) = Some m" by simp
  then show ?case
    using filter_remote_file_get(1) [where g = g and f = f and E = E and r = r and l = l and st = st]
      filter_remote_file_get(2) [where f = f and E = E and r = r and l = l and st = st and m = m] Cons.prems(1)
    by (cases "g = f") auto
qed simp

lemma filter_agrees:
  assumes "cp_filter_before_copy E r l w ss = (RcOk, w', ss')"
  shows "table_agrees r (sw_table w')" "ss_temp ss \<noteq> None \<Longrightarrow> ss_temp ss' \<noteq> None"
proof -
  let ?st0 = "\<lparr>fl_table = sw_table w, fl_remove = [], fl_files = temp_files ss\<rparr>"
  let ?st1 = "filter_existing r (mt_list_files (sw_table w)) ?st0"
  let ?st2 = "fold (filter_remote_file E r l) (mt_list_files r) ?st1"
  have t: "sw_table w' = fl_table ?st2"
    using assms by (auto simp: cp_filter_before_copy_def Let_def dest!: sync_tableD split: prod.splits if_splits)
  show "table_agrees r (sw_table w')"
    unfolding table_agrees_def t
  proof (intro allI impI)
    fix g m assume g: "mt_get_file_meta g (fl_table ?st2) = Some m"
    have l: "\<forall>f \<in> set (mt_list_files r). mt_get_file_meta f r \<noteq> None" by (simp add: listed_iff)
    from filter_remote_files_get [OF l g] show "agrees r g m"
      by (auto simp: filter_existing_get listed_iff split: if_splits)
  qed
  show "ss_temp ss \<noteq> None \<Longrightarrow> ss_temp ss' \<noteq> None"
    using assms by (auto simp: cp_filter_before_copy_def Let_def sw_sync_def set_temp_files_def split: if_splits)
qed

subsection \<open>The steps of the copier on the storage\<close>

text \<open>What a step of the copier does to the storage, if it only writes to \<^verbatim>\<open>temp\<close>.\<close>

definition temp_only :: "snap_storage \<Rightarrow> snap_storage \<Rightarrow> bool" where
  "temp_only ss ss' \<longleftrightarrow> (\<exists>t. ss' = ss\<lparr>ss_temp := t\<rparr>)"

lemma temp_only_refl [simp]: "temp_only ss ss"
  unfolding temp_only_def by (rule exI [of _ "ss_temp ss"]) simp

lemma temp_only_trans: "temp_only a b \<Longrightarrow> temp_only b c \<Longrightarrow> temp_only a c"
  by (auto simp: temp_only_def)

lemma temp_only_set [simp]: "temp_only ss (ss\<lparr>ss_temp := t\<rparr>)"
  by (auto simp: temp_only_def)

lemma temp_only_files [simp]: "temp_only ss (set_temp_files fs ss)"
  by (simp add: set_temp_files_def)

lemma temp_only_run: "temp_only ss ss' \<Longrightarrow> snap_run rs ss \<Longrightarrow> snap_run rs ss'"
  by (auto simp: temp_only_def temp_changes)

lemma temp_only_last: "temp_only ss ss' \<Longrightarrow> ss_last ss' = ss_last ss"
  by (auto simp: temp_only_def)

lemma sync_temp_only: "sw_sync F w ss = (r, w', ss') \<Longrightarrow> temp_only ss ss'"
  by (auto simp: sw_sync_def split: if_splits)

lemma create_temp_only: "ss_create F stale fe ss = (w, ss') \<Longrightarrow> temp_only ss ss'"
  by (auto simp: ss_create_def Let_def split: if_splits option.splits prod.splits)

lemma sync_has_temp: "sw_sync F w ss = (r, w', ss') \<Longrightarrow> ss_temp ss \<noteq> None \<Longrightarrow> ss_temp ss' \<noteq> None"
  by (auto simp: sw_sync_def split: if_splits)

lemma set_temp_files_has [simp]: "(ss_temp (set_temp_files fs ss) = None) = (ss_temp ss = None)"
  by (simp add: set_temp_files_def)

lemma sync_error: "sw_sync F w ss = (r, w', ss') \<Longrightarrow> r = RcOk \<Longrightarrow> w' = w"
  by (auto simp: sw_sync_def split: if_splits)

lemma filter_temp_only: "cp_filter_before_copy E r l w ss = (x, w', ss') \<Longrightarrow> temp_only ss ss'"
  by (auto simp: cp_filter_before_copy_def Let_def dest!: sync_temp_only split: prod.splits if_splits
      intro: temp_only_trans [OF _ temp_only_files] temp_only_trans [OF temp_only_files])

lemma filter_before_copy_error:
  assumes "cp_filter_before_copy E r l w ss = (RcOk, w', ss')"
  shows "sw_error w' = sw_error w"
  using assms by (auto simp: cp_filter_before_copy_def Let_def dest!: sync_error split: prod.splits if_splits)

text \<open>A writer that fails is closed without a change of the snapshots.\<close>

lemma close_failed_temp_only:
  "sw_error w \<noteq> RcOk \<Longrightarrow> ss_close_writer F k w ss = (r, ss') \<Longrightarrow> temp_only ss ss'"
  by (auto simp: ss_close_writer_def Let_def split: if_splits)

text \<open>
  The writer the filter makes: without an error, with \<^verbatim>\<open>temp\<close> there, and holding only files that agree with
  the remote ones. The reader of the last snapshot is open meanwhile and closed again.
\<close>

lemma recreate_spec:
  assumes f: "cp_filter_or_recreate E remote rd w ss = (w', ss')" and w: "sw_error w = RcOk" "ss_temp ss \<noteq> None"
  shows "temp_only ss ss'"
    and "w' = Some x \<Longrightarrow> sw_error x = RcOk \<and> ss_temp ss' \<noteq> None \<and> table_agrees remote (sw_table x)"
proof -
  obtain r w1 ss1 where fb: "cp_filter_before_copy E remote (map_option (\<lambda>r. reader_files r ss) rd) w ss = (r, w1, ss1)"
    by (metis prod_cases3)
  note t1 = filter_temp_only [OF fb]
  have "temp_only ss ss' \<and> (w' = Some x \<longrightarrow> sw_error x = RcOk \<and> ss_temp ss' \<noteq> None \<and> table_agrees remote (sw_table x))" for x
  proof (cases "r = RcOk")
    case True
    then have "w' = Some w1" "ss' = ss1" using f fb by (simp_all add: cp_filter_or_recreate_def)
    with t1 show ?thesis
      using filter_agrees [OF fb [unfolded True]] filter_before_copy_error [OF fb [unfolded True]] w by auto
  next
    case False
    obtain y ss2 where cl: "ss_close_writer (ce_fs E) False (sw_set_error RcFail w1) ss1 = (y, ss2)" by force
    have cr: "ss_create (ce_fs E) (ce_stale E) True ss2 = (w', ss')"
      using f fb False cl by (simp add: cp_filter_or_recreate_def)
    have "temp_only ss1 ss2" by (rule close_failed_temp_only [OF _ cl]) (simp add: sw_set_error_def)
    then have "temp_only ss ss'" using t1 create_temp_only [OF cr] temp_only_trans by metis
    moreover have "sw_error x = RcOk \<and> ss_temp ss' \<noteq> None \<and> table_agrees remote (sw_table x)" if "w' = Some x"
      using create_ok(2-4) [OF cr [unfolded that]] by simp
    ultimately show ?thesis by simp
  qed
  then show "temp_only ss ss'"
    "w' = Some x \<Longrightarrow> sw_error x = RcOk \<and> ss_temp ss' \<noteq> None \<and> table_agrees remote (sw_table x)" by simp_all
qed

lemma filter_writer_spec:
  assumes f: "cp_filter_writer E remote ss = (w, ss')" and run: "snap_run rs ss"
  shows "snap_run rs ss'" and "ss_last ss' = ss_last ss"
    and "w = Some x \<Longrightarrow> sw_error x = RcOk \<and> ss_temp ss' \<noteq> None \<and> table_agrees remote (sw_table x)"
proof -
  obtain w0 ss0 where cr: "ss_create (ce_fs E) (ce_stale E) (\<not> ss_filter ss) ss = (w0, ss0)" by force
  have t0: "temp_only ss ss0" by (rule create_temp_only [OF cr])
  note run0 = temp_only_run [OF t0 run] and last0 = temp_only_last [OF t0]
  have "snap_run rs ss' \<and> ss_last ss' = ss_last ss
    \<and> (w = Some x \<longrightarrow> sw_error x = RcOk \<and> ss_temp ss' \<noteq> None \<and> table_agrees remote (sw_table x))" for x
  proof (cases "w0 = None \<or> \<not> ss_filter ss")
    case True
    then have e: "w = w0" "ss' = ss0" using f cr by (auto simp: cp_filter_writer_def split: option.splits)
    have "sw_error x = RcOk \<and> ss_temp ss0 \<noteq> None \<and> table_agrees remote (sw_table x)" if "w0 = Some x"
      using create_ok(2-4) [OF cr [unfolded that]] True that by simp
    then show ?thesis using run0 last0 e by simp
  next
    case False
    then obtain x0 where w0: "w0 = Some x0" by auto
    note c0 = create_ok [OF cr [unfolded w0]]
    obtain rd ss1 where op: "ss_open (ce_fs E) ss0 = (rd, ss1)" by force
    let ?rs = "case rd of None \<Rightarrow> rs | Some r \<Rightarrow> r # rs"
    have run1: "snap_run ?rs ss1"
      using open_reader [OF run0, of "ce_fs E"] open_fails [OF run0, of "ce_fs E"] op by (cases rd) simp_all
    have last1: "ss_last ss1 = ss_last ss0" and temp1: "ss_temp ss1 = ss_temp ss0"
      using op by (auto simp: ss_open_def Let_def split: if_splits option.splits)
    obtain w2 ss2 where re: "cp_filter_or_recreate E remote rd x0 ss1 = (w2, ss2)" by force
    have e: "w = w2" "ss' = (case rd of None \<Rightarrow> ss2 | Some r \<Rightarrow> ss_close_reader (ce_fs E) r ss2)"
      using f cr w0 False op re by (simp_all add: cp_filter_writer_def)
    have t1: "ss_temp ss1 \<noteq> None" using c0(3) temp1 by simp
    note r = recreate_spec [OF re c0(2) t1]
    have run2: "snap_run ?rs ss2" by (rule temp_only_run [OF r(1) run1])
    have "snap_run rs ss'"
    proof (cases rd)
      case (Some a)
      then show ?thesis using close_reader [of "a # rs" ss2 a "ce_fs E"] run2 by (simp add: e(2))
    qed (use run2 in \<open>simp add: e(2)\<close>)
    moreover have "ss_last ss' = ss_last ss" "ss_temp ss' = ss_temp ss2"
      using temp_only_last [OF r(1)] last1 last0 by (auto simp: e(2) ss_close_reader_def split: option.split)
    ultimately show ?thesis using r(2) e(1) by simp
  qed
  then show "snap_run rs ss'" "ss_last ss' = ss_last ss"
    "w = Some x \<Longrightarrow> sw_error x = RcOk \<and> ss_temp ss' \<noteq> None \<and> table_agrees remote (sw_table x)" by blast+
qed

subsection \<open>The whole copy\<close>

definition cp_good :: "copier \<Rightarrow> bool" where
  "cp_good c \<longleftrightarrow> (case cp_writer c of None \<Rightarrow> False
     | Some w \<Rightarrow> sw_error w = RcOk \<and> ss_temp (cp_storage c) \<noteq> None
         \<and> table_agrees (cp_remote c) (sw_table w) \<and> mt_meta (sw_table w) = mt_meta (cp_remote c))"

definition cp_listed :: "copier \<Rightarrow> string set" where
  "cp_listed c = (case cp_writer c of None \<Rightarrow> {} | Some w \<Rightarrow> set (mt_list_files (sw_table w)))"

lemma cp_load_fields [simp]:
  "cp_storage (cp_load_meta_table E c) = cp_storage c" "cp_writer (cp_load_meta_table E c) = cp_writer c"
  "cp_reader (cp_load_meta_table E c) = cp_reader c"
  by (simp_all add: cp_load_meta_table_def split: sum.split option.split)

lemma cp_load_remote:
  "cp_ok (cp_load_meta_table E c) \<Longrightarrow> ce_meta E \<noteq> Inl RcOk \<Longrightarrow>
   \<exists>pb. ce_meta E = Inr (Some pb) \<and> cp_remote (cp_load_meta_table E c) = mt_load pb"
  by (auto simp: cp_load_meta_table_def cp_ok_def split: sum.splits option.splits if_splits)

lemma cp_good_error [simp]: "cp_good (c\<lparr>cp_error := e\<rparr>) = cp_good c"
  by (simp add: cp_good_def split: option.split)

lemma add_file_meta [simp]: "mt_meta (snd (mt_add_file f m t)) = mt_meta t"
  by (simp add: mt_add_file_def)

lemma cp_filter_spec:
  assumes run: "snap_run rs (cp_storage c)"
  shows "snap_run rs (cp_storage (cp_filter E c))" "ss_last (cp_storage (cp_filter E c)) = ss_last (cp_storage c)"
    and "cp_remote (cp_filter E c) = cp_remote c" "cp_reader (cp_filter E c) = cp_reader c"
    and "cp_ok (cp_filter E c) \<Longrightarrow> cp_good (cp_filter E c)"
proof -
  obtain w ss where f: "cp_filter_writer E (cp_remote c) (cp_storage c) = (w, ss)" by force
  note sp = filter_writer_spec [OF f run]
  let ?c = "cp_filter E c"
  have "snap_run rs (cp_storage ?c) \<and> ss_last (cp_storage ?c) = ss_last (cp_storage c)
    \<and> cp_remote ?c = cp_remote c \<and> cp_reader ?c = cp_reader c \<and> (cp_ok ?c \<longrightarrow> cp_good ?c)"
  proof (cases w)
    case None
    then show ?thesis using f sp(1,2) by (simp add: cp_filter_def cp_ok_def)
  next
    case (Some x)
    let ?w = "x\<lparr>sw_table := (sw_table x)\<lparr>mt_meta := mt_meta (cp_remote c)\<rparr>\<rparr>"
    obtain r w2 ss2 where sy: "sw_sync (ce_fs E) ?w ss = (r, w2, ss2)" by (metis prod_cases3)
    have c: "?c = c\<lparr>cp_storage := ss2, cp_writer := Some w2, cp_error := (if r \<noteq> RcOk then RcErr EIO else cp_error c)\<rparr>"
      using f Some sy by (simp add: cp_filter_def Let_def)
    have t: "temp_only ss ss2" by (rule sync_temp_only [OF sy])
    have good: "cp_good ?c" if "r = RcOk"
      using sp(3) [OF Some] sync_error [OF sy that] sync_has_temp [OF sy]
      by (simp add: cp_good_def c table_agrees_def)
    show ?thesis
      using temp_only_run [OF t sp(1)] temp_only_last [OF t] sp(2) good by (auto simp: c cp_ok_def)
  qed
  then show "snap_run rs (cp_storage ?c)" "ss_last (cp_storage ?c) = ss_last (cp_storage c)"
    "cp_remote ?c = cp_remote c" "cp_reader ?c = cp_reader c" "cp_ok ?c \<Longrightarrow> cp_good ?c" by blast+
qed

lemma copy_file_fields:
  "temp_only (cp_storage c) (cp_storage (cp_copy_file E f c))" "cp_remote (cp_copy_file E f c) = cp_remote c"
  "cp_reader (cp_copy_file E f c) = cp_reader c"
  by (auto simp: cp_copy_file_def Let_def dest!: sync_temp_only intro: temp_only_trans [OF temp_only_files]
      split: option.split prod.split)

lemma copy_file_good:
  assumes good: "cp_good c" and okc: "cp_ok (cp_copy_file E f c)" and f: "mt_get_file_meta f (cp_remote c) \<noteq> None"
  shows "cp_good (cp_copy_file E f c) \<and> cp_listed (cp_copy_file E f c) = insert f (cp_listed c)"
proof -
  obtain w where w: "cp_writer c = Some w" using good by (auto simp: cp_good_def split: option.splits)
  obtain m where m: "mt_get_file_meta f (cp_remote c) = Some m" using f by blast
  show ?thesis
  proof (cases "mt_get_file_meta f (sw_table w) = None")
    case False
    then show ?thesis using good w by (auto simp: cp_copy_file_def cp_listed_def listed_iff)
  next
    case True
    let ?ss = "\<lambda>data. set_temp_files ((f, data) # map_erase f (temp_files (cp_storage c))) (cp_storage c)"
    let ?w = "w\<lparr>sw_table := snd (mt_add_file f m (sw_table w))\<rparr>"
    have add: "sw_add_file f (Some m) w = (RcOk, ?w)"
      using True by (simp add: sw_add_file_def mt_add_file_def mt_get_file_meta_def)
    obtain data r2 w2 ss2 where s: "ce_mkdir E f = RcOk" "ce_session E f = Some (RcOk, data)"
      "sw_sync ((ce_fs E)\<lparr>fs_save_ok := ce_sync_ok E f\<rparr>) ?w (?ss data) = (r2, w2, ss2)" "r2 = RcOk"
      and c': "cp_copy_file E f c = c\<lparr>cp_writer := Some w2, cp_storage := ss2\<rparr>"
      using okc w m True add
      by (auto simp: cp_copy_file_def Let_def cp_ok_def split: option.splits prod.splits if_splits)
    have w2: "w2 = ?w" by (rule sync_error [OF s(3,4)])
    have "agrees (cp_remote c) f m" using m by (simp add: agrees_def)
    then show ?thesis
      using good w True sync_has_temp [OF s(3)]
      by (auto simp: c' w2 cp_good_def cp_listed_def listed_iff table_agrees_def split: if_splits)
  qed
qed

lemma copy_files_fields:
  "temp_only (cp_storage c) (cp_storage (cp_copy_files E fs c)) \<and> cp_remote (cp_copy_files E fs c) = cp_remote c
   \<and> cp_reader (cp_copy_files E fs c) = cp_reader c"
proof (induction fs arbitrary: c)
  case (Cons f fs)
  then show ?case
    using copy_file_fields [where c = c and E = E and f = f]
      temp_only_trans [of "cp_storage c" "cp_storage (cp_copy_file E f c)"] by simp
qed simp

lemma copy_files_good:
  assumes "cp_good c" "cp_ok (cp_copy_files E fs c)" "\<forall>f \<in> set fs. mt_get_file_meta f (cp_remote c) \<noteq> None" "cp_ok c"
  shows "cp_good (cp_copy_files E fs c) \<and> set fs \<subseteq> cp_listed (cp_copy_files E fs c)
    \<and> cp_listed c \<subseteq> cp_listed (cp_copy_files E fs c)"
  using assms
proof (induction fs arbitrary: c)
  case (Cons f fs)
  let ?c = "cp_copy_file E f c"
  have okc: "cp_ok ?c" using Cons.prems(2,4) by (cases fs) (auto split: if_splits)
  have g: "cp_good ?c \<and> cp_listed ?c = insert f (cp_listed c)" by (rule copy_file_good) (use Cons.prems okc in auto)
  show ?case using Cons.IH [of ?c] g okc Cons.prems by (auto simp: copy_file_fields)
qed simp

text \<open>
  The end of a copy that went well: the writer is closed, and unless its meta table cannot be saved the snapshot
  is published; then the reader of it is opened.
\<close>

lemma cp_close_writer_spec:
  assumes run: "snap_run rs (cp_storage c)"
    and idx: "cp_ok c \<Longrightarrow> cp_writer c = Some w \<Longrightarrow> sw_error w = RcOk \<Longrightarrow> ss_last (cp_storage c) \<le> sw_snapshot_index w"
    and w: "cp_writer c = None \<or> cp_writer c = Some w"
  shows "snap_run rs (cp_storage (cp_close_writer E c))" "cp_reader (cp_close_writer E c) = cp_reader c"
proof -
  show "cp_reader (cp_close_writer E c) = cp_reader c"
    by (simp add: cp_close_writer_def Let_def case_prod_beta split: option.split)
  show "snap_run rs (cp_storage (cp_close_writer E c))"
  proof (cases "cp_writer c")
    case None
    with run show ?thesis by (simp add: cp_close_writer_def)
  next
    case (Some x)
    with w have x: "cp_writer c = Some w" by simp
    let ?w = "if \<not> cp_ok c \<and> sw_error w = RcOk then sw_set_error (cp_error c) w else w"
    obtain r ss where cl: "ss_close_writer (ce_fs E) (ss_filter (cp_storage c)) ?w (cp_storage c) = (r, ss)" by force
    then have c': "cp_storage (cp_close_writer E c) = ss" using x by (simp add: cp_close_writer_def Let_def)
    show ?thesis
    proof (cases "sw_error ?w = RcOk")
      case True
      then have "cp_ok c" "sw_error w = RcOk" by (auto simp: sw_set_error_def cp_ok_def split: if_splits)
      then show ?thesis using close_writer [OF run _ cl] idx x c' by simp
    next
      case False
      then show ?thesis unfolding c' by (rule temp_only_run [OF close_failed_temp_only [OF _ cl] run])
    qed
  qed
qed

lemma cp_close_writer_published:
  assumes run: "snap_run rs (cp_storage c)" and good: "cp_good c" "cp_ok c" and w: "cp_writer c = Some w"
    and new: "ss_last (cp_storage c) < sw_snapshot_index w"
    and okc: "cp_ok (cp_close_writer E c)" and save: "fs_save_ok (ce_fs E)"
  shows "ss_last (cp_storage (cp_close_writer E c)) = sw_snapshot_index w"
    and "on_disk (sw_snapshot_index w) (cp_storage (cp_close_writer E c)) = Some (mt_load (mt_save (sw_table w)))"
proof -
  obtain r ss where cl: "ss_close_writer (ce_fs E) (ss_filter (cp_storage c)) w (cp_storage c) = (r, ss)" by force
  have c': "cp_close_writer E c = c\<lparr>cp_storage := ss, cp_writer := None, cp_error := (if r \<noteq> RcOk then RcErr EIO else cp_error c)\<rparr>"
    using cl w good(2) by (simp add: cp_close_writer_def Let_def)
  obtain d where "ss_temp (cp_storage c) = Some d" "sw_error w = RcOk" using good(1) w by (auto simp: cp_good_def)
  moreover have "r = RcOk" using okc c' by (simp add: cp_ok_def split: if_splits)
  ultimately have "ss_last ss = sw_snapshot_index w \<and> on_disk (sw_snapshot_index w) ss = Some (mt_load (mt_save (sw_table w)))"
    using close_result [OF snap_run_inv [OF run] _ new cl] save by (auto split: if_splits)
  then show "ss_last (cp_storage (cp_close_writer E c)) = sw_snapshot_index w"
    "on_disk (sw_snapshot_index w) (cp_storage (cp_close_writer E c)) = Some (mt_load (mt_save (sw_table w)))"
    by (simp_all add: c')
qed

definition cp_before_close :: "cp_env \<Rightarrow> copier \<Rightarrow> copier" where
  "cp_before_close E c0 =
     (let c1 = cp_load_meta_table E c0; c2 = (if cp_ok c1 then cp_filter E c1 else c1)
      in if cp_ok c1 \<and> cp_ok c2 \<and> ce_copy_file E then cp_copy_files E (mt_list_files (cp_remote c2)) c2 else c2)"

lemma cp_copy_alt: "cp_copy E c = cp_open_reader E (cp_close_writer E (cp_before_close E c))"
  by (simp add: cp_copy_def cp_before_close_def Let_def)

definition pb_index :: "snapshot_pb \<Rightarrow> int" where
  "pb_index pb = (case pb_meta pb of None \<Rightarrow> 0 | Some m \<Rightarrow> sm_last_included_index m)"

lemma before_close_spec:
  fixes E ss
  defines "c \<equiv> cp_before_close E (copier_new ss)"
  assumes run: "snap_run rs ss" and e: "ce_meta E \<noteq> Inl RcOk"
  shows "snap_run rs (cp_storage c)" "ss_last (cp_storage c) = ss_last ss" "cp_reader c = None" "copier_ok c"
    and "cp_ok c \<Longrightarrow> cp_good c \<and> (\<exists>pb. ce_meta E = Inr (Some pb) \<and> cp_remote c = mt_load pb
           \<and> (ce_copy_file E \<longrightarrow> fst ` set (pb_files pb) \<subseteq> cp_listed c))"
proof -
  let ?c1 = "cp_load_meta_table E (copier_new ss)"
  let ?c2 = "cp_filter E ?c1" and ?c3 = "cp_copy_files E (mt_list_files (cp_remote (cp_filter E ?c1))) (cp_filter E ?c1)"
  have run1: "snap_run rs (cp_storage ?c1)" "cp_storage ?c1 = ss" "cp_reader ?c1 = None"
    using run by (simp_all add: copier_new_def)
  have ok0: "copier_ok (copier_new ss)" by (simp add: copier_ok_def copier_new_def writer_ok_def)
  note f = cp_filter_spec [OF run1(1), of E] and g = copy_files_fields [of ?c2 E "mt_list_files (cp_remote ?c2)"]
  have run3: "snap_run rs (cp_storage ?c3)" "ss_last (cp_storage ?c3) = ss_last ss"
    using temp_only_run [OF conjunct1 [OF g] f(1)] temp_only_last [OF conjunct1 [OF g]] f(2) run1(2) by simp_all
  show "copier_ok c"
    unfolding c_def cp_before_close_def Let_def by (simp add: ok0 cp_load_ok cp_filter_ok cp_copy_files_ok)
  show "snap_run rs (cp_storage c)" "ss_last (cp_storage c) = ss_last ss" "cp_reader c = None"
    unfolding c_def cp_before_close_def Let_def using run1 run3 f g by simp_all
  assume okc: "cp_ok c"
  then have ok1: "cp_ok ?c1" and ok2: "cp_ok ?c2" by (auto simp: c_def cp_before_close_def Let_def split: if_splits)
  obtain pb where pb: "ce_meta E = Inr (Some pb)" "cp_remote ?c1 = mt_load pb" using cp_load_remote [OF ok1 e] by blast
  show "cp_good c \<and> (\<exists>pb. ce_meta E = Inr (Some pb) \<and> cp_remote c = mt_load pb
           \<and> (ce_copy_file E \<longrightarrow> fst ` set (pb_files pb) \<subseteq> cp_listed c))"
  proof (cases "ce_copy_file E")
    case False
    then have "c = ?c2" using ok1 by (simp add: c_def cp_before_close_def Let_def)
    then show ?thesis using f(3,5) ok2 pb False by simp
  next
    case True
    then have c: "c = ?c3" using ok1 ok2 by (simp add: c_def cp_before_close_def Let_def)
    have "cp_good c \<and> set (mt_list_files (cp_remote ?c2)) \<subseteq> cp_listed c"
      using copy_files_good [OF f(5) [OF ok2], of E "mt_list_files (cp_remote ?c2)"] okc ok2 unfolding c
      by (simp add: listed_iff)
    then show ?thesis using g f(3) pb c by (auto simp: list_load)
  qed
qed

lemma cp_open_reader_run:
  assumes run: "snap_run rs (cp_storage c)" and "cp_reader c = None"
  shows "snap_run (case cp_reader (cp_open_reader E c) of None \<Rightarrow> rs | Some r \<Rightarrow> r # rs) (cp_storage (cp_open_reader E c))"
  using assms open_reader [OF run] open_fails [OF run]
  by (auto simp: cp_open_reader_def split: option.splits prod.splits)

lemma open_found:
  assumes "ss_last ss \<noteq> 0" "on_disk (ss_last ss) ss = Some t" "fs_load_ok F"
  shows "\<exists>ss'. ss_open F ss = (Some \<lparr>sr_index = ss_last ss, sr_table = t\<rparr>, ss') \<and> ss_last ss' = ss_last ss"
  using assms by (auto simp: ss_open_def Let_def on_disk_def load_table_alt split: option.splits)

lemma copy_run:
  assumes run: "snap_run rs ss" and e: "ce_meta E \<noteq> Inl RcOk"
    and new: "\<forall>pb. ce_meta E = Inr (Some pb) \<longrightarrow> ss_last ss < pb_index pb"
  shows "snap_run (case cp_reader (cp_copy E (copier_new ss)) of None \<Rightarrow> rs | Some r \<Rightarrow> r # rs) (cp_storage (cp_copy E (copier_new ss)))"
proof -
  let ?c = "cp_before_close E (copier_new ss)"
  note b = before_close_spec [OF run e]
  let ?w = "the (cp_writer ?c)"
  have "ss_last (cp_storage ?c) \<le> sw_snapshot_index ?w" if "cp_ok ?c"
    using b(5) [OF that] b(2) new
    by (auto simp: cp_good_def sw_snapshot_index_def pb_index_def mt_load_def split: option.splits)
  then have "snap_run rs (cp_storage (cp_close_writer E ?c)) \<and> cp_reader (cp_close_writer E ?c) = None"
    using cp_close_writer_spec [OF b(1), of ?w E] b(3) by (cases "cp_writer ?c") auto
  then show ?thesis unfolding cp_copy_alt using cp_open_reader_run by blast
qed

lemma copy_published:
  assumes run: "snap_run rs ss" and e: "ce_meta E \<noteq> Inl RcOk"
    and new: "\<forall>pb. ce_meta E = Inr (Some pb) \<longrightarrow> ss_last ss < pb_index pb"
    and okc: "cp_ok (cp_copy E (copier_new ss))" and fs: "fs_save_ok (ce_fs E)" "fs_load_ok (ce_fs E)" and f: "ce_copy_file E"
  shows "\<exists>pb r. ce_meta E = Inr (Some pb) \<and> cp_reader (cp_copy E (copier_new ss)) = Some r \<and> sr_index r = pb_index pb
    \<and> mt_meta (sr_table r) = pb_meta pb \<and> set (mt_list_files (sr_table r)) = fst ` set (pb_files pb)
    \<and> table_agrees (mt_load pb) (sr_table r) \<and> ss_last (cp_storage (cp_copy E (copier_new ss))) = pb_index pb"
proof -
  let ?c = "cp_before_close E (copier_new ss)"
  let ?d = "cp_close_writer E ?c"
  note b = before_close_spec [OF run e]
  have okd: "cp_ok ?d"
    using okc unfolding cp_copy_alt cp_open_reader_def by (simp split: if_splits)
  have ok3: "cp_ok ?c"
    using okd by (auto simp: cp_close_writer_def cp_ok_def Let_def case_prod_beta split: option.splits if_splits)
  from b(5) [OF ok3] obtain pb w where good: "cp_good ?c" and pb: "ce_meta E = Inr (Some pb)" "cp_remote ?c = mt_load pb"
    and l: "fst ` set (pb_files pb) \<subseteq> cp_listed ?c" and w: "cp_writer ?c = Some w"
    using f by (auto simp: cp_good_def split: option.splits)
  have a: "table_agrees (mt_load pb) (sw_table w)" "mt_meta (sw_table w) = pb_meta pb"
    using good w pb by (auto simp: cp_good_def mt_load_def)
  have idx: "sw_snapshot_index w = pb_index pb" using a(2) by (simp add: sw_snapshot_index_def pb_index_def)
  have t: "mt_load (mt_save (sw_table w)) = sw_table w"
    using b(4) w by (intro load_save) (simp add: copier_ok_def writer_ok_def)
  have nw: "ss_last (cp_storage ?c) < sw_snapshot_index w" using new pb b(2) idx by simp
  note p = cp_close_writer_published [OF b(1) good ok3 w nw okd fs(1), unfolded idx t]
  have "0 \<le> ss_last (cp_storage ?c)" using snap_run_inv [OF b(1)] by (simp add: snap_inv_def)
  then have nz: "ss_last (cp_storage ?d) \<noteq> 0" using nw idx p(1) by simp
  obtain ss' where op: "ss_open (ce_fs E) (cp_storage ?d) = (Some \<lparr>sr_index = pb_index pb, sr_table = sw_table w\<rparr>, ss')"
    "ss_last ss' = pb_index pb"
    using open_found [OF nz _ fs(2), of "sw_table w"] p by auto
  have "set (mt_list_files (sw_table w)) = fst ` set (pb_files pb)"
  proof
    show "set (mt_list_files (sw_table w)) \<subseteq> fst ` set (pb_files pb)"
      using table_agrees_names [OF a(1)] by (simp add: list_load)
    show "fst ` set (pb_files pb) \<subseteq> set (mt_list_files (sw_table w))" using l w by (simp add: cp_listed_def)
  qed
  with a pb op okd show ?thesis by (auto simp: cp_copy_alt cp_open_reader_def)
qed

end
