(* ===== verification/SnapshotData.thy ===== *)
theory SnapshotData
  imports SnapshotCopy
begin

section \<open>Copying a snapshot: where the data of each file comes from\<close>

text \<open>
  The meta table names the files; this theory follows their data. Each step of the filter changes what is
  known of one name only (\<open>file_view\<close>): its entry in the table, its data in \<^verbatim>\<open>temp\<close>, and whether it is to
  be removed. So what the published directory holds under a name was written by the session of that
  name, or linked from the last snapshot, or kept from the \<^verbatim>\<open>temp\<close> of an earlier copy (\<open>came_from\<close>).
\<close>

type_synonym dir_view = "meta_table \<times> (string \<times> string) list"

definition dir_view :: "snap_dir option \<Rightarrow> dir_view option" where
  "dir_view d = (case d of None \<Rightarrow> None
     | Some d \<Rightarrow> (case dir_table d of None \<Rightarrow> None | Some t \<Rightarrow> Some (t, sd_files d)))"

text \<open>
  A file kept from \<^verbatim>\<open>temp\<close> has the entry and the data it had there. A file taken from the last
  snapshot has the entry it has there, and its data if it is a local file (the data of a reference is not in the
  directory).
\<close>

definition kept_or_taken ::
  "dir_view option \<Rightarrow> dir_view option \<Rightarrow> (string \<times> string) list \<Rightarrow> string \<Rightarrow> file_meta \<Rightarrow> bool" where
  "kept_or_taken temp lst files f m \<longleftrightarrow>
     (\<exists>t fs. temp = Some (t, fs) \<and> mt_get_file_meta f t = Some m \<and> map_of files f = map_of fs f)
     \<or> (\<exists>t fs. lst = Some (t, fs) \<and> mt_get_file_meta f t = Some m
          \<and> (fm_source m = FILE_SOURCE_LOCAL \<longrightarrow> map_of fs f \<noteq> None \<and> map_of files f = map_of fs f))"

definition came_from ::
  "cp_env \<Rightarrow> dir_view option \<Rightarrow> dir_view option \<Rightarrow> meta_table \<Rightarrow> (string \<times> string) list \<Rightarrow> string \<Rightarrow> file_meta \<Rightarrow> bool" where
  "came_from E temp lst remote files f m \<longleftrightarrow>
     (\<exists>data. mt_get_file_meta f remote = Some m \<and> ce_session E f = Some (RcOk, data) \<and> map_of files f = Some data)
     \<or> (\<exists>m'. mt_get_file_meta f remote = Some m' \<and> fm_checksum m \<noteq> None \<and> fm_checksum m = fm_checksum m'
          \<and> kept_or_taken temp lst files f m)"

lemma came_from_cong:
  "map_of files' f = map_of files f \<Longrightarrow> came_from E t l r files' f m = came_from E t l r files f m"
  by (simp add: came_from_def kept_or_taken_def)

subsection \<open>Filtering\<close>

definition file_view :: "string \<Rightarrow> filter_state \<Rightarrow> file_meta option \<times> string option \<times> bool" where
  "file_view f st = (mt_get_file_meta f (fl_table st), map_of (fl_files st) f, f \<in> set (fl_remove st))"

lemma set_butlast_other: "xs \<noteq> [] \<Longrightarrow> g \<noteq> last xs \<Longrightarrow> g \<in> set (butlast xs) \<longleftrightarrow> g \<in> set xs"
  by (cases xs rule: rev_cases) auto

lemma filter_existing_view:
  "mt_get_file_meta g r \<noteq> None \<Longrightarrow> file_view g (filter_existing r fs st) = file_view g st"
proof (induction fs arbitrary: st)
  case (Cons f fs)
  have "file_view g (if mt_get_file_meta f r = None
      then st\<lparr>fl_remove := fl_remove st @ [f], fl_table := snd (mt_remove_file f (fl_table st))\<rparr> else st) = file_view g st"
    using Cons.prems by (auto simp: file_view_def)
  then show ?case
    unfolding filter_existing.simps using Cons.IH [OF Cons.prems] by simp
qed simp

lemma take_from_last_other:
  assumes g: "g \<noteq> f"
  shows "file_view g (take_from_last E l f c st) = file_view g st"
proof (cases l)
  case None
  then show ?thesis by (simp add: take_from_last_def)
next
  case (Some p)
  obtain lt lfiles where p: "p = (lt, lfiles)" by (cases p)
  show ?thesis
  proof (cases "mt_get_file_meta f lt")
    case None
    then show ?thesis by (simp add: take_from_last_def Some p)
  next
    case m: (Some m)
    define st1 where "st1 = (if ce_unlink_ok E f then st\<lparr>fl_files := map_erase f (fl_files st)\<rparr> else st)"
    have st1: "fl_table st1 = fl_table st" "fl_remove st1 = fl_remove st" "map_of (fl_files st1) g = map_of (fl_files st) g"
      using g by (simp_all add: st1_def)
    have rm: "g \<in> set (butlast (fl_remove st)) \<longleftrightarrow> g \<in> set (fl_remove st)"
      if "fl_remove st \<noteq> [] \<and> last (fl_remove st) = f"
      using g that set_butlast_other [of "fl_remove st" g] by simp
    show ?thesis
      unfolding take_from_last_def Some p m option.case prod.case Let_def st1_def [symmetric]
      by (cases "map_of lfiles f") (use g st1 rm in \<open>simp_all add: file_view_def\<close>)
  qed
qed

lemma filter_remote_file_other: "g \<noteq> f \<Longrightarrow> file_view g (filter_remote_file E r l f st) = file_view g st"
  using take_from_last_other [of g f E l]
  by (auto simp: filter_remote_file_def Let_def file_view_def split: option.split)

lemma take_from_last_own:
  assumes "mt_get_file_meta f (fl_table st) = None" and "fl_remove st = rs \<or> fl_remove st = rs @ [f]" and "f \<notin> set rs"
    and "mt_get_file_meta f (fl_table (take_from_last E l f c st)) = Some m"
  shows "\<exists>lt lfiles. l = Some (lt, lfiles) \<and> mt_get_file_meta f lt = Some m \<and> fm_checksum m \<noteq> None \<and> fm_checksum m = c
     \<and> (fm_source m = FILE_SOURCE_LOCAL \<longrightarrow> map_of lfiles f \<noteq> None
          \<and> map_of (fl_files (take_from_last E l f c st)) f = map_of lfiles f
          \<and> f \<notin> set (fl_remove (take_from_last E l f c st)))"
proof (cases l)
  case None
  with assms show ?thesis by (simp add: take_from_last_def)
next
  case (Some p)
  obtain lt lfiles where p: "p = (lt, lfiles)" by (cases p)
  show ?thesis
  proof (cases "mt_get_file_meta f lt")
    case None
    with assms Some p show ?thesis by (simp add: take_from_last_def)
  next
    case m: (Some m')
    have "f \<notin> set (if fl_remove st \<noteq> [] \<and> last (fl_remove st) = f then butlast (fl_remove st) else fl_remove st)"
    proof (rule disjE [OF assms(2)])
      assume "fl_remove st = rs"
      then show ?thesis using assms(3) by (auto dest: in_set_butlastD)
    next
      assume "fl_remove st = rs @ [f]"
      then show ?thesis using assms(3) by simp
    qed
    with assms(1,4) Some p m show ?thesis
      by (auto simp: take_from_last_def Let_def split: option.splits if_splits)
  qed
qed

lemma filter_remote_file_own:
  fixes E r l f st
  defines "st' \<equiv> filter_remote_file E r l f st"
  assumes v: "file_view f st = (t0, d0, False)" and r: "mt_get_file_meta f r = Some m'"
    and g: "mt_get_file_meta f (fl_table st') = Some m"
  shows "fm_checksum m \<noteq> None \<and> fm_checksum m = fm_checksum m'
     \<and> (t0 = Some m \<and> file_view f st' = (Some m, d0, False)
        \<or> (\<exists>lt lfiles. l = Some (lt, lfiles) \<and> mt_get_file_meta f lt = Some m
            \<and> (fm_source m = FILE_SOURCE_LOCAL \<longrightarrow> map_of lfiles f \<noteq> None \<and> file_view f st' = (Some m, map_of lfiles f, False))))"
proof -
  let ?c = "fm_checksum m'" and ?d = "st\<lparr>fl_table := snd (mt_remove_file f (fl_table st)), fl_remove := fl_remove st @ [f]\<rparr>"
  have nr: "f \<notin> set (fl_remove st)" using v by (simp add: file_view_def)
  have c: "?c \<noteq> None" using g r by (cases "fm_checksum m'") (simp_all add: st'_def filter_remote_file_def)
  show ?thesis
  proof (cases "mt_get_file_meta f (fl_table st)")
    case None
    then have "st' = take_from_last E l f ?c st" using c r by (auto simp: st'_def filter_remote_file_def)
    then show ?thesis
      using take_from_last_own [of f st "fl_remove st" E l ?c m] g nr None by (auto simp: file_view_def)
  next
    case (Some x)
    show ?thesis
    proof (cases "fm_checksum x = ?c")
      case True
      then have "st' = st" using c r Some by (auto simp: st'_def filter_remote_file_def)
      with g v True c Some show ?thesis by (auto simp: file_view_def)
    next
      case False
      then have "st' = take_from_last E l f ?c ?d" using c r Some by (auto simp: st'_def filter_remote_file_def)
      then show ?thesis
        using take_from_last_own [of f ?d "fl_remove st" E l ?c m] g nr by (auto simp: file_view_def)
    qed
  qed
qed

lemma filter_remote_files_view:
  assumes "distinct fs" and "g \<in> set fs"
  shows "\<exists>st'. file_view g st' = file_view g st
     \<and> file_view g (fold (filter_remote_file E r l) fs st) = file_view g (filter_remote_file E r l g st')"
  using assms
proof (induction fs arbitrary: st)
  case (Cons f fs)
  have rest: "g \<notin> set fs \<Longrightarrow> file_view g (fold (filter_remote_file E r l) fs s) = file_view g s" for s
    by (induction fs arbitrary: s) (auto simp: filter_remote_file_other)
  show ?case
  proof (cases "g = f")
    case True
    with Cons.prems rest show ?thesis by (intro exI [of _ st]) simp
  next
    case False
    then show ?thesis
      using Cons.IH [of "filter_remote_file E r l f st"] Cons.prems filter_remote_file_other [OF False, of E r l st] by simp
  qed
qed simp

lemma temp_files_set [simp]: "ss_temp ss \<noteq> None \<Longrightarrow> temp_files (set_temp_files fs ss) = fs"
  by (auto simp: temp_files_def set_temp_files_def)

lemma sync_temp_files: "sw_sync F w ss = (r, w', ss') \<Longrightarrow> temp_files ss' = temp_files ss"
  by (auto simp: sw_sync_def temp_files_def split: if_splits option.split)

lemma erase_files_lookup: "map_of (erase_files ok fs files) g = (if g \<in> set fs \<and> ok g then None else map_of files g)"
  by (induction files) (auto simp: erase_files_def)

lemma filter_before_copy_files:
  assumes f: "cp_filter_before_copy E r l w ss = (RcOk, w', ss')" and t: "ss_temp ss \<noteq> None" and ok: "table_ok r"
    and g: "mt_get_file_meta g (sw_table w') = Some m"
  shows "\<exists>m'. mt_get_file_meta g r = Some m' \<and> fm_checksum m \<noteq> None \<and> fm_checksum m = fm_checksum m'
     \<and> kept_or_taken (Some (sw_table w, temp_files ss)) l (temp_files ss') g m"
proof -
  let ?st0 = "\<lparr>fl_table = sw_table w, fl_remove = [], fl_files = temp_files ss\<rparr>"
  let ?st1 = "filter_existing r (mt_list_files (sw_table w)) ?st0"
  let ?st2 = "fold (filter_remote_file E r l) (mt_list_files r) ?st1"
  let ?F = "(ce_fs E)\<lparr>fs_save_ok := ce_filter_sync_ok E\<rparr>"
  obtain x w2 ss2 where sy0: "sw_sync ?F (w\<lparr>sw_table := fl_table ?st2\<rparr>) (set_temp_files (fl_files ?st2) ss) = (x, w2, ss2)"
    by (metis prod_cases3)
  have x: "x = RcOk" and e: "w' = w2" "ss' = set_temp_files (erase_files (ce_unlink_ok E) (fl_remove ?st2) (temp_files ss2)) ss2"
    using f unfolding cp_filter_before_copy_def Let_def sy0 by (simp_all split: if_splits)
  note sy = sy0 [unfolded x]
  have tab: "sw_table w' = fl_table ?st2" using sync_tableD [OF sy] e by simp
  have "ss_temp ss2 \<noteq> None" using sync_has_temp [OF sy] t by simp
  then have files: "temp_files ss' = erase_files (ce_unlink_ok E) (fl_remove ?st2) (fl_files ?st2)"
    using sync_temp_files [OF sy] t e by simp
  have "table_agrees r (sw_table w')" by (rule filter_agrees [OF f])
  with g have "agrees r g m" by (simp add: table_agrees_def)
  then obtain m' where m': "mt_get_file_meta g r = Some m'" by (auto simp: agrees_def split: option.splits)
  have "distinct (mt_list_files r)" "g \<in> set (mt_list_files r)"
    using table_ok_distinct [OF ok] m' by (simp_all add: mt_list_files_def [symmetric] listed_iff)
  then obtain st' where v: "file_view g st' = file_view g ?st1" "file_view g ?st2 = file_view g (filter_remote_file E r l g st')"
    using filter_remote_files_view [of "mt_list_files r" g ?st1 E r l] by blast
  have sv: "file_view g st' = (mt_get_file_meta g (sw_table w), map_of (temp_files ss) g, False)"
    using v(1) filter_existing_view [of g r] m' by (simp add: file_view_def)
  have sg: "mt_get_file_meta g (fl_table (filter_remote_file E r l g st')) = Some m"
    using v(2) g tab by (simp add: file_view_def)
  have own: "fm_checksum m \<noteq> None \<and> fm_checksum m = fm_checksum m'
     \<and> (mt_get_file_meta g (sw_table w) = Some m \<and> file_view g ?st2 = (Some m, map_of (temp_files ss) g, False)
        \<or> (\<exists>lt lfiles. l = Some (lt, lfiles) \<and> mt_get_file_meta g lt = Some m
            \<and> (fm_source m = FILE_SOURCE_LOCAL \<longrightarrow> map_of lfiles g \<noteq> None \<and> file_view g ?st2 = (Some m, map_of lfiles g, False))))"
    unfolding v(2) by (rule filter_remote_file_own [OF sv m' sg])
  have data: "map_of (temp_files ss') g = x" if "file_view g ?st2 = (Some m, x, False)" for x
    using that by (simp add: files erase_files_lookup file_view_def)
  with own m' show ?thesis by (auto simp: kept_or_taken_def)
qed

subsection \<open>The writer of a copy\<close>

lemma filter_lookup: "map_of (filter (\<lambda>(f, x). P f) xs) g = (if P g then map_of xs g else None)"
  by (induction xs) auto

lemma create_files:
  assumes c: "ss_create F stale fe ss = (Some w, ss')" and g: "mt_get_file_meta g (sw_table w) = Some m"
  shows "\<exists>d. ss_temp ss = Some d \<and> dir_table d = Some (sw_table w) \<and> map_of (temp_files ss') g = map_of (sd_files d) g"
proof -
  have fe: "\<not> fe" using create_ok(4) [OF c] g by (auto simp: mt_get_file_meta_def empty_table_def)
  obtain wo t1 where wi0: "writer_init F stale (ss_temp ss) = (wo, t1)" by force
  have "wo \<noteq> None" using c fe wi0 by (cases wo) (auto simp: ss_create_def)
  then obtain w1 d1 where wo: "wo = Some (w1, d1)" by (cases wo) auto
  have wt: "w1 = w" "ss' = ss\<lparr>ss_temp := t1\<rparr>" using c fe wi0 wo by (simp_all add: ss_create_def)
  have t1: "t1 = Some d1" by (rule writer_init_ok(3) [OF wi0 [unfolded wo]])
  note wi = wi0 [unfolded wo t1 wt(1)] and ss' = wt(2) [unfolded t1]
  have ne: "sw_table w \<noteq> empty_table" using g by (auto simp: mt_get_file_meta_def empty_table_def)
  then obtain d where d: "ss_temp ss = Some d"
    using writer_init_ok(4) [OF wi] by blast
  have "load_table F d = Some (sw_table w)
      \<and> d1 = d\<lparr>sd_files := filter (\<lambda>(f, x). mt_get_file_meta f (sw_table w) \<noteq> None \<or> stale f) (sd_files d)\<rparr>"
  proof (cases "sd_meta_file d = None")
    case True
    with wi d have "sw_table w = empty_table" by (auto simp: writer_init_def Let_def split: if_splits)
    with ne show ?thesis by simp
  next
    case False
    show ?thesis
    proof (cases "load_table F d")
      case None
      with wi d False show ?thesis by (simp add: writer_init_def split: if_splits)
    next
      case (Some t)
      with wi d False show ?thesis by (auto simp: writer_init_def Let_def split: if_splits)
    qed
  qed
  then show ?thesis
    using d ss' g filter_lookup [of "\<lambda>f. mt_get_file_meta f (sw_table w) \<noteq> None \<or> stale f" "sd_files d" g]
    by (simp add: temp_files_def load_table_alt split: if_splits)
qed

lemma open_view:
  assumes "ss_open F ss = (Some a, ss')"
  shows "Some (reader_files a ss') = dir_view (map_of (ss_snapshots ss) (ss_last ss))"
  using assms by (auto simp: ss_open_def Let_def reader_files_def dir_view_def load_table_alt split: if_splits option.splits)

definition old_temp :: "snap_storage \<Rightarrow> dir_view option" where
  "old_temp ss = (if ss_filter ss then dir_view (ss_temp ss) else None)"

definition last_snapshot :: "snap_storage \<Rightarrow> dir_view option" where
  "last_snapshot ss = (if ss_filter ss then dir_view (map_of (ss_snapshots ss) (ss_last ss)) else None)"

lemma came_from_cases:
  assumes "came_from E (old_temp ss) (last_snapshot ss) remote files f m"
  shows "(\<exists>data. mt_get_file_meta f remote = Some m \<and> ce_session E f = Some (RcOk, data) \<and> map_of files f = Some data)
    \<or> ss_filter ss
      \<and> (\<exists>m'. mt_get_file_meta f remote = Some m' \<and> fm_checksum m \<noteq> None \<and> fm_checksum m = fm_checksum m')
      \<and> ((\<exists>t fs. dir_view (ss_temp ss) = Some (t, fs) \<and> mt_get_file_meta f t = Some m \<and> map_of files f = map_of fs f)
         \<or> (\<exists>t fs. dir_view (map_of (ss_snapshots ss) (ss_last ss)) = Some (t, fs) \<and> mt_get_file_meta f t = Some m
              \<and> (fm_source m = FILE_SOURCE_LOCAL \<longrightarrow> map_of fs f \<noteq> None \<and> map_of files f = map_of fs f)))"
proof (cases "ss_filter ss")
  case True
  then have v: "old_temp ss = dir_view (ss_temp ss)" "last_snapshot ss = dir_view (map_of (ss_snapshots ss) (ss_last ss))"
    by (simp_all add: old_temp_def last_snapshot_def)
  from True assms show ?thesis unfolding came_from_def kept_or_taken_def v by blast
next
  case False
  with assms show ?thesis by (simp add: came_from_def kept_or_taken_def old_temp_def last_snapshot_def)
qed

lemma recreate_files:
  assumes f: "cp_filter_or_recreate E remote rd w ss = (Some x, ss')" and ok: "table_ok remote"
    and t: "ss_temp ss \<noteq> None" and g: "mt_get_file_meta g (sw_table x) = Some m"
  shows "\<exists>m'. mt_get_file_meta g remote = Some m' \<and> fm_checksum m \<noteq> None \<and> fm_checksum m = fm_checksum m'
     \<and> kept_or_taken (Some (sw_table w, temp_files ss)) (map_option (\<lambda>r. reader_files r ss) rd) (temp_files ss') g m"
proof -
  obtain r w1 ss1 where fb: "cp_filter_before_copy E remote (map_option (\<lambda>r. reader_files r ss) rd) w ss = (r, w1, ss1)"
    by (metis prod_cases3)
  show ?thesis
  proof (cases "r = RcOk")
    case True
    then have "x = w1" "ss' = ss1" using f fb by (simp_all add: cp_filter_or_recreate_def)
    with filter_before_copy_files [OF fb [unfolded True] t ok] g show ?thesis by simp
  next
    case False
    obtain y ss2 where "ss_close_writer (ce_fs E) False (sw_set_error RcFail w1) ss1 = (y, ss2)" by force
    then have "ss_create (ce_fs E) (ce_stale E) True ss2 = (Some x, ss')"
      using f fb False by (simp add: cp_filter_or_recreate_def)
    with g show ?thesis using create_ok(4) by (fastforce simp: mt_get_file_meta_def empty_table_def)
  qed
qed

lemma filter_writer_files:
  assumes f: "cp_filter_writer E remote ss = (Some x, ss')" and ok: "table_ok remote"
    and g: "mt_get_file_meta g (sw_table x) = Some m"
  shows "came_from E (old_temp ss) (last_snapshot ss) remote (temp_files ss') g m"
proof -
  obtain w0 ss0 where cr: "ss_create (ce_fs E) (ce_stale E) (\<not> ss_filter ss) ss = (w0, ss0)" by force
  then obtain w where w: "w0 = Some w" using f by (cases w0) (simp_all add: cp_filter_writer_def)
  note c = create_ok [OF cr [unfolded w]]
  have fl: "ss_filter ss"
  proof (rule ccontr)
    assume "\<not> ss_filter ss"
    then have "x = w" "sw_table w = empty_table" using f cr w c(4) by (simp_all add: cp_filter_writer_def)
    with g show False by (simp add: mt_get_file_meta_def empty_table_def)
  qed
  obtain t0 where ss0: "ss0 = ss\<lparr>ss_temp := t0\<rparr>" using create_temp_only [OF cr] by (auto simp: temp_only_def)
  obtain rd ss1 where op: "ss_open (ce_fs E) ss0 = (rd, ss1)" by force
  have temp1: "ss_temp ss1 = ss_temp ss0"
    using op by (auto simp: ss_open_def Let_def split: if_splits option.splits)
  then have t1: "ss_temp ss1 \<noteq> None" "temp_files ss1 = temp_files ss0"
    using c(3) by (simp_all add: temp_files_def)
  obtain x2 ss2 where re0: "cp_filter_or_recreate E remote rd w ss1 = (x2, ss2)" by force
  then have x2: "x2 = Some x" and ss': "ss' = (case rd of None \<Rightarrow> ss2 | Some r \<Rightarrow> ss_close_reader (ce_fs E) r ss2)"
    using f cr w fl op by (simp_all add: cp_filter_writer_def)
  note re = re0 [unfolded x2]
  have files: "temp_files ss' = temp_files ss2"
    by (simp add: ss' temp_files_def ss_close_reader_def split: option.split)
  obtain m' where m': "mt_get_file_meta g remote = Some m'" "fm_checksum m \<noteq> None" "fm_checksum m = fm_checksum m'"
    and k: "kept_or_taken (Some (sw_table w, temp_files ss0)) (map_option (\<lambda>r. reader_files r ss1) rd) (temp_files ss') g m"
    using recreate_files [OF re ok t1(1) g] unfolding t1(2) files [symmetric] by blast
  have "kept_or_taken (old_temp ss) (last_snapshot ss) (temp_files ss') g m"
  proof -
    from k consider (kept) "mt_get_file_meta g (sw_table w) = Some m" "map_of (temp_files ss') g = map_of (temp_files ss0) g"
      | (taken) a t fs where "rd = Some a" "reader_files a ss1 = (t, fs)" "mt_get_file_meta g t = Some m"
          "fm_source m = FILE_SOURCE_LOCAL \<longrightarrow> map_of fs g \<noteq> None \<and> map_of (temp_files ss') g = map_of fs g"
      by (auto simp: kept_or_taken_def)
    then show ?thesis
    proof cases
      case kept
      then show ?thesis
        using create_files [OF cr [unfolded w] kept(1)] fl by (auto simp: kept_or_taken_def old_temp_def dir_view_def)
    next
      case taken
      have "last_snapshot ss = Some (t, fs)"
        using open_view [OF op [unfolded taken(1)]] taken(2) fl ss0 by (simp add: last_snapshot_def)
      with taken(3,4) show ?thesis by (auto simp: kept_or_taken_def)
    qed
  qed
  with m' show ?thesis by (auto simp: came_from_def)
qed

subsection \<open>The whole copy\<close>

definition cp_sources :: "cp_env \<Rightarrow> snap_storage \<Rightarrow> copier \<Rightarrow> bool" where
  "cp_sources E ss c \<longleftrightarrow> (\<forall>w f m. cp_writer c = Some w \<longrightarrow> mt_get_file_meta f (sw_table w) = Some m
     \<longrightarrow> came_from E (old_temp ss) (last_snapshot ss) (cp_remote c) (temp_files (cp_storage c)) f m)"

lemma cp_filter_sources:
  assumes "table_ok (cp_remote c)" and "cp_storage c = ss"
  shows "cp_sources E ss (cp_filter E c)"
proof -
  obtain w ss1 where f: "cp_filter_writer E (cp_remote c) (cp_storage c) = (w, ss1)" by force
  show ?thesis
  proof (cases w)
    case None
    with f show ?thesis by (simp add: cp_filter_def cp_sources_def)
  next
    case (Some x)
    obtain r w2 ss2 where sy: "sw_sync (ce_fs E) (x\<lparr>sw_table := (sw_table x)\<lparr>mt_meta := mt_meta (cp_remote c)\<rparr>\<rparr>) ss1 = (r, w2, ss2)"
      by (metis prod_cases3)
    have c': "cp_filter E c = c\<lparr>cp_storage := ss2, cp_writer := Some w2, cp_error := (if r \<noteq> RcOk then RcErr EIO else cp_error c)\<rparr>"
      using f Some sy by (simp add: cp_filter_def Let_def)
    show ?thesis
      using filter_writer_files [OF f [unfolded Some] assms(1)] sync_tableD [OF sy] sync_temp_files [OF sy] assms(2)
      by (simp add: c' cp_sources_def)
  qed
qed

lemma copy_file_sources:
  assumes src: "cp_sources E ss c" and good: "cp_good c" and okc: "cp_ok (cp_copy_file E f c)"
    and f: "mt_get_file_meta f (cp_remote c) \<noteq> None"
  shows "cp_sources E ss (cp_copy_file E f c)"
proof -
  obtain w where w: "cp_writer c = Some w" and t: "ss_temp (cp_storage c) \<noteq> None"
    using good by (auto simp: cp_good_def split: option.splits)
  obtain m where m: "mt_get_file_meta f (cp_remote c) = Some m" using f by blast
  show ?thesis
  proof (cases "mt_get_file_meta f (sw_table w) = None")
    case False
    then show ?thesis using src w by (simp add: cp_copy_file_def)
  next
    case True
    let ?ss = "\<lambda>data. set_temp_files ((f, data) # map_erase f (temp_files (cp_storage c))) (cp_storage c)"
    let ?w = "w\<lparr>sw_table := snd (mt_add_file f m (sw_table w))\<rparr>"
    have add: "sw_add_file f (Some m) w = (RcOk, ?w)"
      using True by (simp add: sw_add_file_def mt_add_file_def mt_get_file_meta_def)
    obtain data r2 w2 ss2 where s: "ce_session E f = Some (RcOk, data)"
      "sw_sync ((ce_fs E)\<lparr>fs_save_ok := ce_sync_ok E f\<rparr>) ?w (?ss data) = (r2, w2, ss2)"
      and c': "cp_copy_file E f c = c\<lparr>cp_writer := Some w2, cp_storage := ss2\<rparr>"
      using okc w m True add
      by (auto simp: cp_copy_file_def Let_def cp_ok_def split: option.splits prod.splits if_splits)
    have files: "temp_files ss2 = (f, data) # map_erase f (temp_files (cp_storage c))"
      using sync_temp_files [OF s(2)] t by simp
    have "came_from E (old_temp ss) (last_snapshot ss) (cp_remote c) (temp_files ss2) g m'"
      if g: "mt_get_file_meta g (sw_table w2) = Some m'" for g m'
    proof (cases "g = f")
      case True
      then have "m' = m" using g sync_tableD [OF s(2)] \<open>mt_get_file_meta f (sw_table w) = None\<close> by simp
      with True m s(1) files show ?thesis by (simp add: came_from_def)
    next
      case False
      then have "mt_get_file_meta g (sw_table w) = Some m'" "map_of (temp_files ss2) g = map_of (temp_files (cp_storage c)) g"
        using g sync_tableD [OF s(2)] files by simp_all
      moreover from this(1) have "came_from E (old_temp ss) (last_snapshot ss) (cp_remote c) (temp_files (cp_storage c)) g m'"
        using src w by (auto simp: cp_sources_def)
      ultimately show ?thesis using came_from_cong [of "temp_files ss2" g "temp_files (cp_storage c)"] by blast
    qed
    then show ?thesis unfolding cp_sources_def c' by (simp del: map_of.simps)
  qed
qed

lemma copy_files_sources:
  assumes "cp_sources E ss c" "cp_good c" "cp_ok (cp_copy_files E fs c)" "\<forall>f \<in> set fs. mt_get_file_meta f (cp_remote c) \<noteq> None" "cp_ok c"
  shows "cp_sources E ss (cp_copy_files E fs c)"
  using assms
proof (induction fs arbitrary: c)
  case (Cons f fs)
  let ?c = "cp_copy_file E f c"
  have okc: "cp_ok ?c" using Cons.prems(3,5) by (cases fs) (auto split: if_splits)
  have "cp_good ?c" "cp_sources E ss ?c"
    using copy_file_good [OF Cons.prems(2) okc] copy_file_sources [OF Cons.prems(1,2) okc] Cons.prems(4) by auto
  then show ?case using Cons.IH [of ?c] okc Cons.prems by (auto simp: copy_file_fields)
qed simp

lemma before_close_sources:
  assumes run: "snap_run rs ss" and okc: "cp_ok (cp_before_close E (copier_new ss))"
  shows "cp_sources E ss (cp_before_close E (copier_new ss))"
proof -
  let ?c1 = "cp_load_meta_table E (copier_new ss)"
  let ?c2 = "cp_filter E ?c1"
  have ok1: "cp_ok ?c1" and ok2: "cp_ok ?c2" using okc by (auto simp: cp_before_close_def Let_def split: if_splits)
  have "copier_ok ?c1" by (rule cp_load_ok) (simp add: copier_ok_def copier_new_def writer_ok_def)
  then have t: "table_ok (cp_remote ?c1)" by (simp add: copier_ok_def)
  have ss: "cp_storage ?c1 = ss" by (simp add: copier_new_def)
  note src = cp_filter_sources [OF t ss, of E]
  have good: "cp_good ?c2" by (rule cp_filter_spec(5) [OF _ ok2, where rs = rs]) (simp add: copier_new_def run)
  show ?thesis
    using okc ok1 ok2 src copy_files_sources [OF src good, of "mt_list_files (cp_remote ?c2)"]
    by (auto simp: cp_before_close_def Let_def listed_iff split: if_splits)
qed

lemma publish_files:
  assumes "ss_publish F i ss = (RcOk, ss')" and "ss_temp ss = Some d" and "ss_last ss \<noteq> i"
  shows "map_of (ss_snapshots ss') i = Some d"
  using assms
  by (auto simp: ss_publish_def Let_def ss_unref_def ss_ref_def delete_snapshot_def AList.delete_conv' split: if_splits option.splits)

lemma cp_close_writer_files:
  assumes run: "snap_run rs (cp_storage c)" and good: "cp_good c" "cp_ok c" and w: "cp_writer c = Some w"
    and new: "ss_last (cp_storage c) < sw_snapshot_index w"
    and okc: "cp_ok (cp_close_writer E c)" and save: "fs_save_ok (ce_fs E)"
  shows "\<exists>d. map_of (ss_snapshots (cp_storage (cp_close_writer E c))) (sw_snapshot_index w) = Some d
           \<and> sd_files d = temp_files (cp_storage c)"
proof -
  let ?i = "sw_snapshot_index w" and ?ss = "cp_storage c"
  obtain r ss where cl: "ss_close_writer (ce_fs E) (ss_filter ?ss) w ?ss = (r, ss)" by force
  have c': "cp_close_writer E c = c\<lparr>cp_storage := ss, cp_writer := None, cp_error := (if r \<noteq> RcOk then RcErr EIO else cp_error c)\<rparr>"
    using cl w good(2) by (simp add: cp_close_writer_def Let_def)
  obtain d where d: "ss_temp ?ss = Some d" and we: "sw_error w = RcOk" using good(1) w by (auto simp: cp_good_def)
  let ?d = "d\<lparr>sd_meta_file := Some (Some (mt_save (sw_table w)))\<rparr>"
  let ?ss1 = "?ss\<lparr>ss_temp := Some ?d\<rparr>"
  have r: "r = RcOk" using okc c' by (simp add: cp_ok_def split: if_splits)
  then have "fs_delete_new_ok (ce_fs E) \<and> fs_rename_ok (ce_fs E)"
    using close_result [OF snap_run_inv [OF run] d new cl] save we by (simp split: if_splits)
  then obtain ss2 where pb: "ss_publish (ce_fs E) ?i ?ss1 = (RcOk, ss2)"
    using new by (simp add: ss_publish_def Let_def delete_snapshot_def)
  have "ss = ss2" using cl pb we save d by (simp add: ss_close_writer_def sw_sync_def)
  moreover have "map_of (ss_snapshots ss2) ?i = Some ?d"
    using publish_files [OF pb] new by simp
  ultimately show ?thesis using d by (simp add: c' temp_files_def)
qed

lemma copy_published_files:
  assumes run: "snap_run rs ss" and e: "ce_meta E \<noteq> Inl RcOk"
    and new: "\<forall>pb. ce_meta E = Inr (Some pb) \<longrightarrow> ss_last ss < pb_index pb"
    and okc: "cp_ok (cp_copy E (copier_new ss))" and fs: "fs_save_ok (ce_fs E)" "fs_load_ok (ce_fs E)" and f: "ce_copy_file E"
  shows "\<exists>pb r d. ce_meta E = Inr (Some pb) \<and> cp_reader (cp_copy E (copier_new ss)) = Some r \<and> sr_index r = pb_index pb
    \<and> mt_meta (sr_table r) = pb_meta pb \<and> set (mt_list_files (sr_table r)) = fst ` set (pb_files pb)
    \<and> table_agrees (mt_load pb) (sr_table r) \<and> ss_last (cp_storage (cp_copy E (copier_new ss))) = pb_index pb
    \<and> map_of (ss_snapshots (cp_storage (cp_copy E (copier_new ss)))) (pb_index pb) = Some d
    \<and> (\<forall>f m. mt_get_file_meta f (sr_table r) = Some m
         \<longrightarrow> came_from E (old_temp ss) (last_snapshot ss) (mt_load pb) (sd_files d) f m)"
proof -
  let ?c = "cp_before_close E (copier_new ss)"
  let ?d = "cp_close_writer E ?c" and ?e = "cp_copy E (copier_new ss)"
  note b = before_close_spec [OF run e]
  have okd: "cp_ok ?d"
    using okc unfolding cp_copy_alt cp_open_reader_def by (simp split: if_splits)
  have ok3: "cp_ok ?c"
    using okd by (auto simp: cp_close_writer_def cp_ok_def Let_def case_prod_beta split: option.splits if_splits)
  from copy_published [OF assms] obtain pb r where pb: "ce_meta E = Inr (Some pb)" "cp_reader ?e = Some r" "sr_index r = pb_index pb"
    "mt_meta (sr_table r) = pb_meta pb" "set (mt_list_files (sr_table r)) = fst ` set (pb_files pb)"
    "table_agrees (mt_load pb) (sr_table r)" "ss_last (cp_storage ?e) = pb_index pb" by blast
  from b(5) [OF ok3] pb(1) obtain w where good: "cp_good ?c" and rem: "cp_remote ?c = mt_load pb" and w: "cp_writer ?c = Some w"
    by (auto simp: cp_good_def split: option.splits)
  have idx: "sw_snapshot_index w = pb_index pb"
    using good w rem by (auto simp: cp_good_def mt_load_def sw_snapshot_index_def pb_index_def)
  have nw: "ss_last (cp_storage ?c) < sw_snapshot_index w" using new pb(1) b(2) idx by simp
  have t: "mt_load (mt_save (sw_table w)) = sw_table w"
    using b(4) w by (intro load_save) (simp add: copier_ok_def writer_ok_def)
  note p = cp_close_writer_published [OF b(1) good ok3 w nw okd fs(1), unfolded idx t]
  obtain d where d: "map_of (ss_snapshots (cp_storage ?d)) (pb_index pb) = Some d" "sd_files d = temp_files (cp_storage ?c)"
    using cp_close_writer_files [OF b(1) good ok3 w nw okd fs(1)] idx by auto
  have tab: "sr_table r = sw_table w"
    using pb(2) p okd d(1)
    by (auto simp: cp_copy_alt cp_open_reader_def ss_open_def Let_def on_disk_def load_table_alt b(3) split: if_splits option.splits prod.splits)
  have "map_of (ss_snapshots (cp_storage ?e)) (pb_index pb) = Some d"
    using pb(2) okd d(1) by (auto simp: cp_copy_alt cp_open_reader_def ss_open_def Let_def split: if_splits option.splits prod.splits)
  moreover have "\<forall>f m. mt_get_file_meta f (sr_table r) = Some m
         \<longrightarrow> came_from E (old_temp ss) (last_snapshot ss) (mt_load pb) (sd_files d) f m"
    using before_close_sources [OF run ok3] w rem unfolding tab d(2) by (simp add: cp_sources_def)
  ultimately show ?thesis using pb by blast
qed

end
