(* ===== verification/SnapshotProps.thy ===== *)
theory SnapshotProps
  imports SnapshotData
begin

section \<open>Properties of the snapshot storage\<close>

text \<open>
  What the storage promises to the snapshot executor, over every run with crashes, and what a writer's
  close reports; a run that publishes snapshot 5, opens it and publishes snapshot 9 shows the hypotheses hold.
\<close>

definition sample_writer :: "int \<Rightarrow> snap_writer" where
  "sample_writer i =
     \<lparr>sw_table = \<lparr>mt_files = [(''data'', \<lparr>fm_user_meta = None, fm_source = FILE_SOURCE_LOCAL, fm_checksum = Some ''c''\<rparr>)],
                  mt_meta = Some \<lparr>sm_last_included_index = i, sm_last_included_term = 1, sm_peers = [], sm_old_peers = []\<rparr>\<rparr>,
      sw_error = RcOk\<rparr>"

definition sample_temp :: snap_dir where
  "sample_temp = \<lparr>sd_meta_file = None, sd_files = [(''data'', ''x'')]\<rparr>"

definition sample_snap :: "int \<Rightarrow> snap_dir" where
  "sample_snap i = synced_dir (sample_writer i) sample_temp"

definition sample_snap_reader :: snap_reader where
  "sample_snap_reader = \<lparr>sr_index = 5, sr_table = sw_table (sample_writer 5)\<rparr>"

definition sample_storage :: snap_storage where
  "sample_storage = \<lparr>ss_snapshots = [(9, sample_snap 9), (5, sample_snap 5)], ss_temp = None, ss_last = 9,
     ss_refs = [(5, 1), (9, 1)], ss_filter = False\<rparr>"

lemmas sample_snap_simps =
  sample_storage_def sample_snap_def sample_temp_def sample_writer_def sample_snap_reader_def synced_dir_def
  fs_good_def ss_init_def storage_new_def ss_close_writer_def sw_sync_def ss_publish_def sw_snapshot_index_def
  delete_snapshot_def ss_ref_def ss_unref_def ref_count_def ss_open_def load_table_def mt_load_def mt_save_def

lemma sample_run_filter: "snap_run [sample_snap_reader] (sample_storage\<lparr>ss_filter := b\<rparr>)"
proof -
  let ?s0 = "storage_new [] None b"
  have 0: "snap_run [] ?s0"
    by (rule snap_run.start [of fs_good "\<lambda>_. True" None b]) (simp add: sample_snap_simps)
  have 1: "snap_run [] (?s0\<lparr>ss_temp := Some sample_temp\<rparr>)" by (rule temp_changes [OF 0])
  let ?s2 = "\<lparr>ss_snapshots = [(5, sample_snap 5)], ss_temp = None, ss_last = 5, ss_refs = [(5, 1)], ss_filter = b\<rparr>"
  have 2: "snap_run [] ?s2"
    by (rule close_writer [OF 1, where w = "sample_writer 5" and F = fs_good and keep = False and r = RcOk])
      (simp_all add: sample_snap_simps)
  let ?s3 = "?s2\<lparr>ss_refs := [(5, 2)]\<rparr>"
  have 3: "snap_run [sample_snap_reader] ?s3"
    by (rule open_reader [OF 2, where F = fs_good]) (simp add: sample_snap_simps)
  have 4: "snap_run [sample_snap_reader] (?s3\<lparr>ss_temp := Some sample_temp\<rparr>)" by (rule temp_changes [OF 3])
  show ?thesis
    by (rule close_writer [OF 4, where w = "sample_writer 9" and F = fs_good and keep = False and r = RcOk])
      (simp_all add: sample_snap_simps)
qed

lemma sample_run: "snap_run [sample_snap_reader] sample_storage"
  using sample_run_filter [of False] by (simp add: sample_storage_def)

text \<open>
  C13. Over all runs of a snapshot storage, crashes at any point included: the snapshot of every open
  reader is on disk with the table the reader has; the references are exactly those of the open readers and
  the last snapshot; the last snapshot is on disk with a table that loads; and when the storage starts again on what a
  crash leaves, it finds that last snapshot, unchanged.
\<close>
theorem snapshots_kept:
  assumes run: "snap_run rs ss"
  shows "(\<forall>r \<in> set rs. on_disk (sr_index r) ss = Some (sr_table r))
    \<and> (\<forall>i. ref_count i ss = (if i = ss_last ss \<and> i \<noteq> 0 then 1 else 0) + readers_at i rs)
    \<and> (ss_last ss \<noteq> 0 \<longrightarrow> on_disk (ss_last ss) ss \<noteq> None)
    \<and> (\<forall>dirs F del t flt ss'. left_by ss dirs \<and> ss_init F del (storage_new dirs t flt) = (RcOk, ss') \<longrightarrow>
         ss_last ss' = ss_last ss \<and> (ss_last ss \<noteq> 0 \<longrightarrow> on_disk (ss_last ss) ss' = on_disk (ss_last ss) ss))"
proof -
  have inv: "snap_inv rs ss" by (rule snap_run_inv [OF run])
  have "ss_last ss' = ss_last ss \<and> (ss_last ss \<noteq> 0 \<longrightarrow> on_disk (ss_last ss) ss' = on_disk (ss_last ss) ss)"
    if "left_by ss dirs \<and> ss_init F del (storage_new dirs t flt) = (RcOk, ss')" for dirs F del t flt ss'
    using restart_last(2,3) [OF inv, of dirs F del t flt ss'] that by simp
  with inv show ?thesis by (simp add: snap_inv_def)
qed

theorem snapshots_kept_witness:
  "on_disk 5 sample_storage = Some (sw_table (sample_writer 5)) \<and> ref_count 5 sample_storage = 1
    \<and> on_disk 9 sample_storage \<noteq> None"
  using snapshots_kept [OF sample_run]
  by (auto simp: sample_snap_reader_def readers_at_def sample_storage_def)

text \<open>
  C15. Closing the writer of a newer snapshot: if nothing fails, the snapshot is published with exactly
  what the writer's table holds; otherwise no snapshot changes. But the call reports a failure only when the error is
  \<open>EIO\<close>: when the sync of the meta table fails, \<^verbatim>\<open>temp\<close> is deleted and the call reports success.
\<close>
theorem close_writer_outcome:
  assumes run: "snap_run rs ss" and t: "ss_temp ss = Some d" and new: "ss_last ss < sw_snapshot_index w"
    and cl: "ss_close_writer F keep w ss = (r, ss')"
  shows "(if sw_error w = RcOk \<and> fs_save_ok F \<and> fs_delete_new_ok F \<and> fs_rename_ok F
          then r = RcOk \<and> ss_last ss' = sw_snapshot_index w
            \<and> on_disk (sw_snapshot_index w) ss' = Some (mt_load (mt_save (sw_table w)))
          else ss_last ss' = ss_last ss \<and> ss_snapshots ss' = ss_snapshots ss
            \<and> (keep \<or> (fs_delete_temp_ok F \<longrightarrow> ss_temp ss' = None))
            \<and> (r = (if sw_error w = RcErr EIO \<or> sw_error w = RcOk \<and> fs_save_ok F then RcFail else RcOk)))"
  by (rule close_result [OF snap_run_inv [OF run] t new cl])

theorem close_writer_outcome_witness:
  "fst (ss_close_writer (fs_good\<lparr>fs_save_ok := False\<rparr>) False (sample_writer 12) (sample_storage\<lparr>ss_temp := Some sample_temp\<rparr>)) = RcOk
   \<and> ss_last (snd (ss_close_writer (fs_good\<lparr>fs_save_ok := False\<rparr>) False (sample_writer 12) (sample_storage\<lparr>ss_temp := Some sample_temp\<rparr>))) = 9"
proof -
  let ?F = "fs_good\<lparr>fs_save_ok := False\<rparr>" and ?ss = "sample_storage\<lparr>ss_temp := Some sample_temp\<rparr>"
  obtain r ss' where c: "ss_close_writer ?F False (sample_writer 12) ?ss = (r, ss')" by force
  have "snap_run [sample_snap_reader] ?ss" by (rule temp_changes [OF sample_run])
  from close_writer_outcome [OF this _ _ c] have "r = RcOk \<and> ss_last ss' = 9"
    by (simp add: sample_storage_def sample_writer_def sw_snapshot_index_def fs_good_def)
  with c show ?thesis by simp
qed

text \<open>
  C16 (functional). A meta table works as a map of file names. Adding a file succeeds exactly if the name is
  free, and then changes the entry of that name alone; it fails otherwise and changes nothing. Removing
  succeeds exactly if the name is there, and then takes that entry alone; it fails otherwise and changes
  nothing. Neither touches the snapshot's meta. The list of the files is each name with an entry once, in
  ascending order, and a table that was saved is loaded as it was. All this holds of every table in use: those of
  the open readers, of a new writer, and of a copier (what the leader sent, the writer it closes and the
  reader it returns), and after any additions and removals.
\<close>
theorem tables_are_maps:
  assumes run: "snap_run rs ss"
    and t: "(\<exists>r \<in> set rs. t = sr_table r)
      \<or> (\<exists>F stale from_empty w ss'. ss_create F stale from_empty ss = (Some w, ss') \<and> t = sw_table w)
      \<or> t = cp_remote (cp_copy E (copier_new ss))
      \<or> (\<exists>w. cp_writer (cp_before_close E (copier_new ss)) = Some w \<and> t = sw_table w)
      \<or> (\<exists>r. cp_reader (cp_copy E (copier_new ss)) = Some r \<and> t = sr_table r)"
    and ops: "t' = fold (\<lambda>op t. case op of Inl (f, m) \<Rightarrow> snd (mt_add_file f m t) | Inr f \<Rightarrow> snd (mt_remove_file f t)) ops t"
  shows "(\<forall>f m r t''. mt_add_file f m t' = (r, t'') \<longrightarrow>
        (r = RcOk \<longleftrightarrow> mt_get_file_meta f t' = None) \<and> (r \<noteq> RcOk \<longrightarrow> r = RcFail \<and> t'' = t')
        \<and> mt_meta t'' = mt_meta t'
        \<and> (r = RcOk \<longrightarrow> (\<forall>g. mt_get_file_meta g t'' = (if g = f then Some m else mt_get_file_meta g t'))))
    \<and> (\<forall>f r t''. mt_remove_file f t' = (r, t'') \<longrightarrow>
        (r = RcOk \<longleftrightarrow> mt_get_file_meta f t' \<noteq> None) \<and> (r \<noteq> RcOk \<longrightarrow> r = RcFail \<and> t'' = t')
        \<and> mt_meta t'' = mt_meta t'
        \<and> (r = RcOk \<longrightarrow> (\<forall>g. mt_get_file_meta g t'' = (if g = f then None else mt_get_file_meta g t'))))
    \<and> sorted (mt_list_files t') \<and> distinct (mt_list_files t')
    \<and> set (mt_list_files t') = {f. mt_get_file_meta f t' \<noteq> None}
    \<and> mt_load (mt_save t') = t'"
proof -
  have new: "copier_ok (copier_new ss)"
    by (simp add: copier_ok_def copier_new_def writer_ok_def)
  have "copier_ok (cp_before_close E (copier_new ss))" "copier_ok (cp_copy E (copier_new ss))"
    unfolding cp_before_close_def Let_def by (simp_all add: new cp_copy_ok cp_load_ok cp_filter_ok cp_copy_files_ok)
  moreover have "table_ok (sr_table r)" if "r \<in> set rs" for r
    using snap_run_inv [OF run] that by (auto simp: snap_inv_def intro: on_disk_ok)
  ultimately have "table_ok t"
    using t create_ok(1) by (auto simp: copier_ok_def writer_ok_def)
  then have ok: "table_ok t'"
    unfolding ops by (induction ops arbitrary: t) (auto split: sum.split)
  have "sorted (mt_list_files t')" "distinct (mt_list_files t')"
    using ok by (simp_all add: table_ok_def mt_list_files_def strict_sorted_iff)
  moreover have "set (mt_list_files t') = {f. mt_get_file_meta f t' \<noteq> None}"
    using listed_iff by blast
  ultimately show ?thesis
    by (intro conjI allI impI load_save [OF ok] add_result remove_result)
qed

text \<open>A leader with snapshot 12 of the files \<^verbatim>\<open>data\<close>, which is unchanged since snapshot 9, and \<^verbatim>\<open>new\<close>.\<close>

definition sample_remote :: snapshot_pb where
  "sample_remote = \<lparr>pb_meta = mt_meta (sw_table (sample_writer 12)),
     pb_files = mt_files (sw_table (sample_writer 12))
       @ [(''new'', \<lparr>fm_user_meta = None, fm_source = FILE_SOURCE_LOCAL, fm_checksum = Some ''d''\<rparr>)]\<rparr>"

definition sample_cp_env :: cp_env where
  "sample_cp_env = \<lparr>ce_fs = fs_good, ce_stale = (\<lambda>_. False), ce_cancelled_early = False, ce_meta = Inr (Some sample_remote),
     ce_session = (\<lambda>f. if f = ''new'' then Some (RcOk, ''y'') else None), ce_cancelled = (\<lambda>_. False), ce_mkdir = (\<lambda>_. RcOk),
     ce_link_ok = (\<lambda>_. True), ce_unlink_ok = (\<lambda>_. True), ce_sync_ok = (\<lambda>_. True), ce_filter_sync_ok = True,
     ce_copy_file = True\<rparr>"

definition sample_filtering :: snap_storage where
  "sample_filtering = sample_storage\<lparr>ss_filter := True\<rparr>"

theorem tables_are_maps_witness:
  "mt_load (mt_save (snd (mt_add_file ''b'' \<lparr>fm_user_meta = None, fm_source = FILE_SOURCE_LOCAL, fm_checksum = None\<rparr>
     (sr_table sample_snap_reader))))
   = snd (mt_add_file ''b'' \<lparr>fm_user_meta = None, fm_source = FILE_SOURCE_LOCAL, fm_checksum = None\<rparr> (sr_table sample_snap_reader))"
  using tables_are_maps [OF sample_run, of "sr_table sample_snap_reader" _ _
      "[Inl (''b'', \<lparr>fm_user_meta = None, fm_source = FILE_SOURCE_LOCAL, fm_checksum = None\<rparr>)]"] by simp


lemma sample_copy_ok: "cp_ok (cp_copy sample_cp_env (copier_new sample_filtering))"
  by code_simp


end
