(* ===== verification/MergedMeta.thy ===== *)
theory MergedMeta
  imports RaftMeta
begin

section \<open>Merged and mixed meta storages (raft_meta.cpp)\<close>

text \<open>
  \<open>KVBasedMergedMetaStorageImpl\<close> keeps the terms and votes of all nodes of a disk in one leveldb, which a
  \<open>MetaStorageManager\<close> finds by the path; writes go through an execution queue that batches them.
  \<open>MixedMetaStorage\<close> writes to a file of its own and to the merged storage and, when it loads, brings the
  stale one of the two up to date. leveldb is a map from keys to values here; whether an
  operation of it works is an argument.
\<close>

subsection \<open>The merged storage\<close>

text \<open>
  A task carries the closure to run: \<open>Some d\<close> is another caller's, \<open>None\<close> the one on the stack
  of the caller that waits.
\<close>

record 'd write_task =
  wt_term :: int
  wt_votedfor :: peer_id
  wt_vgid :: string
  wt_done :: "'d option"

record 'd kv_meta =
  kv_is_inited :: bool
  kv_db :: "string \<Rightarrow> string option"
  kv_queue :: "'d write_task list"

record kv_env =
  ke_meta :: meta_env
  ke_db_open_ok :: bool
  ke_start_ok :: bool
  ke_execute_ok :: bool
  ke_stopped :: bool
  ke_batch_size :: nat
  ke_write_ok :: "nat \<Rightarrow> bool"
  ke_get_ok :: bool
  ke_delete_ok :: bool

definition kv_meta_new :: "(string \<Rightarrow> string option) \<Rightarrow> 'd kv_meta" where
  "kv_meta_new db = \<lparr>kv_is_inited = False, kv_db = db, kv_queue = []\<rparr>"

definition kv_init :: "kv_env \<Rightarrow> 'd kv_meta \<Rightarrow> status \<times> 'd kv_meta" where
  "kv_init E s =
     (if kv_is_inited s then (StatusOK, s)
      else case me_dir_error (ke_meta E) of
             Some e \<Rightarrow> (StatusErr e, s)
           | None \<Rightarrow> if \<not> ke_db_open_ok E then (StatusErr EIO, s)
                     else if \<not> ke_start_ok E then (StatusErr EINVAL, s)
                     else (StatusOK, s\<lparr>kv_is_inited := True\<rparr>))"

text \<open>\<open>run_tasks\<close> writes the \<open>k\<close>-th batch of a run; a batch is written as a whole or not at all.\<close>

definition kv_run_tasks ::
  "kv_env \<Rightarrow> nat \<Rightarrow> (string \<times> string) list \<Rightarrow> 'd option list \<Rightarrow> (string \<Rightarrow> string option)
   \<Rightarrow> (string \<Rightarrow> string option) \<times> ('d option \<times> status) list" where
  "kv_run_tasks E k updates dones db =
     (if ke_write_ok E k then (fold (\<lambda>(key, v) m. m(key \<mapsto> v)) updates db, map (\<lambda>d. (d, StatusOK)) dones)
      else (db, map (\<lambda>d. (d, StatusErr EIO)) dones))"

fun kv_run_loop ::
  "kv_env \<Rightarrow> 'd write_task list \<Rightarrow> nat \<Rightarrow> (string \<times> string) list \<Rightarrow> 'd option list
   \<Rightarrow> (string \<Rightarrow> string option) \<Rightarrow> ('d option \<times> status) list
   \<Rightarrow> (string \<Rightarrow> string option) \<times> ('d option \<times> status) list" where
  "kv_run_loop E [] k updates dones db out =
     (if dones \<noteq> [] then (case kv_run_tasks E k updates dones db of (db', fin) \<Rightarrow> (db', out @ fin)) else (db, out))"
| "kv_run_loop E (t # ts) k updates dones db out =
     (let put = (wt_vgid t, me_ser (ke_meta E) (meta_message (ke_meta E) (wt_term t) (wt_votedfor t)))
      in if length dones = ke_batch_size E
         then (case kv_run_tasks E k updates dones db of
                 (db', fin) \<Rightarrow> kv_run_loop E ts (k + 1) [put] [wt_done t] db' (out @ fin))
         else kv_run_loop E ts k (updates @ [put]) (dones @ [wt_done t]) db out)"

definition kv_run :: "kv_env \<Rightarrow> 'd kv_meta \<Rightarrow> 'd kv_meta \<times> ('d option \<times> status) list" where
  "kv_run E s =
     (if ke_stopped E then (s, [])
      else case kv_run_loop E (kv_queue s) 0 [] [] (kv_db s) [] of
             (db, out) \<Rightarrow> (s\<lparr>kv_db := db, kv_queue := []\<rparr>, out))"

definition kv_set ::
  "kv_env \<Rightarrow> int \<Rightarrow> peer_id \<Rightarrow> string \<Rightarrow> 'd option \<Rightarrow> 'd kv_meta \<Rightarrow> 'd kv_meta \<times> ('d option \<times> status) list" where
  "kv_set E t p g done s =
     (if \<not> kv_is_inited s then (s, [(done, StatusErr EINVAL)])
      else if ke_execute_ok E
      then (s\<lparr>kv_queue := kv_queue s @ [\<lparr>wt_term = t, wt_votedfor = p, wt_vgid = g, wt_done = done\<rparr>]\<rparr>, [])
      else (s, [(done, StatusErr EIO)]))"

text \<open>
  \<open>KVBasedMergedMetaStorage::set_term_and_votedfor\<close>: waits for the closure. \<open>others\<close> are the
  tasks other callers put into the queue before it runs; the result is the status of the closure.
\<close>

definition kv_set_wait ::
  "kv_env \<Rightarrow> 'd write_task list \<Rightarrow> int \<Rightarrow> peer_id \<Rightarrow> string \<Rightarrow> 'd kv_meta
   \<Rightarrow> status option \<times> 'd kv_meta \<times> ('d option \<times> status) list" where
  "kv_set_wait E others t p g s =
     (case kv_set E t p g None s of
        (s1, out) \<Rightarrow>
          if out \<noteq> [] then (map_of out None, s1, [])
          else (case kv_run E (s1\<lparr>kv_queue := kv_queue s1 @ others\<rparr>) of
                  (s2, out2) \<Rightarrow> (map_of out2 None, s2, filter (\<lambda>(d, st). d \<noteq> None) out2)))"

definition kv_get ::
  "kv_env \<Rightarrow> 'd write_task list \<Rightarrow> string \<Rightarrow> 'd kv_meta
   \<Rightarrow> (status option \<times> int \<times> peer_id) \<times> 'd kv_meta \<times> ('d option \<times> status) list" where
  "kv_get E others g s =
     (if \<not> kv_is_inited s then ((Some (StatusErr EINVAL), 0, empty_peer), s, [])
      else if \<not> ke_get_ok E then ((Some (StatusErr EIO), 0, empty_peer), s, [])
      else case kv_db s g of
             None \<Rightarrow> (case kv_set_wait E others 1 empty_peer g s of (st, s1, out) \<Rightarrow> ((st, 1, empty_peer), s1, out))
           | Some v \<Rightarrow>
               (let m = me_deser (ke_meta E) v
                in case peer_parse (me_str2ip (ke_meta E)) (pm_votedfor m) of
                     None \<Rightarrow> ((Some (StatusErr EINVAL), pm_term m, empty_peer), s, [])
                   | Some p \<Rightarrow> ((Some StatusOK, pm_term m, p), s, [])))"

definition kv_delete_meta :: "kv_env \<Rightarrow> string \<Rightarrow> 'd kv_meta \<Rightarrow> status \<times> 'd kv_meta" where
  "kv_delete_meta E g s =
     (if \<not> kv_is_inited s then (StatusErr EINVAL, s)
      else if \<not> ke_delete_ok E then (StatusErr EIO, s)
      else (StatusOK, s\<lparr>kv_db := (kv_db s)(g := None)\<rparr>))"

subsection \<open>The manager of the merged storages\<close>

text \<open>\<open>disk\<close> is what the leveldb under a path holds when it is registered first.\<close>

type_synonym 'd mss_map = "string \<Rightarrow> 'd kv_meta option"

definition register_meta_storage ::
  "(string \<Rightarrow> string \<Rightarrow> string option) \<Rightarrow> string \<Rightarrow> 'd mss_map \<Rightarrow> 'd mss_map" where
  "register_meta_storage disk path m = (if m path \<noteq> None then m else m(path \<mapsto> kv_meta_new (disk path)))"

definition remove_instance_from_meta_storage ::
  "kv_env \<Rightarrow> string \<Rightarrow> string \<Rightarrow> 'd mss_map \<Rightarrow> rc \<times> 'd mss_map" where
  "remove_instance_from_meta_storage E path g m =
     (case m path of
        None \<Rightarrow> (RcOk, m)
      | Some s \<Rightarrow> (case kv_delete_meta E g s of
                     (st, s1) \<Rightarrow> (if st = StatusOK then RcOk else RcFail, m(path \<mapsto> s1))))"

subsection \<open>The mixed storage\<close>

fun after_substring :: "string \<Rightarrow> string \<Rightarrow> string option" where
  "after_substring p [] = (if p = [] then Some [] else None)"
| "after_substring p (c # s) =
     (if take (length p) (c # s) = p then Some (drop (length p) (c # s)) else after_substring p s)"

definition parse_mixed_path :: "string \<Rightarrow> (string \<times> string) option" where
  "parse_mixed_path uri =
     (let s = (case after_substring ''://'' uri of None \<Rightarrow> uri | Some s \<Rightarrow> s)
      in case after_substring ''merged_path='' s of
           None \<Rightarrow> None
         | Some s1 \<Rightarrow>
             (case after_substring ''&&single_path='' s1 of
                None \<Rightarrow> None
              | Some single \<Rightarrow>
                  Some (take (length s1 - length single - length ''&&single_path='') s1, single)))"

record mixed_meta =
  mx_is_inited :: bool
  mx_is_bad :: bool
  mx_single :: "single_meta option"
  mx_merged :: string

definition mixed_new ::
  "(string \<Rightarrow> string \<Rightarrow> string option) \<Rightarrow> (string \<Rightarrow> pb_file) \<Rightarrow> string \<Rightarrow> 'd mss_map
   \<Rightarrow> mixed_meta \<times> 'd mss_map" where
  "mixed_new disk files uri m =
     (case parse_mixed_path uri of
        None \<Rightarrow> (\<lparr>mx_is_inited = False, mx_is_bad = True, mx_single = None, mx_merged = ''''\<rparr>, m)
      | Some (merged, single) \<Rightarrow>
          (\<lparr>mx_is_inited = False, mx_is_bad = False, mx_single = Some (single_meta_new (files single)), mx_merged = merged\<rparr>,
           register_meta_storage disk merged m))"

definition mixed_init :: "kv_env \<Rightarrow> mixed_meta \<Rightarrow> 'd mss_map \<Rightarrow> status \<times> mixed_meta \<times> 'd mss_map" where
  "mixed_init E x m =
     (if mx_is_inited x then (StatusOK, x, m)
      else if mx_is_bad x then (StatusErr EINVAL, x, m)
      else case (mx_single x, m (mx_merged x)) of
             (Some s, Some kv) \<Rightarrow>
               (case fm_init (ke_meta E) s of
                  (st, s1) \<Rightarrow>
                    (let x1 = x\<lparr>mx_single := Some s1\<rparr>
                     in if st \<noteq> StatusOK then (st, x1, m)
                        else (case kv_init E kv of
                                (st2, kv1) \<Rightarrow>
                                  if st2 \<noteq> StatusOK then (st2, x1, m(mx_merged x \<mapsto> kv1))
                                  else (StatusOK, x1\<lparr>mx_is_inited := True\<rparr>, m(mx_merged x \<mapsto> kv1)))))
           | _ \<Rightarrow> (StatusErr EINVAL, x, m))"

text \<open>
  The two storages of an initialised mixed storage exist; the operations below are on them. Where the status of
  the merged write is \<open>None\<close> the caller would wait for ever (the queue was stopped).
\<close>

definition mixed_set_pair ::
  "kv_env \<Rightarrow> 'd write_task list \<Rightarrow> int \<Rightarrow> peer_id \<Rightarrow> string \<Rightarrow> single_meta \<Rightarrow> 'd kv_meta
   \<Rightarrow> status option \<times> single_meta \<times> 'd kv_meta \<times> ('d option \<times> status) list" where
  "mixed_set_pair E others t p g s kv =
     (case fm_set_term_and_votedfor (ke_meta E) t p s of
        (st, s1) \<Rightarrow>
          if st \<noteq> StatusOK then (Some st, s1, kv, [])
          else (case kv_set_wait E others t p g kv of (st2, kv1, out) \<Rightarrow> (st2, s1, kv1, out)))"

definition mixed_newer :: "int \<Rightarrow> peer_id \<Rightarrow> int \<Rightarrow> peer_id \<Rightarrow> bool" where
  "mixed_newer term_1 peer_1 term_2 peer_2 \<longleftrightarrow>
     term_1 > term_2 \<or> term_1 = term_2 \<and> \<not> peer_eq peer_1 empty_peer \<and> peer_eq peer_2 empty_peer"

definition mixed_get_pair ::
  "kv_env \<Rightarrow> 'd write_task list \<Rightarrow> 'd write_task list \<Rightarrow> string \<Rightarrow> single_meta \<Rightarrow> 'd kv_meta
   \<Rightarrow> (status option \<times> int \<times> peer_id) \<times> single_meta \<times> 'd kv_meta \<times> ('d option \<times> status) list" where
  "mixed_get_pair E others others2 g s kv =
     (case fm_get_term_and_votedfor s of
        (st, t1, p1) \<Rightarrow>
          if st \<noteq> StatusOK then ((Some st, 0, empty_peer), s, kv, [])
          else (case kv_get E others g kv of
            ((st2, t2, p2), kv1, out) \<Rightarrow>
              if st2 \<noteq> Some StatusOK then ((st2, 0, empty_peer), s, kv1, out)
              else if t1 = t2 \<and> peer_eq p1 p2 then ((Some StatusOK, t1, p1), s, kv1, out)
              else if t1 = t2 \<and> \<not> peer_eq p1 empty_peer \<and> \<not> peer_eq p2 empty_peer
              then ((Some (StatusErr EINVAL), 0, empty_peer), s, kv1, out)
              else if mixed_newer t1 p1 t2 p2
              then (case kv_set_wait E others2 t1 p1 g kv1 of (st3, kv2, out2) \<Rightarrow> ((st3, t1, p1), s, kv2, out @ out2))
              else (case fm_set_term_and_votedfor (ke_meta E) t2 p2 s of
                      (st3, s1) \<Rightarrow> ((Some st3, t2, p2), s1, kv1, out))))"

definition mixed_set ::
  "kv_env \<Rightarrow> 'd write_task list \<Rightarrow> int \<Rightarrow> peer_id \<Rightarrow> string \<Rightarrow> mixed_meta \<Rightarrow> 'd mss_map
   \<Rightarrow> status option \<times> mixed_meta \<times> 'd mss_map \<times> ('d option \<times> status) list" where
  "mixed_set E others t p g x m =
     (if \<not> mx_is_inited x then (Some (StatusErr EINVAL), x, m, [])
      else case (mx_single x, m (mx_merged x)) of
             (Some s, Some kv) \<Rightarrow>
               (case mixed_set_pair E others t p g s kv of
                  (st, s1, kv1, out) \<Rightarrow> (st, x\<lparr>mx_single := Some s1\<rparr>, m(mx_merged x \<mapsto> kv1), out))
           | _ \<Rightarrow> (Some (StatusErr EINVAL), x, m, []))"

definition mixed_get ::
  "kv_env \<Rightarrow> 'd write_task list \<Rightarrow> 'd write_task list \<Rightarrow> string \<Rightarrow> mixed_meta \<Rightarrow> 'd mss_map
   \<Rightarrow> (status option \<times> int \<times> peer_id) \<times> mixed_meta \<times> 'd mss_map \<times> ('d option \<times> status) list" where
  "mixed_get E others others2 g x m =
     (if \<not> mx_is_inited x then ((Some (StatusErr EINVAL), 0, empty_peer), x, m, [])
      else case (mx_single x, m (mx_merged x)) of
             (Some s, Some kv) \<Rightarrow>
               (case mixed_get_pair E others others2 g s kv of
                  (r, s1, kv1, out) \<Rightarrow> (r, x\<lparr>mx_single := Some s1\<rparr>, m(mx_merged x \<mapsto> kv1), out))
           | _ \<Rightarrow> ((Some (StatusErr EINVAL), 0, empty_peer), x, m, []))"

definition mixed_gc_instance ::
  "kv_env \<Rightarrow> bool \<Rightarrow> string \<Rightarrow> string \<Rightarrow> 'd mss_map \<Rightarrow> status \<times> 'd mss_map" where
  "mixed_gc_instance E gc_dir_ok uri g m =
     (case parse_mixed_path uri of
        None \<Rightarrow> (StatusErr EINVAL, m)
      | Some (merged, single) \<Rightarrow>
          if \<not> gc_dir_ok then (StatusErr EIO, m)
          else (case remove_instance_from_meta_storage E merged g m of
                  (r, m1) \<Rightarrow> (if r = RcOk then StatusOK else StatusErr EIO, m1)))"

end
