(* ===== verification/MergedMetaSafety.thy ===== *)
theory MergedMetaSafety
  imports MergedMeta
begin

section \<open>A mixed meta storage forgets no vote\<close>

text \<open>
  The execution queue answers the task that waits with what became of it, whatever other nodes write
  in the same batches. With that, over all runs of a mixed storage: what its two halves hold never
  conflicts, and a restart gives the last term and vote that was set with success, or a newer one whose set
  failed half way.
\<close>

subsection \<open>The queue\<close>

definition foreign :: "string \<Rightarrow> 'd write_task list \<Rightarrow> bool" where
  "foreign g ts \<longleftrightarrow> (\<forall>t \<in> set ts. wt_vgid t \<noteq> g \<and> wt_done t \<noteq> None)"

text \<open>What became of the waiting task, which puts \<open>v\<close> under \<open>g\<close>.\<close>

definition own_result ::
  "string \<Rightarrow> string \<Rightarrow> (string \<Rightarrow> string option) \<Rightarrow> (string \<Rightarrow> string option) \<Rightarrow> ('d option \<times> status) list \<Rightarrow> bool" where
  "own_result g v db db' out \<longleftrightarrow>
     map_of out None = Some StatusOK \<and> db' g = Some v \<or> map_of out None = Some (StatusErr EIO) \<and> db' g = db g"

lemma fold_put: "fold (\<lambda>(key, v) m. m(key \<mapsto> v)) up db g = (case map_of (rev up) g of None \<Rightarrow> db g | Some v \<Rightarrow> Some v)"
  by (induction up arbitrary: db) (auto simp: map_add_def split: option.splits)

lemma map_of_dones: "map_of (map (\<lambda>d. (d, st)) ds) x = (if x \<in> set ds then Some st else None)"
  by (induction ds) auto

lemma run_tasks_foreign:
  assumes "kv_run_tasks E k up ds db = (db', fin)" "map_of (rev up) g = None" "None \<notin> set ds"
  shows "db' g = db g" "map_of fin None = None"
  using assms by (auto simp: kv_run_tasks_def fold_put map_of_dones split: if_splits)

lemma run_tasks_own:
  assumes "kv_run_tasks E k up ds db = (db', fin)" "map_of (rev up) g = Some v" "None \<in> set ds"
  shows "own_result g v db db' fin"
  using assms by (auto simp: kv_run_tasks_def own_result_def fold_put map_of_dones split: if_splits)

lemma run_loop_foreign:
  assumes "kv_run_loop E ts k up ds db out = (db', out')" "foreign g ts"
    and "map_of (rev up) g = None" "None \<notin> set ds"
  shows "db' g = db g \<and> map_of out' None = map_of out None"
  using assms
proof (induction ts arbitrary: k up ds db out)
  case Nil
  then show ?case using run_tasks_foreign [of E k up ds db] 
    by (auto simp: map_add_def split: if_splits prod.splits option.splits)
next
  case (Cons t ts)
  let ?put = "(wt_vgid t, me_ser (ke_meta E) (meta_message (ke_meta E) (wt_term t) (wt_votedfor t)))"
  have f: "foreign g ts" "wt_vgid t \<noteq> g" "wt_done t \<noteq> None" using Cons.prems(2) by (auto simp: foreign_def)
  show ?case
  proof (cases "length ds = ke_batch_size E")
    case True
    obtain db1 fin where r: "kv_run_tasks E k up ds db = (db1, fin)" by force
    note rf = run_tasks_foreign [OF r Cons.prems(3,4)]
    have "kv_run_loop E ts (k + 1) [?put] [wt_done t] db1 (out @ fin) = (db', out')"
      using Cons.prems(1) True r by (simp add: Let_def)
    from Cons.IH [OF this f(1)] f(2,3) rf show ?thesis by (simp add: map_add_def split: option.split)
  next
    case False
    then have "kv_run_loop E ts k (up @ [?put]) (ds @ [wt_done t]) db out = (db', out')"
      using Cons.prems(1) by (simp add: Let_def)
    from Cons.IH [OF this f(1)] f(2,3) Cons.prems(3,4) show ?thesis by simp
  qed
qed

lemma run_loop_pending:
  assumes "kv_run_loop E ts k up ds db out = (db', out')" "foreign g ts"
    and "map_of (rev up) g = Some v" "None \<in> set ds" "map_of out None = None"
  shows "own_result g v db db' out'"
  using assms
proof (induction ts arbitrary: k up ds)
  case Nil
  obtain db1 fin where r: "kv_run_tasks E k up ds db = (db1, fin)" by force
  then have "db' = db1 \<and> out' = out @ fin" using Nil.prems(1,4) by (cases ds) auto
  with run_tasks_own [OF r Nil.prems(3,4)] Nil.prems(5) show ?case by (simp add: own_result_def map_add_def)
next
  case (Cons t ts)
  let ?put = "(wt_vgid t, me_ser (ke_meta E) (meta_message (ke_meta E) (wt_term t) (wt_votedfor t)))"
  have f: "foreign g ts" "wt_vgid t \<noteq> g" "wt_done t \<noteq> None" using Cons.prems(2) by (auto simp: foreign_def)
  show ?case
  proof (cases "length ds = ke_batch_size E")
    case True
    obtain db1 fin where r: "kv_run_tasks E k up ds db = (db1, fin)" by force
    have "kv_run_loop E ts (k + 1) [?put] [wt_done t] db1 (out @ fin) = (db', out')"
      using Cons.prems(1) True r by (simp add: Let_def)
    from run_loop_foreign [OF this f(1)] f(2,3) have "db' g = db1 g \<and> map_of out' None = map_of (out @ fin) None" by simp
    with run_tasks_own [OF r Cons.prems(3,4)] Cons.prems(5) show ?thesis by (auto simp: own_result_def map_add_def)
  next
    case False
    then have "kv_run_loop E ts k (up @ [?put]) (ds @ [wt_done t]) db out = (db', out')"
      using Cons.prems(1) by (simp add: Let_def)
    from Cons.IH [OF this f(1)] f(2,3) Cons.prems(3-5) show ?thesis by simp
  qed
qed

lemma run_loop_own:
  assumes "kv_run_loop E (before @ own # after) k up ds db out = (db', out')"
    and "foreign g before" "foreign g after" "wt_vgid own = g" "wt_done own = None"
    and "map_of (rev up) g = None" "None \<notin> set ds" "map_of out None = None"
  shows "own_result g (me_ser (ke_meta E) (meta_message (ke_meta E) (wt_term own) (wt_votedfor own))) db db' out'"
  using assms
proof (induction before arbitrary: k up ds db out)
  case Nil
  let ?put = "(g, me_ser (ke_meta E) (meta_message (ke_meta E) (wt_term own) (wt_votedfor own)))"
  show ?case
  proof (cases "length ds = ke_batch_size E")
    case True
    obtain db1 fin where r: "kv_run_tasks E k up ds db = (db1, fin)" by force
    note rf = run_tasks_foreign [OF r Nil.prems(6,7)]
    have "kv_run_loop E after (k + 1) [?put] [None] db1 (out @ fin) = (db', out')"
      using Nil.prems(1,4,5) True r by (simp add: Let_def)
    from run_loop_pending [OF this Nil.prems(3), of "snd ?put"] rf Nil.prems(8) show ?thesis
      by (simp add: own_result_def map_add_def)
  next
    case False
    then have "kv_run_loop E after k (up @ [?put]) (ds @ [None]) db out = (db', out')"
      using Nil.prems(1,4,5) by (simp add: Let_def)
    from run_loop_pending [OF this Nil.prems(3), of "snd ?put"] Nil.prems(8) show ?thesis by simp
  qed
next
  case (Cons t before)
  let ?put = "(wt_vgid t, me_ser (ke_meta E) (meta_message (ke_meta E) (wt_term t) (wt_votedfor t)))"
  have f: "foreign g before" "wt_vgid t \<noteq> g" "wt_done t \<noteq> None" using Cons.prems(2) by (auto simp: foreign_def)
  show ?case
  proof (cases "length ds = ke_batch_size E")
    case True
    obtain db1 fin where r: "kv_run_tasks E k up ds db = (db1, fin)" by force
    note rf = run_tasks_foreign [OF r Cons.prems(6,7)]
    have "kv_run_loop E (before @ own # after) (k + 1) [?put] [wt_done t] db1 (out @ fin) = (db', out')"
      using Cons.prems(1) True r by (simp add: Let_def)
    from Cons.IH [OF this f(1) Cons.prems(3-5)] f(2,3) rf Cons.prems(8) show ?thesis
      by (simp add: own_result_def map_add_def)
  next
    case False
    then have "kv_run_loop E (before @ own # after) k (up @ [?put]) (ds @ [wt_done t]) db out = (db', out')"
      using Cons.prems(1) by (simp add: Let_def)
    from Cons.IH [OF this f(1) Cons.prems(3-5)] f(2,3) Cons.prems(6-8) show ?thesis by simp
  qed
qed

lemma set_wait_spec:
  assumes w: "kv_set_wait E others t p g s = (st, s', out)"
    and s: "kv_is_inited s" "foreign g (kv_queue s)" "foreign g others" and E: "\<not> ke_stopped E"
  shows "kv_is_inited s' \<and> foreign g (kv_queue s')
    \<and> (st = Some StatusOK \<and> kv_db s' g = Some (me_ser (ke_meta E) (meta_message (ke_meta E) t p))
       \<or> st = Some (StatusErr EIO) \<and> kv_db s' g = kv_db s g)"
proof (cases "ke_execute_ok E")
  case False
  with w s show ?thesis by (auto simp: kv_set_wait_def kv_set_def)
next
  case True
  let ?own = "\<lparr>wt_term = t, wt_votedfor = p, wt_vgid = g, wt_done = None\<rparr>"
  obtain db out2 where r: "kv_run_loop E (kv_queue s @ ?own # others) 0 [] [] (kv_db s) [] = (db, out2)" by force
  have "st = map_of out2 None \<and> s' = s\<lparr>kv_db := db, kv_queue := []\<rparr>"
    using w True s(1) E r by (simp add: kv_set_wait_def kv_set_def kv_run_def)
  moreover have "own_result g (me_ser (ke_meta E) (meta_message (ke_meta E) t p)) (kv_db s) db out2"
    using run_loop_own [OF r s(2,3)] by simp
  ultimately show ?thesis using s(1) by (auto simp: own_result_def foreign_def)
qed

subsection \<open>The two halves\<close>

text \<open>
  Every step has an environment of its own; what they share is the codec \<open>C\<close> of the message and a queue that is
  never stopped, as the source never stops it.
\<close>

definition step_env :: "meta_env \<Rightarrow> kv_env \<Rightarrow> bool" where
  "step_env C E \<longleftrightarrow> \<not> ke_stopped E \<and> me_str2ip (ke_meta E) = me_str2ip C
     \<and> me_endpoint2str (ke_meta E) = me_endpoint2str C \<and> me_ser (ke_meta E) = me_ser C \<and> me_deser (ke_meta E) = me_deser C"

definition kv_message :: "meta_env \<Rightarrow> int \<times> peer_id \<Rightarrow> string" where
  "kv_message C v = me_ser C (meta_message C (fst v) (snd v))"

text \<open>\<open>same_vote\<close> ignores the role of a peer, as the comparison of the source does.\<close>

definition same_vote :: "int \<times> peer_id \<Rightarrow> int \<times> peer_id \<Rightarrow> bool" where
  "same_vote a b \<longleftrightarrow> fst a = fst b \<and> peer_eq (snd a) (snd b)"

definition newer_vote :: "int \<times> peer_id \<Rightarrow> int \<times> peer_id \<Rightarrow> bool" where
  "newer_vote a b \<longleftrightarrow>
     fst b < fst a \<or> fst a = fst b \<and> \<not> peer_eq (snd a) empty_peer \<and> peer_eq (snd b) empty_peer"

lemma newer_vote_code: "newer_vote a b = mixed_newer (fst a) (snd a) (fst b) (snd b)"
  by (simp add: newer_vote_def mixed_newer_def)

definition at_least :: "int \<times> peer_id \<Rightarrow> int \<times> peer_id \<Rightarrow> bool" where
  "at_least a b \<longleftrightarrow> same_vote a b \<or> newer_vote a b"

definition savable_vote :: "meta_env \<Rightarrow> int \<times> peer_id \<Rightarrow> bool" where
  "savable_vote C v \<longleftrightarrow> fm_savable C (fst v) (snd v)"

lemma codec_cong:
  assumes "step_env C E"
  shows "fm_stored (ke_meta E) s = fm_stored C s" "fm_savable (ke_meta E) t p = fm_savable C t p"
    "meta_message (ke_meta E) t p = meta_message C t p" "me_ser (ke_meta E) (meta_message (ke_meta E) t p) = kv_message C (t, p)"
proof -
  have "pb_load (me_file (readable (ke_meta E))) f = pb_load (me_file (readable C)) f" for f
    by (simp add: pb_load_def readable_def split: option.split)
  moreover have "me_str2ip (readable (ke_meta E)) = me_str2ip (readable C)" "me_deser (readable (ke_meta E)) = me_deser (readable C)"
    using assms by (simp_all add: step_env_def readable_def)
  ultimately show "fm_stored (ke_meta E) s = fm_stored C s"
    by (simp add: fm_stored_def fm_load_def split: sum.split)
  show m: "meta_message (ke_meta E) t p = meta_message C t p" using assms by (simp add: step_env_def meta_message_def)
  show "fm_savable (ke_meta E) t p = fm_savable C t p" using assms m by (simp add: fm_savable_def step_env_def)
  show "me_ser (ke_meta E) (meta_message (ke_meta E) t p) = kv_message C (t, p)"
    using assms m by (simp add: kv_message_def step_env_def)
qed

lemma fm_set_spec:
  assumes "step_env C E" "savable_vote C (t, p)" "fm_is_inited s" "fm_set_term_and_votedfor (ke_meta E) t p s = (st, s')"
  shows "fm_is_inited s'" "fm_stored C s' = (if st = StatusOK then (t, p) else fm_stored C s)"
proof -
  show "fm_is_inited s'"
    using assms(3,4) by (auto simp: fm_set_term_and_votedfor_def fm_save_def split: prod.splits)
  have "fm_mset (ke_meta E) t p s = (st = StatusOK, s')" using assms(4) by (simp add: fm_mset_def)
  from fm.mset_stored [OF _ this] show "fm_stored C s' = (if st = StatusOK then (t, p) else fm_stored C s)"
    using assms(1,2) by (simp add: codec_cong savable_vote_def)
qed

text \<open>\<open>db_holds C g b db\<close>: the merged storage gives \<open>b\<close> for the group; a missing entry is made with term 1.\<close>

definition db_holds :: "meta_env \<Rightarrow> string \<Rightarrow> int \<times> peer_id \<Rightarrow> (string \<Rightarrow> string option) \<Rightarrow> bool" where
  "db_holds C g b db \<longleftrightarrow> savable_vote C b \<and> (db g = Some (kv_message C b) \<or> db g = None \<and> b = (1, empty_peer))"

definition db_keeps ::
  "meta_env \<Rightarrow> string \<Rightarrow> int \<times> peer_id \<Rightarrow> (string \<Rightarrow> string option) \<Rightarrow> (string \<Rightarrow> string option) \<Rightarrow> bool" where
  "db_keeps C g b db db' \<longleftrightarrow> db' g = db g \<or> db' g = Some (kv_message C b)"

lemma kv_get_spec:
  assumes r: "kv_get E others g kv = ((st, v), kv', out)" and E: "step_env C E" and h: "db_holds C g b (kv_db kv)"
    and kv: "kv_is_inited kv" "foreign g (kv_queue kv)" "foreign g others"
  shows "kv_is_inited kv'" "foreign g (kv_queue kv')" "db_keeps C g b (kv_db kv) (kv_db kv')"
    and "st = Some StatusOK \<Longrightarrow> v = b \<and> kv_db kv' g = Some (kv_message C b)"
proof -
  have "kv_is_inited kv' \<and> foreign g (kv_queue kv') \<and> db_keeps C g b (kv_db kv) (kv_db kv')
    \<and> (st = Some StatusOK \<longrightarrow> v = b \<and> kv_db kv' g = Some (kv_message C b))"
  proof (cases "ke_get_ok E")
    case False
    with r kv show ?thesis by (auto simp: kv_get_def db_keeps_def)
  next
    case True
    show ?thesis
    proof (cases "kv_db kv g")
      case None
      then have b: "b = (1, empty_peer)" "savable_vote C b" using h by (auto simp: db_holds_def)
      have w: "kv_set_wait E others 1 empty_peer g kv = (st, kv', out)" "v = (1, empty_peer)"
        using r True kv(1) None by (auto simp: kv_get_def split: prod.splits)
      show ?thesis
        using set_wait_spec [OF w(1) kv] E w(2) b None
        by (auto simp: step_env_def [of C E] db_keeps_def codec_cong(4) [OF E])
    next
      case (Some x)
      then have x: "x = kv_message C b" "savable_vote C b" using h by (auto simp: db_holds_def)
      have "kv_get E others g kv = ((Some StatusOK, b), kv, [])"
        using E x Some kv(1) True
        by (cases b) (simp add: kv_get_def kv_message_def savable_vote_def fm_savable_def step_env_def meta_message_def)
      with r kv Some x show ?thesis by (simp add: db_keeps_def)
    qed
  qed
  then show "kv_is_inited kv'" "foreign g (kv_queue kv')" "db_keeps C g b (kv_db kv) (kv_db kv')"
    "st = Some StatusOK \<Longrightarrow> v = b \<and> kv_db kv' g = Some (kv_message C b)" by blast+
qed

subsection \<open>Runs\<close>

text \<open>
  \<open>mixed_run C g acked s kv\<close>: the storage of group \<open>g\<close> holds \<open>s\<close> and \<open>kv\<close>, and \<open>acked\<close>
  is what its user knows to be stored. A run begins with a load from any files that hold savable votes; then the
  user sets votes that are not older than \<open>acked\<close>, other groups write to the shared storage, and the process may
  stop and load again.
\<close>

definition mixed_restart ::
  "kv_env \<Rightarrow> 'd write_task list \<Rightarrow> 'd write_task list \<Rightarrow> string \<Rightarrow> single_meta \<Rightarrow> (string \<Rightarrow> string option)
   \<Rightarrow> (status option \<times> int \<times> peer_id) \<times> single_meta \<times> 'd kv_meta \<Rightarrow> bool" where
  "mixed_restart E others others2 g s db res \<longleftrightarrow>
     (\<exists>s1 kv1 r s2 kv2 out. fm_init (ke_meta E) (fm_reopen s) = (StatusOK, s1) \<and> kv_init E (kv_meta_new db) = (StatusOK, kv1)
        \<and> mixed_get_pair E others others2 g s1 kv1 = (r, s2, kv2, out) \<and> res = (r, s2, kv2))"

inductive mixed_run :: "meta_env \<Rightarrow> string \<Rightarrow> int \<times> peer_id \<Rightarrow> single_meta \<Rightarrow> 'd kv_meta \<Rightarrow> bool" for C g where
  start: "savable_vote C (fm_stored C s) \<Longrightarrow> db_holds C g b db \<Longrightarrow> step_env C E \<Longrightarrow> foreign g others \<Longrightarrow> foreign g others2 \<Longrightarrow>
    mixed_restart E others others2 g s db ((Some StatusOK, v), s', kv') \<Longrightarrow> mixed_run C g v s' kv'"
| set_vote: "mixed_run C g acked s kv \<Longrightarrow> step_env C E \<Longrightarrow> foreign g others \<Longrightarrow> savable_vote C (t, p) \<Longrightarrow>
    at_least (t, p) acked \<Longrightarrow> mixed_set_pair E others t p g s kv = (st, s', kv', out) \<Longrightarrow>
    mixed_run C g (if st = Some StatusOK then (t, p) else acked) s' kv'"
| other_groups: "mixed_run C g acked s kv \<Longrightarrow> step_env C E \<Longrightarrow> foreign g ts \<Longrightarrow>
    kv_run E (kv\<lparr>kv_queue := kv_queue kv @ ts\<rparr>) = (kv', out) \<Longrightarrow> mixed_run C g acked s kv'"
| restart: "mixed_run C g acked s kv \<Longrightarrow> step_env C E \<Longrightarrow> foreign g others \<Longrightarrow> foreign g others2 \<Longrightarrow>
    mixed_restart E others others2 g s (kv_db kv) ((Some StatusOK, v), s', kv') \<Longrightarrow> mixed_run C g v s' kv'"
| restart_fails: "mixed_run C g acked s kv \<Longrightarrow> step_env C E \<Longrightarrow> foreign g others \<Longrightarrow> foreign g others2 \<Longrightarrow>
    mixed_restart E others others2 g s (kv_db kv) ((st, v), s', kv') \<Longrightarrow> st \<noteq> Some StatusOK \<Longrightarrow> mixed_run C g acked s' kv'"

definition mixed_inv :: "meta_env \<Rightarrow> string \<Rightarrow> int \<times> peer_id \<Rightarrow> single_meta \<Rightarrow> 'd kv_meta \<Rightarrow> bool" where
  "mixed_inv C g acked s kv \<longleftrightarrow> fm_is_inited s \<and> kv_is_inited kv \<and> foreign g (kv_queue kv)
     \<and> savable_vote C acked \<and> savable_vote C (fm_stored C s) \<and> at_least (fm_stored C s) acked
     \<and> (\<exists>b. savable_vote C b \<and> same_vote b acked \<and> kv_db kv g = Some (kv_message C b))"

lemma peer_eq_cong: "peer_eq a b \<Longrightarrow> peer_eq a c = peer_eq b c" "peer_eq a b \<Longrightarrow> peer_eq c a = peer_eq c b"
  by (simp_all add: peer_eq_key)

lemma same_vote_refl [simp]: "same_vote a a"
  by (simp add: same_vote_def)

lemma same_vote_sym: "same_vote a b \<Longrightarrow> same_vote b a"
  by (simp add: same_vote_def peer_eq_key)

lemma at_least_cong: "same_vote b c \<Longrightarrow> at_least a b = at_least a c"
  by (auto simp: at_least_def same_vote_def newer_vote_code mixed_newer_def peer_eq_key)

lemma get_pair_spec:
  assumes g: "mixed_get_pair E others others2 g s kv = ((st, v), s', kv', out)" and E: "step_env C E"
    and s: "fm_is_inited s" "fm_get_term_and_votedfor s = (StatusOK, a)" "fm_stored C s = a" "savable_vote C a"
    and kv: "kv_is_inited kv" "foreign g (kv_queue kv)" "db_holds C g b (kv_db kv)"
    and f: "foreign g others" "foreign g others2"
  shows "fm_is_inited s' \<and> kv_is_inited kv' \<and> foreign g (kv_queue kv')
    \<and> (if st = Some StatusOK
       then v = (if same_vote a b \<or> newer_vote a b then a else b) \<and> fm_stored C s' = v
         \<and> kv_db kv' g = Some (kv_message C (if same_vote a b then b else v))
       else fm_stored C s' = a \<and> db_keeps C g b (kv_db kv) (kv_db kv'))"
proof -
  obtain t1 p1 t2 p2 where ab: "a = (t1, p1)" "b = (t2, p2)" by (cases a, cases b) auto
  have sb: "savable_vote C b" using kv(3) by (simp add: db_holds_def)
  obtain st1 v1 kv1 out1 where kg: "kv_get E others g kv = ((st1, v1), kv1, out1)" by (metis prod_cases3 prod.exhaust)
  note k = kv_get_spec [OF kg E kv(3,1,2) f(1)]
  show ?thesis
  proof (cases "st1 = Some StatusOK")
    case False
    then have "st = st1 \<and> s' = s \<and> kv' = kv1" using g s(2) kg ab by (auto simp: mixed_get_pair_def)
    with s k False show ?thesis by simp
  next
    case ok: True
    then have v1: "v1 = b" "kv_db kv1 g = Some (kv_message C b)" using k(4) by simp_all
    show ?thesis
    proof (cases "t1 = t2 \<and> \<not> peer_eq p1 p2 \<and> \<not> peer_eq p1 empty_peer \<and> \<not> peer_eq p2 empty_peer")
      case True
      then have "st = Some (StatusErr EINVAL) \<and> s' = s \<and> kv' = kv1"
        using g s(2) kg ab ok v1 by (auto simp: mixed_get_pair_def)
      with s k show ?thesis by simp
    next
      case no: False
      show ?thesis
      proof (cases "t1 = t2 \<and> peer_eq p1 p2")
        case True
        then have "st = Some StatusOK \<and> v = a \<and> s' = s \<and> kv' = kv1"
          using g s(2) kg ab ok v1 by (auto simp: mixed_get_pair_def)
        with True s k ab v1 show ?thesis by (simp add: same_vote_def)
      next
        case diff: False
        then have ns: "\<not> same_vote a b" using ab by (simp add: same_vote_def)
        show ?thesis
        proof (cases "mixed_newer t1 p1 t2 p2")
          case True
          obtain st3 kv3 out3 where w: "kv_set_wait E others2 t1 p1 g kv1 = (st3, kv3, out3)" by (metis prod_cases3)
          have "st = st3 \<and> v = a \<and> s' = s \<and> kv' = kv3"
            using g s(2) kg ab no diff ok v1 True w by (auto simp: mixed_get_pair_def)
          moreover have "newer_vote a b" using True ab by (simp add: newer_vote_code)
          ultimately show ?thesis
            using set_wait_spec [OF w k(1,2) f(2)] E s k(3) v1 ab ns
            by (auto simp: step_env_def [of C E] codec_cong(4) [OF E] db_keeps_def)
        next
          case False
          obtain st3 s3 where w: "fm_set_term_and_votedfor (ke_meta E) t2 p2 s = (st3, s3)" by force
          have "st = Some st3 \<and> v = b \<and> s' = s3 \<and> kv' = kv1"
            using g s(2) kg ab no diff ok v1 False w by (auto simp: mixed_get_pair_def)
          moreover have "\<not> newer_vote a b" using False ab by (simp add: newer_vote_code)
          ultimately show ?thesis
            using fm_set_spec [OF E _ s(1) w] sb k(1-3) s(3) v1 ab ns by simp
        qed
      qed
    qed
  qed
qed

lemma restart_spec:
  assumes r: "mixed_restart E others others2 g s db ((st, v), s', kv')" and E: "step_env C E"
    and a: "fm_stored C s = a" "savable_vote C a" and b: "db_holds C g b db"
    and f: "foreign g others" "foreign g others2"
  shows "fm_is_inited s' \<and> kv_is_inited kv' \<and> foreign g (kv_queue kv')
    \<and> (if st = Some StatusOK
       then v = (if same_vote a b \<or> newer_vote a b then a else b) \<and> fm_stored C s' = v
         \<and> kv_db kv' g = Some (kv_message C (if same_vote a b then b else v))
       else fm_stored C s' = a \<and> db_keeps C g b db (kv_db kv'))"
proof -
  obtain s1 kv1 out where i: "fm_init (ke_meta E) (fm_reopen s) = (StatusOK, s1)" "kv_init E (kv_meta_new db) = (StatusOK, kv1)"
    and g: "mixed_get_pair E others others2 g s1 kv1 = ((st, v), s', kv', out)"
    using r unfolding mixed_restart_def by blast
  have s1: "fm_get_term_and_votedfor s1 = (StatusOK, a)" using fm.init_get [OF i(1)] a(1) E by (simp add: codec_cong)
  then have "fm_is_inited s1" by (auto simp: fm_get_term_and_votedfor_def split: if_splits)
  moreover have "fm_stored C s1 = a" using fm.init_stored [OF i(1)] a(1) E by (simp add: codec_cong)
  moreover have k: "kv_is_inited kv1" "kv_db kv1 = db" "kv_queue kv1 = []"
    using i(2) by (auto simp: kv_init_def kv_meta_new_def split: option.splits if_splits)
  ultimately show ?thesis using get_pair_spec [OF g E _ s1 _ a(2) k(1) _ _ f, unfolded k(2,3)] b
    by (simp add: foreign_def)
qed

subsection \<open>The invariant\<close>

lemma at_least_refl: "same_vote a b \<Longrightarrow> at_least a b"
  by (simp add: at_least_def)

lemma restart_result:
  assumes r: "mixed_restart E others others2 g s db ((Some StatusOK, v), s', kv')" and E: "step_env C E"
    and a: "savable_vote C (fm_stored C s)" and b: "db_holds C g b db"
    and f: "foreign g others" "foreign g others2"
  shows "mixed_inv C g v s' kv'" and "v = (if at_least (fm_stored C s) b then fm_stored C s else b)"
proof -
  note sp = restart_spec [OF r E refl a b f]
  show v: "v = (if at_least (fm_stored C s) b then fm_stored C s else b)" using sp by (simp add: at_least_def)
  have sb: "savable_vote C b" using b by (simp add: db_holds_def)
  let ?b = "if same_vote (fm_stored C s) b then b else v"
  have "savable_vote C ?b \<and> same_vote ?b v" using v sb a by (auto simp: at_least_def same_vote_sym)
  moreover have "savable_vote C v" using v sb a by simp
  ultimately show "mixed_inv C g v s' kv'"
    using sp unfolding mixed_inv_def by (metis (mono_tags) at_least_refl same_vote_refl)
qed

lemma mixed_inv_holds:
  assumes "mixed_inv C g acked s kv"
  obtains b where "db_holds C g b (kv_db kv)" "same_vote b acked" "savable_vote C (fm_stored C s)"
    "at_least (fm_stored C s) b"
  using assms at_least_cong unfolding mixed_inv_def db_holds_def by blast

lemma set_vote_inv:
  assumes inv: "mixed_inv C g acked s kv" and E: "step_env C E" and f: "foreign g others"
    and v: "savable_vote C (t, p)" "at_least (t, p) acked" and r: "mixed_set_pair E others t p g s kv = (st, s', kv', out)"
  shows "mixed_inv C g (if st = Some StatusOK then (t, p) else acked) s' kv'"
proof -
  obtain st1 s1 where w1: "fm_set_term_and_votedfor (ke_meta E) t p s = (st1, s1)" by force
  have i: "fm_is_inited s" "kv_is_inited kv" "foreign g (kv_queue kv)" using inv by (simp_all add: mixed_inv_def)
  note f1 = fm_set_spec [OF E v(1) i(1) w1]
  show ?thesis
  proof (cases "st1 = StatusOK")
    case False
    then have "st = Some st1 \<and> s' = s1 \<and> kv' = kv" using r w1 by (simp add: mixed_set_pair_def)
    with False f1 inv show ?thesis by (simp add: mixed_inv_def)
  next
    case True
    obtain st2 kv2 out2 where w2: "kv_set_wait E others t p g kv = (st2, kv2, out2)" by (metis prod_cases3)
    have e: "st = st2" "s' = s1" "kv' = kv2" using r w1 w2 True by (simp_all add: mixed_set_pair_def)
    have stored: "fm_stored C s1 = (t, p)" using f1 True by simp
    note k = set_wait_spec [OF w2 i(2,3) f]
    have ns: "\<not> ke_stopped E" using E by (simp add: step_env_def)
    show ?thesis
    proof (cases "st2 = Some StatusOK")
      case True
      then have "kv_db kv2 g = Some (kv_message C (t, p))" using k [OF ns] codec_cong(4) [OF E] by simp
      moreover have "kv_is_inited kv2" "foreign g (kv_queue kv2)" using k [OF ns] by simp_all
      ultimately show ?thesis
        unfolding mixed_inv_def e using stored f1(1) v(1) True
        by (simp add: at_least_refl) (rule exI [of _ t], rule exI [of _ p], simp)
    next
      case False
      then show ?thesis using k [OF ns] stored f1(1) v inv e unfolding mixed_inv_def by auto
    qed
  qed
qed

lemma mixed_run_inv: "mixed_run C g acked s kv \<Longrightarrow> mixed_inv C g acked s kv"
proof (induction rule: mixed_run.induct)
  case (start s b db E others others2 v s' kv')
  show ?case by (rule restart_result(1) [OF start.hyps(6,3,1,2,4,5)])
next
  case (set_vote acked s kv E others t p st s' kv' out)
  show ?case by (rule set_vote_inv [OF set_vote.IH set_vote.hyps(2-6)])
next
  case (other_groups acked s kv E ts kv' out)
  have q: "foreign g (kv_queue kv @ ts)" using other_groups by (auto simp: mixed_inv_def foreign_def)
  obtain db out2 where r: "kv_run_loop E (kv_queue kv @ ts) 0 [] [] (kv_db kv) [] = (db, out2)" by force
  have "kv' = kv\<lparr>kv_db := db, kv_queue := []\<rparr>" using other_groups.hyps(2,4) r by (simp add: kv_run_def step_env_def)
  then show ?case using other_groups.IH run_loop_foreign [OF r q] by (simp add: mixed_inv_def foreign_def)
next
  case (restart acked s kv E others others2 v s' kv')
  obtain b where "db_holds C g b (kv_db kv)" "savable_vote C (fm_stored C s)"
    by (rule mixed_inv_holds [OF restart.IH])
  then show ?case by (intro restart_result(1) [OF restart.hyps(5,2) _ _ restart.hyps(3,4)])
next
  case (restart_fails acked s kv E others others2 st v s' kv')
  obtain b where b: "savable_vote C b" "same_vote b acked" "kv_db kv g = Some (kv_message C b)"
    using restart_fails.IH by (auto simp: mixed_inv_def)
  have h: "db_holds C g b (kv_db kv)" using b by (simp add: db_holds_def)
  have a: "savable_vote C (fm_stored C s)" "at_least (fm_stored C s) acked" "savable_vote C acked"
    using restart_fails.IH by (simp_all add: mixed_inv_def)
  have "fm_is_inited s' \<and> kv_is_inited kv' \<and> foreign g (kv_queue kv') \<and> fm_stored C s' = fm_stored C s
    \<and> db_keeps C g b (kv_db kv) (kv_db kv')"
    using restart_spec [OF restart_fails.hyps(5,2) refl a(1) h restart_fails.hyps(3,4)] restart_fails.hyps(6) by simp
  moreover from this have "kv_db kv' g = Some (kv_message C b)" using b by (auto simp: db_keeps_def)
  ultimately show ?case using a b unfolding mixed_inv_def by (intro conjI exI [of _ b]) simp_all
qed

subsection \<open>A restart in which nothing fails succeeds\<close>

lemma run_loop_ok:
  assumes "\<forall>k. ke_write_ok E k" "\<forall>x \<in> set out. snd x = StatusOK" "kv_run_loop E ts k up ds db out = (db', out')"
  shows "\<forall>x \<in> set out'. snd x = StatusOK"
  using assms
proof (induction ts arbitrary: k up ds db out)
  case Nil
  then show ?case by (auto simp: kv_run_tasks_def split: if_splits)
next
  case (Cons t ts)
  have fin: "\<forall>x \<in> set (snd (kv_run_tasks E k up ds db)). snd x = StatusOK"
    using Cons.prems(1) by (auto simp: kv_run_tasks_def)
  show ?case
  proof (cases "length ds = ke_batch_size E")
    case True
    obtain db1 fin where r: "kv_run_tasks E k up ds db = (db1, fin)" by force
    show ?thesis
      by (rule Cons.IH [OF Cons.prems(1), of "out @ fin"]) (use fin r Cons.prems True in \<open>auto simp: Let_def\<close>)
  next
    case False
    show ?thesis
      by (rule Cons.IH [OF Cons.prems(1), of out]) (use Cons.prems False in \<open>auto simp: Let_def\<close>)
  qed
qed

definition nothing_fails :: "kv_env \<Rightarrow> bool" where
  "nothing_fails E \<longleftrightarrow> ke_get_ok E \<and> ke_execute_ok E \<and> (\<forall>k. ke_write_ok E k)"

lemma set_wait_ok:
  assumes w: "kv_set_wait E others t p g s = (st, s', out)"
    and s: "kv_is_inited s" "foreign g (kv_queue s)" "foreign g others" and E: "\<not> ke_stopped E" "nothing_fails E"
  shows "st = Some StatusOK"
proof -
  let ?own = "\<lparr>wt_term = t, wt_votedfor = p, wt_vgid = g, wt_done = None\<rparr>"
  obtain db out2 where r: "kv_run_loop E (kv_queue s @ ?own # others) 0 [] [] (kv_db s) [] = (db, out2)" by force
  have st: "st = map_of out2 None" using w s(1) E r by (simp add: kv_set_wait_def kv_set_def kv_run_def nothing_fails_def)
  have "\<forall>x \<in> set out2. snd x = StatusOK" by (rule run_loop_ok [OF _ _ r]) (use E(2) in \<open>simp_all add: nothing_fails_def\<close>)
  then have "map_of out2 None \<noteq> Some (StatusErr EIO)" using map_of_SomeD by fastforce
  with st set_wait_spec [OF w s E(1)] show ?thesis by auto
qed

lemma restart_ok:
  assumes r: "mixed_restart E others others2 g s (kv_db kv) ((st, v), s', kv')" and E: "step_env C E" "nothing_fails E"
    and inv: "mixed_inv C g acked s kv" and f: "foreign g others" "foreign g others2"
  shows "st = Some StatusOK"
proof -
  let ?a = "fm_stored C s"
  obtain b where b: "savable_vote C b" "same_vote b acked" "kv_db kv g = Some (kv_message C b)" and a: "at_least ?a b"
    using inv at_least_cong unfolding mixed_inv_def by blast
  obtain s1 kv1 out where i: "fm_init (ke_meta E) (fm_reopen s) = (StatusOK, s1)" "kv_init E (kv_meta_new (kv_db kv)) = (StatusOK, kv1)"
    and g: "mixed_get_pair E others others2 g s1 kv1 = ((st, v), s', kv', out)"
    using r unfolding mixed_restart_def by blast
  have s1: "fm_get_term_and_votedfor s1 = (StatusOK, ?a)" using fm.init_get [OF i(1)] E by (simp add: codec_cong)
  have k: "kv_is_inited kv1" "kv_db kv1 = kv_db kv" "kv_queue kv1 = []"
    using i(2) by (auto simp: kv_init_def kv_meta_new_def split: option.splits if_splits)
  have kg: "kv_get E others g kv1 = ((Some StatusOK, b), kv1, [])"
    using E b k by (cases b) (simp add: kv_get_def kv_message_def savable_vote_def fm_savable_def step_env_def
      meta_message_def nothing_fails_def)
  obtain t1 p1 t2 p2 where ab: "?a = (t1, p1)" "b = (t2, p2)" by (cases ?a, cases b) auto
  obtain st3 kv3 out3 where w: "kv_set_wait E others2 t1 p1 g kv1 = (st3, kv3, out3)" by (metis prod_cases3)
  have "st3 = Some StatusOK"
    by (rule set_wait_ok [OF w k(1) _ f(2) _ E(2)]) (use k E in \<open>simp_all add: foreign_def step_env_def\<close>)
  then show ?thesis
    using g s1 kg ab a w
    by (auto simp: mixed_get_pair_def at_least_def same_vote_def newer_vote_code mixed_newer_def split: if_splits)
qed

end
