(* ===== verification/MergedMetaProps.thy ===== *)
theory MergedMetaProps
  imports MergedMetaSafety SampleNode
begin

section \<open>Property of the mixed meta storage\<close>

text \<open>
  A storage that starts empty, sets a vote whose write to the merged half fails, and is loaded again shows
  that the hypotheses hold.
\<close>

definition sample_kv_env :: "bool \<Rightarrow> kv_env" where
  "sample_kv_env writes_ok =
     \<lparr>ke_meta = sample_meta_env, ke_db_open_ok = True, ke_start_ok = True, ke_execute_ok = True, ke_stopped = False,
      ke_batch_size = 2, ke_write_ok = (\<lambda>_. writes_ok), ke_get_ok = True, ke_delete_ok = True\<rparr>"

definition sample_other_task :: "nat write_task" where
  "sample_other_task = \<lparr>wt_term = 7, wt_votedfor = sample_peer 2, wt_vgid = ''h'', wt_done = Some 1\<rparr>"

definition sample_other_message :: string where
  "sample_other_message = kv_message sample_meta_env (7, sample_peer 2)"

definition sample_kv :: "(int \<times> peer_id) \<Rightarrow> bool \<Rightarrow> nat kv_meta" where
  "sample_kv v other = \<lparr>kv_is_inited = True,
     kv_db = (\<lambda>g. if g = ''g'' then Some (kv_message sample_meta_env v)
                 else if g = ''h'' \<and> other then Some sample_other_message else None), kv_queue = []\<rparr>"

definition sample_single :: single_meta where
  "sample_single = \<lparr>fm_is_inited = True, fm_term = 2, fm_votedfor = sample_peer 1,
     fm_file = \<lparr>pb_path = Some (net32 (length (kv_message sample_meta_env (2, sample_peer 1))) @ kv_message sample_meta_env (2, sample_peer 1)),
                pb_tmp = None\<rparr>\<rparr>"

lemma sample_meta_file [simp]: "me_file sample_meta_env = sample_file_env"
  by (simp add: sample_meta_env_def)

lemma sample_kv_env_simps [simp]:
  "ke_meta (sample_kv_env b) = sample_meta_env" "ke_db_open_ok (sample_kv_env b)" "ke_start_ok (sample_kv_env b)"
  "ke_execute_ok (sample_kv_env b)" "\<not> ke_stopped (sample_kv_env b)" "ke_batch_size (sample_kv_env b) = 2"
  "ke_write_ok (sample_kv_env b) k = b" "ke_get_ok (sample_kv_env b)"
  by (simp_all add: sample_kv_env_def)

lemma sample_step_env: "step_env sample_meta_env (sample_kv_env b)" "nothing_fails (sample_kv_env True)"
  "foreign ''g'' [sample_other_task]" "foreign ''g'' ([] :: nat write_task list)"
  by (simp_all add: step_env_def nothing_fails_def foreign_def sample_other_task_def)

lemma sample_savable_vote: "savable_vote sample_meta_env (1, empty_peer)" "savable_vote sample_meta_env (2, sample_peer 1)"
  using sample_savable [of empty_peer 1 1] sample_savable [of "sample_peer 1" 1 2] by (simp_all add: savable_vote_def int64_def)

lemma sample_fresh_stored: "fm_stored sample_meta_env sample_fresh_meta = (1, empty_peer)"
  by (simp add: fm_stored_def fm_load_def pb_load_def sample_fresh_meta_def single_meta_new_def)

lemma sample_restart_1:
  "mixed_restart (sample_kv_env True) [sample_other_task] [] ''g'' sample_fresh_meta Map.empty
     ((Some StatusOK, 1, empty_peer), sample_fresh_meta\<lparr>fm_is_inited := True\<rparr>, sample_kv (1, empty_peer) True)"
proof -
  let ?s = "sample_fresh_meta\<lparr>fm_is_inited := True\<rparr>"
  let ?kv = "\<lparr>kv_is_inited = True, kv_db = Map.empty, kv_queue = []\<rparr> :: nat kv_meta"
  have "fm_init sample_meta_env (fm_reopen sample_fresh_meta) = (StatusOK, ?s)"
    by (simp add: fm_init_def fm_reopen_def fm_load_def pb_load_def sample_fresh_meta_def single_meta_new_def)
  moreover have "kv_init (sample_kv_env True) (kv_meta_new Map.empty) = (StatusOK, ?kv)"
    by (simp add: kv_init_def kv_meta_new_def)
  moreover have "mixed_get_pair (sample_kv_env True) [sample_other_task] [] ''g'' ?s ?kv
      = ((Some StatusOK, 1, empty_peer), ?s, sample_kv (1, empty_peer) True, [(Some 1, StatusOK)])"
    by (simp add: mixed_get_pair_def kv_get_def kv_set_wait_def kv_set_def kv_run_def kv_run_tasks_def Let_def
        fm_get_term_and_votedfor_def sample_fresh_meta_def single_meta_new_def sample_kv_def kv_message_def
        sample_other_message_def sample_other_task_def fun_eq_iff)
  ultimately show ?thesis by (simp add: mixed_restart_def)
qed

lemma sample_set_fails:
  "mixed_set_pair (sample_kv_env False) [] 2 (sample_peer 1) ''g'' (sample_fresh_meta\<lparr>fm_is_inited := True\<rparr>)
     (sample_kv (1, empty_peer) True) = (Some (StatusErr EIO), sample_single, sample_kv (1, empty_peer) True, [])"
  by (simp add: mixed_set_pair_def fm_set_term_and_votedfor_def fm_save_def pb_save_def sample_file_env_def Let_def
      sample_fresh_meta_def single_meta_new_def sample_single_def kv_message_def kv_set_wait_def kv_set_def kv_run_def
      kv_run_tasks_def sample_kv_def)

lemma sample_restart_2:
  "mixed_restart (sample_kv_env True) [] [] ''g'' sample_single (kv_db (sample_kv (1, empty_peer) True))
     ((Some StatusOK, 2, sample_peer 1), sample_single, sample_kv (2, sample_peer 1) True)"
proof -
  let ?m = "kv_message sample_meta_env (2, sample_peer 1)" and ?kv = "sample_kv (1, empty_peer) True"
  have len: "length ?m < 2 ^ 31" and d: "me_deser sample_meta_env ?m = meta_message sample_meta_env 2 (sample_peer 1)"
    and p: "peer_parse (me_str2ip sample_meta_env) (pm_votedfor (meta_message sample_meta_env 2 (sample_peer 1))) = Some (sample_peer 1)"
    using sample_savable_vote(2) by (simp_all add: savable_vote_def fm_savable_def kv_message_def meta_message_def)
  have "pb_load sample_file_env (fm_file sample_single) = Inr ?m"
    using pb_load_saved [OF len, of sample_file_env None] by (simp add: sample_single_def sample_file_env_def)
  then have "fm_init sample_meta_env (fm_reopen sample_single) = (StatusOK, sample_single)"
    using d p by (simp add: fm_init_def fm_reopen_def single_meta_new_def fm_load_def Let_def)
      (simp add: sample_single_def meta_message_def)
  moreover have "kv_init (sample_kv_env True) (kv_meta_new (kv_db ?kv)) = (StatusOK, ?kv)"
    by (simp add: kv_init_def kv_meta_new_def sample_kv_def)
  moreover have "kv_get (sample_kv_env True) [] ''g'' ?kv = ((Some StatusOK, 1, empty_peer), ?kv, [])"
    using sample_savable_vote(1)
    by (simp add: kv_get_def sample_kv_def kv_message_def savable_vote_def fm_savable_def meta_message_def)
  moreover have "mixed_newer 2 (sample_peer 1) 1 empty_peer" by (simp add: mixed_newer_def)
  moreover have "kv_set_wait (sample_kv_env True) [] 2 (sample_peer 1) ''g'' ?kv
      = (Some StatusOK, sample_kv (2, sample_peer 1) True, [])"
    by (simp add: kv_set_wait_def kv_set_def kv_run_def kv_run_tasks_def sample_kv_def kv_message_def fun_eq_iff)
  ultimately have "mixed_get_pair (sample_kv_env True) [] [] ''g'' sample_single ?kv
      = ((Some StatusOK, 2, sample_peer 1), sample_single, sample_kv (2, sample_peer 1) True, [])"
    by (simp add: mixed_get_pair_def fm_get_term_and_votedfor_def sample_single_def)
  with \<open>fm_init _ _ = _\<close> \<open>kv_init _ _ = _\<close> show ?thesis by (simp add: mixed_restart_def)
qed

lemma sample_mixed_run: "mixed_run sample_meta_env ''g'' (1, empty_peer) sample_single (sample_kv (1, empty_peer) True)"
proof -
  have 1: "mixed_run sample_meta_env ''g'' (1, empty_peer) (sample_fresh_meta\<lparr>fm_is_inited := True\<rparr>) (sample_kv (1, empty_peer) True)"
    by (rule mixed_run.start [OF _ _ sample_step_env(1,3,4) sample_restart_1, where b = "(1, empty_peer)"])
      (simp_all add: sample_fresh_stored sample_savable_vote db_holds_def)
  have "at_least (2, sample_peer 1) (1, empty_peer)" by (simp add: at_least_def newer_vote_code mixed_newer_def)
  from set_vote [OF 1 sample_step_env(1,4) sample_savable_vote(2) this sample_set_fails] show ?thesis by simp
qed

text \<open>
  C3. Over all runs of a mixed meta storage (sets of votes that are not older than the last one known to be
  stored, writes of other groups in the same batches, failures of either half, restarts): the two halves never
  conflict, so a restart in which nothing fails succeeds; and a restart that succeeds gives what the file holds, which is
  the last vote that was set with success or a newer one whose set failed half way, and leaves both halves with it.
\<close>
theorem mixed_votes_survive:
  assumes run: "mixed_run C g acked s kv" and E: "step_env C E" and f: "foreign g others" "foreign g others2"
    and r: "mixed_restart E others others2 g s (kv_db kv) ((st, v), s', kv')"
  shows "(nothing_fails E \<longrightarrow> st = Some StatusOK)
    \<and> (st = Some StatusOK \<longrightarrow> v = fm_stored C s \<and> at_least v acked \<and> mixed_inv C g v s' kv')"
proof -
  have inv: "mixed_inv C g acked s kv" by (rule mixed_run_inv [OF run])
  obtain b where b: "db_holds C g b (kv_db kv)" "savable_vote C (fm_stored C s)" "at_least (fm_stored C s) b"
    by (rule mixed_inv_holds [OF inv])
  have "v = fm_stored C s \<and> mixed_inv C g v s' kv'" if "st = Some StatusOK"
    using restart_result [OF r [unfolded that] E b(2,1) f] b(3) by simp
  moreover have "at_least (fm_stored C s) acked" using inv by (simp add: mixed_inv_def)
  ultimately show ?thesis using restart_ok [OF r E _ inv f] by blast
qed

theorem mixed_votes_survive_witness:
  "at_least (2, sample_peer 1) (1, empty_peer) \<and> mixed_inv sample_meta_env ''g'' (2, sample_peer 1) sample_single (sample_kv (2, sample_peer 1) True)"
  using mixed_votes_survive [OF sample_mixed_run sample_step_env(1,4,4) sample_restart_2] by blast

end
