(* ===== verification/RemoteCopy.thy ===== *)
theory RemoteCopy
  imports Snapshot SnapshotThrottle LogFile
begin

section \<open>Remote copy of files (util.cpp, file_reader.cpp, file_service.cpp, remote_file_copier.cpp)\<close>

text \<open>
  A follower copies the files of a snapshot piece by piece: a session sends \<open>get_file\<close> requests for
  consecutive offsets, the file service of the leader finds the reader registered under an id and answers with segments
  of the file, and the session writes them. The RPC layer is not modelled: what a session sees of a call is an error
  code or a response of the service. Strings are bytes; sizes of pieces are below \<^verbatim>\<open>2^32\<close>.
\<close>

subsection \<open>FileSegData\<close>

record seg_data =
  fd_data :: string
  fd_header :: nat
  fd_offset :: "64 word"
  fd_len :: "32 word"

definition fd_new :: seg_data where
  "fd_new = \<lparr>fd_data = [], fd_header = 0, fd_offset = 0, fd_len = 0\<rparr>"

definition assign_at :: "nat \<Rightarrow> string \<Rightarrow> string \<Rightarrow> string" where
  "assign_at pos bytes s = take pos s @ bytes @ drop (pos + length bytes) s"

definition fd_closed_data :: "seg_data \<Rightarrow> string" where
  "fd_closed_data d =
     (if fd_len d > 0 then assign_at (fd_header d) (pack64 (fd_offset d) @ pack32 (fd_len d)) (fd_data d) else fd_data d)"

definition fd_append :: "string \<Rightarrow> 64 word \<Rightarrow> seg_data \<Rightarrow> seg_data" where
  "fd_append data offset d =
     (if fd_offset d \<noteq> 0 \<and> offset = fd_offset d + ucast (fd_len d)
      then d\<lparr>fd_len := fd_len d + of_nat (length data), fd_data := fd_data d @ data\<rparr>
      else (let s = fd_closed_data d
            in \<lparr>fd_data = s @ replicate 12 (char_of (0 :: nat)) @ data, fd_header = length s,
                fd_offset = offset, fd_len = of_nat (length data)\<rparr>))"

definition fd_close :: "seg_data \<Rightarrow> seg_data" where
  "fd_close d = d\<lparr>fd_data := fd_closed_data d, fd_offset := 0, fd_len := 0\<rparr>"

text \<open>\<open>next\<close>: the length, the offset, the bytes of the first segment, and what is left.\<close>

definition fd_next :: "string \<Rightarrow> nat \<times> 64 word \<times> string \<times> string" where
  "fd_next s =
     (if s = [] then (0, 0, [], [])
      else (let header = take 12 s @ replicate (12 - length s) (char_of (0 :: nat)); len = unat (unpack32 (drop 8 header))
            in (len, unpack64 (take 8 header), take len (drop 12 s), drop len (drop 12 s))))"

subsection \<open>LocalDirReader\<close>

text \<open>
  \<open>dr_begin\<close> is what happens under the lock before the read, \<open>dr_finish\<close> the read and what
  follows; other requests may come between the two. An opened file is its contents, for a snapshot does not
  change. Without an opened file the code would use a null pointer, which cannot happen for a name that is not empty.
\<close>

record dir_reader =
  dr_current_filename :: string
  dr_current_file :: "string option"
  dr_is_reading :: bool
  dr_eof_reached :: bool

record read_io =
  ri_open :: "string \<Rightarrow> rc + string"
  ri_read_ok :: bool
  ri_size_ok :: bool

definition dir_reader_new :: dir_reader where
  "dir_reader_new =
     \<lparr>dr_current_filename = [], dr_current_file = None, dr_is_reading = False, dr_eof_reached = True\<rparr>"

definition dr_begin :: "read_io \<Rightarrow> string \<Rightarrow> nat \<Rightarrow> dir_reader \<Rightarrow> rc \<times> dir_reader" where
  "dr_begin io filename offset r =
     (if dr_is_reading r then (RcErr EAGAIN, r)
      else if filename \<noteq> dr_current_filename r
      then (if \<not> dr_eof_reached r \<or> offset \<noteq> 0 then (RcErr EINVAL, r)
            else (let r1 = (if dr_current_file r \<noteq> None
                            then r\<lparr>dr_current_file := None, dr_current_filename := []\<rparr> else r)
                  in case ri_open io filename of
                       Inl e \<Rightarrow> (e, r1)
                     | Inr content \<Rightarrow>
                         (RcOk, \<lparr>dr_current_filename = filename, dr_current_file = Some content,
                                dr_is_reading = True, dr_eof_reached = False\<rparr>)))
      else (RcOk, r\<lparr>dr_is_reading := True\<rparr>))"

definition dr_finish :: "read_io \<Rightarrow> nat \<Rightarrow> nat \<Rightarrow> dir_reader \<Rightarrow> (rc \<times> string \<times> bool) \<times> dir_reader" where
  "dr_finish io offset max_count r =
     (case dr_current_file r of
        None \<Rightarrow> ((RcErr EINVAL, [], False), r)
      | Some content \<Rightarrow>
          if \<not> ri_read_ok io then ((RcErr EIO, [], False), r\<lparr>dr_is_reading := False\<rparr>)
          else (let data = take max_count (drop offset content)
                in if length data < max_count
                   then ((RcOk, data, True), r\<lparr>dr_is_reading := False, dr_eof_reached := True\<rparr>)
                   else if \<not> ri_size_ok io then ((RcErr EIO, [], False), r)
                   else (let eof = (length content = offset + max_count)
                         in ((RcOk, data, eof), r\<lparr>dr_is_reading := False, dr_eof_reached := eof\<rparr>))))"

definition dr_read :: "read_io \<Rightarrow> string \<Rightarrow> nat \<Rightarrow> nat \<Rightarrow> dir_reader \<Rightarrow> (rc \<times> string \<times> bool) \<times> dir_reader" where
  "dr_read io filename offset max_count r =
     (case dr_begin io filename offset r of
        (ret, r1) \<Rightarrow> if ret \<noteq> RcOk then ((ret, [], False), r1) else dr_finish io offset max_count r1)"

subsection \<open>The reader of a snapshot\<close>

definition raft_snapshot_meta_file :: string where
  "raft_snapshot_meta_file = ''__raft_snapshot_meta''"

record file_reader =
  fr_dir :: dir_reader
  fr_table :: meta_table
  fr_throttle :: "throttle option"

record read_env =
  rv_io :: read_io
  rv_serialize :: "snapshot_pb \<Rightarrow> string option"
  rv_enable_throttle :: bool
  rv_minimal_mb :: int
  rv_now :: int
  rv_elapsed :: int
  rv_check_hole :: bool
  rv_blocks :: "string \<Rightarrow> string list"

text \<open>The result: the code, the data, the count read and whether the end was reached.\<close>

type_synonym read_result = "rc \<times> string \<times> nat \<times> bool"

definition fr_read_file ::
  "read_env \<Rightarrow> string \<Rightarrow> nat \<Rightarrow> nat \<Rightarrow> bool \<Rightarrow> file_reader \<Rightarrow> read_result \<times> file_reader" where
  "fr_read_file E filename offset max_count read_partly r =
     (if filename = raft_snapshot_meta_file
      then (case rv_serialize E (mt_save_as_remote (fr_table r)) of
              None \<Rightarrow> ((RcFail, [], 0, False), r)
            | Some s \<Rightarrow> ((RcOk, s, length s, True), r))
      else if mt_get_file_meta filename (fr_table r) = None then ((RcErr EPERM, [], 0, False), r)
      else case (if rv_enable_throttle E then fr_throttle r else None) of
             None \<Rightarrow>
               (case dr_read (rv_io E) filename offset max_count (fr_dir r) of
                  ((ret, data, eof), d) \<Rightarrow> ((ret, data, length data, eof), r\<lparr>fr_dir := d\<rparr>))
           | Some th \<Rightarrow>
               (case throttled_by_throughput (rv_minimal_mb E) (rv_now E) (int max_count) th of
                  (n, th1) \<Rightarrow>
                    (case (if n < int max_count \<and> (\<not> read_partly \<or> n = 0)
                           then ((RcErr EAGAIN, [], False), fr_dir r)
                           else dr_read (rv_io E) filename offset (nat n) (fr_dir r)) of
                       ((ret, data, eof), d) \<Rightarrow>
                         ((ret, data, length data, eof),
                          r\<lparr>fr_dir := d,
                            fr_throttle := Some (if (ret = RcOk \<or> ret = RcErr EAGAIN) \<and> int (length data) < n
                                                 then return_unused_throughput (rv_now E) n (int (length data)) (rv_elapsed E) th1
                                                 else th1)\<rparr>))))"

subsection \<open>The file service\<close>

record get_file_request =
  gq_reader_id :: int
  gq_filename :: string
  gq_count :: int
  gq_offset :: int
  gq_read_partly :: bool

record get_file_response =
  gr_eof :: bool
  gr_read_size :: "int option"
  gr_attachment :: string

record file_service =
  fs_next_id :: int
  fs_readers :: "int \<Rightarrow> file_reader option"

definition fs_add_reader :: "file_reader \<Rightarrow> file_service \<Rightarrow> int \<times> file_service" where
  "fs_add_reader r s =
     (fs_next_id s, s\<lparr>fs_next_id := fs_next_id s + 1, fs_readers := (fs_readers s)(fs_next_id s \<mapsto> r)\<rparr>)"

definition fs_remove_reader :: "int \<Rightarrow> file_service \<Rightarrow> rc \<times> file_service" where
  "fs_remove_reader i s = (if fs_readers s i = None then RcFail else RcOk, s\<lparr>fs_readers := (fs_readers s)(i := None)\<rparr>)"

text \<open>With the check for holes the blocks of the buffer that are all zero are left out.\<close>

definition is_zero :: "string \<Rightarrow> bool" where
  "is_zero s \<longleftrightarrow> s \<noteq> [] \<and> (\<forall>c \<in> set s. c = char_of (0 :: nat))"

fun append_blocks :: "string list \<Rightarrow> nat \<Rightarrow> seg_data \<Rightarrow> seg_data" where
  "append_blocks [] off d = d"
| "append_blocks (p # ps) off d =
     append_blocks ps (off + length p) (if is_zero p then d else fd_append p (of_nat off) d)"

definition seg_attachment :: "read_env \<Rightarrow> string \<Rightarrow> nat \<Rightarrow> string" where
  "seg_attachment E data offset =
     fd_data (fd_close (if \<not> rv_check_hole E then fd_append data (of_nat offset) fd_new
                        else append_blocks (rv_blocks E data) offset fd_new))"

definition fs_get_file ::
  "read_env \<Rightarrow> get_file_request \<Rightarrow> file_service \<Rightarrow> (rc + get_file_response) \<times> file_service" where
  "fs_get_file E q s =
     (case fs_readers s (gq_reader_id q) of
        None \<Rightarrow> (Inl (RcErr ENOENT), s)
      | Some r \<Rightarrow>
          if gq_count q \<le> 0 \<or> gq_offset q < 0 then (Inl (RcErr EREQUEST), s)
          else (case fr_read_file E (gq_filename q) (nat (gq_offset q)) (nat (gq_count q)) (gq_read_partly q) r of
                  ((ret, data, read_count, eof), r1) \<Rightarrow>
                    (let s1 = s\<lparr>fs_readers := (fs_readers s)(gq_reader_id q \<mapsto> r1)\<rparr>
                     in if ret \<noteq> RcOk then (Inl ret, s1)
                        else (Inr \<lparr>gr_eof = eof, gr_read_size = Some (int read_count),
                                   gr_attachment = (if data = [] then [] else seg_attachment E data (nat (gq_offset q)))\<rparr>, s1))))"

subsection \<open>Uris of snapshots\<close>

text \<open>
  \<open>generate_uri_for_copy\<close> registers a reader of the snapshot once and prints the address and its id;
  \<open>init\<close> of a copier reads them. The printing of an endpoint and the parsing of a number are \<open>butil\<close>'s.
\<close>

definition remote_uri :: "(endpoint \<Rightarrow> string) \<Rightarrow> endpoint \<Rightarrow> int \<Rightarrow> string" where
  "remote_uri endpoint2str a reader_id = ''remote://'' @ endpoint2str a @ ''/'' @ show_int reader_id"

definition generate_uri_for_copy ::
  "(endpoint \<Rightarrow> string) \<Rightarrow> endpoint \<Rightarrow> bool \<Rightarrow> file_reader \<Rightarrow> int \<Rightarrow> file_service \<Rightarrow> string \<times> int \<times> file_service" where
  "generate_uri_for_copy endpoint2str a open_ok reader reader_id s =
     (if a = EndPoint 0 0 then ([], reader_id, s)
      else if reader_id = 0
      then (if \<not> open_ok then ([], reader_id, s)
            else (case fs_add_reader reader s of (i, s1) \<Rightarrow> (remote_uri endpoint2str a i, i, s1)))
      else (remote_uri endpoint2str a reader_id, reader_id, s))"

definition destroy_reader_in_file_service :: "int \<Rightarrow> file_service \<Rightarrow> int \<times> file_service" where
  "destroy_reader_in_file_service reader_id s =
     (if reader_id \<noteq> 0 then (0, snd (fs_remove_reader reader_id s)) else (reader_id, s))"

definition parse_remote_uri :: "(string \<Rightarrow> int option) \<Rightarrow> string \<Rightarrow> (string \<times> int) option" where
  "parse_remote_uri string_to_int64 uri =
     (if take 9 uri \<noteq> ''remote://'' then None
      else (let rest = drop 9 uri; ip_and_port = takeWhile (\<lambda>c. c \<noteq> CHR ''/'') rest;
                number = (if ip_and_port = rest then rest else drop (length ip_and_port + 1) rest)
            in case string_to_int64 number of None \<Rightarrow> None | Some i \<Rightarrow> Some (ip_and_port, i)))"

lemma parse_generated_uri:
  assumes "CHR ''/'' \<notin> set (endpoint2str a)" "string_to_int64 (show_int i) = Some i"
  shows "parse_remote_uri string_to_int64 (remote_uri endpoint2str a i) = Some (endpoint2str a, i)"
proof -
  have "takeWhile (\<lambda>c. c \<noteq> CHR ''/'') (endpoint2str a @ CHR ''/'' # show_int i) = endpoint2str a"
    using assms(1) by (subst takeWhile_append2) auto
  then show ?thesis using assms(2) by (simp add: parse_remote_uri_def remote_uri_def Let_def)
qed

end
