(* ===== verification/RemoteSession.thy ===== *)
theory RemoteSession
  imports RemoteCopy
begin

section \<open>Copy sessions (remote_file_copier.cpp)\<close>

text \<open>
  The state of a \<open>RemoteFileCopier::Session\<close>, with the bytes of its destination. \<open>cs_calling\<close> and
  \<open>cs_timer\<close> say that a call, or a timer that sends the next call, is outstanding; a timer that cannot be
  added sends at once. \<open>copy_env\<close> has the flags, the clock and the outcomes of the writes of one
  step.
\<close>

record copy_session =
  cs_filename :: string
  cs_reader_id :: int
  cs_offset :: int
  cs_count :: int
  cs_read_partly :: bool
  cs_to_buf :: bool
  cs_dest :: string
  cs_has_file :: bool
  cs_retry_times :: int
  cs_max_retry :: int
  cs_finished :: bool
  cs_status :: rc
  cs_calling :: bool
  cs_timer :: bool
  cs_throttle :: "throttle option"

record copy_env =
  ye_max_byte_count :: int
  ye_allow_partly :: bool
  ye_enable_throttle :: bool
  ye_minimal_mb :: int
  ye_now :: int
  ye_elapsed :: int
  ye_write_ok :: "nat \<Rightarrow> bool"
  ye_sync_ok :: bool

definition session_new :: "string \<Rightarrow> int \<Rightarrow> bool \<Rightarrow> int \<Rightarrow> throttle option \<Rightarrow> copy_session" where
  "session_new filename reader_id to_buf max_retry th =
     \<lparr>cs_filename = filename, cs_reader_id = reader_id, cs_offset = 0, cs_count = 0, cs_read_partly = False,
      cs_to_buf = to_buf, cs_dest = [], cs_has_file = \<not> to_buf, cs_retry_times = 0, cs_max_retry = max_retry,
      cs_finished = False, cs_status = RcOk, cs_calling = False, cs_timer = False, cs_throttle = th\<rparr>"

definition cs_active_throttle :: "copy_env \<Rightarrow> copy_session \<Rightarrow> throttle option" where
  "cs_active_throttle E s = (if ye_enable_throttle E then cs_throttle s else None)"

definition send_next_rpc :: "copy_env \<Rightarrow> copy_session \<Rightarrow> copy_session" where
  "send_next_rpc E s =
     (let s1 = s\<lparr>cs_offset := cs_offset s + cs_count s, cs_read_partly := ye_allow_partly E\<rparr>;
          max_count = (if cs_to_buf s then 2 ^ 32 - 1 else ye_max_byte_count E)
      in if cs_finished s1 then s1
         else case cs_active_throttle E s1 of
                None \<Rightarrow> s1\<lparr>cs_count := max_count, cs_calling := True\<rparr>
              | Some th \<Rightarrow>
                  (case throttled_by_throughput (ye_minimal_mb E) (ye_now E) max_count th of
                     (n, th1) \<Rightarrow>
                       if n = 0 then s1\<lparr>cs_count := 0, cs_timer := True, cs_throttle := Some th1\<rparr>
                       else s1\<lparr>cs_count := n, cs_calling := True, cs_throttle := Some th1\<rparr>))"

definition cs_request :: "copy_session \<Rightarrow> get_file_request" where
  "cs_request s = \<lparr>gq_reader_id = cs_reader_id s, gq_filename = cs_filename s, gq_count = cs_count s,
     gq_offset = cs_offset s, gq_read_partly = cs_read_partly s\<rparr>"

definition cs_on_finished :: "copy_env \<Rightarrow> copy_session \<Rightarrow> copy_session" where
  "cs_on_finished E s =
     (if cs_finished s then s
      else (let s1 = (if cs_has_file s
                      then s\<lparr>cs_has_file := False, cs_status := (if ye_sync_ok E then cs_status s else RcErr EIO)\<rparr> else s)
            in s1\<lparr>cs_finished := True\<rparr>))"

text \<open>A write at an offset fills a gap with zeros; a buffer is cut or filled up to the offset first.\<close>

definition pwrite :: "nat \<Rightarrow> string \<Rightarrow> string \<Rightarrow> string" where
  "pwrite off data f =
     take off f @ replicate (off - length f) (char_of (0 :: nat)) @ data @ drop (off + length data) f"

definition buf_append :: "nat \<Rightarrow> string \<Rightarrow> string \<Rightarrow> string" where
  "buf_append off data f = take off f @ replicate (off - length f) (char_of (0 :: nat)) @ data"

function write_segs :: "(nat \<Rightarrow> bool) \<Rightarrow> nat \<Rightarrow> string \<Rightarrow> string \<Rightarrow> bool \<times> string" where
  "write_segs ok k attachment dest =
     (case fd_next attachment of
        (len, off, data, rest) \<Rightarrow>
          if len = 0 then (True, dest)
          else if \<not> ok k then (False, dest)
          else write_segs ok (k + 1) rest (pwrite (unat off) data dest))"
  by pat_completeness auto

lemma fd_next_shorter:
  assumes "fd_next s = (len, off, data, rest)" "len \<noteq> 0"
  shows "length rest < length s"
proof -
  have "s \<noteq> []" using assms by (auto simp: fd_next_def)
  moreover from this have "rest = drop len (drop 12 s)" using assms by (auto simp: fd_next_def Let_def)
  ultimately show ?thesis by (cases s) auto
qed

termination write_segs
  by (relation "measure (\<lambda>(ok, k, attachment, dest). length attachment)") (auto dest: fd_next_shorter [OF sym])

function append_segs :: "string \<Rightarrow> string \<Rightarrow> string" where
  "append_segs attachment dest =
     (case fd_next attachment of
        (len, off, data, rest) \<Rightarrow> if len = 0 then dest else append_segs rest (buf_append (unat off) data dest))"
  by pat_completeness auto

termination append_segs
  by (relation "measure (\<lambda>(attachment, dest). length attachment)") (auto dest: fd_next_shorter [OF sym])

declare write_segs.simps [simp del] append_segs.simps [simp del]

definition rpc_failed :: "copy_env \<Rightarrow> rc \<Rightarrow> copy_session \<Rightarrow> copy_session" where
  "rpc_failed E e s =
     (let s1 = s\<lparr>cs_count := 0\<rparr>
      in if e = RcErr ECANCELED \<and> cs_status s = RcOk then cs_on_finished E (s1\<lparr>cs_status := e\<rparr>)
         else (let s2 = (if e \<noteq> RcErr EAGAIN then s1\<lparr>cs_retry_times := cs_retry_times s + 1\<rparr> else s1)
               in if e \<noteq> RcErr EAGAIN \<and> cs_retry_times s \<ge> cs_max_retry s \<and> cs_status s = RcOk
                  then cs_on_finished E (s2\<lparr>cs_status := e\<rparr>)
                  else (let s3 = (case cs_active_throttle E s of
                                    None \<Rightarrow> s2
                                  | Some th \<Rightarrow>
                                      if e = RcErr EAGAIN
                                      then s2\<lparr>cs_throttle := Some (return_unused_throughput (ye_now E) (cs_count s) 0 (ye_elapsed E) th)\<rparr>
                                      else s2)
                        in s3\<lparr>cs_timer := True\<rparr>)))"

text \<open>Tokens that a call took from the throttle and did not use go back.\<close>

definition return_surplus :: "copy_env \<Rightarrow> int \<Rightarrow> copy_session \<Rightarrow> copy_session" where
  "return_surplus E used s =
     (case cs_active_throttle E s of
        None \<Rightarrow> s
      | Some th \<Rightarrow>
          if cs_count s > used
          then s\<lparr>cs_throttle := Some (return_unused_throughput (ye_now E) (cs_count s) used (ye_elapsed E) th)\<rparr>
          else s)"

definition rpc_succeeded :: "copy_env \<Rightarrow> get_file_response \<Rightarrow> copy_session \<Rightarrow> copy_session" where
  "rpc_succeeded E resp s =
     (let s1 = return_surplus E (int (length (gr_attachment resp))) s;
          s2 = s1\<lparr>cs_retry_times := 0\<rparr>;
          s3 = (case gr_read_size resp of
                  None \<Rightarrow> s2
                | Some n \<Rightarrow> if n \<noteq> 0 \<and> ye_allow_partly E then s2\<lparr>cs_count := n\<rparr> else s2);
          (ok, dest) = (if cs_to_buf s3 then (True, append_segs (gr_attachment resp) (cs_dest s3))
                        else write_segs (ye_write_ok E) 0 (gr_attachment resp) (cs_dest s3));
          s4 = s3\<lparr>cs_dest := dest\<rparr>
      in if \<not> ok then cs_on_finished E (s4\<lparr>cs_status := RcErr EIO\<rparr>)
         else if gr_eof resp then cs_on_finished E s4
         else send_next_rpc E s4)"

definition on_rpc_returned :: "copy_env \<Rightarrow> (rc + get_file_response) \<Rightarrow> copy_session \<Rightarrow> copy_session" where
  "on_rpc_returned E res s =
     (let s0 = s\<lparr>cs_calling := False\<rparr>
      in if cs_finished s then s0
         else case res of Inl e \<Rightarrow> rpc_failed E e s0 | Inr resp \<Rightarrow> rpc_succeeded E resp s0)"

definition on_timer :: "copy_env \<Rightarrow> copy_session \<Rightarrow> copy_session" where
  "on_timer E s = send_next_rpc E (s\<lparr>cs_timer := False\<rparr>)"

definition cs_cancel :: "copy_env \<Rightarrow> copy_session \<Rightarrow> copy_session" where
  "cs_cancel E s =
     (if cs_finished s then s
      else cs_on_finished E (s\<lparr>cs_timer := False, cs_status := (if cs_status s = RcOk then RcErr ECANCELED else cs_status s)\<rparr>))"

text \<open>\<open>opened\<close> says whether the destination file could be opened.\<close>

definition start_to_copy_to_file :: "copy_env \<Rightarrow> bool \<Rightarrow> string \<Rightarrow> int \<Rightarrow> int \<Rightarrow> throttle option \<Rightarrow> copy_session option" where
  "start_to_copy_to_file E opened filename reader_id max_retry th =
     (if \<not> opened then None else Some (send_next_rpc E (session_new filename reader_id False max_retry th)))"

definition start_to_copy_to_iobuf :: "copy_env \<Rightarrow> string \<Rightarrow> int \<Rightarrow> int \<Rightarrow> copy_session" where
  "start_to_copy_to_iobuf E filename reader_id max_retry =
     send_next_rpc E (session_new filename reader_id True max_retry None)"

end
