(* ===== verification/RemoteCopySafety.thy ===== *)
theory RemoteCopySafety
  imports RemoteSession
begin

section \<open>A copy session copies the file\<close>

text \<open>
  The service answers a request with a segment of the file (\<open>serves\<close>), whatever other requests did to the
  reader; a session that gets such answers, with failures, retries, throttling and cancellation between them, has
  copied a prefix of the file at every moment and the whole of it when it ends without an error.
\<close>

subsection \<open>Segments\<close>

lemma assign_header: "length h = 12 \<Longrightarrow> assign_at 0 h (replicate 12 c @ data) = h @ data"
  by (simp add: assign_at_def)

lemma attachment_bytes:
  assumes "\<not> rv_check_hole F" "data \<noteq> []" "length data < 2 ^ 32"
  shows "seg_attachment F data off = pack64 (of_nat off) @ pack32 (of_nat (length data)) @ data"
proof -
  have "unat (of_nat (length data) :: 32 word) = length data" using assms(3) by (simp add: unat_of_nat take_bit_nat_eq_self)
  then have "(0 :: 32 word) < of_nat (length data)" using assms(2) by (simp add: word_less_nat_alt)
  then show ?thesis
    using assms(1) assign_header [of "pack64 (of_nat off) @ pack32 (of_nat (length data))" "char_of (0 :: nat)" data]
    by (simp add: seg_attachment_def fd_append_def fd_new_def fd_close_def fd_closed_data_def Let_def)
qed

lemma next_segment:
  assumes "data \<noteq> []" "length data < 2 ^ 32" "off < 2 ^ 64"
  shows "fd_next (pack64 (of_nat off) @ pack32 (of_nat (length data)) @ data) = (length data, of_nat off, data, [])"
proof -
  let ?s = "pack64 (of_nat off) @ pack32 (of_nat (length data)) @ data"
  have "unat (of_nat (length data) :: 32 word) = length data" using assms(2) by (simp add: unat_of_nat take_bit_nat_eq_self)
  moreover have "take 12 ?s = pack64 (of_nat off) @ pack32 (of_nat (length data))"
    "drop 12 ?s = data" "?s \<noteq> []" "12 - length ?s = 0" using assms(1) by auto
  moreover have "unpack64 (take 8 (pack64 (w :: 64 word) @ x)) = w" for w x
    using unpack64_pack64 [of w "[]"] by simp
  moreover have "unpack32 (pack32 (w :: 32 word)) = w" for w using unpack32_pack32 [of w "[]"] by simp
  ultimately show ?thesis using assms(1) by (simp add: fd_next_def Let_def)
qed

lemma pwrite_prefix:
  assumes "off \<le> length c" "data = take n (drop off c)"
  shows "pwrite off data (take off c) = take (off + length data) c" "buf_append off data (take off c) = take (off + length data) c"
proof -
  have "take off c @ take n (drop off c) = take (off + length data) c"
    using assms(2) take_add [of off n c] by (metis min.cobounded2 take_add take_all_iff take_take length_take append_take_drop_id le_cases min_def)
  then show "pwrite off data (take off c) = take (off + length data) c" "buf_append off data (take off c) = take (off + length data) c"
    using assms by (simp_all add: pwrite_def buf_append_def)
qed

lemma written_prefix:
  assumes "off \<le> length c" "data = take n (drop off c)" "length data < 2 ^ 32" "length c < 2 ^ 64"
    and att: "att = (if data = [] then [] else pack64 (of_nat off) @ pack32 (of_nat (length data)) @ data)"
  shows "append_segs att (take off c) = take (off + length data) c"
    and "write_segs ok k att (take off c) = (True, dest) \<Longrightarrow> dest = take (off + length data) c"
proof -
  have nil: "fd_next [] = (0, 0, [], [])" by (simp add: fd_next_def)
  have o: "off < 2 ^ 64" using assms(1,4) by simp
  then have u: "unat (of_nat off :: 64 word) = off" by (simp add: unat_of_nat take_bit_nat_eq_self)
  note p = pwrite_prefix [OF assms(1,2)]
  show "append_segs att (take off c) = take (off + length data) c"
  proof (cases "data = []")
    case True
    then show ?thesis using att by (simp add: append_segs.simps nil)
  next
    case False
    then have "fd_next att = (length data, of_nat off, data, [])" using att next_segment [OF False assms(3) o] by simp
    then show ?thesis
      using False u p(2) by (subst append_segs.simps) (simp, subst append_segs.simps, simp add: nil)
  qed
  show "dest = take (off + length data) c" if "write_segs ok k att (take off c) = (True, dest)"
  proof (cases "data = []")
    case True
    then show ?thesis using att that by (simp add: write_segs.simps nil)
  next
    case False
    then have "fd_next att = (length data, of_nat off, data, [])" using att next_segment [OF False assms(3) o] by simp
    then have "write_segs ok (k + 1) [] (pwrite off data (take off c)) = (True, dest)"
      using that False u by (subst (asm) write_segs.simps) (simp split: if_splits)
    then show ?thesis using p(1) by (subst (asm) write_segs.simps) (simp add: nil)
  qed
qed

subsection \<open>The service\<close>

text \<open>
  \<open>content\<close> is what the files of the snapshot hold, and what its meta table serialises to. A reader that has a
  file open has its contents.
\<close>

definition dir_ok :: "(string \<Rightarrow> string option) \<Rightarrow> dir_reader \<Rightarrow> bool" where
  "dir_ok content d \<longleftrightarrow> (\<forall>c. dr_current_file d = Some c \<longrightarrow> content (dr_current_filename d) = Some c)"

definition read_env_ok :: "(string \<Rightarrow> string option) \<Rightarrow> read_env \<Rightarrow> bool" where
  "read_env_ok content F \<longleftrightarrow> (\<forall>f c. ri_open (rv_io F) f = Inr c \<longrightarrow> content f = Some c)
     \<and> (\<forall>f e. ri_open (rv_io F) f = Inl e \<longrightarrow> e \<noteq> RcOk)
     \<and> (\<forall>pb s. rv_serialize F pb = Some s \<longrightarrow> content raft_snapshot_meta_file = Some s)"

text \<open>What an answer to a request for \<open>count\<close> bytes at \<open>off\<close> may be.\<close>

definition serves :: "string \<Rightarrow> nat \<Rightarrow> nat \<Rightarrow> bool \<Rightarrow> string \<Rightarrow> bool \<Rightarrow> bool" where
  "serves c off count partly data eof \<longleftrightarrow> (\<exists>n. data = take n (drop off c))
     \<and> (eof \<longrightarrow> length c \<le> off + length data) \<and> (\<not> eof \<longrightarrow> data \<noteq> [] \<and> (partly \<or> length data = count)) \<and> length data \<le> count"

lemma dr_begin_ok:
  assumes "dr_begin io f off d = (ret, d')" "dir_ok content d" "\<forall>f c. ri_open io f = Inr c \<longrightarrow> content f = Some c"
    and "\<forall>f e. ri_open io f = Inl e \<longrightarrow> e \<noteq> RcOk"
  shows "dir_ok content d'" "ret = RcOk \<Longrightarrow> dr_current_filename d' = f"
  using assms by (auto simp: dr_begin_def dir_ok_def Let_def split: if_splits sum.splits)

lemma dr_finish_ok:
  assumes "dr_finish io off count d = ((ret, data, eof), d')" "dir_ok content d"
  shows "dir_ok content d'" "dr_current_filename d' = dr_current_filename d"
    and "ret = RcOk \<Longrightarrow> 0 < count \<Longrightarrow> content (dr_current_filename d) = Some c \<Longrightarrow> serves c off count False data eof"
proof -
  show "dir_ok content d'" "dr_current_filename d' = dr_current_filename d"
    using assms by (auto simp: dr_finish_def dir_ok_def Let_def split: if_splits option.splits)
  assume r: "ret = RcOk" "0 < count" "content (dr_current_filename d) = Some c"
  then have d: "dr_current_file d = Some c"
    using assms by (auto simp: dr_finish_def dir_ok_def split: option.splits)
  have "data = take count (drop off c)"
    using assms(1) r(1) d by (auto simp: dr_finish_def Let_def split: if_splits)
  moreover have "eof = (length (take count (drop off c)) < count \<or> length c = off + count)"
    using assms(1) r(1) d by (auto simp: dr_finish_def Let_def split: if_splits)
  ultimately show "serves c off count False data eof"
    unfolding serves_def using r(2) by (intro conjI exI [of _ count]) (auto simp: min_def split: if_splits)
qed

lemma dr_read_ok:
  assumes "dr_read io f off count d = ((ret, data, eof), d')" "dir_ok content d"
    and "\<forall>f c. ri_open io f = Inr c \<longrightarrow> content f = Some c" "\<forall>f e. ri_open io f = Inl e \<longrightarrow> e \<noteq> RcOk"
  shows "dir_ok content d'" "ret = RcOk \<Longrightarrow> 0 < count \<Longrightarrow> content f = Some c \<Longrightarrow> serves c off count False data eof"
proof -
  obtain r1 d1 where b: "dr_begin io f off d = (r1, d1)" by force
  note bo = dr_begin_ok [OF b assms(2-4)]
  have "dir_ok content d' \<and> (ret = RcOk \<longrightarrow> 0 < count \<longrightarrow> content f = Some c \<longrightarrow> serves c off count False data eof)"
  proof (cases "r1 = RcOk")
    case False
    then show ?thesis using assms(1) b bo(1) by (auto simp: dr_read_def)
  next
    case True
    then have "dr_finish io off count d1 = ((ret, data, eof), d')" using assms(1) b by (simp add: dr_read_def)
    from dr_finish_ok [OF this bo(1)] bo(2) [OF True] show ?thesis by simp
  qed
  then show "dir_ok content d'" "ret = RcOk \<Longrightarrow> 0 < count \<Longrightarrow> content f = Some c \<Longrightarrow> serves c off count False data eof" by simp_all
qed

lemma serves_fewer: "serves c off n False data eof \<Longrightarrow> n \<le> count \<Longrightarrow> n = count \<or> partly \<Longrightarrow> serves c off count partly data eof"
  by (auto simp: serves_def)

text \<open>A snapshot's throttle grants between zero and what is asked for.\<close>

definition throttle_ok :: "int \<Rightarrow> throttle \<Rightarrow> bool" where
  "throttle_ok mb t \<longleftrightarrow> 0 \<le> limit_per_cycle mb t \<and> 0 \<le> th_cur_bytes t"

lemma throttle_ok_grant:
  assumes "throttle_ok mb t" "0 \<le> bytes" "throttled_by_throughput mb now bytes t = (n, t')"
  shows "0 \<le> n" "n \<le> bytes" "throttle_ok mb t'"
  using throttled_bounds [of bytes mb t now n t'] assms by (auto simp: throttle_ok_def)

lemma throttle_ok_return [simp]: "throttle_ok mb t \<Longrightarrow> throttle_ok mb (return_unused_throughput now a c e t)"
  by (auto simp: throttle_ok_def return_unused_throughput_def limit_per_cycle_def)

definition reader_ok :: "(string \<Rightarrow> string option) \<Rightarrow> int \<Rightarrow> file_reader \<Rightarrow> bool" where
  "reader_ok content mb r \<longleftrightarrow> dir_ok content (fr_dir r) \<and> (\<forall>t. fr_throttle r = Some t \<longrightarrow> throttle_ok mb t)"

lemma fr_read_file_ok:
  assumes r: "fr_read_file F f off count partly r = ((ret, data, rc, eof), r')" and d: "reader_ok content (rv_minimal_mb F) r"
    and F: "read_env_ok content F" and f: "f \<noteq> raft_snapshot_meta_file"
  shows "reader_ok content (rv_minimal_mb F) r'" "rc = length data"
    and "ret = RcOk \<Longrightarrow> 0 < count \<Longrightarrow> content f = Some c \<Longrightarrow> serves c off count partly data eof"
proof -
  let ?mb = "rv_minimal_mb F"
  have io: "\<forall>f c. ri_open (rv_io F) f = Inr c \<longrightarrow> content f = Some c" "\<forall>f e. ri_open (rv_io F) f = Inl e \<longrightarrow> e \<noteq> RcOk"
    using F unfolding read_env_ok_def by blast+
  have dir: "dir_ok content (fr_dir r)" using d by (simp add: reader_ok_def)
  have "reader_ok content ?mb r' \<and> rc = length data
    \<and> (ret = RcOk \<longrightarrow> 0 < count \<longrightarrow> content f = Some c \<longrightarrow> serves c off count partly data eof)"
  proof (cases "mt_get_file_meta f (fr_table r) = None")
    case True
    with r d f show ?thesis by (auto simp: fr_read_file_def)
  next
    case listed: False
    show ?thesis
    proof (cases "if rv_enable_throttle F then fr_throttle r else None")
      case None
      obtain ret1 data1 eof1 d1 where dr: "dr_read (rv_io F) f off count (fr_dir r) = ((ret1, data1, eof1), d1)"
        by (metis prod_cases3 prod.exhaust)
      have "ret = ret1 \<and> data = data1 \<and> rc = length data1 \<and> eof = eof1 \<and> r' = r\<lparr>fr_dir := d1\<rparr>"
        using r f listed None dr by (auto simp: fr_read_file_def)
      with dr_read_ok [OF dr dir io] d show ?thesis
        using serves_fewer [of c off count data eof count partly] by (auto simp: reader_ok_def)
    next
      case (Some th)
      then have th: "throttle_ok ?mb th" using d by (auto simp: reader_ok_def split: if_splits)
      obtain n th1 where g: "throttled_by_throughput ?mb (rv_now F) (int count) th = (n, th1)" by force
      note gr = throttle_ok_grant [OF th _ g]
      obtain ret1 data1 eof1 d1 where dr: "(if n < int count \<and> (\<not> partly \<or> n = 0) then ((RcErr EAGAIN, [], False), fr_dir r)
          else dr_read (rv_io F) f off (nat n) (fr_dir r)) = ((ret1, data1, eof1), d1)"
        by (metis prod_cases3 prod.exhaust)
      have e: "ret = ret1 \<and> data = data1 \<and> rc = length data1 \<and> eof = eof1 \<and> fr_dir r' = d1
        \<and> (\<exists>t. fr_throttle r' = Some t \<and> throttle_ok ?mb t)"
        using r f listed Some g dr gr(3) by (auto simp: fr_read_file_def split: if_splits)
      show ?thesis
      proof (cases "n < int count \<and> (\<not> partly \<or> n = 0)")
        case True
        with e dr dir show ?thesis by (auto simp: reader_ok_def)
      next
        case False
        have "dr_read (rv_io F) f off (nat n) (fr_dir r) = ((ret1, data1, eof1), d1)"
          using dr unfolding if_not_P [OF False] .
        note ro = dr_read_ok [OF this dir io]
        have "serves c off count partly data eof" if "ret = RcOk" "0 < count" "content f = Some c"
          using ro(2) [of c] serves_fewer [of c off "nat n" data eof count partly] e that False gr(1,2) by auto
        with e ro(1) show ?thesis by (auto simp: reader_ok_def)
      qed
    qed
  qed
  then show "reader_ok content ?mb r'" "rc = length data"
    "ret = RcOk \<Longrightarrow> 0 < count \<Longrightarrow> content f = Some c \<Longrightarrow> serves c off count partly data eof" by simp_all
qed

definition service_ok :: "(string \<Rightarrow> string option) \<Rightarrow> int \<Rightarrow> file_service \<Rightarrow> bool" where
  "service_ok content mb s \<longleftrightarrow> (\<forall>i r. fs_readers s i = Some r \<longrightarrow> reader_ok content mb r)"

text \<open>What a session may be told: the data and whether it reaches the end.\<close>

definition answers :: "string \<Rightarrow> get_file_request \<Rightarrow> string \<Rightarrow> bool \<Rightarrow> bool" where
  "answers c q data eof \<longleftrightarrow>
     (if gq_filename q = raft_snapshot_meta_file then data = c \<and> eof
      else serves c (nat (gq_offset q)) (nat (gq_count q)) (gq_read_partly q) data eof)"

lemma get_file_ok:
  assumes r: "fs_get_file F q s = (Inr resp, s')" and s: "service_ok content (rv_minimal_mb F) s" and F: "read_env_ok content F"
    and c: "content (gq_filename q) = Some c"
  shows "\<exists>data. gr_read_size resp = Some (int (length data)) \<and> answers c q data (gr_eof resp)
    \<and> gr_attachment resp = (if data = [] then [] else seg_attachment F data (nat (gq_offset q)))"
proof -
  obtain rd where rd: "fs_readers s (gq_reader_id q) = Some rd" "\<not> (gq_count q \<le> 0 \<or> gq_offset q < 0)"
    using r by (auto simp: fs_get_file_def split: option.splits if_splits)
  obtain ret data n eof rd' where f: "fr_read_file F (gq_filename q) (nat (gq_offset q)) (nat (gq_count q)) (gq_read_partly q) rd
      = ((ret, data, n, eof), rd')" by (metis prod_cases4 prod.exhaust)
  have e: "ret = RcOk" "resp = \<lparr>gr_eof = eof, gr_read_size = Some (int n),
      gr_attachment = (if data = [] then [] else seg_attachment F data (nat (gq_offset q)))\<rparr>"
    using r rd f by (auto simp: fs_get_file_def Let_def split: if_splits)
  have ro: "reader_ok content (rv_minimal_mb F) rd" using s rd(1) by (simp add: service_ok_def)
  have "n = length data \<and> answers c q data eof"
  proof (cases "gq_filename q = raft_snapshot_meta_file")
    case True
    then have "rv_serialize F (mt_save_as_remote (fr_table rd)) = Some data" "n = length data" "eof"
      using f e(1) by (auto simp: fr_read_file_def split: option.splits)
    moreover from this(1) have "content raft_snapshot_meta_file = Some data" using F unfolding read_env_ok_def by blast
    ultimately show ?thesis using True c by (simp add: answers_def)
  next
    case False
    from fr_read_file_ok [OF f ro F False] e(1) c rd(2) False show ?thesis by (simp add: answers_def)
  qed
  with e(2) show ?thesis by auto
qed

subsection \<open>The session\<close>

definition step_ok :: "bool \<Rightarrow> copy_env \<Rightarrow> copy_session \<Rightarrow> bool" where
  "step_ok p E s \<longleftrightarrow> ye_allow_partly E = p \<and> 0 < ye_max_byte_count E \<and> ye_max_byte_count E < 2 ^ 32
     \<and> (\<forall>t. cs_throttle s = Some t \<longrightarrow> throttle_ok (ye_minimal_mb E) t)"

text \<open>
  \<open>copy_run hole p f content s\<close>: a session for the file \<open>f\<close>, from its start on; the server's flag
  \<open>raft_file_check_hole\<close> is \<open>hole\<close> and the session's flag
  \<open>raft_allow_read_partly_when_install_snapshot\<close> is \<open>p\<close> all the time. An answer comes from a service in any state that its other users may have left.
\<close>

inductive copy_run :: "bool \<Rightarrow> bool \<Rightarrow> string \<Rightarrow> (string \<Rightarrow> string option) \<Rightarrow> copy_session \<Rightarrow> bool" for hole p f content where
  start: "step_ok p E (session_new f i to_buf max_retry th) \<Longrightarrow> copy_run hole p f content (send_next_rpc E (session_new f i to_buf max_retry th))"
| timer: "copy_run hole p f content s \<Longrightarrow> cs_timer s \<Longrightarrow> step_ok p E s \<Longrightarrow> copy_run hole p f content (on_timer E s)"
| failed: "copy_run hole p f content s \<Longrightarrow> cs_calling s \<Longrightarrow> e \<noteq> RcOk \<Longrightarrow> copy_run hole p f content (on_rpc_returned E (Inl e) s)"
| answered: "copy_run hole p f content s \<Longrightarrow> cs_calling s \<Longrightarrow> step_ok p E s \<Longrightarrow> service_ok content (rv_minimal_mb F) svc \<Longrightarrow>
    read_env_ok content F \<Longrightarrow> fs_get_file F (cs_request s) svc = (Inr resp, svc') \<Longrightarrow> rv_check_hole F = hole \<Longrightarrow>
    copy_run hole p f content (on_rpc_returned E (Inr resp) s)"
| cancelled: "copy_run hole p f content s \<Longrightarrow> copy_run hole p f content (cs_cancel E s)"

definition copied :: "string \<Rightarrow> copy_session \<Rightarrow> int \<Rightarrow> bool" where
  "copied c s o' \<longleftrightarrow> 0 \<le> o' \<and> nat o' \<le> length c \<and> cs_dest s = take (nat o') c"

definition copy_inv :: "bool \<Rightarrow> string \<Rightarrow> string \<Rightarrow> copy_session \<Rightarrow> bool" where
  "copy_inv p f c s \<longleftrightarrow> cs_filename s = f
     \<and> (if cs_finished s then cs_status s = RcOk \<longrightarrow> cs_dest s = c
        else cs_status s = RcOk \<and> copied c s (cs_offset s) \<and> (cs_calling s \<noteq> cs_timer s)
           \<and> (if cs_calling s then 0 < cs_count s \<and> cs_count s < 2 ^ 32 \<and> cs_read_partly s = p else cs_count s = 0)
           \<and> (f = raft_snapshot_meta_file \<longrightarrow> cs_offset s = 0))"

lemma active_throttle_update [simp]:
  "cs_active_throttle E (s\<lparr>cs_offset := x\<rparr>) = cs_active_throttle E s"
  "cs_active_throttle E (s\<lparr>cs_read_partly := y\<rparr>) = cs_active_throttle E s"
  by (simp_all add: cs_active_throttle_def)

lemma send_inv:
  assumes "step_ok p E s" "\<not> cs_finished s" "cs_status s = RcOk" "cs_filename s = f" "\<not> cs_calling s" "\<not> cs_timer s"
    and "copied c s (cs_offset s + cs_count s)" "f = raft_snapshot_meta_file \<longrightarrow> cs_offset s + cs_count s = 0"
  shows "copy_inv p f c (send_next_rpc E s)"
proof (cases "cs_active_throttle E s")
  case None
  then show ?thesis
    using assms by (simp add: copy_inv_def send_next_rpc_def Let_def copied_def step_ok_def)
next
  case (Some th)
  let ?max = "if cs_to_buf s then 2 ^ 32 - 1 else ye_max_byte_count E"
  obtain n th1 where g: "throttled_by_throughput (ye_minimal_mb E) (ye_now E) ?max th = (n, th1)" by force
  have "throttle_ok (ye_minimal_mb E) th" "0 \<le> ?max" "?max < 2 ^ 32"
    using Some assms(1) by (auto simp: cs_active_throttle_def step_ok_def split: if_splits)
  note gr = throttle_ok_grant(1,2) [OF this(1,2) g] and mx = this(3)
  have "n < 2 ^ 32" using gr(2) mx by linarith
  then show ?thesis
    using assms Some g gr(1)
    by (simp add: copy_inv_def send_next_rpc_def Let_def copied_def step_ok_def)
qed

lemma finished_inv:
  assumes "cs_filename s = f" "\<not> cs_finished s" "cs_status s = RcOk \<longrightarrow> cs_dest s = c"
  shows "copy_inv p f c (cs_on_finished E s)"
  using assms by (auto simp: copy_inv_def cs_on_finished_def Let_def)

lemma failed_inv:
  assumes inv: "copy_inv p f c s" and call: "cs_calling s" and e: "e \<noteq> RcOk"
  shows "copy_inv p f c (on_rpc_returned E (Inl e) s)"
proof (cases "cs_finished s")
  case True
  with inv show ?thesis by (simp add: on_rpc_returned_def copy_inv_def)
next
  case False
  let ?s = "s\<lparr>cs_calling := False\<rparr>"
  have s: "cs_filename s = f" "cs_status s = RcOk" "copied c s (cs_offset s)" "\<not> cs_timer s"
    "f = raft_snapshot_meta_file \<longrightarrow> cs_offset s = 0"
    using inv False call by (simp_all add: copy_inv_def)
  have r: "on_rpc_returned E (Inl e) s = rpc_failed E e ?s" using False by (simp add: on_rpc_returned_def)
  show ?thesis
  proof (cases "e = RcErr ECANCELED \<or> e \<noteq> RcErr EAGAIN \<and> cs_retry_times s \<ge> cs_max_retry s")
    case True
    then show ?thesis
      unfolding r rpc_failed_def Let_def using s False e by (auto intro!: finished_inv)
  next
    case no: False
    then show ?thesis
      unfolding r rpc_failed_def Let_def using s False
      by (auto simp: copy_inv_def copied_def split: option.split)
  qed
qed

lemma surplus_fields [simp]:
  "cs_filename (return_surplus E n s) = cs_filename s" "cs_offset (return_surplus E n s) = cs_offset s"
  "cs_count (return_surplus E n s) = cs_count s" "cs_read_partly (return_surplus E n s) = cs_read_partly s"
  "cs_to_buf (return_surplus E n s) = cs_to_buf s" "cs_dest (return_surplus E n s) = cs_dest s"
  "cs_finished (return_surplus E n s) = cs_finished s" "cs_status (return_surplus E n s) = cs_status s"
  "cs_calling (return_surplus E n s) = cs_calling s" "cs_timer (return_surplus E n s) = cs_timer s"
  by (simp_all add: return_surplus_def split: option.split)

lemma surplus_step_ok: "step_ok p E s \<Longrightarrow> step_ok p E (return_surplus E n s)"
  by (auto simp: step_ok_def return_surplus_def cs_active_throttle_def split: option.splits if_splits)

lemma step_ok_throttle: "step_ok p E s \<Longrightarrow> cs_throttle s' = cs_throttle s \<Longrightarrow> step_ok p E s'"
  by (simp add: step_ok_def)

lemma answered_inv:
  assumes inv: "copy_inv p f c s" and call: "cs_calling s" and E: "step_ok p E s"
    and a: "answers c (cs_request s) data (gr_eof resp)" and n: "gr_read_size resp = Some (int (length data))"
    and att: "gr_attachment resp = (if data = [] then [] else seg_attachment F data (nat (cs_offset s)))"
    and F: "\<not> rv_check_hole F" and len: "length c < 2 ^ 64" "f = raft_snapshot_meta_file \<longrightarrow> length c < 2 ^ 32"
  shows "copy_inv p f c (on_rpc_returned E (Inr resp) s)"
proof (cases "cs_finished s")
  case True
  with inv show ?thesis by (simp add: on_rpc_returned_def copy_inv_def)
next
  case False
  let ?o = "nat (cs_offset s)"
  have s: "cs_filename s = f" "cs_status s = RcOk" "copied c s (cs_offset s)" "\<not> cs_timer s"
    "0 < cs_count s" "cs_count s < 2 ^ 32" "cs_read_partly s = p" "f = raft_snapshot_meta_file \<longrightarrow> cs_offset s = 0"
    using inv False call by (simp_all add: copy_inv_def)
  have pre: "?o \<le> length c" "0 \<le> cs_offset s" "cs_dest s = take ?o c" using s(3) by (simp_all add: copied_def)
  have d: "\<exists>n. data = take n (drop ?o c)" "length data < 2 ^ 32" "gr_eof resp \<longrightarrow> length c \<le> ?o + length data"
    "\<not> gr_eof resp \<longrightarrow> f \<noteq> raft_snapshot_meta_file \<and> data \<noteq> [] \<and> (p \<or> int (length data) = cs_count s)"
  proof -
    have "(\<exists>n. data = take n (drop ?o c)) \<and> length data < 2 ^ 32 \<and> (gr_eof resp \<longrightarrow> length c \<le> ?o + length data)
      \<and> (\<not> gr_eof resp \<longrightarrow> f \<noteq> raft_snapshot_meta_file \<and> data \<noteq> [] \<and> (p \<or> int (length data) = cs_count s))"
    proof (cases "f = raft_snapshot_meta_file")
      case True
      then have "data = c" "gr_eof resp" "?o = 0" using a s(1,8) by (simp_all add: answers_def cs_request_def)
      then show ?thesis using len True by (auto intro: exI [of _ "length c"])
    next
      case nm: False
      then have sv: "serves c ?o (nat (cs_count s)) p data (gr_eof resp)"
        using a s(1,7) by (simp add: answers_def cs_request_def)
      moreover have "length data \<le> nat (cs_count s)" using sv by (simp add: serves_def)
      moreover have "nat (cs_count s) < 2 ^ 32" using s(5,6) by (simp add: nat_less_iff)
      ultimately show ?thesis using nm s(5) unfolding serves_def by auto
    qed
    then show "\<exists>n. data = take n (drop ?o c)" "length data < 2 ^ 32" "gr_eof resp \<longrightarrow> length c \<le> ?o + length data"
      "\<not> gr_eof resp \<longrightarrow> f \<noteq> raft_snapshot_meta_file \<and> data \<noteq> [] \<and> (p \<or> int (length data) = cs_count s)" by simp_all
  qed
  obtain n1 where d1: "data = take n1 (drop ?o c)" using d(1) by blast
  have att': "gr_attachment resp = (if data = [] then [] else pack64 (of_nat ?o) @ pack32 (of_nat (length data)) @ data)"
    using att attachment_bytes [OF F _ d(2)] by simp
  note wr = written_prefix [OF pre(1) d1 d(2) len(1) att']
  have al: "ye_allow_partly E = p" using E by (simp add: step_ok_def)
  obtain ok dest where w: "(if cs_to_buf s then (True, append_segs (gr_attachment resp) (cs_dest s))
      else write_segs (ye_write_ok E) 0 (gr_attachment resp) (cs_dest s)) = (ok, dest)" by force
  have dest: "ok \<Longrightarrow> dest = take (?o + length data) c"
    using w wr(1) wr(2) [of "ye_write_ok E" 0 dest] pre(3) by (auto split: if_splits)
  let ?r = "return_surplus E (int (length (gr_attachment resp))) (s\<lparr>cs_calling := False\<rparr>)"
  let ?s = "(if data \<noteq> [] \<and> p then ?r\<lparr>cs_retry_times := 0, cs_count := int (length data)\<rparr>
             else ?r\<lparr>cs_retry_times := 0\<rparr>)\<lparr>cs_dest := dest\<rparr>"
  have r: "on_rpc_returned E (Inr resp) s = (if \<not> ok then cs_on_finished E (?s\<lparr>cs_status := RcErr EIO\<rparr>)
         else if gr_eof resp then cs_on_finished E ?s else send_next_rpc E ?s)"
    using False n al w by (auto simp: on_rpc_returned_def rpc_succeeded_def Let_def)
  have "step_ok p E (s\<lparr>cs_calling := False\<rparr>)" using E by (simp add: step_ok_def)
  then have "step_ok p E ?r" by (rule surplus_step_ok)
  then have st: "step_ok p E ?s" by (rule step_ok_throttle) simp
  show ?thesis
  proof (cases "ok")
    case False
    then show ?thesis unfolding r using s \<open>\<not> cs_finished s\<close> by (auto intro!: finished_inv)
  next
    case ok: True
    show ?thesis
    proof (cases "gr_eof resp")
      case True
      then have "dest = c" using dest [OF ok] d(3) by simp
      then show ?thesis unfolding r using ok True s \<open>\<not> cs_finished s\<close> by (auto intro!: finished_inv)
    next
      case False
      then have dd: "f \<noteq> raft_snapshot_meta_file" "data \<noteq> []" "p \<or> int (length data) = cs_count s" using d(4) by simp_all
      have o: "cs_offset ?s + cs_count ?s = int (?o + length data)" using dd pre(2) by auto
      have "length data \<le> length (drop ?o c)" using d1 by simp
      then have "?o + length data \<le> length c" using pre(1) by simp
      moreover have "cs_dest ?s = take (?o + length data) c" using dest [OF ok] by simp
      ultimately have "copied c ?s (cs_offset ?s + cs_count ?s)" unfolding copied_def o
        by (simp only: nat_int of_nat_0_le_iff simp_thms)
      then have "copy_inv p f c (send_next_rpc E ?s)"
        by (intro send_inv [OF st]) (use s dd \<open>\<not> cs_finished s\<close> in simp_all)
      then show ?thesis unfolding r using ok False by simp
    qed
  qed
qed

lemma copy_run_inv:
  assumes c: "content f = Some c" and len: "length c < 2 ^ 64" "f = raft_snapshot_meta_file \<longrightarrow> length c < 2 ^ 32"
  shows "copy_run False p f content s \<Longrightarrow> copy_inv p f c s"
proof (induction rule: copy_run.induct)
  case (start E i to_buf max_retry th)
  then show ?case by (intro send_inv) (simp_all add: session_new_def copied_def)
next
  case (timer s E)
  show ?case
  proof (cases "cs_finished s")
    case True
    with timer.IH show ?thesis by (simp add: on_timer_def send_next_rpc_def copy_inv_def Let_def)
  next
    case False
    with timer show ?thesis
      unfolding on_timer_def by (intro send_inv) (auto simp: copy_inv_def copied_def step_ok_def)
  qed
next
  case (failed s e E)
  then show ?case by (intro failed_inv)
next
  case (answered s E F svc resp svc')
  have fn: "gq_filename (cs_request s) = f" "gq_offset (cs_request s) = cs_offset s"
    using answered.IH by (simp_all add: cs_request_def copy_inv_def)
  obtain data where d: "gr_read_size resp = Some (int (length data))" "answers c (cs_request s) data (gr_eof resp)"
    "gr_attachment resp = (if data = [] then [] else seg_attachment F data (nat (cs_offset s)))"
    using get_file_ok [OF answered.hyps(6,4,5), of c] c fn by auto
  have F: "\<not> rv_check_hole F" using answered.hyps(7) by simp
  show ?case by (rule answered_inv [OF answered.IH answered.hyps(2,3) d(2,1,3) F len])
next
  case (cancelled s E)
  then show ?case
    by (cases "cs_finished s") (auto simp: cs_cancel_def copy_inv_def cs_on_finished_def Let_def split: if_splits)
qed

end
