(* ===== verification/RemoteCopyProps.thy ===== *)
theory RemoteCopyProps
  imports RemoteCopySafety
begin

section \<open>Property of the remote copy\<close>

text \<open>A file of three bytes, copied in pieces of two with a failed call in between, shows that the hypotheses hold.\<close>

definition sample_content :: "string \<Rightarrow> string option" where
  "sample_content f = (if f = ''data'' then Some ''xyz'' else None)"

definition sample_copy_env :: copy_env where
  "sample_copy_env = \<lparr>ye_max_byte_count = 2, ye_allow_partly = True, ye_enable_throttle = True, ye_minimal_mb = 0,
     ye_now = 0, ye_elapsed = 0, ye_write_ok = (\<lambda>_. True), ye_sync_ok = True\<rparr>"

definition sample_read_env :: read_env where
  "sample_read_env = \<lparr>rv_io = \<lparr>ri_open = (\<lambda>f. case sample_content f of None \<Rightarrow> Inl (RcErr ENOENT) | Some c \<Rightarrow> Inr c),
                              ri_read_ok = True, ri_size_ok = True\<rparr>,
     rv_serialize = (\<lambda>_. None), rv_enable_throttle = True, rv_minimal_mb = 0, rv_now = 0, rv_elapsed = 0,
     rv_check_hole = False, rv_blocks = (\<lambda>s. [s])\<rparr>"

definition sample_service :: "dir_reader \<Rightarrow> file_service" where
  "sample_service d = \<lparr>fs_next_id = 8, fs_readers = (\<lambda>i. if i = 7
     then Some \<lparr>fr_dir = d, fr_table = snd (mt_add_file ''data'' \<lparr>fm_user_meta = None, fm_source = FILE_SOURCE_LOCAL, fm_checksum = None\<rparr> empty_table),
                fr_throttle = None\<rparr> else None)\<rparr>"

definition sample_session :: copy_session where
  "sample_session = send_next_rpc sample_copy_env (session_new ''data'' 7 False 3 None)"

lemma sample_step_ok: "cs_throttle s = None \<Longrightarrow> step_ok True sample_copy_env s"
  by (simp add: step_ok_def sample_copy_env_def)

lemma sample_read_env_ok: "read_env_ok sample_content sample_read_env"
  by (auto simp: read_env_ok_def sample_read_env_def split: option.splits)

lemma sample_service_ok: "dir_ok sample_content d \<Longrightarrow> service_ok sample_content 0 (sample_service d)"
  by (simp add: service_ok_def reader_ok_def sample_service_def)

definition sample_served :: "copy_session \<Rightarrow> dir_reader \<Rightarrow> rc + get_file_response" where
  "sample_served s d = fst (fs_get_file sample_read_env (cs_request s) (sample_service d))"

definition sample_dir :: dir_reader where
  "sample_dir = \<lparr>dr_current_filename = ''data'', dr_current_file = Some ''xyz'', dr_is_reading = False, dr_eof_reached = False\<rparr>"

lemma sample_dir_ok: "dir_ok sample_content sample_dir"
  by (simp add: dir_ok_def sample_dir_def sample_content_def)

definition sample_answer :: "nat \<Rightarrow> get_file_response" where
  "sample_answer o' = (if o' = 0
     then \<lparr>gr_eof = False, gr_read_size = Some 2, gr_attachment = seg_attachment sample_read_env ''xy'' 0\<rparr>
     else \<lparr>gr_eof = True, gr_read_size = Some 1, gr_attachment = seg_attachment sample_read_env ''z'' 2\<rparr>)"

definition sample_at :: "int \<Rightarrow> string \<Rightarrow> copy_session" where
  "sample_at o' dest = (session_new ''data'' 7 False 3 None)\<lparr>cs_offset := o', cs_count := 2, cs_read_partly := True,
     cs_calling := True, cs_dest := dest\<rparr>"

lemma sample_start: "sample_session = sample_at 0 []"
  by (simp add: sample_session_def send_next_rpc_def sample_copy_env_def session_new_def cs_active_throttle_def sample_at_def Let_def)

lemma sample_serves: "o' \<in> {0, 2} \<Longrightarrow> sample_served (sample_at o' dest) sample_dir = Inr (sample_answer (nat o'))"
  by (auto simp: sample_served_def fs_get_file_def cs_request_def sample_at_def session_new_def sample_service_def
      fr_read_file_def raft_snapshot_meta_file_def mt_get_file_meta_def mt_add_file_def empty_table_def sample_read_env_def
      dr_read_def dr_begin_def dr_finish_def sample_dir_def sample_answer_def Let_def)

lemma sample_bytes:
  "seg_attachment sample_read_env ''xy'' 0 = pack64 (of_nat 0) @ pack32 (of_nat (length ''xy'')) @ ''xy''"
  "seg_attachment sample_read_env ''z'' 2 = pack64 (of_nat 2) @ pack32 (of_nat (length ''z'')) @ ''z''"
  by (rule attachment_bytes; simp add: sample_read_env_def)+

lemma sample_writes:
  "write_segs ok k (gr_attachment (sample_answer 0)) [] = (if ok k then (True, ''xy'') else (False, []))"
  "write_segs ok k (gr_attachment (sample_answer 2)) ''xy'' = (if ok k then (True, ''xyz'') else (False, ''xy''))"
proof -
  have nil: "fd_next [] = (0, 0, [], [])" by (simp add: fd_next_def)
  show "write_segs ok k (gr_attachment (sample_answer 0)) [] = (if ok k then (True, ''xy'') else (False, []))"
    unfolding sample_answer_def using next_segment [of "''xy''" 0]
    by (subst write_segs.simps) (simp add: sample_bytes, subst write_segs.simps, simp add: nil pwrite_def)
  show "write_segs ok k (gr_attachment (sample_answer 2)) ''xy'' = (if ok k then (True, ''xyz'') else (False, ''xy''))"
    unfolding sample_answer_def using next_segment [of "''z''" 2]
    by (subst write_segs.simps) (simp add: sample_bytes, subst write_segs.simps, simp add: nil pwrite_def)
qed

lemma sample_answer_fields:
  "gr_eof (sample_answer 0) = False" "gr_read_size (sample_answer 0) = Some 2"
  "gr_eof (sample_answer 2) = True" "gr_read_size (sample_answer 2) = Some 1"
  by (simp_all add: sample_answer_def)

lemma sample_copy_env_fields:
  "ye_max_byte_count sample_copy_env = 2" "ye_allow_partly sample_copy_env" "ye_write_ok sample_copy_env k"
  "ye_sync_ok sample_copy_env"
  by (simp_all add: sample_copy_env_def)

lemma sample_surplus: "cs_throttle s = None \<Longrightarrow> return_surplus E n s = s"
  by (simp add: return_surplus_def cs_active_throttle_def)

lemma sample_first: "on_rpc_returned sample_copy_env (Inr (sample_answer 0)) (sample_at 0 []) = sample_at 2 ''xy''"
  by (simp add: on_rpc_returned_def rpc_succeeded_def sample_surplus cs_active_throttle_def send_next_rpc_def Let_def
      sample_at_def session_new_def sample_writes sample_answer_fields sample_copy_env_fields)

lemma sample_second:
  "on_rpc_returned sample_copy_env (Inr (sample_answer 2)) (sample_at 2 ''xy'')
   = (sample_at 2 ''xyz'')\<lparr>cs_calling := False, cs_count := 1, cs_has_file := False, cs_finished := True\<rparr>"
  by (simp add: on_rpc_returned_def rpc_succeeded_def sample_surplus cs_on_finished_def Let_def
      sample_at_def session_new_def sample_writes sample_answer_fields sample_copy_env_fields)

lemma sample_answered:
  assumes "copy_run False True ''data'' sample_content (sample_at (int o') dest)" "o' \<in> {0, 2}"
  shows "copy_run False True ''data'' sample_content (on_rpc_returned sample_copy_env (Inr (sample_answer o')) (sample_at (int o') dest))"
proof -
  let ?s = "sample_at (int o') dest"
  obtain res svc' where g0: "fs_get_file sample_read_env (cs_request ?s) (sample_service sample_dir) = (res, svc')" by force
  have "int o' \<in> {0, 2}" using assms(2) by auto
  then have "res = Inr (sample_answer o')" using sample_serves [of "int o'" dest] g0 by (simp only: sample_served_def fst_conv nat_int)
  with g0 have g: "fs_get_file sample_read_env (cs_request ?s) (sample_service sample_dir) = (Inr (sample_answer o'), svc')" by simp
  have mb: "rv_minimal_mb sample_read_env = 0" by (simp add: sample_read_env_def)
  show ?thesis
    by (rule copy_run.answered [OF assms(1) _ _ _ sample_read_env_ok g])
      (use sample_service_ok [OF sample_dir_ok] in \<open>simp_all add: mb sample_step_ok sample_read_env_def sample_at_def session_new_def\<close>)
qed

lemma sample_copy_run:
  "copy_run False True ''data'' sample_content ((sample_at 2 ''xyz'')\<lparr>cs_calling := False, cs_count := 1, cs_has_file := False, cs_finished := True\<rparr>)"
proof -
  have "copy_run False True ''data'' sample_content (sample_at (int 0) [])"
    using copy_run.start [of True sample_copy_env "''data''" 7 False 3 None False sample_content] sample_step_ok
      sample_start by (simp add: sample_session_def session_new_def)
  from sample_answered [OF this] have "copy_run False True ''data'' sample_content (sample_at (int 2) ''xy'')"
    by (simp add: sample_first)
  from sample_answered [OF this] show ?thesis by (simp add: sample_second)
qed

text \<open>
  C34 (functional). Copying a file, or the meta table, from a file service whose readers other requests use
  too, with failed and throttled calls, retries and cancellation: while the session runs it holds a prefix of
  the file and exactly one call or timer is outstanding; when it ends without an error it holds the whole
  file. The conditions: the server's \<open>raft_file_check_hole\<close> is off (with it the zeros at the end of a
  file are lost, file_service.cpp:89), the session's \<open>raft_allow_read_partly_when_install_snapshot\<close> has one
  value while it runs (a change between a call and its return loses the rest of a piece,
  remote_file_copier.cpp:303), the files of the snapshot do not change meanwhile, a piece is asked for with less
  than \<open>2 ^ 32\<close> bytes, and the file's length fits the words that carry it.
\<close>
theorem copied_files_are_whole:
  assumes run: "copy_run hole p f content s" and hole: "\<not> hole" and c: "content f = Some c"
    and len: "length c < 2 ^ 64" "f = raft_snapshot_meta_file \<longrightarrow> length c < 2 ^ 32"
  shows "if cs_finished s then cs_status s = RcOk \<longrightarrow> cs_dest s = c
         else (\<exists>n. cs_dest s = take n c) \<and> (cs_calling s \<noteq> cs_timer s)"
  using copy_run_inv [where content = content and f = f, OF c len, of p s] run hole by (auto simp: copy_inv_def copied_def split: if_splits)

theorem copied_files_are_whole_witness:
  "cs_dest ((sample_at 2 ''xyz'')\<lparr>cs_calling := False, cs_count := 1, cs_has_file := False, cs_finished := True\<rparr>) = ''xyz''"
  using copied_files_are_whole [OF sample_copy_run, of "''xyz''"]
  by (simp add: sample_content_def raft_snapshot_meta_file_def sample_at_def session_new_def)

end
