(* ===== verification/RepeatedTimer.thy ===== *)
theory RepeatedTimer
  imports RaftMessages
begin

section \<open>Repeated timers (repeated_timer_task.cpp, the timers of node.cpp)\<close>

text \<open>
  A timer of a node runs its handler again and again until it is stopped. The timer thread takes the scheduled
  callback and starts a thread, which runs the handler without the lock; the owner may stop, start,
  reset and destroy the timer meanwhile. \<open>rt_pending\<close> says that \<open>_timer\<close> is scheduled
  and has not been taken, which is when \<open>bthread_timer_del\<close> succeeds; \<open>rt_fired\<close> counts the
  callbacks taken whose thread has not got the lock yet and \<open>rt_runs\<close> the threads in the handler. A
  callback whose timer or thread cannot be made runs at once, without the lock: it counts as taken.
  \<open>rt_on_destroys\<close> counts the calls of \<open>on_destroy\<close>, which releases the node, and
  \<open>rt_checks\<close> says that every \<open>CHECK\<close> so far has held.
\<close>

record repeated_timer =
  rt_kind :: timer
  rt_timeout_ms :: int
  rt_next_duetime :: int
  rt_stopped :: bool
  rt_running :: bool
  rt_destroyed :: bool
  rt_invoking :: bool
  rt_first_schedule :: bool
  rt_pending :: bool
  rt_fired :: nat
  rt_runs :: nat
  rt_on_destroys :: nat
  rt_checks :: bool

text \<open>The clock, the random numbers of \<open>butil\<close>, the flag, and whether a timer can be added.\<close>

record timer_env =
  te_now_ms :: int
  te_rand_in :: "int \<Rightarrow> int \<Rightarrow> int"
  te_rand_less_than :: "int \<Rightarrow> int"
  te_max_election_delay_ms :: int
  te_add_ok :: bool

definition rt_new :: "timer \<Rightarrow> repeated_timer" where
  "rt_new k = \<lparr>rt_kind = k, rt_timeout_ms = 0, rt_next_duetime = 0, rt_stopped = True, rt_running = False,
     rt_destroyed = True, rt_invoking = False, rt_first_schedule = True, rt_pending = False, rt_fired = 0,
     rt_runs = 0, rt_on_destroys = 0, rt_checks = True\<rparr>"

definition rt_init :: "int \<Rightarrow> repeated_timer \<Rightarrow> repeated_timer" where
  "rt_init timeout_ms t = t\<lparr>rt_timeout_ms := timeout_ms, rt_destroyed := False, rt_stopped := True,
     rt_running := False, rt_pending := False\<rparr>"

definition rt_check :: "bool \<Rightarrow> repeated_timer \<Rightarrow> repeated_timer" where
  "rt_check b t = t\<lparr>rt_checks := (rt_checks t \<and> b)\<rparr>"

definition random_timeout :: "timer_env \<Rightarrow> int \<Rightarrow> int" where
  "random_timeout E timeout_ms =
     te_rand_in E timeout_ms (timeout_ms + min timeout_ms (te_max_election_delay_ms E))"

definition snapshot_adjust_timeout_ms :: "timer_env \<Rightarrow> bool \<Rightarrow> int \<Rightarrow> int \<times> bool" where
  "snapshot_adjust_timeout_ms E first_schedule timeout_ms =
     (if \<not> first_schedule then (timeout_ms, first_schedule)
      else (if timeout_ms > 0 then te_rand_less_than E timeout_ms + 1 else timeout_ms, False))"

definition adjust_timeout_ms :: "timer_env \<Rightarrow> repeated_timer \<Rightarrow> int \<times> bool" where
  "adjust_timeout_ms E t =
     (case rt_kind t of
        ElectionTimer \<Rightarrow> (random_timeout E (rt_timeout_ms t), rt_first_schedule t)
      | VoteTimer \<Rightarrow> (random_timeout E (rt_timeout_ms t), rt_first_schedule t)
      | StepdownTimer \<Rightarrow> (rt_timeout_ms t, rt_first_schedule t)
      | SnapshotTimer \<Rightarrow> snapshot_adjust_timeout_ms E (rt_first_schedule t) (rt_timeout_ms t))"

definition rt_schedule :: "timer_env \<Rightarrow> repeated_timer \<Rightarrow> repeated_timer" where
  "rt_schedule E t =
     (case adjust_timeout_ms E t of
        (ms, first) \<Rightarrow>
          (let t1 = t\<lparr>rt_next_duetime := te_now_ms E + ms, rt_first_schedule := first\<rparr>
           in if te_add_ok E then t1\<lparr>rt_pending := True\<rparr> else t1\<lparr>rt_fired := rt_fired t1 + 1\<rparr>))"

text \<open>\<open>bthread_timer_del\<close>: whether the callback was still scheduled.\<close>

definition timer_del :: "repeated_timer \<Rightarrow> bool \<times> repeated_timer" where
  "timer_del t = (rt_pending t, t\<lparr>rt_pending := False\<rparr>)"

definition rt_stop :: "repeated_timer \<Rightarrow> repeated_timer" where
  "rt_stop t =
     (if rt_stopped t then t
      else (case timer_del (rt_check (rt_running t) (t\<lparr>rt_stopped := True\<rparr>)) of
              (deleted, t1) \<Rightarrow> if deleted then t1\<lparr>rt_running := False\<rparr> else t1))"

definition rt_start :: "timer_env \<Rightarrow> repeated_timer \<Rightarrow> repeated_timer" where
  "rt_start E t =
     (if rt_destroyed t then t
      else if \<not> rt_stopped t then t
      else (let t1 = t\<lparr>rt_stopped := False\<rparr>
            in if rt_running t1 then t1 else rt_schedule E (t1\<lparr>rt_running := True\<rparr>)))"

definition rt_run_once_now :: "repeated_timer \<Rightarrow> repeated_timer" where
  "rt_run_once_now t =
     (case timer_del t of (deleted, t1) \<Rightarrow> if deleted then t1\<lparr>rt_fired := rt_fired t1 + 1\<rparr> else t1)"

definition rt_reset :: "timer_env \<Rightarrow> repeated_timer \<Rightarrow> repeated_timer" where
  "rt_reset E t =
     (if rt_stopped t then t
      else (case timer_del (rt_check (rt_running t) t) of
              (deleted, t1) \<Rightarrow> if deleted then rt_schedule E t1 else t1))"

definition rt_reset_to :: "timer_env \<Rightarrow> int \<Rightarrow> repeated_timer \<Rightarrow> repeated_timer" where
  "rt_reset_to E timeout_ms t = rt_reset E (t\<lparr>rt_timeout_ms := timeout_ms\<rparr>)"

definition rt_on_destroy :: "repeated_timer \<Rightarrow> repeated_timer" where
  "rt_on_destroy t = t\<lparr>rt_on_destroys := rt_on_destroys t + 1\<rparr>"

definition rt_destroy :: "repeated_timer \<Rightarrow> repeated_timer" where
  "rt_destroy t =
     (if rt_destroyed t then t
      else (let t1 = t\<lparr>rt_destroyed := True\<rparr>
            in if \<not> rt_running t1 then rt_on_destroy (rt_check (rt_stopped t1) t1)
               else if rt_stopped t1 then t1
               else (case timer_del (t1\<lparr>rt_stopped := True\<rparr>) of
                       (deleted, t2) \<Rightarrow> if deleted then rt_on_destroy (t2\<lparr>rt_running := False\<rparr>)
                                        else rt_check (rt_running t2) t2)))"

text \<open>\<open>on_timedout\<close> up to the handler, and what follows the handler.\<close>

definition on_timedout_begin :: "repeated_timer \<Rightarrow> repeated_timer" where
  "on_timedout_begin t = t\<lparr>rt_invoking := True, rt_fired := rt_fired t - 1, rt_runs := rt_runs t + 1\<rparr>"

definition on_timedout_end :: "timer_env \<Rightarrow> repeated_timer \<Rightarrow> repeated_timer" where
  "on_timedout_end E t =
     (let t1 = rt_check (rt_running t) (t\<lparr>rt_invoking := False, rt_runs := rt_runs t - 1\<rparr>)
      in if rt_stopped t1
         then (let t2 = t1\<lparr>rt_running := False\<rparr> in if rt_destroyed t2 then rt_on_destroy t2 else t2)
         else rt_schedule E t1)"

text \<open>The behaviours: an initialised timer and any interleaving of its owner and its threads.\<close>

datatype timer_event =
  TmStart timer_env | TmStop | TmReset timer_env | TmResetTo timer_env int | TmRunOnceNow | TmDestroy
| TmTaken | TmBegin | TmEnd timer_env

inductive timer_step :: "repeated_timer \<Rightarrow> timer_event \<Rightarrow> repeated_timer \<Rightarrow> bool" where
  step_start: "timer_step t (TmStart E) (rt_start E t)"
| step_stop: "timer_step t TmStop (rt_stop t)"
| step_reset: "timer_step t (TmReset E) (rt_reset E t)"
| step_reset_to: "timer_step t (TmResetTo E ms) (rt_reset_to E ms t)"
| step_run_once_now: "timer_step t TmRunOnceNow (rt_run_once_now t)"
| step_destroy: "timer_step t TmDestroy (rt_destroy t)"
| step_taken: "rt_pending t \<Longrightarrow> timer_step t TmTaken (t\<lparr>rt_pending := False, rt_fired := rt_fired t + 1\<rparr>)"
| step_begin: "rt_fired t > 0 \<Longrightarrow> timer_step t TmBegin (on_timedout_begin t)"
| step_end: "rt_runs t > 0 \<Longrightarrow> timer_step t (TmEnd E) (on_timedout_end E t)"

code_pred (modes: i \<Rightarrow> i \<Rightarrow> o \<Rightarrow> bool) timer_step .

inductive_cases timer_step_cases: "timer_step t ev t'"

inductive timer_run :: "timer \<Rightarrow> repeated_timer \<Rightarrow> bool" for k where
  run_init: "timer_run k (rt_init timeout_ms (rt_new k))"
| run_step: "timer_run k t \<Longrightarrow> timer_step t ev t' \<Longrightarrow> timer_run k t'"

subsection \<open>The invariant of a timer\<close>

text \<open>
  Exactly one callback is scheduled, taken or in the handler while the timer is running, none otherwise; a timer
  that is not stopped is running and a destroyed one is stopped.
\<close>

definition timer_inv :: "repeated_timer \<Rightarrow> bool" where
  "timer_inv t \<longleftrightarrow>
     of_bool (rt_pending t) + rt_fired t + rt_runs t = of_bool (rt_running t)
     \<and> rt_invoking t = (rt_runs t > 0) \<and> (rt_pending t \<longrightarrow> \<not> rt_stopped t) \<and> (\<not> rt_stopped t \<longrightarrow> rt_running t)
     \<and> (rt_destroyed t \<longrightarrow> rt_stopped t)
     \<and> rt_on_destroys t = of_bool (rt_destroyed t \<and> \<not> rt_running t) \<and> rt_checks t"

lemma rt_schedule_fields [simp]:
  "rt_stopped (rt_schedule E t) = rt_stopped t" "rt_running (rt_schedule E t) = rt_running t"
  "rt_destroyed (rt_schedule E t) = rt_destroyed t" "rt_invoking (rt_schedule E t) = rt_invoking t"
  "rt_runs (rt_schedule E t) = rt_runs t" "rt_on_destroys (rt_schedule E t) = rt_on_destroys t"
  "rt_checks (rt_schedule E t) = rt_checks t"
  "rt_pending (rt_schedule E t) = (te_add_ok E \<or> rt_pending t)"
  "rt_fired (rt_schedule E t) = (if te_add_ok E then rt_fired t else rt_fired t + 1)"
  by (simp_all add: rt_schedule_def Let_def split: prod.split)

lemmas timer_ops = rt_start_def rt_stop_def rt_reset_def rt_reset_to_def rt_run_once_now_def rt_destroy_def rt_on_destroy_def
  rt_check_def timer_del_def on_timedout_begin_def on_timedout_end_def

lemma timer_step_inv:
  assumes "timer_step t ev t'" and "timer_inv t"
  shows "timer_inv t'"
  using assms
  by (cases rule: timer_step.cases; cases "rt_running t")
    (auto simp: timer_inv_def timer_ops Let_def split: if_splits)

lemma timer_run_inv: "timer_run k t \<Longrightarrow> timer_inv t"
proof (induction rule: timer_run.induct)
  case (run_init timeout_ms)
  then show ?case by (simp add: timer_inv_def rt_init_def rt_new_def)
next
  case (run_step t ev t')
  then show ?case by (blast intro: timer_step_inv)
qed

text \<open>What is left after the owner is done: the callback that is out runs to its end.\<close>

definition let_callback_end :: "timer_env \<Rightarrow> repeated_timer \<Rightarrow> repeated_timer" where
  "let_callback_end E t =
     (if rt_fired t > 0 then on_timedout_end E (on_timedout_begin t)
      else if rt_runs t > 0 then on_timedout_end E t else t)"

lemma destroyed_ends:
  assumes "timer_inv t" and "rt_destroyed t"
  shows "rt_on_destroys (let_callback_end E t) = 1" and "\<not> rt_running (let_callback_end E t)"
  using assms by (cases "rt_running t"; auto simp: timer_inv_def let_callback_end_def timer_ops Let_def split: if_splits)+

lemma schedule_within:
  assumes rand: "\<And>lo hi. lo \<le> hi \<Longrightarrow> lo \<le> te_rand_in E lo hi \<and> te_rand_in E lo hi \<le> hi"
    and less: "\<And>n. 0 < n \<Longrightarrow> 0 \<le> te_rand_less_than E n \<and> te_rand_less_than E n < n"
    and "0 \<le> rt_timeout_ms t" "0 \<le> te_max_election_delay_ms E"
  shows "te_now_ms E \<le> rt_next_duetime (rt_schedule E t)"
    and "rt_next_duetime (rt_schedule E t) \<le> te_now_ms E + 2 * rt_timeout_ms t"
proof -
  let ?ms = "fst (adjust_timeout_ms E t)"
  have "0 \<le> ?ms \<and> ?ms \<le> 2 * rt_timeout_ms t"
    using rand [of "rt_timeout_ms t" "rt_timeout_ms t + min (rt_timeout_ms t) (te_max_election_delay_ms E)"]
      less [of "rt_timeout_ms t"] assms(3,4)
    by (auto simp: adjust_timeout_ms_def random_timeout_def snapshot_adjust_timeout_ms_def split: timer.splits)
  then show "te_now_ms E \<le> rt_next_duetime (rt_schedule E t)"
    and "rt_next_duetime (rt_schedule E t) \<le> te_now_ms E + 2 * rt_timeout_ms t"
    by (cases "adjust_timeout_ms E t"; simp add: rt_schedule_def Let_def)+
qed

subsection \<open>Property of the timers\<close>

definition sample_timer_env :: timer_env where
  "sample_timer_env = \<lparr>te_now_ms = 100, te_rand_in = (\<lambda>lo hi. lo), te_rand_less_than = (\<lambda>n. 0),
     te_max_election_delay_ms = 1000, te_add_ok = True\<rparr>"

text \<open>A timer that its owner destroys while the handler runs.\<close>

definition sample_timer :: repeated_timer where
  "sample_timer = rt_destroy (on_timedout_begin ((rt_start sample_timer_env (rt_init 10 (rt_new ElectionTimer)))
     \<lparr>rt_pending := False, rt_fired := 1\<rparr>))"

lemma sample_timer_run: "timer_run ElectionTimer sample_timer"
proof -
  let ?t = "rt_start sample_timer_env (rt_init 10 (rt_new ElectionTimer))"
  have p: "rt_pending ?t" "rt_fired ?t = 0"
    by (simp_all add: rt_start_def rt_init_def rt_new_def sample_timer_env_def)
  have "timer_run ElectionTimer ?t"
    by (rule run_step [OF run_init step_start])
  from run_step [OF this step_taken [OF p(1)]]
  have "timer_run ElectionTimer (?t\<lparr>rt_pending := False, rt_fired := 1\<rparr>)"
    by (simp add: p(2))
  from run_step [OF this step_begin] run_step [OF _ step_destroy] show ?thesis
    by (fastforce simp: sample_timer_def)
qed

text \<open>
  C21. Over all interleavings of the owner of a timer with the threads that run its handler: no \<open>CHECK\<close>
  of the code fails; the handler never runs twice at a time; a timer that is not stopped always has
  exactly one callback scheduled, taken or running, so it goes on; and once it is destroyed the handler runs
  at most to the end of the callback that is out, after which \<open>on_destroy\<close> has run exactly once.
\<close>
theorem timers_go_on_and_end_once:
  assumes "timer_run k t"
  shows "rt_checks t \<and> rt_runs t \<le> 1
    \<and> (\<not> rt_stopped t \<longrightarrow> of_bool (rt_pending t) + rt_fired t + rt_runs t = 1)
    \<and> rt_on_destroys t = of_bool (rt_destroyed t \<and> \<not> rt_pending t \<and> rt_fired t = 0 \<and> rt_runs t = 0)
    \<and> (rt_destroyed t \<longrightarrow> rt_on_destroys (let_callback_end E t) = 1 \<and> \<not> rt_running (let_callback_end E t))"
proof -
  have inv: "timer_inv t" using assms by (rule timer_run_inv)
  have "rt_runs t \<le> 1" "rt_running t = (rt_pending t \<or> rt_fired t > 0 \<or> rt_runs t > 0)"
    using inv by (cases "rt_running t"; auto simp: timer_inv_def)+
  then show ?thesis
    using inv destroyed_ends [OF inv, of E] by (auto simp: timer_inv_def)
qed

theorem timers_go_on_and_end_once_witness:
  "rt_on_destroys sample_timer = 0 \<and> rt_on_destroys (let_callback_end sample_timer_env sample_timer) = 1"
  using timers_go_on_and_end_once [OF sample_timer_run, of sample_timer_env]
  by (simp add: sample_timer_def rt_start_def rt_init_def rt_new_def rt_destroy_def on_timedout_begin_def
      rt_schedule_def sample_timer_env_def timer_del_def rt_check_def adjust_timeout_ms_def)

end
