(* ===== verification/NodeBootstrap.thy ===== *)
theory NodeBootstrap
  imports NodeMisc SampleNode
begin

section \<open>Bootstrapping a node (node.cpp: NodeImpl::bootstrap)\<close>

text \<open>
  Before a group starts, \<open>bootstrap\<close> gives each of its members a log whose first entry is the configuration
  of the group, after a snapshot of the data the state machine holds already, if there is any. The options
  hold, beside what the caller gives, the outcome of the FSM caller's start, of the start of the snapshot executor
  (which may load a snapshot) and of the saving of the snapshot; what the saving does to the log is modelled. A
  failed \<open>CHECK\<close> is not. A snapshot uri is taken to be given: with a last index and an empty uri the code
  calls \<open>do_snapshot\<close> on an executor it has not made (node.cpp:461).
\<close>

record ('s, 'c) boot_options =
  bo_group_conf :: conf
  bo_last_log_index :: int
  bo_has_fsm :: bool
  bo_fsm_ok :: bool
  bo_init_snapshot :: "('s, 'c) world \<Rightarrow> bool \<times> ('s, 'c) world"
  bo_min_index_gap :: int
  bo_save_status :: rc
  bo_max_append_buffer_size :: nat

definition boot_snapshot_meta :: "('s, 'm, 'c) node_env \<Rightarrow> log_id \<Rightarrow> ('s, 'd, 'w) log_manager \<Rightarrow> snapshot_meta" where
  "boot_snapshot_meta E applied lm =
     (let conf_entry = lm_get_configuration (lid_index applied) lm;
          print = map (peer_to_string (re_endpoint2str (ne_repl E)))
      in \<lparr>sm_last_included_index = lid_index applied, sm_last_included_term = lid_term applied,
          sm_peers = print (ce_conf conf_entry), sm_old_peers = print (ce_old_conf conf_entry)\<rparr>)"

text \<open>
  \<open>init_snapshot_storage\<close>, then \<open>do_snapshot\<close>. The FSM caller stands at \<open>id\<close>, or at the snapshot
  that was loaded.
\<close>

definition boot_snapshot ::
  "('s, 'm, 'c) node_env \<Rightarrow> ('s, 'c) boot_options \<Rightarrow> log_id \<Rightarrow> ('s, 'm, 'c) node \<Rightarrow> bool \<times> ('s, 'm, 'c) node" where
  "boot_snapshot E opts lid n =
     (case bo_init_snapshot opts (nd_w n) of
        (ok, w) \<Rightarrow>
          (let n1 = n\<lparr>nd_w := w\<rparr>; lm = w_lm w; last = lm_last_snapshot_id lm;
               applied = (if lid_index last \<noteq> 0 then last else lid);
               put = (\<lambda>lm. on_w (\<lambda>w. w\<lparr>w_lm := lm\<rparr>) n1)
           in if \<not> ok then (False, n1)
              else if lid_index applied - lid_index last < bo_min_index_gap opts then (True, put (lm_clear_bufferred_logs lm))
              else if bo_save_status opts \<noteq> RcOk then (False, n1)
              else (True, put (lm_set_snapshot (ne_storage E) (ne_str2ip E) (boot_snapshot_meta E applied lm) lm))))"

text \<open>
  The first entry is appended and the caller waits for the disk thread. Its closure is the only one of the log
  manager.
\<close>

definition boot_written :: "(stable_done, 'w) lm_event list \<Rightarrow> bool" where
  "boot_written evs = list_ex (\<lambda>ev. case ev of LmRun BootstrapStable i st \<Rightarrow> st = StatusOK | _ \<Rightarrow> False) evs"

definition boot_append ::
  "('s, 'm, 'c) node_env \<Rightarrow> ('s, 'c) boot_options \<Rightarrow> ('s, 'm, 'c) node \<Rightarrow> rc \<times> ('s, 'm, 'c) node" where
  "boot_append E opts n =
     (let entry = configuration_entry (nd_current_term n) (bo_group_conf opts) None;
          (lm1, ev1) = lm_append_entries (ne_storage E) [entry] BootstrapStable (w_lm (nd_w n));
          (lm2, ev2) = lm_disk_thread (ne_storage E) (bo_max_append_buffer_size opts) (length (lm_disk_queue lm1)) lm1;
          n1 = nd_emit (map FxLm (ev1 @ ev2)) (on_w (\<lambda>w. w\<lparr>w_lm := lm2\<rparr>) n)
      in (if boot_written (ev1 @ ev2) then RcOk else RcFail, n1))"

text \<open>With a stored term of 0 the code stores term 1 and returns -1, also when it could store it.\<close>

definition node_bootstrap ::
  "('s, 'm, 'c) node_env \<Rightarrow> ('s, 'c) boot_options \<Rightarrow> ('s, 'm, 'c) node \<Rightarrow> rc \<times> ('s, 'm, 'c) node" where
  "node_bootstrap E opts n =
     (if bo_last_log_index opts > 0 \<and> (bo_group_conf opts = [] \<or> \<not> bo_has_fsm opts) then (RcFail, n)
      else if bo_group_conf opts = [] then (RcFail, n)
      else
        (let boot_id = LogId (bo_last_log_index opts) (if bo_last_log_index opts \<noteq> 0 then 1 else 0);
             (rc, lm) = lm_init (ne_storage E) (log_manager_new (lm_storage (w_lm (nd_w n))) config_manager_new);
             n1 = on_w (\<lambda>w. w\<lparr>w_lm := lm\<rparr>) n
         in if rc \<noteq> RcOk then (RcFail, n1)
            else case init_meta_storage E n1 of
                   (rc, n2) \<Rightarrow>
                     if rc \<noteq> RcOk then (RcFail, n2)
                     else if nd_current_term n2 = 0
                     then (RcFail, snd (save_meta E 1 empty_peer (n2\<lparr>nd_current_term := 1\<rparr>)))
                     else if bo_has_fsm opts \<and> \<not> bo_fsm_ok opts then (RcFail, n2)
                     else (case (if bo_last_log_index opts > 0 then boot_snapshot E opts boot_id n2 else (True, n2)) of
                             (ok, n3) \<Rightarrow> if \<not> ok then (RcFail, n3) else boot_append E opts n3)))"

subsection \<open>What a bootstrapped node holds\<close>

text \<open>
  \<open>boot_lm k\<close>: the log manager of an empty log, and after a snapshot at \<open>k\<close>.
\<close>

definition boot_lm :: "int \<Rightarrow> config_manager \<Rightarrow> (mem_log, stable_done, nat) log_manager" where
  "boot_lm k cm = (log_manager_new mem_log_new cm)\<lparr>lm_first := k + 1, lm_last := k,
     lm_last_snapshot_id := (if k = 0 then LogId 0 0 else LogId k 1),
     lm_applied_id := (if k = 0 then LogId 0 0 else LogId k 1),
     lm_virtual_first := (if k = 0 then LogId 0 0 else LogId k 1),
     lm_disk_queue := (if k = 0 then [] else [DiskTruncatePrefix (k + 1)])\<rparr>"

lemma boot_lm_init:
  "lm_init mem_ops (log_manager_new mem_log_new config_manager_new) = (RcOk, boot_lm 0 config_manager_new)"
  by (simp add: lm_init_def ml_init_def log_manager_new_def mem_log_new_def boot_lm_def ml_get_term_def Let_def)

lemma boot_lm_snapshot:
  assumes "k > 0" "sm_last_included_index meta = k" "sm_last_included_term meta = 1"
  shows "\<exists>cm. lm_set_snapshot mem_ops str2ip meta (boot_lm 0 config_manager_new) = boot_lm k cm"
  using assms
  by (auto simp: lm_set_snapshot_def boot_lm_def log_manager_new_def mem_log_new_def Let_def lm_unsafe_get_term_def
      lm_truncate_prefix_def less_log_id_def lid_lt_def)

definition boot_entry :: "int \<Rightarrow> int \<Rightarrow> conf \<Rightarrow> log_entry" where
  "boot_entry k t c = (configuration_entry t c None)\<lparr>e_id := LogId (k + 1) t\<rparr>"

lemma boot_lm_append:
  "\<exists>lm1. lm_append_entries mem_ops [configuration_entry t c None] BootstrapStable (boot_lm k cm) = (lm1, [])
     \<and> lm_disk_queue lm1 = lm_disk_queue (boot_lm k cm) @ [DiskEntries BootstrapStable (k + 1) [boot_entry k t c]]
     \<and> lm_storage lm1 = mem_log_new \<and> \<not> lm_has_error lm1 \<and> lm_last_snapshot_id lm1 = lm_last_snapshot_id (boot_lm k cm)"
  by (simp add: lm_append_entries_def boot_lm_def log_manager_new_def lm_check_and_resolve_conflict_def
      configuration_entry_def lm_wakeup_all_waiter_def boot_entry_def Let_def)

lemma boot_disk_thread:
  assumes "lm_disk_queue lm = (if k = 0 then [] else [DiskTruncatePrefix (k + 1)])
      @ [DiskEntries BootstrapStable (k + 1) [boot_entry k t c]]" "lm_storage lm = mem_log_new" "\<not> lm_has_error lm" "0 \<le> k"
  shows "\<exists>lm2. lm_disk_thread mem_ops b (length (lm_disk_queue lm)) lm = (lm2, [LmRun BootstrapStable (k + 1) StatusOK])
     \<and> lm_storage lm2 = \<lparr>ml_first = k + 1, ml_last = k + 1, ml_data = [boot_entry k t c]\<rparr>
     \<and> lm_last_snapshot_id lm2 = lm_last_snapshot_id lm"
  using assms
  by (auto simp: lm_disk_thread_def lm_disk_task_def ab_new_def ab_flush_def ab_append_def lm_storage_op_def
      ml_truncate_prefix_def mem_log_new_def lm_append_to_storage_def ml_append_entries_def ml_append_entry_def
      boot_entry_def lm_set_disk_id_def lm_clear_memory_logs_def Let_def)

lemma boot_append_spec:
  assumes lm: "w_lm (nd_w n) = boot_lm k cm" and "0 \<le> k" and E: "ne_storage E = mem_ops"
    and app: "boot_append E opts n = (rc, n')"
  shows "rc = RcOk" and "lm_storage (w_lm (nd_w n')) = \<lparr>ml_first = k + 1, ml_last = k + 1,
       ml_data = [boot_entry k (nd_current_term n) (bo_group_conf opts)]\<rparr>"
    and "lm_last_snapshot_id (w_lm (nd_w n')) = (if k = 0 then LogId 0 0 else LogId k 1)"
    and "nd_current_term n' = nd_current_term n" and "nd_meta n' = nd_meta n"
proof -
  obtain lm1 where lm1: "lm_append_entries mem_ops [configuration_entry (nd_current_term n) (bo_group_conf opts) None]
        BootstrapStable (boot_lm k cm) = (lm1, [])"
      "lm_disk_queue lm1 = lm_disk_queue (boot_lm k cm)
         @ [DiskEntries BootstrapStable (k + 1) [boot_entry k (nd_current_term n) (bo_group_conf opts)]]"
      "lm_storage lm1 = mem_log_new" "\<not> lm_has_error lm1" "lm_last_snapshot_id lm1 = lm_last_snapshot_id (boot_lm k cm)"
    using boot_lm_append by blast
  have "lm_disk_queue (boot_lm k cm) = (if k = 0 then [] else [DiskTruncatePrefix (k + 1)])"
    by (simp add: boot_lm_def)
  with boot_disk_thread [OF _ lm1(3,4) \<open>0 \<le> k\<close>, of "nd_current_term n" "bo_group_conf opts" "bo_max_append_buffer_size opts"] lm1(2)
  obtain lm2 where lm2: "lm_disk_thread mem_ops (bo_max_append_buffer_size opts) (length (lm_disk_queue lm1)) lm1
        = (lm2, [LmRun BootstrapStable (k + 1) StatusOK])"
      "lm_storage lm2 = \<lparr>ml_first = k + 1, ml_last = k + 1,
         ml_data = [boot_entry k (nd_current_term n) (bo_group_conf opts)]\<rparr>"
      "lm_last_snapshot_id lm2 = lm_last_snapshot_id lm1"
    by auto
  have "(rc, n') = (RcOk, nd_emit (map FxLm [LmRun BootstrapStable (k + 1) StatusOK]) (on_w (\<lambda>w. w\<lparr>w_lm := lm2\<rparr>) n))"
    using app unfolding boot_append_def E lm Let_def lm1(1) case_prod_conv append_Nil lm2(1) by (simp add: boot_written_def)
  then show "rc = RcOk" and "lm_storage (w_lm (nd_w n')) = \<lparr>ml_first = k + 1, ml_last = k + 1,
       ml_data = [boot_entry k (nd_current_term n) (bo_group_conf opts)]\<rparr>"
    and "lm_last_snapshot_id (w_lm (nd_w n')) = (if k = 0 then LogId 0 0 else LogId k 1)"
    and "nd_current_term n' = nd_current_term n" and "nd_meta n' = nd_meta n"
    using lm2(2,3) lm1(5) by (simp_all add: nd_emit_def on_w_def emit_def boot_lm_def)
qed

lemma boot_snapshot_spec:
  assumes lm: "w_lm (nd_w n) = boot_lm 0 config_manager_new" and E: "ne_storage E = mem_ops"
    and k: "0 < k" "bo_min_index_gap opts \<le> k" and init: "\<And>w. bo_init_snapshot opts w = (snapshot_ok, w)"
    and snap: "boot_snapshot E opts (LogId k 1) n = (ok, n')"
  shows "ok = (snapshot_ok \<and> bo_save_status opts = RcOk)"
    and "w_lm (nd_w n') = (if ok then w_lm (nd_w n') else boot_lm 0 config_manager_new)"
    and "ok \<Longrightarrow> \<exists>cm. w_lm (nd_w n') = boot_lm k cm"
    and "nd_current_term n' = nd_current_term n"
proof -
  let ?lm = "boot_lm 0 config_manager_new" and ?meta = "boot_snapshot_meta E (LogId k 1) (boot_lm 0 config_manager_new)"
  have none: "lm_last_snapshot_id ?lm = LogId 0 0" by (simp add: boot_lm_def)
  have meta: "sm_last_included_index ?meta = k" "sm_last_included_term ?meta = 1"
    by (simp_all add: boot_snapshot_meta_def Let_def)
  have run: "(ok, n') = (if snapshot_ok \<and> bo_save_status opts = RcOk
      then (True, on_w (\<lambda>w. w\<lparr>w_lm := lm_set_snapshot mem_ops (ne_str2ip E) ?meta ?lm\<rparr>) n) else (False, n))"
    using snap k by (simp add: boot_snapshot_def init lm none E Let_def split: if_splits)
  show "ok = (snapshot_ok \<and> bo_save_status opts = RcOk)" "nd_current_term n' = nd_current_term n"
    "w_lm (nd_w n') = (if ok then w_lm (nd_w n') else ?lm)"
    using run lm by (auto simp: on_w_def split: if_splits)
  show "\<exists>cm. w_lm (nd_w n') = boot_lm k cm" if ok
  proof -
    obtain cm where "lm_set_snapshot mem_ops (ne_str2ip E) ?meta ?lm = boot_lm k cm"
      using boot_lm_snapshot [OF k(1) meta] by blast
    then show ?thesis using run that by (auto simp: on_w_def split: if_splits)
  qed
qed

lemma boot_meta:
  assumes "ne_storage E = mem_ops" "w_lm (nd_w n) = boot_lm 0 config_manager_new"
    and "ne_meta_init E (nd_meta n) = (StatusOK, m)" "ne_meta_get E m = (StatusOK, term, v)" "0 \<le> term"
  shows "init_meta_storage E n = (RcOk, n\<lparr>nd_meta := m, nd_current_term := term, nd_voted_id := v\<rparr>)"
  using assms by (simp add: init_meta_storage_def lm_last_log_id_def boot_lm_def Let_def)

lemma save_meta_w: "nd_w (snd (save_meta E t p n)) = nd_w n"
  by (simp add: save_meta_def split: prod.split)

text \<open>With valid arguments: the node after the meta storage is loaded, and what is left.\<close>

definition boot_loaded :: "'m \<Rightarrow> int \<Rightarrow> peer_id \<Rightarrow> (mem_log, 'm, 'c) node \<Rightarrow> (mem_log, 'm, 'c) node" where
  "boot_loaded m term v n = (on_w (\<lambda>w. w\<lparr>w_lm := boot_lm 0 config_manager_new\<rparr>) n)
     \<lparr>nd_meta := m, nd_current_term := term, nd_voted_id := v\<rparr>"

lemma boot_loaded_fields:
  "w_lm (nd_w (boot_loaded m term v n)) = boot_lm 0 config_manager_new" "nd_current_term (boot_loaded m term v n) = term"
  "ml_data (lm_storage (boot_lm 0 config_manager_new)) = []"
  by (simp_all add: boot_loaded_def on_w_def boot_lm_def log_manager_new_def mem_log_new_def)

lemma node_bootstrap_steps:
  assumes E: "ne_storage E = mem_ops" and empty: "lm_storage (w_lm (nd_w n)) = mem_log_new"
    and meta: "ne_meta_init E (nd_meta n) = (StatusOK, m)" "ne_meta_get E m = (StatusOK, term, v)" "0 \<le> term"
    and k: "k = bo_last_log_index opts" and g: "bo_group_conf opts \<noteq> []" "k > 0 \<longrightarrow> bo_has_fsm opts"
  shows "node_bootstrap E opts n =
     (let n2 = boot_loaded m term v n
      in if term = 0 then (RcFail, snd (save_meta E 1 empty_peer (n2\<lparr>nd_current_term := 1\<rparr>)))
         else if bo_has_fsm opts \<and> \<not> bo_fsm_ok opts then (RcFail, n2)
         else (case (if k > 0 then boot_snapshot E opts (LogId k (if k \<noteq> 0 then 1 else 0)) n2 else (True, n2)) of
                 (ok, n3) \<Rightarrow> if \<not> ok then (RcFail, n3) else boot_append E opts n3))"
proof -
  let ?n1 = "on_w (\<lambda>w. w\<lparr>w_lm := boot_lm 0 config_manager_new\<rparr>) n"
  have lm: "w_lm (nd_w ?n1) = boot_lm 0 config_manager_new" "nd_meta ?n1 = nd_meta n" by (simp_all add: on_w_def)
  have im: "init_meta_storage E ?n1 = (RcOk, boot_loaded m term v n)"
    using boot_meta [OF E lm(1) _ meta(2,3)] meta(1) lm(2) by (simp add: boot_loaded_def)
  have g': "\<not> (k > 0 \<and> (bo_group_conf opts = [] \<or> \<not> bo_has_fsm opts))"
    using g by auto
  show ?thesis
    unfolding node_bootstrap_def k [symmetric] if_not_P [OF g'] if_not_P [OF g(1)] Let_def E empty boot_lm_init
      case_prod_conv im boot_loaded_fields(2) by simp
qed

subsection \<open>Property of the bootstrap\<close>

text \<open>
  C29. Bootstrapping on an empty log, without an older snapshot, succeeds exactly if there is a configuration, a
  term other than 0 is stored, and the state machine, if any, starts and saves a snapshot where a last index
  is given. Then the log on disk holds one entry, the configuration at the index after the last one,
  in the stored term, and the last snapshot, if one was asked for, is at the last index in term 1. Otherwise the log
  holds nothing.
\<close>
theorem bootstrap_writes_first_entry:
  assumes E: "ne_storage E = mem_ops" and empty: "lm_storage (w_lm (nd_w n)) = mem_log_new"
    and meta: "ne_meta_init E (nd_meta n) = (StatusOK, m)" "ne_meta_get E m = (StatusOK, term, v)" "0 \<le> term"
    and k: "k = bo_last_log_index opts" "0 \<le> k" "bo_min_index_gap opts \<le> max 1 k"
    and init: "\<And>w. bo_init_snapshot opts w = (snapshot_ok, w)"
    and boot: "node_bootstrap E opts n = (rc, n')"
  shows "(rc = RcOk) = (bo_group_conf opts \<noteq> [] \<and> term \<noteq> 0 \<and> (bo_has_fsm opts \<longrightarrow> bo_fsm_ok opts)
             \<and> (k > 0 \<longrightarrow> bo_has_fsm opts \<and> snapshot_ok \<and> bo_save_status opts = RcOk))
    \<and> (if rc = RcOk
       then ml_data (lm_storage (w_lm (nd_w n'))) = [(configuration_entry term (bo_group_conf opts) None)\<lparr>e_id := LogId (k + 1) term\<rparr>]
         \<and> ml_first (lm_storage (w_lm (nd_w n'))) = k + 1
         \<and> lm_last_snapshot_id (w_lm (nd_w n')) = (if k = 0 then LogId 0 0 else LogId k 1)
       else ml_data (lm_storage (w_lm (nd_w n'))) = [])"
proof (cases "bo_group_conf opts = [] \<or> k > 0 \<and> \<not> bo_has_fsm opts")
  case True
  then have "rc = RcFail" "n' = n" using boot k(1) by (auto simp: node_bootstrap_def split: if_splits)
  with True empty show ?thesis by (auto simp: mem_log_new_def)
next
  case False
  define n2 where "n2 = boot_loaded m term v n"
  note sto = boot_loaded_fields(3)
  have n2: "w_lm (nd_w n2) = boot_lm 0 config_manager_new" "nd_current_term n2 = term" by (simp_all add: n2_def boot_loaded_fields)
  have run: "(rc, n') = (if term = 0 then (RcFail, snd (save_meta E 1 empty_peer (n2\<lparr>nd_current_term := 1\<rparr>)))
      else if bo_has_fsm opts \<and> \<not> bo_fsm_ok opts then (RcFail, n2)
      else (case (if k > 0 then boot_snapshot E opts (LogId k (if k \<noteq> 0 then 1 else 0)) n2 else (True, n2)) of
              (ok, n3) \<Rightarrow> if \<not> ok then (RcFail, n3) else boot_append E opts n3))"
    using boot node_bootstrap_steps [OF E empty meta k(1)] False by (simp add: n2_def Let_def)
  consider "term = 0 \<or> bo_has_fsm opts \<and> \<not> bo_fsm_ok opts" | "term \<noteq> 0" "bo_has_fsm opts \<longrightarrow> bo_fsm_ok opts" by blast
  then show ?thesis
  proof cases
    case 1
    then have "rc = RcFail" "nd_w n' = nd_w n2" using run by (auto simp: save_meta_w split: if_splits)
    with 1 n2(1) sto show ?thesis by auto
  next
    case 2
    obtain ok n3 where n3: "(if k > 0 then boot_snapshot E opts (LogId k (if k \<noteq> 0 then 1 else 0)) n2 else (True, n2)) = (ok, n3)"
      by fastforce
    have snap: "ok = (k > 0 \<longrightarrow> snapshot_ok \<and> bo_save_status opts = RcOk)" "nd_current_term n3 = term"
      "\<not> ok \<Longrightarrow> w_lm (nd_w n3) = boot_lm 0 config_manager_new" "ok \<Longrightarrow> \<exists>cm. w_lm (nd_w n3) = boot_lm k cm"
      using boot_snapshot_spec [OF n2(1) E _ _ init, of k ok n3] n3 k n2 by (auto split: if_splits)
    show ?thesis
    proof (cases ok)
      case False': False
      have "rc = RcFail" "n' = n3" using run 2 n3 False' by auto
      with snap False' sto show ?thesis by auto
    next
      case True
      then obtain cm where cm: "w_lm (nd_w n3) = boot_lm k cm" using snap by blast
      have ap: "boot_append E opts n3 = (rc, n')" using run 2 n3 True by auto
      note spec = boot_append_spec [OF cm k(2) E ap]
      show ?thesis using spec(1-3) snap True 2 False by (auto simp: boot_entry_def)
    qed
  qed
qed

definition sample_boot_options :: "(mem_log, nat) boot_options" where
  "sample_boot_options = \<lparr>bo_group_conf = [sample_peer 1, sample_peer 2], bo_last_log_index = 9, bo_has_fsm = True,
     bo_fsm_ok = True, bo_init_snapshot = (\<lambda>w. (True, w)), bo_min_index_gap = 1, bo_save_status = RcOk,
     bo_max_append_buffer_size = 1024\<rparr>"

definition sample_boot :: "rc \<times> (mem_log, single_meta, nat) node" where
  "sample_boot = node_bootstrap sample_node_env sample_boot_options (node_new [] empty_peer mem_log_new (fm_reopen sample_fresh_meta))"

theorem bootstrap_writes_first_entry_witness:
  "ml_first (lm_storage (w_lm (nd_w (snd sample_boot)))) = 10 \<and> lm_last_snapshot_id (w_lm (nd_w (snd sample_boot))) = LogId 9 1"
proof -
  have meta: "fm_init sample_meta_env (fm_reopen sample_fresh_meta) = (StatusOK, (fm_reopen sample_fresh_meta)\<lparr>fm_is_inited := True\<rparr>)"
    by (simp add: fm_init_def fm_reopen_def fm_load_def pb_load_def sample_fresh_meta_def single_meta_new_def)
  have get: "fm_get_term_and_votedfor ((fm_reopen sample_fresh_meta)\<lparr>fm_is_inited := True\<rparr>) = (StatusOK, 1, empty_peer)"
    by (simp add: fm_get_term_and_votedfor_def fm_reopen_def sample_fresh_meta_def single_meta_new_def)
  have "node_bootstrap sample_node_env sample_boot_options (node_new [] empty_peer mem_log_new (fm_reopen sample_fresh_meta))
      = (fst sample_boot, snd sample_boot)" by (simp add: sample_boot_def)
  from bootstrap_writes_first_entry [OF _ _ _ _ _ refl _ _ _ this, of _ 1 empty_peer True] show ?thesis
    using meta get by (simp add: node_new_def world_new_def log_manager_new_def sample_boot_options_def)
qed

end
