(* ===== verification/NodeManager.thy ===== *)
theory NodeManager
  imports SampleNode "HOL-Library.Char_ord" "HOL-Library.List_Lexorder"
begin

section \<open>The registry of nodes and the raft service (node_manager.cpp, raft_service.cpp)\<close>

text \<open>
  A process may run many nodes, of one group or of several; a pointer to a node is a number here, and
  \<open>nid\<close> gives the id of the node it points to. The manager finds nodes by their id (\<open>node_map\<close>) and by
  their group (\<open>group_map\<close>, a multimap in the order of the groups), and remembers the addresses on which
  the raft services are attached. The raft service hands a request to the node it names.
\<close>

record node_manager =
  nm_node_map :: "string \<times> peer_key \<Rightarrow> nat option"
  nm_group_map :: "(string \<times> nat) list"
  nm_addrs :: "endpoint list"

definition node_manager_new :: node_manager where
  "node_manager_new = \<lparr>nm_node_map = (\<lambda>k. None), nm_group_map = [], nm_addrs = []\<rparr>"

definition node_key :: "node_id \<Rightarrow> string \<times> peer_key" where
  "node_key x = (group_id x, pkey (node_peer x))"

subsection \<open>Addresses\<close>

definition server_exists :: "endpoint \<Rightarrow> node_manager \<Rightarrow> bool" where
  "server_exists a m =
     (if ep_ip a \<noteq> 0 \<and> EndPoint 0 (ep_port a) \<in> set (nm_addrs m) then True else a \<in> set (nm_addrs m))"

definition remove_address :: "endpoint \<Rightarrow> node_manager \<Rightarrow> node_manager" where
  "remove_address a m = m\<lparr>nm_addrs := removeAll a (nm_addrs m)\<rparr>"

text \<open>\<open>added\<close> is the outcome of adding the file, raft, statistics and cli services to the server.\<close>

definition add_service :: "bool \<Rightarrow> bool list \<Rightarrow> endpoint \<Rightarrow> node_manager \<Rightarrow> rc \<times> node_manager" where
  "add_service has_server added a m =
     (if \<not> has_server then (RcFail, m)
      else if server_exists a m then (RcOk, m)
      else if \<not> list_all (\<lambda>ok. ok) added then (RcFail, m)
      else (RcOk, m\<lparr>nm_addrs := List.insert a (nm_addrs m)\<rparr>))"

subsection \<open>Nodes\<close>

definition multimap_insert :: "string \<Rightarrow> nat \<Rightarrow> (string \<times> nat) list \<Rightarrow> (string \<times> nat) list" where
  "multimap_insert g i xs = takeWhile (\<lambda>(h, j). h \<le> g) xs @ (g, i) # dropWhile (\<lambda>(h, j). h \<le> g) xs"

definition nm_add_node :: "(nat \<Rightarrow> node_id) \<Rightarrow> nat \<Rightarrow> node_manager \<Rightarrow> nat \<times> node_manager" where
  "nm_add_node nid i m =
     (if nm_node_map m (node_key (nid i)) = None
      then (1, m\<lparr>nm_node_map := (nm_node_map m)(node_key (nid i) \<mapsto> i),
                 nm_group_map := multimap_insert (group_id (nid i)) i (nm_group_map m)\<rparr>)
      else (0, m))"

text \<open>The last branch is a \<open>CHECK\<close> that cannot fail.\<close>

definition nm_remove_node :: "(nat \<Rightarrow> node_id) \<Rightarrow> nat \<Rightarrow> node_manager \<Rightarrow> nat \<times> node_manager" where
  "nm_remove_node nid i m =
     (if nm_node_map m (node_key (nid i)) \<noteq> Some i then (0, m)
      else (let m1 = m\<lparr>nm_node_map := (nm_node_map m)(node_key (nid i) := None)\<rparr>
            in if (group_id (nid i), i) \<in> set (nm_group_map m1)
               then (1, m1\<lparr>nm_group_map := remove1 (group_id (nid i), i) (nm_group_map m1)\<rparr>)
               else (0, m1)))"

definition nm_add :: "(nat \<Rightarrow> node_id) \<Rightarrow> nat \<Rightarrow> node_manager \<Rightarrow> bool \<times> node_manager" where
  "nm_add nid i m =
     (if \<not> server_exists (addr (node_peer (nid i))) m then (False, m)
      else (case nm_add_node nid i m of (k, m1) \<Rightarrow> (k \<noteq> 0, m1)))"

definition nm_remove :: "(nat \<Rightarrow> node_id) \<Rightarrow> nat \<Rightarrow> node_manager \<Rightarrow> bool \<times> node_manager" where
  "nm_remove nid i m = (case nm_remove_node nid i m of (k, m1) \<Rightarrow> (k \<noteq> 0, m1))"

definition nm_get :: "string \<Rightarrow> peer_id \<Rightarrow> node_manager \<Rightarrow> nat option" where
  "nm_get g p m = nm_node_map m (g, pkey p)"

definition get_nodes_by_group_id :: "string \<Rightarrow> node_manager \<Rightarrow> nat list" where
  "get_nodes_by_group_id g m = map snd (filter (\<lambda>(h, i). h = g) (nm_group_map m))"

definition get_all_nodes :: "node_manager \<Rightarrow> nat list" where
  "get_all_nodes m = map snd (nm_group_map m)"

text \<open>Runs of a manager, with the nodes that were added and have not been removed since.\<close>

inductive manager_run :: "(nat \<Rightarrow> node_id) \<Rightarrow> nat set \<Rightarrow> node_manager \<Rightarrow> bool" for nid where
  manager_new: "manager_run nid {} node_manager_new"
| manager_service: "manager_run nid live m \<Longrightarrow> manager_run nid live (snd (add_service has_server added a m))"
| manager_address: "manager_run nid live m \<Longrightarrow> manager_run nid live (remove_address a m)"
| manager_add: "manager_run nid live m \<Longrightarrow> nm_add nid i m = (ok, m')
    \<Longrightarrow> manager_run nid (if ok then insert i live else live) m'"
| manager_remove: "manager_run nid live m \<Longrightarrow> nm_remove nid i m = (ok, m')
    \<Longrightarrow> manager_run nid (if ok then live - {i} else live) m'"

definition manager_inv :: "(nat \<Rightarrow> node_id) \<Rightarrow> nat set \<Rightarrow> node_manager \<Rightarrow> bool" where
  "manager_inv nid live m \<longleftrightarrow>
     distinct (nm_group_map m) \<and> set (nm_group_map m) = (\<lambda>i. (group_id (nid i), i)) ` live
     \<and> (\<forall>k i. nm_node_map m k = Some i \<longleftrightarrow> i \<in> live \<and> node_key (nid i) = k)"

lemma manager_inv_map:
  "manager_inv nid live m \<Longrightarrow> nm_node_map m k = Some i \<longleftrightarrow> i \<in> live \<and> node_key (nid i) = k"
  unfolding manager_inv_def by blast

lemma set_multimap_insert [simp]: "set (multimap_insert g i xs) = insert (g, i) (set xs)"
proof -
  have "set xs = set (takeWhile (\<lambda>(h, j). h \<le> g) xs) \<union> set (dropWhile (\<lambda>(h, j). h \<le> g) xs)"
    by (metis set_append takeWhile_dropWhile_id)
  then show ?thesis by (auto simp: multimap_insert_def)
qed

lemma distinct_multimap_insert: "distinct xs \<Longrightarrow> (g, i) \<notin> set xs \<Longrightarrow> distinct (multimap_insert g i xs)"
proof -
  assume d: "distinct xs" and n: "(g, i) \<notin> set xs"
  have "set (takeWhile (\<lambda>(h, j). h \<le> g) xs) \<inter> set (dropWhile (\<lambda>(h, j). h \<le> g) xs) = {}"
    by (metis d distinct_append takeWhile_dropWhile_id)
  moreover have "set xs = set (takeWhile (\<lambda>(h, j). h \<le> g) xs) \<union> set (dropWhile (\<lambda>(h, j). h \<le> g) xs)"
    by (metis set_append takeWhile_dropWhile_id)
  ultimately show ?thesis using n d by (auto simp: multimap_insert_def)
qed

lemma manager_add_inv:
  assumes inv: "manager_inv nid live m" and add: "nm_add nid i m = (ok, m')"
  shows "manager_inv nid (if ok then insert i live else live) m'"
proof (cases "server_exists (addr (node_peer (nid i))) m \<and> nm_node_map m (node_key (nid i)) = None")
  case False
  with add have "\<not> ok" "m' = m" by (auto simp: nm_add_def nm_add_node_def split: if_splits)
  with inv show ?thesis by simp
next
  case True
  then have m': "ok" "m' = m\<lparr>nm_node_map := (nm_node_map m)(node_key (nid i) \<mapsto> i),
      nm_group_map := multimap_insert (group_id (nid i)) i (nm_group_map m)\<rparr>"
    using add by (auto simp: nm_add_def nm_add_node_def)
  have new: "i \<notin> live" "\<And>j. j \<in> live \<Longrightarrow> node_key (nid j) \<noteq> node_key (nid i)"
    using inv True unfolding manager_inv_def by (metis option.distinct(1))+
  then have "(group_id (nid i), i) \<notin> set (nm_group_map m)"
    using inv by (auto simp: manager_inv_def)
  then show ?thesis
    using inv new m' by (auto simp: manager_inv_def distinct_multimap_insert)
qed

lemma manager_remove_inv:
  assumes inv: "manager_inv nid live m" and remove: "nm_remove nid i m = (ok, m')"
  shows "manager_inv nid (if ok then live - {i} else live) m'" and "ok = (i \<in> live)"
proof -
  have reg: "nm_node_map m (node_key (nid i)) = Some i \<longleftrightarrow> i \<in> live" using manager_inv_map [OF inv] by simp
  have grp: "(group_id (nid i), i) \<in> set (nm_group_map m) \<longleftrightarrow> i \<in> live" using inv by (auto simp: manager_inv_def)
  show ok: "ok = (i \<in> live)" using remove reg grp by (auto simp: nm_remove_def nm_remove_node_def Let_def split: if_splits)
  show "manager_inv nid (if ok then live - {i} else live) m'"
  proof (cases "i \<in> live")
    case False
    with remove reg have "m' = m" by (auto simp: nm_remove_def nm_remove_node_def)
    with inv ok False show ?thesis by simp
  next
    case True
    with remove reg grp have m': "m' = m\<lparr>nm_node_map := (nm_node_map m)(node_key (nid i) := None),
        nm_group_map := remove1 (group_id (nid i), i) (nm_group_map m)\<rparr>"
      by (auto simp: nm_remove_def nm_remove_node_def Let_def)
    have inj: "j = i" if "j \<in> live" "node_key (nid j) = node_key (nid i)" for j
      using manager_inv_map [OF inv, of "node_key (nid i)" j] manager_inv_map [OF inv, of "node_key (nid i)" i] that True by simp
    have "nm_node_map m' k = Some j \<longleftrightarrow> j \<in> live - {i} \<and> node_key (nid j) = k" for k j
      using manager_inv_map [OF inv, of k j] inj [of j] True by (cases "k = node_key (nid i)") (auto simp: m')
    moreover have "distinct (nm_group_map m')" "set (nm_group_map m') = (\<lambda>i. (group_id (nid i), i)) ` (live - {i})"
      using inv by (auto simp: manager_inv_def m')
    ultimately show ?thesis using ok True by (simp add: manager_inv_def)
  qed
qed

lemma manager_run_inv: "manager_run nid live m \<Longrightarrow> manager_inv nid live m"
proof (induction rule: manager_run.induct)
  case manager_new
  then show ?case by (simp add: manager_inv_def node_manager_new_def)
next
  case (manager_service live m has_server added a)
  then show ?case by (simp add: manager_inv_def add_service_def)
next
  case (manager_address live m a)
  then show ?case by (simp add: manager_inv_def remove_address_def)
next
  case (manager_add live m i ok m')
  then show ?case by (blast intro: manager_add_inv)
next
  case (manager_remove live m i ok m')
  then show ?case by (blast intro: manager_remove_inv(1))
qed

lemma manager_nodes:
  assumes "manager_inv nid live m"
  shows "nm_get g p m = Some i \<longleftrightarrow> i \<in> live \<and> node_key (nid i) = (g, pkey p)"
    and "distinct (get_nodes_by_group_id g m)" "set (get_nodes_by_group_id g m) = {i \<in> live. group_id (nid i) = g}"
    and "distinct (get_all_nodes m)" "set (get_all_nodes m) = live"
proof -
  show "nm_get g p m = Some i \<longleftrightarrow> i \<in> live \<and> node_key (nid i) = (g, pkey p)"
    using manager_inv_map [OF assms] by (simp add: nm_get_def)
  have d: "distinct (nm_group_map m)" and s: "set (nm_group_map m) = (\<lambda>i. (group_id (nid i), i)) ` live"
    using assms by (simp_all add: manager_inv_def)
  show "set (get_all_nodes m) = live"
    by (simp add: get_all_nodes_def s image_image)
  have "set (get_nodes_by_group_id g m) = snd ` {x \<in> set (nm_group_map m). fst x = g}"
    by (simp add: get_nodes_by_group_id_def case_prod_beta')
  then show "set (get_nodes_by_group_id g m) = {i \<in> live. group_id (nid i) = g}"
    unfolding s by force
  have inj: "inj_on snd (set (nm_group_map m))" unfolding s by (rule inj_onI) auto
  then show "distinct (get_all_nodes m)" using d by (simp add: get_all_nodes_def distinct_map)
  have "inj_on snd (set (filter (\<lambda>(h, i). h = g) (nm_group_map m)))"
    by (rule inj_on_subset [OF inj]) auto
  then show "distinct (get_nodes_by_group_id g m)" using d by (simp add: get_nodes_by_group_id_def distinct_map)
qed

subsection \<open>The raft service\<close>

text \<open>
  \<open>server\<close> is a process: its manager and its nodes. A request that names no node fails; otherwise the
  node's handler answers, at once or later as one of its effects. Every node has its own environment.
\<close>

record ('s, 'm, 'c) server =
  sv_manager :: node_manager
  sv_nodes :: "nat \<Rightarrow> ('s, 'm, 'c) node"

definition sv_nid :: "('s, 'm, 'c) server \<Rightarrow> nat \<Rightarrow> node_id" where
  "sv_nid sv i = \<lparr>group_id = nd_group_id (sv_nodes sv i), node_peer = nd_server_id (sv_nodes sv i)\<rparr>"

definition find_node ::
  "(string \<Rightarrow> 32 word option) \<Rightarrow> string \<Rightarrow> string \<Rightarrow> node_manager \<Rightarrow> errno + nat" where
  "find_node str2ip g peer m =
     (case peer_parse str2ip peer of
        None \<Rightarrow> Inl EINVAL
      | Some p \<Rightarrow> (case nm_get g p m of None \<Rightarrow> Inl ENOENT | Some i \<Rightarrow> Inr i))"

definition sv_handle ::
  "nat \<Rightarrow> (('s, 'm, 'c) node \<Rightarrow> 'r \<times> ('s, 'm, 'c) node) \<Rightarrow> ('s, 'm, 'c) server \<Rightarrow> 'r \<times> ('s, 'm, 'c) server" where
  "sv_handle i f sv = (case f (sv_nodes sv i) of (r, n) \<Rightarrow> (r, sv\<lparr>sv_nodes := (sv_nodes sv)(i := n)\<rparr>))"

type_synonym ('s, 'm, 'c) server_env = "nat \<Rightarrow> ('s, 'm, 'c) node_env"

definition service_pre_vote ::
  "(string \<Rightarrow> 32 word option) \<Rightarrow> ('s, 'm, 'c) server_env \<Rightarrow> request_vote_request \<Rightarrow> ('s, 'm, 'c) server
   \<Rightarrow> (errno + request_vote_response) \<times> ('s, 'm, 'c) server" where
  "service_pre_vote str2ip E r sv =
     (case find_node str2ip (vq_group_id r) (vq_peer_id r) (sv_manager sv) of
        Inl e \<Rightarrow> (Inl e, sv)
      | Inr i \<Rightarrow> sv_handle i (handle_pre_vote_request (E i) r) sv)"

definition service_request_vote ::
  "(string \<Rightarrow> 32 word option) \<Rightarrow> ('s, 'm, 'c) server_env \<Rightarrow> request_vote_request \<Rightarrow> ('s, 'm, 'c) server
   \<Rightarrow> (errno + request_vote_response) \<times> ('s, 'm, 'c) server" where
  "service_request_vote str2ip E r sv =
     (case find_node str2ip (vq_group_id r) (vq_peer_id r) (sv_manager sv) of
        Inl e \<Rightarrow> (Inl e, sv)
      | Inr i \<Rightarrow> sv_handle i (handle_request_vote_request (E i) r) sv)"

definition service_append_entries ::
  "(string \<Rightarrow> 32 word option) \<Rightarrow> ('s, 'm, 'c) server_env \<Rightarrow> nat \<Rightarrow> append_entries_request \<Rightarrow> ('s, 'm, 'c) server
   \<Rightarrow> (errno + unit) \<times> ('s, 'm, 'c) server" where
  "service_append_entries str2ip E call r sv =
     (case find_node str2ip (aq_group_id r) (aq_peer_id r) (sv_manager sv) of
        Inl e \<Rightarrow> (Inl e, sv)
      | Inr i \<Rightarrow> sv_handle i (\<lambda>n. (Inr (), handle_append_entries_request (E i) call r False n)) sv)"

definition service_install_snapshot ::
  "(string \<Rightarrow> 32 word option) \<Rightarrow> ('s, 'm, 'c) server_env \<Rightarrow> nat \<Rightarrow> install_snapshot_request \<Rightarrow> ('s, 'm, 'c) server
   \<Rightarrow> (errno + install_snapshot_response option) \<times> ('s, 'm, 'c) server" where
  "service_install_snapshot str2ip E call r sv =
     (case find_node str2ip (iq_group_id r) (iq_peer_id r) (sv_manager sv) of
        Inl e \<Rightarrow> (Inl e, sv)
      | Inr i \<Rightarrow> sv_handle i (handle_install_snapshot_request (E i) call r) sv)"

definition service_timeout_now ::
  "(string \<Rightarrow> 32 word option) \<Rightarrow> ('s, 'm, 'c) server_env \<Rightarrow> nat \<Rightarrow> timeout_now_request \<Rightarrow> ('s, 'm, 'c) server
   \<Rightarrow> (errno + unit) \<times> ('s, 'm, 'c) server" where
  "service_timeout_now str2ip E call r sv =
     (case find_node str2ip (tq_group_id r) (tq_peer_id r) (sv_manager sv) of
        Inl e \<Rightarrow> (Inl e, sv)
      | Inr i \<Rightarrow> sv_handle i (\<lambda>n. (Inr (), handle_timeout_now_request (E i) call r n)) sv)"

subsection \<open>Property of the registry and the service\<close>

definition sample_server :: "(mem_log, single_meta, nat) server" where
  "sample_server =
     (let node = (\<lambda>i. node_new ''g'' (sample_peer (int i + 1)) mem_log_new (fm_reopen sample_fresh_meta));
          nid = (\<lambda>i. \<lparr>group_id = ''g'', node_peer = sample_peer (int i + 1)\<rparr>);
          m = snd (add_service True [True] (EndPoint 0 2) (snd (add_service True [True] (EndPoint 0 1) node_manager_new)))
      in \<lparr>sv_manager = snd (nm_add nid 1 (snd (nm_add nid 0 m))), sv_nodes = node\<rparr>)"

lemma sample_server_nid: "sv_nid sample_server = (\<lambda>i. \<lparr>group_id = ''g'', node_peer = sample_peer (int i + 1)\<rparr>)"
  by (rule ext) (simp add: sv_nid_def sample_server_def node_new_def Let_def)

lemma sample_server_run: "manager_run (sv_nid sample_server) {0, 1} (sv_manager sample_server)"
proof -
  let ?nid = "\<lambda>i. \<lparr>group_id = ''g'', node_peer = sample_peer (int i + 1)\<rparr>"
  let ?m = "snd (add_service True [True] (EndPoint 0 2) (snd (add_service True [True] (EndPoint 0 1) node_manager_new)))"
  have m: "?m = node_manager_new\<lparr>nm_addrs := [EndPoint 0 2, EndPoint 0 1]\<rparr>"
    by (simp add: add_service_def server_exists_def node_manager_new_def)
  have run: "manager_run ?nid {} ?m"
    by (intro manager_service manager_new)
  have 0: "nm_add ?nid 0 ?m = (True, snd (nm_add ?nid 0 ?m))"
    unfolding m by (simp add: nm_add_def nm_add_node_def server_exists_def node_manager_new_def sample_peer_def)
  have 1: "nm_add ?nid 1 (snd (nm_add ?nid 0 ?m)) = (True, snd (nm_add ?nid 1 (snd (nm_add ?nid 0 ?m))))"
    unfolding m by (simp add: nm_add_def nm_add_node_def server_exists_def node_manager_new_def sample_peer_def node_key_def pkey_def)
  from manager_add [OF manager_add [OF run 0] 1] show ?thesis
    unfolding sample_server_nid by (simp add: sample_server_def Let_def insert_commute)
qed

definition sample_vote_request :: request_vote_request where
  "sample_vote_request = \<lparr>vq_group_id = ''g'', vq_server_id = ''h:3'', vq_peer_id = peer_to_string sample_meta_endpoint2str (sample_peer 1),
     vq_term = 2, vq_last_log_term = 0, vq_last_log_index = 0, vq_disrupted_leader = None\<rparr>"

text \<open>
  C32. After any additions and removals of nodes and services the registry holds exactly the live nodes, each once and
  no two with the same id, and a request for a vote that comes in is handled by the one live node it
  names and by no other; a request that names none is refused and changes nothing.
\<close>
theorem raft_rpcs_reach_their_node:
  assumes run: "manager_run (sv_nid sv) live (sv_manager sv)" and vote: "service_request_vote str2ip E r sv = (res, sv')"
  shows "distinct (get_all_nodes (sv_manager sv)) \<and> set (get_all_nodes (sv_manager sv)) = live
    \<and> inj_on (\<lambda>i. node_key (sv_nid sv i)) live \<and> sv_manager sv' = sv_manager sv
    \<and> (case peer_parse str2ip (vq_peer_id r) of
         None \<Rightarrow> res = Inl EINVAL \<and> sv' = sv
       | Some p \<Rightarrow>
           if (vq_group_id r, pkey p) \<in> (\<lambda>i. node_key (sv_nid sv i)) ` live
           then (\<exists>i \<in> live. node_key (sv_nid sv i) = (vq_group_id r, pkey p)
                  \<and> handle_request_vote_request (E i) r (sv_nodes sv i) = (res, sv_nodes sv' i)
                  \<and> (\<forall>j. j \<noteq> i \<longrightarrow> sv_nodes sv' j = sv_nodes sv j))
           else res = Inl ENOENT \<and> sv' = sv)"
proof -
  note inv = manager_run_inv [OF run]
  note nodes = manager_nodes [OF inv]
  have inj: "inj_on (\<lambda>i. node_key (sv_nid sv i)) live"
  proof (rule inj_onI)
    fix i j assume "i \<in> live" "j \<in> live" "node_key (sv_nid sv i) = node_key (sv_nid sv j)"
    then show "i = j"
      using manager_inv_map [OF inv, of "node_key (sv_nid sv i)" i] manager_inv_map [OF inv, of "node_key (sv_nid sv i)" j] by simp
  qed
  show ?thesis
  proof (cases "peer_parse str2ip (vq_peer_id r)")
    case None
    with vote nodes(4,5) inj show ?thesis by (simp add: service_request_vote_def find_node_def)
  next
    case (Some p)
    show ?thesis
    proof (cases "nm_get (vq_group_id r) p (sv_manager sv)")
      case None': None
      then have "(vq_group_id r, pkey p) \<notin> (\<lambda>i. node_key (sv_nid sv i)) ` live"
        using nodes(1) [of "vq_group_id r" p] by (metis (no_types, lifting) image_iff option.distinct(1))
      with vote nodes(4,5) inj Some None' show ?thesis by (simp add: service_request_vote_def find_node_def)
    next
      case (Some i)
      then have i: "i \<in> live" "node_key (sv_nid sv i) = (vq_group_id r, pkey p)" using nodes(1) by blast+
      then have img: "(vq_group_id r, pkey p) \<in> (\<lambda>i. node_key (sv_nid sv i)) ` live" by (metis image_eqI)
      have "service_request_vote str2ip E r sv = sv_handle i (handle_request_vote_request (E i) r) sv"
        using Some \<open>peer_parse str2ip (vq_peer_id r) = Some p\<close> by (simp add: service_request_vote_def find_node_def)
      with vote have h: "handle_request_vote_request (E i) r (sv_nodes sv i) = (res, sv_nodes sv' i)"
        "sv_manager sv' = sv_manager sv" "\<forall>j. j \<noteq> i \<longrightarrow> sv_nodes sv' j = sv_nodes sv j"
        by (auto simp: sv_handle_def split: prod.splits)
      with i img show ?thesis using nodes(4,5) inj \<open>peer_parse str2ip (vq_peer_id r) = Some p\<close> by auto
    qed
  qed
qed

theorem raft_rpcs_reach_their_node_witness:
  "sv_nodes (snd (service_request_vote sample_meta_str2ip (\<lambda>i. sample_node_env) sample_vote_request sample_server)) 1
   = sv_nodes sample_server 1"
proof -
  obtain res sv' where v: "service_request_vote sample_meta_str2ip (\<lambda>i. sample_node_env) sample_vote_request sample_server = (res, sv')"
    by fastforce
  have "peer_parse sample_meta_str2ip (vq_peer_id sample_vote_request) = Some (sample_peer 1)" "vq_group_id sample_vote_request = ''g''"
    by (simp_all add: sample_vote_request_def)
  then show ?thesis
    using raft_rpcs_reach_their_node [OF sample_server_run v] v
    by (auto simp: sample_server_nid node_key_def split: if_splits)
qed

end
