(* ===== verification/Spec2Isabelle.thy ===== *)
theory Spec2Isabelle
  imports NodeSafety SegmentLogProps FsmProps SnapshotExecutorSafety SnapshotProps MergedMetaProps RemoteCopyProps
    RepeatedTimer NodeBootstrap NodeManager
begin

section \<open>A model of braft\<close>

text \<open>
  braft (src/src/braft) is a C++ implementation of the raft consensus protocol. A process runs nodes, each a member of a
  group. A node elects leaders, and the leader replicates a log of entries to the other members; entries a majority
  holds are committed and applied to the state machine of the user; snapshots stand for the part of
  the log they cover. The theories follow the files of the program, and definitions have the names of the functions they
  model, with a short prefix per class where names repeat (\<open>lm_\<close> for \<open>LogManager\<close>, \<open>bb_\<close>
  for \<open>BallotBox\<close>, \<open>fc_\<close> for \<open>FSMCaller\<close>, and so on).

  \<^bold>\<open>How code is modelled.\<close> A class is a record of its fields, an operation a function that returns the new
  record, an error a value of \<open>rc\<close>, \<open>status\<close> or a sum. Integers of 64 bits are \<open>int\<close> where
  the program counts indexes, terms and times, and words where it packs bytes or relies on wrap-around; \<open>int64\<close>
  states the range where a theorem needs it. What an operation makes other parts do (RPCs, timers, closures, calls of
  the state machine) is an explicit list of effects or events, in the order of the code. A critical section is one step; where a
  function gives up its lock, it is split there, and a step relation lets other steps come between. The clock, flags,
  random numbers and the outcomes of file operations and of starting timers and threads are fields of an environment, one
  per component. Third-party code (protobuf, leveldb, checksums, endpoint printing, string splitting) is a
  parameter, with its documented behaviour as a hypothesis where a theorem needs it. Loops are structural recursions or
  have a termination proof by a measure; there is no fuel.

  \<^bold>\<open>Peers and votes.\<close> PeerConf and ConfSet (configuration.h, configuration.cpp) have peer ids, their
  text and configurations as ordered sets. Ballot, ClosureQueue and BallotBox (ballot, closure_queue,
  ballot_box) count the acknowledgements of entries: granted ballots share a voter, \<open>commit_at\<close> refines the commit of
  an abstract list of ballots, and each index is reported once. RaftTypes, ConfigManager and Lease have log ids and
  entries, the history of configurations, and the leases that let a leader answer reads.

  \<^bold>\<open>The log.\<close> MemoryLog states the contract of \<open>LogStorage\<close> as the locale \<open>log_storage\<close> and
  interprets it for memory_log.cpp. LogFile, Segment and SegmentLog model log.cpp, records in segment files in
  a directory; SegmentSafety, SegmentLogSafety, SegmentLogTruncate and SegmentLogRestart show that it keeps the list of its
  entries through appends, truncations, crashes and restarts, and SegmentLogRefine interprets the
  locale for it. LogManager (log_manager.cpp) is proved over any such storage: LogManagerSafety has its
  invariant, LogManagerRefine the refinement of the log that is in its memory, its queue and the storage.
  SegmentLogProps puts the manager on segments.

  \<^bold>\<open>The node.\<close> RaftMessages has the messages, closures and effects; Replicator (replicator.cpp) sends the log to
  one follower. NodeState, NodeConf, NodeElection, NodeAppend and NodeMisc model node.cpp by subject: roles,
  configuration changes, elections and votes, replication on both sides, transfer, timeouts, status and start-up;
  AppendCache is the cache of requests that come out of order and NodeBootstrap the first log of a member. RaftMeta and
  MergedMeta model protobuf_file.cpp and raft_meta.cpp, which keep the term and the vote, behind
  the locales \<open>meta_storage\<close> and \<open>durable_meta\<close>. NodeVotes and NodeRun show that over any run
  of a process, with nested handlers, crashes and restarts, a node votes once per term and what it sent is on
  disk; MergedMetaSafety shows what the storage that writes to two places keeps; NodeSafety has the properties
  of single handlers. RepeatedTimer models the timers of a node and NodeManager the registry of a process
  and its raft service. SampleNode is a concrete node for the witnesses.

  \<^bold>\<open>The state machine and snapshots.\<close> FsmCaller (fsm_caller.cpp, and the iterator of raft.cpp) is the loop that hands
  over committed entries; the user's \<open>on_apply\<close> is a program over the iterator. FsmClosures, FsmRun and
  FsmSafety show that entries come once and in order and closures run once. SnapshotThrottle and
  SnapshotExecutor (snapshot_executor.cpp) start and install snapshots, one at a time; SnapshotExecutorSafety is
  their invariant over all interleavings. Snapshot (snapshot.cpp) is the storage, with writers, readers and the
  copier; SnapshotTables, SnapshotSafety and SnapshotCopy show that nothing that is read is deleted and
  that a copy is the leader's snapshot, and SnapshotData where the data of each of its files comes from. RemoteCopy and RemoteSession (util.cpp, file_reader.cpp, file_service.cpp,
  remote_file_copier.cpp) copy single files piece by piece; RemoteCopySafety shows that a copy is whole.
  Prelude holds what the components share about lists.

  \<^bold>\<open>Not modelled.\<close> file_system_adaptor and fsync are system calls: their outcomes are parameters.
  The cli service, the client of it and the routing table (cli.cpp, cli_service.cpp, route_table.cpp) parse a request, find
  the node and call one of its modelled operations. builtin_service_impl.cpp, the \<open>describe\<close> functions and metrics
  print. raft.cpp and raft.h are the facade over \<open>NodeImpl\<close>, storage.cpp chooses a storage by the
  protocol of a uri, and closure_helper.h holds templates for closures with bound arguments. The RPC channels are brpc's: a
  call is an effect, its answer an event. Reference counts of objects in memory are not modelled, but those of
  snapshots on disk are. The programs under src/examples use the library.
\<close>

end
